(* ===== verification/IFuse_Prelude.thy ===== *)
theory IFuse_Prelude
  imports Main "HOL-Library.Word" "HOL-Library.Char_ord" "HOL-Library.List_Lexorder"
    "HOL-Library.Monad_Syntax"
begin

text \<open>
  Shared vocabulary of the development: the errno values and open flags of the C library,
  byte buffers with \<open>memcpy\<close>, and \<open>std::map\<close>, which the components keep their tables in.
  Operations that can hit a failed \<open>assert\<close> or undefined behaviour (a NULL or dangling
  pointer, a copy past the end of a buffer, an exception nobody catches) return an
  \<open>option\<close>; \<open>None\<close> is that abort. Everything else is a plain result with the new state.
\<close>

named_theorems ifuse_defs \<open>definitions the component proofs unfold together\<close>

section \<open>Errno values and flags of the C library (Linux)\<close>

abbreviation ENOENT :: int where "ENOENT \<equiv> 2"
abbreviation EIO :: int where "EIO \<equiv> 5"
abbreviation EEXIST :: int where "EEXIST \<equiv> 17"
abbreviation ENOTDIR :: int where "ENOTDIR \<equiv> 20"
abbreviation EINVAL :: int where "EINVAL \<equiv> 22"
abbreviation ENOTEMPTY :: int where "ENOTEMPTY \<equiv> 39"
abbreviation ENOBUFS :: int where "ENOBUFS \<equiv> 105"

type_synonym flags = "32 word"

definition O_RDONLY :: flags where "O_RDONLY = 0"
definition O_WRONLY :: flags where "O_WRONLY = 1"
definition O_RDWR :: flags where "O_RDWR = 2"

text \<open>\<open>flag & O_ACCMODE\<close>: the access mode is held in the two low bits.\<close>

definition accmode :: "flags \<Rightarrow> flags" where
  "accmode flag = and flag 3"

text \<open>Division of C's \<open>int\<close>: it rounds towards zero.\<close>

definition c_div :: "int \<Rightarrow> int \<Rightarrow> int" where
  "c_div a b = sgn a * sgn b * (\<bar>a\<bar> div \<bar>b\<bar>)"

lemma c_div_nonneg: "0 \<le> a \<Longrightarrow> 0 < b \<Longrightarrow> c_div a b = a div b"
  by (cases "a = 0") (simp_all add: c_div_def)

section \<open>Byte buffers\<close>

type_synonym bytes = "char list"

abbreviation NUL :: char where "NUL \<equiv> CHR 0x00"

text \<open>\<open>calloc(1, n)\<close> when it succeeds: \<open>n\<close> zero bytes.\<close>

definition zeros :: "nat \<Rightarrow> bytes" where
  "zeros n = replicate n NUL"

text \<open>
  \<open>overlay buf off src\<close> is \<open>buf\<close> with \<open>src\<close> written at \<open>off\<close>, the gap filled with zero
  bytes when \<open>off\<close> lies past the end: what a write does to a file, and, inside the
  bounds, what \<open>memcpy\<close> does to a buffer.
\<close>

definition overlay :: "bytes \<Rightarrow> nat \<Rightarrow> bytes \<Rightarrow> bytes" where
  "overlay buf off src =
     take off buf @ zeros (off - length buf) @ src @ drop (off + length src) buf"

text \<open>\<open>memcpy(dst + off, src, n)\<close>: past the end of \<open>dst\<close> it is undefined.\<close>

definition memcpy :: "bytes \<Rightarrow> nat \<Rightarrow> bytes \<Rightarrow> bytes option" where
  "memcpy dst off src =
     (if off + length src \<le> length dst then Some (overlay dst off src) else None)"

text \<open>\<open>memcpy(_, src + off, n)\<close>: the bytes read, when they all lie in \<open>src\<close>.\<close>

definition slice :: "bytes \<Rightarrow> nat \<Rightarrow> nat \<Rightarrow> bytes option" where
  "slice src off n =
     (if off + n \<le> length src then Some (take n (drop off src)) else None)"

lemma length_zeros [simp]: "length (zeros n) = n"
  by (simp add: zeros_def)

lemma zeros_0 [simp]: "zeros 0 = []"
  by (simp add: zeros_def)

lemma nth_zeros [simp]: "i < n \<Longrightarrow> zeros n ! i = NUL"
  by (simp add: zeros_def)

lemma take_zeros [simp]: "take k (zeros n) = zeros (min k n)"
  by (simp add: zeros_def)

lemma drop_zeros [simp]: "drop k (zeros n) = zeros (n - k)"
  by (simp add: zeros_def)

lemma zeros_append: "zeros m @ zeros n = zeros (m + n)"
  by (simp add: zeros_def replicate_add)

lemma length_overlay [simp]:
  "length (overlay buf off src) = max (length buf) (off + length src)"
  by (auto simp: overlay_def)

text \<open>Reading a byte past the end of a list is \<open>NUL\<close>: the padded view of a buffer.\<close>

definition byte_at :: "bytes \<Rightarrow> nat \<Rightarrow> char" where
  "byte_at xs i = (if i < length xs then xs ! i else NUL)"

lemma byte_at_overlay:
  "byte_at (overlay buf off src) i =
     (if off \<le> i \<and> i < off + length src then byte_at src (i - off) else byte_at buf i)"
  by (auto simp: byte_at_def overlay_def nth_append min_def)

lemma bytes_eqI:
  assumes "length xs = length ys" and "\<And>i. i < length ys \<Longrightarrow> byte_at xs i = byte_at ys i"
  shows "xs = ys"
  using assms by (intro nth_equalityI) (auto simp: byte_at_def)

lemma byte_at_append:
  "byte_at (xs @ ys) i = (if i < length xs then byte_at xs i else byte_at ys (i - length xs))"
  by (auto simp: byte_at_def nth_append)

lemma byte_at_take: "byte_at (take n xs) i = (if i < n then byte_at xs i else NUL)"
  by (auto simp: byte_at_def)

lemma byte_at_drop: "byte_at (drop n xs) i = byte_at xs (n + i)"
  by (auto simp: byte_at_def)

lemma byte_at_zeros [simp]: "byte_at (zeros n) i = NUL"
  by (auto simp: byte_at_def)

lemma byte_at_beyond: "length xs \<le> i \<Longrightarrow> byte_at xs i = NUL"
  by (simp add: byte_at_def)

lemmas byte_at_simps = byte_at_overlay byte_at_append byte_at_take byte_at_drop

lemma overlay_Nil_at_end [simp]: "overlay buf (length buf) src = buf @ src"
  by (simp add: overlay_def)

lemma overlay_0_Nil [simp]: "overlay [] 0 src = src"
  by (simp add: overlay_def)

text \<open>Two writes where the second starts inside or at the end of the first are one write.\<close>

lemma overlay_overlay_extend:
  assumes "off1 \<le> off2" and "off2 \<le> off1 + length src1"
  shows "overlay (overlay buf off1 src1) off2 src2
       = overlay buf off1 (overlay src1 (off2 - off1) src2)"
proof (rule bytes_eqI)
  fix i
  have "i - off1 - (off2 - off1) = i - off2" using assms by simp
  then show "byte_at (overlay (overlay buf off1 src1) off2 src2) i
       = byte_at (overlay buf off1 (overlay src1 (off2 - off1) src2)) i"
    using assms unfolding byte_at_overlay length_overlay by (simp, linarith)
qed (use assms in simp)

text \<open>Two writes where the second starts before the first and reaches it are one write.\<close>

lemma overlay_overlay_before:
  assumes "off2 \<le> off1" and "off1 \<le> off2 + length src2"
  shows "overlay (overlay buf off1 src1) off2 src2
       = overlay buf off2 (overlay (overlay src2 (off1 - off2) src1) 0 src2)"
proof (rule bytes_eqI)
  fix i
  have "i - off2 - (off1 - off2) = i - off1" using assms by simp
  then show "byte_at (overlay (overlay buf off1 src1) off2 src2) i
       = byte_at (overlay buf off2 (overlay (overlay src2 (off1 - off2) src1) 0 src2)) i"
    using assms unfolding byte_at_overlay length_overlay by (simp, linarith)
qed (use assms in simp)

lemma memcpy_Some [simp]:
  "memcpy dst off src = Some r \<longleftrightarrow> off + length src \<le> length dst \<and> r = overlay dst off src"
  by (auto simp: memcpy_def)

lemma slice_Some [simp]:
  "slice src off n = Some r \<longleftrightarrow> off + n \<le> length src \<and> r = take n (drop off src)"
  by (auto simp: slice_def)

section \<open>std::map\<close>

text \<open>
  A \<open>std::map\<close> is kept as the list of its entries in key order, the order its iterators
  visit them. \<open>operator[]\<close> with an assignment inserts or replaces, \<open>erase\<close> removes.
\<close>

type_synonym ('k, 'v) stdmap = "('k \<times> 'v) list"

fun map_insert :: "'k::linorder \<Rightarrow> 'v \<Rightarrow> ('k, 'v) stdmap \<Rightarrow> ('k, 'v) stdmap" where
  "map_insert k v [] = [(k, v)]"
| "map_insert k v ((k', v') # m) =
     (if k < k' then (k, v) # (k', v') # m
      else if k = k' then (k, v) # m
      else (k', v') # map_insert k v m)"

fun map_erase :: "'k::linorder \<Rightarrow> ('k, 'v) stdmap \<Rightarrow> ('k, 'v) stdmap" where
  "map_erase k [] = []"
| "map_erase k ((k', v') # m) = (if k = k' then m else (k', v') # map_erase k m)"

abbreviation map_find :: "('k, 'v) stdmap \<Rightarrow> 'k \<Rightarrow> 'v option" where
  "map_find m k \<equiv> map_of m k"

definition map_ok :: "('k::linorder, 'v) stdmap \<Rightarrow> bool" where
  "map_ok m \<longleftrightarrow> sorted_wrt (<) (map fst m)"

lemma map_ok_Nil [simp]: "map_ok []"
  by (simp add: map_ok_def)

lemma map_ok_Cons:
  "map_ok (x # m) \<longleftrightarrow> (\<forall>y \<in> set m. fst x < fst y) \<and> map_ok m"
  by (auto simp: map_ok_def)

lemma map_ok_distinct: "map_ok m \<Longrightarrow> distinct (map fst m)"
  by (induction m) (fastforce simp: map_ok_Cons)+

lemma set_map_insert_cases: "x \<in> set (map_insert k v m) \<Longrightarrow> x = (k, v) \<or> x \<in> set m"
  by (induction m) (auto split: if_splits)

lemma find_map_insert [simp]: "map_find (map_insert k v m) = (map_find m)(k \<mapsto> v)"
  by (induction m) (auto simp: fun_eq_iff)

lemma map_ok_insert [simp, intro]: "map_ok m \<Longrightarrow> map_ok (map_insert k v m)"
  by (induction m) (fastforce simp: map_ok_Cons dest: set_map_insert_cases)+

lemma map_erase_subset: "set (map_erase k m) \<subseteq> set m"
  by (induction m) (auto split: if_splits)

lemma map_ok_erase [simp, intro]: "map_ok m \<Longrightarrow> map_ok (map_erase k m)"
proof (induction m)
  case (Cons a m)
  then show ?case using map_erase_subset [of k m] by (cases a) (fastforce simp: map_ok_Cons)
qed simp

lemma find_map_erase: "map_ok m \<Longrightarrow> map_find (map_erase k m) = (map_find m)(k := None)"
proof (induction m)
  case (Cons a m)
  then have "fst a \<notin> fst ` set m" by (fastforce simp: map_ok_Cons)
  with Cons show ?case
    by (cases a) (auto simp: map_ok_Cons fun_eq_iff map_of_eq_None_iff)
qed (simp add: fun_eq_iff)

lemma map_erase_absent: "map_find m k = None \<Longrightarrow> map_erase k m = m"
  by (induction m) (auto split: if_splits)

lemma set_map_erase: "map_ok m \<Longrightarrow> set (map_erase k m) = {x \<in> set m. fst x \<noteq> k}"
proof (induction m)
  case (Cons a m)
  then have "\<forall>y \<in> set m. fst y \<noteq> fst a" and "map_ok m" by (auto simp: map_ok_Cons)
  with Cons.IH show ?case by (cases a) auto
qed simp

lemma map_ok_filter: "map_ok m \<Longrightarrow> map_ok (filter P m)"
  by (induction m) (auto simp: map_ok_Cons)

text \<open>
  The contract the caches and pools rely on, stated as an interface: a finite table with
  lookup, insertion and removal, and an invariant its operations keep.
\<close>

locale table =
  fixes find :: "'m \<Rightarrow> 'k \<Rightarrow> 'v option"
    and ins :: "'k \<Rightarrow> 'v \<Rightarrow> 'm \<Rightarrow> 'm"
    and del :: "'k \<Rightarrow> 'm \<Rightarrow> 'm"
    and ok :: "'m \<Rightarrow> bool"
  assumes find_ins: "ok m \<Longrightarrow> find (ins k v m) = (find m)(k \<mapsto> v)"
    and find_del: "ok m \<Longrightarrow> find (del k m) = (find m)(k := None)"
    and ok_ins: "ok m \<Longrightarrow> ok (ins k v m)"
    and ok_del: "ok m \<Longrightarrow> ok (del k m)"
begin

text \<open>Replacing an entry by erasing it first, as the caches do, is plain insertion.\<close>

lemma find_replace: "ok m \<Longrightarrow> find (ins k v (del k m)) = (find m)(k \<mapsto> v)"
  by (simp add: find_ins find_del ok_del)

lemma ok_replace: "ok m \<Longrightarrow> ok (ins k v (del k m))"
  by (simp add: ok_ins ok_del)

lemma find_del_list:
  "ok m \<Longrightarrow> find (fold del ks m) k = (if k \<in> set ks then None else find m k) \<and> ok (fold del ks m)"
  by (induction ks arbitrary: m) (auto simp: find_del ok_del)

end

interpretation std: table map_of map_insert map_erase map_ok
  by unfold_locales (auto simp: find_map_erase)

section \<open>Small facts on lists and options\<close>

fun opt_list :: "'a option \<Rightarrow> 'a list" where
  "opt_list None = []"
| "opt_list (Some x) = [x]"

lemma set_opt_list [simp]: "set (opt_list x) = set_option x"
  by (cases x) auto

lemma distinct_opt_list [simp]: "distinct (opt_list x)"
  by (cases x) auto

text \<open>The non-NULL pointers of an array, in index order.\<close>

definition slot_ptrs :: "'a option list \<Rightarrow> 'a list" where
  "slot_ptrs xs = concat (map opt_list xs)"

lemma slot_ptrs_simps [simp]:
  "slot_ptrs [] = []"
  "slot_ptrs (x # xs) = opt_list x @ slot_ptrs xs"
  by (simp_all add: slot_ptrs_def)

lemma slot_ptrs_append [simp]: "slot_ptrs (xs @ ys) = slot_ptrs xs @ slot_ptrs ys"
  by (simp add: slot_ptrs_def)

lemma set_slot_ptrs: "set (slot_ptrs xs) = {p. Some p \<in> set xs}"
proof (induction xs)
  case (Cons x xs)
  then show ?case by (cases x) auto
qed simp

lemma slot_ptrs_replicate_None [simp]: "slot_ptrs (replicate n None) = []"
  by (induction n) auto

text \<open>Filling an empty slot adds exactly its pointer.\<close>

lemma slot_ptrs_fill:
  assumes "i < length xs" and "xs ! i = None"
  shows "slot_ptrs (xs[i := Some p]) = slot_ptrs (take i xs) @ p # slot_ptrs (drop (Suc i) xs)"
    and "slot_ptrs xs = slot_ptrs (take i xs) @ slot_ptrs (drop (Suc i) xs)"
proof -
  show "slot_ptrs (xs[i := Some p]) = slot_ptrs (take i xs) @ p # slot_ptrs (drop (Suc i) xs)"
    using assms by (simp add: upd_conv_take_nth_drop)
  have "slot_ptrs xs = slot_ptrs (take i xs @ xs ! i # drop (Suc i) xs)"
    using id_take_nth_drop [OF assms(1)] by (rule arg_cong)
  with assms show "slot_ptrs xs = slot_ptrs (take i xs) @ slot_ptrs (drop (Suc i) xs)"
    by simp
qed

lemma slot_ptrs_clear:
  assumes "i < length xs" and "xs ! i = Some p"
  shows "slot_ptrs (xs[i := None]) = slot_ptrs (take i xs) @ slot_ptrs (drop (Suc i) xs)"
    and "slot_ptrs xs = slot_ptrs (take i xs) @ p # slot_ptrs (drop (Suc i) xs)"
proof -
  show "slot_ptrs (xs[i := None]) = slot_ptrs (take i xs) @ slot_ptrs (drop (Suc i) xs)"
    using assms by (simp add: upd_conv_take_nth_drop)
  have "slot_ptrs xs = slot_ptrs (take i xs @ xs ! i # drop (Suc i) xs)"
    using id_take_nth_drop [OF assms(1)] by (rule arg_cong)
  with assms show "slot_ptrs xs = slot_ptrs (take i xs) @ p # slot_ptrs (drop (Suc i) xs)"
    by simp
qed

text \<open>\<open>std::list::remove\<close> drops every occurrence of a value.\<close>

lemma removeAll_distinct: "distinct xs \<Longrightarrow> distinct (removeAll x xs)"
  by (simp add: distinct_removeAll)

lemma bind_Some_iff [simp]:
  "(m \<bind> f) = Some y \<longleftrightarrow> (\<exists>x. m = Some x \<and> f x = Some y)"
  by (cases m) auto

section \<open>Steps that use something up\<close>

text \<open>
  \<open>step k s s'\<close>: from \<open>s\<close> to \<open>s'\<close> at the price of \<open>k\<close> at most. The layers above the connection pool
  count the identifiers of connections in this way.
\<close>

locale metered =
  fixes step :: "nat \<Rightarrow> 's \<Rightarrow> 's \<Rightarrow> bool"
  assumes same: "step k s s"
    and after: "step j s s' \<Longrightarrow> step k s' s'' \<Longrightarrow> j + k \<le> n \<Longrightarrow> step n s s''"
begin

lemma less: "step j s s' \<Longrightarrow> j \<le> k \<Longrightarrow> step k s s'"
  by (rule after [of j s s' 0 s' k]) (simp_all add: same)

lemma bind:
  assumes "Option.bind m f = Some (y, s')" and "\<And>x s1. m = Some (x, s1) \<Longrightarrow> step j s s1"
    and "\<And>x s1. m = Some (x, s1) \<Longrightarrow> f (x, s1) = Some (y, s') \<Longrightarrow> step k s1 s'" and "j + k \<le> n"
  shows "step n s s'"
proof -
  from assms(1) obtain x s1 where "m = Some (x, s1)" "f (x, s1) = Some (y, s')" by (auto simp: bind_eq_Some_conv)
  with assms(2-4) show ?thesis by (blast intro: after)
qed

end

end
