(* ===== verification/IFuse_Ext.thy ===== *)
theory IFuse_Ext
  imports IFuse_Prelude
begin

text \<open>
  The world outside \<open>src/\<close>: the iRODS client library (\<open>rc*\<close>, \<open>rcl*\<close>, error codes,
  \<open>rstrcpy\<close>, \<open>parseRodsPathStr\<close>), the clock, the allocator and thread creation. None of it is defined here.
  It is the record \<open>'w ext\<close>, a parameter of every definition that uses it; \<open>'w\<close> is the
  state of that world (server, network, clock, allocator), which each call takes and returns.
  What a theorem relies on about it is a named hypothesis of that theorem.
\<close>

text \<open>The fields of \<open>rodsEnv\<close> the client reads.\<close>

record rodsEnv =
  rodsHost :: string
  rodsPort :: int
  rodsUserName :: string
  rodsZone :: string
  rodsDefResource :: string
  rodsCwd :: string

text \<open>\<open>objType_t\<close>: the three values the client tests for, and any other.\<close>

datatype objType = UNKNOWN_OBJ_T | DATA_OBJ_T | COLL_OBJ_T | OTHER_OBJ_T int

text \<open>The fields of \<open>rodsObjStat_t\<close> and \<open>collEnt_t\<close> the client reads; a NULL string is \<open>None\<close>.\<close>

record rodsObjStat =
  os_objType :: objType
  os_objSize :: int
  os_dataMode :: "32 word"
  os_dataId :: "string option"
  os_createTime :: "string option"
  os_modifyTime :: "string option"

record collEnt =
  ce_objType :: objType
  ce_dataName :: string
  ce_collName :: string
  ce_dataMode :: "32 word"
  ce_dataSize :: int
  ce_dataId :: "string option"
  ce_createTime :: "string option"
  ce_modifyTime :: "string option"

text \<open>
  A \<open>rcComm_t *\<close> is an opaque handle, NULL being \<open>None\<close>; a \<open>collHandle_t\<close> is an opaque
  number. Calls with an output parameter return it beside the status.
\<close>

type_synonym rcComm = "nat option"

record 'w ext =
  MAX_NAME_LEN :: nat
  SYS_MALLOC_ERR :: int
  USER_FILE_DOES_NOT_EXIST :: int
  CAT_COLLECTION_NOT_EMPTY :: int
  SYS_READ_MSG_BODY_LEN_ERR :: int
  SYS_HEADER_READ_LEN_ERR :: int
  SYS_HEADER_WRITE_LEN_ERR :: int
  SYS_PACK_INSTRUCT_FORMAT_ERR :: int
  getIrodsErrno :: "int \<Rightarrow> int"
  getErrno :: "int \<Rightarrow> int"
  rstrcpy :: "string \<Rightarrow> nat \<Rightarrow> string"
  parseRodsPathStr :: "string \<Rightarrow> rodsEnv \<Rightarrow> int \<times> string"
  c_time :: "'w \<Rightarrow> int \<times> 'w"
  c_calloc :: "'w \<Rightarrow> bool \<times> 'w"
  c_getuid :: int
  c_getgid :: int
  c_shutdown :: "nat \<Rightarrow> 'w \<Rightarrow> 'w"
  c_pthread_create :: "'w \<Rightarrow> int \<times> 'w"
  rcConnect :: "rodsEnv \<Rightarrow> 'w \<Rightarrow> (rcComm \<times> int) \<times> 'w"
  rcDisconnect :: "rcComm \<Rightarrow> 'w \<Rightarrow> int \<times> 'w"
  clientLogin :: "rcComm \<Rightarrow> 'w \<Rightarrow> int \<times> 'w"
  rcTicketAdmin :: "rcComm \<Rightarrow> string \<Rightarrow> 'w \<Rightarrow> int \<times> 'w"
  rcDataObjOpen :: "rcComm \<Rightarrow> string \<Rightarrow> flags \<Rightarrow> 'w \<Rightarrow> int \<times> 'w"
  rcDataObjClose :: "rcComm \<Rightarrow> int \<Rightarrow> 'w \<Rightarrow> int \<times> 'w"
  rclOpenCollection :: "rcComm \<Rightarrow> string \<Rightarrow> 'w \<Rightarrow> (int \<times> nat) \<times> 'w"
  rclCloseCollection :: "nat \<Rightarrow> 'w \<Rightarrow> int \<times> 'w"
  rclReadCollection :: "rcComm \<Rightarrow> nat \<Rightarrow> 'w \<Rightarrow> (int \<times> collEnt) \<times> 'w"
  rcObjStat :: "rcComm \<Rightarrow> string \<Rightarrow> 'w \<Rightarrow> (int \<times> rodsObjStat option) \<times> 'w"
  rcDataObjLseek :: "rcComm \<Rightarrow> int \<Rightarrow> int \<Rightarrow> 'w \<Rightarrow> (int \<times> int option) \<times> 'w"
  rcDataObjRead :: "rcComm \<Rightarrow> int \<Rightarrow> nat \<Rightarrow> 'w \<Rightarrow> (int \<times> bytes) \<times> 'w"
  rcDataObjWrite :: "rcComm \<Rightarrow> int \<Rightarrow> bytes \<Rightarrow> 'w \<Rightarrow> int \<times> 'w"
  rcDataObjCreate :: "rcComm \<Rightarrow> string \<Rightarrow> 32 word \<Rightarrow> string \<Rightarrow> 'w \<Rightarrow> int \<times> 'w"
  rcDataObjUnlink :: "rcComm \<Rightarrow> string \<Rightarrow> 'w \<Rightarrow> int \<times> 'w"
  rcCollCreate :: "rcComm \<Rightarrow> string \<Rightarrow> 'w \<Rightarrow> int \<times> 'w"
  rcRmColl :: "rcComm \<Rightarrow> string \<Rightarrow> 'w \<Rightarrow> int \<times> 'w"
  rcDataObjRename :: "rcComm \<Rightarrow> string \<Rightarrow> string \<Rightarrow> 'w \<Rightarrow> int \<times> 'w"
  rcDataObjTruncate :: "rcComm \<Rightarrow> string \<Rightarrow> int \<Rightarrow> 'w \<Rightarrow> int \<times> 'w"
  rcModDataObjMeta :: "rcComm \<Rightarrow> string \<Rightarrow> 32 word \<Rightarrow> 'w \<Rightarrow> int \<times> 'w"

section \<open>Documented behaviour, as named hypotheses\<close>

text \<open>\<open>rstrcpy(dest, src, maxLen)\<close> copies a string that fits, with its terminator, unchanged.\<close>

definition rstrcpy_ok :: "'w ext \<Rightarrow> bool" where
  "rstrcpy_ok e \<longleftrightarrow> (\<forall>src n. length src < n \<longrightarrow> rstrcpy e src n = src)"

lemma rstrcpy_fits: "rstrcpy_ok e \<Longrightarrow> length src < n \<Longrightarrow> rstrcpy e src n = src"
  by (simp add: rstrcpy_ok_def)

text \<open>A string that does not fit is cut to \<open>maxLen - 1\<close> characters and terminated.\<close>

definition rstrcpy_cuts :: "'w ext \<Rightarrow> bool" where
  "rstrcpy_cuts e \<longleftrightarrow> (\<forall>src n. rstrcpy e src n = take (n - 1) src)"

text \<open>The error codes of \<open>rodsErrorTable.h\<close> are negative.\<close>

definition error_codes_ok :: "'w ext \<Rightarrow> bool" where
  "error_codes_ok e \<longleftrightarrow> SYS_MALLOC_ERR e < 0 \<and> USER_FILE_DOES_NOT_EXIST e < 0
     \<and> CAT_COLLECTION_NOT_EMPTY e < 0"

text \<open>Memory does not run out.\<close>

definition calloc_ok :: "'w ext \<Rightarrow> bool" where
  "calloc_ok e \<longleftrightarrow> (\<forall>w. fst (c_calloc e w))"

text \<open>Reading the clock shows the time and changes nothing.\<close>

definition clock_ok :: "'w ext \<Rightarrow> ('w \<Rightarrow> int) \<Rightarrow> bool" where
  "clock_ok e clk \<longleftrightarrow> (\<forall>w. c_time e w = (clk w, w)) \<and> (\<forall>w. clk (snd (c_calloc e w)) = clk w)"

lemma clock_read: "clock_ok e clk \<Longrightarrow> c_time e w = (clk w, w)"
  by (simp add: clock_ok_def)

end
