(* ===== verification/IFuse_Lib.thy ===== *)
theory IFuse_Lib
  imports IFuse_Ext
begin

text \<open>
  \<open>iFuse.Lib.cpp\<close> and \<open>iFuse.Lib.hpp\<close>: the mount options, the iRODS environment and the
  list of timer callbacks. The record also carries the outside world and the address the
  allocator hands out next, which every component above threads through its calls. The timer
  loop itself (\<open>_timerTick\<close>) is modelled where the callbacks are known.
\<close>

record iFuseExtendedOpt =
  eo_fuse :: bool
  eo_opt :: "string option"

record iFuseOpt =
  opt_program :: "string option"
  opt_help :: bool
  opt_version :: bool
  opt_debug :: bool
  opt_nonempty :: bool
  opt_foreground :: bool
  opt_directio :: bool
  opt_bufferedFS :: bool
  opt_preload :: bool
  opt_cacheMetadata :: bool
  opt_maxConn :: int
  opt_blocksize :: int
  opt_connReuse :: bool
  opt_connTimeoutSec :: int
  opt_connKeepAliveSec :: int
  opt_connCheckIntervalSec :: int
  opt_rodsapiTimeoutSec :: int
  opt_preloadNumBlocks :: int
  opt_metadataCacheTimeoutSec :: int
  opt_ticket :: "string option"
  opt_workdir :: "string option"
  opt_mountpoint :: "string option"
  opt_extendedOpts :: "iFuseExtendedOpt list"

text \<open>The two callbacks the program registers.\<close>

datatype timerHandler = TimeoutChecker | ConnChecker

record 'w lib_state =
  world :: 'w
  heap_next :: nat
  g_iFuseEnv :: rodsEnv
  g_iFuseOpt :: iFuseOpt
  g_TimerHandlers :: "timerHandler list"
  g_TimerRunning :: bool

definition iFuseLibGetRodsEnv :: "'w lib_state \<Rightarrow> rodsEnv" where
  "iFuseLibGetRodsEnv l = g_iFuseEnv l"

definition iFuseLibSetRodsEnv :: "rodsEnv \<Rightarrow> 'w lib_state \<Rightarrow> 'w lib_state" where
  "iFuseLibSetRodsEnv pEnv l = l\<lparr>g_iFuseEnv := pEnv\<rparr>"

definition iFuseLibGetOption :: "'w lib_state \<Rightarrow> iFuseOpt" where
  "iFuseLibGetOption l = g_iFuseOpt l"

definition iFuseLibSetOption :: "iFuseOpt \<Rightarrow> 'w lib_state \<Rightarrow> 'w lib_state" where
  "iFuseLibSetOption pOpt l = l\<lparr>g_iFuseOpt := pOpt\<rparr>"

definition iFuseLibInitTimerThread :: "'w lib_state \<Rightarrow> 'w lib_state" where
  "iFuseLibInitTimerThread l = l\<lparr>g_TimerRunning := True\<rparr>"

definition iFuseLibTerminateTimerThread :: "'w lib_state \<Rightarrow> 'w lib_state" where
  "iFuseLibTerminateTimerThread l = l\<lparr>g_TimerRunning := False\<rparr>"

definition iFuseLibSetTimerTickHandler :: "timerHandler \<Rightarrow> 'w lib_state \<Rightarrow> 'w lib_state" where
  "iFuseLibSetTimerTickHandler cb l = l\<lparr>g_TimerHandlers := g_TimerHandlers l @ [cb]\<rparr>"

definition iFuseLibUnsetTimerTickHandler :: "timerHandler \<Rightarrow> 'w lib_state \<Rightarrow> 'w lib_state" where
  "iFuseLibUnsetTimerTickHandler cb l = l\<lparr>g_TimerHandlers := removeAll cb (g_TimerHandlers l)\<rparr>"

text \<open>\<open>time(NULL)\<close>; \<open>difftime\<close> of two times is their difference.\<close>

definition iFuseLibGetCurrentTime :: "'w ext \<Rightarrow> 'w lib_state \<Rightarrow> int \<times> 'w lib_state" where
  "iFuseLibGetCurrentTime e l = (let (t, w) = c_time e (world l) in (t, l\<lparr>world := w\<rparr>))"

definition iFuseLibDiffTimeSec :: "int \<Rightarrow> int \<Rightarrow> int" where
  "iFuseLibDiffTimeSec end_time beginning = end_time - beginning"

text \<open>
  \<open>calloc\<close> may fail; when it does not, it returns an address that was never handed out
  before. \<open>mem_ok\<close> is the same question for a block whose address plays no role.
\<close>

definition mem_ok :: "'w ext \<Rightarrow> 'w lib_state \<Rightarrow> bool \<times> 'w lib_state" where
  "mem_ok e l = (let (ok, w) = c_calloc e (world l) in (ok, l\<lparr>world := w\<rparr>))"

definition malloc_ptr :: "'w ext \<Rightarrow> 'w lib_state \<Rightarrow> nat option \<times> 'w lib_state" where
  "malloc_ptr e l =
     (let (ok, l1) = mem_ok e l
      in if ok then (Some (heap_next l1), l1\<lparr>heap_next := Suc (heap_next l1)\<rparr>) else (None, l1))"

text \<open>A call into the outside world.\<close>

definition ext_call :: "('w \<Rightarrow> 'r \<times> 'w) \<Rightarrow> 'w lib_state \<Rightarrow> 'r \<times> 'w lib_state" where
  "ext_call f l = (let (r, w) = f (world l) in (r, l\<lparr>world := w\<rparr>))"

text \<open>None of these touches anything but the world and, for an allocation, the next address.\<close>

lemma heap_next_time [simp]: "heap_next (snd (iFuseLibGetCurrentTime e l)) = heap_next l"
  by (simp add: iFuseLibGetCurrentTime_def split: prod.split)

lemma heap_next_ext_call [simp]: "heap_next (snd (ext_call f l)) = heap_next l"
  by (simp add: ext_call_def split: prod.split)

lemma heap_next_mem_ok [simp]: "heap_next (snd (mem_ok e l)) = heap_next l"
  by (simp add: mem_ok_def split: prod.split)

text \<open>With a clock that only shows the time, and with memory left.\<close>

lemma time_clk: "clock_ok e clk \<Longrightarrow> iFuseLibGetCurrentTime e l = (clk (world l), l)"
  by (simp add: iFuseLibGetCurrentTime_def clock_ok_def)

lemma mem_ok_clk: "clock_ok e clk \<Longrightarrow> mem_ok e l = (ok, l') \<Longrightarrow> clk (world l') = clk (world l)"
  by (auto simp: mem_ok_def clock_ok_def split: prod.splits) (metis snd_conv)

lemma mem_ok_True: "calloc_ok e \<Longrightarrow> mem_ok e l = (ok, l') \<Longrightarrow> ok"
  by (auto simp: mem_ok_def calloc_ok_def split: prod.splits) (metis fst_conv)

lemma malloc_ptr_fresh:
  "malloc_ptr e l = (r, l') \<Longrightarrow>
     (case r of None \<Rightarrow> heap_next l' = heap_next l
      | Some p \<Rightarrow> p = heap_next l \<and> heap_next l' = Suc (heap_next l))"
  by (auto simp: malloc_ptr_def mem_ok_def split: prod.splits if_splits)

lemma timer_set_unset:
  "cb \<notin> set (g_TimerHandlers l) \<Longrightarrow>
     iFuseLibUnsetTimerTickHandler cb (iFuseLibSetTimerTickHandler cb l) = l"
  by (simp add: iFuseLibUnsetTimerTickHandler_def iFuseLibSetTimerTickHandler_def)

lemma timer_unset_others:
  "g_TimerHandlers (iFuseLibUnsetTimerTickHandler cb l) = filter (\<lambda>h. h \<noteq> cb) (g_TimerHandlers l)"
  by (auto simp: iFuseLibUnsetTimerTickHandler_def removeAll_filter_not_eq intro: filter_cong)

section \<open>Identifier generators\<close>

text \<open>
  \<open>_genNextConnID\<close>, \<open>_genNextFdID\<close> and \<open>_genNextDdID\<close> share a contract: return the counter,
  an \<open>unsigned long\<close>, and increase it by one, wrapping. Inside fewer than \<open>2 ^ 64\<close> calls
  no identifier repeats.
\<close>

locale id_generator =
  fixes gen :: "'s \<Rightarrow> 64 word \<times> 's"
    and counter :: "'s \<Rightarrow> 64 word"
  assumes gen_returns: "fst (gen s) = counter s"
    and gen_advances: "counter (snd (gen s)) = counter s + 1"
begin

lemma counter_after: "counter (((\<lambda>s. snd (gen s)) ^^ n) s) = counter s + of_nat n"
  by (induction n) (simp_all add: gen_advances algebra_simps)

lemma ids_distinct:
  assumes "m < n" and "n < 2 ^ 64"
  shows "fst (gen (((\<lambda>s. snd (gen s)) ^^ m) s)) \<noteq> fst (gen (((\<lambda>s. snd (gen s)) ^^ n) s))"
proof -
  have "(of_nat m :: 64 word) \<noteq> of_nat n"
    using assms by (simp add: word_of_nat_eq_iff take_bit_nat_eq_self)
  then show ?thesis by (simp add: gen_returns counter_after)
qed

end

end
