(* ===== verification/IFuse_RodsClientAPI.thy ===== *)
theory IFuse_RodsClientAPI
  imports IFuse_Lib
begin

text \<open>
  \<open>iFuse.Lib.RodsClientAPI.cpp\<close>: every call to the iRODS client library is registered in
  \<open>g_Operations\<close> while it runs, and the timer callback \<open>_timeoutChecker\<close> shuts down the
  connection of a call that runs too long. The operation records are heap objects, so the
  model has a heap for them: reading a freed one is the abort \<open>None\<close>.
\<close>

record iFuseRodsClientOperation =
  op_start :: int
  op_conn :: rcComm

record 'w rc_state =
  lib :: "'w lib_state"
  op_heap :: "nat \<rightharpoonup> iFuseRodsClientOperation"
  g_Operations :: "nat list"
  g_RodsapiTimeoutSec :: int
  g_LastRodsapiTimeoutCheck :: int

definition IFUSE_RODSCLIENTAPI_TIMEOUT_SEC :: int where
  "IFUSE_RODSCLIENTAPI_TIMEOUT_SEC = 90"

definition onLib :: "('w lib_state \<Rightarrow> 'r \<times> 'w lib_state) \<Rightarrow> 'w rc_state \<Rightarrow> 'r \<times> 'w rc_state" where
  "onLib f r = (let (x, l) = f (lib r) in (x, r\<lparr>lib := l\<rparr>))"

section \<open>Registering an operation\<close>

definition startOperationTimeout :: "'w ext \<Rightarrow> rcComm \<Rightarrow> 'w rc_state \<Rightarrow> nat option \<times> 'w rc_state" where
  "startOperationTimeout e conn r =
     (case onLib (malloc_ptr e) r of
        (None, r1) \<Rightarrow> (None, r1)
      | (Some oper, r1) \<Rightarrow>
          let (now, r2) = onLib (iFuseLibGetCurrentTime e) r1
          in (Some oper,
              r2\<lparr>op_heap := (op_heap r2)(oper \<mapsto> \<lparr>op_start = now, op_conn = conn\<rparr>),
                 g_Operations := g_Operations r2 @ [oper]\<rparr>))"

definition endOperationTimeout :: "nat \<Rightarrow> 'w rc_state \<Rightarrow> 'w rc_state" where
  "endOperationTimeout oper r =
     r\<lparr>g_Operations := removeAll oper (g_Operations r), op_heap := (op_heap r)(oper := None)\<rparr>"

text \<open>
  The shape every wrapper of the file has: register, fail with \<open>SYS_MALLOC_ERR\<close> when that is
  not possible, call, deregister. \<open>on_fail\<close> is the wrapper's result in the failing case.
\<close>

definition tracked_call ::
    "'w ext \<Rightarrow> rcComm \<Rightarrow> 'r \<Rightarrow> ('w \<Rightarrow> 'r \<times> 'w) \<Rightarrow> 'w rc_state \<Rightarrow> 'r \<times> 'w rc_state" where
  "tracked_call e conn on_fail call r =
     (case startOperationTimeout e conn r of
        (None, r1) \<Rightarrow> (on_fail, r1)
      | (Some oper, r1) \<Rightarrow>
          let (status, r2) = onLib (ext_call call) r1
          in (status, endOperationTimeout oper r2))"

section \<open>The wrappers\<close>

definition iFuseRodsClientConnect :: "'w ext \<Rightarrow> rodsEnv \<Rightarrow> 'w rc_state \<Rightarrow> (rcComm \<times> int) \<times> 'w rc_state" where
  "iFuseRodsClientConnect e env = onLib (ext_call (rcConnect e env))"

definition iFuseRodsClientLogin :: "'w ext \<Rightarrow> rcComm \<Rightarrow> 'w rc_state \<Rightarrow> int \<times> 'w rc_state" where
  "iFuseRodsClientLogin e conn = tracked_call e conn (SYS_MALLOC_ERR e) (clientLogin e conn)"

definition iFuseRodsClientDisconnect :: "'w ext \<Rightarrow> rcComm \<Rightarrow> 'w rc_state \<Rightarrow> int \<times> 'w rc_state" where
  "iFuseRodsClientDisconnect e conn = onLib (ext_call (rcDisconnect e conn))"

text \<open>\<open>path + 1\<close> skips the leading slash; FUSE paths start with one.\<close>

definition iFuseRodsClientMakeRodsPath :: "'w ext \<Rightarrow> string \<Rightarrow> 'w rc_state \<Rightarrow> int \<times> string" where
  "iFuseRodsClientMakeRodsPath e path r = parseRodsPathStr e (tl path) (iFuseLibGetRodsEnv (lib r))"

definition iFuseRodsClientSetSessionTicket :: "'w ext \<Rightarrow> rcComm \<Rightarrow> string \<Rightarrow> 'w rc_state \<Rightarrow> int \<times> 'w rc_state" where
  "iFuseRodsClientSetSessionTicket e conn ticket =
     tracked_call e conn (SYS_MALLOC_ERR e) (rcTicketAdmin e conn ticket)"

definition iFuseRodsClientDataObjOpen :: "'w ext \<Rightarrow> rcComm \<Rightarrow> string \<Rightarrow> flags \<Rightarrow> 'w rc_state \<Rightarrow> int \<times> 'w rc_state" where
  "iFuseRodsClientDataObjOpen e conn objPath openFlags =
     tracked_call e conn (SYS_MALLOC_ERR e) (rcDataObjOpen e conn objPath openFlags)"

definition iFuseRodsClientDataObjClose :: "'w ext \<Rightarrow> rcComm \<Rightarrow> int \<Rightarrow> 'w rc_state \<Rightarrow> int \<times> 'w rc_state" where
  "iFuseRodsClientDataObjClose e conn l1descInx =
     tracked_call e conn (SYS_MALLOC_ERR e) (rcDataObjClose e conn l1descInx)"

definition iFuseRodsClientOpenCollection :: "'w ext \<Rightarrow> rcComm \<Rightarrow> string \<Rightarrow> 'w rc_state \<Rightarrow> (int \<times> nat) \<times> 'w rc_state" where
  "iFuseRodsClientOpenCollection e conn collection =
     tracked_call e conn (SYS_MALLOC_ERR e, 0) (rclOpenCollection e conn collection)"

definition iFuseRodsClientCloseCollection :: "'w ext \<Rightarrow> nat \<Rightarrow> 'w rc_state \<Rightarrow> int \<times> 'w rc_state" where
  "iFuseRodsClientCloseCollection e collHandle = onLib (ext_call (rclCloseCollection e collHandle))"

definition iFuseRodsClientObjStat :: "'w ext \<Rightarrow> rcComm \<Rightarrow> string \<Rightarrow> 'w rc_state \<Rightarrow> (int \<times> rodsObjStat option) \<times> 'w rc_state" where
  "iFuseRodsClientObjStat e conn objPath =
     tracked_call e conn (SYS_MALLOC_ERR e, None) (rcObjStat e conn objPath)"

definition iFuseRodsClientDataObjLseek :: "'w ext \<Rightarrow> rcComm \<Rightarrow> int \<Rightarrow> int \<Rightarrow> 'w rc_state \<Rightarrow> (int \<times> int option) \<times> 'w rc_state" where
  "iFuseRodsClientDataObjLseek e conn l1descInx offset =
     tracked_call e conn (SYS_MALLOC_ERR e, None) (rcDataObjLseek e conn l1descInx offset)"

definition iFuseRodsClientDataObjRead :: "'w ext \<Rightarrow> rcComm \<Rightarrow> int \<Rightarrow> nat \<Rightarrow> 'w rc_state \<Rightarrow> (int \<times> bytes) \<times> 'w rc_state" where
  "iFuseRodsClientDataObjRead e conn l1descInx len =
     tracked_call e conn (SYS_MALLOC_ERR e, []) (rcDataObjRead e conn l1descInx len)"

definition iFuseRodsClientDataObjWrite :: "'w ext \<Rightarrow> rcComm \<Rightarrow> int \<Rightarrow> bytes \<Rightarrow> 'w rc_state \<Rightarrow> int \<times> 'w rc_state" where
  "iFuseRodsClientDataObjWrite e conn l1descInx buf =
     tracked_call e conn (SYS_MALLOC_ERR e) (rcDataObjWrite e conn l1descInx buf)"

definition iFuseRodsClientDataObjCreate :: "'w ext \<Rightarrow> rcComm \<Rightarrow> string \<Rightarrow> 32 word \<Rightarrow> string \<Rightarrow> 'w rc_state \<Rightarrow> int \<times> 'w rc_state" where
  "iFuseRodsClientDataObjCreate e conn objPath mode resc =
     tracked_call e conn (SYS_MALLOC_ERR e) (rcDataObjCreate e conn objPath mode resc)"

definition iFuseRodsClientDataObjUnlink :: "'w ext \<Rightarrow> rcComm \<Rightarrow> string \<Rightarrow> 'w rc_state \<Rightarrow> int \<times> 'w rc_state" where
  "iFuseRodsClientDataObjUnlink e conn objPath =
     tracked_call e conn (SYS_MALLOC_ERR e) (rcDataObjUnlink e conn objPath)"

definition iFuseRodsClientReadCollection :: "'w ext \<Rightarrow> rcComm \<Rightarrow> nat \<Rightarrow> collEnt \<Rightarrow> 'w rc_state \<Rightarrow> (int \<times> collEnt) \<times> 'w rc_state" where
  "iFuseRodsClientReadCollection e conn collHandle old =
     tracked_call e conn (SYS_MALLOC_ERR e, old) (rclReadCollection e conn collHandle)"

definition iFuseRodsClientCollCreate :: "'w ext \<Rightarrow> rcComm \<Rightarrow> string \<Rightarrow> 'w rc_state \<Rightarrow> int \<times> 'w rc_state" where
  "iFuseRodsClientCollCreate e conn collName =
     tracked_call e conn (SYS_MALLOC_ERR e) (rcCollCreate e conn collName)"

definition iFuseRodsClientRmColl :: "'w ext \<Rightarrow> rcComm \<Rightarrow> string \<Rightarrow> 'w rc_state \<Rightarrow> int \<times> 'w rc_state" where
  "iFuseRodsClientRmColl e conn collName =
     tracked_call e conn (SYS_MALLOC_ERR e) (rcRmColl e conn collName)"

definition iFuseRodsClientDataObjRename :: "'w ext \<Rightarrow> rcComm \<Rightarrow> string \<Rightarrow> string \<Rightarrow> 'w rc_state \<Rightarrow> int \<times> 'w rc_state" where
  "iFuseRodsClientDataObjRename e conn src dest =
     tracked_call e conn (SYS_MALLOC_ERR e) (rcDataObjRename e conn src dest)"

definition iFuseRodsClientDataObjTruncate :: "'w ext \<Rightarrow> rcComm \<Rightarrow> string \<Rightarrow> int \<Rightarrow> 'w rc_state \<Rightarrow> int \<times> 'w rc_state" where
  "iFuseRodsClientDataObjTruncate e conn objPath dataSize =
     tracked_call e conn (SYS_MALLOC_ERR e) (rcDataObjTruncate e conn objPath dataSize)"

definition iFuseRodsClientModDataObjMeta :: "'w ext \<Rightarrow> rcComm \<Rightarrow> string \<Rightarrow> 32 word \<Rightarrow> 'w rc_state \<Rightarrow> int \<times> 'w rc_state" where
  "iFuseRodsClientModDataObjMeta e conn objPath mode =
     tracked_call e conn (SYS_MALLOC_ERR e) (rcModDataObjMeta e conn objPath mode)"

lemmas rc_wrapper_defs =
  iFuseRodsClientLogin_def iFuseRodsClientSetSessionTicket_def iFuseRodsClientDataObjOpen_def
  iFuseRodsClientDataObjClose_def iFuseRodsClientOpenCollection_def iFuseRodsClientObjStat_def
  iFuseRodsClientDataObjLseek_def iFuseRodsClientDataObjRead_def iFuseRodsClientDataObjWrite_def
  iFuseRodsClientDataObjCreate_def iFuseRodsClientDataObjUnlink_def
  iFuseRodsClientReadCollection_def iFuseRodsClientCollCreate_def iFuseRodsClientRmColl_def
  iFuseRodsClientDataObjRename_def iFuseRodsClientDataObjTruncate_def
  iFuseRodsClientModDataObjMeta_def

text \<open>An error after which the caller reconnects and tries once more.\<close>

definition iFuseRodsClientReadMsgError :: "'w ext \<Rightarrow> int \<Rightarrow> bool" where
  "iFuseRodsClientReadMsgError e status =
     (let irodsErr = getIrodsErrno e status
      in irodsErr = SYS_READ_MSG_BODY_LEN_ERR e \<or> irodsErr = SYS_HEADER_READ_LEN_ERR e
         \<or> irodsErr = SYS_HEADER_WRITE_LEN_ERR e \<or> irodsErr = SYS_PACK_INSTRUCT_FORMAT_ERR e)"

section \<open>The timeout checker\<close>

text \<open>The first loop: does any registered operation run too long?\<close>

fun has_timeout :: "int \<Rightarrow> int \<Rightarrow> (nat \<rightharpoonup> iFuseRodsClientOperation) \<Rightarrow> nat list \<Rightarrow> bool option" where
  "has_timeout now limit h [] = Some False"
| "has_timeout now limit h (oper # opers) =
     do { ob \<leftarrow> h oper;
          if iFuseLibDiffTimeSec now (op_start ob) \<ge> limit then Some True
          else has_timeout now limit h opers }"

text \<open>The second loop collects the operations to remove.\<close>

fun timed_out :: "int \<Rightarrow> int \<Rightarrow> (nat \<rightharpoonup> iFuseRodsClientOperation) \<Rightarrow> nat list \<Rightarrow> nat list option" where
  "timed_out now limit h [] = Some []"
| "timed_out now limit h (oper # opers) =
     do { ob \<leftarrow> h oper;
          rest \<leftarrow> timed_out now limit h opers;
          Some (if iFuseLibDiffTimeSec now (op_start ob) \<ge> limit then oper # rest else rest) }"

text \<open>The third loop takes each one off the list and shuts its socket down.\<close>

fun kill_operations :: "'w ext \<Rightarrow> nat list \<Rightarrow> 'w rc_state \<Rightarrow> 'w rc_state option" where
  "kill_operations e [] r = Some r"
| "kill_operations e (oper # removeList) r =
     (let r1 = r\<lparr>g_Operations := removeAll oper (g_Operations r)\<rparr>
      in do { ob \<leftarrow> op_heap r1 oper;
              let r2 = (case op_conn ob of
                          None \<Rightarrow> r1
                        | Some c \<Rightarrow> r1\<lparr>lib := (lib r1)\<lparr>world := c_shutdown e c (world (lib r1))\<rparr>\<rparr>);
              kill_operations e removeList r2 })"

definition timeoutChecker :: "'w ext \<Rightarrow> 'w rc_state \<Rightarrow> 'w rc_state option" where
  "timeoutChecker e r =
     (let (currentTime, r1) = onLib (iFuseLibGetCurrentTime e) r
      in if iFuseLibDiffTimeSec currentTime (g_LastRodsapiTimeoutCheck r1)
              > c_div (g_RodsapiTimeoutSec r1) 2
         then do {
           hasTimeout \<leftarrow> has_timeout currentTime (g_RodsapiTimeoutSec r1) (op_heap r1) (g_Operations r1);
           r2 \<leftarrow> (if hasTimeout
                  then do { removeList \<leftarrow> timed_out currentTime (g_RodsapiTimeoutSec r1) (op_heap r1) (g_Operations r1);
                            kill_operations e removeList r1 }
                  else Some r1);
           let (now, r3) = onLib (iFuseLibGetCurrentTime e) r2;
           Some (r3\<lparr>g_LastRodsapiTimeoutCheck := now\<rparr>) }
         else Some r1)"

definition iFuseRodsClientInit :: "'w rc_state \<Rightarrow> 'w rc_state" where
  "iFuseRodsClientInit r =
     (let opt = iFuseLibGetOption (lib r);
          r1 = (if opt_rodsapiTimeoutSec opt > 0
                then r\<lparr>g_RodsapiTimeoutSec := opt_rodsapiTimeoutSec opt\<rparr> else r)
      in r1\<lparr>lib := iFuseLibSetTimerTickHandler TimeoutChecker (lib r1)\<rparr>)"

definition iFuseRodsClientDestroy :: "'w rc_state \<Rightarrow> 'w rc_state" where
  "iFuseRodsClientDestroy r = r\<lparr>lib := iFuseLibUnsetTimerTickHandler TimeoutChecker (lib r)\<rparr>"

section \<open>The registry invariant\<close>

text \<open>
  Registered operations are live heap objects, none is registered twice, and the allocator
  hands out addresses that no live operation has.
\<close>

definition ops_ok :: "'w rc_state \<Rightarrow> bool" where
  "ops_ok r \<longleftrightarrow> distinct (g_Operations r) \<and> set (g_Operations r) \<subseteq> dom (op_heap r)
     \<and> (\<forall>p \<in> dom (op_heap r). p < heap_next (lib r))"

lemma onLib_fields [simp]:
  "onLib f r = (x, r') \<Longrightarrow> op_heap r' = op_heap r"
  "onLib f r = (x, r') \<Longrightarrow> g_Operations r' = g_Operations r"
  "onLib f r = (x, r') \<Longrightarrow> g_RodsapiTimeoutSec r' = g_RodsapiTimeoutSec r"
  "onLib f r = (x, r') \<Longrightarrow> g_LastRodsapiTimeoutCheck r' = g_LastRodsapiTimeoutCheck r"
  "onLib f r = (x, r') \<Longrightarrow> f (lib r) = (x, lib r')"
  by (auto simp: onLib_def split: prod.splits)

lemma onLib_time_next:
  "onLib (iFuseLibGetCurrentTime e) r = (x, r') \<Longrightarrow> heap_next (lib r') = heap_next (lib r)"
  by (metis heap_next_time onLib_fields(5) snd_conv)

lemma onLib_call_next:
  "onLib (ext_call f) r = (x, r') \<Longrightarrow> heap_next (lib r') = heap_next (lib r)"
  by (metis heap_next_ext_call onLib_fields(5) snd_conv)

lemmas onLib_next = onLib_time_next onLib_call_next

lemma onLib_timeD:
  "onLib (iFuseLibGetCurrentTime e) r = (x, r') \<Longrightarrow>
     heap_next (lib r') = heap_next (lib r) \<and> op_heap r' = op_heap r \<and> g_Operations r' = g_Operations r"
  by (simp add: onLib_next)

lemma onLib_mallocD:
  "onLib (malloc_ptr e) r = (x, r') \<Longrightarrow> op_heap r' = op_heap r \<and> g_Operations r' = g_Operations r
     \<and> (case x of None \<Rightarrow> heap_next (lib r') = heap_next (lib r)
        | Some p \<Rightarrow> p = heap_next (lib r) \<and> heap_next (lib r') = Suc (heap_next (lib r)))"
  by (metis malloc_ptr_fresh onLib_fields(1,2,5))

lemma startOperationTimeout_Some:
  assumes "startOperationTimeout e conn r = (Some p, r')"
  shows "p = heap_next (lib r)" and "heap_next (lib r') = Suc (heap_next (lib r))"
    and "g_Operations r' = g_Operations r @ [p]"
    and "\<exists>now. op_heap r' = (op_heap r)(p \<mapsto> \<lparr>op_start = now, op_conn = conn\<rparr>)"
  using assms
  by (auto simp: startOperationTimeout_def split: prod.splits option.splits
      dest!: onLib_timeD onLib_mallocD)

lemma startOperationTimeout_None:
  assumes "startOperationTimeout e conn r = (None, r')"
  shows "heap_next (lib r') = heap_next (lib r)" and "g_Operations r' = g_Operations r"
    and "op_heap r' = op_heap r"
  using assms
  by (auto simp: startOperationTimeout_def split: prod.splits option.splits
      dest!: onLib_mallocD)

lemma ops_ok_start:
  assumes "ops_ok r" and "startOperationTimeout e conn r = (x, r')"
  shows "ops_ok r'"
proof (cases x)
  case None
  with assms startOperationTimeout_None [of e conn r r'] show ?thesis
    by (simp add: ops_ok_def)
next
  case (Some p)
  with assms(2) have "startOperationTimeout e conn r = (Some p, r')" by simp
  note facts = startOperationTimeout_Some [OF this]
  from assms(1) have "p \<notin> dom (op_heap r)" and "p \<notin> set (g_Operations r)"
    unfolding facts(1) ops_ok_def by auto
  with assms(1) facts show ?thesis by (auto simp: ops_ok_def less_Suc_eq)
qed

lemma ops_ok_end: "ops_ok r \<Longrightarrow> ops_ok (endOperationTimeout p r)"
  by (auto simp: ops_ok_def endOperationTimeout_def distinct_removeAll)

lemma ops_ok_call: "ops_ok r \<Longrightarrow> onLib (ext_call f) r = (x, r') \<Longrightarrow> ops_ok r'"
  by (simp add: ops_ok_def onLib_next)

lemma ops_ok_time: "ops_ok r \<Longrightarrow> onLib (iFuseLibGetCurrentTime e) r = (x, r') \<Longrightarrow> ops_ok r'"
  by (simp add: ops_ok_def onLib_next)

text \<open>A finished call leaves the registry as it found it, whoever else is registered in it.\<close>

lemma tracked_call_registry:
  assumes "ops_ok r" and "tracked_call e conn on_fail call r = (x, r')"
  shows "g_Operations r' = g_Operations r \<and> op_heap r' = op_heap r \<and> ops_ok r'
    \<and> heap_next (lib r) \<le> heap_next (lib r')"
proof (cases "startOperationTimeout e conn r")
  case (Pair p r1)
  show ?thesis
  proof (cases p)
    case None
    with Pair assms startOperationTimeout_None [of e conn r r1] show ?thesis
      by (auto simp: tracked_call_def ops_ok_def)
  next
    case (Some oper)
    note start = startOperationTimeout_Some [OF Pair [unfolded Some]]
    obtain st r2 where call: "onLib (ext_call call) r1 = (st, r2)" by force
    from assms(2) Pair Some call have r': "r' = endOperationTimeout oper r2"
      by (simp add: tracked_call_def)
    from assms(1) have fresh: "op_heap r oper = None" "oper \<notin> set (g_Operations r)"
      unfolding start(1) ops_ok_def by auto
    from start(4) fresh call have "op_heap r' = op_heap r"
      by (auto simp: r' endOperationTimeout_def fun_upd_idem)
    moreover from start(3) fresh call have "g_Operations r' = g_Operations r"
      by (simp add: r' endOperationTimeout_def removeAll_id)
    moreover from start(2) call have "heap_next (lib r') = Suc (heap_next (lib r))"
      by (simp add: r' endOperationTimeout_def onLib_next)
    ultimately show ?thesis using assms(1) by (auto simp: ops_ok_def intro: less_SucI)
  qed
qed

section \<open>What the timeout checker does\<close>

text \<open>An operation is expired at \<open>now\<close> when it has run for at least the timeout.\<close>

definition op_expired :: "int \<Rightarrow> int \<Rightarrow> (nat \<rightharpoonup> iFuseRodsClientOperation) \<Rightarrow> nat \<Rightarrow> bool" where
  "op_expired now limit h p \<longleftrightarrow> (case h p of None \<Rightarrow> False | Some ob \<Rightarrow> now - op_start ob \<ge> limit)"

lemma has_timeout_live:
  "set ps \<subseteq> dom h \<Longrightarrow> has_timeout now limit h ps = Some (\<exists>p \<in> set ps. op_expired now limit h p)"
  by (induction ps) (auto simp: op_expired_def iFuseLibDiffTimeSec_def)

lemma timed_out_live:
  "set ps \<subseteq> dom h \<Longrightarrow> timed_out now limit h ps = Some (filter (op_expired now limit h) ps)"
  by (induction ps) (auto simp: op_expired_def iFuseLibDiffTimeSec_def)

lemma kill_operations_live:
  "set ps \<subseteq> dom (op_heap r) \<Longrightarrow>
     \<exists>r'. kill_operations e ps r = Some r' \<and> g_Operations r' = filter (\<lambda>p. p \<notin> set ps) (g_Operations r)
       \<and> op_heap r' = op_heap r \<and> heap_next (lib r') = heap_next (lib r)
       \<and> g_RodsapiTimeoutSec r' = g_RodsapiTimeoutSec r"
proof (induction ps arbitrary: r)
  case (Cons p ps)
  then obtain ob where ob: "op_heap r p = Some ob" by auto
  define r2 where "r2 = (case op_conn ob of
       None \<Rightarrow> r\<lparr>g_Operations := removeAll p (g_Operations r)\<rparr>
     | Some c \<Rightarrow> r\<lparr>g_Operations := removeAll p (g_Operations r),
         lib := (lib r)\<lparr>world := c_shutdown e c (world (lib r))\<rparr>\<rparr>)"
  have r2: "g_Operations r2 = removeAll p (g_Operations r)" "op_heap r2 = op_heap r"
    "heap_next (lib r2) = heap_next (lib r)" "g_RodsapiTimeoutSec r2 = g_RodsapiTimeoutSec r"
    by (simp_all add: r2_def split: option.split)
  have step: "kill_operations e (p # ps) r = kill_operations e ps r2"
    using ob by (auto simp: r2_def Let_def split: option.split)
  have "filter (\<lambda>q. q \<notin> set ps) (removeAll p (g_Operations r))
      = filter (\<lambda>q. q \<notin> set (p # ps)) (g_Operations r)"
    by (simp add: removeAll_filter_not_eq conj_commute eq_commute)
  with Cons.IH [of r2] Cons.prems r2 show ?case unfolding step by auto
qed simp

text \<open>
  Under the invariant the checker never reads a freed operation; when a check is due it
  removes exactly the expired operations, otherwise none.
\<close>

lemma timeoutChecker_live:
  assumes "ops_ok r"
  shows "\<exists>r'. timeoutChecker e r = Some r' \<and> op_heap r' = op_heap r \<and> ops_ok r'
    \<and> g_Operations r' =
        (let now = fst (c_time e (world (lib r)))
         in if now - g_LastRodsapiTimeoutCheck r > c_div (g_RodsapiTimeoutSec r) 2
            then filter (\<lambda>p. \<not> op_expired now (g_RodsapiTimeoutSec r) (op_heap r) p) (g_Operations r)
            else g_Operations r)"
proof -
  obtain now r1 where time: "onLib (iFuseLibGetCurrentTime e) r = (now, r1)" by force
  then have now: "now = fst (c_time e (world (lib r)))"
    by (auto simp: onLib_def iFuseLibGetCurrentTime_def split: prod.splits)
  note r1 = onLib_fields [OF time] onLib_next(1) [OF time] ops_ok_time [OF assms time]
  show ?thesis
  proof (cases "now - g_LastRodsapiTimeoutCheck r > c_div (g_RodsapiTimeoutSec r) 2")
    case False
    with time r1 now show ?thesis
      by (simp add: timeoutChecker_def iFuseLibDiffTimeSec_def Let_def)
  next
    case True
    let ?E = "op_expired now (g_RodsapiTimeoutSec r) (op_heap r)"
    have live: "set (g_Operations r) \<subseteq> dom (op_heap r)" using assms by (simp add: ops_ok_def)
    have "\<exists>r2. (if \<exists>p \<in> set (g_Operations r). ?E p
                then kill_operations e (filter ?E (g_Operations r)) r1 else Some r1) = Some r2
        \<and> g_Operations r2 = filter (\<lambda>p. \<not> ?E p) (g_Operations r) \<and> op_heap r2 = op_heap r
        \<and> heap_next (lib r2) = heap_next (lib r)"
    proof (cases "\<exists>p \<in> set (g_Operations r). ?E p")
      case True
      have eq: "filter (\<lambda>p. p \<notin> set (filter ?E (g_Operations r))) (g_Operations r)
          = filter (\<lambda>p. \<not> ?E p) (g_Operations r)"
        by (auto intro: filter_cong)
      have "set (filter ?E (g_Operations r)) \<subseteq> dom (op_heap r1)" using live r1 by auto
      from kill_operations_live [OF this, of e] obtain r2 where
        "kill_operations e (filter ?E (g_Operations r)) r1 = Some r2"
        "g_Operations r2 = filter (\<lambda>p. \<not> ?E p) (g_Operations r)" "op_heap r2 = op_heap r"
        "heap_next (lib r2) = heap_next (lib r)"
        using r1 unfolding eq [symmetric] by auto
      with True show ?thesis by auto
    next
      case False
      then have "filter (\<lambda>p. \<not> ?E p) (g_Operations r) = g_Operations r"
        by (simp add: filter_id_conv)
      with False r1 show ?thesis by auto
    qed
    then obtain r2 where r2: "(if \<exists>p \<in> set (g_Operations r). ?E p
                then kill_operations e (filter ?E (g_Operations r)) r1 else Some r1) = Some r2"
      "g_Operations r2 = filter (\<lambda>p. \<not> ?E p) (g_Operations r)" "op_heap r2 = op_heap r"
      "heap_next (lib r2) = heap_next (lib r)" by blast
    obtain t r3 where t: "onLib (iFuseLibGetCurrentTime e) r2 = (t, r3)" by force
    have "timeoutChecker e r = Some (r3\<lparr>g_LastRodsapiTimeoutCheck := t\<rparr>)"
      using True time r1 r2(1) t live
      by (auto simp: timeoutChecker_def iFuseLibDiffTimeSec_def Let_def has_timeout_live
          timed_out_live split: if_splits)
    moreover have "ops_ok (r3\<lparr>g_LastRodsapiTimeoutCheck := t\<rparr>)"
      using assms r2 onLib_fields [OF t] onLib_next(1) [OF t] by (auto simp: ops_ok_def)
    ultimately show ?thesis using True r2 now onLib_fields [OF t] by (simp add: Let_def)
  qed
qed

section \<open>Interleavings of callers and the timer\<close>

text \<open>
  Callers on several threads register and deregister operations while the timer thread checks
  them; the library call runs between the two without holding the registry's lock. A caller
  deregisters an operation that it registered and has not deregistered yet, so it is still
  allocated. Every interleaving is a sequence of these steps.
\<close>

inductive rc_step :: "'w ext \<Rightarrow> 'w rc_state \<Rightarrow> 'w rc_state \<Rightarrow> bool" for e where
  begin_op: "startOperationTimeout e conn r = (x, r') \<Longrightarrow> rc_step e r r'"
| library_call: "rc_step e r (r\<lparr>lib := (lib r)\<lparr>world := w\<rparr>\<rparr>)"
| end_op: "op_heap r oper \<noteq> None \<Longrightarrow> rc_step e r (endOperationTimeout oper r)"
| timer_tick: "timeoutChecker e r = Some r' \<Longrightarrow> rc_step e r r'"

inductive rc_reachable :: "'w ext \<Rightarrow> 'w rc_state \<Rightarrow> 'w rc_state \<Rightarrow> bool" for e r0 where
  rc_init: "rc_reachable e r0 r0"
| rc_next: "rc_reachable e r0 r \<Longrightarrow> rc_step e r r' \<Longrightarrow> rc_reachable e r0 r'"

lemma ops_ok_step: "rc_step e r r' \<Longrightarrow> ops_ok r \<Longrightarrow> ops_ok r'"
proof (induction rule: rc_step.induct)
  case (timer_tick r r')
  then show ?case using timeoutChecker_live [of r e] by auto
next
  case (library_call r w)
  then show ?case by (simp add: ops_ok_def)
qed (auto intro: ops_ok_start ops_ok_end)

lemma ops_ok_reachable: "rc_reachable e r0 r \<Longrightarrow> ops_ok r0 \<Longrightarrow> ops_ok r"
  by (induction rule: rc_reachable.induct) (auto intro: ops_ok_step)

lemma ops_ok_init: "op_heap r = Map.empty \<Longrightarrow> g_Operations r = [] \<Longrightarrow> ops_ok (iFuseRodsClientInit r)"
  by (simp add: ops_ok_def iFuseRodsClientInit_def Let_def)


section \<open>What every call keeps\<close>

text \<open>
  The layers above see of this component that the registry stays well formed, addresses are
  never handed out twice and nobody changes the configuration.
\<close>

definition rc_le :: "'w rc_state \<Rightarrow> 'w rc_state \<Rightarrow> bool" where
  "rc_le r r' \<longleftrightarrow> (ops_ok r \<longrightarrow> ops_ok r') \<and> heap_next (lib r) \<le> heap_next (lib r')
     \<and> g_iFuseOpt (lib r') = g_iFuseOpt (lib r) \<and> g_iFuseEnv (lib r') = g_iFuseEnv (lib r)"

lemma rc_le_refl [simp, intro]: "rc_le r r"
  by (simp add: rc_le_def)

lemma rc_le_trans [trans]: "rc_le r r' \<Longrightarrow> rc_le r' r'' \<Longrightarrow> rc_le r r''"
  by (auto simp: rc_le_def)

lemma rc_le_ops: "rc_le r r' \<Longrightarrow> ops_ok r \<Longrightarrow> ops_ok r'"
  by (simp add: rc_le_def)

lemma onLib_config:
  "onLib (iFuseLibGetCurrentTime e) r = (x, r') \<Longrightarrow>
     g_iFuseOpt (lib r') = g_iFuseOpt (lib r) \<and> g_iFuseEnv (lib r') = g_iFuseEnv (lib r)"
  "onLib (ext_call f) r = (y, r') \<Longrightarrow>
     g_iFuseOpt (lib r') = g_iFuseOpt (lib r) \<and> g_iFuseEnv (lib r') = g_iFuseEnv (lib r)"
  "onLib (malloc_ptr e) r = (z, r') \<Longrightarrow>
     g_iFuseOpt (lib r') = g_iFuseOpt (lib r) \<and> g_iFuseEnv (lib r') = g_iFuseEnv (lib r)"
  "onLib (mem_ok e) r = (b, r') \<Longrightarrow>
     g_iFuseOpt (lib r') = g_iFuseOpt (lib r) \<and> g_iFuseEnv (lib r') = g_iFuseEnv (lib r)"
  by (auto simp: onLib_def iFuseLibGetCurrentTime_def ext_call_def malloc_ptr_def mem_ok_def
      split: prod.splits if_splits)

lemma rc_le_time: "onLib (iFuseLibGetCurrentTime e) r = (x, r') \<Longrightarrow> rc_le r r'"
  using onLib_config(1) [of e r x r'] by (auto simp: rc_le_def onLib_next intro: ops_ok_time)

lemma rc_le_ext_call: "onLib (ext_call f) r = (x, r') \<Longrightarrow> rc_le r r'"
  using onLib_config(2) [of f r x r'] by (auto simp: rc_le_def onLib_next intro: ops_ok_call)

lemma rc_le_mem_ok: "onLib (mem_ok e) r = (x, r') \<Longrightarrow> rc_le r r'"
  using onLib_config(4) [of e r x r'] onLib_fields [of "mem_ok e" r x r'] heap_next_mem_ok [of e "lib r"]
  by (auto simp: rc_le_def ops_ok_def)

lemma rc_le_malloc: "onLib (malloc_ptr e) r = (x, r') \<Longrightarrow> rc_le r r'"
  using onLib_config(3) [of e r x r'] onLib_mallocD [of e r x r']
  by (auto simp: rc_le_def ops_ok_def less_Suc_eq split: option.splits)

lemma startOperationTimeout_config:
  "startOperationTimeout e conn r = (x, r') \<Longrightarrow>
     g_iFuseOpt (lib r') = g_iFuseOpt (lib r) \<and> g_iFuseEnv (lib r') = g_iFuseEnv (lib r)"
  by (auto simp: startOperationTimeout_def split: prod.splits option.splits
      dest!: rc_le_malloc rc_le_time) (auto simp: rc_le_def)

lemma tracked_call_le: "tracked_call e conn on_fail call r = (x, r') \<Longrightarrow> rc_le r r'"
proof -
  assume call: "tracked_call e conn on_fail call r = (x, r')"
  obtain p r1 where p: "startOperationTimeout e conn r = (p, r1)" by force
  obtain st r2 where st: "onLib (ext_call call) r1 = (st, r2)" by force
  have "g_iFuseOpt (lib r') = g_iFuseOpt (lib r) \<and> g_iFuseEnv (lib r') = g_iFuseEnv (lib r)
      \<and> heap_next (lib r) \<le> heap_next (lib r')"
    using call startOperationTimeout_config [OF p] rc_le_ext_call [OF st] p st
      startOperationTimeout_None [of e conn r r1] startOperationTimeout_Some [of e conn r _ r1]
    by (auto simp: tracked_call_def endOperationTimeout_def rc_le_def split: option.splits)
  with tracked_call_registry [OF _ call] show ?thesis by (auto simp: rc_le_def)
qed

lemma rc_wrapper_le:
  "iFuseRodsClientConnect e env r = (x1, r') \<Longrightarrow> rc_le r r'"
  "iFuseRodsClientDisconnect e conn r = (x2, r') \<Longrightarrow> rc_le r r'"
  "iFuseRodsClientCloseCollection e h r = (x2, r') \<Longrightarrow> rc_le r r'"
  "iFuseRodsClientLogin e conn r = (x2, r') \<Longrightarrow> rc_le r r'"
  "iFuseRodsClientSetSessionTicket e conn t r = (x2, r') \<Longrightarrow> rc_le r r'"
  "iFuseRodsClientDataObjOpen e conn path fl r = (x2, r') \<Longrightarrow> rc_le r r'"
  "iFuseRodsClientDataObjClose e conn d r = (x2, r') \<Longrightarrow> rc_le r r'"
  "iFuseRodsClientOpenCollection e conn path r = (x3, r') \<Longrightarrow> rc_le r r'"
  "iFuseRodsClientObjStat e conn path r = (x4, r') \<Longrightarrow> rc_le r r'"
  "iFuseRodsClientDataObjLseek e conn d off r = (x5, r') \<Longrightarrow> rc_le r r'"
  "iFuseRodsClientDataObjRead e conn d n r = (x6, r') \<Longrightarrow> rc_le r r'"
  "iFuseRodsClientDataObjWrite e conn d buf r = (x2, r') \<Longrightarrow> rc_le r r'"
  "iFuseRodsClientDataObjCreate e conn path mode resc r = (x2, r') \<Longrightarrow> rc_le r r'"
  "iFuseRodsClientDataObjUnlink e conn path r = (x2, r') \<Longrightarrow> rc_le r r'"
  "iFuseRodsClientReadCollection e conn h old r = (x7, r') \<Longrightarrow> rc_le r r'"
  "iFuseRodsClientCollCreate e conn path r = (x2, r') \<Longrightarrow> rc_le r r'"
  "iFuseRodsClientRmColl e conn path r = (x2, r') \<Longrightarrow> rc_le r r'"
  "iFuseRodsClientDataObjRename e conn path path2 r = (x2, r') \<Longrightarrow> rc_le r r'"
  "iFuseRodsClientDataObjTruncate e conn path sz r = (x2, r') \<Longrightarrow> rc_le r r'"
  "iFuseRodsClientModDataObjMeta e conn path mode r = (x2, r') \<Longrightarrow> rc_le r r'"
  by (auto simp: rc_wrapper_defs iFuseRodsClientConnect_def iFuseRodsClientDisconnect_def
      iFuseRodsClientCloseCollection_def intro: tracked_call_le rc_le_ext_call)

end
