(* ===== verification/IFuse_Util.thy ===== *)
theory IFuse_Util
  imports IFuse_Ext
begin

text \<open>
  \<open>iFuse.Lib.Util.cpp\<close>: case-insensitive comparison and the path functions. C strings are
  \<open>char list\<close>s without their terminator, so they hold no \<open>NUL\<close>. Logging and time formatting
  are not modelled.
\<close>

section \<open>Case-insensitive comparison\<close>

definition TOUPPER :: "char \<Rightarrow> char" where
  "TOUPPER c = (if CHR ''a'' \<le> c \<and> c \<le> CHR ''z''
                then char_of (of_char c - of_char (CHR ''a'') + of_char (CHR ''A'') :: nat) else c)"

text \<open>\<open>char\<close> is signed, and widened to \<open>int\<close> by the subtraction.\<close>

definition char_int :: "char \<Rightarrow> int" where
  "char_int c = (let n = of_char c :: nat in if n \<ge> 128 then int n - 256 else int n)"

text \<open>\<open>*s\<close>: the character at the front, the terminator at the end of the string.\<close>

definition head_char :: "string \<Rightarrow> char" where
  "head_char s = (case s of [] \<Rightarrow> NUL | c # _ \<Rightarrow> c)"

fun iFuseUtilStricmp :: "string \<Rightarrow> string \<Rightarrow> int" where
  "iFuseUtilStricmp s1 [] = char_int (TOUPPER (head_char s1)) - char_int (TOUPPER NUL)"
| "iFuseUtilStricmp s1 (c # s2) =
     (if TOUPPER (head_char s1) = TOUPPER c then iFuseUtilStricmp (tl s1) s2
      else char_int (TOUPPER (head_char s1)) - char_int (TOUPPER c))"

lemma char_int_inj [simp]: "char_int c = char_int d \<longleftrightarrow> c = d"
proof
  assume *: "char_int c = char_int d"
  define m n :: nat where m_def: "m = of_char c" and n_def: "n = of_char d"
  then have "m < 256" "n < 256" by simp_all
  moreover from * have "(if m \<ge> 128 then int m - 256 else int m) = (if n \<ge> 128 then int n - 256 else int n)"
    by (simp only: char_int_def Let_def m_def n_def)
  ultimately have "m = n" by (auto split: if_splits)
  then show "c = d" by (simp add: m_def n_def)
qed simp

lemma TOUPPER_eq_NUL [simp]: "TOUPPER c = NUL \<longleftrightarrow> c = NUL"
proof -
  consider (lower) "CHR ''a'' \<le> c \<and> c \<le> CHR ''z''" | (other) "\<not> (CHR ''a'' \<le> c \<and> c \<le> CHR ''z'')"
    by blast
  then show ?thesis
  proof cases
    case lower
    then have n: "97 \<le> (of_char c :: nat)" "(of_char c :: nat) \<le> 122"
      by (simp_all add: less_eq_char_def)
    then have "(of_char (TOUPPER c) :: nat) = of_char c - 32"
      using lower unfolding TOUPPER_def by simp
    with n have "(of_char (TOUPPER c) :: nat) \<noteq> of_char NUL" "(of_char c :: nat) \<noteq> of_char NUL"
      by simp_all
    then show ?thesis by metis
  next
    case other
    then have "TOUPPER c = c" unfolding TOUPPER_def by (rule if_not_P)
    then show ?thesis by simp
  qed
qed

lemma TOUPPER_NUL [simp]: "TOUPPER NUL = NUL"
  by simp

lemma NUL_eq_TOUPPER [simp]: "NUL = TOUPPER c \<longleftrightarrow> c = NUL"
  by (metis TOUPPER_eq_NUL)

lemma head_char_simps [simp]: "head_char [] = NUL" "head_char (c # s) = c"
  by (simp_all add: head_char_def)

lemma stricmp_eq_0:
  "NUL \<notin> set s1 \<Longrightarrow> NUL \<notin> set s2 \<Longrightarrow>
     iFuseUtilStricmp s1 s2 = 0 \<longleftrightarrow> map TOUPPER s1 = map TOUPPER s2"
proof (induction s1 s2 rule: iFuseUtilStricmp.induct)
  case (1 s1)
  then show ?case by (cases s1) auto
next
  case (2 s1 c s2)
  then show ?case by (cases s1) auto
qed

lemma stricmp_antisym:
  "NUL \<notin> set s1 \<Longrightarrow> NUL \<notin> set s2 \<Longrightarrow> iFuseUtilStricmp s2 s1 = - iFuseUtilStricmp s1 s2"
proof (induction s1 s2 rule: iFuseUtilStricmp.induct)
  case (1 s1)
  then show ?case by (cases s1) auto
next
  case (2 s1 c s2)
  then show ?case by (cases s1) auto
qed

section \<open>Paths\<close>

text \<open>\<open>std::string::rfind(c)\<close>: the last position of the character; \<open>npos\<close> is \<open>None\<close>.\<close>

fun rfind :: "char \<Rightarrow> string \<Rightarrow> nat option" where
  "rfind c [] = None"
| "rfind c (x # xs) =
     (case rfind c xs of Some i \<Rightarrow> Some (Suc i) | None \<Rightarrow> if x = c then Some 0 else None)"

text \<open>
  The result is the status and, when the function wrote them, the two output buffers \<open>dir\<close>
  and \<open>file\<close>.
\<close>

definition iFuseLibSplitPath :: "'w ext \<Rightarrow> string \<Rightarrow> nat \<Rightarrow> nat \<Rightarrow> int \<times> (string \<times> string) option" where
  "iFuseLibSplitPath e srcPath maxDirLen maxFileLen =
     (if length srcPath = 0 then (0, Some ('''', ''''))
      else case rfind (CHR ''/'') srcPath of
        None \<Rightarrow> (0, Some ('''', rstrcpy e srcPath maxFileLen))
      | Some i \<Rightarrow>
          let dirPath = take (max i 1) srcPath; filePath = drop (i + 1) srcPath
          in if length dirPath \<ge> maxDirLen \<or> length filePath \<ge> maxFileLen then (- ENOBUFS, None)
             else (0, Some (rstrcpy e dirPath maxDirLen, rstrcpy e filePath maxFileLen)))"

text \<open>Copying the string \<open>src\<close> to \<open>dest + offset\<close>, seen as the C string at \<open>dest\<close>.\<close>

definition copy_at :: "string \<Rightarrow> nat \<Rightarrow> string \<Rightarrow> string" where
  "copy_at dest offset src = (if length dest < offset then dest else take offset dest @ src)"

text \<open>
  \<open>at\<close> throws on an empty string; nothing in the program catches that, so it is \<open>None\<close>.
\<close>

definition iFuseLibJoinPath :: "'w ext \<Rightarrow> string \<Rightarrow> string \<Rightarrow> nat \<Rightarrow> (int \<times> string option) option" where
  "iFuseLibJoinPath e dir file maxDestPathLen =
     (if file = [] \<or> dir = [] then None
      else let file_start = (if hd file = CHR ''/'' then 1 else 0);
               dir_len = (if last dir = CHR ''/'' then length dir - 1 else length dir);
               file2 = drop file_start file;
               dir2 = take dir_len dir
           in if length dir2 + length file2 \<ge> maxDestPathLen then Some (- ENOBUFS, None)
              else let dest1 = rstrcpy e dir2 maxDestPathLen;
                       offset = length dir2;
                       dest2 = copy_at dest1 offset (rstrcpy e ''/'' (maxDestPathLen - offset));
                       dest3 = copy_at dest2 (offset + 1) (rstrcpy e file2 (maxDestPathLen - (offset + 1)))
                   in Some (0, Some dest3))"

text \<open>On success the output buffer holds the last component; otherwise it may hold anything.\<close>

definition iFuseLibGetFilename :: "'w ext \<Rightarrow> string \<Rightarrow> nat \<Rightarrow> int \<times> string option" where
  "iFuseLibGetFilename e srcPath maxFileLen =
     (case iFuseLibSplitPath e srcPath (MAX_NAME_LEN e) maxFileLen of
        (status, None) \<Rightarrow> (status, None)
      | (status, Some (myDir, file)) \<Rightarrow>
          if status \<noteq> 0 then (status, None)
          else if length file \<noteq> 0 then (0, Some file) else (- ENOENT, Some file))"

subsection \<open>Splitting and joining\<close>

lemma rfind_last: "c \<notin> set b \<Longrightarrow> rfind c b = None"
  by (induction b) auto

lemma rfind_append: "c \<notin> set b \<Longrightarrow> rfind c (a @ c # b) = Some (length a)"
  by (induction a) (simp_all add: rfind_last)

lemma rfind_Some:
  "rfind c s = Some i \<Longrightarrow> i < length s \<and> s = take i s @ c # drop (Suc i) s \<and> c \<notin> set (drop (Suc i) s)"
proof (induction s arbitrary: i)
  case (Cons x s)
  then show ?case
  proof (cases "rfind c s")
    case None
    moreover have "rfind c s = None \<Longrightarrow> c \<notin> set s" for s :: string
      by (induction s) (auto split: option.splits if_splits)
    ultimately show ?thesis using Cons.prems by (auto split: if_splits)
  qed auto
qed simp

text \<open>
  The paths FUSE hands to the file system: absolute, and neither empty components nor a
  trailing slash. \<open>dir_path d\<close> says \<open>d\<close> names a directory that way, the root as \<open>''/''\<close>.
\<close>

definition dir_path :: "string \<Rightarrow> bool" where
  "dir_path d \<longleftrightarrow> d = ''/'' \<or> (d \<noteq> [] \<and> last d \<noteq> CHR ''/'')"

definition file_name :: "string \<Rightarrow> bool" where
  "file_name f \<longleftrightarrow> f \<noteq> [] \<and> CHR ''/'' \<notin> set f"

definition path_of :: "string \<Rightarrow> string \<Rightarrow> string" where
  "path_of d f = (if d = ''/'' then ''/'' @ f else d @ ''/'' @ f)"

lemma dir_path_root [simp]: "dir_path ''/''"
  by (simp add: dir_path_def)

lemma hd_file_name: "file_name f \<Longrightarrow> hd f \<noteq> CHR ''/'' \<and> f \<noteq> []"
  by (cases f) (auto simp: file_name_def)

lemma join_path:
  assumes "rstrcpy_ok e" and "dir_path d" and "file_name f" and "length (path_of d f) < n"
  shows "iFuseLibJoinPath e d f n = Some (0, Some (path_of d f))"
proof (cases "d = ''/''")
  case True
  with assms hd_file_name [of f] show ?thesis
    by (simp add: iFuseLibJoinPath_def copy_at_def path_of_def rstrcpy_fits)
next
  case False
  with assms hd_file_name [of f] show ?thesis
    by (simp add: iFuseLibJoinPath_def copy_at_def path_of_def rstrcpy_fits dir_path_def)
qed

lemma split_path:
  assumes "rstrcpy_ok e" and "dir_path d" and "file_name f" and "length d < m" and "length f < n"
  shows "iFuseLibSplitPath e (path_of d f) m n = (0, Some (d, f))"
proof (cases "d = ''/''")
  case True
  with assms rfind_append [of "CHR ''/''" f "[]"] show ?thesis
    by (simp add: iFuseLibSplitPath_def path_of_def rstrcpy_fits file_name_def)
next
  case False
  then have "d \<noteq> []" using assms by (auto simp: dir_path_def)
  then have "max (length d) 1 = length d" by (cases d) auto
  with False assms rfind_append [of "CHR ''/''" f d] show ?thesis
    by (simp add: iFuseLibSplitPath_def path_of_def rstrcpy_fits file_name_def)
qed

text \<open>The root directory alone splits into itself and an empty name.\<close>

lemma split_root:
  "rstrcpy_ok e \<Longrightarrow> 1 < m \<Longrightarrow> 0 < n \<Longrightarrow> iFuseLibSplitPath e ''/'' m n = (0, Some (''/'', ''''))"
  by (simp add: iFuseLibSplitPath_def rstrcpy_fits)

lemma get_filename:
  assumes "rstrcpy_ok e" and "dir_path d" and "file_name f"
    and "length d < MAX_NAME_LEN e" and "length f < n"
  shows "iFuseLibGetFilename e (path_of d f) n = (0, Some f)"
  using assms split_path [OF assms(1-3), of "MAX_NAME_LEN e" n]
  by (simp add: iFuseLibGetFilename_def file_name_def)

end
