(* ===== verification/IFuse_Conn.thy ===== *)
theory IFuse_Conn
  imports IFuse_RodsClientAPI IFuse_Util "HOL-Library.Multiset"
begin

text \<open>
  \<open>iFuse.Lib.Conn.cpp\<close>: the pool of connections. A \<open>iFuseConn_t\<close> is a heap object the pool,
  the file descriptors and the callers share by pointer, so the model keeps a heap for them
  and pointers into it; reading a freed connection is the abort \<open>None\<close>. Each operation runs
  under \<open>g_ConnectedConnLock\<close>, so it is one step of the model. The lock of a connection is
  the flag \<open>cn_lock\<close>: \<open>pthread_rwlock_wrlock\<close> sets it (a thread that holds it already gets
  \<open>EDEADLK\<close>, which the code ignores), \<open>pthread_rwlock_unlock\<close> clears it.
\<close>

record iFuseConn =
  cn_connId :: "64 word"
  cn_type :: int
  cn_conn :: rcComm
  cn_lastActTime :: int
  cn_lastUseTime :: int
  cn_inuseCnt :: int
  cn_lock :: bool

record iFuseFsConnReport =
  rep_inuseShortOpConn :: nat
  rep_inuseConn :: nat
  rep_inuseOnetimeuseConn :: nat
  rep_freeShortopConn :: nat
  rep_freeConn :: nat

record 'w conn_state =
  rcs :: "'w rc_state"
  conn_heap :: "nat \<rightharpoonup> iFuseConn"
  g_InUseShortopConn :: "nat option"
  g_InUseConn :: "nat option list"
  g_InUseOnetimeuseConn :: "(64 word, nat) stdmap"
  g_FreeShortopConn :: "nat option"
  g_FreeConn :: "nat list"
  g_ConnIDGen :: "64 word"
  g_MaxConnNum :: int
  g_ConnTimeoutSec :: int
  g_ConnKeepAliveSec :: int
  g_ConnCheckIntervalSec :: int
  g_LastConnCheck :: int

definition IFUSE_MAX_NUM_CONN :: int where "IFUSE_MAX_NUM_CONN = 10"
definition IFUSE_CONN_TYPE_FOR_FILE_IO :: int where "IFUSE_CONN_TYPE_FOR_FILE_IO = 0"
definition IFUSE_CONN_TYPE_FOR_SHORTOP :: int where "IFUSE_CONN_TYPE_FOR_SHORTOP = 1"
definition IFUSE_CONN_TYPE_FOR_ONETIMEUSE :: int where "IFUSE_CONN_TYPE_FOR_ONETIMEUSE = 2"
definition IFUSE_FREE_CONN_CHECK_INTERVAL_SEC :: int where "IFUSE_FREE_CONN_CHECK_INTERVAL_SEC = 10"
definition IFUSE_FREE_CONN_TIMEOUT_SEC :: int where "IFUSE_FREE_CONN_TIMEOUT_SEC = 60 * 5"
definition IFUSE_FREE_CONN_KEEPALIVE_SEC :: int where "IFUSE_FREE_CONN_KEEPALIVE_SEC = 60 * 3"

lemmas conn_type_defs = IFUSE_CONN_TYPE_FOR_FILE_IO_def IFUSE_CONN_TYPE_FOR_SHORTOP_def
  IFUSE_CONN_TYPE_FOR_ONETIMEUSE_def

definition onRc :: "('w rc_state \<Rightarrow> 'r \<times> 'w rc_state) \<Rightarrow> 'w conn_state \<Rightarrow> 'r \<times> 'w conn_state" where
  "onRc f c = (let (x, r) = f (rcs c) in (x, c\<lparr>rcs := r\<rparr>))"

definition currentTime :: "'w ext \<Rightarrow> 'w conn_state \<Rightarrow> int \<times> 'w conn_state" where
  "currentTime e = onRc (onLib (iFuseLibGetCurrentTime e))"

text \<open>Assigning to a field of the object at \<open>p\<close>.\<close>

definition update_conn :: "nat \<Rightarrow> (iFuseConn \<Rightarrow> iFuseConn) \<Rightarrow> 'w conn_state \<Rightarrow> 'w conn_state option" where
  "update_conn p f c =
     do { cn \<leftarrow> conn_heap c p; Some (c\<lparr>conn_heap := (conn_heap c)(p \<mapsto> f cn)\<rparr>) }"

definition conn_wrlock :: "nat \<Rightarrow> 'w conn_state \<Rightarrow> 'w conn_state option" where
  "conn_wrlock p = update_conn p (\<lambda>cn. cn\<lparr>cn_lock := True\<rparr>)"

definition conn_unlock :: "nat \<Rightarrow> 'w conn_state \<Rightarrow> 'w conn_state option" where
  "conn_unlock p = update_conn p (\<lambda>cn. cn\<lparr>cn_lock := False\<rparr>)"

section \<open>Connecting\<close>

definition genNextConnID :: "'w conn_state \<Rightarrow> 64 word \<times> 'w conn_state" where
  "genNextConnID c = (g_ConnIDGen c, c\<lparr>g_ConnIDGen := g_ConnIDGen c + 1\<rparr>)"

interpretation conn_id: id_generator genNextConnID g_ConnIDGen
  by unfold_locales (simp_all add: genNextConnID_def)

text \<open>
  \<open>_connect\<close>: two attempts, login, session ticket. A login that fails leaves the handle NULL.
  (\<open>iFuseConn->conn\<close> was NULL and nothing else reads it meanwhile, so the object is passed
  and returned by value.)
\<close>

definition connect :: "'w ext \<Rightarrow> iFuseConn \<Rightarrow> 'w rc_state \<Rightarrow> (int \<times> iFuseConn) \<times> 'w rc_state" where
  "connect e cn r =
     (if cn_conn cn \<noteq> None then ((0, cn), r)
      else
        let env = iFuseLibGetRodsEnv (lib r);
            ((conn1, err1), r1) = iFuseRodsClientConnect e env r;
            ((conn, err), r2) = (if conn1 = None then iFuseRodsClientConnect e env r1 else ((conn1, err1), r1))
        in if conn = None then ((if err < 0 then err else - 1, cn\<lparr>cn_conn := None\<rparr>), r2)
           else
             let (status, r3) = iFuseRodsClientLogin e conn r2
             in if status \<noteq> 0
                then let (_, r4) = iFuseRodsClientDisconnect e conn r3
                     in ((status, cn\<lparr>cn_conn := None\<rparr>), r4)
                else case opt_ticket (iFuseLibGetOption (lib r3)) of
                  None \<Rightarrow> ((status, cn\<lparr>cn_conn := conn\<rparr>), r3)
                | Some ticket \<Rightarrow>
                    let (status2, r4) = iFuseRodsClientSetSessionTicket e conn ticket r3
                    in if status2 \<noteq> 0
                       then let (_, r5) = iFuseRodsClientDisconnect e conn r4
                            in ((status2, cn\<lparr>cn_conn := None\<rparr>), r5)
                       else ((status2, cn\<lparr>cn_conn := conn\<rparr>), r4))"

definition disconnect :: "'w ext \<Rightarrow> iFuseConn \<Rightarrow> 'w rc_state \<Rightarrow> iFuseConn \<times> 'w rc_state" where
  "disconnect e cn r =
     (if cn_conn cn \<noteq> None
      then let (_, r1) = iFuseRodsClientDisconnect e (cn_conn cn) r in (cn\<lparr>cn_conn := None\<rparr>, r1)
      else (cn, r))"

definition zero_conn :: iFuseConn where
  "zero_conn = \<lparr>cn_connId = 0, cn_type = 0, cn_conn = None, cn_lastActTime = 0,
     cn_lastUseTime = 0, cn_inuseCnt = 0, cn_lock = False\<rparr>"

definition newConn :: "'w ext \<Rightarrow> 'w conn_state \<Rightarrow> (int \<times> nat option) \<times> 'w conn_state" where
  "newConn e c =
     (case onRc (onLib (malloc_ptr e)) c of
        (None, c1) \<Rightarrow> ((SYS_MALLOC_ERR e, None), c1)
      | (Some p, c1) \<Rightarrow>
          let (newId, c2) = genNextConnID c1;
              ((status, cn), c3) = onRc (connect e (zero_conn\<lparr>cn_connId := newId\<rparr>)) c2;
              (now, c4) = currentTime e c3
          in ((status, Some p),
              c4\<lparr>conn_heap := (conn_heap c4)(p \<mapsto> cn\<lparr>cn_lastActTime := now\<rparr>)\<rparr>))"

text \<open>\<open>_freeConn(NULL)\<close> fails its \<open>assert\<close>.\<close>

definition freeConn :: "'w ext \<Rightarrow> nat option \<Rightarrow> 'w conn_state \<Rightarrow> 'w conn_state option" where
  "freeConn e conn c =
     do { p \<leftarrow> conn;
          cn \<leftarrow> conn_heap c p;
          let (cn', c1) = onRc (disconnect e cn) c;
          Some (c1\<lparr>conn_heap := (conn_heap c1)(p := None)\<rparr>) }"

fun free_conns :: "'w ext \<Rightarrow> nat list \<Rightarrow> 'w conn_state \<Rightarrow> 'w conn_state option" where
  "free_conns e [] c = Some c"
| "free_conns e (p # ps) c = do { c1 \<leftarrow> freeConn e (Some p) c; free_conns e ps c1 }"

definition freeAllConn :: "'w ext \<Rightarrow> 'w conn_state \<Rightarrow> 'w conn_state option" where
  "freeAllConn e c =
     do { c1 \<leftarrow> free_conns e (g_FreeConn c) (c\<lparr>g_FreeConn := []\<rparr>);
          c2 \<leftarrow> free_conns e (opt_list (g_FreeShortopConn c1)) c1;
          let c3 = c2\<lparr>g_FreeShortopConn := None\<rparr>;
          c4 \<leftarrow> free_conns e (slot_ptrs (g_InUseConn c3))
                 (c3\<lparr>g_InUseConn := replicate (length (g_InUseConn c3)) None\<rparr>);
          c5 \<leftarrow> free_conns e (opt_list (g_InUseShortopConn c4)) c4;
          let c6 = c5\<lparr>g_InUseShortopConn := None\<rparr>;
          free_conns e (map snd (g_InUseOnetimeuseConn c6)) (c6\<lparr>g_InUseOnetimeuseConn := []\<rparr>) }"

section \<open>Getting and releasing connections\<close>

text \<open>Taking one more reference to a pooled connection.\<close>

definition use_conn :: "'w ext \<Rightarrow> nat \<Rightarrow> 'w conn_state \<Rightarrow> 'w conn_state option" where
  "use_conn e p c =
     do { c1 \<leftarrow> conn_wrlock p c;
          let (now, c2) = currentTime e c1;
          c3 \<leftarrow> update_conn p (\<lambda>cn. cn\<lparr>cn_lastUseTime := now, cn_inuseCnt := cn_inuseCnt cn + 1\<rparr>) c2;
          conn_unlock p c3 }"

text \<open>
  Creating one: when that fails the new object is freed, which for a failed \<open>calloc\<close> is the
  failing \<open>_freeConn(NULL)\<close>. A positive status counts as success here.
\<close>

definition new_conn_in_use :: "'w ext \<Rightarrow> int \<Rightarrow> 'w conn_state \<Rightarrow> ((int \<times> nat option) \<times> 'w conn_state) option" where
  "new_conn_in_use e connType c =
     (let ((status, conn), c1) = newConn e c
      in if status < 0 then do { c2 \<leftarrow> freeConn e conn c1; Some ((status, None), c2) }
         else do { p \<leftarrow> conn;
                   c2 \<leftarrow> update_conn p (\<lambda>cn. cn\<lparr>cn_type := connType\<rparr>) c1;
                   let (now, c3) = currentTime e c2;
                   c4 \<leftarrow> update_conn p (\<lambda>cn. cn\<lparr>cn_lastUseTime := now, cn_inuseCnt := cn_inuseCnt cn + 1\<rparr>) c3;
                   Some ((0, Some p), c4) })"

fun first_null :: "'a option list \<Rightarrow> nat option" where
  "first_null [] = None"
| "first_null (None # xs) = Some 0"
| "first_null (Some x # xs) = map_option Suc (first_null xs)"

text \<open>The loop that looks for the slot with the fewest users.\<close>

fun least_used :: "(nat \<rightharpoonup> iFuseConn) \<Rightarrow> nat option list \<Rightarrow> int \<Rightarrow> nat option \<Rightarrow> nat option option" where
  "least_used h [] inUseCount best = Some best"
| "least_used h (None # xs) inUseCount best = least_used h xs inUseCount best"
| "least_used h (Some p # xs) inUseCount best =
     do { cn \<leftarrow> h p;
          if inUseCount < 0 then least_used h xs (cn_inuseCnt cn) (Some p)
          else if inUseCount > cn_inuseCnt cn then least_used h xs (cn_inuseCnt cn) (Some p)
          else least_used h xs inUseCount best }"

definition get_shortop :: "'w ext \<Rightarrow> 'w conn_state \<Rightarrow> ((int \<times> nat option) \<times> 'w conn_state) option" where
  "get_shortop e c =
     (case g_InUseShortopConn c of
        Some p \<Rightarrow> do { c1 \<leftarrow> use_conn e p c; Some ((0, Some p), c1) }
      | None \<Rightarrow>
          (case g_FreeShortopConn c of
             Some p \<Rightarrow> do { c1 \<leftarrow> use_conn e p (c\<lparr>g_FreeShortopConn := None\<rparr>);
                            Some ((0, Some p), c1\<lparr>g_InUseShortopConn := Some p\<rparr>) }
           | None \<Rightarrow>
               do { ((status, conn), c1) \<leftarrow> new_conn_in_use e IFUSE_CONN_TYPE_FOR_SHORTOP c;
                    if status < 0 then Some ((status, None), c1)
                    else Some ((0, conn), c1\<lparr>g_InUseShortopConn := conn\<rparr>) }))"

definition get_file_io :: "'w ext \<Rightarrow> 'w conn_state \<Rightarrow> ((int \<times> nat option) \<times> 'w conn_state) option" where
  "get_file_io e c =
     (case first_null (g_InUseConn c) of
        Some targetIndex \<Rightarrow>
          (case g_FreeConn c of
             p # _ \<Rightarrow>
               do { c1 \<leftarrow> use_conn e p c;
                    Some ((0, Some p), c1\<lparr>g_InUseConn := (g_InUseConn c1)[targetIndex := Some p],
                                         g_FreeConn := removeAll p (g_FreeConn c1)\<rparr>) }
           | [] \<Rightarrow>
               do { ((status, conn), c1) \<leftarrow> new_conn_in_use e IFUSE_CONN_TYPE_FOR_FILE_IO c;
                    if status < 0 then Some ((status, None), c1)
                    else Some ((0, conn), c1\<lparr>g_InUseConn := (g_InUseConn c1)[targetIndex := conn]\<rparr>) })
      | None \<Rightarrow>
          do { best \<leftarrow> least_used (conn_heap c) (g_InUseConn c) (- 1) None;
               p \<leftarrow> best;
               c1 \<leftarrow> use_conn e p c;
               Some ((0, Some p), c1) })"

definition get_onetimeuse :: "'w ext \<Rightarrow> 'w conn_state \<Rightarrow> ((int \<times> nat option) \<times> 'w conn_state) option" where
  "get_onetimeuse e c =
     do { ((status, conn), c1) \<leftarrow> new_conn_in_use e IFUSE_CONN_TYPE_FOR_ONETIMEUSE c;
          if status < 0 then Some ((status, None), c1)
          else do { p \<leftarrow> conn;
                    cn \<leftarrow> conn_heap c1 p;
                    Some ((0, Some p),
                      c1\<lparr>g_InUseOnetimeuseConn := map_insert (cn_connId cn) p (g_InUseOnetimeuseConn c1)\<rparr>) } }"

text \<open>The result is the status and the output parameter \<open>*iFuseConn\<close>.\<close>

definition iFuseConnGetAndUse ::
    "'w ext \<Rightarrow> int \<Rightarrow> 'w conn_state \<Rightarrow> ((int \<times> nat option) \<times> 'w conn_state) option" where
  "iFuseConnGetAndUse e connType c =
     (if connType = IFUSE_CONN_TYPE_FOR_SHORTOP then get_shortop e c
      else if connType = IFUSE_CONN_TYPE_FOR_FILE_IO then get_file_io e c
      else if connType = IFUSE_CONN_TYPE_FOR_ONETIMEUSE then get_onetimeuse e c
      else None)"

text \<open>The first slot that holds \<open>p\<close> is cleared.\<close>

fun clear_slot :: "nat \<Rightarrow> nat option list \<Rightarrow> nat option list" where
  "clear_slot p [] = []"
| "clear_slot p (x # xs) = (if x = Some p then None # xs else x # clear_slot p xs)"

definition iFuseConnUnuse :: "'w ext \<Rightarrow> nat \<Rightarrow> 'w conn_state \<Rightarrow> 'w conn_state option" where
  "iFuseConnUnuse e p c =
     do { c1 \<leftarrow> conn_wrlock p c;
          let (now, c2) = currentTime e c1;
          c3 \<leftarrow> update_conn p (\<lambda>cn. cn\<lparr>cn_lastUseTime := now, cn_inuseCnt := cn_inuseCnt cn - 1\<rparr>) c2;
          cn \<leftarrow> conn_heap c3 p;
          if \<not> cn_inuseCnt cn \<ge> 0 then None
          else if cn_inuseCnt cn = 0 then
            (if cn_type cn = IFUSE_CONN_TYPE_FOR_SHORTOP then
               (if g_InUseShortopConn c3 = Some p \<and> g_FreeShortopConn c3 = None
                then conn_unlock p (c3\<lparr>g_InUseShortopConn := None, g_FreeShortopConn := Some p\<rparr>)
                else None)
             else if cn_type cn = IFUSE_CONN_TYPE_FOR_FILE_IO then
               conn_unlock p (c3\<lparr>g_InUseConn := clear_slot p (g_InUseConn c3),
                                g_FreeConn := p # g_FreeConn c3\<rparr>)
             else if cn_type cn = IFUSE_CONN_TYPE_FOR_ONETIMEUSE then
               do { c4 \<leftarrow> conn_unlock p
                      (c3\<lparr>g_InUseOnetimeuseConn := map_erase (cn_connId cn) (g_InUseOnetimeuseConn c3)\<rparr>);
                    freeConn e (Some p) c4 }
             else None)
          else conn_unlock p c3 }"

definition iFuseConnUpdateLastActTime :: "'w ext \<Rightarrow> nat \<Rightarrow> bool \<Rightarrow> 'w conn_state \<Rightarrow> 'w conn_state option" where
  "iFuseConnUpdateLastActTime e p lock c =
     do { c1 \<leftarrow> (if lock then conn_wrlock p c else Some c);
          let (now, c2) = currentTime e c1;
          c3 \<leftarrow> update_conn p (\<lambda>cn. cn\<lparr>cn_lastActTime := now\<rparr>) c2;
          (if lock then conn_unlock p c3 else Some c3) }"

definition iFuseConnReconnect :: "'w ext \<Rightarrow> nat \<Rightarrow> 'w conn_state \<Rightarrow> (int \<times> 'w conn_state) option" where
  "iFuseConnReconnect e p c =
     do { c1 \<leftarrow> conn_wrlock p c;
          cn \<leftarrow> conn_heap c1 p;
          let (cn1, c2) = onRc (disconnect e cn) c1;
          let ((status, cn2), c3) = onRc (connect e cn1) c2;
          let (now, c4) = currentTime e c3;
          c5 \<leftarrow> update_conn p (\<lambda>_. cn2\<lparr>cn_lastActTime := now\<rparr>) c4;
          c6 \<leftarrow> conn_unlock p c5;
          Some (status, c6) }"

definition iFuseConnLock :: "nat \<Rightarrow> 'w conn_state \<Rightarrow> 'w conn_state option" where
  "iFuseConnLock p = conn_wrlock p"

definition iFuseConnUnlock :: "nat \<Rightarrow> 'w conn_state \<Rightarrow> 'w conn_state option" where
  "iFuseConnUnlock p = conn_unlock p"

section \<open>The connection checker\<close>

definition keepAlive :: "'w ext \<Rightarrow> nat \<Rightarrow> 'w conn_state \<Rightarrow> 'w conn_state option" where
  "keepAlive e p c =
     (let (status, iRodsPath) = iFuseRodsClientMakeRodsPath e ''/'' (rcs c)
      in if status < 0 then Some c
         else do { c1 \<leftarrow> conn_wrlock p c;
                   cn \<leftarrow> conn_heap c1 p;
                   let ((status, _), c2) =
                     onRc (iFuseRodsClientObjStat e (cn_conn cn) (rstrcpy e iRodsPath (MAX_NAME_LEN e))) c1;
                   if status < 0 then conn_unlock p c2
                   else do { let (now, c3) = currentTime e c2;
                             c4 \<leftarrow> update_conn p (\<lambda>cn. cn\<lparr>cn_lastActTime := now\<rparr>) c3;
                             conn_unlock p c4 } })"

fun keep_alive_all :: "'w ext \<Rightarrow> int \<Rightarrow> nat list \<Rightarrow> 'w conn_state \<Rightarrow> 'w conn_state option" where
  "keep_alive_all e current [] c = Some c"
| "keep_alive_all e current (p # ps) c =
     do { cn \<leftarrow> conn_heap c p;
          c1 \<leftarrow> (if iFuseLibDiffTimeSec current (cn_lastActTime cn) \<ge> g_ConnKeepAliveSec c
                 then keepAlive e p c else Some c);
          keep_alive_all e current ps c1 }"

fun timed_out_conns :: "int \<Rightarrow> int \<Rightarrow> (nat \<rightharpoonup> iFuseConn) \<Rightarrow> nat list \<Rightarrow> nat list option" where
  "timed_out_conns current limit h [] = Some []"
| "timed_out_conns current limit h (p # ps) =
     do { cn \<leftarrow> h p;
          rest \<leftarrow> timed_out_conns current limit h ps;
          Some (if iFuseLibDiffTimeSec current (cn_lastUseTime cn) \<ge> limit then p # rest else rest) }"

fun remove_free_conns :: "'w ext \<Rightarrow> nat list \<Rightarrow> 'w conn_state \<Rightarrow> 'w conn_state option" where
  "remove_free_conns e [] c = Some c"
| "remove_free_conns e (p # removeList) c =
     do { c1 \<leftarrow> freeConn e (Some p) (c\<lparr>g_FreeConn := removeAll p (g_FreeConn c)\<rparr>);
          remove_free_conns e removeList c1 }"

text \<open>Every pooled connection, in the order the checker visits them.\<close>

definition pool_ptrs :: "'w conn_state \<Rightarrow> nat list" where
  "pool_ptrs c = slot_ptrs (g_InUseConn c) @ opt_list (g_InUseShortopConn c)
     @ map snd (g_InUseOnetimeuseConn c) @ g_FreeConn c @ opt_list (g_FreeShortopConn c)"

definition connChecker :: "'w ext \<Rightarrow> 'w conn_state \<Rightarrow> 'w conn_state option" where
  "connChecker e c =
     (let (current, c0) = currentTime e c
      in if iFuseLibDiffTimeSec current (g_LastConnCheck c0) > g_ConnCheckIntervalSec c0
         then do {
           c1 \<leftarrow> keep_alive_all e current (pool_ptrs c0) c0;
           removeList \<leftarrow> timed_out_conns current (g_ConnTimeoutSec c1) (conn_heap c1) (g_FreeConn c1);
           c2 \<leftarrow> remove_free_conns e removeList c1;
           c3 \<leftarrow> (case g_FreeShortopConn c2 of
                    None \<Rightarrow> Some c2
                  | Some p \<Rightarrow>
                      do { cn \<leftarrow> conn_heap c2 p;
                           if iFuseLibDiffTimeSec current (cn_lastUseTime cn) \<ge> g_ConnTimeoutSec c2
                           then do { c3 \<leftarrow> freeConn e (Some p) c2; Some (c3\<lparr>g_FreeShortopConn := None\<rparr>) }
                           else Some c2 });
           let (now, c4) = currentTime e c3;
           Some (c4\<lparr>g_LastConnCheck := now\<rparr>) }
         else Some c0)"

section \<open>Starting, testing, reporting, stopping\<close>

definition iFuseConnInit :: "'w conn_state \<Rightarrow> 'w conn_state" where
  "iFuseConnInit c =
     (let opt = iFuseLibGetOption (lib (rcs c));
          c1 = (if opt_maxConn opt > 0 then c\<lparr>g_MaxConnNum := opt_maxConn opt\<rparr> else c);
          c2 = (if opt_connTimeoutSec opt > 0 then c1\<lparr>g_ConnTimeoutSec := opt_connTimeoutSec opt\<rparr> else c1);
          c3 = (if opt_connKeepAliveSec opt > 0 then c2\<lparr>g_ConnKeepAliveSec := opt_connKeepAliveSec opt\<rparr> else c2);
          c4 = (if opt_connCheckIntervalSec opt > 0
                then c3\<lparr>g_ConnCheckIntervalSec := opt_connCheckIntervalSec opt\<rparr> else c3);
          c5 = c4\<lparr>g_InUseConn := replicate (nat (g_MaxConnNum c4)) None, g_ConnIDGen := 0\<rparr>
      in c5\<lparr>rcs := (rcs c5)\<lparr>lib := iFuseLibSetTimerTickHandler ConnChecker (lib (rcs c5))\<rparr>\<rparr>)"

definition iFuseConnDestroy :: "'w ext \<Rightarrow> 'w conn_state \<Rightarrow> 'w conn_state option" where
  "iFuseConnDestroy e c =
     (let c1 = c\<lparr>rcs := (rcs c)\<lparr>lib := iFuseLibUnsetTimerTickHandler ConnChecker (lib (rcs c))\<rparr>\<rparr>
      in freeAllConn e (c1\<lparr>g_ConnIDGen := 0\<rparr>))"

definition iFuseConnTest :: "'w ext \<Rightarrow> 'w conn_state \<Rightarrow> (int \<times> 'w conn_state) option" where
  "iFuseConnTest e c =
     (let env = iFuseLibGetRodsEnv (lib (rcs c))
      in if rodsHost env = [] \<or> rodsPort env \<le> 0 \<or> rodsUserName env = [] \<or> rodsZone env = []
         then Some (- 1, c)
         else do { ((status, conn), c1) \<leftarrow> iFuseConnGetAndUse e IFUSE_CONN_TYPE_FOR_SHORTOP c;
                   if status < 0 then Some (status, c1)
                   else do { p \<leftarrow> conn; c2 \<leftarrow> iFuseConnUnuse e p c1; Some (0, c2) } })"

definition iFuseConnReport :: "'w ext \<Rightarrow> 'w conn_state \<Rightarrow> iFuseFsConnReport \<times> 'w conn_state" where
  "iFuseConnReport e c =
     (let (current, c1) = currentTime e c
      in (\<lparr>rep_inuseShortOpConn = length (opt_list (g_InUseShortopConn c1)),
           rep_inuseConn = length (slot_ptrs (g_InUseConn c1)),
           rep_inuseOnetimeuseConn = length (g_InUseOnetimeuseConn c1),
           rep_freeShortopConn = length (opt_list (g_FreeShortopConn c1)),
           rep_freeConn = length (g_FreeConn c1)\<rparr>, c1))"


section \<open>The pool invariant\<close>

definition conn_is :: "(nat \<rightharpoonup> iFuseConn) \<Rightarrow> nat \<Rightarrow> int \<Rightarrow> bool \<Rightarrow> bool" where
  "conn_is h p t used \<longleftrightarrow> (\<exists>cn. h p = Some cn \<and> cn_type cn = t
     \<and> (if used then 0 < cn_inuseCnt cn else cn_inuseCnt cn = 0))"

text \<open>
  The places of the pool: which connection sits there, of which type it has to be, and
  whether the place is for connections in use.
\<close>

type_synonym entry = "nat \<times> int \<times> bool"

definition pool_entries :: "'w conn_state \<Rightarrow> entry list" where
  "pool_entries c =
     map (\<lambda>p. (p, IFUSE_CONN_TYPE_FOR_FILE_IO, True)) (slot_ptrs (g_InUseConn c))
     @ map (\<lambda>p. (p, IFUSE_CONN_TYPE_FOR_SHORTOP, True)) (opt_list (g_InUseShortopConn c))
     @ map (\<lambda>x. (snd x, IFUSE_CONN_TYPE_FOR_ONETIMEUSE, True)) (g_InUseOnetimeuseConn c)
     @ map (\<lambda>p. (p, IFUSE_CONN_TYPE_FOR_FILE_IO, False)) (g_FreeConn c)
     @ map (\<lambda>p. (p, IFUSE_CONN_TYPE_FOR_SHORTOP, False)) (opt_list (g_FreeShortopConn c))"

definition entries_ok :: "(nat \<rightharpoonup> iFuseConn) \<Rightarrow> entry list \<Rightarrow> bool" where
  "entries_ok h es \<longleftrightarrow> distinct (map fst es) \<and> dom h = fst ` set es
     \<and> (\<forall>(p, t, used) \<in> set es. conn_is h p t used)"

definition onetime_ok :: "(nat \<rightharpoonup> iFuseConn) \<Rightarrow> (64 word, nat) stdmap \<Rightarrow> 64 word \<Rightarrow> bool" where
  "onetime_ok h m gen \<longleftrightarrow> map_ok m
     \<and> (\<forall>(k, p) \<in> set m. map_option cn_connId (h p) = Some k \<and> k < gen)"

text \<open>
  Every live connection is in exactly one place of the pool, and everything in the pool is
  alive; a connection is in an in-use place exactly when it has users, and of the type of its
  place; there is one short-operation connection at most; the one-time connections are keyed
  by their identifiers, which the generator has not reached again.
\<close>

definition conn_inv :: "'w conn_state \<Rightarrow> bool" where
  "conn_inv c \<longleftrightarrow>
     ops_ok (rcs c) \<and> entries_ok (conn_heap c) (pool_entries c)
     \<and> (\<forall>p \<in> dom (conn_heap c). p < heap_next (lib (rcs c)))
     \<and> length (g_InUseConn c) = nat (g_MaxConnNum c) \<and> 0 < g_MaxConnNum c
     \<and> (g_InUseShortopConn c = None \<or> g_FreeShortopConn c = None)
     \<and> onetime_ok (conn_heap c) (g_InUseOnetimeuseConn c) (g_ConnIDGen c)"

lemma pool_ptrs_entries: "pool_ptrs c = map fst (pool_entries c)"
  by (simp add: pool_ptrs_def pool_entries_def comp_def)

text \<open>The number of references to a connection that callers hold.\<close>

definition heap_refs :: "(nat \<rightharpoonup> iFuseConn) \<Rightarrow> nat \<Rightarrow> int" where
  "heap_refs h p = (case h p of None \<Rightarrow> 0 | Some cn \<Rightarrow> cn_inuseCnt cn)"

definition conn_refs :: "'w conn_state \<Rightarrow> nat \<Rightarrow> int" where
  "conn_refs c = heap_refs (conn_heap c)"

lemma heap_refs_upd [simp]:
  "heap_refs (h(p \<mapsto> cn)) = (heap_refs h)(p := cn_inuseCnt cn)"
  "heap_refs (h(p := None)) = (heap_refs h)(p := 0)"
  by (simp_all add: heap_refs_def fun_eq_iff)

lemma heap_refs_at: "h p = Some cn \<Longrightarrow> heap_refs h p = cn_inuseCnt cn" "h p = None \<Longrightarrow> heap_refs h p = 0"
  by (simp_all add: heap_refs_def)

subsection \<open>The building blocks in normal form\<close>

text \<open>Each building block changes the world and at most one object.\<close>

lemma onRcD: "onRc f c = (x, c') \<Longrightarrow> \<exists>r. f (rcs c) = (x, r) \<and> c' = c\<lparr>rcs := r\<rparr>"
  by (auto simp: onRc_def split: prod.splits)

lemma currentTime_nf: "currentTime e c = (now, c') \<Longrightarrow> \<exists>r. rc_le (rcs c) r \<and> c' = c\<lparr>rcs := r\<rparr>"
  unfolding currentTime_def by (metis onRcD rc_le_time)

lemma update_conn_nf:
  "conn_heap c p = Some cn \<Longrightarrow> update_conn p f c = Some (c\<lparr>conn_heap := (conn_heap c)(p \<mapsto> f cn)\<rparr>)"
  by (simp add: update_conn_def)

lemma currentTime_ex: "\<exists>now r. currentTime e c = (now, c\<lparr>rcs := r\<rparr>) \<and> rc_le (rcs c) r"
  by (metis currentTime_nf prod.exhaust)

lemma use_conn_nf:
  assumes "conn_heap c p = Some cn"
  shows "\<exists>r now. rc_le (rcs c) r \<and> use_conn e p c = Some (c\<lparr>rcs := r, conn_heap := (conn_heap c)(p \<mapsto>
      cn\<lparr>cn_lastUseTime := now, cn_inuseCnt := cn_inuseCnt cn + 1, cn_lock := False\<rparr>)\<rparr>)"
proof -
  let ?c1 = "c\<lparr>conn_heap := (conn_heap c)(p \<mapsto> cn\<lparr>cn_lock := True\<rparr>)\<rparr>"
  obtain now r where t: "currentTime e ?c1 = (now, ?c1\<lparr>rcs := r\<rparr>)" "rc_le (rcs ?c1) r"
    using currentTime_ex by blast
  have "use_conn e p c = Some (c\<lparr>rcs := r, conn_heap := (conn_heap c)(p \<mapsto>
      cn\<lparr>cn_lastUseTime := now, cn_inuseCnt := cn_inuseCnt cn + 1, cn_lock := False\<rparr>)\<rparr>)"
    using assms t by (simp add: use_conn_def conn_wrlock_def conn_unlock_def update_conn_def)
  with t(2) show ?thesis by auto
qed

lemma disconnect_nf:
  "disconnect e cn r = (cn', r') \<Longrightarrow> rc_le r r' \<and> cn' = cn\<lparr>cn_conn := None\<rparr>"
  by (auto simp: disconnect_def split: prod.splits if_splits dest!: rc_wrapper_le)

lemma connect_nf:
  assumes "connect e cn r = ((status, cn'), r')"
  shows "rc_le r r' \<and> (\<exists>h. cn' = cn\<lparr>cn_conn := h\<rparr>)"
proof (cases "cn_conn cn")
  case None
  let ?env = "iFuseLibGetRodsEnv (lib r)"
  obtain c1 e1 r1 where c1: "iFuseRodsClientConnect e ?env r = ((c1, e1), r1)" by (metis prod.exhaust)
  obtain c2 e2 r2 where c2: "(if c1 = None then iFuseRodsClientConnect e ?env r1 else ((c1, e1), r1))
      = ((c2, e2), r2)" by (metis prod.exhaust)
  have "rc_le r r1" using c1 by (rule rc_wrapper_le)
  moreover have "rc_le r1 r2" using c2 by (auto split: if_splits dest: rc_wrapper_le)
  moreover have "rc_le r2 r' \<and> (\<exists>h. cn' = cn\<lparr>cn_conn := h\<rparr>)"
    using assms None
    by (auto simp: connect_def Let_def c1 c2 split: prod.splits if_splits option.splits
        dest!: rc_wrapper_le intro: rc_le_trans)
  ultimately show ?thesis by (blast intro: rc_le_trans)
qed (use assms in \<open>auto simp: connect_def intro: exI [of _ "cn_conn cn"]\<close>)

lemma newConn_nf:
  assumes "newConn e c = ((status, conn), c')"
  shows "(conn = None \<and> status = SYS_MALLOC_ERR e \<and> (\<exists>r. rc_le (rcs c) r \<and> c' = c\<lparr>rcs := r\<rparr>))
    \<or> (\<exists>r cn. rc_le (rcs c) r \<and> conn = Some (heap_next (lib (rcs c)))
         \<and> heap_next (lib (rcs c)) < heap_next (lib r)
         \<and> cn_type cn = 0 \<and> cn_inuseCnt cn = 0 \<and> cn_connId cn = g_ConnIDGen c \<and> \<not> cn_lock cn
         \<and> c' = c\<lparr>rcs := r, g_ConnIDGen := g_ConnIDGen c + 1,
                  conn_heap := (conn_heap c)(heap_next (lib (rcs c)) \<mapsto> cn)\<rparr>)"
proof -
  obtain m c1 where m: "onRc (onLib (malloc_ptr e)) c = (m, c1)" by force
  from onRcD [OF m] obtain r1 where r1: "onLib (malloc_ptr e) (rcs c) = (m, r1)" "c1 = c\<lparr>rcs := r1\<rparr>"
    by blast
  note le1 = rc_le_malloc [OF r1(1)]
  show ?thesis
  proof (cases m)
    case None
    with assms m r1 le1 show ?thesis by (auto simp: newConn_def)
  next
    case (Some p)
    with onLib_mallocD [OF r1(1)]
    have p: "p = heap_next (lib (rcs c))" "heap_next (lib r1) = Suc p" by auto
    define c2 where "c2 = c1\<lparr>g_ConnIDGen := g_ConnIDGen c1 + 1\<rparr>"
    obtain st cn c3 where cn: "onRc (connect e (zero_conn\<lparr>cn_connId := g_ConnIDGen c1\<rparr>)) c2 = ((st, cn), c3)"
      by (metis prod.exhaust)
    obtain now c4 where t: "currentTime e c3 = (now, c4)" by force
    from onRcD [OF cn] connect_nf obtain r3 h where
      c3: "rc_le r1 r3" "cn = (zero_conn\<lparr>cn_connId := g_ConnIDGen c1\<rparr>)\<lparr>cn_conn := h\<rparr>"
      "c3 = c2\<lparr>rcs := r3\<rparr>" by (force simp: c2_def r1)
    from currentTime_nf [OF t] obtain r where r: "rc_le r3 r" "c4 = c3\<lparr>rcs := r\<rparr>"
      by (auto simp: c3)
    have res: "conn = Some p" "c' = c4\<lparr>conn_heap := (conn_heap c4)(p \<mapsto> cn\<lparr>cn_lastActTime := now\<rparr>)\<rparr>"
      using assms m Some cn t by (auto simp: newConn_def genNextConnID_def c2_def)
    have le: "rc_le r1 r" using c3(1) r(1) by (rule rc_le_trans)
    then have "p < heap_next (lib r)" using p(2) by (auto simp: rc_le_def)
    moreover have "c' = c\<lparr>rcs := r, g_ConnIDGen := g_ConnIDGen c + 1,
        conn_heap := (conn_heap c)(p \<mapsto> cn\<lparr>cn_lastActTime := now\<rparr>)\<rparr>"
      by (simp add: res r(2) c3(3) c2_def r1(2))
    ultimately show ?thesis
      using rc_le_trans [OF le1 le] res(1)
      by (intro disjI2 exI [of _ r] exI [of _ "cn\<lparr>cn_lastActTime := now\<rparr>"])
         (simp add: p c3(2) zero_conn_def r1(2))
  qed
qed

lemma freeConn_nf:
  assumes "conn_heap c p = Some cn"
  shows "\<exists>r. rc_le (rcs c) r \<and> freeConn e (Some p) c = Some (c\<lparr>rcs := r, conn_heap := (conn_heap c)(p := None)\<rparr>)"
proof -
  obtain cn' c1 where d: "onRc (disconnect e cn) c = (cn', c1)" by force
  from onRcD [OF d] obtain r where "disconnect e cn (rcs c) = (cn', r)" "c1 = c\<lparr>rcs := r\<rparr>" by blast
  with assms d disconnect_nf show ?thesis by (fastforce simp: freeConn_def)
qed

lemma new_conn_in_use_nf:
  assumes "calloc_ok e" and "conn_heap c (heap_next (lib (rcs c))) = None"
  shows "\<exists>status conn c'. new_conn_in_use e t c = Some ((status, conn), c') \<and>
    ((status < 0 \<and> conn = None \<and> (\<exists>r. rc_le (rcs c) r \<and> c' = c\<lparr>rcs := r, g_ConnIDGen := g_ConnIDGen c + 1\<rparr>))
     \<or> (status = 0 \<and> conn = Some (heap_next (lib (rcs c))) \<and> (\<exists>r cn. rc_le (rcs c) r
          \<and> heap_next (lib (rcs c)) < heap_next (lib r)
          \<and> cn_type cn = t \<and> cn_inuseCnt cn = 1 \<and> cn_connId cn = g_ConnIDGen c \<and> \<not> cn_lock cn
          \<and> c' = c\<lparr>rcs := r, g_ConnIDGen := g_ConnIDGen c + 1,
                  conn_heap := (conn_heap c)(heap_next (lib (rcs c)) \<mapsto> cn)\<rparr>)))"
proof -
  let ?p = "heap_next (lib (rcs c))"
  obtain status conn c1 where new: "newConn e c = ((status, conn), c1)" by (metis prod.exhaust)
  have "conn \<noteq> None"
    using new assms(1)
    by (auto simp: newConn_def onRc_def onLib_def malloc_ptr_def mem_ok_def calloc_ok_def
        split: prod.splits option.splits if_splits) (metis fst_conv)
  with newConn_nf [OF new] obtain r cn where
    c1: "rc_le (rcs c) r" "conn = Some ?p" "?p < heap_next (lib r)"
      "cn_type cn = 0" "cn_inuseCnt cn = 0" "cn_connId cn = g_ConnIDGen c" "\<not> cn_lock cn"
      "c1 = c\<lparr>rcs := r, g_ConnIDGen := g_ConnIDGen c + 1, conn_heap := (conn_heap c)(?p \<mapsto> cn)\<rparr>"
    by blast
  show ?thesis
  proof (cases "status < 0")
    case True
    have "conn_heap c1 ?p = Some cn" by (simp add: c1(8))
    from freeConn_nf [OF this, of e] obtain r2 where
      "rc_le (rcs c1) r2" "freeConn e (Some ?p) c1 = Some (c1\<lparr>rcs := r2, conn_heap := (conn_heap c1)(?p := None)\<rparr>)"
      by blast
    moreover have "((conn_heap c)(?p \<mapsto> cn))(?p := None) = conn_heap c"
      using assms(2) by (simp add: fun_upd_idem)
    ultimately show ?thesis
      using True new c1(1,2) by (auto simp: new_conn_in_use_def c1(8) intro: rc_le_trans)
  next
    case False
    let ?c2 = "c1\<lparr>conn_heap := (conn_heap c1)(?p \<mapsto> cn\<lparr>cn_type := t\<rparr>)\<rparr>"
    obtain now r2 where t: "currentTime e ?c2 = (now, ?c2\<lparr>rcs := r2\<rparr>)" "rc_le (rcs ?c2) r2"
      using currentTime_ex by blast
    let ?cn = "cn\<lparr>cn_type := t, cn_lastUseTime := now, cn_inuseCnt := 1\<rparr>"
    have "new_conn_in_use e t c = Some ((0, Some ?p), c\<lparr>rcs := r2, g_ConnIDGen := g_ConnIDGen c + 1,
        conn_heap := (conn_heap c)(?p \<mapsto> ?cn)\<rparr>)"
      using False new c1 t by (simp add: new_conn_in_use_def update_conn_def)
    moreover have "rc_le (rcs c) r2" "?p < heap_next (lib r2)"
      using t(2) c1(1,3) by (auto simp: c1(8) rc_le_def)
    ultimately show ?thesis using c1(4-7)
      by - (rule exI, rule exI, rule exI, rule conjI, assumption, rule disjI2,
        intro conjI refl exI [of _ r2] exI [of _ ?cn], simp_all)
  qed
qed


subsection \<open>Moving entries\<close>

lemma entries_ok_mset: "mset es = mset es' \<Longrightarrow> entries_ok h es = entries_ok h es'"
proof -
  assume *: "mset es = mset es'"
  then have "set es = set es'" by (rule mset_eq_setD)
  moreover from * have "mset (map fst es) = mset (map fst es')" by simp
  then have "distinct (map fst es) = distinct (map fst es')" by (rule mset_eq_imp_distinct_iff)
  ultimately show ?thesis by (simp add: entries_ok_def)
qed

lemma entries_ok_Cons:
  "entries_ok h ((p, t, b) # es) \<longleftrightarrow> conn_is h p t b \<and> p \<notin> fst ` set es
     \<and> entries_ok (h(p := None)) es"
proof
  assume l: "entries_ok h ((p, t, b) # es)"
  then have p: "p \<notin> fst ` set es" by (simp add: entries_ok_def)
  have "conn_is (h(p := None)) q t' b'" if "(q, t', b') \<in> set es" for q t' b'
  proof -
    from that p have "q \<noteq> p" by force
    moreover have "conn_is h q t' b'" using l that by (auto simp: entries_ok_def)
    ultimately show ?thesis by (simp add: conn_is_def)
  qed
  moreover have "dom (h(p := None)) = fst ` set es" using l p by (auto simp: entries_ok_def)
  ultimately show "conn_is h p t b \<and> p \<notin> fst ` set es \<and> entries_ok (h(p := None)) es"
    using l p by (auto simp: entries_ok_def)
next
  assume r: "conn_is h p t b \<and> p \<notin> fst ` set es \<and> entries_ok (h(p := None)) es"
  have "conn_is h q t' b'" if "(q, t', b') \<in> set es" for q t' b'
  proof -
    from that r have "q \<noteq> p" by force
    moreover have "conn_is (h(p := None)) q t' b'" using r that by (auto simp: entries_ok_def)
    ultimately show ?thesis by (simp add: conn_is_def)
  qed
  moreover have "p \<in> dom h" "dom h - {p} = fst ` set es"
    using r by (auto simp: conn_is_def entries_ok_def)
  then have "dom h = insert p (fst ` set es)" by blast
  ultimately show "entries_ok h ((p, t, b) # es)"
    using r by (auto simp: entries_ok_def)
qed

text \<open>A connection changes its place and its number of users, is added, is removed.\<close>

lemma entries_ok_move:
  assumes "entries_ok h es" and "mset es = add_mset (p, t, b) R" and "mset es' = add_mset (p, t', b') R"
    and "conn_is (h(p \<mapsto> cn)) p t' b'"
  shows "entries_ok (h(p \<mapsto> cn)) es'"
proof -
  obtain rs where rs: "R = mset rs" by (metis ex_mset)
  from assms(1,2) have "entries_ok h ((p, t, b) # rs)"
    by (simp add: rs entries_ok_mset [of es "(p, t, b) # rs"])
  then have "entries_ok (h(p \<mapsto> cn)) ((p, t', b') # rs)"
    using assms(4) by (simp add: entries_ok_Cons)
  then show ?thesis using assms(3) by (simp add: rs entries_ok_mset [of es' "(p, t', b') # rs"])
qed

lemma entries_ok_add:
  assumes "entries_ok h es" and "h p = None" and "mset es' = add_mset (p, t, b) (mset es)"
    and "conn_is (h(p \<mapsto> cn)) p t b"
  shows "entries_ok (h(p \<mapsto> cn)) es'"
proof -
  have "p \<notin> fst ` set es" using assms(1,2) unfolding entries_ok_def by (metis domIff)
  moreover have "h(p := None) = h" using assms(2) by (simp add: fun_upd_idem)
  ultimately have "entries_ok (h(p \<mapsto> cn)) ((p, t, b) # es)"
    using assms(1,4) by (simp add: entries_ok_Cons)
  then show ?thesis using assms(3) by (simp add: entries_ok_mset [of es' "(p, t, b) # es"])
qed

lemma entries_ok_del:
  assumes "entries_ok h es" and "mset es = add_mset (p, t, b) (mset es')"
  shows "entries_ok (h(p := None)) es'"
proof -
  from assms have "entries_ok h ((p, t, b) # es')"
    by (simp add: entries_ok_mset [of es "(p, t, b) # es'"])
  then show ?thesis by (simp add: entries_ok_Cons)
qed

lemma conn_is_touch:
  assumes "h p = Some cn" and "cn_type cn' = cn_type cn"
    and "(0 < cn_inuseCnt cn') = (0 < cn_inuseCnt cn)" and "(cn_inuseCnt cn' = 0) = (cn_inuseCnt cn = 0)"
  shows "conn_is (h(p \<mapsto> cn')) q t b = conn_is h q t b"
  using assms by (auto simp: conn_is_def)

lemma entries_ok_touch:
  assumes "entries_ok h es" and "h p = Some cn" and "cn_type cn' = cn_type cn"
    and "(0 < cn_inuseCnt cn') = (0 < cn_inuseCnt cn)" and "(cn_inuseCnt cn' = 0) = (cn_inuseCnt cn = 0)"
  shows "entries_ok (h(p \<mapsto> cn')) es"
proof -
  have "dom (h(p \<mapsto> cn')) = dom h" using assms(2) by auto
  with assms(1) show ?thesis by (simp add: entries_ok_def conn_is_touch [of h, OF assms(2-5)])
qed

lemma entries_ok_mem: "entries_ok h es \<Longrightarrow> (p, t, b) \<in> set es \<Longrightarrow> conn_is h p t b"
  by (auto simp: entries_ok_def)

lemma entries_ok_unique:
  "entries_ok h es \<Longrightarrow> (p, t, b) \<in> set es \<Longrightarrow> (p, t', b') \<in> set es \<Longrightarrow> t = t' \<and> b = b'"
  unfolding entries_ok_def by (metis eq_key_imp_eq_value old.prod.inject)

lemma entries_ok_live: "entries_ok h es \<Longrightarrow> h p = Some cn \<Longrightarrow> \<exists>t b. (p, t, b) \<in> set es"
proof -
  assume *: "entries_ok h es" "h p = Some cn"
  then have "p \<in> fst ` set es" unfolding entries_ok_def by (metis domI)
  then show ?thesis by force
qed

lemma onetime_ok_cong:
  assumes "onetime_ok h m gen"
    and "\<And>q. q \<in> snd ` set m \<Longrightarrow> map_option cn_connId (h' q) = map_option cn_connId (h q)"
  shows "onetime_ok h' m gen"
  using assms unfolding onetime_ok_def by fastforce

lemma onetime_ok_upd:
  "onetime_ok h m gen \<Longrightarrow> h p = Some cn \<Longrightarrow> cn_connId cn' = cn_connId cn \<Longrightarrow> onetime_ok (h(p \<mapsto> cn')) m gen"
  "onetime_ok h m gen \<Longrightarrow> p \<notin> snd ` set m \<Longrightarrow> onetime_ok (h(p := v)) m gen"
  by (erule onetime_ok_cong, auto)+

lemma onetime_ok_gen:
  assumes "onetime_ok h m gen" and "gen < - 1" shows "onetime_ok h m (gen + 1)"
proof -
  have "gen < gen + 1" using assms(2) by (metis inc_less_eq_triv_imp linorder_not_less order_less_irrefl)
  then show ?thesis using assms(1) by (auto simp: onetime_ok_def)
qed

lemma mset_map_insert: "map_find m k = None \<Longrightarrow> mset (map_insert k v m) = add_mset (k, v) (mset m)"
  by (induction m) (auto split: if_splits)

lemma mset_map_erase:
  "map_find m k = Some v \<Longrightarrow> mset m = add_mset (k, v) (mset (map_erase k m))"
  by (induction m) (auto split: if_splits)

lemma mset_slot_fill:
  "i < length xs \<Longrightarrow> xs ! i = None \<Longrightarrow> mset (slot_ptrs (xs[i := Some p])) = add_mset p (mset (slot_ptrs xs))"
  using slot_ptrs_fill(1) [of i xs p] slot_ptrs_fill(2) [of i xs] by simp

lemma mset_clear_slot:
  "Some p \<in> set xs \<Longrightarrow> mset (slot_ptrs xs) = add_mset p (mset (slot_ptrs (clear_slot p xs)))"
  by (induction xs) auto

lemma length_clear_slot [simp]: "length (clear_slot p xs) = length xs"
  by (induction xs) auto

lemma first_null_Some: "first_null xs = Some i \<Longrightarrow> i < length xs \<and> xs ! i = None"
  by (induction xs arbitrary: i rule: first_null.induct) auto

lemma first_null_None: "first_null xs = None \<Longrightarrow> xs = map Some (slot_ptrs xs)"
  by (induction xs rule: first_null.induct) auto


subsection \<open>Steps that keep the invariant\<close>

lemma pool_entries_other [simp]:
  "pool_entries (c\<lparr>rcs := r\<rparr>) = pool_entries c"
  "pool_entries (c\<lparr>conn_heap := h\<rparr>) = pool_entries c"
  "pool_entries (c\<lparr>g_ConnIDGen := n\<rparr>) = pool_entries c"
  "pool_entries (c\<lparr>g_LastConnCheck := t\<rparr>) = pool_entries c"
  by (simp_all add: pool_entries_def)

lemma conn_inv_rcs: "conn_inv c \<Longrightarrow> rc_le (rcs c) r \<Longrightarrow> conn_inv (c\<lparr>rcs := r\<rparr>)"
  unfolding conn_inv_def rc_le_def by (auto intro: order.strict_trans2)

lemma conn_inv_check: "conn_inv c \<Longrightarrow> conn_inv (c\<lparr>g_LastConnCheck := t\<rparr>)"
  by (simp add: conn_inv_def)

lemma conn_inv_gen: "conn_inv c \<Longrightarrow> g_ConnIDGen c < - 1 \<Longrightarrow> conn_inv (c\<lparr>g_ConnIDGen := g_ConnIDGen c + 1\<rparr>)"
  by (simp add: conn_inv_def onetime_ok_gen)

lemma conn_inv_fresh: "conn_inv c \<Longrightarrow> conn_heap c (heap_next (lib (rcs c))) = None"
  by (cases "conn_heap c (heap_next (lib (rcs c)))") (auto simp: conn_inv_def)

lemma conn_inv_entry:
  "conn_inv c \<Longrightarrow> (p, t, b) \<in> set (pool_entries c) \<Longrightarrow>
     \<exists>cn. conn_heap c p = Some cn \<and> cn_type cn = t \<and> (if b then 0 < cn_inuseCnt cn else cn_inuseCnt cn = 0)"
  using entries_ok_mem [of "conn_heap c" "pool_entries c" p t b] by (simp add: conn_inv_def conn_is_def)

lemma conn_inv_bound: "conn_inv c \<Longrightarrow> q \<in> dom (conn_heap c) \<Longrightarrow> q < heap_next (lib (rcs c))"
  unfolding conn_inv_def by blast

lemma conn_inv_bound_le:
  "conn_inv c \<Longrightarrow> rc_le (rcs c) r \<Longrightarrow> q \<in> dom (conn_heap c) \<Longrightarrow> q < heap_next (lib r)"
  using conn_inv_bound [of c q] by (simp add: rc_le_def)

text \<open>Fields the pool does not sort by change, the users staying some or none.\<close>

lemma conn_inv_touch:
  assumes "conn_inv c" and "conn_heap c p = Some cn" and "cn_type cn' = cn_type cn"
    and "cn_connId cn' = cn_connId cn" and "(0 < cn_inuseCnt cn') = (0 < cn_inuseCnt cn)"
    and "(cn_inuseCnt cn' = 0) = (cn_inuseCnt cn = 0)"
  shows "conn_inv (c\<lparr>conn_heap := (conn_heap c)(p \<mapsto> cn')\<rparr>)"
  using assms(1,2)
    entries_ok_touch [where h = "conn_heap c" and p = p, OF _ assms(2,3,5,6), of "pool_entries c"]
    onetime_ok_upd(1) [where h = "conn_heap c" and p = p, OF _ assms(2,4), of "g_InUseOnetimeuseConn c" "g_ConnIDGen c"]
  by (auto simp: conn_inv_def)

text \<open>A connection that is not a one-time connection moves from one place to another.\<close>

lemma conn_inv_move:
  assumes inv: "conn_inv c" and "conn_heap c p = Some cn" and le: "rc_le (rcs c) (rcs c')"
    and heap: "conn_heap c' = (conn_heap c)(p \<mapsto> cn')" and id: "cn_connId cn' = cn_connId cn"
    and "mset (pool_entries c) = add_mset (p, t, b) R" and "mset (pool_entries c') = add_mset (p, t', b') R"
    and "cn_type cn' = t'" and "if b' then 0 < cn_inuseCnt cn' else cn_inuseCnt cn' = 0"
    and "length (g_InUseConn c') = length (g_InUseConn c)" and "g_MaxConnNum c' = g_MaxConnNum c"
    and "g_InUseShortopConn c' = None \<or> g_FreeShortopConn c' = None"
    and "g_InUseOnetimeuseConn c' = g_InUseOnetimeuseConn c" and "g_ConnIDGen c' = g_ConnIDGen c"
  shows "conn_inv c'"
proof -
  have "conn_is ((conn_heap c)(p \<mapsto> cn')) p t' b'" using assms(8,9) by (simp add: conn_is_def)
  with inv have "entries_ok (conn_heap c') (pool_entries c')"
    unfolding heap by (intro entries_ok_move [OF _ assms(6,7)]) (simp_all add: conn_inv_def)
  moreover have "onetime_ok (conn_heap c') (g_InUseOnetimeuseConn c') (g_ConnIDGen c')"
    using inv onetime_ok_upd(1) [where h = "conn_heap c" and p = p, OF _ assms(2) id] by (simp add: heap assms(13,14) conn_inv_def)
  moreover have "\<forall>q \<in> dom (conn_heap c'). q < heap_next (lib (rcs c'))"
  proof
    fix q assume "q \<in> dom (conn_heap c')"
    then have "q \<in> dom (conn_heap c)" using assms(2) by (auto simp: heap split: if_splits)
    with inv le show "q < heap_next (lib (rcs c'))" by (intro conn_inv_bound_le)
  qed
  ultimately show ?thesis using inv le assms(10-12) by (simp add: conn_inv_def rc_le_def)
qed

text \<open>A new connection is added.\<close>

lemma conn_inv_add:
  assumes inv: "conn_inv c" and p: "p = heap_next (lib (rcs c))" and le: "rc_le (rcs c) (rcs c')"
    and "p < heap_next (lib (rcs c'))"
    and heap: "conn_heap c' = (conn_heap c)(p \<mapsto> cn)"
    and "mset (pool_entries c') = add_mset (p, t, True) (mset (pool_entries c))"
    and "cn_type cn = t" and "0 < cn_inuseCnt cn"
    and "length (g_InUseConn c') = length (g_InUseConn c)" and "g_MaxConnNum c' = g_MaxConnNum c"
    and "g_InUseShortopConn c' = None \<or> g_FreeShortopConn c' = None"
    and "onetime_ok (conn_heap c') (g_InUseOnetimeuseConn c') (g_ConnIDGen c')"
  shows "conn_inv c'"
proof -
  have none: "conn_heap c p = None" unfolding p by (rule conn_inv_fresh [OF inv])
  have "conn_is ((conn_heap c)(p \<mapsto> cn)) p t True" using assms(7,8) by (simp add: conn_is_def)
  with inv none have "entries_ok (conn_heap c') (pool_entries c')"
    unfolding heap by (intro entries_ok_add [where h = "conn_heap c" and p = p, OF _ none assms(6)]) (simp_all add: conn_inv_def)
  moreover have "\<forall>q \<in> dom (conn_heap c'). q < heap_next (lib (rcs c'))"
  proof
    fix q assume "q \<in> dom (conn_heap c')"
    then have "q \<in> dom (conn_heap c) \<or> q = p" by (auto simp: heap split: if_splits)
    with inv le assms(4) show "q < heap_next (lib (rcs c'))" by (auto intro: conn_inv_bound_le)
  qed
  ultimately show ?thesis using inv le assms(9-12) by (simp add: conn_inv_def rc_le_def)
qed

text \<open>A connection is removed.\<close>

lemma conn_inv_del:
  assumes inv: "conn_inv c" and le: "rc_le (rcs c) (rcs c')"
    and heap: "conn_heap c' = (conn_heap c)(p := None)"
    and "mset (pool_entries c) = add_mset (p, t, b) (mset (pool_entries c'))"
    and "length (g_InUseConn c') = length (g_InUseConn c)" and "g_MaxConnNum c' = g_MaxConnNum c"
    and "g_InUseShortopConn c' = None \<or> g_FreeShortopConn c' = None"
    and "map_ok (g_InUseOnetimeuseConn c')"
    and "set (g_InUseOnetimeuseConn c') \<subseteq> set (g_InUseOnetimeuseConn c)"
    and "g_ConnIDGen c' = g_ConnIDGen c"
  shows "conn_inv c'"
proof -
  have ent: "entries_ok (conn_heap c') (pool_entries c')"
    unfolding heap using inv by (intro entries_ok_del [OF _ assms(4)]) (simp add: conn_inv_def)
  have "q \<noteq> p" if "(k, q) \<in> set (g_InUseOnetimeuseConn c')" for k q
  proof
    assume "q = p"
    then have "p \<in> fst ` set (pool_entries c')" using that by (force simp: pool_entries_def)
    then have "p \<in> dom (conn_heap c')" using ent by (simp add: entries_ok_def)
    then show False by (simp add: heap)
  qed
  then have "p \<notin> snd ` set (g_InUseOnetimeuseConn c')" by force
  moreover have "onetime_ok (conn_heap c) (g_InUseOnetimeuseConn c) (g_ConnIDGen c)"
    using inv by (simp add: conn_inv_def)
  then have "onetime_ok (conn_heap c) (g_InUseOnetimeuseConn c') (g_ConnIDGen c')"
    using assms(8,9) unfolding onetime_ok_def assms(10) by blast
  ultimately have "onetime_ok (conn_heap c') (g_InUseOnetimeuseConn c') (g_ConnIDGen c')"
    unfolding heap by (intro onetime_ok_upd(2))
  moreover have "\<forall>q \<in> dom (conn_heap c'). q < heap_next (lib (rcs c'))"
    using inv le by (auto intro: conn_inv_bound_le simp: heap split: if_splits)
  ultimately show ?thesis using inv le ent assms(5-7) by (simp add: conn_inv_def rc_le_def)
qed


subsection \<open>Getting a connection\<close>

text \<open>\<open>p\<close> is a pooled connection of type \<open>t\<close> with users.\<close>

definition conn_in_use :: "'w conn_state \<Rightarrow> nat \<Rightarrow> int \<Rightarrow> bool" where
  "conn_in_use c p t \<longleftrightarrow> (p, t, True) \<in> set (pool_entries c)"

text \<open>
  What a call that hands out a connection does: it fails and changes nobody's references, or
  it adds one reference to a connection of the asked type.
\<close>

definition get_ok :: "'w ext \<Rightarrow> int \<Rightarrow> 'w conn_state \<Rightarrow> ((int \<times> nat option) \<times> 'w conn_state) option \<Rightarrow> bool" where
  "get_ok e t c res \<longleftrightarrow> (\<exists>status conn c'. res = Some ((status, conn), c') \<and> conn_inv c'
     \<and> rc_le (rcs c) (rcs c') \<and> (g_ConnIDGen c' = g_ConnIDGen c \<or> g_ConnIDGen c' = g_ConnIDGen c + 1)
     \<and> (status < 0 \<and> conn = None \<and> conn_refs c' = conn_refs c
        \<or> status = 0 \<and> (\<exists>p. conn = Some p \<and> conn_in_use c' p t
             \<and> conn_refs c' = (conn_refs c)(p := conn_refs c p + 1))))"

lemma new_conn_cases:
  assumes inv: "conn_inv c" and "calloc_ok e" and gen: "g_ConnIDGen c < - 1"
  obtains (fail) status c1 where "new_conn_in_use e t c = Some ((status, None), c1)" and "status < 0"
      and "conn_inv c1" and "rc_le (rcs c) (rcs c1)" and "g_ConnIDGen c1 = g_ConnIDGen c + 1"
      and "conn_refs c1 = conn_refs c"
    | (ok) p r cn where "new_conn_in_use e t c = Some ((0, Some p), c\<lparr>rcs := r,
          g_ConnIDGen := g_ConnIDGen c + 1, conn_heap := (conn_heap c)(p \<mapsto> cn)\<rparr>)"
      and "p = heap_next (lib (rcs c))" and "rc_le (rcs c) r" and "p < heap_next (lib r)"
      and "conn_heap c p = None" and "cn_type cn = t" and "cn_inuseCnt cn = 1" and "cn_connId cn = g_ConnIDGen c"
      and "onetime_ok ((conn_heap c)(p \<mapsto> cn)) (g_InUseOnetimeuseConn c) (g_ConnIDGen c + 1)"
proof -
  let ?p = "heap_next (lib (rcs c))"
  note fresh = conn_inv_fresh [OF inv]
  from new_conn_in_use_nf [OF assms(2) fresh]
  obtain status conn c1 where new: "new_conn_in_use e t c = Some ((status, conn), c1)"
    and cases: "(status < 0 \<and> conn = None \<and> (\<exists>r. rc_le (rcs c) r \<and> c1 = c\<lparr>rcs := r, g_ConnIDGen := g_ConnIDGen c + 1\<rparr>))
     \<or> (status = 0 \<and> conn = Some ?p \<and> (\<exists>r cn. rc_le (rcs c) r
          \<and> ?p < heap_next (lib r)
          \<and> cn_type cn = t \<and> cn_inuseCnt cn = 1 \<and> cn_connId cn = g_ConnIDGen c \<and> \<not> cn_lock cn
          \<and> c1 = c\<lparr>rcs := r, g_ConnIDGen := g_ConnIDGen c + 1, conn_heap := (conn_heap c)(?p \<mapsto> cn)\<rparr>))"
    by metis
  from inv gen have one: "onetime_ok (conn_heap c) (g_InUseOnetimeuseConn c) (g_ConnIDGen c + 1)"
    by (simp add: conn_inv_def onetime_ok_gen)
  then have "?p \<notin> snd ` set (g_InUseOnetimeuseConn c)" using fresh by (auto simp: onetime_ok_def)
  with one have one': "onetime_ok ((conn_heap c)(?p \<mapsto> cn)) (g_InUseOnetimeuseConn c) (g_ConnIDGen c + 1)" for cn
    by (rule onetime_ok_upd(2))
  from cases show ?thesis
  proof (elim disjE conjE exE)
    fix r assume "status < 0" "conn = None" and le: "rc_le (rcs c) r" and c1: "c1 = c\<lparr>rcs := r, g_ConnIDGen := g_ConnIDGen c + 1\<rparr>"
    moreover have "conn_inv c1"
      using conn_inv_gen [OF conn_inv_rcs [OF inv le]] gen by (simp add: c1)
    ultimately show ?thesis using new by (intro fail [of status c1]) (auto simp: conn_refs_def)
  qed (use new fresh one' ok in auto)
qed

text \<open>Sharing a connection that has users already.\<close>

lemma get_ok_share:
  assumes inv: "conn_inv c" and used: "conn_in_use c p t"
  shows "get_ok e t c (do { c1 \<leftarrow> use_conn e p c; Some ((0, Some p), c1) })"
proof -
  from conn_inv_entry [OF inv used [unfolded conn_in_use_def]] obtain cn where
    cn: "conn_heap c p = Some cn" "0 < cn_inuseCnt cn" by auto
  from use_conn_nf [OF cn(1), of e] obtain r now where le: "rc_le (rcs c) r"
    and use: "use_conn e p c = Some (c\<lparr>rcs := r, conn_heap := (conn_heap c)(p \<mapsto>
      cn\<lparr>cn_lastUseTime := now, cn_inuseCnt := cn_inuseCnt cn + 1, cn_lock := False\<rparr>)\<rparr>)"
    by blast
  have "conn_inv (c\<lparr>rcs := r, conn_heap := (conn_heap c)(p \<mapsto>
      cn\<lparr>cn_lastUseTime := now, cn_inuseCnt := cn_inuseCnt cn + 1, cn_lock := False\<rparr>)\<rparr>)"
    using conn_inv_touch [OF conn_inv_rcs [OF inv le], of p cn] cn by simp
  with le use used show ?thesis
    by (simp add: get_ok_def conn_in_use_def conn_refs_def heap_refs_at(1) [of "conn_heap c" p, OF cn(1)])
qed

lemma get_shortop_ok:
  assumes inv: "conn_inv c" and "calloc_ok e" and "g_ConnIDGen c < - 1"
  shows "get_ok e IFUSE_CONN_TYPE_FOR_SHORTOP c (get_shortop e c)"
proof (cases "g_InUseShortopConn c")
  case (Some p)
  then have "conn_in_use c p IFUSE_CONN_TYPE_FOR_SHORTOP" by (simp add: conn_in_use_def pool_entries_def)
  from get_ok_share [OF inv this] Some show ?thesis by (simp add: get_shortop_def)
next
  case none: None
  show ?thesis
  proof (cases "g_FreeShortopConn c")
    case (Some p)
    then have "(p, IFUSE_CONN_TYPE_FOR_SHORTOP, False) \<in> set (pool_entries c)"
      by (simp add: pool_entries_def)
    from conn_inv_entry [OF inv this] obtain cn where
      cn: "conn_heap c p = Some cn" "cn_type cn = IFUSE_CONN_TYPE_FOR_SHORTOP" "cn_inuseCnt cn = 0" by auto
    let ?c = "c\<lparr>g_FreeShortopConn := None\<rparr>"
    have "conn_heap ?c p = Some cn" using cn by simp
    from use_conn_nf [OF this, of e] obtain r now where le: "rc_le (rcs c) r"
      and use: "use_conn e p ?c = Some (?c\<lparr>rcs := r, conn_heap := (conn_heap c)(p \<mapsto>
        cn\<lparr>cn_lastUseTime := now, cn_inuseCnt := cn_inuseCnt cn + 1, cn_lock := False\<rparr>)\<rparr>)"
      by auto
    let ?cn = "cn\<lparr>cn_lastUseTime := now, cn_inuseCnt := cn_inuseCnt cn + 1, cn_lock := False\<rparr>"
    let ?c' = "?c\<lparr>rcs := r, conn_heap := (conn_heap c)(p \<mapsto> ?cn), g_InUseShortopConn := Some p\<rparr>"
    have "conn_inv ?c'"
      by (rule conn_inv_move [OF inv cn(1), where cn' = ?cn and t = IFUSE_CONN_TYPE_FOR_SHORTOP
          and t' = IFUSE_CONN_TYPE_FOR_SHORTOP and b = False and b' = True])
         (use le cn none Some in \<open>simp_all add: pool_entries_def\<close>)
    with none Some use le cn show ?thesis
      by (simp add: get_ok_def get_shortop_def conn_in_use_def pool_entries_def conn_refs_def heap_refs_at(1) [of "conn_heap c" p, OF cn(1)])
  next
    case None
    from inv assms(2,3) show ?thesis
    proof (cases rule: new_conn_cases [where t = IFUSE_CONN_TYPE_FOR_SHORTOP])
      case (fail status c1)
      then show ?thesis using none None by (simp add: get_ok_def get_shortop_def)
    next
      case (ok p r cn)
      let ?c' = "c\<lparr>rcs := r, g_ConnIDGen := g_ConnIDGen c + 1, conn_heap := (conn_heap c)(p \<mapsto> cn),
        g_InUseShortopConn := Some p\<rparr>"
      have "conn_inv ?c'"
        by (rule conn_inv_add [OF inv ok(2), where cn = cn and t = IFUSE_CONN_TYPE_FOR_SHORTOP])
           (use ok none None in \<open>simp_all add: pool_entries_def\<close>)
      then show ?thesis
        using none None ok
        by (simp add: get_ok_def get_shortop_def conn_in_use_def pool_entries_def conn_refs_def heap_refs_at)
    qed
  qed
qed

lemma get_onetimeuse_ok:
  assumes inv: "conn_inv c" and "calloc_ok e" and "g_ConnIDGen c < - 1"
  shows "get_ok e IFUSE_CONN_TYPE_FOR_ONETIMEUSE c (get_onetimeuse e c)"
  using assms
proof (cases rule: new_conn_cases [where t = IFUSE_CONN_TYPE_FOR_ONETIMEUSE])
  case (fail status c1)
  then show ?thesis by (simp add: get_ok_def get_onetimeuse_def)
next
  case (ok p r cn)
  let ?m = "map_insert (g_ConnIDGen c) p (g_InUseOnetimeuseConn c)"
  let ?c' = "c\<lparr>rcs := r, g_ConnIDGen := g_ConnIDGen c + 1, conn_heap := (conn_heap c)(p \<mapsto> cn),
    g_InUseOnetimeuseConn := ?m\<rparr>"
  have new_key: "map_find (g_InUseOnetimeuseConn c) (g_ConnIDGen c) = None"
  proof (rule ccontr)
    assume "map_find (g_InUseOnetimeuseConn c) (g_ConnIDGen c) \<noteq> None"
    then obtain q where "(g_ConnIDGen c, q) \<in> set (g_InUseOnetimeuseConn c)" by (auto dest: map_of_SomeD)
    with inv show False by (auto simp: conn_inv_def onetime_ok_def)
  qed
  note ms = mset_map_insert [OF new_key, of p]
  then have set: "set ?m = insert (g_ConnIDGen c, p) (set (g_InUseOnetimeuseConn c))"
    by (metis set_mset_add_mset_insert set_mset_mset)
  have "g_ConnIDGen c < g_ConnIDGen c + 1"
    using assms(3) by (metis inc_less_eq_triv_imp linorder_not_less order_less_irrefl)
  then have one: "onetime_ok ((conn_heap c)(p \<mapsto> cn)) ?m (g_ConnIDGen c + 1)"
    using ok(8,9) by (auto simp: onetime_ok_def set)
  have "mset (pool_entries ?c') = add_mset (p, IFUSE_CONN_TYPE_FOR_ONETIMEUSE, True) (mset (pool_entries c))"
    using ms by (simp add: pool_entries_def)
  moreover from this have "conn_in_use ?c' p IFUSE_CONN_TYPE_FOR_ONETIMEUSE"
    unfolding conn_in_use_def by (metis set_mset_mset union_single_eq_member)
  moreover have "conn_inv ?c'"
    by (rule conn_inv_add [OF inv ok(2), where cn = cn and t = IFUSE_CONN_TYPE_FOR_ONETIMEUSE])
       (use ok one inv calculation(1) in \<open>simp_all add: conn_inv_def\<close>)
  ultimately show ?thesis
    using ok by (simp add: get_ok_def get_onetimeuse_def conn_refs_def heap_refs_at)
qed


text \<open>When all slots are taken, the loop picks the first of those with the fewest users.\<close>

lemma least_used_best:
  assumes "\<forall>q \<in> set ps. \<exists>cn. h q = Some cn \<and> 0 < cn_inuseCnt cn" and "h b = Some cb" and "0 < cn_inuseCnt cb"
  shows "\<exists>p. least_used h (map Some ps) (cn_inuseCnt cb) (Some b) = Some (Some p) \<and> p \<in> set (b # ps)
    \<and> (\<forall>q \<in> set (b # ps). heap_refs h p \<le> heap_refs h q)"
  using assms
proof (induction ps arbitrary: b cb)
  case Nil
  then show ?case by simp
next
  case (Cons q ps)
  then obtain cq where cq: "h q = Some cq" "0 < cn_inuseCnt cq" by auto
  show ?case
  proof (cases "cn_inuseCnt cb > cn_inuseCnt cq")
    case True
    from Cons.IH [of q cq] Cons.prems cq obtain p where
      "least_used h (map Some ps) (cn_inuseCnt cq) (Some q) = Some (Some p)" "p \<in> set (q # ps)"
      "\<forall>r \<in> set (q # ps). heap_refs h p \<le> heap_refs h r" by auto
    with True cq Cons.prems(2,3) show ?thesis by (fastforce simp: heap_refs_def)
  next
    case False
    from Cons.IH [of b cb] Cons.prems obtain p where
      "least_used h (map Some ps) (cn_inuseCnt cb) (Some b) = Some (Some p)" "p \<in> set (b # ps)"
      "\<forall>r \<in> set (b # ps). heap_refs h p \<le> heap_refs h r" by auto
    with False cq Cons.prems(2,3) show ?thesis by (fastforce simp: heap_refs_def)
  qed
qed

lemma least_used_all:
  assumes "\<forall>q \<in> set ps. \<exists>cn. h q = Some cn \<and> 0 < cn_inuseCnt cn" and "ps \<noteq> []"
  shows "\<exists>p. least_used h (map Some ps) (- 1) None = Some (Some p) \<and> p \<in> set ps
    \<and> (\<forall>q \<in> set ps. heap_refs h p \<le> heap_refs h q)"
proof (cases ps)
  case (Cons b bs)
  with assms(1) obtain cb where "h b = Some cb" "0 < cn_inuseCnt cb" by auto
  with least_used_best [of bs h b cb] assms(1) Cons show ?thesis by auto
qed (use assms(2) in simp)

lemma slot_in_use: "p \<in> set (slot_ptrs (g_InUseConn c)) \<Longrightarrow> conn_in_use c p IFUSE_CONN_TYPE_FOR_FILE_IO"
  by (simp add: conn_in_use_def pool_entries_def)

lemma get_file_io_full:
  assumes inv: "conn_inv c" and full: "first_null (g_InUseConn c) = None"
  shows "\<exists>p. least_used (conn_heap c) (g_InUseConn c) (- 1) None = Some (Some p)
    \<and> p \<in> set (slot_ptrs (g_InUseConn c)) \<and> (\<forall>q \<in> set (slot_ptrs (g_InUseConn c)). conn_refs c p \<le> conn_refs c q)"
proof -
  let ?ps = "slot_ptrs (g_InUseConn c)"
  note eq = first_null_None [OF full]
  have "g_InUseConn c \<noteq> []" using inv by (auto simp: conn_inv_def)
  then have "?ps \<noteq> []" using eq by auto
  moreover have "\<forall>q \<in> set ?ps. \<exists>cn. conn_heap c q = Some cn \<and> 0 < cn_inuseCnt cn"
    using conn_inv_entry [OF inv] slot_in_use [of _ c] unfolding conn_in_use_def by fastforce
  ultimately show ?thesis
    using least_used_all [of ?ps "conn_heap c"] unfolding eq [symmetric] conn_refs_def by blast
qed

lemma get_file_io_ok:
  assumes inv: "conn_inv c" and "calloc_ok e" and "g_ConnIDGen c < - 1"
  shows "get_ok e IFUSE_CONN_TYPE_FOR_FILE_IO c (get_file_io e c)"
proof (cases "first_null (g_InUseConn c)")
  case None
  from get_file_io_full [OF inv None] obtain p where
    "least_used (conn_heap c) (g_InUseConn c) (- 1) None = Some (Some p)" "p \<in> set (slot_ptrs (g_InUseConn c))"
    by blast
  then show ?thesis
    using None get_ok_share [OF inv slot_in_use, of p e] by (simp add: get_file_io_def)
next
  case (Some i)
  note i = first_null_Some [OF Some]
  show ?thesis
  proof (cases "g_FreeConn c")
    case (Cons p ps)
    then have "(p, IFUSE_CONN_TYPE_FOR_FILE_IO, False) \<in> set (pool_entries c)"
      by (simp add: pool_entries_def)
    from conn_inv_entry [OF inv this] obtain cn where
      cn: "conn_heap c p = Some cn" "cn_type cn = IFUSE_CONN_TYPE_FOR_FILE_IO" "cn_inuseCnt cn = 0" by auto
    from use_conn_nf [OF cn(1), of e] obtain r now where le: "rc_le (rcs c) r"
      and use: "use_conn e p c = Some (c\<lparr>rcs := r, conn_heap := (conn_heap c)(p \<mapsto>
        cn\<lparr>cn_lastUseTime := now, cn_inuseCnt := cn_inuseCnt cn + 1, cn_lock := False\<rparr>)\<rparr>)"
      by auto
    let ?cn = "cn\<lparr>cn_lastUseTime := now, cn_inuseCnt := cn_inuseCnt cn + 1, cn_lock := False\<rparr>"
    let ?c' = "c\<lparr>rcs := r, conn_heap := (conn_heap c)(p \<mapsto> ?cn),
      g_InUseConn := (g_InUseConn c)[i := Some p], g_FreeConn := ps\<rparr>"
    have "distinct (map fst (pool_entries c))" using inv by (simp add: conn_inv_def entries_ok_def)
    then have "p \<notin> set ps" by (auto simp: pool_entries_def Cons)
    then have rm: "removeAll p (g_FreeConn c) = ps" by (simp add: Cons removeAll_id)
    note fill = mset_slot_fill [OF i [THEN conjunct1] i [THEN conjunct2], of p]
    obtain R where R: "mset (pool_entries c) = add_mset (p, IFUSE_CONN_TYPE_FOR_FILE_IO, False) R"
      "mset (pool_entries ?c') = add_mset (p, IFUSE_CONN_TYPE_FOR_FILE_IO, True) R"
      using fill by (simp add: pool_entries_def Cons)
    have "conn_inv ?c'"
      by (rule conn_inv_move [OF inv cn(1) _ _ _ R, where cn' = ?cn])
         (use le cn inv in \<open>simp_all add: conn_inv_def\<close>)
    moreover have "conn_in_use ?c' p IFUSE_CONN_TYPE_FOR_FILE_IO"
      using R(2) unfolding conn_in_use_def by (metis set_mset_mset union_single_eq_member)
    ultimately show ?thesis
      using Some Cons use le cn rm
      by (simp add: get_ok_def get_file_io_def conn_refs_def heap_refs_at(1) [of "conn_heap c" p, OF cn(1)])
  next
    case Nil
    from inv assms(2,3) show ?thesis
    proof (cases rule: new_conn_cases [where t = IFUSE_CONN_TYPE_FOR_FILE_IO])
      case (fail status c1)
      then show ?thesis using Some Nil by (simp add: get_ok_def get_file_io_def)
    next
      case (ok p r cn)
      let ?c' = "c\<lparr>rcs := r, g_ConnIDGen := g_ConnIDGen c + 1, conn_heap := (conn_heap c)(p \<mapsto> cn),
        g_InUseConn := (g_InUseConn c)[i := Some p]\<rparr>"
      have ms: "mset (pool_entries ?c') = add_mset (p, IFUSE_CONN_TYPE_FOR_FILE_IO, True) (mset (pool_entries c))"
        using mset_slot_fill [OF i [THEN conjunct1] i [THEN conjunct2], of p] by (simp add: pool_entries_def)
      then have "conn_in_use ?c' p IFUSE_CONN_TYPE_FOR_FILE_IO"
        unfolding conn_in_use_def by (metis set_mset_mset union_single_eq_member)
      moreover have "conn_inv ?c'"
        by (rule conn_inv_add [OF inv ok(2), where cn = cn and t = IFUSE_CONN_TYPE_FOR_FILE_IO])
           (use ok ms inv in \<open>simp_all add: conn_inv_def\<close>)
      ultimately show ?thesis
        using Some Nil ok by (simp add: get_ok_def get_file_io_def conn_refs_def heap_refs_at)
    qed
  qed
qed

lemma getAndUse_ok:
  assumes "conn_inv c" and "calloc_ok e" and "g_ConnIDGen c < - 1"
    and "t \<in> {IFUSE_CONN_TYPE_FOR_FILE_IO, IFUSE_CONN_TYPE_FOR_SHORTOP, IFUSE_CONN_TYPE_FOR_ONETIMEUSE}"
  shows "get_ok e t c (iFuseConnGetAndUse e t c)"
  using assms get_shortop_ok [of c e] get_file_io_ok [of c e] get_onetimeuse_ok [of c e]
  by (auto simp: iFuseConnGetAndUse_def conn_type_defs)

subsection \<open>Releasing a connection\<close>

lemma conn_in_use_refs:
  assumes inv: "conn_inv c"
  shows "0 < conn_refs c p \<longleftrightarrow> (\<exists>t. conn_in_use c p t)"
proof
  assume "0 < conn_refs c p"
  then obtain cn where cn: "conn_heap c p = Some cn" "0 < cn_inuseCnt cn"
    by (auto simp: conn_refs_def heap_refs_def split: option.splits)
  have "entries_ok (conn_heap c) (pool_entries c)" using inv by (simp add: conn_inv_def)
  from entries_ok_live [OF this cn(1)] obtain t b where m: "(p, t, b) \<in> set (pool_entries c)" by blast
  with conn_inv_entry [OF inv m] cn have b by (auto split: if_splits)
  with m show "\<exists>t. conn_in_use c p t" by (auto simp: conn_in_use_def)
next
  assume "\<exists>t. conn_in_use c p t"
  with conn_inv_entry [OF inv] show "0 < conn_refs c p"
    unfolding conn_in_use_def conn_refs_def by (fastforce simp: heap_refs_def)
qed


lemma conn_in_use_place:
  "conn_in_use c p IFUSE_CONN_TYPE_FOR_SHORTOP \<Longrightarrow> g_InUseShortopConn c = Some p"
  "conn_in_use c p IFUSE_CONN_TYPE_FOR_FILE_IO \<Longrightarrow> Some p \<in> set (g_InUseConn c)"
  "conn_in_use c p IFUSE_CONN_TYPE_FOR_ONETIMEUSE \<Longrightarrow> \<exists>k. (k, p) \<in> set (g_InUseOnetimeuseConn c)"
  by (auto simp: conn_in_use_def pool_entries_def conn_type_defs set_slot_ptrs)

lemma conn_in_use_type:
  "conn_in_use c p t \<Longrightarrow>
     t \<in> {IFUSE_CONN_TYPE_FOR_FILE_IO, IFUSE_CONN_TYPE_FOR_SHORTOP, IFUSE_CONN_TYPE_FOR_ONETIMEUSE}"
  by (auto simp: conn_in_use_def pool_entries_def)

text \<open>
  What giving a reference back does: nobody else's references change, and it never fails an
  assertion.
\<close>

definition put_ok :: "nat \<Rightarrow> 'w conn_state \<Rightarrow> 'w conn_state option \<Rightarrow> bool" where
  "put_ok p c res \<longleftrightarrow> (\<exists>c'. res = Some c' \<and> conn_inv c' \<and> rc_le (rcs c) (rcs c')
     \<and> g_ConnIDGen c' = g_ConnIDGen c \<and> conn_refs c' = (conn_refs c)(p := conn_refs c p - 1))"

lemma unuse_ok:
  assumes inv: "conn_inv c" and used: "0 < conn_refs c p"
  shows "put_ok p c (iFuseConnUnuse e p c)"
proof -
  from used conn_in_use_refs [OF inv] obtain t where t: "conn_in_use c p t" by blast
  from conn_inv_entry [OF inv t [unfolded conn_in_use_def]] obtain cn where
    cn: "conn_heap c p = Some cn" "cn_type cn = t" "0 < cn_inuseCnt cn" by auto
  let ?c1 = "c\<lparr>conn_heap := (conn_heap c)(p \<mapsto> cn\<lparr>cn_lock := True\<rparr>)\<rparr>"
  obtain now r where time: "currentTime e ?c1 = (now, ?c1\<lparr>rcs := r\<rparr>)" and "rc_le (rcs ?c1) r"
    using currentTime_ex by blast
  then have le: "rc_le (rcs c) r" by simp
  define cn3 where "cn3 = cn\<lparr>cn_lock := True, cn_lastUseTime := now, cn_inuseCnt := cn_inuseCnt cn - 1\<rparr>"
  define c3 where "c3 = c\<lparr>rcs := r, conn_heap := (conn_heap c)(p \<mapsto> cn3)\<rparr>"
  let ?cn4 = "cn3\<lparr>cn_lock := False\<rparr>"
  have cn3: "cn_type cn3 = t" "cn_connId cn3 = cn_connId cn" "cn_inuseCnt cn3 = cn_inuseCnt cn - 1"
    by (simp_all add: cn3_def cn)
  have live: "conn_heap c3 p = Some cn3" by (simp add: c3_def)
  have run: "iFuseConnUnuse e p c =
      (if cn_inuseCnt cn3 = 0 then
         (if t = IFUSE_CONN_TYPE_FOR_SHORTOP then
            (if g_InUseShortopConn c3 = Some p \<and> g_FreeShortopConn c3 = None
             then conn_unlock p (c3\<lparr>g_InUseShortopConn := None, g_FreeShortopConn := Some p\<rparr>) else None)
          else if t = IFUSE_CONN_TYPE_FOR_FILE_IO then
            conn_unlock p (c3\<lparr>g_InUseConn := clear_slot p (g_InUseConn c3), g_FreeConn := p # g_FreeConn c3\<rparr>)
          else if t = IFUSE_CONN_TYPE_FOR_ONETIMEUSE then
            do { c4 \<leftarrow> conn_unlock p
                   (c3\<lparr>g_InUseOnetimeuseConn := map_erase (cn_connId cn) (g_InUseOnetimeuseConn c3)\<rparr>);
                 freeConn e (Some p) c4 }
          else None)
       else conn_unlock p c3)"
    using cn time cn3 live
    by (simp add: iFuseConnUnuse_def conn_wrlock_def update_conn_def c3_def cn3_def del: bind_Some_iff)
  have refs: "conn_refs c p = cn_inuseCnt cn" using cn by (simp add: conn_refs_def heap_refs_at)
  show ?thesis
  proof (cases "cn_inuseCnt cn = 1")
    case False
    have "conn_inv (c\<lparr>rcs := r, conn_heap := (conn_heap c)(p \<mapsto> ?cn4)\<rparr>)"
      using conn_inv_touch [OF conn_inv_rcs [OF inv le], of p cn ?cn4] cn cn3 False by auto
    with False show ?thesis
      using le refs cn3(3) unfolding put_ok_def run
      by (simp add: conn_unlock_def update_conn_def c3_def conn_refs_def)
  next
    case zero: True
    from conn_in_use_type [OF t] consider (shortop) "t = IFUSE_CONN_TYPE_FOR_SHORTOP"
      | (fileio) "t = IFUSE_CONN_TYPE_FOR_FILE_IO" | (onetime) "t = IFUSE_CONN_TYPE_FOR_ONETIMEUSE" by blast
    then show ?thesis
    proof cases
      case shortop
      let ?c' = "c\<lparr>rcs := r, g_InUseShortopConn := None, g_FreeShortopConn := Some p,
        conn_heap := (conn_heap c)(p \<mapsto> ?cn4)\<rparr>"
      from conn_in_use_place(1) t shortop have u: "g_InUseShortopConn c = Some p" by blast
      with inv have f: "g_FreeShortopConn c = None" by (auto simp: conn_inv_def)
      have "conn_inv ?c'"
        by (rule conn_inv_move [OF inv cn(1), where cn' = ?cn4 and t = t and t' = t and b = True and b' = False])
           (use le cn3 zero u f shortop in \<open>simp_all add: pool_entries_def\<close>)
      then show ?thesis
        using le refs cn3(3) zero u f shortop unfolding put_ok_def run
        by (simp add: conn_unlock_def update_conn_def c3_def conn_refs_def)
    next
      case fileio
      let ?c' = "c\<lparr>rcs := r, g_InUseConn := clear_slot p (g_InUseConn c),
        g_FreeConn := p # g_FreeConn c, conn_heap := (conn_heap c)(p \<mapsto> ?cn4)\<rparr>"
      from conn_in_use_place(2) t fileio have u: "Some p \<in> set (g_InUseConn c)" by blast
      obtain R where R: "mset (pool_entries c) = add_mset (p, t, True) R"
          "mset (pool_entries ?c') = add_mset (p, t, False) R"
        using mset_clear_slot [OF u] fileio by (simp add: pool_entries_def)
      have "conn_inv ?c'"
        by (rule conn_inv_move [OF inv cn(1) _ _ _ R, where cn' = ?cn4])
           (use le cn3 zero inv in \<open>simp_all add: conn_inv_def\<close>)
      then show ?thesis
        using le refs cn3(3) zero fileio unfolding put_ok_def run
        by (simp add: conn_unlock_def update_conn_def c3_def conn_refs_def conn_type_defs)
    next
      case onetime
      let ?m = "map_erase (cn_connId cn) (g_InUseOnetimeuseConn c)"
      let ?c4 = "c\<lparr>rcs := r, g_InUseOnetimeuseConn := ?m, conn_heap := (conn_heap c)(p \<mapsto> ?cn4)\<rparr>"
      have mo: "map_ok (g_InUseOnetimeuseConn c)" using inv by (simp add: conn_inv_def onetime_ok_def)
      from conn_in_use_place(3) t onetime obtain k where k: "(k, p) \<in> set (g_InUseOnetimeuseConn c)" by blast
      with inv cn(1) have "k = cn_connId cn" by (auto simp: conn_inv_def onetime_ok_def)
      with k map_ok_distinct [OF mo] have find: "map_find (g_InUseOnetimeuseConn c) (cn_connId cn) = Some p"
        by (auto simp: map_of_eq_Some_iff)
      have "conn_heap ?c4 p = Some ?cn4" by simp
      from freeConn_nf [OF this, of e] obtain r' where le': "rc_le r r'"
        and free: "freeConn e (Some p) ?c4 = Some (?c4\<lparr>rcs := r', conn_heap := (conn_heap c)(p := None)\<rparr>)"
        by auto
      let ?c' = "?c4\<lparr>rcs := r', conn_heap := (conn_heap c)(p := None)\<rparr>"
      have le2: "rc_le (rcs c) r'" using le le' by (rule rc_le_trans)
      have "conn_inv ?c'"
        by (rule conn_inv_del [OF inv, where p = p and t = t and b = True])
           (use le2 mset_map_erase [OF find] map_erase_subset mo inv onetime in
             \<open>auto simp: pool_entries_def conn_inv_def\<close>)
      then show ?thesis
        using le2 refs cn3(3) zero onetime free unfolding put_ok_def run
        by (simp add: conn_unlock_def update_conn_def c3_def conn_refs_def conn_type_defs)
    qed
  qed
qed

subsection \<open>Operations that touch one connection\<close>

text \<open>
  Locking, unlocking, reconnecting and recording activity change neither the pool nor the
  references.
\<close>

definition touch_ok :: "'w conn_state \<Rightarrow> 'w conn_state \<Rightarrow> bool" where
  "touch_ok c c' \<longleftrightarrow> (conn_inv c \<longrightarrow> conn_inv c') \<and> rc_le (rcs c) (rcs c')
     \<and> g_ConnIDGen c' = g_ConnIDGen c \<and> conn_refs c' = conn_refs c
     \<and> pool_entries c' = pool_entries c \<and> dom (conn_heap c') = dom (conn_heap c)
     \<and> c\<lparr>rcs := rcs c', conn_heap := conn_heap c'\<rparr> = c'
     \<and> (\<forall>q. map_option cn_lastUseTime (conn_heap c' q) = map_option cn_lastUseTime (conn_heap c q))"

lemma touch_ok_refl [simp, intro]: "touch_ok c c"
  by (simp add: touch_ok_def)

lemma touch_ok_trans: "touch_ok c c' \<Longrightarrow> touch_ok c' c'' \<Longrightarrow> touch_ok c c''"
proof -
  assume a: "touch_ok c c'" and b: "touch_ok c' c''"
  have "c'\<lparr>rcs := rcs c'', conn_heap := conn_heap c''\<rparr> = c\<lparr>rcs := rcs c'', conn_heap := conn_heap c''\<rparr>"
    by (subst (1) a [unfolded touch_ok_def, THEN conjunct2, THEN conjunct2, THEN conjunct2, THEN conjunct2,
          THEN conjunct2, THEN conjunct2, THEN conjunct1, symmetric]) simp
  with a b show ?thesis by (auto simp: touch_ok_def intro: rc_le_trans)
qed

lemma touch_ok_rcs: "rc_le (rcs c) r \<Longrightarrow> touch_ok c (c\<lparr>rcs := r\<rparr>)"
  by (auto simp: touch_ok_def conn_refs_def intro: conn_inv_rcs)

lemma touch_ok_onRc:
  assumes "\<And>x r'. f (rcs c) = (x, r') \<Longrightarrow> rc_le (rcs c) r'" and "onRc f c = (x, c')"
  shows "touch_ok c c'"
  using assms onRcD [OF assms(2)] by (auto intro: touch_ok_rcs)

lemma touch_ok_time: "currentTime e c = (now, c') \<Longrightarrow> touch_ok c c'"
  using currentTime_nf [of e c now c'] by (auto intro: touch_ok_rcs)

lemma touch_ok_update:
  assumes "update_conn p f c = Some c'"
    and "\<And>cn. conn_heap c p = Some cn \<Longrightarrow>
      cn_type (f cn) = cn_type cn \<and> cn_connId (f cn) = cn_connId cn \<and> cn_inuseCnt (f cn) = cn_inuseCnt cn
      \<and> cn_lastUseTime (f cn) = cn_lastUseTime cn"
  shows "touch_ok c c'"
proof -
  from assms(1) obtain cn where cn: "conn_heap c p = Some cn"
      "c' = c\<lparr>conn_heap := (conn_heap c)(p \<mapsto> f cn)\<rparr>" by (auto simp: update_conn_def)
  with assms(2) have "heap_refs ((conn_heap c)(p \<mapsto> f cn)) = heap_refs (conn_heap c)"
    by (auto simp: heap_refs_at fun_eq_iff)
  moreover have "dom (conn_heap c') = dom (conn_heap c)" using cn by auto
  ultimately show ?thesis
    using cn assms(2) [OF cn(1)] conn_inv_touch [of c p cn "f cn"]
    by (auto simp: touch_ok_def conn_refs_def)
qed

lemma touch_ok_lock: "conn_wrlock p c = Some c' \<Longrightarrow> touch_ok c c'" "conn_unlock p c = Some c' \<Longrightarrow> touch_ok c c'"
  unfolding conn_wrlock_def conn_unlock_def by (erule touch_ok_update, simp)+

lemma update_conn_live: "p \<in> dom (conn_heap c) \<Longrightarrow> \<exists>c'. update_conn p f c = Some c'"
  by (auto simp: update_conn_def)

lemma touch_ok_dom: "touch_ok c c' \<Longrightarrow> p \<in> dom (conn_heap c) \<Longrightarrow> p \<in> dom (conn_heap c')"
  by (simp add: touch_ok_def)

lemma lock_live:
  "p \<in> dom (conn_heap c) \<Longrightarrow> \<exists>c'. conn_wrlock p c = Some c' \<and> touch_ok c c'"
  "p \<in> dom (conn_heap c) \<Longrightarrow> \<exists>c'. conn_unlock p c = Some c' \<and> touch_ok c c'"
  using update_conn_live [of p c] touch_ok_lock [of p c] unfolding conn_wrlock_def conn_unlock_def by blast+

lemma updateLastActTime_live:
  assumes "p \<in> dom (conn_heap c)"
  shows "\<exists>c'. iFuseConnUpdateLastActTime e p lk c = Some c' \<and> touch_ok c c'"
proof -
  obtain c1 where c1: "(if lk then conn_wrlock p c else Some c) = Some c1" "touch_ok c c1"
    using lock_live(1) [OF assms] by (cases lk) auto
  obtain now c2 where c2: "currentTime e c1 = (now, c2)" by force
  note t2 = touch_ok_time [OF c2]
  obtain c3 where c3: "update_conn p (\<lambda>cn. cn\<lparr>cn_lastActTime := now\<rparr>) c2 = Some c3"
    using update_conn_live [OF touch_ok_dom [OF t2 touch_ok_dom [OF c1(2) assms]]] by blast
  have t3: "touch_ok c2 c3" using c3 by (rule touch_ok_update) simp
  have d3: "p \<in> dom (conn_heap c3)" using touch_ok_dom c1(2) t2 t3 assms by blast
  obtain c4 where c4: "(if lk then conn_unlock p c3 else Some c3) = Some c4" "touch_ok c3 c4"
    using lock_live(2) [OF d3] by (cases lk) auto
  show ?thesis
    using c1 c2 t2 c3 t3 c4 by (auto simp: iFuseConnUpdateLastActTime_def intro: touch_ok_trans)
qed

lemma reconnect_live:
  assumes "p \<in> dom (conn_heap c)"
  shows "\<exists>status c'. iFuseConnReconnect e p c = Some (status, c') \<and> touch_ok c c'"
proof -
  from assms obtain cn0 where cn0: "conn_heap c p = Some cn0" by auto
  let ?cn = "cn0\<lparr>cn_lock := True\<rparr>"
  let ?c1 = "c\<lparr>conn_heap := (conn_heap c)(p \<mapsto> ?cn)\<rparr>"
  have lk: "conn_wrlock p c = Some ?c1" by (simp add: conn_wrlock_def update_conn_nf [OF cn0])
  obtain cn1 c2 where d: "onRc (disconnect e ?cn) ?c1 = (cn1, c2)" by force
  from onRcD [OF d] obtain r2 where r2: "disconnect e ?cn (rcs c) = (cn1, r2)" "c2 = ?c1\<lparr>rcs := r2\<rparr>" by auto
  obtain status cn2 c3 where cc: "onRc (connect e cn1) c2 = ((status, cn2), c3)" by (metis prod.exhaust)
  from onRcD [OF cc] obtain r3 where r3: "connect e cn1 r2 = ((status, cn2), r3)" "c3 = c2\<lparr>rcs := r3\<rparr>"
    by (auto simp: r2(2))
  obtain now r4 where r4: "currentTime e c3 = (now, c3\<lparr>rcs := r4\<rparr>)" "rc_le (rcs c3) r4"
    using currentTime_ex by blast
  from disconnect_nf [OF r2(1)] connect_nf [OF r3(1)] obtain h where
    le: "rc_le (rcs c) r2" "rc_le r2 r3" and cn2: "cn2 = ?cn\<lparr>cn_conn := h\<rparr>" by auto
  let ?cn4 = "cn2\<lparr>cn_lastActTime := now\<rparr>"
  let ?c5 = "c3\<lparr>rcs := r4, conn_heap := (conn_heap c3)(p \<mapsto> ?cn4)\<rparr>"
  let ?c6 = "?c5\<lparr>conn_heap := (conn_heap ?c5)(p \<mapsto> ?cn4\<lparr>cn_lock := False\<rparr>)\<rparr>"
  have run: "iFuseConnReconnect e p c = Some (status, ?c6)"
    using lk d cc r4(1)
    by (simp add: iFuseConnReconnect_def update_conn_def conn_unlock_def r2(2) r3(2))
  have le4: "rc_le (rcs c) r4" using le r4(2) by (auto simp: r3(2) intro: rc_le_trans)
  have eq: "?c6 = c\<lparr>rcs := r4, conn_heap := (conn_heap c)(p \<mapsto> ?cn4\<lparr>cn_lock := False\<rparr>)\<rparr>"
    by (simp add: r2(2) r3(2))
  have "update_conn p (\<lambda>_. ?cn4\<lparr>cn_lock := False\<rparr>) (c\<lparr>rcs := r4\<rparr>) = Some ?c6"
    unfolding eq using cn0 by (simp add: update_conn_def)
  then have "touch_ok (c\<lparr>rcs := r4\<rparr>) ?c6" by (rule touch_ok_update) (use cn0 in \<open>simp add: cn2\<close>)
  with run touch_ok_rcs [OF le4] show ?thesis by (blast intro: touch_ok_trans)
qed


text \<open>What \<open>touch_ok\<close> keeps, for the proofs that use it.\<close>

lemma touch_okD:
  assumes "touch_ok c c'"
  shows "conn_inv c \<Longrightarrow> conn_inv c'" "rc_le (rcs c) (rcs c')" "g_ConnIDGen c' = g_ConnIDGen c"
    "conn_refs c' = conn_refs c" "pool_entries c' = pool_entries c" "dom (conn_heap c') = dom (conn_heap c)"
    "g_FreeConn c' = g_FreeConn c" "g_FreeShortopConn c' = g_FreeShortopConn c"
    "g_ConnTimeoutSec c' = g_ConnTimeoutSec c" "g_InUseConn c' = g_InUseConn c"
    "map_option cn_lastUseTime (conn_heap c' q) = map_option cn_lastUseTime (conn_heap c q)"
proof -
  have eq: "c\<lparr>rcs := rcs c', conn_heap := conn_heap c'\<rparr> = c'" using assms by (simp add: touch_ok_def)
  show "g_FreeConn c' = g_FreeConn c" "g_FreeShortopConn c' = g_FreeShortopConn c"
    "g_ConnTimeoutSec c' = g_ConnTimeoutSec c" "g_InUseConn c' = g_InUseConn c"
    by (subst eq [symmetric], simp)+
qed (use assms in \<open>simp_all add: touch_ok_def\<close>)

subsection \<open>The checker\<close>

lemma keepAlive_live:
  assumes "p \<in> dom (conn_heap c)"
  shows "\<exists>c'. keepAlive e p c = Some c' \<and> touch_ok c c'"
proof -
  obtain status path where path: "iFuseRodsClientMakeRodsPath e ''/'' (rcs c) = (status, path)" by force
  show ?thesis
  proof (cases "status < 0")
    case True
    then show ?thesis by (simp add: keepAlive_def path)
  next
    case False
    obtain c1 where c1: "conn_wrlock p c = Some c1" "touch_ok c c1" using lock_live(1) [OF assms] by blast
    then have d1: "p \<in> dom (conn_heap c1)" using assms touch_ok_dom by metis
    then obtain cn where cn: "conn_heap c1 p = Some cn" by blast
    obtain st so c2 where st: "onRc (iFuseRodsClientObjStat e (cn_conn cn) (rstrcpy e path (MAX_NAME_LEN e))) c1
        = ((st, so), c2)" by (metis prod.exhaust)
    have t2: "touch_ok c1 c2" by (rule touch_ok_onRc [OF _ st]) (rule rc_wrapper_le)
    note d2 = touch_ok_dom [OF t2 d1]
    obtain now c3 where c3: "currentTime e c2 = (now, c3)" by force
    note t3 = touch_ok_time [OF c3]
    obtain c4 where c4: "update_conn p (\<lambda>cn. cn\<lparr>cn_lastActTime := now\<rparr>) c3 = Some c4"
      using update_conn_live [OF touch_ok_dom [OF t3 d2]] by blast
    have t4: "touch_ok c3 c4" using c4 by (rule touch_ok_update) simp
    note d4 = touch_ok_dom [OF t4 touch_ok_dom [OF t3 d2]]
    obtain c5 where c5: "conn_unlock p c4 = Some c5" "touch_ok c4 c5" using lock_live(2) [OF d4] by blast
    obtain c6 where c6: "conn_unlock p c2 = Some c6" "touch_ok c2 c6" using lock_live(2) [OF d2] by blast
    show ?thesis
    proof (cases "st < 0")
      case True
      then have "keepAlive e p c = Some c6"
        using False c1 cn st c6 by (simp add: keepAlive_def path)
      then show ?thesis using c1(2) t2 c6(2) by (blast intro: touch_ok_trans)
    next
      case nonneg: False
      then have "keepAlive e p c = Some c5"
        using False c1 cn st c3 c4 c5 by (simp add: keepAlive_def path)
      then show ?thesis using c1(2) t2 t3 t4 c5(2) by (blast intro: touch_ok_trans)
    qed
  qed
qed

lemma keep_alive_all_live:
  "set ps \<subseteq> dom (conn_heap c) \<Longrightarrow> \<exists>c'. keep_alive_all e current ps c = Some c' \<and> touch_ok c c'"
proof (induction ps arbitrary: c)
  case (Cons p ps)
  then obtain cn where cn: "conn_heap c p = Some cn" by auto
  obtain c1 where c1: "(if iFuseLibDiffTimeSec current (cn_lastActTime cn) \<ge> g_ConnKeepAliveSec c
                 then keepAlive e p c else Some c) = Some c1" "touch_ok c c1"
    using keepAlive_live [of p c e] cn
    by (cases "iFuseLibDiffTimeSec current (cn_lastActTime cn) \<ge> g_ConnKeepAliveSec c") auto
  then have "set ps \<subseteq> dom (conn_heap c1)" using Cons.prems by (simp add: touch_okD)
  from Cons.IH [OF this] obtain c' where "keep_alive_all e current ps c1 = Some c'" "touch_ok c1 c'" by blast
  with cn c1 show ?case by (auto intro: touch_ok_trans)
qed simp

lemma timed_out_conns_live:
  "set ps \<subseteq> dom h \<Longrightarrow> timed_out_conns current limit h ps =
     Some (filter (\<lambda>p. current - cn_lastUseTime (the (h p)) \<ge> limit) ps)"
  by (induction ps) (auto simp: iFuseLibDiffTimeSec_def)

text \<open>Freeing a free connection of the list leaves the rest of the pool alone.\<close>

lemma remove_free_one:
  assumes inv: "conn_inv c" and p: "p \<in> set (g_FreeConn c)"
  shows "\<exists>c'. freeConn e (Some p) (c\<lparr>g_FreeConn := removeAll p (g_FreeConn c)\<rparr>) = Some c' \<and> conn_inv c'
    \<and> rc_le (rcs c) (rcs c') \<and> conn_refs c' = conn_refs c \<and> conn_heap c' = (conn_heap c)(p := None)
    \<and> c' = c\<lparr>rcs := rcs c', conn_heap := conn_heap c', g_FreeConn := removeAll p (g_FreeConn c)\<rparr>"
proof -
  have ent: "(p, IFUSE_CONN_TYPE_FOR_FILE_IO, False) \<in> set (pool_entries c)"
    using p by (simp add: pool_entries_def)
  from conn_inv_entry [OF inv this] obtain cn where cn: "conn_heap c p = Some cn" "cn_inuseCnt cn = 0"
    by auto
  let ?c = "c\<lparr>g_FreeConn := removeAll p (g_FreeConn c)\<rparr>"
  have "conn_heap ?c p = Some cn" using cn by simp
  from freeConn_nf [OF this, of e] obtain r where le: "rc_le (rcs c) r"
    and free: "freeConn e (Some p) ?c = Some (?c\<lparr>rcs := r, conn_heap := (conn_heap c)(p := None)\<rparr>)"
    by auto
  let ?c' = "?c\<lparr>rcs := r, conn_heap := (conn_heap c)(p := None)\<rparr>"
  have "distinct (map fst (pool_entries c))" using inv by (simp add: conn_inv_def entries_ok_def)
  then have "distinct (g_FreeConn c)" by (simp add: pool_entries_def comp_def)
  then have "mset (g_FreeConn c) = add_mset p (mset (removeAll p (g_FreeConn c)))"
    using p by (simp add: distinct_remove1_removeAll [symmetric])
  then have "mset (pool_entries c) = add_mset (p, IFUSE_CONN_TYPE_FOR_FILE_IO, False) (mset (pool_entries ?c'))"
    by (simp add: pool_entries_def)
  then have "conn_inv ?c'"
    by (rule conn_inv_del [OF inv, rotated 2]) (use le inv in \<open>auto simp: conn_inv_def onetime_ok_def\<close>)
  moreover have "conn_refs ?c' = conn_refs c"
    using cn by (simp add: conn_refs_def fun_upd_idem heap_refs_at)
  ultimately show ?thesis using free le by auto
qed

lemma remove_free_live:
  assumes "conn_inv c" and "set ps \<subseteq> set (g_FreeConn c)" and "distinct ps"
  shows "\<exists>c'. remove_free_conns e ps c = Some c' \<and> conn_inv c' \<and> rc_le (rcs c) (rcs c')
    \<and> conn_refs c' = conn_refs c \<and> conn_heap c' = (\<lambda>q. if q \<in> set ps then None else conn_heap c q)
    \<and> c' = c\<lparr>rcs := rcs c', conn_heap := conn_heap c', g_FreeConn := filter (\<lambda>q. q \<notin> set ps) (g_FreeConn c)\<rparr>"
  using assms
proof (induction ps arbitrary: c)
  case (Cons p ps)
  from remove_free_one [OF Cons.prems(1), of p e] Cons.prems(2) obtain c1 where
    c1: "freeConn e (Some p) (c\<lparr>g_FreeConn := removeAll p (g_FreeConn c)\<rparr>) = Some c1" "conn_inv c1"
      "rc_le (rcs c) (rcs c1)" "conn_refs c1 = conn_refs c" "conn_heap c1 = (conn_heap c)(p := None)"
      "c1 = c\<lparr>rcs := rcs c1, conn_heap := conn_heap c1, g_FreeConn := removeAll p (g_FreeConn c)\<rparr>"
    by auto
  have f1: "g_FreeConn c1 = removeAll p (g_FreeConn c)" by (subst c1(6)) simp
  with Cons.prems have "set ps \<subseteq> set (g_FreeConn c1)" "distinct ps" by auto
  from Cons.IH [OF c1(2) this] obtain c' where
    c': "remove_free_conns e ps c1 = Some c'" "conn_inv c'" "rc_le (rcs c1) (rcs c')"
      "conn_refs c' = conn_refs c1" "conn_heap c' = (\<lambda>q. if q \<in> set ps then None else conn_heap c1 q)"
      "c' = c1\<lparr>rcs := rcs c', conn_heap := conn_heap c', g_FreeConn := filter (\<lambda>q. q \<notin> set ps) (g_FreeConn c1)\<rparr>"
    by blast
  have fl: "filter (\<lambda>q. q \<notin> set ps) (removeAll p (g_FreeConn c)) = filter (\<lambda>q. q \<notin> set (p # ps)) (g_FreeConn c)"
    by (simp add: removeAll_filter_not_eq conj_commute eq_commute)
  have "c' = c\<lparr>rcs := rcs c', conn_heap := conn_heap c', g_FreeConn := filter (\<lambda>q. q \<notin> set (p # ps)) (g_FreeConn c)\<rparr>"
    unfolding fl [symmetric] f1 [symmetric]
    by (subst c'(6), subst (2) c1(6)) simp
  with c1 c' show ?case by (auto simp: fun_eq_iff intro: rc_le_trans)
next
  case Nil
  then show ?case by (auto simp: fun_eq_iff)
qed


text \<open>A free connection is idle at \<open>now\<close> when it was last used the timeout ago or earlier.\<close>

definition conn_idle :: "'w conn_state \<Rightarrow> int \<Rightarrow> nat \<Rightarrow> bool" where
  "conn_idle c now p \<longleftrightarrow> (case conn_heap c p of None \<Rightarrow> False
     | Some cn \<Rightarrow> now - cn_lastUseTime cn \<ge> g_ConnTimeoutSec c)"

lemma conn_idle_touch: "touch_ok c c' \<Longrightarrow> conn_idle c' now p = conn_idle c now p"
  using touch_okD(11) [of c c' p] touch_okD(9) [of c c']
  by (auto simp: conn_idle_def split: option.splits)

definition free_ptrs :: "'w conn_state \<Rightarrow> nat set" where
  "free_ptrs c = set (g_FreeConn c) \<union> set_option (g_FreeShortopConn c)"

lemma pool_ptrs_live: "conn_inv c \<Longrightarrow> set (pool_ptrs c) = dom (conn_heap c)"
  by (simp add: pool_ptrs_entries conn_inv_def entries_ok_def)

lemma drop_shortop:
  assumes inv: "conn_inv c" and p: "g_FreeShortopConn c = Some p"
  shows "\<exists>c'. freeConn e (Some p) c = Some c' \<and> conn_inv (c'\<lparr>g_FreeShortopConn := None\<rparr>)
    \<and> rc_le (rcs c) (rcs c') \<and> conn_refs c' = conn_refs c \<and> conn_heap c' = (conn_heap c)(p := None)
    \<and> c' = c\<lparr>rcs := rcs c', conn_heap := conn_heap c'\<rparr>"
proof -
  have "(p, IFUSE_CONN_TYPE_FOR_SHORTOP, False) \<in> set (pool_entries c)"
    using p by (simp add: pool_entries_def)
  from conn_inv_entry [OF inv this] obtain cn where cn: "conn_heap c p = Some cn" "cn_inuseCnt cn = 0" by auto
  from freeConn_nf [OF cn(1), of e] obtain r where le: "rc_le (rcs c) r"
    and free: "freeConn e (Some p) c = Some (c\<lparr>rcs := r, conn_heap := (conn_heap c)(p := None)\<rparr>)" by auto
  let ?c' = "c\<lparr>rcs := r, conn_heap := (conn_heap c)(p := None)\<rparr>"
  have "mset (pool_entries c) = add_mset (p, IFUSE_CONN_TYPE_FOR_SHORTOP, False)
      (mset (pool_entries (?c'\<lparr>g_FreeShortopConn := None\<rparr>)))"
    by (simp add: pool_entries_def p)
  then have "conn_inv (?c'\<lparr>g_FreeShortopConn := None\<rparr>)"
    by (rule conn_inv_del [OF inv, rotated 2]) (use le inv in \<open>auto simp: conn_inv_def onetime_ok_def\<close>)
  moreover have "conn_refs ?c' = conn_refs c"
    using cn by (simp add: conn_refs_def fun_upd_idem heap_refs_at)
  ultimately show ?thesis using free le by auto
qed

lemma connChecker_ok:
  assumes inv: "conn_inv c"
  shows "\<exists>c'. connChecker e c = Some c' \<and> conn_inv c' \<and> rc_le (rcs c) (rcs c')
    \<and> g_ConnIDGen c' = g_ConnIDGen c \<and> conn_refs c' = conn_refs c
    \<and> (let now = fst (c_time e (world (lib (rcs c))))
       in dom (conn_heap c') = (if now - g_LastConnCheck c > g_ConnCheckIntervalSec c
            then dom (conn_heap c) - {p \<in> free_ptrs c. conn_idle c now p} else dom (conn_heap c)))"
proof -
  obtain current r0 where t0: "currentTime e c = (current, c\<lparr>rcs := r0\<rparr>)" and le0: "rc_le (rcs c) r0"
    using currentTime_ex by blast
  have now: "fst (c_time e (world (lib (rcs c)))) = current"
    using t0 by (auto simp: currentTime_def onRc_def onLib_def iFuseLibGetCurrentTime_def split: prod.splits)
  let ?c0 = "c\<lparr>rcs := r0\<rparr>"
  have inv0: "conn_inv ?c0" using inv le0 by (rule conn_inv_rcs)
  show ?thesis
  proof (cases "current - g_LastConnCheck c > g_ConnCheckIntervalSec c")
    case False
    then show ?thesis using t0 inv0 le0
      by (simp add: connChecker_def iFuseLibDiffTimeSec_def now conn_refs_def)
  next
    case True
    from keep_alive_all_live [of "pool_ptrs ?c0" ?c0 e current] pool_ptrs_live [OF inv0]
    obtain c1 where c1: "keep_alive_all e current (pool_ptrs ?c0) ?c0 = Some c1" "touch_ok ?c0 c1" by auto
    note t1 = touch_okD [OF c1(2)]
    have inv1: "conn_inv c1" using t1(1) inv0 by blast
    have "set (g_FreeConn c1) \<subseteq> dom (conn_heap c1)" "distinct (g_FreeConn c1)"
      using inv1 pool_ptrs_live [OF inv1]
      by (auto simp: pool_ptrs_def conn_inv_def entries_ok_def pool_entries_def comp_def)
    note free = this
    define dead where "dead = filter (\<lambda>p. current - cn_lastUseTime (the (conn_heap c1 p)) \<ge> g_ConnTimeoutSec c1) (g_FreeConn c1)"
    from timed_out_conns_live [OF free(1)] have
      to: "timed_out_conns current (g_ConnTimeoutSec c1) (conn_heap c1) (g_FreeConn c1) = Some dead"
      by (simp add: dead_def)
    have dead_eq: "set dead = {p \<in> set (g_FreeConn c). conn_idle c current p}"
    proof -
      have "conn_idle c current p = conn_idle c1 current p" for p
        using conn_idle_touch [OF c1(2), of current p] by (simp add: conn_idle_def split: option.splits)
      then show ?thesis using free(1) t1(7) by (force simp: dead_def conn_idle_def)
    qed
    from remove_free_live [OF inv1, of dead e] free obtain c2 where
      c2: "remove_free_conns e dead c1 = Some c2" "conn_inv c2" "rc_le (rcs c1) (rcs c2)"
        "conn_refs c2 = conn_refs c1" "conn_heap c2 = (\<lambda>q. if q \<in> set dead then None else conn_heap c1 q)"
        "c2 = c1\<lparr>rcs := rcs c2, conn_heap := conn_heap c2, g_FreeConn := filter (\<lambda>q. q \<notin> set dead) (g_FreeConn c1)\<rparr>"
      by (auto simp: dead_def)
    have f2: "g_FreeShortopConn c2 = g_FreeShortopConn c" "g_ConnTimeoutSec c2 = g_ConnTimeoutSec c"
        "g_ConnIDGen c2 = g_ConnIDGen c"
      by (subst c2(6), simp add: t1)+
    have dom2: "dom (conn_heap c2) = dom (conn_heap c) - set dead"
    proof -
      have "dom (conn_heap c2) = dom (conn_heap c1) - set dead"
        unfolding c2(5) by (auto split: if_splits)
      then show ?thesis using t1(6) by simp
    qed
    have "\<exists>c3. (case g_FreeShortopConn c2 of
                    None \<Rightarrow> Some c2
                  | Some p \<Rightarrow>
                      do { cn \<leftarrow> conn_heap c2 p;
                           if iFuseLibDiffTimeSec current (cn_lastUseTime cn) \<ge> g_ConnTimeoutSec c2
                           then do { c3 \<leftarrow> freeConn e (Some p) c2; Some (c3\<lparr>g_FreeShortopConn := None\<rparr>) }
                           else Some c2 }) = Some c3
        \<and> conn_inv c3 \<and> rc_le (rcs c2) (rcs c3) \<and> conn_refs c3 = conn_refs c2 \<and> g_ConnIDGen c3 = g_ConnIDGen c2
        \<and> dom (conn_heap c3) = dom (conn_heap c2) - {p. g_FreeShortopConn c = Some p \<and> conn_idle c current p}"
    proof (cases "g_FreeShortopConn c2")
      case None
      then show ?thesis using c2(2) f2(1) by simp
    next
      case (Some p)
      then have ent: "(p, IFUSE_CONN_TYPE_FOR_SHORTOP, False) \<in> set (pool_entries c2)"
        by (simp add: pool_entries_def)
      from conn_inv_entry [OF c2(2) this] obtain cn where cn: "conn_heap c2 p = Some cn" by auto
      then have "conn_heap c1 p = Some cn" by (simp add: c2(5) split: if_splits)
      then have idle: "conn_idle c current p = (current - cn_lastUseTime cn \<ge> g_ConnTimeoutSec c2)"
        using t1(11) [of p] f2(2) by (cases "conn_heap c p") (auto simp: conn_idle_def)
      from drop_shortop [OF c2(2) Some, of e] obtain c3 where
        c3: "freeConn e (Some p) c2 = Some c3" "conn_inv (c3\<lparr>g_FreeShortopConn := None\<rparr>)" "rc_le (rcs c2) (rcs c3)"
          "conn_refs c3 = conn_refs c2" "conn_heap c3 = (conn_heap c2)(p := None)"
          "c3 = c2\<lparr>rcs := rcs c3, conn_heap := conn_heap c3\<rparr>" by blast
      have "g_ConnIDGen c3 = g_ConnIDGen c2" by (subst c3(6)) simp
      with c3 cn idle c2(2) Some f2(1) show ?thesis
        by (cases "conn_idle c current p") (auto simp: iFuseLibDiffTimeSec_def conn_refs_def)
    qed
    then obtain c3 where c3: "(case g_FreeShortopConn c2 of
                    None \<Rightarrow> Some c2
                  | Some p \<Rightarrow>
                      do { cn \<leftarrow> conn_heap c2 p;
                           if iFuseLibDiffTimeSec current (cn_lastUseTime cn) \<ge> g_ConnTimeoutSec c2
                           then do { c3 \<leftarrow> freeConn e (Some p) c2; Some (c3\<lparr>g_FreeShortopConn := None\<rparr>) }
                           else Some c2 }) = Some c3"
        "conn_inv c3" "rc_le (rcs c2) (rcs c3)" "conn_refs c3 = conn_refs c2" "g_ConnIDGen c3 = g_ConnIDGen c2"
        "dom (conn_heap c3) = dom (conn_heap c2) - {p. g_FreeShortopConn c = Some p \<and> conn_idle c current p}"
      by blast
    obtain t r4 where t4: "currentTime e c3 = (t, c3\<lparr>rcs := r4\<rparr>)" and le4: "rc_le (rcs c3) r4"
      using currentTime_ex by blast
    let ?c4 = "c3\<lparr>rcs := r4, g_LastConnCheck := t\<rparr>"
    have "connChecker e c = Some ?c4"
      using True t0 c1(1) to c2(1) c3(1) t4 by (simp add: connChecker_def iFuseLibDiffTimeSec_def del: bind_Some_iff)
    moreover have "conn_inv ?c4" using conn_inv_check [OF conn_inv_rcs [OF c3(2) le4]] .
    moreover have "rc_le (rcs c) r4"
      using le0 t1(2) c2(3) c3(3) le4 by simp (blast intro: rc_le_trans)
    moreover have "dom (conn_heap c3) = dom (conn_heap c) - {p \<in> free_ptrs c. conn_idle c current p}"
      unfolding c3(6) dom2 dead_eq free_ptrs_def by auto
    moreover have "conn_refs ?c4 = conn_refs c"
      using c3(4) c2(4) t1(4) by (simp add: conn_refs_def)
    ultimately show ?thesis using True c3(5) f2(3) by (simp add: now Let_def)
  qed
qed

subsection \<open>The start\<close>

lemma conn_inv_init:
  assumes "conn_heap c = Map.empty" and "g_InUseShortopConn c = None" and "g_FreeShortopConn c = None"
    and "g_FreeConn c = []" and "g_InUseOnetimeuseConn c = []" and "0 < g_MaxConnNum c" and "ops_ok (rcs c)"
  shows "conn_inv (iFuseConnInit c)"
  using assms
  by (auto simp: iFuseConnInit_def Let_def conn_inv_def pool_entries_def entries_ok_def onetime_ok_def
      ops_ok_def iFuseLibSetTimerTickHandler_def)


section \<open>The pool as an interface\<close>

text \<open>
  What the file system relies on: taking a reference succeeds with one more reference or fails
  with none, giving it back returns exactly that one, and what happens in between touches no
  reference. So a call that takes, works and gives back is balanced.
\<close>

locale connection_pool =
  fixes get :: "'t \<Rightarrow> 's \<Rightarrow> ((int \<times> nat option) \<times> 's) option"
    and put :: "nat \<Rightarrow> 's \<Rightarrow> 's option"
    and inv :: "'s \<Rightarrow> bool" and room :: "'s \<Rightarrow> bool" and valid :: "'t \<Rightarrow> bool"
    and refs :: "'s \<Rightarrow> nat \<Rightarrow> int"
    and touch :: "'s \<Rightarrow> 's \<Rightarrow> bool" and later :: "'s \<Rightarrow> 's \<Rightarrow> bool"
  assumes get_spec: "inv s \<Longrightarrow> room s \<Longrightarrow> valid t \<Longrightarrow> \<exists>status conn s'. get t s = Some ((status, conn), s')
      \<and> inv s' \<and> later s s' \<and> (status < 0 \<and> conn = None \<and> refs s' = refs s
          \<or> status = 0 \<and> (\<exists>p. conn = Some p \<and> 0 \<le> refs s p \<and> refs s' = (refs s)(p := refs s p + 1)))"
    and put_spec: "inv s \<Longrightarrow> 0 < refs s p \<Longrightarrow> \<exists>s'. put p s = Some s' \<and> inv s' \<and> later s s'
      \<and> refs s' = (refs s)(p := refs s p - 1)"
    and touch_spec: "touch s s' \<Longrightarrow> inv s \<Longrightarrow> inv s' \<and> later s s' \<and> refs s' = refs s"
    and later_trans: "later s s' \<Longrightarrow> later s' s'' \<Longrightarrow> later s s''"
begin

lemma get_cases:
  assumes "inv s" and "room s" and "valid t"
  obtains (failed) status s' where "get t s = Some ((status, None), s')" "status < 0" "inv s'" "later s s'"
      "refs s' = refs s"
  | (got) p s' where "get t s = Some ((0, Some p), s')" "inv s'" "later s s'" "0 < refs s' p"
      "refs s' = (refs s)(p := refs s p + 1)"
proof -
  from get_spec [OF assms] obtain status conn s' where g: "get t s = Some ((status, conn), s')" "inv s'" "later s s'"
    and c: "status < 0 \<and> conn = None \<and> refs s' = refs s
      \<or> status = 0 \<and> (\<exists>p. conn = Some p \<and> 0 \<le> refs s p \<and> refs s' = (refs s)(p := refs s p + 1))" by blast
  from c show ?thesis
  proof (elim disjE conjE exE)
    assume "status < 0" "conn = None" "refs s' = refs s"
    with g show ?thesis by (intro failed [of status s']) auto
  next
    fix p assume "status = 0" "conn = Some p" "0 \<le> refs s p" "refs s' = (refs s)(p := refs s p + 1)"
    with g show ?thesis by (intro got [of p s']) auto
  qed
qed

text \<open>Take, work, give back: everybody has the references they had.\<close>

lemma bracket:
  assumes "later s s1" and "inv s1" and "0 < refs s1 p"
    and "refs s1 = (refs s)(p := refs s p + 1)" and "touch s1 s2"
  shows "\<exists>s3. put p s2 = Some s3 \<and> inv s3 \<and> later s s3 \<and> refs s3 = refs s"
proof -
  from touch_spec [OF assms(5,2)] have s2: "inv s2" "later s1 s2" "refs s2 = refs s1" by auto
  with assms(3) have "0 < refs s2 p" by simp
  from put_spec [OF s2(1) this] obtain s3 where "put p s2 = Some s3" "inv s3" "later s2 s3"
    "refs s3 = (refs s2)(p := refs s2 p - 1)" by blast
  with s2 assms(1,4) show ?thesis by (auto intro: later_trans)
qed

end

lemma conn_refs_nonneg: "conn_inv c \<Longrightarrow> 0 \<le> conn_refs c p"
proof (cases "conn_heap c p")
  case (Some cn)
  moreover assume inv: "conn_inv c"
  then have "entries_ok (conn_heap c) (pool_entries c)" by (simp add: conn_inv_def)
  from entries_ok_live [OF this Some] obtain t b where "(p, t, b) \<in> set (pool_entries c)" by blast
  from conn_inv_entry [OF inv this] Some show ?thesis
    by (auto simp: conn_refs_def heap_refs_at split: if_splits)
qed (simp add: conn_refs_def heap_refs_at)

interpretation pool: connection_pool "iFuseConnGetAndUse e" "iFuseConnUnuse e"
  "\<lambda>c. conn_inv c \<and> calloc_ok e" "\<lambda>c. g_ConnIDGen c < - 1"
  "\<lambda>t. t \<in> {IFUSE_CONN_TYPE_FOR_FILE_IO, IFUSE_CONN_TYPE_FOR_SHORTOP, IFUSE_CONN_TYPE_FOR_ONETIMEUSE}"
  conn_refs touch_ok "\<lambda>c c'. rc_le (rcs c) (rcs c')" for e :: "'w ext"
proof (unfold_locales, goal_cases)
  case (1 s t)
  then show ?case using getAndUse_ok [of s e t] conn_refs_nonneg [of s] by (fastforce simp: get_ok_def)
next
  case (2 s p)
  then show ?case using unuse_ok [of s p e] by (auto simp: put_ok_def)
next
  case (3 s s')
  then show ?case by (auto dest: touch_okD)
qed (rule rc_le_trans)

section \<open>Interleavings of the pool's users and its timer\<close>

text \<open>
  Threads take, give back, lock, use and reconnect connections while the timer runs the
  checker; a thread gives back a connection that has users, its own reference among them.
\<close>

inductive pool_step :: "'w ext \<Rightarrow> 'w conn_state \<Rightarrow> 'w conn_state \<Rightarrow> bool" for e where
  step_get: "iFuseConnGetAndUse e t c = Some (x, c') \<Longrightarrow> g_ConnIDGen c < - 1 \<Longrightarrow> pool_step e c c'"
| step_unuse: "0 < conn_refs c p \<Longrightarrow> iFuseConnUnuse e p c = Some c' \<Longrightarrow> pool_step e c c'"
| step_lock: "iFuseConnLock p c = Some c' \<Longrightarrow> pool_step e c c'"
| step_unlock: "iFuseConnUnlock p c = Some c' \<Longrightarrow> pool_step e c c'"
| step_act: "p \<in> dom (conn_heap c) \<Longrightarrow> iFuseConnUpdateLastActTime e p lk c = Some c' \<Longrightarrow> pool_step e c c'"
| step_reconnect: "p \<in> dom (conn_heap c) \<Longrightarrow> iFuseConnReconnect e p c = Some (st, c') \<Longrightarrow> pool_step e c c'"
| step_call: "rc_le (rcs c) r \<Longrightarrow> pool_step e c (c\<lparr>rcs := r\<rparr>)"
| step_checker: "connChecker e c = Some c' \<Longrightarrow> pool_step e c c'"

inductive pool_reachable :: "'w ext \<Rightarrow> 'w conn_state \<Rightarrow> 'w conn_state \<Rightarrow> bool" for e c0 where
  pool_init: "pool_reachable e c0 c0"
| pool_next: "pool_reachable e c0 c \<Longrightarrow> pool_step e c c' \<Longrightarrow> pool_reachable e c0 c'"

lemma get_type: "iFuseConnGetAndUse e t c = Some x \<Longrightarrow>
    t \<in> {IFUSE_CONN_TYPE_FOR_FILE_IO, IFUSE_CONN_TYPE_FOR_SHORTOP, IFUSE_CONN_TYPE_FOR_ONETIMEUSE}"
  by (auto simp: iFuseConnGetAndUse_def split: if_splits)

lemma conn_inv_step:
  assumes "pool_step e c c'" and "calloc_ok e" and "conn_inv c"
  shows "conn_inv c'"
  using assms
proof (induction rule: pool_step.induct)
  case (step_get t c x c')
  then show ?case using getAndUse_ok [OF _ _ _ get_type] by (fastforce simp: get_ok_def)
next
  case (step_unuse c p c')
  then show ?case using unuse_ok [of c p e] by (auto simp: put_ok_def)
next
  case (step_lock p c c')
  then show ?case using touch_ok_lock(1) [of p c c'] by (auto simp: iFuseConnLock_def dest: touch_okD)
next
  case (step_unlock p c c')
  then show ?case using touch_ok_lock(2) [of p c c'] by (auto simp: iFuseConnUnlock_def dest: touch_okD)
next
  case (step_act p c lk c')
  then show ?case using updateLastActTime_live [of p c e lk] by (auto dest: touch_okD)
next
  case (step_reconnect p c st c')
  then show ?case using reconnect_live [of p c e] by (auto dest: touch_okD)
next
  case (step_call c r)
  then show ?case by (auto intro: conn_inv_rcs)
next
  case (step_checker c c')
  then show ?case using connChecker_ok [of c e] by auto
qed

lemma conn_inv_reachable: "pool_reachable e c0 c \<Longrightarrow> calloc_ok e \<Longrightarrow> conn_inv c0 \<Longrightarrow> conn_inv c"
  by (induction rule: pool_reachable.induct) (auto intro: conn_inv_step)

end
