(* ===== verification/IFuse_Fd.thy ===== *)
theory IFuse_Fd
  imports IFuse_Conn
begin

text \<open>
  \<open>iFuse.Lib.Fd.cpp\<close>: the open file and directory descriptors. Descriptors are heap objects
  registered in \<open>g_AssignedFd\<close> and \<open>g_AssignedDir\<close>; each open one points to the connection
  it was opened on. \<open>collHandle_t\<close> is an opaque handle. The unchecked \<open>strdup\<close> of the path
  is taken to succeed.
\<close>

record iFuseFd =
  fd_fdId :: "64 word"
  fd_fd :: int
  fd_conn :: "nat option"
  fd_iRodsPath :: string
  fd_openFlag :: flags
  fd_lastFilePointer :: int
  fd_lock :: bool

record iFuseDir =
  dd_ddId :: "64 word"
  dd_handle :: "nat option"
  dd_conn :: "nat option"
  dd_iRodsPath :: string
  dd_cachedEntries :: "bytes option"
  dd_cachedEntryBufferLen :: nat
  dd_lock :: bool

record 'w fd_state =
  conns :: "'w conn_state"
  fd_heap :: "nat \<rightharpoonup> iFuseFd"
  dir_heap :: "nat \<rightharpoonup> iFuseDir"
  g_AssignedFd :: "nat list"
  g_AssignedDir :: "nat list"
  g_FdIDGen :: "64 word"
  g_DdIDGen :: "64 word"

definition onConn :: "('w conn_state \<Rightarrow> ('r \<times> 'w conn_state) option) \<Rightarrow> 'w fd_state \<Rightarrow> ('r \<times> 'w fd_state) option" where
  "onConn f s = do { (x, c) \<leftarrow> f (conns s); Some (x, s\<lparr>conns := c\<rparr>) }"

definition onLibF :: "('w lib_state \<Rightarrow> 'r \<times> 'w lib_state) \<Rightarrow> 'w fd_state \<Rightarrow> 'r \<times> 'w fd_state" where
  "onLibF f s = (let (x, c) = onRc (onLib f) (conns s) in (x, s\<lparr>conns := c\<rparr>))"

definition update_fd :: "nat \<Rightarrow> (iFuseFd \<Rightarrow> iFuseFd) \<Rightarrow> 'w fd_state \<Rightarrow> 'w fd_state option" where
  "update_fd p f s = do { d \<leftarrow> fd_heap s p; Some (s\<lparr>fd_heap := (fd_heap s)(p \<mapsto> f d)\<rparr>) }"

definition update_dir :: "nat \<Rightarrow> (iFuseDir \<Rightarrow> iFuseDir) \<Rightarrow> 'w fd_state \<Rightarrow> 'w fd_state option" where
  "update_dir p f s = do { d \<leftarrow> dir_heap s p; Some (s\<lparr>dir_heap := (dir_heap s)(p \<mapsto> f d)\<rparr>) }"

definition iFuseFdLock :: "nat \<Rightarrow> 'w fd_state \<Rightarrow> 'w fd_state option" where
  "iFuseFdLock p = update_fd p (\<lambda>d. d\<lparr>fd_lock := True\<rparr>)"

definition iFuseFdUnlock :: "nat \<Rightarrow> 'w fd_state \<Rightarrow> 'w fd_state option" where
  "iFuseFdUnlock p = update_fd p (\<lambda>d. d\<lparr>fd_lock := False\<rparr>)"

definition iFuseDirLock :: "nat \<Rightarrow> 'w fd_state \<Rightarrow> 'w fd_state option" where
  "iFuseDirLock p = update_dir p (\<lambda>d. d\<lparr>dd_lock := True\<rparr>)"

definition iFuseDirUnlock :: "nat \<Rightarrow> 'w fd_state \<Rightarrow> 'w fd_state option" where
  "iFuseDirUnlock p = update_dir p (\<lambda>d. d\<lparr>dd_lock := False\<rparr>)"

section \<open>Calling the server, reconnecting once\<close>

text \<open>
  The block every operation on the server repeats: make the call and note the activity; when
  it fails with an error that reading or writing a message gives, reconnect and, if that
  works, call once more. \<open>failed\<close> and \<open>status_of\<close> are the tests the block makes on the
  result, \<open>noted\<close> tells whether it updates the activity time (the collection calls do not).
\<close>

datatype 'r outcome = Call_ok (result: 'r) | Reconnect_failed (result: 'r) | Retry_failed (result: 'r)
  | Call_failed (result: 'r)

definition call_retry ::
    "'w ext \<Rightarrow> bool \<Rightarrow> ('r \<Rightarrow> bool) \<Rightarrow> ('r \<Rightarrow> int) \<Rightarrow> (rcComm \<Rightarrow> 'w rc_state \<Rightarrow> 'r \<times> 'w rc_state)
     \<Rightarrow> nat \<Rightarrow> 'w conn_state \<Rightarrow> ('r outcome \<times> 'w conn_state) option" where
  "call_retry e noted failed status_of call p c =
     do { cn \<leftarrow> conn_heap c p;
          let (r, c1) = onRc (call (cn_conn cn)) c;
          c2 \<leftarrow> (if noted then iFuseConnUpdateLastActTime e p False c1 else Some c1);
          if failed r then
            (if iFuseRodsClientReadMsgError e (status_of r) then
               do { (status, c3) \<leftarrow> iFuseConnReconnect e p c2;
                    if status < 0 then Some (Reconnect_failed r, c3)
                    else do { cn' \<leftarrow> conn_heap c3 p;
                              let (r', c4) = onRc (call (cn_conn cn')) c3;
                              Some (if failed r' then Retry_failed r' else Call_ok r', c4) } }
             else Some (Call_failed r, c2))
          else Some (Call_ok r, c2) }"

text \<open>All paths of these blocks release the connection's lock before they return.\<close>

definition with_conn_lock ::
    "nat \<Rightarrow> ('w conn_state \<Rightarrow> ('r \<times> 'w conn_state) option) \<Rightarrow> 'w conn_state \<Rightarrow> ('r \<times> 'w conn_state) option" where
  "with_conn_lock p f c =
     do { c1 \<leftarrow> iFuseConnLock p c; (x, c2) \<leftarrow> f c1; c3 \<leftarrow> iFuseConnUnlock p c2; Some (x, c3) }"

text \<open>\<open>assert(iFuseConn->conn != NULL)\<close>.\<close>

definition assert_connected :: "nat \<Rightarrow> 'w conn_state \<Rightarrow> unit option" where
  "assert_connected p c = do { cn \<leftarrow> conn_heap c p; if cn_conn cn = None then None else Some () }"

section \<open>Closing and freeing descriptors\<close>

definition genNextFdID :: "'w fd_state \<Rightarrow> 64 word \<times> 'w fd_state" where
  "genNextFdID s = (g_FdIDGen s, s\<lparr>g_FdIDGen := g_FdIDGen s + 1\<rparr>)"

definition genNextDdID :: "'w fd_state \<Rightarrow> 64 word \<times> 'w fd_state" where
  "genNextDdID s = (g_DdIDGen s, s\<lparr>g_DdIDGen := g_DdIDGen s + 1\<rparr>)"

interpretation fd_id: id_generator genNextFdID g_FdIDGen
  by unfold_locales (simp_all add: genNextFdID_def)

interpretation dd_id: id_generator genNextDdID g_DdIDGen
  by unfold_locales (simp_all add: genNextDdID_def)

definition closeFd :: "'w ext \<Rightarrow> nat \<Rightarrow> 'w fd_state \<Rightarrow> (int \<times> 'w fd_state) option" where
  "closeFd e p s =
     do { s1 \<leftarrow> iFuseFdLock p s;
          d \<leftarrow> fd_heap s1 p;
          (status, s2) \<leftarrow> (case fd_conn d of
             None \<Rightarrow> Some (0, s1)
           | Some cp \<Rightarrow>
               if fd_fd d > 0
               then do { (out, s2) \<leftarrow> onConn (with_conn_lock cp (call_retry e True (\<lambda>st. st < 0) id
                           (\<lambda>conn. iFuseRodsClientDataObjClose e conn (fd_fd d)) cp)) s1;
                         Some (result out, s2) }
               else Some (0, s1));
          s3 \<leftarrow> update_fd p (\<lambda>d. d\<lparr>fd_conn := None, fd_fd := 0, fd_openFlag := 0, fd_lastFilePointer := - 1\<rparr>) s2;
          s4 \<leftarrow> iFuseFdUnlock p s3;
          Some (status, s4) }"

definition closeDir :: "'w ext \<Rightarrow> nat \<Rightarrow> 'w fd_state \<Rightarrow> (int \<times> 'w fd_state) option" where
  "closeDir e p s =
     do { s1 \<leftarrow> iFuseDirLock p s;
          d \<leftarrow> dir_heap s1 p;
          (status, s2) \<leftarrow> (case (dd_handle d, dd_conn d) of
             (Some h, Some cp) \<Rightarrow>
               do { (out, s2) \<leftarrow> onConn (with_conn_lock cp (call_retry e False (\<lambda>st. st < 0) id
                      (\<lambda>conn. iFuseRodsClientCloseCollection e h) cp)) s1;
                    Some (result out, s2) }
           | _ \<Rightarrow> Some (0, s1));
          s3 \<leftarrow> update_dir p (\<lambda>d. d\<lparr>dd_conn := None, dd_handle := None\<rparr>) s2;
          s4 \<leftarrow> iFuseDirUnlock p s3;
          Some (status, s4) }"

definition freeFd :: "'w ext \<Rightarrow> nat \<Rightarrow> 'w fd_state \<Rightarrow> (int \<times> 'w fd_state) option" where
  "freeFd e p s =
     do { (_, s1) \<leftarrow> closeFd e p s; Some (0, s1\<lparr>fd_heap := (fd_heap s1)(p := None)\<rparr>) }"

definition freeDir :: "'w ext \<Rightarrow> nat \<Rightarrow> 'w fd_state \<Rightarrow> (int \<times> 'w fd_state) option" where
  "freeDir e p s =
     do { (_, s1) \<leftarrow> closeDir e p s; Some (0, s1\<lparr>dir_heap := (dir_heap s1)(p := None)\<rparr>) }"

fun free_fds :: "'w ext \<Rightarrow> nat list \<Rightarrow> 'w fd_state \<Rightarrow> 'w fd_state option" where
  "free_fds e [] s = Some s"
| "free_fds e (p # ps) s = do { (_, s1) \<leftarrow> freeFd e p s; free_fds e ps s1 }"

fun free_dirs :: "'w ext \<Rightarrow> nat list \<Rightarrow> 'w fd_state \<Rightarrow> 'w fd_state option" where
  "free_dirs e [] s = Some s"
| "free_dirs e (p # ps) s = do { (_, s1) \<leftarrow> freeDir e p s; free_dirs e ps s1 }"

definition closeAllFd :: "'w ext \<Rightarrow> 'w fd_state \<Rightarrow> 'w fd_state option" where
  "closeAllFd e s = free_fds e (g_AssignedFd s) (s\<lparr>g_AssignedFd := []\<rparr>)"

definition closeAllDir :: "'w ext \<Rightarrow> 'w fd_state \<Rightarrow> 'w fd_state option" where
  "closeAllDir e s = free_dirs e (g_AssignedDir s) (s\<lparr>g_AssignedDir := []\<rparr>)"

definition iFuseFdInit :: "'w fd_state \<Rightarrow> 'w fd_state" where
  "iFuseFdInit s = s\<lparr>g_FdIDGen := 0, g_DdIDGen := 0\<rparr>"

definition iFuseFdDestroy :: "'w ext \<Rightarrow> 'w fd_state \<Rightarrow> 'w fd_state option" where
  "iFuseFdDestroy e s =
     do { s1 \<leftarrow> closeAllFd e (s\<lparr>g_FdIDGen := 0\<rparr>); closeAllDir e (s1\<lparr>g_DdIDGen := 0\<rparr>) }"

section \<open>Opening descriptors\<close>

definition iFuseFdOpen ::
    "'w ext \<Rightarrow> nat \<Rightarrow> string \<Rightarrow> flags \<Rightarrow> 'w fd_state \<Rightarrow> ((int \<times> nat option) \<times> 'w fd_state) option" where
  "iFuseFdOpen e cp iRodsPath openFlag s =
     do { (out, s1) \<leftarrow> onConn (with_conn_lock cp (\<lambda>c. do { assert_connected cp c;
                   call_retry e True (\<lambda>fd. fd \<le> 0) id
                     (\<lambda>conn. iFuseRodsClientDataObjOpen e conn (rstrcpy e iRodsPath (MAX_NAME_LEN e)) openFlag) cp c })) s;
          (case out of
             Call_ok fd \<Rightarrow>
               (case onLibF (malloc_ptr e) s1 of
                  (None, s2) \<Rightarrow> Some ((SYS_MALLOC_ERR e, None), s2)
                | (Some p, s2) \<Rightarrow>
                    let (newId, s3) = genNextFdID s2;
                        d = \<lparr>fd_fdId = newId, fd_fd = fd, fd_conn = Some cp, fd_iRodsPath = iRodsPath,
                             fd_openFlag = openFlag, fd_lastFilePointer = - 1, fd_lock = False\<rparr>
                    in Some ((0, Some p),
                         s3\<lparr>fd_heap := (fd_heap s3)(p \<mapsto> d), g_AssignedFd := g_AssignedFd s3 @ [p]\<rparr>))
           | _ \<Rightarrow> Some ((- ENOENT, None), s1)) }"

text \<open>
  The reopening of \<open>iFuseFdReopen\<close>, connection and descriptor locked: close, then open again
  with the flags it was opened with. The failures of the close are its status.
\<close>

definition reopen_locked ::
    "'w ext \<Rightarrow> nat \<Rightarrow> iFuseFd \<Rightarrow> 'w conn_state \<Rightarrow> ((int \<times> int option) \<times> 'w conn_state) option" where
  "reopen_locked e cp d c =
     do { (out, c1) \<leftarrow> call_retry e True (\<lambda>st. st < 0) id
            (\<lambda>conn. iFuseRodsClientDataObjClose e conn (fd_fd d)) cp c;
          if result out < 0 then Some ((result out, None), c1)
          else do {
            assert_connected cp c1;
            (out2, c2) \<leftarrow> call_retry e True (\<lambda>fd. fd \<le> 0) id
              (\<lambda>conn. iFuseRodsClientDataObjOpen e conn (rstrcpy e (fd_iRodsPath d) (MAX_NAME_LEN e)) (fd_openFlag d)) cp c1;
            (case out2 of
               Call_ok fd \<Rightarrow> Some ((result out, Some fd), c2)
             | _ \<Rightarrow> Some ((- ENOENT, Some 0), c2)) } }"

text \<open>
  \<open>reopen_locked\<close> gives \<open>None\<close> when the close failed, \<open>Some 0\<close> when only the open failed and
  the new descriptor otherwise; the file pointer is forgotten as soon as the close succeeded.
\<close>

definition iFuseFdReopen :: "'w ext \<Rightarrow> nat \<Rightarrow> 'w fd_state \<Rightarrow> (int \<times> 'w fd_state) option" where
  "iFuseFdReopen e p s =
     do { d \<leftarrow> fd_heap s p;
          cp \<leftarrow> fd_conn d;
          if \<not> fd_fd d > 0 then None
          else do {
            s1 \<leftarrow> iFuseFdLock p s;
            ((status, opened), s2) \<leftarrow> onConn (with_conn_lock cp (reopen_locked e cp d)) s1;
            s3 \<leftarrow> (case opened of
                     None \<Rightarrow> Some s2
                   | Some fd \<Rightarrow> update_fd p (\<lambda>d. d\<lparr>fd_lastFilePointer := - 1,
                                                   fd_fd := (if fd > 0 then fd else fd_fd d)\<rparr>) s2);
            s4 \<leftarrow> iFuseFdUnlock p s3;
            Some (status, s4) } }"

definition iFuseDirOpen ::
    "'w ext \<Rightarrow> nat \<Rightarrow> string \<Rightarrow> 'w fd_state \<Rightarrow> ((int \<times> nat option) \<times> 'w fd_state) option" where
  "iFuseDirOpen e cp iRodsPath s =
     do { (out, s1) \<leftarrow> onConn (with_conn_lock cp (\<lambda>c. do { assert_connected cp c;
                   call_retry e False (\<lambda>(st, h). st < 0) fst
                     (\<lambda>conn. iFuseRodsClientOpenCollection e conn iRodsPath) cp c })) s;
          (case out of
             Call_ok (status, handle) \<Rightarrow>
               (case onLibF (malloc_ptr e) s1 of
                  (None, s2) \<Rightarrow> Some ((SYS_MALLOC_ERR e, None), s2)
                | (Some p, s2) \<Rightarrow>
                    let (newId, s3) = genNextDdID s2;
                        d = \<lparr>dd_ddId = newId, dd_handle = None, dd_conn = Some cp, dd_iRodsPath = iRodsPath,
                             dd_cachedEntries = None, dd_cachedEntryBufferLen = 0, dd_lock = False\<rparr>;
                        (handle_ok, s4) = onLibF (mem_ok e) s3
                    in if \<not> handle_ok
                       then do { (_, s5) \<leftarrow> freeDir e p (s4\<lparr>dir_heap := (dir_heap s4)(p \<mapsto> d)\<rparr>);
                                 Some ((SYS_MALLOC_ERR e, None), s5) }
                       else Some ((status, Some p),
                         s4\<lparr>dir_heap := (dir_heap s4)(p \<mapsto> d\<lparr>dd_handle := Some handle\<rparr>),
                            g_AssignedDir := g_AssignedDir s4 @ [p]\<rparr>))
           | _ \<Rightarrow> Some ((- ENOENT, None), s1)) }"

text \<open>
  On the failing paths the code unlocks \<open>g_AssignedDirLock\<close>, which it does not hold; that
  lock is not part of the state.
\<close>

definition iFuseDirOpenWithCache ::
    "'w ext \<Rightarrow> string \<Rightarrow> bytes \<Rightarrow> 'w fd_state \<Rightarrow> (int \<times> nat option) \<times> 'w fd_state" where
  "iFuseDirOpenWithCache e iRodsPath cachedEntries s =
     (case onLibF (malloc_ptr e) s of
        (None, s1) \<Rightarrow> ((SYS_MALLOC_ERR e, None), s1)
      | (Some p, s1) \<Rightarrow>
          let (newId, s2) = genNextDdID s1;
              (buf_ok, s3) = onLibF (mem_ok e) s2
          in if \<not> buf_ok then ((SYS_MALLOC_ERR e, None), s3)
             else let d = \<lparr>dd_ddId = newId, dd_handle = None, dd_conn = None, dd_iRodsPath = iRodsPath,
                           dd_cachedEntries = Some cachedEntries,
                           dd_cachedEntryBufferLen = length cachedEntries, dd_lock = False\<rparr>
                  in ((0, Some p), s3\<lparr>dir_heap := (dir_heap s3)(p \<mapsto> d),
                                      g_AssignedDir := g_AssignedDir s3 @ [p]\<rparr>))"

definition iFuseFdClose :: "'w ext \<Rightarrow> nat \<Rightarrow> 'w fd_state \<Rightarrow> (int \<times> 'w fd_state) option" where
  "iFuseFdClose e p s =
     do { d \<leftarrow> fd_heap s p;
          if fd_conn d = None \<or> \<not> fd_fd d > 0 then None
          else freeFd e p (s\<lparr>g_AssignedFd := removeAll p (g_AssignedFd s)\<rparr>) }"

definition iFuseDirClose :: "'w ext \<Rightarrow> nat \<Rightarrow> 'w fd_state \<Rightarrow> (int \<times> 'w fd_state) option" where
  "iFuseDirClose e p s = freeDir e p (s\<lparr>g_AssignedDir := removeAll p (g_AssignedDir s)\<rparr>)"


section \<open>The calls return, and leave the pool alone\<close>

lemma call_retry_live:
  assumes call: "\<And>conn r x r'. call conn r = (x, r') \<Longrightarrow> rc_le r r'" and "p \<in> dom (conn_heap c)"
  shows "\<exists>out c'. call_retry e noted failed status_of call p c = Some (out, c') \<and> touch_ok c c'"
proof -
  from assms(2) obtain cn where cn: "conn_heap c p = Some cn" by blast
  obtain r c1 where r: "onRc (call (cn_conn cn)) c = (r, c1)" by force
  have t1: "touch_ok c c1" by (rule touch_ok_onRc [OF _ r]) (rule call)
  note d1 = touch_ok_dom [OF t1 assms(2)]
  obtain c2 where c2: "(if noted then iFuseConnUpdateLastActTime e p False c1 else Some c1) = Some c2"
      and t2: "touch_ok c1 c2"
    using updateLastActTime_live [OF d1, of e False] by (cases noted) auto
  note d2 = touch_ok_dom [OF t2 d1]
  obtain status c3 where c3: "iFuseConnReconnect e p c2 = Some (status, c3)" and t3: "touch_ok c2 c3"
    using reconnect_live [OF d2] by blast
  obtain cn' where cn': "conn_heap c3 p = Some cn'" using touch_ok_dom [OF t3 d2] by blast
  obtain r' c4 where r': "onRc (call (cn_conn cn')) c3 = (r', c4)" by force
  have t4: "touch_ok c3 c4" by (rule touch_ok_onRc [OF _ r']) (rule call)
  have t12: "touch_ok c c2" using t1 t2 by (rule touch_ok_trans)
  have t13: "touch_ok c c3" using t12 t3 by (rule touch_ok_trans)
  have t14: "touch_ok c c4" using t13 t4 by (rule touch_ok_trans)
  have run: "call_retry e noted failed status_of call p c =
      (if failed r then
         (if iFuseRodsClientReadMsgError e (status_of r) then
            (if status < 0 then Some (Reconnect_failed r, c3)
             else Some (if failed r' then Retry_failed r' else Call_ok r', c4))
          else Some (Call_failed r, c2))
       else Some (Call_ok r, c2))"
    using cn r c2 c3 cn' r' by (simp add: call_retry_def del: bind_Some_iff)
  show ?thesis
    unfolding run using t12 t13 t14 by auto
qed

text \<open>A result reported as fine passed the test.\<close>

lemma call_retry_fine: "call_retry e noted failed status_of call p c = Some (Call_ok r, c') \<Longrightarrow> \<not> failed r"
  by (auto simp: call_retry_def case_prod_beta Let_def split: if_splits)

lemma with_conn_lock_fine:
  "with_conn_lock p f c = Some (x, c') \<Longrightarrow> \<exists>c1 c2. f c1 = Some (x, c2)"
  by (auto simp: with_conn_lock_def)

lemma with_conn_lock_live:
  assumes "p \<in> dom (conn_heap c)"
    and f: "\<And>c1. conn_wrlock p c = Some c1 \<Longrightarrow> touch_ok c c1 \<Longrightarrow> \<exists>x c2. f c1 = Some (x, c2) \<and> touch_ok c1 c2"
  shows "\<exists>x c'. with_conn_lock p f c = Some (x, c') \<and> touch_ok c c'"
proof -
  obtain c1 where c1: "conn_wrlock p c = Some c1" and t1: "touch_ok c c1" using lock_live(1) [OF assms(1)] by blast
  obtain x c2 where c2: "f c1 = Some (x, c2)" and t2: "touch_ok c1 c2" using f [OF c1 t1] by blast
  have "p \<in> dom (conn_heap c2)" using touch_ok_dom [OF t2 touch_ok_dom [OF t1 assms(1)]] .
  then obtain c3 where c3: "conn_unlock p c2 = Some c3" and t3: "touch_ok c2 c3" using lock_live(2) by blast
  show ?thesis
    using c1 c2 c3 touch_ok_trans [OF touch_ok_trans [OF t1 t2] t3]
    by (simp add: with_conn_lock_def iFuseConnLock_def iFuseConnUnlock_def)
qed

lemma locked_call_live:
  assumes "p \<in> dom (conn_heap c)" and "\<And>conn r x r'. call conn r = (x, r') \<Longrightarrow> rc_le r r'"
  shows "\<exists>out c'. with_conn_lock p (call_retry e noted failed status_of call p) c = Some (out, c') \<and> touch_ok c c'"
  by (rule with_conn_lock_live [OF assms(1)])
     (rule call_retry_live [OF assms(2)], assumption, erule touch_ok_dom [OF _ assms(1)])

lemma assert_connected_lock: "conn_wrlock p c = Some c1 \<Longrightarrow> assert_connected p c1 = assert_connected p c"
  by (auto simp: conn_wrlock_def update_conn_def assert_connected_def)

lemma assert_connected_dom: "assert_connected p c = Some u \<Longrightarrow> p \<in> dom (conn_heap c)"
  by (auto simp: assert_connected_def)

section \<open>The descriptor invariant\<close>

definition fd_conn_of :: "'w fd_state \<Rightarrow> nat \<Rightarrow> nat option" where
  "fd_conn_of s p = (case fd_heap s p of None \<Rightarrow> None | Some d \<Rightarrow> fd_conn d)"

definition dir_conn_of :: "'w fd_state \<Rightarrow> nat \<Rightarrow> nat option" where
  "dir_conn_of s p = (case dir_heap s p of None \<Rightarrow> None | Some d \<Rightarrow> dd_conn d)"

text \<open>The open descriptors that use a connection.\<close>

definition held :: "'w fd_state \<Rightarrow> nat \<Rightarrow> nat" where
  "held s cp = length (filter (\<lambda>p. fd_conn_of s p = Some cp) (g_AssignedFd s))
     + length (filter (\<lambda>p. dir_conn_of s p = Some cp) (g_AssignedDir s))"

definition dir_entry_valid :: "iFuseDir \<Rightarrow> bool" where
  "dir_entry_valid d \<longleftrightarrow>
     (case dd_cachedEntries d of Some es \<Rightarrow> dd_conn d = None \<and> dd_handle d = None \<and> dd_cachedEntryBufferLen d = length es
      | None \<Rightarrow> dd_conn d \<noteq> None \<and> dd_handle d \<noteq> None)"

text \<open>
  The pool is well formed; the registered descriptors are the live ones, each once; a file
  descriptor has a positive number and a connection, a directory descriptor either cached
  entries or a handle and a connection; and a connection has at least as many references as
  open descriptors, so it outlives them.
\<close>

definition fd_inv :: "'w fd_state \<Rightarrow> bool" where
  "fd_inv s \<longleftrightarrow> conn_inv (conns s)
     \<and> distinct (g_AssignedFd s) \<and> dom (fd_heap s) = set (g_AssignedFd s)
     \<and> distinct (g_AssignedDir s) \<and> dom (dir_heap s) = set (g_AssignedDir s)
     \<and> (\<forall>p \<in> dom (fd_heap s) \<union> dom (dir_heap s). p < heap_next (lib (rcs (conns s))))
     \<and> (\<forall>p d. fd_heap s p = Some d \<longrightarrow> 0 < fd_fd d \<and> fd_conn d \<noteq> None)
     \<and> (\<forall>p d. dir_heap s p = Some d \<longrightarrow> dir_entry_valid d)
     \<and> (\<forall>cp. int (held s cp) \<le> conn_refs (conns s) cp)"

lemma held_conns [simp]: "held (s\<lparr>conns := c\<rparr>) = held s"
  by (simp add: held_def fd_conn_of_def dir_conn_of_def fun_eq_iff)

lemma held_gen [simp]: "held (s\<lparr>g_DdIDGen := n\<rparr>) = held s" "held (s\<lparr>g_FdIDGen := n\<rparr>) = held s"
  by (simp_all add: held_def fd_conn_of_def dir_conn_of_def fun_eq_iff)

lemma fd_inv_gen [simp]: "fd_inv (s\<lparr>g_DdIDGen := n\<rparr>) = fd_inv s" "fd_inv (s\<lparr>g_FdIDGen := n\<rparr>) = fd_inv s"
  by (simp_all add: fd_inv_def)

lemma fd_inv_conns:
  assumes "fd_inv s" and "conn_inv c" and "rc_le (rcs (conns s)) (rcs c)"
    and "\<And>cp. int (held s cp) \<le> conn_refs c cp"
  shows "fd_inv (s\<lparr>conns := c\<rparr>)"
proof -
  have "\<forall>p \<in> dom (fd_heap s) \<union> dom (dir_heap s). p < heap_next (lib (rcs (conns s)))"
    using assms(1) by (simp add: fd_inv_def)
  moreover have "heap_next (lib (rcs (conns s))) \<le> heap_next (lib (rcs c))"
    using assms(3) by (simp add: rc_le_def)
  ultimately have "\<forall>p \<in> dom (fd_heap s) \<union> dom (dir_heap s). p < heap_next (lib (rcs c))"
    by (meson order.strict_trans2)
  with assms(1,2,4) show ?thesis by (simp add: fd_inv_def)
qed

lemma fd_inv_touch: "fd_inv s \<Longrightarrow> touch_ok (conns s) c \<Longrightarrow> fd_inv (s\<lparr>conns := c\<rparr>)"
  using fd_inv_conns [of s c] touch_okD [of "conns s" c] by (simp add: fd_inv_def)

lemma fd_inv_refs: "fd_inv s \<Longrightarrow> int (held s cp) \<le> conn_refs (conns s) cp"
  by (simp add: fd_inv_def)

lemma fd_inv_conn_live:
  "fd_inv s \<Longrightarrow> 0 < conn_refs (conns s) cp \<Longrightarrow> cp \<in> dom (conn_heap (conns s))"
  by (auto simp: conn_refs_def heap_refs_def split: option.splits)

lemma held_fd_pos: "p \<in> set (g_AssignedFd s) \<Longrightarrow> fd_conn_of s p = Some cp \<Longrightarrow> 0 < held s cp"
  by (auto simp: held_def filter_empty_conv)

lemma held_dir_pos: "p \<in> set (g_AssignedDir s) \<Longrightarrow> dir_conn_of s p = Some cp \<Longrightarrow> 0 < held s cp"
  by (auto simp: held_def filter_empty_conv)

text \<open>The connection of an open descriptor is alive.\<close>

lemma fd_conn_alive:
  assumes "fd_inv s" and "fd_heap s p = Some d"
  obtains cp where "fd_conn d = Some cp" and "cp \<in> dom (conn_heap (conns s))" and "0 < held s cp"
proof -
  from assms have "fd_conn d \<noteq> None" unfolding fd_inv_def by blast
  then obtain cp where cp: "fd_conn d = Some cp" by blast
  have "p \<in> set (g_AssignedFd s)" using assms by (auto simp: fd_inv_def)
  moreover have "fd_conn_of s p = Some cp" using assms(2) cp by (simp add: fd_conn_of_def)
  ultimately have h: "0 < held s cp" by (rule held_fd_pos)
  with fd_inv_refs [OF assms(1), of cp] have "0 < conn_refs (conns s) cp" by simp
  from that [OF cp fd_inv_conn_live [OF assms(1) this] h] show ?thesis .
qed

lemma dir_conn_alive:
  assumes "fd_inv s" and "dir_heap s p = Some d" and "dd_conn d = Some cp"
  shows "cp \<in> dom (conn_heap (conns s))" and "0 < held s cp"
proof -
  have "p \<in> set (g_AssignedDir s)" using assms by (auto simp: fd_inv_def)
  moreover have "dir_conn_of s p = Some cp" using assms by (simp add: dir_conn_of_def)
  ultimately show "0 < held s cp" by (rule held_dir_pos)
  with fd_inv_refs [OF assms(1), of cp] have "0 < conn_refs (conns s) cp" by simp
  from fd_inv_conn_live [OF assms(1) this] show "cp \<in> dom (conn_heap (conns s))" .
qed

lemma held_update_fd:
  assumes "fd_heap s p = Some d" and "fd_conn d' = fd_conn d"
  shows "held (s\<lparr>fd_heap := (fd_heap s)(p \<mapsto> d')\<rparr>) = held s"
proof -
  have "fd_conn_of (s\<lparr>fd_heap := (fd_heap s)(p \<mapsto> d')\<rparr>) = fd_conn_of s"
    using assms by (auto simp: fd_conn_of_def fun_eq_iff)
  then show ?thesis by (simp add: held_def dir_conn_of_def fun_eq_iff)
qed

lemma held_update_dir:
  assumes "dir_heap s p = Some d" and "dd_conn d' = dd_conn d"
  shows "held (s\<lparr>dir_heap := (dir_heap s)(p \<mapsto> d')\<rparr>) = held s"
proof -
  have "dir_conn_of (s\<lparr>dir_heap := (dir_heap s)(p \<mapsto> d')\<rparr>) = dir_conn_of s"
    using assms by (auto simp: dir_conn_of_def fun_eq_iff)
  then show ?thesis by (simp add: held_def fd_conn_of_def fun_eq_iff)
qed

lemma fd_inv_update_fd:
  assumes "fd_inv s" and "fd_heap s p = Some d" and "fd_conn d' = fd_conn d" and "0 < fd_fd d'"
  shows "fd_inv (s\<lparr>fd_heap := (fd_heap s)(p \<mapsto> d')\<rparr>)"
proof -
  have "fd_conn d \<noteq> None" using assms(1,2) by (auto simp: fd_inv_def)
  moreover have "dom ((fd_heap s)(p \<mapsto> d')) = dom (fd_heap s)" using assms(2) by auto
  ultimately show ?thesis
    using assms by (simp add: fd_inv_def held_update_fd)
qed

lemma fd_inv_update_dir:
  assumes "fd_inv s" and "dir_heap s p = Some d" and "dd_conn d' = dd_conn d" and "dir_entry_valid d'"
  shows "fd_inv (s\<lparr>dir_heap := (dir_heap s)(p \<mapsto> d')\<rparr>)"
proof -
  have "dom ((dir_heap s)(p \<mapsto> d')) = dom (dir_heap s)" using assms(2) by auto
  then show ?thesis
    using assms by (simp add: fd_inv_def held_update_dir)
qed

lemma fd_inv_init:
  "conn_inv (conns s) \<Longrightarrow> fd_heap s = Map.empty \<Longrightarrow> dir_heap s = Map.empty \<Longrightarrow> g_AssignedFd s = [] \<Longrightarrow>
     g_AssignedDir s = [] \<Longrightarrow> fd_inv (iFuseFdInit s)"
  by (simp add: fd_inv_def iFuseFdInit_def held_def conn_refs_nonneg)


section \<open>What opening and closing do to the descriptors\<close>

lemma onConn_nf: "f (conns s) = Some (x, c) \<Longrightarrow> onConn f s = Some (x, s\<lparr>conns := c\<rparr>)"
  by (simp add: onConn_def)

lemma onLibF_nf:
  assumes "onLibF f s = (x, s')"
  shows "\<exists>r. onLib f (rcs (conns s)) = (x, r) \<and> s' = s\<lparr>conns := (conns s)\<lparr>rcs := r\<rparr>\<rparr>"
  using assms by (auto simp: onLibF_def onRc_def split: prod.splits)

lemma closeFd_nf:
  assumes d: "fd_heap s p = Some d" and alive: "\<And>cp. fd_conn d = Some cp \<Longrightarrow> cp \<in> dom (conn_heap (conns s))"
  shows "\<exists>status c'. closeFd e p s = Some (status, s\<lparr>conns := c', fd_heap := (fd_heap s)(p \<mapsto>
      d\<lparr>fd_conn := None, fd_fd := 0, fd_openFlag := 0, fd_lastFilePointer := - 1, fd_lock := False\<rparr>)\<rparr>)
    \<and> touch_ok (conns s) c'"
proof (cases "\<exists>cp. fd_conn d = Some cp \<and> fd_fd d > 0")
  case True
  then obtain cp where cp: "fd_conn d = Some cp" "fd_fd d > 0" by blast
  obtain out c' where run: "with_conn_lock cp (call_retry e True (\<lambda>st. st < 0) id
      (\<lambda>conn. iFuseRodsClientDataObjClose e conn (fd_fd d)) cp) (conns s) = Some (out, c')"
    and t: "touch_ok (conns s) c'"
    using locked_call_live [OF alive [OF cp(1)]] rc_wrapper_le(7) by metis
  show ?thesis
    using d cp run t by (auto simp: closeFd_def iFuseFdLock_def iFuseFdUnlock_def update_fd_def onConn_def
      intro!: exI [of _ c'])
next
  case False
  then have "(case fd_conn d of None \<Rightarrow> True | Some cp \<Rightarrow> \<not> fd_fd d > 0)" by (auto split: option.split)
  then show ?thesis
    using d by (cases "fd_conn d") (auto simp: closeFd_def iFuseFdLock_def iFuseFdUnlock_def update_fd_def
      intro!: exI [of _ "conns s"])
qed

lemma closeDir_nf:
  assumes d: "dir_heap s p = Some d" and alive: "\<And>cp. dd_conn d = Some cp \<Longrightarrow> cp \<in> dom (conn_heap (conns s))"
  shows "\<exists>status c'. closeDir e p s = Some (status, s\<lparr>conns := c', dir_heap := (dir_heap s)(p \<mapsto>
      d\<lparr>dd_conn := None, dd_handle := None, dd_lock := False\<rparr>)\<rparr>)
    \<and> touch_ok (conns s) c'"
proof (cases "\<exists>cp h. dd_conn d = Some cp \<and> dd_handle d = Some h")
  case True
  then obtain cp h where cp: "dd_conn d = Some cp" "dd_handle d = Some h" by blast
  obtain out c' where run: "with_conn_lock cp (call_retry e False (\<lambda>st. st < 0) id
      (\<lambda>conn. iFuseRodsClientCloseCollection e h) cp) (conns s) = Some (out, c')"
    and t: "touch_ok (conns s) c'"
    using locked_call_live [OF alive [OF cp(1)]] rc_wrapper_le(3) by metis
  show ?thesis
    using d cp run t by (auto simp: closeDir_def iFuseDirLock_def iFuseDirUnlock_def update_dir_def onConn_def
      intro!: exI [of _ c'])
next
  case False
  then have "dd_conn d = None \<or> dd_handle d = None" by auto
  then show ?thesis
    using d by (cases "dd_conn d"; cases "dd_handle d") (auto simp: closeDir_def iFuseDirLock_def iFuseDirUnlock_def
      update_dir_def intro!: exI [of _ "conns s"])
qed

lemma length_filter_removeAll:
  "distinct xs \<Longrightarrow> p \<in> set xs \<Longrightarrow> P p \<Longrightarrow> length (filter P (removeAll p xs)) = length (filter P xs) - 1"
proof (induction xs)
  case (Cons x xs)
  then show ?case
  proof (cases "x = p")
    case True
    then show ?thesis using Cons.prems by (simp add: removeAll_id)
  next
    case False
    then have "p \<in> set (filter P xs)" using Cons.prems by simp
    then have "0 < length (filter P xs)" by (metis length_pos_if_in_set)
    with False Cons show ?thesis by auto
  qed
qed simp

lemma filter_removeAll_other: "\<not> P p \<Longrightarrow> filter P (removeAll p xs) = filter P xs"
  by (induction xs) auto

text \<open>Removing an open descriptor gives its connection one holder less.\<close>

lemma fd_inv_remove_fd:
  assumes inv: "fd_inv s" and d: "fd_heap s p = Some d" and cp: "fd_conn d = Some cp"
    and t: "touch_ok (conns s) c'"
    and s': "s' = s\<lparr>g_AssignedFd := removeAll p (g_AssignedFd s), conns := c', fd_heap := (fd_heap s)(p := None)\<rparr>"
  shows "fd_inv s'" and "held s' = (held s)(cp := held s cp - 1)" and "0 < held s cp"
proof -
  have p: "p \<in> set (g_AssignedFd s)" "distinct (g_AssignedFd s)" using inv d by (auto simp: fd_inv_def)
  have here: "fd_conn_of s p = Some cp" using d cp by (simp add: fd_conn_of_def)
  show pos: "0 < held s cp" using p(1) here by (rule held_fd_pos)
  have others: "filter (\<lambda>q. fd_conn_of s' q = Some x) (removeAll p (g_AssignedFd s))
      = filter (\<lambda>q. fd_conn_of s q = Some x) (removeAll p (g_AssignedFd s))" for x
    by (rule filter_cong) (auto simp: s' fd_conn_of_def)
  have len: "length (filter (\<lambda>q. fd_conn_of s' q = Some x) (g_AssignedFd s'))
      = length (filter (\<lambda>q. fd_conn_of s q = Some x) (g_AssignedFd s)) - (if x = cp then 1 else 0)" for x
  proof -
    have "g_AssignedFd s' = removeAll p (g_AssignedFd s)" by (simp add: s')
    then show ?thesis
      using length_filter_removeAll [OF p(2,1), of "\<lambda>q. fd_conn_of s q = Some x"] here
        filter_removeAll_other [of "\<lambda>q. fd_conn_of s q = Some x" p]
      by (cases "x = cp") (simp_all add: others)
  qed
  have pos': "0 < length (filter (\<lambda>q. fd_conn_of s q = Some cp) (g_AssignedFd s))"
    using p(1) here by (auto simp: filter_empty_conv)
  have dirs: "dir_conn_of s' = dir_conn_of s" "g_AssignedDir s' = g_AssignedDir s"
    by (simp_all add: s' dir_conn_of_def fun_eq_iff)
  show h: "held s' = (held s)(cp := held s cp - 1)"
  proof
    fix x show "held s' x = ((held s)(cp := held s cp - 1)) x"
    proof (cases "x = cp")
      case True
      then show ?thesis using pos' unfolding held_def len dirs fun_upd_apply by (simp del: length_greater_0_conv)
    qed (simp add: held_def len dirs)
  qed
  have dom: "dom ((fd_heap s)(p := None)) = set (removeAll p (g_AssignedFd s))"
    using inv by (auto simp: fd_inv_def)
  have "int (held s' x) \<le> conn_refs c' x" for x
    using fd_inv_refs [OF inv, of x] touch_okD(4) [OF t] unfolding h by (auto split: if_splits)
  moreover have "fd_inv (s\<lparr>conns := c'\<rparr>)" using inv t by (rule fd_inv_touch)
  ultimately show "fd_inv s'"
    using dom unfolding fd_inv_def by (auto simp: s' distinct_removeAll split: if_splits)
qed


text \<open>The same for directories; those made from the cache have no connection.\<close>

lemma fd_inv_remove_dir:
  assumes inv: "fd_inv s" and d: "dir_heap s p = Some d" and cp: "dd_conn d = Some cp"
    and t: "touch_ok (conns s) c'"
    and s': "s' = s\<lparr>g_AssignedDir := removeAll p (g_AssignedDir s), conns := c', dir_heap := (dir_heap s)(p := None)\<rparr>"
  shows "fd_inv s'" and "held s' = (held s)(cp := held s cp - 1)" and "0 < held s cp"
proof -
  have p: "p \<in> set (g_AssignedDir s)" "distinct (g_AssignedDir s)" using inv d by (auto simp: fd_inv_def)
  have here: "dir_conn_of s p = Some cp" using d cp by (simp add: dir_conn_of_def)
  show pos: "0 < held s cp" using p(1) here by (rule held_dir_pos)
  have others: "filter (\<lambda>q. dir_conn_of s' q = Some x) (removeAll p (g_AssignedDir s))
      = filter (\<lambda>q. dir_conn_of s q = Some x) (removeAll p (g_AssignedDir s))" for x
    by (rule filter_cong) (auto simp: s' dir_conn_of_def)
  have len: "length (filter (\<lambda>q. dir_conn_of s' q = Some x) (g_AssignedDir s'))
      = length (filter (\<lambda>q. dir_conn_of s q = Some x) (g_AssignedDir s)) - (if x = cp then 1 else 0)" for x
  proof -
    have "g_AssignedDir s' = removeAll p (g_AssignedDir s)" by (simp add: s')
    then show ?thesis
      using length_filter_removeAll [OF p(2,1), of "\<lambda>q. dir_conn_of s q = Some x"] here
        filter_removeAll_other [of "\<lambda>q. dir_conn_of s q = Some x" p]
      by (cases "x = cp") (simp_all add: others)
  qed
  have pos': "0 < length (filter (\<lambda>q. dir_conn_of s q = Some cp) (g_AssignedDir s))"
    using p(1) here by (auto simp: filter_empty_conv)
  have dirs: "fd_conn_of s' = fd_conn_of s" "g_AssignedFd s' = g_AssignedFd s"
    by (simp_all add: s' fd_conn_of_def fun_eq_iff)
  show h: "held s' = (held s)(cp := held s cp - 1)"
  proof
    fix x show "held s' x = ((held s)(cp := held s cp - 1)) x"
    proof (cases "x = cp")
      case True
      then show ?thesis using pos' unfolding held_def len dirs fun_upd_apply by (simp del: length_greater_0_conv)
    qed (simp add: held_def len dirs)
  qed
  have dom: "dom ((dir_heap s)(p := None)) = set (removeAll p (g_AssignedDir s))"
    using inv by (auto simp: fd_inv_def)
  have "int (held s' x) \<le> conn_refs c' x" for x
    using fd_inv_refs [OF inv, of x] touch_okD(4) [OF t] unfolding h by (auto split: if_splits)
  moreover have "fd_inv (s\<lparr>conns := c'\<rparr>)" using inv t by (rule fd_inv_touch)
  ultimately show "fd_inv s'"
    using dom unfolding fd_inv_def by (auto simp: s' distinct_removeAll split: if_splits)
qed


lemma fd_inv_remove_cached_dir:
  assumes inv: "fd_inv s" and d: "dir_heap s p = Some d" and "dd_conn d = None" and t: "touch_ok (conns s) c'"
    and s': "s' = s\<lparr>g_AssignedDir := removeAll p (g_AssignedDir s), conns := c', dir_heap := (dir_heap s)(p := None)\<rparr>"
  shows "fd_inv s'" and "held s' = held s"
proof -
  have here: "dir_conn_of s p = None" using d assms(3) by (simp add: dir_conn_of_def)
  have "filter (\<lambda>q. dir_conn_of s' q = Some x) (removeAll p (g_AssignedDir s))
      = filter (\<lambda>q. dir_conn_of s q = Some x) (removeAll p (g_AssignedDir s))" for x
    by (rule filter_cong) (auto simp: s' dir_conn_of_def)
  then have len: "filter (\<lambda>q. dir_conn_of s' q = Some x) (g_AssignedDir s')
      = filter (\<lambda>q. dir_conn_of s q = Some x) (g_AssignedDir s)" for x
    using here filter_removeAll_other [of "\<lambda>q. dir_conn_of s q = Some x" p] by (simp add: s')
  have fds: "fd_conn_of s' = fd_conn_of s" "g_AssignedFd s' = g_AssignedFd s"
    by (simp_all add: s' fd_conn_of_def fun_eq_iff)
  show h: "held s' = held s" by (simp add: held_def fun_eq_iff fds len)
  have dom: "dom ((dir_heap s)(p := None)) = set (removeAll p (g_AssignedDir s))"
    using inv by (auto simp: fd_inv_def)
  have "int (held s' x) \<le> conn_refs c' x" for x
    using fd_inv_refs [OF inv, of x] touch_okD(4) [OF t] unfolding h by (auto split: if_splits)
  moreover have "fd_inv (s\<lparr>conns := c'\<rparr>)" using inv t by (rule fd_inv_touch)
  ultimately show "fd_inv s'"
    using dom unfolding fd_inv_def by (auto simp: s' distinct_removeAll split: if_splits)
qed

text \<open>Registering a new descriptor.\<close>

lemma fd_inv_add_fd:
  assumes inv: "fd_inv s" and p: "p = heap_next (lib (rcs (conns s)))" and inv': "conn_inv c'"
    and le: "rc_le (rcs (conns s)) (rcs c')" and next': "p < heap_next (lib (rcs c'))"
    and d: "fd_conn d = Some cp" "0 < fd_fd d"
    and refs: "conn_refs c' = conn_refs (conns s)" and room: "int (held s cp) < conn_refs (conns s) cp"
    and s': "s' = s\<lparr>conns := c', g_FdIDGen := n, fd_heap := (fd_heap s)(p \<mapsto> d), g_AssignedFd := g_AssignedFd s @ [p]\<rparr>"
  shows "fd_inv s'" and "held s' = (held s)(cp := held s cp + 1)"
proof -
  have fresh: "p \<notin> dom (fd_heap s)" using inv p by (auto simp: fd_inv_def)
  then have notin: "p \<notin> set (g_AssignedFd s)" using inv by (simp add: fd_inv_def)
  have "filter (\<lambda>q. fd_conn_of s' q = Some x) (g_AssignedFd s)
      = filter (\<lambda>q. fd_conn_of s q = Some x) (g_AssignedFd s)" for x
    by (rule filter_cong) (use notin in \<open>auto simp: s' fd_conn_of_def\<close>)
  moreover have "fd_conn_of s' p = Some cp" by (simp add: s' fd_conn_of_def d)
  moreover have "dir_conn_of s' = dir_conn_of s" by (simp add: s' dir_conn_of_def fun_eq_iff)
  ultimately show h: "held s' = (held s)(cp := held s cp + 1)"
    by (auto simp: held_def fun_eq_iff s')
  have bound: "\<forall>q \<in> dom (fd_heap s) \<union> dom (dir_heap s). q < heap_next (lib (rcs c'))"
    using inv le unfolding fd_inv_def rc_le_def by (meson order.strict_trans2)
  have "\<forall>x. int (held s' x) \<le> conn_refs (conns s') x"
    using fd_inv_refs [OF inv] room unfolding h by (auto simp: s' refs)
  moreover have "distinct (g_AssignedFd s')" "dom (fd_heap s') = set (g_AssignedFd s')"
    using inv notin by (auto simp: fd_inv_def s')
  moreover have "\<forall>q \<in> dom (fd_heap s') \<union> dom (dir_heap s'). q < heap_next (lib (rcs (conns s')))"
    using bound next' by (auto simp: s')
  moreover have "\<forall>q x. fd_heap s' q = Some x \<longrightarrow> 0 < fd_fd x \<and> fd_conn x \<noteq> None"
    using inv d by (auto simp: fd_inv_def s')
  ultimately show "fd_inv s'" using inv inv' by (simp add: fd_inv_def s')
qed

lemma fd_inv_add_dir:
  assumes inv: "fd_inv s" and p: "p = heap_next (lib (rcs (conns s)))" and inv': "conn_inv c'"
    and le: "rc_le (rcs (conns s)) (rcs c')" and next': "p < heap_next (lib (rcs c'))"
    and d: "dir_entry_valid d"
    and refs: "conn_refs c' = conn_refs (conns s)"
    and room: "\<And>cp. dd_conn d = Some cp \<Longrightarrow> int (held s cp) < conn_refs (conns s) cp"
    and s': "s' = s\<lparr>conns := c', g_DdIDGen := n, dir_heap := (dir_heap s)(p \<mapsto> d), g_AssignedDir := g_AssignedDir s @ [p]\<rparr>"
  shows "fd_inv s'"
    and "held s' = (case dd_conn d of None \<Rightarrow> held s | Some cp \<Rightarrow> (held s)(cp := held s cp + 1))"
proof -
  have fresh: "p \<notin> dom (dir_heap s)" using inv p by (auto simp: fd_inv_def)
  then have notin: "p \<notin> set (g_AssignedDir s)" using inv by (simp add: fd_inv_def)
  have "filter (\<lambda>q. dir_conn_of s' q = Some x) (g_AssignedDir s)
      = filter (\<lambda>q. dir_conn_of s q = Some x) (g_AssignedDir s)" for x
    by (rule filter_cong) (use notin in \<open>auto simp: s' dir_conn_of_def\<close>)
  moreover have "dir_conn_of s' p = dd_conn d" by (simp add: s' dir_conn_of_def)
  moreover have "fd_conn_of s' = fd_conn_of s" by (simp add: s' fd_conn_of_def fun_eq_iff)
  ultimately show h: "held s' = (case dd_conn d of None \<Rightarrow> held s | Some cp \<Rightarrow> (held s)(cp := held s cp + 1))"
    by (auto simp: held_def fun_eq_iff s' split: option.split)
  have bound: "\<forall>q \<in> dom (fd_heap s) \<union> dom (dir_heap s). q < heap_next (lib (rcs c'))"
    using inv le unfolding fd_inv_def rc_le_def by (meson order.strict_trans2)
  have "\<forall>x. int (held s' x) \<le> conn_refs (conns s') x"
    using fd_inv_refs [OF inv] room unfolding h by (auto simp: s' refs split: option.split)
  moreover have "distinct (g_AssignedDir s')" "dom (dir_heap s') = set (g_AssignedDir s')"
    using inv notin by (auto simp: fd_inv_def s')
  moreover have "\<forall>q \<in> dom (fd_heap s') \<union> dom (dir_heap s'). q < heap_next (lib (rcs (conns s')))"
    using bound next' by (auto simp: s')
  moreover have "\<forall>q x. dir_heap s' q = Some x \<longrightarrow> dir_entry_valid x"
    using inv d by (auto simp: fd_inv_def s')
  ultimately show "fd_inv s'" using inv inv' by (simp add: fd_inv_def s')
qed

subsection \<open>The operations\<close>

lemma iFuseFdClose_ok:
  assumes inv: "fd_inv s" and d: "fd_heap s p = Some d" and cp: "fd_conn d = Some cp"
  shows "\<exists>s'. iFuseFdClose e p s = Some (0, s') \<and> fd_inv s' \<and> touch_ok (conns s) (conns s')
    \<and> held s' = (held s)(cp := held s cp - 1) \<and> 0 < held s cp \<and> fd_heap s' = (fd_heap s)(p := None)"
proof -
  have pos: "0 < fd_fd d" using inv d unfolding fd_inv_def by blast
  let ?s0 = "s\<lparr>g_AssignedFd := removeAll p (g_AssignedFd s)\<rparr>"
  have "fd_heap ?s0 p = Some d" using d by simp
  moreover have "x \<in> dom (conn_heap (conns ?s0))" if "fd_conn d = Some x" for x
    using fd_conn_alive [OF inv d] that by auto
  ultimately obtain status c' where
    run: "closeFd e p ?s0 = Some (status, ?s0\<lparr>conns := c', fd_heap := (fd_heap ?s0)(p \<mapsto>
      d\<lparr>fd_conn := None, fd_fd := 0, fd_openFlag := 0, fd_lastFilePointer := - 1, fd_lock := False\<rparr>)\<rparr>)"
    and t: "touch_ok (conns s) c'"
    using closeFd_nf [of ?s0 p d e] by auto
  let ?s' = "?s0\<lparr>conns := c', fd_heap := (fd_heap s)(p := None)\<rparr>"
  have "iFuseFdClose e p s = Some (0, ?s')"
    using d cp pos run by (simp add: iFuseFdClose_def freeFd_def)
  moreover note fd_inv_remove_fd [OF inv d cp t refl]
  ultimately show ?thesis using t by auto
qed

lemma iFuseDirClose_ok:
  assumes inv: "fd_inv s" and d: "dir_heap s p = Some d"
  shows "\<exists>s'. iFuseDirClose e p s = Some (0, s') \<and> fd_inv s' \<and> touch_ok (conns s) (conns s')
    \<and> held s' = (case dd_conn d of None \<Rightarrow> held s | Some cp \<Rightarrow> (held s)(cp := held s cp - 1))
    \<and> (\<forall>cp. dd_conn d = Some cp \<longrightarrow> 0 < held s cp) \<and> dir_heap s' = (dir_heap s)(p := None)"
proof -
  let ?s0 = "s\<lparr>g_AssignedDir := removeAll p (g_AssignedDir s)\<rparr>"
  have "dir_heap ?s0 p = Some d" using d by simp
  moreover have "x \<in> dom (conn_heap (conns ?s0))" if "dd_conn d = Some x" for x
    using dir_conn_alive [OF inv d that] by simp
  ultimately obtain status c' where
    run: "closeDir e p ?s0 = Some (status, ?s0\<lparr>conns := c', dir_heap := (dir_heap ?s0)(p \<mapsto>
      d\<lparr>dd_conn := None, dd_handle := None, dd_lock := False\<rparr>)\<rparr>)"
    and t: "touch_ok (conns s) c'"
    using closeDir_nf [of ?s0 p d e] by auto
  let ?s' = "?s0\<lparr>conns := c', dir_heap := (dir_heap s)(p := None)\<rparr>"
  have run': "iFuseDirClose e p s = Some (0, ?s')"
    using run by (simp add: iFuseDirClose_def freeDir_def)
  show ?thesis
  proof (cases "dd_conn d")
    case None
    with run' t fd_inv_remove_cached_dir [OF inv d None t refl] show ?thesis by auto
  next
    case (Some cp)
    with run' t fd_inv_remove_dir [OF inv d Some t refl] show ?thesis by auto
  qed
qed


lemma onLibF_malloc:
  assumes "onLibF (malloc_ptr e) s = (x, s')"
  shows "\<exists>r. s' = s\<lparr>conns := (conns s)\<lparr>rcs := r\<rparr>\<rparr> \<and> rc_le (rcs (conns s)) r
    \<and> (\<forall>p. x = Some p \<longrightarrow> p = heap_next (lib (rcs (conns s))) \<and> p < heap_next (lib r))"
proof -
  from onLibF_nf [OF assms] obtain r where r: "onLib (malloc_ptr e) (rcs (conns s)) = (x, r)"
    "s' = s\<lparr>conns := (conns s)\<lparr>rcs := r\<rparr>\<rparr>" by blast
  with rc_le_malloc [OF r(1)] onLib_mallocD [OF r(1)] show ?thesis by (auto split: option.splits)
qed

lemma onLibF_mem_ok:
  "onLibF (mem_ok e) s = (x, s') \<Longrightarrow> \<exists>r. s' = s\<lparr>conns := (conns s)\<lparr>rcs := r\<rparr>\<rparr> \<and> rc_le (rcs (conns s)) r"
  using onLibF_nf [of "mem_ok e" s x s'] rc_le_mem_ok by blast

text \<open>
  Opening: it fails with no descriptor, or registers one that holds the connection; the
  caller's reference to the connection becomes the descriptor's.
\<close>

definition open_ok :: "'w fd_state \<Rightarrow> nat \<Rightarrow> 'w fd_state \<Rightarrow> bool \<Rightarrow> bool" where
  "open_ok s cp s' opened \<longleftrightarrow> fd_inv s' \<and> conn_refs (conns s') = conn_refs (conns s)
     \<and> g_ConnIDGen (conns s') = g_ConnIDGen (conns s)
     \<and> held s' = (if opened then (held s)(cp := held s cp + 1) else held s)"

lemma open_ok_touch: "fd_inv s \<Longrightarrow> touch_ok (conns s) c \<Longrightarrow> open_ok s cp (s\<lparr>conns := c\<rparr>) False"
  using fd_inv_touch [of s c] touch_okD [of "conns s" c] by (simp add: open_ok_def)

lemma iFuseFdOpen_ok:
  assumes inv: "fd_inv s" and room: "int (held s cp) < conn_refs (conns s) cp"
    and conn: "assert_connected cp (conns s) = Some ()"
  shows "\<exists>status fd s'. iFuseFdOpen e cp path openFlag s = Some ((status, fd), s') \<and>
    (fd = None \<and> status \<in> {- ENOENT, SYS_MALLOC_ERR e} \<and> open_ok s cp s' False
     \<or> status = 0 \<and> (\<exists>p d. fd = Some p \<and> fd_heap s p = None \<and> fd_heap s' = (fd_heap s)(p \<mapsto> d)
          \<and> fd_conn d = Some cp \<and> fd_iRodsPath d = path \<and> fd_openFlag d = openFlag
          \<and> fd_lastFilePointer d = - 1 \<and> open_ok s cp s' True))"
proof -
  let ?call = "\<lambda>conn. iFuseRodsClientDataObjOpen e conn (rstrcpy e path (MAX_NAME_LEN e)) openFlag"
  note dom = assert_connected_dom [OF conn]
  have "\<exists>x c'. with_conn_lock cp (\<lambda>c. do { assert_connected cp c; call_retry e True (\<lambda>fd. fd \<le> 0) id ?call cp c })
      (conns s) = Some (x, c') \<and> touch_ok (conns s) c'"
  proof (rule with_conn_lock_live [OF dom])
    fix c1 assume c1: "conn_wrlock cp (conns s) = Some c1" and t1: "touch_ok (conns s) c1"
    have "\<exists>out c'. call_retry e True (\<lambda>fd. fd \<le> 0) id ?call cp c1 = Some (out, c') \<and> touch_ok c1 c'"
      by (rule call_retry_live [OF _ touch_ok_dom [OF t1 dom]]) (erule rc_wrapper_le)
    then show "\<exists>x c2. do { assert_connected cp c1; call_retry e True (\<lambda>fd. fd \<le> 0) id ?call cp c1 } = Some (x, c2)
        \<and> touch_ok c1 c2"
      using assert_connected_lock [OF c1] conn by simp
  qed
  then obtain out c' where run: "with_conn_lock cp (\<lambda>c. do { assert_connected cp c;
      call_retry e True (\<lambda>fd. fd \<le> 0) id ?call cp c }) (conns s) = Some (out, c')"
    and t: "touch_ok (conns s) c'" by blast
  let ?s1 = "s\<lparr>conns := c'\<rparr>"
  have oc: "onConn (with_conn_lock cp (\<lambda>c. do { assert_connected cp c;
      call_retry e True (\<lambda>fd. fd \<le> 0) id ?call cp c })) s = Some (out, ?s1)"
    using run by (rule onConn_nf)
  note fail = open_ok_touch [OF inv t, of cp]
  show ?thesis
  proof (cases out)
    case (Call_ok fd)
    obtain x s2 where m: "onLibF (malloc_ptr e) ?s1 = (x, s2)" by force
    from onLibF_malloc [OF m] obtain r where s2: "s2 = s\<lparr>conns := c'\<lparr>rcs := r\<rparr>\<rparr>" and le: "rc_le (rcs c') r"
      and x: "\<And>p. x = Some p \<Longrightarrow> p = heap_next (lib (rcs c')) \<and> p < heap_next (lib r)" by auto
    have t2: "touch_ok (conns s) (c'\<lparr>rcs := r\<rparr>)" using touch_ok_trans [OF t touch_ok_rcs [OF le]] .
    show ?thesis
    proof (cases x)
      case None
      then show ?thesis
        using run Call_ok m open_ok_touch [OF inv t2, of cp]
        by (simp add: iFuseFdOpen_def oc s2)
    next
      case (Some p)
      from with_conn_lock_fine [OF run] Call_ok obtain c1 c2 where
        "call_retry e True (\<lambda>fd. fd \<le> 0) id ?call cp c1 = Some (Call_ok fd, c2)" by auto
      from call_retry_fine [OF this] have pos: "0 < fd" by simp
      let ?d = "\<lparr>fd_fdId = g_FdIDGen s, fd_fd = fd, fd_conn = Some cp, fd_iRodsPath = path,
        fd_openFlag = openFlag, fd_lastFilePointer = - 1, fd_lock = False\<rparr>"
      let ?s' = "s\<lparr>conns := c'\<lparr>rcs := r\<rparr>, g_FdIDGen := g_FdIDGen s + 1, fd_heap := (fd_heap s)(p \<mapsto> ?d),
        g_AssignedFd := g_AssignedFd s @ [p]\<rparr>"
      have go: "iFuseFdOpen e cp path openFlag s = Some ((0, Some p), ?s')"
        using Call_ok m Some by (simp add: iFuseFdOpen_def oc s2 genNextFdID_def)
      have inv1: "fd_inv ?s1" using inv t by (rule fd_inv_touch)
      have "conn_inv (c'\<lparr>rcs := r\<rparr>)" using inv t2 touch_okD(1) by (auto simp: fd_inv_def)
      moreover have "int (held ?s1 cp) < conn_refs (conns ?s1) cp" using room touch_okD(4) [OF t] by simp
      moreover have "conn_refs (c'\<lparr>rcs := r\<rparr>) = conn_refs (conns ?s1)" by (simp add: conn_refs_def)
      ultimately have add: "fd_inv ?s'" "held ?s' = (held s)(cp := held s cp + 1)"
        using fd_inv_add_fd [of ?s1 p "c'\<lparr>rcs := r\<rparr>" ?d cp ?s' "g_FdIDGen s + 1"] inv1 x [OF Some] le pos by simp_all
      have "fd_heap s p = None" using inv1 x [OF Some] by (auto simp: fd_inv_def intro: ccontr)
      then show ?thesis
        using go add touch_okD(3,4) [OF t2] by (auto simp: open_ok_def)
    qed
  qed (use run fail in \<open>simp_all add: iFuseFdOpen_def oc\<close>)
qed


text \<open>
  Directories: \<open>_freeDir\<close> of a descriptor that was never registered undoes its allocation.
\<close>

lemma iFuseDirOpen_ok:
  assumes inv: "fd_inv s" and room: "int (held s cp) < conn_refs (conns s) cp"
    and conn: "assert_connected cp (conns s) = Some ()"
  shows "\<exists>status dir s'. iFuseDirOpen e cp path s = Some ((status, dir), s') \<and>
    (dir = None \<and> status \<in> {- ENOENT, SYS_MALLOC_ERR e} \<and> open_ok s cp s' False
     \<or> 0 \<le> status \<and> (\<exists>p d. dir = Some p \<and> dir_heap s p = None \<and> dir_heap s' = (dir_heap s)(p \<mapsto> d)
          \<and> dd_conn d = Some cp \<and> dd_iRodsPath d = path \<and> dd_cachedEntries d = None \<and> open_ok s cp s' True))"
proof -
  let ?call = "\<lambda>conn. iFuseRodsClientOpenCollection e conn path"
  let ?body = "\<lambda>c. do { assert_connected cp c; call_retry e False (\<lambda>(st, h). st < 0) fst ?call cp c }"
  note dom = assert_connected_dom [OF conn]
  have "\<exists>x c'. with_conn_lock cp ?body (conns s) = Some (x, c') \<and> touch_ok (conns s) c'"
  proof (rule with_conn_lock_live [OF dom])
    fix c1 assume c1: "conn_wrlock cp (conns s) = Some c1" and t1: "touch_ok (conns s) c1"
    have "\<exists>out c'. call_retry e False (\<lambda>(st, h). st < 0) fst ?call cp c1 = Some (out, c') \<and> touch_ok c1 c'"
      by (rule call_retry_live [OF _ touch_ok_dom [OF t1 dom]]) (erule rc_wrapper_le)
    then show "\<exists>x c2. ?body c1 = Some (x, c2) \<and> touch_ok c1 c2"
      using assert_connected_lock [OF c1] conn by simp
  qed
  then obtain out c' where run: "with_conn_lock cp ?body (conns s) = Some (out, c')"
    and t: "touch_ok (conns s) c'" by blast
  let ?s1 = "s\<lparr>conns := c'\<rparr>"
  have oc: "onConn (with_conn_lock cp ?body) s = Some (out, ?s1)" using run by (rule onConn_nf)
  note fail = open_ok_touch [OF inv t, of cp]
  show ?thesis
  proof (cases out)
    case (Call_ok sh)
    obtain status h where sh: "sh = (status, h)" by force
    from with_conn_lock_fine [OF run] Call_ok obtain c1 c2 where
      "call_retry e False (\<lambda>(st, h). st < 0) fst ?call cp c1 = Some (Call_ok sh, c2)" by auto
    from call_retry_fine [OF this] have pos: "0 \<le> status" by (simp add: sh)
    obtain x s2 where m: "onLibF (malloc_ptr e) ?s1 = (x, s2)" by force
    from onLibF_malloc [OF m] obtain r where s2: "s2 = s\<lparr>conns := c'\<lparr>rcs := r\<rparr>\<rparr>" and le: "rc_le (rcs c') r"
      and x: "\<And>p. x = Some p \<Longrightarrow> p = heap_next (lib (rcs c')) \<and> p < heap_next (lib r)" by auto
    have t2: "touch_ok (conns s) (c'\<lparr>rcs := r\<rparr>)" using touch_ok_trans [OF t touch_ok_rcs [OF le]] .
    show ?thesis
    proof (cases x)
      case None
      then show ?thesis
        using Call_ok sh m open_ok_touch [OF inv t2, of cp] by (simp add: iFuseDirOpen_def oc s2)
    next
      case (Some p)
      let ?s3 = "s\<lparr>conns := c'\<lparr>rcs := r\<rparr>, g_DdIDGen := g_DdIDGen s + 1\<rparr>"
      obtain ok s4 where hok: "onLibF (mem_ok e) ?s3 = (ok, s4)" by force
      from onLibF_mem_ok [OF hok] obtain r4 where
        s4': "s4 = ?s3\<lparr>conns := c'\<lparr>rcs := r4\<rparr>\<rparr>" and le4: "rc_le r r4" by auto
      have s4: "s4 = s\<lparr>conns := c'\<lparr>rcs := r4\<rparr>, g_DdIDGen := g_DdIDGen s + 1\<rparr>" by (simp add: s4')
      have t4: "touch_ok (conns s) (c'\<lparr>rcs := r4\<rparr>)"
        using touch_ok_trans [OF t touch_ok_rcs [OF rc_le_trans [OF le le4]]] .
      let ?d = "\<lparr>dd_ddId = g_DdIDGen s, dd_handle = None, dd_conn = Some cp, dd_iRodsPath = path,
        dd_cachedEntries = None, dd_cachedEntryBufferLen = 0, dd_lock = False\<rparr>"
      have inv1: "fd_inv ?s1" using inv t by (rule fd_inv_touch)
      have none: "dir_heap s p = None" using inv1 x [OF Some] by (auto simp: fd_inv_def intro: ccontr)
      show ?thesis
      proof (cases ok)
        case False
        let ?s5 = "s4\<lparr>dir_heap := (dir_heap s4)(p \<mapsto> ?d)\<rparr>"
        have "cp \<in> dom (conn_heap (conns ?s5))" using touch_okD(6) [OF t4] dom by (simp add: s4)
        then obtain st c6 where close: "closeDir e p ?s5 = Some (st, ?s5\<lparr>conns := c6, dir_heap :=
            (dir_heap ?s5)(p \<mapsto> ?d\<lparr>dd_conn := None, dd_handle := None, dd_lock := False\<rparr>)\<rparr>)"
          and t6: "touch_ok (conns ?s5) c6"
          using closeDir_nf [of ?s5 p ?d e] by auto
        let ?s' = "s\<lparr>conns := c6, g_DdIDGen := g_DdIDGen s + 1\<rparr>"
        have undo: "(dir_heap s)(p := None) = dir_heap s" using none by (simp add: fun_upd_idem)
        have "iFuseDirOpen e cp path s = Some ((SYS_MALLOC_ERR e, None), ?s')"
          using Call_ok sh m Some hok False close
          by (simp add: iFuseDirOpen_def oc s2 genNextDdID_def freeDir_def s4 undo)
        moreover have t6': "touch_ok (conns s) c6" using touch_ok_trans [OF t4] t6 by (simp add: s4)
        moreover have "open_ok s cp ?s' False"
          using open_ok_touch [OF inv t6', of cp] by (simp add: open_ok_def)
        ultimately show ?thesis by auto
      next
        case True
        let ?s' = "s\<lparr>conns := c'\<lparr>rcs := r4\<rparr>, g_DdIDGen := g_DdIDGen s + 1,
          dir_heap := (dir_heap s)(p \<mapsto> ?d\<lparr>dd_handle := Some h\<rparr>), g_AssignedDir := g_AssignedDir s @ [p]\<rparr>"
        have go: "iFuseDirOpen e cp path s = Some ((status, Some p), ?s')"
          using Call_ok sh m Some hok True by (simp add: iFuseDirOpen_def oc s2 genNextDdID_def s4)
        have "p < heap_next (lib r4)" using x [OF Some] le4 by (simp add: rc_le_def)
        moreover have "conn_inv (c'\<lparr>rcs := r4\<rparr>)" using inv t4 touch_okD(1) by (auto simp: fd_inv_def)
        moreover have "int (held ?s1 cp) < conn_refs (conns ?s1) cp" using room touch_okD(4) [OF t] by simp
        moreover have "conn_refs (c'\<lparr>rcs := r4\<rparr>) = conn_refs (conns ?s1)" by (simp add: conn_refs_def)
        moreover have "rc_le (rcs c') r4" using le le4 by (rule rc_le_trans)
        ultimately have add: "fd_inv ?s'" "held ?s' = (held s)(cp := held s cp + 1)"
          using fd_inv_add_dir [of ?s1 p "c'\<lparr>rcs := r4\<rparr>" "?d\<lparr>dd_handle := Some h\<rparr>" ?s' "g_DdIDGen s + 1"]
            inv1 x [OF Some] by (simp_all add: dir_entry_valid_def)
        then show ?thesis
          using go none pos touch_okD(3,4) [OF t4] by (auto simp: open_ok_def)
      qed
    qed
  qed (use fail in \<open>simp_all add: iFuseDirOpen_def oc\<close>)
qed

lemma iFuseDirOpenWithCache_ok:
  assumes inv: "fd_inv s"
  shows "\<exists>status dir s'. iFuseDirOpenWithCache e path es s = ((status, dir), s') \<and>
    (dir = None \<and> status = SYS_MALLOC_ERR e \<and> open_ok s cp s' False
     \<or> status = 0 \<and> (\<exists>p d. dir = Some p \<and> dir_heap s p = None \<and> dir_heap s' = (dir_heap s)(p \<mapsto> d)
          \<and> dd_conn d = None \<and> dd_iRodsPath d = path \<and> dd_cachedEntries d = Some es \<and> open_ok s cp s' False))"
proof -
  obtain x s1 where m: "onLibF (malloc_ptr e) s = (x, s1)" by force
  from onLibF_malloc [OF m] obtain r where s1: "s1 = s\<lparr>conns := (conns s)\<lparr>rcs := r\<rparr>\<rparr>" and le: "rc_le (rcs (conns s)) r"
    and x: "\<And>p. x = Some p \<Longrightarrow> p = heap_next (lib (rcs (conns s))) \<and> p < heap_next (lib r)" by auto
  note t1 = touch_ok_rcs [OF le]
  show ?thesis
  proof (cases x)
    case None
    then show ?thesis
      using m open_ok_touch [OF inv t1, of cp] by (simp add: iFuseDirOpenWithCache_def s1)
  next
    case (Some p)
    obtain ok s3 where hok: "onLibF (mem_ok e) (s1\<lparr>g_DdIDGen := g_DdIDGen s + 1\<rparr>) = (ok, s3)" by force
    from onLibF_mem_ok [OF hok] obtain r3 where
      s3': "s3 = (s1\<lparr>g_DdIDGen := g_DdIDGen s + 1\<rparr>)\<lparr>conns := (conns s)\<lparr>rcs := r3\<rparr>\<rparr>" and le3: "rc_le r r3"
      by (auto simp: s1)
    have s3: "s3 = s\<lparr>conns := (conns s)\<lparr>rcs := r3\<rparr>, g_DdIDGen := g_DdIDGen s + 1\<rparr>" by (simp add: s3' s1)
    have le': "rc_le (rcs (conns s)) r3" using le le3 by (rule rc_le_trans)
    note t3 = touch_ok_rcs [OF le']
    have none: "dir_heap s p = None" using inv x [OF Some] by (auto simp: fd_inv_def intro: ccontr)
    show ?thesis
    proof (cases ok)
      case False
      have "open_ok s cp (s\<lparr>conns := (conns s)\<lparr>rcs := r3\<rparr>, g_DdIDGen := g_DdIDGen s + 1\<rparr>) False"
        using open_ok_touch [OF inv t3, of cp] by (simp add: open_ok_def)
      then show ?thesis
        using m Some hok False s1 s3 by (simp add: iFuseDirOpenWithCache_def genNextDdID_def)
    next
      case True
      let ?d = "\<lparr>dd_ddId = g_DdIDGen s, dd_handle = None, dd_conn = None, dd_iRodsPath = path,
        dd_cachedEntries = Some es, dd_cachedEntryBufferLen = length es, dd_lock = False\<rparr>"
      let ?s' = "s\<lparr>conns := (conns s)\<lparr>rcs := r3\<rparr>, g_DdIDGen := g_DdIDGen s + 1,
        dir_heap := (dir_heap s)(p \<mapsto> ?d), g_AssignedDir := g_AssignedDir s @ [p]\<rparr>"
      have "p < heap_next (lib r3)" using x [OF Some] le3 by (simp add: rc_le_def)
      then have "fd_inv ?s'" "held ?s' = held s"
        using fd_inv_add_dir [of s p "(conns s)\<lparr>rcs := r3\<rparr>" ?d ?s' "g_DdIDGen s + 1"] inv x [OF Some] le'
          touch_okD(1) [OF t3] by (simp_all add: dir_entry_valid_def fd_inv_def conn_refs_def)
      then show ?thesis
        using m Some hok True s1 s3 none touch_okD(3,4) [OF t3]
        by (auto simp: iFuseDirOpenWithCache_def genNextDdID_def open_ok_def intro!: exI [of _ ?d])
    qed
  qed
qed


text \<open>
  Reopening keeps the descriptor on its connection; a failure leaves it with its old number
  (and, after a close that worked, without a file pointer).
\<close>

lemma reopen_locked_touch:
  assumes "cp \<in> dom (conn_heap c)" and "reopen_locked e cp d c = Some ((status, fd), c')"
  shows "touch_ok c c' \<and> (\<forall>n. fd = Some n \<longrightarrow> 0 \<le> n)"
proof -
  let ?close = "\<lambda>conn. iFuseRodsClientDataObjClose e conn (fd_fd d)"
  have "\<exists>out c1. call_retry e True (\<lambda>st. st < 0) id ?close cp c = Some (out, c1) \<and> touch_ok c c1"
    by (rule call_retry_live [OF _ assms(1)]) (erule rc_wrapper_le)
  then obtain out c1 where c1: "call_retry e True (\<lambda>st. st < 0) id ?close cp c = Some (out, c1)"
      and t1: "touch_ok c c1" by blast
  have d1: "cp \<in> dom (conn_heap c1)" using touch_ok_dom [OF t1 assms(1)] .
  let ?open = "\<lambda>conn. iFuseRodsClientDataObjOpen e conn (rstrcpy e (fd_iRodsPath d) (MAX_NAME_LEN e)) (fd_openFlag d)"
  have "\<exists>out c2. call_retry e True (\<lambda>fd. fd \<le> 0) id ?open cp c1 = Some (out, c2) \<and> touch_ok c1 c2"
    by (rule call_retry_live [OF _ d1]) (erule rc_wrapper_le)
  then obtain out2 c2 where c2: "call_retry e True (\<lambda>fd. fd \<le> 0) id ?open cp c1 = Some (out2, c2)"
      and t2: "touch_ok c1 c2" by blast
  have t12: "touch_ok c c2" using t1 t2 by (rule touch_ok_trans)
  show ?thesis
  proof (cases "result out < 0")
    case True
    then show ?thesis using assms(2) c1 t1 by (simp add: reopen_locked_def)
  next
    case False
    show ?thesis
    proof (cases out2)
      case (Call_ok n)
      from call_retry_fine [OF c2 [unfolded Call_ok]] have "0 < n" by simp
      then show ?thesis using False assms(2) c1 c2 t12 Call_ok by (auto simp: reopen_locked_def)
    qed (use False assms(2) c1 c2 t12 in \<open>auto simp: reopen_locked_def\<close>)
  qed
qed

lemma iFuseFdReopen_ok:
  assumes inv: "fd_inv s" and d: "fd_heap s p = Some d" and run: "iFuseFdReopen e p s = Some (status, s')"
  shows "fd_inv s' \<and> held s' = held s \<and> touch_ok (conns s) (conns s') \<and> dom (fd_heap s') = dom (fd_heap s)
    \<and> dir_heap s' = dir_heap s
    \<and> (\<exists>d'. fd_heap s' p = Some d' \<and> fd_conn d' = fd_conn d \<and> fd_iRodsPath d' = fd_iRodsPath d)"
proof -
  obtain cp where cp: "fd_conn d = Some cp" "cp \<in> dom (conn_heap (conns s))" using fd_conn_alive [OF inv d] by blast
  have pos: "0 < fd_fd d" using inv d unfolding fd_inv_def by blast
  let ?d1 = "d\<lparr>fd_lock := True\<rparr>"
  let ?s1 = "s\<lparr>fd_heap := (fd_heap s)(p \<mapsto> ?d1)\<rparr>"
  have inv1: "fd_inv ?s1" using fd_inv_update_fd [OF inv d] pos by simp
  from run d cp pos obtain st fd c2 where body: "with_conn_lock cp (reopen_locked e cp d) (conns s) = Some ((st, fd), c2)"
    and rest: "do { s3 \<leftarrow> (case fd of None \<Rightarrow> Some (?s1\<lparr>conns := c2\<rparr>)
                | Some n \<Rightarrow> update_fd p (\<lambda>d. d\<lparr>fd_lastFilePointer := - 1, fd_fd := (if n > 0 then n else fd_fd d)\<rparr>)
                     (?s1\<lparr>conns := c2\<rparr>));
                s4 \<leftarrow> iFuseFdUnlock p s3; Some (st, s4) } = Some (status, s')"
    by (auto simp: iFuseFdReopen_def iFuseFdLock_def update_fd_def onConn_def)
  have t: "touch_ok (conns s) c2" and fd: "\<forall>n. fd = Some n \<longrightarrow> 0 \<le> n"
  proof -
    from body obtain c1 c3 where lk: "conn_wrlock cp (conns s) = Some c1"
      "reopen_locked e cp d c1 = Some ((st, fd), c3)" "conn_unlock cp c3 = Some c2"
      by (auto simp: with_conn_lock_def iFuseConnLock_def iFuseConnUnlock_def)
    note t1 = touch_ok_lock(1) [OF lk(1)] and t3 = touch_ok_lock(2) [OF lk(3)]
    from reopen_locked_touch [OF touch_ok_dom [OF t1 cp(2)] lk(2)] t1 t3
    show "touch_ok (conns s) c2" "\<forall>n. fd = Some n \<longrightarrow> 0 \<le> n" by (blast intro: touch_ok_trans)+
  qed
  have inv2: "fd_inv (?s1\<lparr>conns := c2\<rparr>)" using fd_inv_touch [OF inv1] t by simp
  from rest obtain d' where d': "s' = (?s1\<lparr>conns := c2\<rparr>)\<lparr>fd_heap := (fd_heap s)(p \<mapsto> d')\<rparr>"
    "fd_conn d' = fd_conn d" "fd_iRodsPath d' = fd_iRodsPath d" "0 < fd_fd d'"
    using pos fd by (auto simp: iFuseFdUnlock_def update_fd_def split: option.splits)
  have "fd_heap (?s1\<lparr>conns := c2\<rparr>) p = Some ?d1" by simp
  from fd_inv_update_fd [OF inv2 this, of d'] d'(2,4) have "fd_inv s'" by (simp add: d'(1))
  moreover have "held s' = held s"
    using held_update_fd [OF d, of d'] d'(2)
    by (simp add: d'(1) held_def fd_conn_of_def dir_conn_of_def fun_eq_iff)
  ultimately show ?thesis using t d d' by auto
qed

end
