(* ===== verification/IFuse_MetadataCache.thy ===== *)
theory IFuse_MetadataCache
  imports IFuse_Lib IFuse_Util
begin

text \<open>
  \<open>iFuse.Lib.MetadataCache.cpp\<close>: the stat cache, from a path to a \<open>struct stat\<close>, and the
  directory cache, from a path to the names it lists, both with the time they were made.
  A cache entry is owned by its map alone, so freeing one is dropping it. The maps hold
  pointers that the code tests for NULL, so their values are options. The operations take
  the library state for the clock and the allocator beside the state of the caches.
\<close>

record stat =
  st_mode :: "32 word"
  st_size :: int
  st_blksize :: int
  st_blocks :: int
  st_nlink :: int
  st_ino :: "32 word"
  st_ctime :: "32 word"
  st_mtime :: "32 word"
  st_atime :: "32 word"
  st_uid :: int
  st_gid :: int

record iFuseStatCache =
  sc_iRodsPath :: "string option"
  sc_stbuf :: "stat option"
  sc_timestamp :: int

record iFuseDirCache =
  dc_iRodsPath :: "string option"
  dc_entries :: "string list"
  dc_timestamp :: int

record mc_state =
  g_StatCacheMap :: "(string, iFuseStatCache option) stdmap"
  g_DirCacheMap :: "(string, iFuseDirCache option) stdmap"
  g_metadataCacheTimeoutSec :: int
  g_LastStatCacheTimeoutCheck :: int
  g_LastDirCacheTimeoutCheck :: int

type_synonym 'w mcs = "'w lib_state \<times> mc_state"

definition IFUSE_METADATA_CACHE_TIMEOUT_SEC :: int where
  "IFUSE_METADATA_CACHE_TIMEOUT_SEC = 3 * 60"

section \<open>Allocating and freeing entries\<close>

definition newStatCache :: "'w ext \<Rightarrow> 'w lib_state \<Rightarrow> (int \<times> iFuseStatCache option) \<times> 'w lib_state" where
  "newStatCache e l =
     (let (ok, l1) = mem_ok e l
      in if \<not> ok then ((SYS_MALLOC_ERR e, None), l1)
         else let (now, l2) = iFuseLibGetCurrentTime e l1
              in ((0, Some \<lparr>sc_iRodsPath = None, sc_stbuf = None, sc_timestamp = now\<rparr>), l2))"

text \<open>\<open>new\<close> throws rather than return NULL, so the second NULL test is never true.\<close>

definition newDirCache :: "'w ext \<Rightarrow> 'w lib_state \<Rightarrow> (int \<times> iFuseDirCache option) \<times> 'w lib_state" where
  "newDirCache e l =
     (let (ok, l1) = mem_ok e l
      in if \<not> ok then ((SYS_MALLOC_ERR e, None), l1)
         else let (now, l2) = iFuseLibGetCurrentTime e l1
              in ((0, Some \<lparr>dc_iRodsPath = None, dc_entries = [], dc_timestamp = now\<rparr>), l2))"

definition freeStatCache :: "iFuseStatCache option \<Rightarrow> unit option" where
  "freeStatCache sc = (if sc = None then None else Some ())"

definition freeDirCache :: "iFuseDirCache option \<Rightarrow> unit option" where
  "freeDirCache dc = (if dc = None then None else Some ())"

section \<open>Filling the caches\<close>

definition cacheStat :: "'w ext \<Rightarrow> string \<Rightarrow> stat \<Rightarrow> 'w mcs \<Rightarrow> (int \<times> 'w mcs) option" where
  "cacheStat e iRodsPath stbuf s =
     (let (l, m) = s in
      case newStatCache e l of
        ((status, None), l1) \<Rightarrow> Some (status, (l1, m))
      | ((status, Some sc), l1) \<Rightarrow>
          let (path_ok, l2) = mem_ok e l1 in
          if \<not> path_ok then Some (SYS_MALLOC_ERR e, (l2, m))
          else let (buf_ok, l3) = mem_ok e l2 in
          if \<not> buf_ok then Some (SYS_MALLOC_ERR e, (l3, m))
          else let sc' = sc\<lparr>sc_iRodsPath := Some iRodsPath, sc_stbuf := Some stbuf\<rparr> in
          do { tbl \<leftarrow> (case map_find (g_StatCacheMap m) iRodsPath of
                         Some old \<Rightarrow> do { freeStatCache old;
                                          Some (map_erase iRodsPath (g_StatCacheMap m)) }
                       | None \<Rightarrow> Some (g_StatCacheMap m));
               Some (0, (l3, m\<lparr>g_StatCacheMap := map_insert iRodsPath (Some sc') tbl\<rparr>)) })"

text \<open>An entry for the directory is created when there is none; the name is appended to it.\<close>

definition dir_cache_for ::
    "'w ext \<Rightarrow> string \<Rightarrow> 'w mcs \<Rightarrow> (int \<times> iFuseDirCache option) \<times> 'w mcs" where
  "dir_cache_for e iRodsPath s =
     (let (l, m) = s in
      case map_find (g_DirCacheMap m) iRodsPath of
        Some (Some dc) \<Rightarrow> ((0, Some dc), s)
      | found \<Rightarrow>
          let m1 = (if found = None then m
                    else m\<lparr>g_DirCacheMap := map_erase iRodsPath (g_DirCacheMap m)\<rparr>) in
          case newDirCache e l of
            ((status, None), l1) \<Rightarrow> ((status, None), (l1, m1))
          | ((status, Some dc), l1) \<Rightarrow>
              let (path_ok, l2) = mem_ok e l1 in
              if \<not> path_ok then ((SYS_MALLOC_ERR e, None), (l2, m1))
              else let dc' = dc\<lparr>dc_iRodsPath := Some iRodsPath\<rparr> in
                ((0, Some dc'),
                 (l2, m1\<lparr>g_DirCacheMap := map_insert iRodsPath (Some dc') (g_DirCacheMap m1)\<rparr>)))"

definition cacheDirEntry :: "'w ext \<Rightarrow> string \<Rightarrow> string \<Rightarrow> 'w mcs \<Rightarrow> int \<times> 'w mcs" where
  "cacheDirEntry e iRodsPath iRodsFilename s =
     (case dir_cache_for e iRodsPath s of
        ((status, None), s1) \<Rightarrow> (status, s1)
      | ((_, Some dc), (l1, m1)) \<Rightarrow>
          let (name_ok, l2) = mem_ok e l1 in
          if \<not> name_ok then (SYS_MALLOC_ERR e, (l2, m1))
          else (0, (l2, m1\<lparr>g_DirCacheMap :=
                  map_insert iRodsPath (Some (dc\<lparr>dc_entries := dc_entries dc @ [iRodsFilename]\<rparr>))
                    (g_DirCacheMap m1)\<rparr>)))"

section \<open>Reading the caches\<close>

text \<open>The status, and what was copied to \<open>stbuf\<close>; copying from a NULL \<open>stbuf\<close> is undefined.\<close>

definition getStatCache :: "'w ext \<Rightarrow> string \<Rightarrow> 'w mcs \<Rightarrow> ((int \<times> stat option) \<times> 'w mcs) option" where
  "getStatCache e iRodsPath s =
     (let (l, m) = s in
      case map_find (g_StatCacheMap m) iRodsPath of
        Some (Some sc) \<Rightarrow>
          let (now, l1) = iFuseLibGetCurrentTime e l in
          if iFuseLibDiffTimeSec now (sc_timestamp sc) \<le> g_metadataCacheTimeoutSec m
          then do { st \<leftarrow> sc_stbuf sc; Some ((0, Some st), (l1, m)) }
          else Some ((- ENOENT, None), (l1, m))
      | _ \<Rightarrow> Some ((- ENOENT, None), s))"

text \<open>
  The listing is copied into one buffer, each name followed by its terminator; an empty
  listing is one zero byte. \<open>copy_entries\<close> is the copying loop, \<open>p\<close> its write pointer.
\<close>

fun copy_entries :: "string list \<Rightarrow> nat \<Rightarrow> bytes \<Rightarrow> bytes option" where
  "copy_entries [] p buf = Some buf"
| "copy_entries (n # ns) p buf =
     do { buf1 \<leftarrow> memcpy buf p n;
          buf2 \<leftarrow> memcpy buf1 (p + length n) [NUL];
          copy_entries ns (p + length n + 1) buf2 }"

definition entries_buffer_len :: "string list \<Rightarrow> nat" where
  "entries_buffer_len ns =
     (let len = sum_list (map (\<lambda>n. length n + 1) ns) in if len = 0 then 1 else len)"

definition getDirCache :: "'w ext \<Rightarrow> string \<Rightarrow> 'w mcs \<Rightarrow> ((int \<times> bytes option) \<times> 'w mcs) option" where
  "getDirCache e iRodsPath s =
     (let (l, m) = s in
      case map_find (g_DirCacheMap m) iRodsPath of
        Some (Some dc) \<Rightarrow>
          let (now, l1) = iFuseLibGetCurrentTime e l in
          if iFuseLibDiffTimeSec now (dc_timestamp dc) \<le> g_metadataCacheTimeoutSec m
          then let (buf_ok, l2) = mem_ok e l1 in
               if \<not> buf_ok then Some ((SYS_MALLOC_ERR e, None), (l2, m))
               else do { buf \<leftarrow> copy_entries (dc_entries dc) 0 (zeros (entries_buffer_len (dc_entries dc)));
                         Some ((0, Some buf), (l2, m)) }
          else Some ((- ENOENT, None), (l1, m))
      | _ \<Rightarrow> Some ((- ENOENT, None), s))"

definition checkFreshessOfDirCache :: "'w ext \<Rightarrow> string \<Rightarrow> 'w mcs \<Rightarrow> int \<times> 'w mcs" where
  "checkFreshessOfDirCache e iRodsPath s =
     (let (l, m) = s in
      case map_find (g_DirCacheMap m) iRodsPath of
        Some (Some dc) \<Rightarrow>
          let (now, l1) = iFuseLibGetCurrentTime e l in
          (if iFuseLibDiffTimeSec now (dc_timestamp dc) \<le> g_metadataCacheTimeoutSec m
           then 0 else - ENOENT, (l1, m))
      | _ \<Rightarrow> (- ENOENT, s))"

definition checkExistanceOfDirCacheEntry :: "string \<Rightarrow> string \<Rightarrow> mc_state \<Rightarrow> int" where
  "checkExistanceOfDirCacheEntry iRodsPath iRodsFilename m =
     (case map_find (g_DirCacheMap m) iRodsPath of
        Some (Some dc) \<Rightarrow> if iRodsFilename \<in> set (dc_entries dc) then 0 else 1
      | _ \<Rightarrow> - ENOENT)"

section \<open>Removing from the caches\<close>

definition removeStatCache :: "string \<Rightarrow> mc_state \<Rightarrow> int \<times> mc_state" where
  "removeStatCache iRodsPath m =
     (0, m\<lparr>g_StatCacheMap := map_erase iRodsPath (g_StatCacheMap m)\<rparr>)"

definition removeDirCache :: "string \<Rightarrow> mc_state \<Rightarrow> int \<times> mc_state" where
  "removeDirCache iRodsPath m =
     (0, m\<lparr>g_DirCacheMap := map_erase iRodsPath (g_DirCacheMap m)\<rparr>)"

text \<open>Only the first occurrence of the name goes.\<close>

definition removeDirCacheEntry :: "string \<Rightarrow> string \<Rightarrow> mc_state \<Rightarrow> int \<times> mc_state" where
  "removeDirCacheEntry iRodsPath iRodsFilename m =
     (case map_find (g_DirCacheMap m) iRodsPath of
        Some (Some dc) \<Rightarrow>
          if iRodsFilename \<in> set (dc_entries dc)
          then (0, m\<lparr>g_DirCacheMap :=
                  map_insert iRodsPath (Some (dc\<lparr>dc_entries := remove1 iRodsFilename (dc_entries dc)\<rparr>))
                    (g_DirCacheMap m)\<rparr>)
          else (- ENOENT, m)
      | Some None \<Rightarrow> (- ENOENT, m\<lparr>g_DirCacheMap := map_erase iRodsPath (g_DirCacheMap m)\<rparr>)
      | None \<Rightarrow> (- ENOENT, m))"

text \<open>
  The sweep: a first loop collects the keys of the expired entries, reading the clock anew for
  each one, the next erases them. \<open>stamp_of\<close> is the entry's time, the one field it looks at.
\<close>

fun expired_keys ::
    "'w ext \<Rightarrow> ('c \<Rightarrow> int) \<Rightarrow> int \<Rightarrow> (string, 'c option) stdmap \<Rightarrow> 'w lib_state \<Rightarrow> string list \<times> 'w lib_state" where
  "expired_keys e stamp_of limit [] l = ([], l)"
| "expired_keys e stamp_of limit ((key, None) # m) l =
     (let (ks, l1) = expired_keys e stamp_of limit m l in (key # ks, l1))"
| "expired_keys e stamp_of limit ((key, Some c) # m) l =
     (let (now, l1) = iFuseLibGetCurrentTime e l;
          (ks, l2) = expired_keys e stamp_of limit m l1
      in (if iFuseLibDiffTimeSec now (stamp_of c) > limit then key # ks else ks, l2))"

definition clearExpiredStatCache :: "'w ext \<Rightarrow> 'w mcs \<Rightarrow> int \<times> 'w mcs" where
  "clearExpiredStatCache e s =
     (let (l, m) = s;
          (keys, l1) = expired_keys e sc_timestamp (g_metadataCacheTimeoutSec m) (g_StatCacheMap m) l
      in (0, (l1, m\<lparr>g_StatCacheMap := fold map_erase keys (g_StatCacheMap m)\<rparr>)))"

definition clearExpiredDirCache :: "'w ext \<Rightarrow> 'w mcs \<Rightarrow> int \<times> 'w mcs" where
  "clearExpiredDirCache e s =
     (let (l, m) = s;
          (keys, l1) = expired_keys e dc_timestamp (g_metadataCacheTimeoutSec m) (g_DirCacheMap m) l
      in (0, (l1, m\<lparr>g_DirCacheMap := fold map_erase keys (g_DirCacheMap m)\<rparr>)))"

definition releaseAllCache :: "mc_state \<Rightarrow> int \<times> mc_state" where
  "releaseAllCache m = (0, m\<lparr>g_StatCacheMap := [], g_DirCacheMap := []\<rparr>)"

section \<open>The interface\<close>

definition iFuseMetadataCacheInit :: "'w mcs \<Rightarrow> 'w mcs" where
  "iFuseMetadataCacheInit s =
     (let (l, m) = s; opt = iFuseLibGetOption l
      in if opt_metadataCacheTimeoutSec opt > 0
         then (l, m\<lparr>g_metadataCacheTimeoutSec := opt_metadataCacheTimeoutSec opt\<rparr>) else s)"

definition iFuseMetadataCacheDestroy :: "mc_state \<Rightarrow> mc_state" where
  "iFuseMetadataCacheDestroy m = snd (releaseAllCache m)"

definition iFuseMetadataCacheClear :: "mc_state \<Rightarrow> mc_state" where
  "iFuseMetadataCacheClear m = snd (releaseAllCache m)"

definition iFuseMetadataCacheClearExpiredStat :: "'w ext \<Rightarrow> bool \<Rightarrow> 'w mcs \<Rightarrow> int \<times> 'w mcs" where
  "iFuseMetadataCacheClearExpiredStat e force s =
     (let (l, m) = s;
          (early, s1) =
            (if \<not> force
             then let (now, l1) = iFuseLibGetCurrentTime e l
                  in (iFuseLibDiffTimeSec now (g_LastStatCacheTimeoutCheck m)
                        \<le> c_div (g_metadataCacheTimeoutSec m) 2, (l1, m))
             else (False, s))
      in if early then (0, s1)
         else let (status, (l2, m2)) = clearExpiredStatCache e s1;
                  (now, l3) = iFuseLibGetCurrentTime e l2
              in (status, (l3, m2\<lparr>g_LastStatCacheTimeoutCheck := now\<rparr>)))"

definition iFuseMetadataCacheClearExpiredDir :: "'w ext \<Rightarrow> bool \<Rightarrow> 'w mcs \<Rightarrow> int \<times> 'w mcs" where
  "iFuseMetadataCacheClearExpiredDir e force s =
     (let (l, m) = s;
          (early, s1) =
            (if \<not> force
             then let (now, l1) = iFuseLibGetCurrentTime e l
                  in (iFuseLibDiffTimeSec now (g_LastDirCacheTimeoutCheck m)
                        \<le> c_div (g_metadataCacheTimeoutSec m) 2, (l1, m))
             else (False, s))
      in if early then (0, s1)
         else let (status, (l2, m2)) = clearExpiredDirCache e s1;
                  (now, l3) = iFuseLibGetCurrentTime e l2
              in (status, (l3, m2\<lparr>g_LastDirCacheTimeoutCheck := now\<rparr>)))"

definition iFuseMetadataCachePutStat :: "'w ext \<Rightarrow> string \<Rightarrow> stat \<Rightarrow> 'w mcs \<Rightarrow> (int \<times> 'w mcs) option" where
  "iFuseMetadataCachePutStat e iRodsPath stbuf = cacheStat e iRodsPath stbuf"

definition iFuseMetadataCachePutStat2 ::
    "'w ext \<Rightarrow> string \<Rightarrow> string \<Rightarrow> stat \<Rightarrow> 'w mcs \<Rightarrow> (int \<times> 'w mcs) option" where
  "iFuseMetadataCachePutStat2 e iRodsDirPath iRodsFilename stbuf s =
     do { joined \<leftarrow> iFuseLibJoinPath e iRodsDirPath iRodsFilename (MAX_NAME_LEN e);
          (case joined of
             (status, Some path) \<Rightarrow> if status \<noteq> 0 then Some (status, s) else cacheStat e path stbuf s
           | (status, None) \<Rightarrow> Some (status, s)) }"

definition iFuseMetadataCacheAddDirEntry :: "'w ext \<Rightarrow> string \<Rightarrow> string \<Rightarrow> 'w mcs \<Rightarrow> int \<times> 'w mcs" where
  "iFuseMetadataCacheAddDirEntry e iRodsPath iRodsFilename = cacheDirEntry e iRodsPath iRodsFilename"

definition iFuseMetadataCacheAddDirEntryIfFresh ::
    "'w ext \<Rightarrow> string \<Rightarrow> string \<Rightarrow> 'w mcs \<Rightarrow> int \<times> 'w mcs" where
  "iFuseMetadataCacheAddDirEntryIfFresh e iRodsPath iRodsFilename s =
     (let (status, s1) = checkFreshessOfDirCache e iRodsPath s
      in if status \<noteq> 0 then (status, s1) else cacheDirEntry e iRodsPath iRodsFilename s1)"

definition iFuseMetadataCacheAddDirEntryIfFresh2 :: "'w ext \<Rightarrow> string \<Rightarrow> 'w mcs \<Rightarrow> int \<times> 'w mcs" where
  "iFuseMetadataCacheAddDirEntryIfFresh2 e iRodsPath s =
     (case iFuseLibSplitPath e iRodsPath (MAX_NAME_LEN e) (MAX_NAME_LEN e) of
        (status, None) \<Rightarrow> (status, s)
      | (status, Some (myDir, myEntry)) \<Rightarrow>
          if status \<noteq> 0 then (status, s)
          else let (status, s1) = checkFreshessOfDirCache e myDir s
               in if status \<noteq> 0 then (status, s1) else cacheDirEntry e myDir myEntry s1)"

definition iFuseMetadataCacheGetStat ::
    "'w ext \<Rightarrow> string \<Rightarrow> 'w mcs \<Rightarrow> ((int \<times> stat option) \<times> 'w mcs) option" where
  "iFuseMetadataCacheGetStat e iRodsPath = getStatCache e iRodsPath"

definition iFuseMetadataCacheGetDirEntry ::
    "'w ext \<Rightarrow> string \<Rightarrow> 'w mcs \<Rightarrow> ((int \<times> bytes option) \<times> 'w mcs) option" where
  "iFuseMetadataCacheGetDirEntry e iRodsPath = getDirCache e iRodsPath"

definition iFuseMetadataCacheCheckExistanceOfDirEntry :: "'w ext \<Rightarrow> string \<Rightarrow> mc_state \<Rightarrow> int" where
  "iFuseMetadataCacheCheckExistanceOfDirEntry e iRodsPath m =
     (case iFuseLibSplitPath e iRodsPath (MAX_NAME_LEN e) (MAX_NAME_LEN e) of
        (status, None) \<Rightarrow> status
      | (status, Some (myDir, myEntry)) \<Rightarrow>
          if status \<noteq> 0 then status else checkExistanceOfDirCacheEntry myDir myEntry m)"

definition iFuseMetadataCacheRemoveStat :: "string \<Rightarrow> mc_state \<Rightarrow> int \<times> mc_state" where
  "iFuseMetadataCacheRemoveStat iRodsPath = removeStatCache iRodsPath"

definition iFuseMetadataCacheRemoveDir :: "string \<Rightarrow> mc_state \<Rightarrow> int \<times> mc_state" where
  "iFuseMetadataCacheRemoveDir iRodsPath = removeDirCache iRodsPath"

definition iFuseMetadataCacheRemoveDirEntry :: "string \<Rightarrow> string \<Rightarrow> mc_state \<Rightarrow> int \<times> mc_state" where
  "iFuseMetadataCacheRemoveDirEntry iRodsPath iRodsFilename = removeDirCacheEntry iRodsPath iRodsFilename"

definition iFuseMetadataCacheRemoveDirEntry2 :: "'w ext \<Rightarrow> string \<Rightarrow> mc_state \<Rightarrow> int \<times> mc_state" where
  "iFuseMetadataCacheRemoveDirEntry2 e iRodsPath m =
     (case iFuseLibSplitPath e iRodsPath (MAX_NAME_LEN e) (MAX_NAME_LEN e) of
        (status, None) \<Rightarrow> (status, m)
      | (status, Some (myDir, myEntry)) \<Rightarrow>
          if status \<noteq> 0 then (status, m) else removeDirCacheEntry myDir myEntry m)"


section \<open>The invariant of the caches\<close>

text \<open>
  The keys are sorted and unique, no entry is NULL, each entry records the path it is stored
  under and a stat entry has its \<open>stbuf\<close>.
\<close>

definition stat_entry_ok :: "string \<Rightarrow> iFuseStatCache option \<Rightarrow> bool" where
  "stat_entry_ok k v = (case v of None \<Rightarrow> False
     | Some sc \<Rightarrow> sc_iRodsPath sc = Some k \<and> sc_stbuf sc \<noteq> None)"

definition dir_entry_ok :: "string \<Rightarrow> iFuseDirCache option \<Rightarrow> bool" where
  "dir_entry_ok k v = (case v of None \<Rightarrow> False | Some dc \<Rightarrow> dc_iRodsPath dc = Some k)"

definition mc_ok :: "mc_state \<Rightarrow> bool" where
  "mc_ok m \<longleftrightarrow> map_ok (g_StatCacheMap m) \<and> map_ok (g_DirCacheMap m)
     \<and> (\<forall>k v. map_find (g_StatCacheMap m) k = Some v \<longrightarrow> stat_entry_ok k v)
     \<and> (\<forall>k v. map_find (g_DirCacheMap m) k = Some v \<longrightarrow> dir_entry_ok k v)"

lemma mc_ok_maps:
  "mc_ok m \<Longrightarrow> map_ok (g_StatCacheMap m)" "mc_ok m \<Longrightarrow> map_ok (g_DirCacheMap m)"
  by (simp_all add: mc_ok_def)

lemma mc_ok_stat:
  "mc_ok m \<Longrightarrow> map_find (g_StatCacheMap m) k = Some v \<Longrightarrow>
     \<exists>sc st. v = Some sc \<and> sc_iRodsPath sc = Some k \<and> sc_stbuf sc = Some st"
  unfolding mc_ok_def stat_entry_ok_def by (fastforce split: option.splits)

lemma mc_ok_dir:
  "mc_ok m \<Longrightarrow> map_find (g_DirCacheMap m) k = Some v \<Longrightarrow>
     \<exists>dc. v = Some dc \<and> dc_iRodsPath dc = Some k"
  unfolding mc_ok_def dir_entry_ok_def by (fastforce split: option.splits)

lemma mc_ok_empty: "g_StatCacheMap m = [] \<Longrightarrow> g_DirCacheMap m = [] \<Longrightarrow> mc_ok m"
  by (simp add: mc_ok_def)

lemma mc_ok_stat_insert:
  "mc_ok m \<Longrightarrow> stat_entry_ok k v \<Longrightarrow>
     mc_ok (m\<lparr>g_StatCacheMap := map_insert k v (g_StatCacheMap m)\<rparr>)"
  by (simp add: mc_ok_def)

lemma mc_ok_dir_insert:
  "mc_ok m \<Longrightarrow> dir_entry_ok k v \<Longrightarrow>
     mc_ok (m\<lparr>g_DirCacheMap := map_insert k v (g_DirCacheMap m)\<rparr>)"
  by (simp add: mc_ok_def)

lemma mc_ok_stat_erase:
  "mc_ok m \<Longrightarrow> mc_ok (m\<lparr>g_StatCacheMap := map_erase k (g_StatCacheMap m)\<rparr>)"
  by (simp add: mc_ok_def find_map_erase)

lemma mc_ok_dir_erase:
  "mc_ok m \<Longrightarrow> mc_ok (m\<lparr>g_DirCacheMap := map_erase k (g_DirCacheMap m)\<rparr>)"
  by (simp add: mc_ok_def find_map_erase)

lemma mc_ok_erase_all:
  "mc_ok m \<Longrightarrow> mc_ok (m\<lparr>g_StatCacheMap := fold map_erase ks (g_StatCacheMap m)\<rparr>)"
  "mc_ok m \<Longrightarrow> mc_ok (m\<lparr>g_DirCacheMap := fold map_erase ks (g_DirCacheMap m)\<rparr>)"
  by (simp_all add: mc_ok_def std.find_del_list)

lemma mc_ok_other_fields [simp]:
  "mc_ok (m\<lparr>g_metadataCacheTimeoutSec := t\<rparr>) = mc_ok m"
  "mc_ok (m\<lparr>g_LastStatCacheTimeoutCheck := t\<rparr>) = mc_ok m"
  "mc_ok (m\<lparr>g_LastDirCacheTimeoutCheck := t\<rparr>) = mc_ok m"
  by (simp_all add: mc_ok_def)

lemmas mc_ok_intros = mc_ok_stat_insert mc_ok_dir_insert mc_ok_stat_erase mc_ok_dir_erase
  mc_ok_erase_all

subsection \<open>Every operation keeps it, and none aborts\<close>

lemma newStatCache_cases:
  "newStatCache e l = ((status, r), l') \<Longrightarrow>
     (r = None \<and> status = SYS_MALLOC_ERR e)
     \<or> (status = 0 \<and> (\<exists>t. r = Some \<lparr>sc_iRodsPath = None, sc_stbuf = None, sc_timestamp = t\<rparr>))"
  by (auto simp: newStatCache_def split: prod.splits if_splits)

lemma newDirCache_cases:
  "newDirCache e l = ((status, r), l') \<Longrightarrow>
     (r = None \<and> status = SYS_MALLOC_ERR e)
     \<or> (status = 0 \<and> (\<exists>t. r = Some \<lparr>dc_iRodsPath = None, dc_entries = [], dc_timestamp = t\<rparr>))"
  by (auto simp: newDirCache_def split: prod.splits if_splits)

lemma cacheStat_ok:
  assumes "mc_ok (snd s)"
  shows "\<exists>status s'. cacheStat e k st s = Some (status, s') \<and> mc_ok (snd s')"
proof -
  obtain l m where s: "s = (l, m)" by (cases s)
  obtain status r l1 where new: "newStatCache e l = ((status, r), l1)" by (metis prod.exhaust)
  obtain a l2 where a: "mem_ok e l1 = (a, l2)" by force
  obtain b l3 where b: "mem_ok e l2 = (b, l3)" by force
  have free: "\<exists>tbl. (case map_find (g_StatCacheMap m) k of
        Some old \<Rightarrow> do { freeStatCache old; Some (map_erase k (g_StatCacheMap m)) }
      | None \<Rightarrow> Some (g_StatCacheMap m)) = Some tbl
      \<and> mc_ok (m\<lparr>g_StatCacheMap := tbl\<rparr>)"
    using assms s mc_ok_stat [of m k]
    by (auto simp: freeStatCache_def mc_ok_stat_erase split: option.split)
  then obtain tbl where tbl: "(case map_find (g_StatCacheMap m) k of
        Some old \<Rightarrow> do { freeStatCache old; Some (map_erase k (g_StatCacheMap m)) }
      | None \<Rightarrow> Some (g_StatCacheMap m)) = Some tbl" "mc_ok (m\<lparr>g_StatCacheMap := tbl\<rparr>)"
    by blast
  have ins: "stat_entry_ok k v \<Longrightarrow> mc_ok (m\<lparr>g_StatCacheMap := map_insert k v tbl\<rparr>)" for v
    using mc_ok_stat_insert [OF tbl(2)] by simp
  from newStatCache_cases [OF new] assms show ?thesis
    unfolding cacheStat_def s Let_def prod.case new
    by (elim disjE exE conjE) (auto simp: a b tbl(1) stat_entry_ok_def intro!: ins)
qed

lemma dir_cache_for_ok:
  assumes "mc_ok m" and "dir_cache_for e k (l, m) = ((status, r), (l', m'))"
  shows "mc_ok m' \<and> (\<forall>dc. r = Some dc \<longrightarrow>
     dc_iRodsPath dc = Some k \<and> map_find (g_DirCacheMap m') k = Some (Some dc))"
proof (cases "map_find (g_DirCacheMap m) k")
  case None
  with assms show ?thesis
    by (auto simp: dir_cache_for_def dir_entry_ok_def Let_def split: prod.splits option.splits if_splits
        intro!: mc_ok_dir_insert)
next
  case (Some v)
  with mc_ok_dir [OF assms(1) Some] assms show ?thesis
    by (auto simp: dir_cache_for_def)
qed

lemma cacheDirEntry_ok:
  assumes "mc_ok (snd s)"
  shows "mc_ok (snd (snd (cacheDirEntry e k n s)))"
proof -
  obtain l m where s: "s = (l, m)" by (cases s)
  obtain status r l1 m1 where d: "dir_cache_for e k (l, m) = ((status, r), (l1, m1))"
    by (metis prod.exhaust)
  obtain a l2 where a: "mem_ok e l1 = (a, l2)" by force
  from dir_cache_for_ok [OF _ d] assms s show ?thesis
    by (auto simp: cacheDirEntry_def d a dir_entry_ok_def split: option.split intro!: mc_ok_dir_insert)
qed

lemma removeStatCache_ok: "mc_ok m \<Longrightarrow> mc_ok (snd (removeStatCache k m))"
  by (simp add: removeStatCache_def mc_ok_intros)

lemma removeDirCache_ok: "mc_ok m \<Longrightarrow> mc_ok (snd (removeDirCache k m))"
  by (simp add: removeDirCache_def mc_ok_intros)

lemma removeDirCacheEntry_ok: "mc_ok m \<Longrightarrow> mc_ok (snd (removeDirCacheEntry k n m))"
  by (auto simp: removeDirCacheEntry_def dir_entry_ok_def dest: mc_ok_dir split: option.splits
      intro!: mc_ok_intros)

lemma clearExpired_ok:
  "mc_ok (snd s) \<Longrightarrow> mc_ok (snd (snd (clearExpiredStatCache e s)))"
  "mc_ok (snd s) \<Longrightarrow> mc_ok (snd (snd (clearExpiredDirCache e s)))"
  by (auto simp: clearExpiredStatCache_def clearExpiredDirCache_def mc_ok_intros split: prod.split)

lemma releaseAllCache_ok: "mc_ok (snd (releaseAllCache m))"
  by (simp add: releaseAllCache_def mc_ok_def)


section \<open>What a lookup returns\<close>

text \<open>The time at which the entry of a path was made, if there is one.\<close>

definition stat_stamp :: "mc_state \<Rightarrow> string \<Rightarrow> int option" where
  "stat_stamp m k = (case map_find (g_StatCacheMap m) k of
     Some (Some sc) \<Rightarrow> Some (sc_timestamp sc) | _ \<Rightarrow> None)"

definition dir_stamp :: "mc_state \<Rightarrow> string \<Rightarrow> int option" where
  "dir_stamp m k = (case map_find (g_DirCacheMap m) k of
     Some (Some dc) \<Rightarrow> Some (dc_timestamp dc) | _ \<Rightarrow> None)"

text \<open>The stat and the listing a lookup at time \<open>now\<close> may use.\<close>

definition fresh_stat :: "int \<Rightarrow> mc_state \<Rightarrow> string \<Rightarrow> stat option" where
  "fresh_stat now m k = (case map_find (g_StatCacheMap m) k of
     Some (Some sc) \<Rightarrow> if now - sc_timestamp sc \<le> g_metadataCacheTimeoutSec m then sc_stbuf sc else None
   | _ \<Rightarrow> None)"

definition listing :: "mc_state \<Rightarrow> string \<Rightarrow> string list option" where
  "listing m k = (case map_find (g_DirCacheMap m) k of
     Some (Some dc) \<Rightarrow> Some (dc_entries dc) | _ \<Rightarrow> None)"

definition fresh_listing :: "int \<Rightarrow> mc_state \<Rightarrow> string \<Rightarrow> string list option" where
  "fresh_listing now m k = (case map_find (g_DirCacheMap m) k of
     Some (Some dc) \<Rightarrow> if now - dc_timestamp dc \<le> g_metadataCacheTimeoutSec m then Some (dc_entries dc) else None
   | _ \<Rightarrow> None)"

lemma getStat_fresh:
  assumes "clock_ok e clk" and "mc_ok m"
  shows "getStatCache e k (l, m) =
    Some ((case fresh_stat (clk (world l)) m k of Some st \<Rightarrow> (0, Some st) | None \<Rightarrow> (- ENOENT, None)), (l, m))"
  using assms mc_ok_stat [OF assms(2), of k]
  by (auto simp: getStatCache_def fresh_stat_def time_clk iFuseLibDiffTimeSec_def Let_def
      split: option.splits)

lemma checkFresh_fresh:
  assumes "clock_ok e clk"
  shows "checkFreshessOfDirCache e k (l, m) =
    (case fresh_listing (clk (world l)) m k of Some _ \<Rightarrow> 0 | None \<Rightarrow> - ENOENT, (l, m))"
  using assms
  by (auto simp: checkFreshessOfDirCache_def fresh_listing_def time_clk iFuseLibDiffTimeSec_def Let_def
      split: option.splits)

lemma cacheStat_stores:
  assumes "calloc_ok e" and "clock_ok e clk" and "mc_ok m"
  shows "\<exists>l'. cacheStat e k st (l, m) = Some (0, (l', m\<lparr>g_StatCacheMap :=
      map_insert k (Some \<lparr>sc_iRodsPath = Some k, sc_stbuf = Some st, sc_timestamp = clk (world l)\<rparr>)
        (case map_find (g_StatCacheMap m) k of Some _ \<Rightarrow> map_erase k (g_StatCacheMap m)
         | None \<Rightarrow> g_StatCacheMap m)\<rparr>)) \<and> clk (world l') = clk (world l)"
proof -
  obtain a l1 where a: "mem_ok e l = (a, l1)" by force
  obtain b l2 where b: "mem_ok e l1 = (b, l2)" by force
  obtain c l3 where c: "mem_ok e l2 = (c, l3)" by force
  note ok = mem_ok_True [OF assms(1) a] mem_ok_True [OF assms(1) b] mem_ok_True [OF assms(1) c]
  note clk = mem_ok_clk [OF assms(2) a] mem_ok_clk [OF assms(2) b] mem_ok_clk [OF assms(2) c]
  show ?thesis
    using mc_ok_stat [OF assms(3), of k] ok clk
    by (auto simp: cacheStat_def newStatCache_def a b c time_clk [OF assms(2)] freeStatCache_def
        split: option.splits)
qed

lemma fresh_stat_put:
  assumes "calloc_ok e" and "clock_ok e clk" and "mc_ok m"
  shows "\<exists>l' m'. cacheStat e k st (l, m) = Some (0, (l', m')) \<and> mc_ok m' \<and> clk (world l') = clk (world l)
    \<and> g_metadataCacheTimeoutSec m' = g_metadataCacheTimeoutSec m \<and> g_DirCacheMap m' = g_DirCacheMap m
    \<and> (\<forall>now. fresh_stat now m' = (fresh_stat now m)(k :=
          if now - clk (world l) \<le> g_metadataCacheTimeoutSec m then Some st else None))"
proof -
  from cacheStat_stores [OF assms, of k st l] obtain l' m' where
    eq: "cacheStat e k st (l, m) = Some (0, (l', m'))" and clk: "clk (world l') = clk (world l)"
    and m': "m' = m\<lparr>g_StatCacheMap :=
      map_insert k (Some \<lparr>sc_iRodsPath = Some k, sc_stbuf = Some st, sc_timestamp = clk (world l)\<rparr>)
        (case map_find (g_StatCacheMap m) k of Some _ \<Rightarrow> map_erase k (g_StatCacheMap m)
         | None \<Rightarrow> g_StatCacheMap m)\<rparr>" by blast
  have "map_find (g_StatCacheMap m') j = (if j = k
      then Some (Some \<lparr>sc_iRodsPath = Some k, sc_stbuf = Some st, sc_timestamp = clk (world l)\<rparr>)
      else map_find (g_StatCacheMap m) j)" for j
    using mc_ok_maps(1) [OF assms(3)] by (auto simp: m' find_map_erase split: option.split)
  moreover have t: "g_metadataCacheTimeoutSec m' = g_metadataCacheTimeoutSec m" by (simp add: m')
  ultimately have "fresh_stat now m' = (fresh_stat now m)(k :=
          if now - clk (world l) \<le> g_metadataCacheTimeoutSec m then Some st else None)" for now
    by (intro ext) (simp add: fresh_stat_def split: option.split)
  moreover have "mc_ok m'" using cacheStat_ok [of "(l, m)" e k st] assms(3) eq by auto
  ultimately show ?thesis using eq clk by (auto simp: m')
qed

section \<open>Expiry as an interface\<close>

text \<open>
  Both caches share a contract: an entry is of use to a look-up at a time \<open>t\<close> while it is not
  older than the timeout, and the sweep drops the entries that are of no use now, with their
  contents. So whoever asks for an entry's age cannot tell whether a sweep has run.
\<close>

definition fresh_at :: "int \<Rightarrow> int \<Rightarrow> int option \<Rightarrow> 'v option \<Rightarrow> 'v option" where
  "fresh_at t limit stamp content =
     (case stamp of Some t0 \<Rightarrow> if t - t0 \<le> limit then content else None | None \<Rightarrow> None)"

locale expiring_cache =
  fixes now :: "'s \<Rightarrow> int" and limit :: "'s \<Rightarrow> int"
    and stamp :: "'s \<Rightarrow> 'k \<Rightarrow> int option" and content :: "'s \<Rightarrow> 'k \<Rightarrow> 'v option"
    and sweep :: "'s \<Rightarrow> 's" and ok :: "'s \<Rightarrow> bool"
  assumes filed: "ok s \<Longrightarrow> content s k = None \<longleftrightarrow> stamp s k = None"
    and sweep_stamp: "ok s \<Longrightarrow> stamp (sweep s) k =
      (case stamp s k of Some t \<Rightarrow> if now s - t \<le> limit s then Some t else None | None \<Rightarrow> None)"
    and sweep_content: "ok s \<Longrightarrow> stamp (sweep s) k \<noteq> None \<Longrightarrow> content (sweep s) k = content s k"
    and sweep_ok: "ok s \<Longrightarrow> ok (sweep s)"
    and sweep_now: "ok s \<Longrightarrow> now (sweep s) = now s"
    and sweep_limit: "ok s \<Longrightarrow> limit (sweep s) = limit s"
begin

lemma sweep_complete: "ok s \<Longrightarrow> stamp (sweep s) k = Some t \<Longrightarrow> now s - t \<le> limit s"
  by (auto simp: sweep_stamp split: option.splits if_splits)

lemma sweep_twice: "ok s \<Longrightarrow> stamp (sweep (sweep s)) k = stamp (sweep s) k"
  by (auto simp: sweep_stamp sweep_ok sweep_now sweep_limit split: option.split)

text \<open>What is left is what is of use now.\<close>

lemma sweep_leaves: "ok s \<Longrightarrow> content (sweep s) k = fresh_at (now s) (limit s) (stamp s k) (content s k)"
  using filed [of s k] filed [OF sweep_ok, of s k] sweep_content [of s k]
  by (cases "stamp (sweep s) k") (auto simp: fresh_at_def sweep_stamp split: option.splits if_splits)

text \<open>From now on nothing else is missed.\<close>

lemma sweep_invisible:
  assumes "ok s" and "now s \<le> t"
  shows "fresh_at t (limit (sweep s)) (stamp (sweep s) k) (content (sweep s) k)
    = fresh_at t (limit s) (stamp s k) (content s k)"
  using assms filed [of s k] by (auto simp: sweep_leaves sweep_stamp sweep_limit fresh_at_def split: option.split)

end

lemma expired_keys_clk:
  "clock_ok e clk \<Longrightarrow> expired_keys e stamp_of limit m l =
     (map fst (filter (\<lambda>(k, v). case v of None \<Rightarrow> True | Some c \<Rightarrow> clk (world l) - stamp_of c > limit) m), l)"
  by (induction e stamp_of limit m l rule: expired_keys.induct)
     (auto simp: time_clk iFuseLibDiffTimeSec_def)

lemma sweep_find:
  assumes "clock_ok e clk" and "map_ok m" and "expired_keys e stamp_of limit m l = (ks, l')"
  shows "l' = l" and "map_find (fold map_erase ks m) k =
    (case map_find m k of Some (Some c) \<Rightarrow>
       if clk (world l) - stamp_of c \<le> limit then Some (Some c) else None | _ \<Rightarrow> None)"
proof -
  from assms expired_keys_clk [OF assms(1), of stamp_of limit m l] have
    ks: "ks = map fst (filter (\<lambda>(k, v). case v of None \<Rightarrow> True | Some c \<Rightarrow> clk (world l) - stamp_of c > limit) m)"
    and "l' = l" by simp_all
  show "l' = l" by fact
  have mem: "k \<in> set ks \<longleftrightarrow> (\<exists>v. map_find m k = Some v \<and>
      (case v of None \<Rightarrow> True | Some c \<Rightarrow> clk (world l) - stamp_of c > limit))"
    using map_ok_distinct [OF assms(2)] unfolding ks by (force simp: map_of_eq_Some_iff)
  show "map_find (fold map_erase ks m) k =
    (case map_find m k of Some (Some c) \<Rightarrow>
       if clk (world l) - stamp_of c \<le> limit then Some (Some c) else None | _ \<Rightarrow> None)"
    using std.find_del_list [OF assms(2), of ks k] mem by (auto split: option.splits)
qed

lemma clearExpiredStat_find:
  assumes "clock_ok e clk" and "mc_ok m"
  shows "\<exists>m'. clearExpiredStatCache e (l, m) = (0, (l, m')) \<and> mc_ok m'
    \<and> g_metadataCacheTimeoutSec m' = g_metadataCacheTimeoutSec m \<and> g_DirCacheMap m' = g_DirCacheMap m
    \<and> (\<forall>k. map_find (g_StatCacheMap m') k = (case map_find (g_StatCacheMap m) k of
        Some (Some c) \<Rightarrow> if clk (world l) - sc_timestamp c \<le> g_metadataCacheTimeoutSec m
                        then Some (Some c) else None | _ \<Rightarrow> None))"
proof -
  obtain ks l' where ks: "expired_keys e sc_timestamp (g_metadataCacheTimeoutSec m) (g_StatCacheMap m) l = (ks, l')"
    by force
  note f = sweep_find [OF assms(1) mc_ok_maps(1) [OF assms(2)] ks]
  have "clearExpiredStatCache e (l, m) = (0, (l, m\<lparr>g_StatCacheMap := fold map_erase ks (g_StatCacheMap m)\<rparr>))"
    by (simp add: clearExpiredStatCache_def ks f(1))
  moreover have "mc_ok (m\<lparr>g_StatCacheMap := fold map_erase ks (g_StatCacheMap m)\<rparr>)"
    using assms(2) by (rule mc_ok_intros)
  ultimately show ?thesis using f(2) by auto
qed

lemma clearExpiredDir_find:
  assumes "clock_ok e clk" and "mc_ok m"
  shows "\<exists>m'. clearExpiredDirCache e (l, m) = (0, (l, m')) \<and> mc_ok m'
    \<and> g_metadataCacheTimeoutSec m' = g_metadataCacheTimeoutSec m \<and> g_StatCacheMap m' = g_StatCacheMap m
    \<and> (\<forall>k. map_find (g_DirCacheMap m') k = (case map_find (g_DirCacheMap m) k of
        Some (Some c) \<Rightarrow> if clk (world l) - dc_timestamp c \<le> g_metadataCacheTimeoutSec m
                        then Some (Some c) else None | _ \<Rightarrow> None))"
proof -
  obtain ks l' where ks: "expired_keys e dc_timestamp (g_metadataCacheTimeoutSec m) (g_DirCacheMap m) l = (ks, l')"
    by force
  note f = sweep_find [OF assms(1) mc_ok_maps(2) [OF assms(2)] ks]
  have "clearExpiredDirCache e (l, m) = (0, (l, m\<lparr>g_DirCacheMap := fold map_erase ks (g_DirCacheMap m)\<rparr>))"
    by (simp add: clearExpiredDirCache_def ks f(1))
  moreover have "mc_ok (m\<lparr>g_DirCacheMap := fold map_erase ks (g_DirCacheMap m)\<rparr>)"
    using assms(2) by (rule mc_ok_intros)
  ultimately show ?thesis using f(2) by auto
qed

lemma clearExpired_keeps:
  assumes "clock_ok e clk \<and> mc_ok (snd s)"
  shows "fst (snd (clearExpiredStatCache e s)) = fst s" "mc_ok (snd (snd (clearExpiredStatCache e s)))"
    "g_metadataCacheTimeoutSec (snd (snd (clearExpiredStatCache e s))) = g_metadataCacheTimeoutSec (snd s)"
    "fst (snd (clearExpiredDirCache e s)) = fst s" "mc_ok (snd (snd (clearExpiredDirCache e s)))"
    "g_metadataCacheTimeoutSec (snd (snd (clearExpiredDirCache e s))) = g_metadataCacheTimeoutSec (snd s)"
  using assms clearExpiredStat_find [of e clk "snd s" "fst s"] clearExpiredDir_find [of e clk "snd s" "fst s"]
  by auto

text \<open>The contents of the stat cache, whatever their age; \<open>listing\<close> is that of the other cache.\<close>

definition stat_of :: "mc_state \<Rightarrow> string \<Rightarrow> stat option" where
  "stat_of m k = (case map_find (g_StatCacheMap m) k of Some (Some sc) \<Rightarrow> sc_stbuf sc | _ \<Rightarrow> None)"

lemma fresh_stat_at:
  "fresh_stat t m k = fresh_at t (g_metadataCacheTimeoutSec m) (stat_stamp m k) (stat_of m k)"
  by (auto simp: fresh_stat_def fresh_at_def stat_stamp_def stat_of_def split: option.split)

lemma fresh_listing_at:
  "fresh_listing t m k = fresh_at t (g_metadataCacheTimeoutSec m) (dir_stamp m k) (listing m k)"
  by (auto simp: fresh_listing_def fresh_at_def dir_stamp_def listing_def split: option.split)

interpretation stat_cache: expiring_cache
  "\<lambda>s. clk (world (fst s))" "\<lambda>s. g_metadataCacheTimeoutSec (snd s)" "\<lambda>s. stat_stamp (snd s)" "\<lambda>s. stat_of (snd s)"
  "\<lambda>s. snd (clearExpiredStatCache e s)" "\<lambda>s. clock_ok e clk \<and> mc_ok (snd s)"
  for e :: "'w ext" and clk :: "'w \<Rightarrow> int"
proof (unfold_locales, goal_cases)
  case (1 s k)
  then show ?case using mc_ok_stat [of "snd s" k] by (auto simp: stat_stamp_def stat_of_def split: option.splits)
next
  case (2 s k)
  with clearExpiredStat_find [of e clk "snd s" "fst s"] obtain m' where
    "clearExpiredStatCache e s = (0, (fst s, m'))"
    "map_find (g_StatCacheMap m') k = (case map_find (g_StatCacheMap (snd s)) k of
        Some (Some c) \<Rightarrow> if clk (world (fst s)) - sc_timestamp c \<le> g_metadataCacheTimeoutSec (snd s)
                        then Some (Some c) else None | _ \<Rightarrow> None)"
    by auto
  then show ?case by (auto simp: stat_stamp_def split: option.splits)
next
  case (3 s k)
  with clearExpiredStat_find [of e clk "snd s" "fst s"] obtain m' where
    "clearExpiredStatCache e s = (0, (fst s, m'))"
    "map_find (g_StatCacheMap m') k = (case map_find (g_StatCacheMap (snd s)) k of
        Some (Some c) \<Rightarrow> if clk (world (fst s)) - sc_timestamp c \<le> g_metadataCacheTimeoutSec (snd s)
                        then Some (Some c) else None | _ \<Rightarrow> None)"
    by auto
  with 3 show ?case by (auto simp: stat_stamp_def stat_of_def split: option.splits if_splits)
qed (simp_all add: clearExpired_keeps [of e clk])

interpretation dir_cache: expiring_cache
  "\<lambda>s. clk (world (fst s))" "\<lambda>s. g_metadataCacheTimeoutSec (snd s)" "\<lambda>s. dir_stamp (snd s)" "\<lambda>s. listing (snd s)"
  "\<lambda>s. snd (clearExpiredDirCache e s)" "\<lambda>s. clock_ok e clk \<and> mc_ok (snd s)"
  for e :: "'w ext" and clk :: "'w \<Rightarrow> int"
proof (unfold_locales, goal_cases)
  case (1 s k)
  then show ?case using mc_ok_dir [of "snd s" k] by (auto simp: dir_stamp_def listing_def split: option.splits)
next
  case (2 s k)
  with clearExpiredDir_find [of e clk "snd s" "fst s"] obtain m' where
    "clearExpiredDirCache e s = (0, (fst s, m'))"
    "map_find (g_DirCacheMap m') k = (case map_find (g_DirCacheMap (snd s)) k of
        Some (Some c) \<Rightarrow> if clk (world (fst s)) - dc_timestamp c \<le> g_metadataCacheTimeoutSec (snd s)
                        then Some (Some c) else None | _ \<Rightarrow> None)"
    by auto
  then show ?case by (auto simp: dir_stamp_def split: option.splits)
next
  case (3 s k)
  with clearExpiredDir_find [of e clk "snd s" "fst s"] obtain m' where
    "clearExpiredDirCache e s = (0, (fst s, m'))"
    "map_find (g_DirCacheMap m') k = (case map_find (g_DirCacheMap (snd s)) k of
        Some (Some c) \<Rightarrow> if clk (world (fst s)) - dc_timestamp c \<le> g_metadataCacheTimeoutSec (snd s)
                        then Some (Some c) else None | _ \<Rightarrow> None)"
    by auto
  with 3 show ?case by (auto simp: dir_stamp_def listing_def split: option.splits if_splits)
qed (simp_all add: clearExpired_keeps [of e clk])

lemma clearExpiredStat_fresh:
  assumes "clock_ok e clk" and "mc_ok m"
  shows "\<exists>m'. clearExpiredStatCache e (l, m) = (0, (l, m')) \<and> mc_ok m' \<and> g_DirCacheMap m' = g_DirCacheMap m
    \<and> stat_of m' = fresh_stat (clk (world l)) m
    \<and> (\<forall>now \<ge> clk (world l). fresh_stat now m' = fresh_stat now m)"
proof -
  from clearExpiredStat_find [OF assms, of l] obtain m' where
    m': "clearExpiredStatCache e (l, m) = (0, (l, m'))" "mc_ok m'" "g_DirCacheMap m' = g_DirCacheMap m" by blast
  then show ?thesis
    using stat_cache.sweep_leaves [of e clk "(l, m)"] stat_cache.sweep_invisible [of e clk "(l, m)"] assms
    by (simp add: fresh_stat_at fun_eq_iff)
qed

lemma clearExpiredDir_fresh:
  assumes "clock_ok e clk" and "mc_ok m"
  shows "\<exists>m'. clearExpiredDirCache e (l, m) = (0, (l, m')) \<and> mc_ok m' \<and> g_StatCacheMap m' = g_StatCacheMap m
    \<and> listing m' = fresh_listing (clk (world l)) m
    \<and> (\<forall>now \<ge> clk (world l). fresh_listing now m' = fresh_listing now m)"
proof -
  from clearExpiredDir_find [OF assms, of l] obtain m' where
    m': "clearExpiredDirCache e (l, m) = (0, (l, m'))" "mc_ok m'" "g_StatCacheMap m' = g_StatCacheMap m" by blast
  then show ?thesis
    using dir_cache.sweep_leaves [of e clk "(l, m)"] dir_cache.sweep_invisible [of e clk "(l, m)"] assms
    by (simp add: fresh_listing_at fun_eq_iff)
qed

text \<open>The two calls of the timer sweep when a check is due or forced, and else do nothing.\<close>

lemma ClearExpiredStat_fresh:
  assumes "clock_ok e clk" and "mc_ok m"
  shows "\<exists>m'. iFuseMetadataCacheClearExpiredStat e force (l, m) = (0, (l, m')) \<and> mc_ok m'
    \<and> g_DirCacheMap m' = g_DirCacheMap m
    \<and> (force \<longrightarrow> stat_of m' = fresh_stat (clk (world l)) m)
    \<and> (\<forall>now \<ge> clk (world l). fresh_stat now m' = fresh_stat now m)"
proof -
  let ?run = "iFuseMetadataCacheClearExpiredStat e force (l, m)"
  from clearExpiredStat_fresh [OF assms, of l] obtain m' where m': "clearExpiredStatCache e (l, m) = (0, (l, m'))"
    "mc_ok m'" "g_DirCacheMap m' = g_DirCacheMap m"
    "stat_of m' = fresh_stat (clk (world l)) m"
    "\<And>now. now \<ge> clk (world l) \<Longrightarrow> fresh_stat now m' = fresh_stat now m" by blast
  let ?m = "m'\<lparr>g_LastStatCacheTimeoutCheck := clk (world l)\<rparr>"
  have "?run = (0, (l, m)) \<and> \<not> force \<or> ?run = (0, (l, ?m))"
    by (simp add: iFuseMetadataCacheClearExpiredStat_def time_clk [OF assms(1)] m'(1))
  moreover have "stat_of ?m = stat_of m'" "fresh_stat now ?m = fresh_stat now m'" for now
    by (simp_all add: stat_of_def fresh_stat_def fun_eq_iff split: option.split)
  ultimately show ?thesis using m' assms(2) by auto
qed

lemma ClearExpiredDir_fresh:
  assumes "clock_ok e clk" and "mc_ok m"
  shows "\<exists>m'. iFuseMetadataCacheClearExpiredDir e force (l, m) = (0, (l, m')) \<and> mc_ok m'
    \<and> g_StatCacheMap m' = g_StatCacheMap m
    \<and> (force \<longrightarrow> listing m' = fresh_listing (clk (world l)) m)
    \<and> (\<forall>now \<ge> clk (world l). fresh_listing now m' = fresh_listing now m)"
proof -
  let ?run = "iFuseMetadataCacheClearExpiredDir e force (l, m)"
  from clearExpiredDir_fresh [OF assms, of l] obtain m' where m': "clearExpiredDirCache e (l, m) = (0, (l, m'))"
    "mc_ok m'" "g_StatCacheMap m' = g_StatCacheMap m" "listing m' = fresh_listing (clk (world l)) m"
    "\<And>now. now \<ge> clk (world l) \<Longrightarrow> fresh_listing now m' = fresh_listing now m" by blast
  let ?m = "m'\<lparr>g_LastDirCacheTimeoutCheck := clk (world l)\<rparr>"
  have "?run = (0, (l, m)) \<and> \<not> force \<or> ?run = (0, (l, ?m))"
    by (simp add: iFuseMetadataCacheClearExpiredDir_def time_clk [OF assms(1)] m'(1))
  moreover have "listing ?m = listing m'" "fresh_listing now ?m = fresh_listing now m'" for now
    by (simp_all add: listing_def fresh_listing_def fun_eq_iff split: option.split)
  ultimately show ?thesis using m' assms(2) by auto
qed

section \<open>Directory listings\<close>

lemma copy_entries_overlay:
  "p + sum_list (map (\<lambda>n. length n + 1) ns) \<le> length buf \<Longrightarrow>
     copy_entries ns p buf = Some (overlay buf p (concat (map (\<lambda>n. n @ [NUL]) ns)))"
proof (induction ns arbitrary: p buf)
  case Nil
  then show ?case by (simp add: overlay_def)
next
  case (Cons n ns)
  let ?c = "concat (map (\<lambda>n. n @ [NUL]) ns)"
  have b: "overlay (overlay (overlay buf p n) (p + length n) [NUL]) (p + length n + 1) ?c
      = overlay buf p (n @ NUL # ?c)"
  proof (rule bytes_eqI)
    fix i
    have "byte_at (NUL # ?c) j = (if j = 0 then NUL else byte_at ?c (j - 1))" for j
      by (cases j) (auto simp: byte_at_def)
    then show "byte_at (overlay (overlay (overlay buf p n) (p + length n) [NUL]) (p + length n + 1) ?c) i
        = byte_at (overlay buf p (n @ NUL # ?c)) i"
      by (auto simp: byte_at_overlay byte_at_append) (simp add: byte_at_def)
  qed (simp add: max_def)
  from Cons show ?case
    by (simp add: max_def) (use b in simp)
qed

text \<open>What the buffer of a cached listing holds.\<close>

definition encode_listing :: "string list \<Rightarrow> bytes" where
  "encode_listing ns = (if ns = [] then [NUL] else concat (map (\<lambda>n. n @ [NUL]) ns))"

lemma length_concat_names: "length (concat (map (\<lambda>n. n @ [NUL]) ns)) = sum_list (map (\<lambda>n. length n + 1) ns)"
  by (induction ns) auto

lemma copy_entries_encode:
  "copy_entries ns 0 (zeros (entries_buffer_len ns)) = Some (encode_listing ns)"
proof (cases "ns = []")
  case True
  then show ?thesis by (simp add: encode_listing_def entries_buffer_len_def zeros_def)
next
  case False
  then have "entries_buffer_len ns = sum_list (map (\<lambda>n. length n + 1) ns)"
    by (cases ns) (auto simp: entries_buffer_len_def Let_def)
  then show ?thesis
    using False copy_entries_overlay [of 0 ns "zeros (entries_buffer_len ns)"]
    by (simp add: encode_listing_def overlay_def length_concat_names)
qed

lemma getDir_fresh:
  assumes "clock_ok e clk" and "calloc_ok e"
  shows "\<exists>l'. getDirCache e k (l, m) =
    Some ((case fresh_listing (clk (world l)) m k of
             Some ns \<Rightarrow> (0, Some (encode_listing ns)) | None \<Rightarrow> (- ENOENT, None)), (l', m))
    \<and> clk (world l') = clk (world l)"
proof -
  obtain a l1 where a: "mem_ok e l = (a, l1)" by force
  show ?thesis
    using mem_ok_True [OF assms(2) a] mem_ok_clk [OF assms(1) a]
    by (auto simp: getDirCache_def fresh_listing_def time_clk [OF assms(1)] iFuseLibDiffTimeSec_def
        a copy_entries_encode Let_def split: option.splits)
qed

text \<open>The answer of a look-up depends on what is fresh only.\<close>

lemma getDirCache_fresh:
  assumes "clock_ok e clk" and "fresh_listing (clk (world l)) m' k = fresh_listing (clk (world l)) m k"
  shows "map_option fst (getDirCache e k (l, m')) = map_option fst (getDirCache e k (l, m))"
proof -
  have "map_option fst (getDirCache e k (l, m)) = Some (case fresh_listing (clk (world l)) m k of
      None \<Rightarrow> (- ENOENT, None)
    | Some ns \<Rightarrow> if fst (mem_ok e l) then (0, Some (encode_listing ns)) else (SYS_MALLOC_ERR e, None))" for m
    by (auto simp: getDirCache_def fresh_listing_def time_clk [OF assms(1)] iFuseLibDiffTimeSec_def
        copy_entries_encode Let_def split: option.splits prod.splits)
  then show ?thesis by (simp only: assms(2))
qed

lemma getDirCache_ok: "mc_ok m \<Longrightarrow> \<exists>r l'. getDirCache e k (l, m) = Some (r, (l', m))"
  by (auto simp: getDirCache_def copy_entries_encode Let_def split: option.splits prod.splits
      dest: mc_ok_dir)

lemma getStatCache_ok: "mc_ok m \<Longrightarrow> \<exists>r l'. getStatCache e k (l, m) = Some (r, (l', m))"
  using mc_ok_stat [of m k]
  by (auto simp: getStatCache_def Let_def split: option.splits prod.splits)

text \<open>Adding a name appends it to the listing, creating one when there is none.\<close>

lemma cacheDirEntry_listing:
  assumes "calloc_ok e" and "clock_ok e clk" and "mc_ok m"
  shows "\<exists>l' m'. cacheDirEntry e k n (l, m) = (0, (l', m')) \<and> mc_ok m' \<and> clk (world l') = clk (world l)
    \<and> g_StatCacheMap m' = g_StatCacheMap m \<and> g_metadataCacheTimeoutSec m' = g_metadataCacheTimeoutSec m
    \<and> listing m' = (listing m)(k \<mapsto> (case listing m k of Some ns \<Rightarrow> ns @ [n] | None \<Rightarrow> [n]))
    \<and> dir_stamp m' = (dir_stamp m)(k \<mapsto> (case dir_stamp m k of Some t \<Rightarrow> t | None \<Rightarrow> clk (world l)))"
proof -
  obtain a l1 where a: "mem_ok e l = (a, l1)" by force
  obtain b l2 where b: "mem_ok e l1 = (b, l2)" by force
  obtain c l3 where c: "mem_ok e l2 = (c, l3)" by force
  note ok = mem_ok_True [OF assms(1) a] mem_ok_True [OF assms(1) b] mem_ok_True [OF assms(1) c]
  note clk = mem_ok_clk [OF assms(2) a] mem_ok_clk [OF assms(2) b] mem_ok_clk [OF assms(2) c]
  obtain st l' m' where r: "cacheDirEntry e k n (l, m) = (st, (l', m'))" by (metis prod.exhaust)
  have "mc_ok m'" using cacheDirEntry_ok [of "(l, m)" e k n] assms(3) r by simp
  then show ?thesis
    using mc_ok_dir [OF assms(3), of k] ok clk r
    by (cases "map_find (g_DirCacheMap m) k")
       (auto simp: cacheDirEntry_def dir_cache_for_def newDirCache_def a b c time_clk [OF assms(2)]
        listing_def dir_stamp_def Let_def fun_eq_iff)
qed

lemma removeDirCacheEntry_listing:
  assumes "mc_ok m" and "removeDirCacheEntry k n m = (status, m')"
  shows "g_StatCacheMap m' = g_StatCacheMap m"
    and "listing m' = (listing m)(k := map_option (remove1 n) (listing m k))"
    and "status = (case listing m k of Some ns \<Rightarrow> if n \<in> set ns then 0 else - ENOENT | None \<Rightarrow> - ENOENT)"
  using assms mc_ok_dir [OF assms(1), of k]
  by (auto simp: removeDirCacheEntry_def listing_def remove1_idem fun_eq_iff
      split: option.splits if_splits)

lemma removeDirCache_listing:
  "mc_ok m \<Longrightarrow> listing (snd (removeDirCache k m)) = (listing m)(k := None)"
  by (auto simp: removeDirCache_def listing_def find_map_erase mc_ok_maps fun_eq_iff)

lemma removeStatCache_fresh:
  "mc_ok m \<Longrightarrow> fresh_stat now (snd (removeStatCache k m)) = (fresh_stat now m)(k := None)"
  by (auto simp: removeStatCache_def fresh_stat_def find_map_erase mc_ok_maps fun_eq_iff split: option.split)

lemma checkExistance_listing:
  "checkExistanceOfDirCacheEntry k n m =
     (case listing m k of Some ns \<Rightarrow> if n \<in> set ns then 0 else 1 | None \<Rightarrow> - ENOENT)"
  by (auto simp: checkExistanceOfDirCacheEntry_def listing_def split: option.splits)

lemma fresh_listing_alt:
  "fresh_listing now m k = (case dir_stamp m k of
     Some t \<Rightarrow> if now - t \<le> g_metadataCacheTimeoutSec m then listing m k else None | None \<Rightarrow> None)"
  by (auto simp: fresh_listing_def dir_stamp_def listing_def split: option.splits)

section \<open>Sequences of cache operations\<close>

text \<open>The calls the file system makes on the caches, in any order, time passing in between.\<close>

inductive mc_step :: "'w ext \<Rightarrow> 'w mcs \<Rightarrow> 'w mcs \<Rightarrow> bool" for e where
  put_stat: "iFuseMetadataCachePutStat e k st s = Some (x, s') \<Longrightarrow> mc_step e s s'"
| put_stat2: "iFuseMetadataCachePutStat2 e k n st s = Some (x, s') \<Longrightarrow> mc_step e s s'"
| add_entry: "iFuseMetadataCacheAddDirEntry e k n s = (x, s') \<Longrightarrow> mc_step e s s'"
| add_fresh: "iFuseMetadataCacheAddDirEntryIfFresh e k n s = (x, s') \<Longrightarrow> mc_step e s s'"
| add_fresh2: "iFuseMetadataCacheAddDirEntryIfFresh2 e k s = (x, s') \<Longrightarrow> mc_step e s s'"
| get_stat: "iFuseMetadataCacheGetStat e k s = Some (x, s') \<Longrightarrow> mc_step e s s'"
| get_dir: "iFuseMetadataCacheGetDirEntry e k s = Some (y, s') \<Longrightarrow> mc_step e s s'"
| remove_stat: "iFuseMetadataCacheRemoveStat k m = (x, m') \<Longrightarrow> mc_step e (l, m) (l, m')"
| remove_dir: "iFuseMetadataCacheRemoveDir k m = (x, m') \<Longrightarrow> mc_step e (l, m) (l, m')"
| remove_entry: "iFuseMetadataCacheRemoveDirEntry k n m = (x, m') \<Longrightarrow> mc_step e (l, m) (l, m')"
| remove_entry2: "iFuseMetadataCacheRemoveDirEntry2 e k m = (x, m') \<Longrightarrow> mc_step e (l, m) (l, m')"
| clear_stat: "iFuseMetadataCacheClearExpiredStat e force s = (x, s') \<Longrightarrow> mc_step e s s'"
| clear_dir: "iFuseMetadataCacheClearExpiredDir e force s = (x, s') \<Longrightarrow> mc_step e s s'"
| clear_all: "mc_step e (l, m) (l, iFuseMetadataCacheClear m)"
| time_passes: "mc_step e (l, m) (l\<lparr>world := w\<rparr>, m)"

inductive mc_reachable :: "'w ext \<Rightarrow> 'w mcs \<Rightarrow> 'w mcs \<Rightarrow> bool" for e s0 where
  mc_init: "mc_reachable e s0 s0"
| mc_next: "mc_reachable e s0 s \<Longrightarrow> mc_step e s s' \<Longrightarrow> mc_reachable e s0 s'"

lemma checkFresh_mc: "checkFreshessOfDirCache e k s = (x, s') \<Longrightarrow> snd s' = snd s"
  by (auto simp: checkFreshessOfDirCache_def Let_def split: prod.splits option.splits)

lemma getStatCache_mc: "getStatCache e k s = Some (x, s') \<Longrightarrow> snd s' = snd s"
  by (auto simp: getStatCache_def Let_def split: prod.splits option.splits if_splits)

lemma getDirCache_mc: "getDirCache e k s = Some (x, s') \<Longrightarrow> snd s' = snd s"
  by (auto simp: getDirCache_def Let_def split: prod.splits option.splits if_splits)

lemma cacheStat_mc_ok: "mc_ok (snd s) \<Longrightarrow> cacheStat e k st s = Some (x, s') \<Longrightarrow> mc_ok (snd s')"
  using cacheStat_ok [of s e k st] by auto

lemma cacheDirEntry_mc_ok: "mc_ok (snd s) \<Longrightarrow> cacheDirEntry e k n s = (x, s') \<Longrightarrow> mc_ok (snd s')"
  using cacheDirEntry_ok [of s e k n] by auto

lemma ClearExpired_mc_ok:
  assumes "mc_ok (snd s)"
  shows "iFuseMetadataCacheClearExpiredStat e force s = (x, s') \<Longrightarrow> mc_ok (snd s')"
    and "iFuseMetadataCacheClearExpiredDir e force s = (x, s') \<Longrightarrow> mc_ok (snd s')"
proof -
  have s: "mc_ok (snd (l, snd s))" for l :: "'a lib_state" using assms by simp
  show "iFuseMetadataCacheClearExpiredStat e force s = (x, s') \<Longrightarrow> mc_ok (snd s')"
    using assms clearExpired_ok(1) [OF assms, of e] clearExpired_ok(1) [OF s, of e]
    by (cases s) (auto simp: iFuseMetadataCacheClearExpiredStat_def Let_def split: prod.splits if_splits,
      (metis snd_conv)+)
  show "iFuseMetadataCacheClearExpiredDir e force s = (x, s') \<Longrightarrow> mc_ok (snd s')"
    using assms clearExpired_ok(2) [OF assms, of e] clearExpired_ok(2) [OF s, of e]
    by (cases s) (auto simp: iFuseMetadataCacheClearExpiredDir_def Let_def split: prod.splits if_splits,
      (metis snd_conv)+)
qed

lemma mc_ok_step: "mc_step e s s' \<Longrightarrow> mc_ok (snd s) \<Longrightarrow> mc_ok (snd s')"
proof (induction rule: mc_step.induct)
  case (put_stat k st s x s')
  then show ?case by (auto simp: iFuseMetadataCachePutStat_def intro: cacheStat_mc_ok)
next
  case (put_stat2 k n st s x s')
  then show ?case
    by (auto simp: iFuseMetadataCachePutStat2_def split: option.splits if_splits intro: cacheStat_mc_ok)
next
  case (add_entry k n s x s')
  then show ?case by (auto simp: iFuseMetadataCacheAddDirEntry_def intro: cacheDirEntry_mc_ok)
next
  case (add_fresh k n s x s')
  then show ?case
    by (auto simp: iFuseMetadataCacheAddDirEntryIfFresh_def Let_def split: prod.splits if_splits
        dest!: checkFresh_mc intro: cacheDirEntry_mc_ok [rotated])
next
  case (add_fresh2 k s x s')
  then show ?case
    by (auto simp: iFuseMetadataCacheAddDirEntryIfFresh2_def Let_def split: prod.splits option.splits if_splits
        dest!: checkFresh_mc intro: cacheDirEntry_mc_ok [rotated])
next
  case (get_stat k s x s')
  then show ?case by (auto simp: iFuseMetadataCacheGetStat_def dest!: getStatCache_mc)
next
  case (get_dir k s y s')
  then show ?case by (auto simp: iFuseMetadataCacheGetDirEntry_def dest!: getDirCache_mc)
next
  case (remove_stat k m x m' l)
  then show ?case using removeStatCache_ok [of m k] by (simp add: iFuseMetadataCacheRemoveStat_def)
next
  case (remove_dir k m x m' l)
  then show ?case using removeDirCache_ok [of m k] by (simp add: iFuseMetadataCacheRemoveDir_def)
next
  case (remove_entry k n m x m' l)
  then show ?case using removeDirCacheEntry_ok [of m k n] by (simp add: iFuseMetadataCacheRemoveDirEntry_def)
next
  case (remove_entry2 k m x m' l)
  then show ?case using removeDirCacheEntry_ok [of m]
    by (auto simp: iFuseMetadataCacheRemoveDirEntry2_def split: prod.splits option.splits if_splits)
       (metis snd_conv)
next
  case (clear_all l m)
  then show ?case using releaseAllCache_ok [of m] by (simp add: iFuseMetadataCacheClear_def)
qed (auto intro: ClearExpired_mc_ok)

lemma mc_ok_reachable: "mc_reachable e s0 s \<Longrightarrow> mc_ok (snd s0) \<Longrightarrow> mc_ok (snd s)"
  by (induction rule: mc_reachable.induct) (auto intro: mc_ok_step)

end
