(* ===== verification/IFuse_FS.thy ===== *)
theory IFuse_FS
  imports IFuse_Fd IFuse_MetadataCache
begin

text \<open>
  \<open>iFuse.FS.cpp\<close>: the file system operations on iRODS paths, on top of the connection pool,
  the descriptors and the metadata caches. The directory filler of FUSE, which the code calls
  for each name and whose result it ignores, is the list of the names it was called with. An
  operation's output buffer is part of its result.
\<close>

record 'w fs_state =
  fds :: "'w fd_state"
  mcache :: mc_state
  g_ConnReuse :: bool
  g_CacheMetadata :: bool

definition onF :: "('w fd_state \<Rightarrow> ('r \<times> 'w fd_state) option) \<Rightarrow> 'w fs_state \<Rightarrow> ('r \<times> 'w fs_state) option" where
  "onF f s = do { (x, d) \<leftarrow> f (fds s); Some (x, s\<lparr>fds := d\<rparr>) }"

definition onFU :: "('w fd_state \<Rightarrow> 'w fd_state option) \<Rightarrow> 'w fs_state \<Rightarrow> 'w fs_state option" where
  "onFU f s = do { d \<leftarrow> f (fds s); Some (s\<lparr>fds := d\<rparr>) }"

definition onC :: "('w conn_state \<Rightarrow> ('r \<times> 'w conn_state) option) \<Rightarrow> 'w fs_state \<Rightarrow> ('r \<times> 'w fs_state) option" where
  "onC f = onF (onConn f)"

definition onCU :: "('w conn_state \<Rightarrow> 'w conn_state option) \<Rightarrow> 'w fs_state \<Rightarrow> 'w fs_state option" where
  "onCU f s = do { c \<leftarrow> f (conns (fds s)); Some (s\<lparr>fds := (fds s)\<lparr>conns := c\<rparr>\<rparr>) }"

text \<open>The library state sits inside the pool; the caches share it.\<close>

definition get_lib :: "'w fs_state \<Rightarrow> 'w lib_state" where
  "get_lib s = lib (rcs (conns (fds s)))"

definition put_lib :: "'w lib_state \<Rightarrow> 'w fs_state \<Rightarrow> 'w fs_state" where
  "put_lib l s = s\<lparr>fds := (fds s)\<lparr>conns := (conns (fds s))\<lparr>rcs := (rcs (conns (fds s)))\<lparr>lib := l\<rparr>\<rparr>\<rparr>\<rparr>"

definition onMc :: "('w mcs \<Rightarrow> 'r \<times> 'w mcs) \<Rightarrow> 'w fs_state \<Rightarrow> 'r \<times> 'w fs_state" where
  "onMc f s = (let (x, (l, m)) = f (get_lib s, mcache s) in (x, put_lib l (s\<lparr>mcache := m\<rparr>)))"

definition onMcO :: "('w mcs \<Rightarrow> ('r \<times> 'w mcs) option) \<Rightarrow> 'w fs_state \<Rightarrow> ('r \<times> 'w fs_state) option" where
  "onMcO f s = do { (x, (l, m)) \<leftarrow> f (get_lib s, mcache s); Some (x, put_lib l (s\<lparr>mcache := m\<rparr>)) }"

definition onMcP :: "(mc_state \<Rightarrow> 'r \<times> mc_state) \<Rightarrow> 'w fs_state \<Rightarrow> 'w fs_state" where
  "onMcP f s = s\<lparr>mcache := snd (f (mcache s))\<rparr>"

section \<open>Filling a \<open>struct stat\<close>\<close>

definition DEF_FILE_MODE :: "32 word" where "DEF_FILE_MODE = 0x1B0"
definition DEF_DIR_MODE :: "32 word" where "DEF_DIR_MODE = 0x1F8"
definition FILE_BLOCK_SIZE :: int where "FILE_BLOCK_SIZE = 512"
definition DIR_SIZE :: int where "DIR_SIZE = 4096"
definition S_IFREG :: "32 word" where "S_IFREG = 0x8000"
definition S_IFDIR :: "32 word" where "S_IFDIR = 0x4000"

text \<open>\<open>atoi\<close>: leading blanks, a sign, the digits. (A value that does not fit is undefined.)\<close>

definition is_digit :: "char \<Rightarrow> bool" where
  "is_digit c \<longleftrightarrow> CHR ''0'' \<le> c \<and> c \<le> CHR ''9''"

definition c_isspace :: "char \<Rightarrow> bool" where
  "c_isspace c \<longleftrightarrow> c = CHR '' '' \<or> CHR 0x09 \<le> c \<and> c \<le> CHR 0x0D"

definition digits_val :: "string \<Rightarrow> int" where
  "digits_val ds = fold (\<lambda>c n. 10 * n + (of_char c - 48)) ds 0"

definition atoi :: "string \<Rightarrow> int" where
  "atoi s =
     (case dropWhile c_isspace s of
        [] \<Rightarrow> 0
      | c # t \<Rightarrow>
          if c = CHR ''-'' then - digits_val (takeWhile is_digit t)
          else if c = CHR ''+'' then digits_val (takeWhile is_digit t)
          else digits_val (takeWhile is_digit (c # t)))"

text \<open>The result is passed as an \<open>unsigned int\<close> everywhere.\<close>

definition safeAtoi :: "string option \<Rightarrow> 32 word" where
  "safeAtoi str = (case str of None \<Rightarrow> 0 | Some s \<Rightarrow> word_of_int (atoi s))"

definition zero_stat :: stat where
  "zero_stat = \<lparr>st_mode = 0, st_size = 0, st_blksize = 0, st_blocks = 0, st_nlink = 0, st_ino = 0,
     st_ctime = 0, st_mtime = 0, st_atime = 0, st_uid = 0, st_gid = 0\<rparr>"

definition fillFileStat ::
    "'w ext \<Rightarrow> stat \<Rightarrow> 32 word \<Rightarrow> 32 word \<Rightarrow> int \<Rightarrow> 32 word \<Rightarrow> 32 word \<Rightarrow> 32 word \<Rightarrow> stat" where
  "fillFileStat e stbuf ino mode sz ctim mtim atim =
     stbuf\<lparr>st_mode := (if mode \<ge> 0x40 then or S_IFREG mode else or S_IFREG DEF_FILE_MODE),
           st_size := sz, st_blksize := FILE_BLOCK_SIZE, st_blocks := c_div sz FILE_BLOCK_SIZE + 1,
           st_nlink := 1, st_ino := ino, st_ctime := ctim, st_mtime := mtim, st_atime := atim,
           st_uid := c_getuid e, st_gid := c_getgid e\<rparr>"

definition fillDirStat :: "'w ext \<Rightarrow> stat \<Rightarrow> 32 word \<Rightarrow> 32 word \<Rightarrow> 32 word \<Rightarrow> 32 word \<Rightarrow> stat" where
  "fillDirStat e stbuf ino ctim mtim atim =
     stbuf\<lparr>st_mode := or S_IFDIR DEF_DIR_MODE, st_size := DIR_SIZE, st_nlink := 2, st_ino := ino,
           st_ctime := ctim, st_mtime := mtim, st_atime := atim,
           st_uid := c_getuid e, st_gid := c_getgid e\<rparr>"

definition iFuseFsInit :: "'w fs_state \<Rightarrow> 'w fs_state" where
  "iFuseFsInit s = (let opt = iFuseLibGetOption (get_lib s)
     in s\<lparr>g_ConnReuse := opt_connReuse opt, g_CacheMetadata := opt_cacheMetadata opt\<rparr>)"

definition obj_path :: "'w ext \<Rightarrow> string \<Rightarrow> string" where
  "obj_path e iRodsPath = rstrcpy e iRodsPath (MAX_NAME_LEN e)"

section \<open>Operations on a temporary connection\<close>

text \<open>
  Take a connection, lock it, work, unlock it, give it back: every path through these
  operations ends with the last two. The result is \<open>None\<close> when there was no connection.
\<close>

definition with_conn ::
    "'w ext \<Rightarrow> int \<Rightarrow> (nat \<Rightarrow> 'w fs_state \<Rightarrow> ('r \<times> 'w fs_state) option) \<Rightarrow> 'w fs_state
     \<Rightarrow> ('r option \<times> 'w fs_state) option" where
  "with_conn e connType f s =
     do { ((status, conn), s1) \<leftarrow> onC (iFuseConnGetAndUse e connType) s;
          if status < 0 then Some (None, s1)
          else do { p \<leftarrow> conn;
                    s2 \<leftarrow> onCU (iFuseConnLock p) s1;
                    (x, s3) \<leftarrow> f p s2;
                    s4 \<leftarrow> onCU (iFuseConnUnlock p) s3;
                    s5 \<leftarrow> onCU (iFuseConnUnuse e p) s4;
                    Some (Some x, s5) } }"

definition short_type :: "'w fs_state \<Rightarrow> int" where
  "short_type s = (if g_ConnReuse s then IFUSE_CONN_TYPE_FOR_SHORTOP else IFUSE_CONN_TYPE_FOR_ONETIMEUSE)"

definition file_type :: "'w fs_state \<Rightarrow> int" where
  "file_type s = (if g_ConnReuse s then IFUSE_CONN_TYPE_FOR_FILE_IO else IFUSE_CONN_TYPE_FOR_ONETIMEUSE)"

text \<open>The part of \<open>iFuseFsGetAttr\<close> that asks the caches: an answer, or none.\<close>

definition getattr_cached ::
    "'w ext \<Rightarrow> string \<Rightarrow> 'w fs_state \<Rightarrow> ((int \<times> stat option) option \<times> 'w fs_state) option" where
  "getattr_cached e iRodsPath s =
     (if \<not> g_CacheMetadata s then Some (None, s)
      else let (_, s1) = onMc (iFuseMetadataCacheClearExpiredStat e False) s in
           do { ((status, st), s2) \<leftarrow> onMcO (iFuseMetadataCacheGetStat e iRodsPath) s1;
                if status = 0 then Some (Some (0, st), s2)
                else let (_, s3) = onMc (iFuseMetadataCacheClearExpiredDir e False) s2
                     in if iFuseMetadataCacheCheckExistanceOfDirEntry e iRodsPath (mcache s3) = 1
                        then Some (Some (- ENOENT, None), s3) else Some (None, s3) })"

text \<open>The part that asks the server, with the connection locked.\<close>

definition getattr_server ::
    "'w ext \<Rightarrow> string \<Rightarrow> nat \<Rightarrow> 'w fs_state \<Rightarrow> ((int \<times> stat option) \<times> 'w fs_state) option" where
  "getattr_server e iRodsPath p s =
     do { (out, s1) \<leftarrow> onC (call_retry e True (\<lambda>(st, _). st < 0 \<and> st \<noteq> USER_FILE_DOES_NOT_EXIST e) fst
            (\<lambda>conn. iFuseRodsClientObjStat e conn (obj_path e iRodsPath)) p) s;
          (case out of
             Call_ok (st, rodsObjStatOut) \<Rightarrow>
               if st = USER_FILE_DOES_NOT_EXIST e then Some ((- ENOENT, None), s1)
               else (case rodsObjStatOut of
                 None \<Rightarrow> Some ((- ENOENT, None), s1)
               | Some so \<Rightarrow>
                   if os_objType so = UNKNOWN_OBJ_T then Some ((- ENOENT, None), s1)
                   else let stbuf = (if os_objType so = COLL_OBJ_T
                              then fillDirStat e zero_stat (safeAtoi (os_dataId so)) (safeAtoi (os_createTime so))
                                     (safeAtoi (os_modifyTime so)) (safeAtoi (os_modifyTime so))
                              else fillFileStat e zero_stat (safeAtoi (os_dataId so)) (os_dataMode so)
                                     (os_objSize so) (safeAtoi (os_createTime so))
                                     (safeAtoi (os_modifyTime so)) (safeAtoi (os_modifyTime so)))
                        in do { s2 \<leftarrow> (if g_CacheMetadata s1
                                      then do { (_, s2) \<leftarrow> onMcO (iFuseMetadataCachePutStat e iRodsPath stbuf) s1; Some s2 }
                                      else Some s1);
                                Some ((0, Some stbuf), s2) })
           | _ \<Rightarrow> Some ((- ENOENT, None), s1)) }"

definition iFuseFsGetAttr ::
    "'w ext \<Rightarrow> string \<Rightarrow> 'w fs_state \<Rightarrow> ((int \<times> stat option) \<times> 'w fs_state) option" where
  "iFuseFsGetAttr e iRodsPath s =
     do { (cached, s1) \<leftarrow> getattr_cached e iRodsPath s;
          (case cached of
             Some answer \<Rightarrow> Some (answer, s1)
           | None \<Rightarrow>
               do { (r, s2) \<leftarrow> with_conn e (short_type s1) (getattr_server e iRodsPath) s1;
                    (case r of None \<Rightarrow> Some ((- EIO, None), s2) | Some answer \<Rightarrow> Some (answer, s2)) }) }"

text \<open>
  A short operation that makes one call: \<open>failed\<close> and \<open>error_of\<close> are its test for a failure
  and the error a failure gives, \<open>after\<close> its update of the caches.
\<close>

definition short_op ::
    "'w ext \<Rightarrow> (rcComm \<Rightarrow> 'w rc_state \<Rightarrow> int \<times> 'w rc_state) \<Rightarrow> (int \<Rightarrow> bool)
     \<Rightarrow> (int outcome \<Rightarrow> int) \<Rightarrow> ('w fs_state \<Rightarrow> 'w fs_state) \<Rightarrow> 'w fs_state \<Rightarrow> (int \<times> 'w fs_state) option" where
  "short_op e call failed status_for after s =
     do { (r, s1) \<leftarrow> with_conn e IFUSE_CONN_TYPE_FOR_SHORTOP
            (\<lambda>p. onC (call_retry e True failed id call p)) s;
          (case r of
             None \<Rightarrow> Some (- EIO, s1)
           | Some out \<Rightarrow>
               if status_for out < 0 then Some (status_for out, s1)
               else Some (status_for out, if g_CacheMetadata s1 then after s1 else s1)) }"

text \<open>The status most of them return: \<open>-ENOENT\<close> for every failure, 0 otherwise.\<close>

definition zero_or_enoent :: "int outcome \<Rightarrow> int" where
  "zero_or_enoent out = (case out of Call_ok _ \<Rightarrow> 0 | _ \<Rightarrow> - ENOENT)"

definition status_or_enoent :: "int outcome \<Rightarrow> int" where
  "status_or_enoent out = (case out of Call_ok st \<Rightarrow> st | _ \<Rightarrow> - ENOENT)"

definition iFuseFsUnlink :: "'w ext \<Rightarrow> string \<Rightarrow> 'w fs_state \<Rightarrow> (int \<times> 'w fs_state) option" where
  "iFuseFsUnlink e iRodsPath =
     short_op e (\<lambda>conn. iFuseRodsClientDataObjUnlink e conn (obj_path e iRodsPath)) (\<lambda>st. st < 0) zero_or_enoent
       (\<lambda>s. onMcP (iFuseMetadataCacheRemoveDirEntry2 e iRodsPath)
              (onMcP (iFuseMetadataCacheRemoveStat iRodsPath) s))"

definition iFuseFsMakeDir :: "'w ext \<Rightarrow> string \<Rightarrow> 'w fs_state \<Rightarrow> (int \<times> 'w fs_state) option" where
  "iFuseFsMakeDir e iRodsPath =
     short_op e (\<lambda>conn. iFuseRodsClientCollCreate e conn (obj_path e iRodsPath)) (\<lambda>st. st < 0) status_or_enoent
       (\<lambda>s. snd (onMc (iFuseMetadataCacheAddDirEntryIfFresh2 e iRodsPath)
              (onMcP (iFuseMetadataCacheRemoveDir iRodsPath)
                (onMcP (iFuseMetadataCacheRemoveStat iRodsPath) s))))"

definition iFuseFsRemoveDir :: "'w ext \<Rightarrow> string \<Rightarrow> 'w fs_state \<Rightarrow> (int \<times> 'w fs_state) option" where
  "iFuseFsRemoveDir e iRodsPath =
     short_op e (\<lambda>conn. iFuseRodsClientRmColl e conn (obj_path e iRodsPath))
       (\<lambda>st. st < 0 \<and> st \<noteq> CAT_COLLECTION_NOT_EMPTY e)
       (\<lambda>out. case out of
          Call_ok st \<Rightarrow> if st = CAT_COLLECTION_NOT_EMPTY e then - ENOTEMPTY else 0
        | _ \<Rightarrow> - ENOENT)
       (\<lambda>s. onMcP (iFuseMetadataCacheRemoveDirEntry2 e iRodsPath)
              (onMcP (iFuseMetadataCacheRemoveDir iRodsPath)
                (onMcP (iFuseMetadataCacheRemoveStat iRodsPath) s)))"

definition iFuseFsRename :: "'w ext \<Rightarrow> string \<Rightarrow> string \<Rightarrow> 'w fs_state \<Rightarrow> (int \<times> 'w fs_state) option" where
  "iFuseFsRename e iRodsFromPath iRodsToPath =
     short_op e (\<lambda>conn. iFuseRodsClientDataObjRename e conn (obj_path e iRodsFromPath) (obj_path e iRodsToPath))
       (\<lambda>st. st < 0) zero_or_enoent
       (\<lambda>s. snd (onMc (iFuseMetadataCacheAddDirEntryIfFresh2 e iRodsToPath)
              (onMcP (iFuseMetadataCacheRemoveDirEntry2 e iRodsFromPath)
                (onMcP (iFuseMetadataCacheRemoveDir iRodsToPath)
                  (onMcP (iFuseMetadataCacheRemoveDir iRodsFromPath)
                    (onMcP (iFuseMetadataCacheRemoveStat iRodsToPath)
                      (onMcP (iFuseMetadataCacheRemoveStat iRodsFromPath) s)))))))"

definition iFuseFsTruncate :: "'w ext \<Rightarrow> string \<Rightarrow> int \<Rightarrow> 'w fs_state \<Rightarrow> (int \<times> 'w fs_state) option" where
  "iFuseFsTruncate e iRodsPath sz =
     short_op e (\<lambda>conn. iFuseRodsClientDataObjTruncate e conn (obj_path e iRodsPath) sz) (\<lambda>st. st < 0)
       zero_or_enoent (onMcP (iFuseMetadataCacheRemoveStat iRodsPath))"

definition iFuseFsChmod :: "'w ext \<Rightarrow> string \<Rightarrow> 32 word \<Rightarrow> 'w fs_state \<Rightarrow> (int \<times> 'w fs_state) option" where
  "iFuseFsChmod e iRodsPath mode =
     short_op e (\<lambda>conn. iFuseRodsClientModDataObjMeta e conn (obj_path e iRodsPath) mode) (\<lambda>st. st < 0)
       zero_or_enoent (onMcP (iFuseMetadataCacheRemoveStat iRodsPath))"

text \<open>Creating makes two calls on the same connection: create, and close what that opened.\<close>

definition create_close ::
    "'w ext \<Rightarrow> string \<Rightarrow> 32 word \<Rightarrow> nat \<Rightarrow> 'w fs_state \<Rightarrow> (int \<times> 'w fs_state) option" where
  "create_close e iRodsPath mode p s =
     do { let resc = rodsDefResource (iFuseLibGetRodsEnv (get_lib s));
          (out, s1) \<leftarrow> onC (call_retry e True (\<lambda>st. st < 0) id
            (\<lambda>conn. iFuseRodsClientDataObjCreate e conn (obj_path e iRodsPath) mode resc) p) s;
          (case out of
             Call_ok fd \<Rightarrow>
               do { (out2, s2) \<leftarrow> onC (call_retry e True (\<lambda>st. st < 0) id
                      (\<lambda>conn. iFuseRodsClientDataObjClose e conn fd) p) s1;
                    Some (status_or_enoent out2, s2) }
           | _ \<Rightarrow> Some (- ENOENT, s1)) }"

definition iFuseFsCreate :: "'w ext \<Rightarrow> string \<Rightarrow> 32 word \<Rightarrow> 'w fs_state \<Rightarrow> (int \<times> 'w fs_state) option" where
  "iFuseFsCreate e iRodsPath mode s =
     do { (r, s1) \<leftarrow> with_conn e IFUSE_CONN_TYPE_FOR_SHORTOP (create_close e iRodsPath mode) s;
          (case r of
             None \<Rightarrow> Some (- EIO, s1)
           | Some status \<Rightarrow>
               if status < 0 then Some (status, s1)
               else if g_CacheMetadata s1
               then let (_, s2) = onMc (iFuseMetadataCacheAddDirEntryIfFresh2 e iRodsPath)
                                    (onMcP (iFuseMetadataCacheRemoveStat iRodsPath) s1)
                    in Some (status, s2)
               else Some (status, s1)) }"

section \<open>Files\<close>

text \<open>
  When the descriptor cannot be opened, the connection is not given back. The mode is checked
  with \<open>O_ACCMODE\<close>.
\<close>

definition iFuseFsOpen ::
    "'w ext \<Rightarrow> string \<Rightarrow> flags \<Rightarrow> 'w fs_state \<Rightarrow> ((int \<times> nat option) \<times> 'w fs_state) option" where
  "iFuseFsOpen e iRodsPath openFlag s =
     do { ((status, conn), s1) \<leftarrow> onC (iFuseConnGetAndUse e (file_type s)) s;
          if status < 0 then Some ((- EIO, None), s1)
          else do {
            cp \<leftarrow> conn;
            ((status, fd), s2) \<leftarrow> onF (iFuseFdOpen e cp iRodsPath openFlag) s1;
            if status < 0 then Some ((- ENOENT, fd), s2)
            else Some ((0, fd),
              if g_CacheMetadata s2 \<and> accmode openFlag \<noteq> O_RDONLY
              then onMcP (iFuseMetadataCacheRemoveStat iRodsPath) s2 else s2) } }"

definition iFuseFsClose :: "'w ext \<Rightarrow> nat \<Rightarrow> 'w fs_state \<Rightarrow> (int \<times> 'w fs_state) option" where
  "iFuseFsClose e p s =
     do { d \<leftarrow> fd_heap (fds s) p;
          if \<not> fd_fd d > 0 then None
          else do {
            (status, s1) \<leftarrow> onF (iFuseFdClose e p) s;
            if status < 0 then Some (- ENOENT, s1)
            else do {
              cp \<leftarrow> fd_conn d;
              s2 \<leftarrow> onCU (iFuseConnUnuse e cp) s1;
              Some (0, if g_CacheMetadata s2 \<and> accmode (fd_openFlag d) \<noteq> O_RDONLY
                       then onMcP (iFuseMetadataCacheRemoveStat (fd_iRodsPath d)) s2 else s2) } } }"

text \<open>
  Reading and writing first move the server's file pointer when it is not at \<open>off\<close>. The
  result is the error to return at once, or none.
\<close>

definition seek_to :: "'w ext \<Rightarrow> nat \<Rightarrow> nat \<Rightarrow> int \<Rightarrow> 'w fs_state \<Rightarrow> (int option \<times> 'w fs_state) option" where
  "seek_to e p cp off s =
     do { d \<leftarrow> fd_heap (fds s) p;
          if fd_lastFilePointer d = off then Some (None, s)
          else do {
            (out, s1) \<leftarrow> onC (call_retry e True (\<lambda>(st, lseekOut). st < 0 \<or> lseekOut = None) fst
              (\<lambda>conn. iFuseRodsClientDataObjLseek e conn (fd_fd d) off) cp) s;
            (case out of
               Call_ok (st, lseekOut) \<Rightarrow>
                 if lseekOut = Some off
                 then do { s2 \<leftarrow> onFU (update_fd p (\<lambda>d. d\<lparr>fd_lastFilePointer := off\<rparr>)) s1; Some (None, s2) }
                 else do { s2 \<leftarrow> onFU (update_fd p (\<lambda>d. d\<lparr>fd_lastFilePointer := - 1\<rparr>)) s1; Some (Some (- ENOENT), s2) }
             | _ \<Rightarrow> do { s2 \<leftarrow> onFU (update_fd p (\<lambda>d. d\<lparr>fd_lastFilePointer := - 1\<rparr>)) s1;
                         Some (Some (fst (result out)), s2) }) } }"

text \<open>What a failing read or write returns: the errno of the iRODS error when it has one.\<close>

definition io_error :: "'w ext \<Rightarrow> int \<Rightarrow> int" where
  "io_error e status = (if getErrno e status > 0 then - getErrno e status else - ENOENT)"

definition read_locked ::
    "'w ext \<Rightarrow> nat \<Rightarrow> nat \<Rightarrow> int \<Rightarrow> nat \<Rightarrow> 'w fs_state \<Rightarrow> ((int \<times> bytes) \<times> 'w fs_state) option" where
  "read_locked e p cp off sz s =
     do { (early, s1) \<leftarrow> seek_to e p cp off s;
          (case early of
             Some status \<Rightarrow> Some ((status, []), s1)
           | None \<Rightarrow>
               do { d \<leftarrow> fd_heap (fds s1) p;
                    (out, s2) \<leftarrow> onC (call_retry e True (\<lambda>(st, _). st < 0) fst
                      (\<lambda>conn. iFuseRodsClientDataObjRead e conn (fd_fd d) sz) cp) s1;
                    (case out of
                       Call_ok (status, outbuf) \<Rightarrow>
                         if int sz < status then None
                         else do {
                           data \<leftarrow> slice outbuf 0 (nat status);
                           s3 \<leftarrow> onFU (update_fd p (\<lambda>d. d\<lparr>fd_lastFilePointer := fd_lastFilePointer d + status\<rparr>)) s2;
                           Some ((status, data), s3) }
                     | Reconnect_failed _ \<Rightarrow> Some ((- ENOENT, []), s2)
                     | _ \<Rightarrow> Some ((io_error e (fst (result out)), []), s2)) }) }"

definition write_locked ::
    "'w ext \<Rightarrow> nat \<Rightarrow> nat \<Rightarrow> int \<Rightarrow> bytes \<Rightarrow> 'w fs_state \<Rightarrow> (int \<times> 'w fs_state) option" where
  "write_locked e p cp off buf s =
     do { (early, s1) \<leftarrow> seek_to e p cp off s;
          (case early of
             Some status \<Rightarrow> Some (status, s1)
           | None \<Rightarrow>
               do { d \<leftarrow> fd_heap (fds s1) p;
                    (out, s2) \<leftarrow> onC (call_retry e True (\<lambda>st. st < 0) id
                      (\<lambda>conn. iFuseRodsClientDataObjWrite e conn (fd_fd d) buf) cp) s1;
                    (case out of
                       Call_ok status \<Rightarrow>
                         do { s3 \<leftarrow> onFU (update_fd p (\<lambda>d. d\<lparr>fd_lastFilePointer := fd_lastFilePointer d + status\<rparr>)) s2;
                              Some (status, s3) }
                     | Reconnect_failed _ \<Rightarrow> Some (- ENOENT, s2)
                     | _ \<Rightarrow> Some (io_error e (result out), s2)) }) }"

text \<open>Both lock the descriptor, then its connection, and release them on every path.\<close>

definition with_fd_lock ::
    "nat \<Rightarrow> (nat \<Rightarrow> 'w fs_state \<Rightarrow> ('r \<times> 'w fs_state) option) \<Rightarrow> 'w fs_state \<Rightarrow> ('r \<times> 'w fs_state) option" where
  "with_fd_lock p f s =
     do { d \<leftarrow> fd_heap (fds s) p;
          if \<not> fd_fd d > 0 then None
          else do {
            cp \<leftarrow> fd_conn d;
            s1 \<leftarrow> onFU (iFuseFdLock p) s;
            s2 \<leftarrow> onCU (iFuseConnLock cp) s1;
            (x, s3) \<leftarrow> f cp s2;
            s4 \<leftarrow> onCU (iFuseConnUnlock cp) s3;
            s5 \<leftarrow> onFU (iFuseFdUnlock p) s4;
            Some (x, s5) } }"

definition iFuseFsRead ::
    "'w ext \<Rightarrow> nat \<Rightarrow> int \<Rightarrow> nat \<Rightarrow> 'w fs_state \<Rightarrow> ((int \<times> bytes) \<times> 'w fs_state) option" where
  "iFuseFsRead e p off sz = with_fd_lock p (\<lambda>cp. read_locked e p cp off sz)"

definition iFuseFsWrite ::
    "'w ext \<Rightarrow> nat \<Rightarrow> bytes \<Rightarrow> int \<Rightarrow> 'w fs_state \<Rightarrow> (int \<times> 'w fs_state) option" where
  "iFuseFsWrite e p buf off = with_fd_lock p (\<lambda>cp. write_locked e p cp off buf)"

definition iFuseFsFlush :: "'w ext \<Rightarrow> nat \<Rightarrow> 'w fs_state \<Rightarrow> (int \<times> 'w fs_state) option" where
  "iFuseFsFlush e p s =
     do { d \<leftarrow> fd_heap (fds s) p;
          if \<not> fd_fd d > 0 then None
          else do {
            (status, s1) \<leftarrow> onF (iFuseFdReopen e p) s;
            if status < 0 then Some (- ENOENT, s1)
            else Some (0, if g_CacheMetadata s1
                          then onMcP (iFuseMetadataCacheRemoveStat (fd_iRodsPath d)) s1 else s1) } }"

section \<open>Directories\<close>

definition iFuseFsOpenDir ::
    "'w ext \<Rightarrow> string \<Rightarrow> 'w fs_state \<Rightarrow> ((int \<times> nat option) \<times> 'w fs_state) option" where
  "iFuseFsOpenDir e iRodsPath s =
     do { (cached, s1) \<leftarrow>
            (if g_CacheMetadata s
             then let (_, s1) = onMc (iFuseMetadataCacheClearExpiredDir e False) s in
                  do { ((status, entries), s2) \<leftarrow> onMcO (iFuseMetadataCacheGetDirEntry e iRodsPath) s1;
                       Some (if status = 0 then entries else None, s2) }
             else Some (None, s));
          (case cached of
             Some entries \<Rightarrow>
               let ((status, dir), d) = iFuseDirOpenWithCache e iRodsPath entries (fds s1);
                   s2 = s1\<lparr>fds := d\<rparr>
               in if status < 0 then Some ((- ENOENT, dir), s2) else Some ((0, dir), s2)
           | None \<Rightarrow>
               do { ((status, conn), s2) \<leftarrow> onC (iFuseConnGetAndUse e (file_type s1)) s1;
                    if status < 0 then Some ((- EIO, None), s2)
                    else do {
                      cp \<leftarrow> conn;
                      ((status, dir), s3) \<leftarrow> onF (iFuseDirOpen e cp iRodsPath) s2;
                      if status < 0 then Some ((- ENOENT, dir), s3) else Some ((0, dir), s3) } }) }"

definition iFuseFsCloseDir :: "'w ext \<Rightarrow> nat \<Rightarrow> 'w fs_state \<Rightarrow> (int \<times> 'w fs_state) option" where
  "iFuseFsCloseDir e p s =
     do { d \<leftarrow> dir_heap (fds s) p;
          (status, s1) \<leftarrow> onF (iFuseDirClose e p) s;
          if status < 0 then Some (- ENOENT, s1)
          else (case dd_conn d of
                  None \<Rightarrow> Some (0, s1)
                | Some cp \<Rightarrow> do { s2 \<leftarrow> onCU (iFuseConnUnuse e cp) s1; Some (0, s2) }) }"

text \<open>
  Walking the buffer of a cached listing: \<open>strlen\<close> past its end, when no terminator is left,
  is undefined.
\<close>

function parse_entries :: "bytes \<Rightarrow> string list option" where
  "parse_entries buf =
     (if buf = [] then Some []
      else if NUL \<notin> set buf then None
      else let name = takeWhile (\<lambda>c. c \<noteq> NUL) buf in
           do { rest \<leftarrow> parse_entries (drop (length name + 1) buf);
                Some (if length name > 0 then name # rest else rest) })"
  by pat_completeness auto
termination by (relation "measure length") auto

declare parse_entries.simps [simp del]

text \<open>One entry of the server's listing: what it adds to the caches, and its name.\<close>

definition cache_entry ::
    "'w ext \<Rightarrow> string \<Rightarrow> string \<Rightarrow> stat \<Rightarrow> 'w fs_state \<Rightarrow> 'w fs_state option" where
  "cache_entry e dir name stbuf s =
     (if g_CacheMetadata s
      then do { (_, s1) \<leftarrow> onMcO (iFuseMetadataCachePutStat2 e dir name stbuf) s;
                let (_, s2) = onMc (iFuseMetadataCacheAddDirEntry e dir name) s1;
                Some s2 }
      else Some s)"

definition list_entry ::
    "'w ext \<Rightarrow> string \<Rightarrow> collEnt \<Rightarrow> 'w fs_state \<Rightarrow> (string list \<times> 'w fs_state) option" where
  "list_entry e dir ent s =
     (if ce_objType ent = DATA_OBJ_T then
        do { s1 \<leftarrow> cache_entry e dir (ce_dataName ent)
               (fillFileStat e zero_stat (safeAtoi (ce_dataId ent)) (ce_dataMode ent) (ce_dataSize ent)
                  (safeAtoi (ce_createTime ent)) (safeAtoi (ce_modifyTime ent)) (safeAtoi (ce_modifyTime ent))) s;
             Some ([ce_dataName ent], s1) }
      else if ce_objType ent = COLL_OBJ_T then
        (case iFuseLibGetFilename e (ce_collName ent) (MAX_NAME_LEN e) of
           (status, Some filename) \<Rightarrow>
             if status = 0 then
               do { s1 \<leftarrow> cache_entry e dir filename
                      (fillDirStat e zero_stat (safeAtoi (ce_dataId ent)) (safeAtoi (ce_createTime ent))
                         (safeAtoi (ce_modifyTime ent)) (safeAtoi (ce_modifyTime ent))) s;
                    Some ([filename], s1) }
             else Some ([], s)
         | (status, None) \<Rightarrow> Some ([], s))
      else Some ([], s))"

definition zero_collEnt :: collEnt where
  "zero_collEnt = \<lparr>ce_objType = UNKNOWN_OBJ_T, ce_dataName = '''', ce_collName = '''', ce_dataMode = 0,
     ce_dataSize = 0, ce_dataId = None, ce_createTime = None, ce_modifyTime = None\<rparr>"

text \<open>
  The loop over the server's listing ends when the server reports an error or the end; \<open>None\<close>
  is also the value of a loop that does not end.
\<close>

partial_function (option) read_entries ::
    "'w ext \<Rightarrow> nat \<Rightarrow> nat \<Rightarrow> string \<Rightarrow> collEnt \<Rightarrow> string list \<Rightarrow> 'w fs_state \<Rightarrow> (string list \<times> 'w fs_state) option" where
  "read_entries e cp h dir ent names s =
     do { cn \<leftarrow> conn_heap (conns (fds s)) cp;
          let ((status, ent'), c1) = onRc (iFuseRodsClientReadCollection e (cn_conn cn) h ent) (conns (fds s));
          let s1 = s\<lparr>fds := (fds s)\<lparr>conns := c1\<rparr>\<rparr>;
          if status < 0 then Some (names, s1)
          else do { s2 \<leftarrow> onCU (iFuseConnUpdateLastActTime e cp False) s1;
                    (new, s3) \<leftarrow> list_entry e dir ent' s2;
                    read_entries e cp h dir ent' (names @ new) s3 } }"

text \<open>Both loops over a listing lock the directory and its connection.\<close>

definition list_dir ::
    "'w ext \<Rightarrow> nat \<Rightarrow> 'w fs_state \<Rightarrow> (string list \<times> 'w fs_state) option" where
  "list_dir e p s =
     do { d \<leftarrow> dir_heap (fds s) p;
          cp \<leftarrow> dd_conn d;
          h \<leftarrow> dd_handle d;
          s1 \<leftarrow> onFU (iFuseDirLock p) s;
          s2 \<leftarrow> onCU (iFuseConnLock cp) s1;
          (names, s3) \<leftarrow> read_entries e cp h (dd_iRodsPath d) zero_collEnt [] s2;
          s4 \<leftarrow> onCU (iFuseConnUnlock cp) s3;
          s5 \<leftarrow> onFU (iFuseDirUnlock p) s4;
          Some (names, s5) }"

text \<open>The result is the status and the names given to the filler.\<close>

definition iFuseFsReadDir ::
    "'w ext \<Rightarrow> nat \<Rightarrow> 'w fs_state \<Rightarrow> ((int \<times> string list) \<times> 'w fs_state) option" where
  "iFuseFsReadDir e p s =
     do { d \<leftarrow> dir_heap (fds s) p;
          (case (g_CacheMetadata s, dd_cachedEntries d) of
             (True, Some entries) \<Rightarrow>
               do { names \<leftarrow> parse_entries (take (dd_cachedEntryBufferLen d) entries);
                    Some ((0, names), s) }
           | _ \<Rightarrow>
               do { let s1 = (if g_CacheMetadata s
                              then onMcP (iFuseMetadataCacheRemoveDir (dd_iRodsPath d)) s else s);
                    (names, s2) \<leftarrow> list_dir e p s1;
                    Some ((0, names), s2) }) }"

definition iFuseFsCacheDir :: "'w ext \<Rightarrow> string \<Rightarrow> 'w fs_state \<Rightarrow> (int \<times> 'w fs_state) option" where
  "iFuseFsCacheDir e iRodsPath s =
     (if \<not> g_CacheMetadata s then Some (0, s)
      else let (_, s1) = onMc (iFuseMetadataCacheClearExpiredDir e False) s in
        do { ((status, entries), s2) \<leftarrow> onMcO (iFuseMetadataCacheGetDirEntry e iRodsPath) s1;
             if status = 0 then Some (0, s2)
             else do {
               ((status, conn), s3) \<leftarrow> onC (iFuseConnGetAndUse e (file_type s2)) s2;
               if status < 0 then Some (- EIO, s3)
               else do {
                 cp \<leftarrow> conn;
                 ((status, dir), s4) \<leftarrow> onF (iFuseDirOpen e cp iRodsPath) s3;
                 if status < 0 then Some (- ENOENT, s4)
                 else do {
                   p \<leftarrow> dir;
                   (_, s5) \<leftarrow> list_dir e p s4;
                   (status, s6) \<leftarrow> onF (iFuseDirClose e p) s5;
                   if status < 0 then Some (- ENOENT, s6)
                   else do { s7 \<leftarrow> onCU (iFuseConnUnuse e cp) s6; Some (0, s7) } } } } })"

section \<open>Requests\<close>

text \<open>The two requests, numbered by \<open>_IO\<close> and \<open>_IOR\<close>; any other is refused.\<close>

datatype ioctlCmd = IFUSEIOC_RESET_METADATA_CACHE | IFUSEIOC_SHOW_CONNECTIONS | OTHER_IOCTL "32 word"

definition iFuseFsIoctl ::
    "'w ext \<Rightarrow> ioctlCmd \<Rightarrow> 'w fs_state \<Rightarrow> (int \<times> iFuseFsConnReport option) \<times> 'w fs_state" where
  "iFuseFsIoctl e cmd s =
     (case cmd of
        IFUSEIOC_RESET_METADATA_CACHE \<Rightarrow>
          ((0, None), if g_CacheMetadata s then s\<lparr>mcache := iFuseMetadataCacheClear (mcache s)\<rparr> else s)
      | IFUSEIOC_SHOW_CONNECTIONS \<Rightarrow>
          let (report, c) = iFuseConnReport e (conns (fds s))
          in ((0, Some report), s\<lparr>fds := (fds s)\<lparr>conns := c\<rparr>\<rparr>)
      | OTHER_IOCTL _ \<Rightarrow> ((- EINVAL, None), s))"


section \<open>What the operations on the caches keep\<close>

definition lib_same :: "'w lib_state \<Rightarrow> 'w lib_state \<Rightarrow> bool" where
  "lib_same l l' \<longleftrightarrow> heap_next l' = heap_next l \<and> g_iFuseOpt l' = g_iFuseOpt l \<and> g_iFuseEnv l' = g_iFuseEnv l"

lemma lib_same_refl [simp, intro]: "lib_same l l"
  by (simp add: lib_same_def)

lemma lib_same_trans [trans]: "lib_same l l' \<Longrightarrow> lib_same l' l'' \<Longrightarrow> lib_same l l''"
  by (simp add: lib_same_def)

lemma lib_same_time: "iFuseLibGetCurrentTime e l = (x, l') \<Longrightarrow> lib_same l l'"
  by (auto simp: iFuseLibGetCurrentTime_def lib_same_def split: prod.splits)

lemma lib_same_mem: "mem_ok e l = (x, l') \<Longrightarrow> lib_same l l'"
  by (auto simp: mem_ok_def lib_same_def split: prod.splits)

lemma lib_same_world [simp]: "lib_same l (l\<lparr>world := w\<rparr>)"
  by (simp add: lib_same_def)

lemma newStatCache_lib: "newStatCache e l = (x, l') \<Longrightarrow> lib_same l l'"
  by (auto simp: newStatCache_def Let_def split: prod.splits if_splits
      dest!: lib_same_time lib_same_mem intro: lib_same_trans)

lemma newDirCache_lib: "newDirCache e l = (x, l') \<Longrightarrow> lib_same l l'"
  by (auto simp: newDirCache_def Let_def split: prod.splits if_splits
      dest!: lib_same_time lib_same_mem intro: lib_same_trans)

lemma cacheStat_lib: "cacheStat e k st s = Some (x, s') \<Longrightarrow> lib_same (fst s) (fst s')"
  by (cases s)
    (auto simp: cacheStat_def Let_def split: prod.splits if_splits option.splits
      dest!: newStatCache_lib lib_same_mem intro: lib_same_trans)

lemma dir_cache_for_lib: "dir_cache_for e k s = (x, s') \<Longrightarrow> lib_same (fst s) (fst s')"
  by (cases s)
    (auto simp: dir_cache_for_def Let_def split: prod.splits if_splits option.splits
      dest!: newDirCache_lib lib_same_mem intro: lib_same_trans)

lemma cacheDirEntry_lib: "cacheDirEntry e k n s = (x, s') \<Longrightarrow> lib_same (fst s) (fst s')"
  by (auto simp: cacheDirEntry_def Let_def split: prod.splits if_splits option.splits
      dest!: dir_cache_for_lib lib_same_mem intro: lib_same_trans)

lemma checkFresh_lib: "checkFreshessOfDirCache e k s = (x, s') \<Longrightarrow> lib_same (fst s) (fst s')"
  by (cases s)
    (auto simp: checkFreshessOfDirCache_def Let_def split: prod.splits if_splits option.splits
      dest!: lib_same_time)

lemma getStatCache_lib: "getStatCache e k s = Some (x, s') \<Longrightarrow> lib_same (fst s) (fst s')"
  by (cases s)
    (auto simp: getStatCache_def Let_def split: prod.splits if_splits option.splits dest!: lib_same_time)

lemma getDirCache_lib: "getDirCache e k s = Some (x, s') \<Longrightarrow> lib_same (fst s) (fst s')"
  by (cases s)
    (auto simp: getDirCache_def Let_def split: prod.splits if_splits option.splits
      dest!: lib_same_time lib_same_mem intro: lib_same_trans)

lemma expired_keys_lib: "expired_keys e f limit m l = (ks, l') \<Longrightarrow> lib_same l l'"
proof (induction e f limit m l arbitrary: ks l' rule: expired_keys.induct)
  case (3 e f limit key c m l)
  then show ?case by (auto simp: Let_def split: prod.splits dest!: lib_same_time intro: lib_same_trans)
qed (auto split: prod.splits)

lemma clearExpired_lib:
  "clearExpiredStatCache e s = (x, s') \<Longrightarrow> lib_same (fst s) (fst s')"
  "clearExpiredDirCache e s = (x, s') \<Longrightarrow> lib_same (fst s) (fst s')"
  by (cases s, auto simp: clearExpiredStatCache_def clearExpiredDirCache_def split: prod.splits dest!: expired_keys_lib)+

lemma ClearExpired_lib:
  "iFuseMetadataCacheClearExpiredStat e force s = (x, s') \<Longrightarrow> lib_same (fst s) (fst s')"
  "iFuseMetadataCacheClearExpiredDir e force s = (x, s') \<Longrightarrow> lib_same (fst s) (fst s')"
  by (cases s, fastforce simp: iFuseMetadataCacheClearExpiredStat_def iFuseMetadataCacheClearExpiredDir_def Let_def
      split: prod.splits if_splits dest!: clearExpired_lib lib_same_time intro: lib_same_trans)+

lemma mc_step_lib: "mc_step e s s' \<Longrightarrow> lib_same (fst s) (fst s')"
proof (induction rule: mc_step.induct)
  case (add_fresh k n s x s')
  then show ?case
    by (auto simp: iFuseMetadataCacheAddDirEntryIfFresh_def Let_def split: prod.splits if_splits
        dest!: checkFresh_lib cacheDirEntry_lib intro: lib_same_trans)
next
  case (add_fresh2 k s x s')
  then show ?case
    by (auto simp: iFuseMetadataCacheAddDirEntryIfFresh2_def Let_def
        split: prod.splits option.splits if_splits
        dest!: checkFresh_lib cacheDirEntry_lib intro: lib_same_trans)
qed (auto simp: iFuseMetadataCachePutStat_def iFuseMetadataCachePutStat2_def iFuseMetadataCacheAddDirEntry_def
    iFuseMetadataCacheGetStat_def iFuseMetadataCacheGetDirEntry_def split: option.splits if_splits
    dest!: cacheStat_lib cacheDirEntry_lib getStatCache_lib getDirCache_lib ClearExpired_lib)


section \<open>The invariant of the file system\<close>

definition fs_inv :: "'w fs_state \<Rightarrow> bool" where
  "fs_inv s \<longleftrightarrow> fd_inv (fds s) \<and> mc_ok (mcache s)"

text \<open>
  \<open>fs_same s s'\<close>: descriptors, options and everybody's references to connections are as they
  were, and the pool and the caches are well formed. \<open>fs_touch\<close> says the same of a step
  taken while a connection is held: the pool was only touched.
\<close>

definition fs_same :: "'w fs_state \<Rightarrow> 'w fs_state \<Rightarrow> bool" where
  "fs_same s s' \<longleftrightarrow> (\<exists>c m. s' = s\<lparr>fds := (fds s)\<lparr>conns := c\<rparr>, mcache := m\<rparr> \<and> conn_inv c \<and> mc_ok m
     \<and> rc_le (rcs (conns (fds s))) (rcs c) \<and> conn_refs c = conn_refs (conns (fds s)))"

definition fs_touch :: "'w fs_state \<Rightarrow> 'w fs_state \<Rightarrow> bool" where
  "fs_touch s s' \<longleftrightarrow> (\<exists>c m. s' = s\<lparr>fds := (fds s)\<lparr>conns := c\<rparr>, mcache := m\<rparr>
     \<and> touch_ok (conns (fds s)) c \<and> (mc_ok (mcache s) \<longrightarrow> mc_ok m))"

lemma fs_inv_D: "fs_inv s \<Longrightarrow> fd_inv (fds s)" "fs_inv s \<Longrightarrow> mc_ok (mcache s)" "fs_inv s \<Longrightarrow> conn_inv (conns (fds s))"
  by (auto simp: fs_inv_def fd_inv_def)

lemma fs_inv_same: "fs_inv s \<Longrightarrow> fs_same s s' \<Longrightarrow> fs_inv s'"
  unfolding fs_same_def fs_inv_def by (elim exE conjE) (simp add: fd_inv_conns fd_inv_refs)

lemma fs_same_refl: "fs_inv s \<Longrightarrow> fs_same s s"
  unfolding fs_same_def by (intro exI [of _ "conns (fds s)"] exI [of _ "mcache s"]) (simp add: fs_inv_D)

lemma fs_same_trans: "fs_same s s' \<Longrightarrow> fs_same s' s'' \<Longrightarrow> fs_same s s''"
  unfolding fs_same_def by (elim exE conjE) (auto intro: rc_le_trans)

lemma fs_touch_refl [simp, intro]: "fs_touch s s"
  unfolding fs_touch_def by (intro exI [of _ "conns (fds s)"] exI [of _ "mcache s"]) simp

lemma fs_touch_trans: "fs_touch s s' \<Longrightarrow> fs_touch s' s'' \<Longrightarrow> fs_touch s s''"
  unfolding fs_touch_def by (elim exE conjE) (auto intro: touch_ok_trans)

lemma fs_touch_same: "fs_touch s s' \<Longrightarrow> fs_inv s \<Longrightarrow> fs_same s s'"
  unfolding fs_touch_def fs_same_def by (fastforce dest: fs_inv_D touch_okD(1,2,4))

lemma fs_touch_inv: "fs_touch s s' \<Longrightarrow> fs_inv s \<Longrightarrow> fs_inv s'"
  by (blast intro: fs_inv_same fs_touch_same)

lemma fs_touch_conns: "fs_touch s s' \<Longrightarrow> touch_ok (conns (fds s)) (conns (fds s'))"
  by (auto simp: fs_touch_def)

lemma fs_touch_fields:
  assumes "fs_touch s s'"
  shows "g_CacheMetadata s' = g_CacheMetadata s" "g_ConnReuse s' = g_ConnReuse s"
    "fd_heap (fds s') = fd_heap (fds s)" "dir_heap (fds s') = dir_heap (fds s)"
    "dom (conn_heap (conns (fds s'))) = dom (conn_heap (conns (fds s)))"
  using assms unfolding fs_touch_def by (elim exE conjE, simp add: touch_okD(6))+

lemma fs_same_fields:
  assumes "fs_same s s'"
  shows "g_CacheMetadata s' = g_CacheMetadata s" "g_ConnReuse s' = g_ConnReuse s"
    "fd_heap (fds s') = fd_heap (fds s)" "dir_heap (fds s') = dir_heap (fds s)"
    "conn_refs (conns (fds s')) = conn_refs (conns (fds s))" "held (fds s') = held (fds s)"
  using assms by (auto simp: fs_same_def)

text \<open>Steps that touch the pool only, and steps on the caches.\<close>

lemma fs_touch_conn: "touch_ok (conns (fds s)) c \<Longrightarrow> fs_touch s (s\<lparr>fds := (fds s)\<lparr>conns := c\<rparr>\<rparr>)"
  unfolding fs_touch_def by (intro exI [of _ c] exI [of _ "mcache s"]) simp

lemma onC_nf: "f (conns (fds s)) = Some (x, c) \<Longrightarrow> onC f s = Some (x, s\<lparr>fds := (fds s)\<lparr>conns := c\<rparr>\<rparr>)"
  by (simp add: onC_def onF_def onConn_def)

lemma onCU_nf: "f (conns (fds s)) = Some c \<Longrightarrow> onCU f s = Some (s\<lparr>fds := (fds s)\<lparr>conns := c\<rparr>\<rparr>)"
  by (simp add: onCU_def)

lemma put_lib_touch:
  assumes "lib_same (get_lib s) l" and "mc_ok (mcache s) \<longrightarrow> mc_ok m"
  shows "fs_touch s (put_lib l (s\<lparr>mcache := m\<rparr>))"
proof -
  have "rc_le (rcs (conns (fds s))) ((rcs (conns (fds s)))\<lparr>lib := l\<rparr>)"
    using assms(1) by (auto simp: rc_le_def lib_same_def ops_ok_def get_lib_def)
  from touch_ok_rcs [OF this] show ?thesis
    unfolding fs_touch_def put_lib_def using assms(2)
    by (intro exI [of _ "(conns (fds s))\<lparr>rcs := (rcs (conns (fds s)))\<lparr>lib := l\<rparr>\<rparr>"] exI [of _ m]) simp
qed

lemma mc_step_touch:
  assumes "mc_step e (get_lib s, mcache s) (l, m)"
  shows "fs_touch s (put_lib l (s\<lparr>mcache := m\<rparr>))"
  using mc_step_lib [OF assms] mc_ok_step [OF assms] by (auto intro!: put_lib_touch)

lemma onMc_touch:
  assumes "onMc f s = (x, s')" and "\<And>y t. f (get_lib s, mcache s) = (y, t) \<Longrightarrow> mc_step e (get_lib s, mcache s) t"
  shows "fs_touch s s'"
  using assms by (auto simp: onMc_def split: prod.splits intro: mc_step_touch)

lemma onMcO_touch:
  assumes "onMcO f s = Some (x, s')"
    and "\<And>y t. f (get_lib s, mcache s) = Some (y, t) \<Longrightarrow> mc_step e (get_lib s, mcache s) t"
  shows "fs_touch s s'"
  using assms by (auto simp: onMcO_def intro: mc_step_touch)

lemma onMcP_touch:
  assumes "\<And>m. mc_ok m \<Longrightarrow> mc_ok (snd (f m))"
  shows "fs_touch s (onMcP f s)"
  unfolding fs_touch_def onMcP_def using assms
  by (intro exI [of _ "conns (fds s)"] exI [of _ "snd (f (mcache s))"]) simp


section \<open>Operations on a temporary connection are balanced\<close>

text \<open>Fewer than \<open>2 ^ 64 - 1\<close> connections were made so far.\<close>

definition conn_room :: "'w fs_state \<Rightarrow> bool" where
  "conn_room s \<longleftrightarrow> g_ConnIDGen (conns (fds s)) < - 1"

definition conn_types :: "int set" where
  "conn_types = {IFUSE_CONN_TYPE_FOR_FILE_IO, IFUSE_CONN_TYPE_FOR_SHORTOP, IFUSE_CONN_TYPE_FOR_ONETIMEUSE}"

lemma types_in [simp]: "short_type s \<in> conn_types" "file_type s \<in> conn_types" "IFUSE_CONN_TYPE_FOR_SHORTOP \<in> conn_types"
  by (simp_all add: conn_types_def short_type_def file_type_def)

lemma fs_get_cases:
  assumes inv: "fs_inv s" and mem: "calloc_ok e" and room: "conn_room s" and t: "t \<in> conn_types"
  obtains (failed) status s' where "onC (iFuseConnGetAndUse e t) s = Some ((status, None), s')" "status < 0"
      "fs_same s s'"
  | (got) p c where "onC (iFuseConnGetAndUse e t) s = Some ((0, Some p), s\<lparr>fds := (fds s)\<lparr>conns := c\<rparr>\<rparr>)"
      "conn_inv c" "rc_le (rcs (conns (fds s))) (rcs c)" "0 < conn_refs c p"
      "conn_refs c = (conn_refs (conns (fds s)))(p := conn_refs (conns (fds s)) p + 1)"
      "fs_inv (s\<lparr>fds := (fds s)\<lparr>conns := c\<rparr>\<rparr>)"
proof -
  from inv mem have i: "conn_inv (conns (fds s)) \<and> calloc_ok e" by (simp add: fs_inv_D)
  show ?thesis
  proof (rule pool.get_cases [OF i room [unfolded conn_room_def] t [unfolded conn_types_def]])
    fix status c assume a: "iFuseConnGetAndUse e t (conns (fds s)) = Some ((status, None), c)" "status < 0"
      "conn_inv c \<and> calloc_ok e" "rc_le (rcs (conns (fds s))) (rcs c)" "conn_refs c = conn_refs (conns (fds s))"
    have "fs_same s (s\<lparr>fds := (fds s)\<lparr>conns := c\<rparr>\<rparr>)"
      unfolding fs_same_def using a fs_inv_D [OF inv]
      by (intro exI [of _ c] exI [of _ "mcache s"]) simp
    then show ?thesis by (rule failed [OF onC_nf [where f = "iFuseConnGetAndUse e t" and s = s, OF a(1)] a(2)])
  next
    fix p c assume a: "iFuseConnGetAndUse e t (conns (fds s)) = Some ((0, Some p), c)"
      "conn_inv c \<and> calloc_ok e" "rc_le (rcs (conns (fds s))) (rcs c)" "0 < conn_refs c p"
      "conn_refs c = (conn_refs (conns (fds s)))(p := conn_refs (conns (fds s)) p + 1)"
    have "fd_inv ((fds s)\<lparr>conns := c\<rparr>)"
    proof (rule fd_inv_conns)
      fix cp show "int (held (fds s) cp) \<le> conn_refs c cp"
        using fd_inv_refs [OF fs_inv_D(1) [OF inv], of cp] a(5) by (auto split: if_splits)
    qed (use a fs_inv_D [OF inv] in auto)
    then have "fs_inv (s\<lparr>fds := (fds s)\<lparr>conns := c\<rparr>\<rparr>)" using inv by (simp add: fs_inv_def)
    with a show ?thesis by (intro got [OF onC_nf [where f = "iFuseConnGetAndUse e t" and s = s, OF a(1)]]) auto
  qed
qed

lemma fs_lock_live:
  assumes "p \<in> dom (conn_heap (conns (fds s)))"
  shows "\<exists>s'. onCU (iFuseConnLock p) s = Some s' \<and> fs_touch s s'"
    and "\<exists>s'. onCU (iFuseConnUnlock p) s = Some s' \<and> fs_touch s s'"
  using lock_live [OF assms] by (auto simp: iFuseConnLock_def iFuseConnUnlock_def onCU_def intro!: fs_touch_conn)

text \<open>A call on a live connection returns and touches the pool only.\<close>

lemma fs_call_live:
  assumes "\<And>conn r x r'. call conn r = (x, r') \<Longrightarrow> rc_le r r'" and "p \<in> dom (conn_heap (conns (fds s)))"
  shows "\<exists>out s'. onC (call_retry e noted failed status_of call p) s = Some (out, s') \<and> fs_touch s s'
    \<and> mcache s' = mcache s \<and> (\<forall>r. out = Call_ok r \<longrightarrow> \<not> failed r)"
proof -
  have "\<exists>out c. call_retry e noted failed status_of call p (conns (fds s)) = Some (out, c) \<and> touch_ok (conns (fds s)) c"
    by (rule call_retry_live) (use assms in auto)
  then obtain out c where
    r: "call_retry e noted failed status_of call p (conns (fds s)) = Some (out, c)" "touch_ok (conns (fds s)) c"
    by blast
  from onC_nf [where f = "call_retry e noted failed status_of call p", OF r(1)] fs_touch_conn [OF r(2)]
    call_retry_fine r(1) show ?thesis by fastforce
qed

lemma with_conn_effect:
  assumes inv: "fs_inv s" and mem: "calloc_ok e" and room: "conn_room s" and t: "t \<in> conn_types"
    and body: "\<And>p s2. fs_inv s2 \<Longrightarrow> p \<in> dom (conn_heap (conns (fds s2))) \<Longrightarrow> g_CacheMetadata s2 = g_CacheMetadata s \<Longrightarrow>
      mcache s2 = mcache s \<Longrightarrow> \<exists>x s3. f p s2 = Some (x, s3) \<and> fs_touch s2 s3 \<and> Q x s3"
    and Q: "\<And>x s3 c. Q x s3 \<Longrightarrow> Q x (s3\<lparr>fds := (fds s3)\<lparr>conns := c\<rparr>\<rparr>)"
  shows "\<exists>r s'. with_conn e t f s = Some (r, s') \<and> fs_same s s'
    \<and> (case r of None \<Rightarrow> mcache s' = mcache s | Some x \<Rightarrow> Q x s')"
  using inv mem room t
proof (cases rule: fs_get_cases)
  case (failed status s')
  then have "mcache s' = mcache s" by (auto simp: onC_def onF_def)
  with failed show ?thesis by (simp add: with_conn_def)
next
  case (got p c)
  let ?s1 = "s\<lparr>fds := (fds s)\<lparr>conns := c\<rparr>\<rparr>"
  have "p \<in> dom (conn_heap (conns (fds ?s1)))"
    using got(4) by (auto simp: conn_refs_def heap_refs_def split: option.splits)
  from fs_lock_live(1) [OF this] obtain s2 where s2: "onCU (iFuseConnLock p) ?s1 = Some s2" "fs_touch ?s1 s2" by blast
  from s2(1) have m2: "mcache s2 = mcache s" by (auto simp: onCU_def)
  have d2: "p \<in> dom (conn_heap (conns (fds s2)))" using fs_touch_fields(5) [OF s2(2)] \<open>p \<in> dom _\<close> by simp
  have i2: "fs_inv s2" using fs_touch_inv [OF s2(2)] got(6) by simp
  from body [OF i2 d2 _ m2] obtain x s3 where s3: "f p s2 = Some (x, s3)" "fs_touch s2 s3" "Q x s3"
    using fs_touch_fields(1) [OF s2(2)] by auto
  have d3: "p \<in> dom (conn_heap (conns (fds s3)))" using fs_touch_fields(5) [OF s3(2)] d2 by simp
  from fs_lock_live(2) [OF d3] obtain s4 where s4: "onCU (iFuseConnUnlock p) s3 = Some s4" "fs_touch s3 s4" by blast
  from s4(1) obtain c4 where c4: "s4 = s3\<lparr>fds := (fds s3)\<lparr>conns := c4\<rparr>\<rparr>" by (auto simp: onCU_def)
  have t4: "fs_touch ?s1 s4" using s2(2) s3(2) s4(2) by (blast intro: fs_touch_trans)
  then obtain c' m' where eq: "s4 = ?s1\<lparr>fds := (fds ?s1)\<lparr>conns := c'\<rparr>, mcache := m'\<rparr>" "touch_ok c c'"
      "mc_ok (mcache s) \<longrightarrow> mc_ok m'" by (auto simp: fs_touch_def)
  from pool.bracket [OF got(3) _ got(4,5) eq(2), of e] mem got(2) obtain c5 where
    c5: "iFuseConnUnuse e p c' = Some c5" "conn_inv c5" "rc_le (rcs (conns (fds s))) (rcs c5)"
      "conn_refs c5 = conn_refs (conns (fds s))" by auto
  let ?s5 = "s4\<lparr>fds := (fds s4)\<lparr>conns := c5\<rparr>\<rparr>"
  have u: "onCU (iFuseConnUnuse e p) s4 = Some ?s5" using c5(1) by (intro onCU_nf) (simp add: eq(1))
  have "fs_same s ?s5"
    unfolding fs_same_def using c5 eq fs_inv_D [OF inv]
    by (intro exI [of _ c5] exI [of _ m']) simp
  moreover have "Q x ?s5" using Q [OF s3(3), of c5] by (simp add: c4)
  ultimately show ?thesis using got(1) s2(1) s3(1) s4(1) u by (simp add: with_conn_def)
qed

lemma with_conn_same:
  assumes "fs_inv s" and "calloc_ok e" and "conn_room s" and "t \<in> conn_types"
    and "\<And>p s2. fs_inv s2 \<Longrightarrow> p \<in> dom (conn_heap (conns (fds s2))) \<Longrightarrow> \<exists>x s3. f p s2 = Some (x, s3) \<and> fs_touch s2 s3"
  shows "\<exists>r s'. with_conn e t f s = Some (r, s') \<and> fs_same s s'"
proof -
  have "\<exists>r s'. with_conn e t f s = Some (r, s') \<and> fs_same s s'
      \<and> (case r of None \<Rightarrow> mcache s' = mcache s | Some x \<Rightarrow> True)"
    by (rule with_conn_effect [OF assms(1-4)]) (use assms(5) in blast)+
  then show ?thesis by blast
qed

text \<open>The short operations that make one call: what they return, and the state they leave.\<close>

lemma short_op_effect:
  assumes inv: "fs_inv s" and mem: "calloc_ok e" and room: "conn_room s"
    and call: "\<And>conn r x r'. call conn r = (x, r') \<Longrightarrow> rc_le r r'"
  shows "\<exists>status s1. short_op e call failed status_for after s
      = Some (status, if status < 0 \<or> \<not> g_CacheMetadata s then s1 else after s1)
    \<and> fs_same s s1 \<and> mcache s1 = mcache s
    \<and> (status = - EIO \<or> (\<exists>out. status = status_for out \<and> (\<forall>r. out = Call_ok r \<longrightarrow> \<not> failed r)))"
proof -
  let ?f = "\<lambda>p. onC (call_retry e True failed id call p)"
  let ?Q = "\<lambda>out s'. mcache s' = mcache s \<and> (\<forall>r. out = Call_ok r \<longrightarrow> \<not> failed r)"
  have "\<exists>r s'. with_conn e IFUSE_CONN_TYPE_FOR_SHORTOP ?f s = Some (r, s') \<and> fs_same s s'
      \<and> (case r of None \<Rightarrow> mcache s' = mcache s | Some x \<Rightarrow> ?Q x s')"
  proof (rule with_conn_effect [OF inv mem room types_in(3)])
    fix p and s2 :: "'a fs_state" assume p: "p \<in> dom (conn_heap (conns (fds s2)))" and m: "mcache s2 = mcache s"
    show "\<exists>x s3. ?f p s2 = Some (x, s3) \<and> fs_touch s2 s3 \<and> ?Q x s3"
      unfolding m [symmetric] by (rule fs_call_live) (use call p in auto)
  qed simp
  then obtain r s1 where r: "with_conn e IFUSE_CONN_TYPE_FOR_SHORTOP ?f s = Some (r, s1)" "fs_same s s1"
    "case r of None \<Rightarrow> mcache s1 = mcache s | Some x \<Rightarrow> ?Q x s1" by blast
  have cm: "g_CacheMetadata s1 = g_CacheMetadata s" using r(2) by (rule fs_same_fields)
  show ?thesis
  proof (cases r)
    case None
    with r show ?thesis by (simp add: short_op_def)
  next
    case (Some out)
    with r cm show ?thesis
      by (intro exI [of _ "status_for out"] exI [of _ s1]) (auto simp: short_op_def)
  qed
qed

lemma short_op_same:
  assumes inv: "fs_inv s" and mem: "calloc_ok e" and room: "conn_room s"
    and call: "\<And>conn r x r'. call conn r = (x, r') \<Longrightarrow> rc_le r r'"
    and after: "\<And>s'. fs_inv s' \<Longrightarrow> fs_touch s' (after s')"
  shows "\<exists>status s'. short_op e call failed status_for after s = Some (status, s') \<and> fs_same s s'"
proof -
  have "\<exists>status s1. short_op e call failed status_for after s
      = Some (status, if status < 0 \<or> \<not> g_CacheMetadata s then s1 else after s1)
    \<and> fs_same s s1 \<and> mcache s1 = mcache s
    \<and> (status = - EIO \<or> (\<exists>out. status = status_for out \<and> (\<forall>r. out = Call_ok r \<longrightarrow> \<not> failed r)))"
    by (rule short_op_effect [OF inv mem room]) (rule call)
  then obtain status s1 where
    r: "short_op e call failed status_for after s = Some (status, if status < 0 \<or> \<not> g_CacheMetadata s then s1 else after s1)"
    "fs_same s s1" by auto
  have "fs_touch s1 (after s1)" using after fs_inv_same [OF inv r(2)] by blast
  with r(2) inv have "fs_same s (after s1)" by (blast intro: fs_same_trans fs_touch_same fs_inv_same)
  with r show ?thesis by auto
qed

section \<open>The short operations\<close>

lemma removals_touch:
  "fs_touch s (onMcP (iFuseMetadataCacheRemoveStat k) s)"
  "fs_touch s (onMcP (iFuseMetadataCacheRemoveDir k) s)"
  "fs_touch s (onMcP (iFuseMetadataCacheRemoveDirEntry2 e k) s)"
proof -
  show "fs_touch s (onMcP (iFuseMetadataCacheRemoveStat k) s)"
    by (rule onMcP_touch) (simp add: iFuseMetadataCacheRemoveStat_def removeStatCache_ok)
  show "fs_touch s (onMcP (iFuseMetadataCacheRemoveDir k) s)"
    by (rule onMcP_touch) (simp add: iFuseMetadataCacheRemoveDir_def removeDirCache_ok)
  show "fs_touch s (onMcP (iFuseMetadataCacheRemoveDirEntry2 e k) s)"
    by (rule onMcP_touch)
      (simp add: iFuseMetadataCacheRemoveDirEntry2_def removeDirCacheEntry_ok split: prod.split option.split)
qed

lemma add_fresh_touch: "fs_touch s (snd (onMc (iFuseMetadataCacheAddDirEntryIfFresh2 e k) s))"
  by (rule onMc_touch [where e = e and x = "fst (onMc (iFuseMetadataCacheAddDirEntryIfFresh2 e k) s)"])
    (auto intro: mc_step.intros)

lemmas cache_touch =
  removals_touch(1) [THEN fs_touch_trans [rotated]] removals_touch(2) [THEN fs_touch_trans [rotated]]
  removals_touch(3) [THEN fs_touch_trans [rotated]] add_fresh_touch [THEN fs_touch_trans [rotated]]

lemma Unlink_same:
  assumes "fs_inv s" and "calloc_ok e" and "conn_room s"
  shows "\<exists>status s'. iFuseFsUnlink e path s = Some (status, s') \<and> fs_same s s'"
  unfolding iFuseFsUnlink_def
  by (rule short_op_same [OF assms], erule rc_wrapper_le, intro cache_touch fs_touch_refl)

lemma MakeDir_same:
  assumes "fs_inv s" and "calloc_ok e" and "conn_room s"
  shows "\<exists>status s'. iFuseFsMakeDir e path s = Some (status, s') \<and> fs_same s s'"
  unfolding iFuseFsMakeDir_def
  by (rule short_op_same [OF assms], erule rc_wrapper_le, intro cache_touch fs_touch_refl)

lemma RemoveDir_same:
  assumes "fs_inv s" and "calloc_ok e" and "conn_room s"
  shows "\<exists>status s'. iFuseFsRemoveDir e path s = Some (status, s') \<and> fs_same s s'"
  unfolding iFuseFsRemoveDir_def
  by (rule short_op_same [OF assms], erule rc_wrapper_le, intro cache_touch fs_touch_refl)

lemma Rename_same:
  assumes "fs_inv s" and "calloc_ok e" and "conn_room s"
  shows "\<exists>status s'. iFuseFsRename e from_path to_path s = Some (status, s') \<and> fs_same s s'"
  unfolding iFuseFsRename_def
  by (rule short_op_same [OF assms], erule rc_wrapper_le, intro cache_touch fs_touch_refl)

lemma Truncate_same:
  assumes "fs_inv s" and "calloc_ok e" and "conn_room s"
  shows "\<exists>status s'. iFuseFsTruncate e path len s = Some (status, s') \<and> fs_same s s'"
  unfolding iFuseFsTruncate_def
  by (rule short_op_same [OF assms], erule rc_wrapper_le, intro cache_touch fs_touch_refl)

lemma Chmod_same:
  assumes "fs_inv s" and "calloc_ok e" and "conn_room s"
  shows "\<exists>status s'. iFuseFsChmod e path mode s = Some (status, s') \<and> fs_same s s'"
  unfolding iFuseFsChmod_def
  by (rule short_op_same [OF assms], erule rc_wrapper_le, intro cache_touch fs_touch_refl)

lemma create_close_live:
  assumes "fs_inv s" and "p \<in> dom (conn_heap (conns (fds s)))"
  shows "\<exists>st s'. create_close e path mode p s = Some (st, s') \<and> fs_touch s s'"
proof -
  let ?resc = "rodsDefResource (iFuseLibGetRodsEnv (get_lib s))"
  let ?create = "\<lambda>conn. iFuseRodsClientDataObjCreate e conn (obj_path e path) mode ?resc"
  have "\<exists>out s1. onC (call_retry e True (\<lambda>st. st < 0) id ?create p) s = Some (out, s1) \<and> fs_touch s s1
      \<and> mcache s1 = mcache s \<and> (\<forall>r. out = Call_ok r \<longrightarrow> \<not> r < 0)"
    by (rule fs_call_live) (use assms in \<open>auto intro: rc_wrapper_le\<close>)
  then obtain out s1 where
    1: "onC (call_retry e True (\<lambda>st. st < 0) id ?create p) s = Some (out, s1)" "fs_touch s s1" by blast
  have d1: "p \<in> dom (conn_heap (conns (fds s1)))" using fs_touch_fields(5) [OF 1(2)] assms(2) by simp
  show ?thesis
  proof (cases out)
    case (Call_ok fd)
    let ?close = "\<lambda>conn. iFuseRodsClientDataObjClose e conn fd"
    have "\<exists>out2 s2. onC (call_retry e True (\<lambda>st. st < 0) id ?close p) s1 = Some (out2, s2) \<and> fs_touch s1 s2
        \<and> mcache s2 = mcache s1 \<and> (\<forall>r. out2 = Call_ok r \<longrightarrow> \<not> r < 0)"
      by (rule fs_call_live) (use d1 in \<open>auto intro: rc_wrapper_le\<close>)
    then obtain out2 s2 where
      2: "onC (call_retry e True (\<lambda>st. st < 0) id ?close p) s1 = Some (out2, s2)" "fs_touch s1 s2" by blast
    show ?thesis using 1 2 Call_ok by (auto simp: create_close_def intro: fs_touch_trans)
  qed (use 1 in \<open>auto simp: create_close_def\<close>)
qed

lemma Create_same:
  assumes "fs_inv s" and "calloc_ok e" and "conn_room s"
  shows "\<exists>status s'. iFuseFsCreate e path mode s = Some (status, s') \<and> fs_same s s'"
proof -
  have "\<exists>r s'. with_conn e IFUSE_CONN_TYPE_FOR_SHORTOP (create_close e path mode) s = Some (r, s') \<and> fs_same s s'"
    by (rule with_conn_same [OF assms types_in(3) create_close_live])
  then obtain r s' where r: "with_conn e IFUSE_CONN_TYPE_FOR_SHORTOP (create_close e path mode) s = Some (r, s')"
    "fs_same s s'" by blast
  have "fs_touch s' (snd (onMc (iFuseMetadataCacheAddDirEntryIfFresh2 e path)
      (onMcP (iFuseMetadataCacheRemoveStat path) s')))"
    by (intro cache_touch fs_touch_refl)
  then have "fs_same s (snd (onMc (iFuseMetadataCacheAddDirEntryIfFresh2 e path)
      (onMcP (iFuseMetadataCacheRemoveStat path) s')))"
    using r(2) fs_inv_same [OF assms(1) r(2)] by (blast intro: fs_same_trans fs_touch_same)
  with r show ?thesis by (auto simp: iFuseFsCreate_def split: option.split prod.split)
qed

subsection \<open>Attributes\<close>

lemma getattr_cached_live:
  assumes "fs_inv s"
  shows "\<exists>r s'. getattr_cached e path s = Some (r, s') \<and> fs_touch s s'"
proof (cases "g_CacheMetadata s")
  case True
  obtain x s1 where s1: "onMc (iFuseMetadataCacheClearExpiredStat e False) s = (x, s1)" by force
  have t1: "fs_touch s s1" by (rule onMc_touch [OF s1, of e]) (auto intro: mc_step.intros)
  have "mc_ok (mcache s1)" using fs_touch_inv [OF t1 assms] by (rule fs_inv_D)
  from getStatCache_ok [OF this, of e path "get_lib s1"] obtain st ans l where
    g: "getStatCache e path (get_lib s1, mcache s1) = Some ((st, ans), (l, mcache s1))" by auto
  obtain s2 where s2: "onMcO (iFuseMetadataCacheGetStat e path) s1 = Some ((st, ans), s2)"
    using g by (simp add: onMcO_def iFuseMetadataCacheGetStat_def)
  have t2: "fs_touch s1 s2" by (rule onMcO_touch [OF s2, of e]) (auto intro: mc_step.intros)
  obtain y s3 where s3: "onMc (iFuseMetadataCacheClearExpiredDir e False) s2 = (y, s3)" by force
  have t3: "fs_touch s2 s3" by (rule onMc_touch [OF s3, of e]) (auto intro: mc_step.intros)
  show ?thesis
    using True s1 t1 s2 t2 s3 t3 by (auto simp: getattr_cached_def intro: fs_touch_trans)
qed (simp add: getattr_cached_def)

lemma put_stat_live:
  assumes "fs_inv s"
  shows "\<exists>x s'. onMcO (iFuseMetadataCachePutStat e path st) s = Some (x, s') \<and> fs_touch s s'"
proof -
  from cacheStat_ok [of "(get_lib s, mcache s)" e path st] fs_inv_D(2) [OF assms] obtain x s' where
    x: "onMcO (iFuseMetadataCachePutStat e path st) s = Some (x, s')"
    by (auto simp: onMcO_def iFuseMetadataCachePutStat_def split: prod.splits)
  moreover have "fs_touch s s'" by (rule onMcO_touch [OF x, of e]) (auto intro: mc_step.intros)
  ultimately show ?thesis by blast
qed

lemma getattr_server_live:
  assumes "fs_inv s" and "p \<in> dom (conn_heap (conns (fds s)))"
  shows "\<exists>r s'. getattr_server e path p s = Some (r, s') \<and> fs_touch s s'"
proof -
  have "\<exists>out s1. onC (call_retry e True (\<lambda>(st, _). st < 0 \<and> st \<noteq> USER_FILE_DOES_NOT_EXIST e) fst
       (\<lambda>conn. iFuseRodsClientObjStat e conn (obj_path e path)) p) s = Some (out, s1) \<and> fs_touch s s1
     \<and> mcache s1 = mcache s \<and> (\<forall>r. out = Call_ok r \<longrightarrow> \<not> (case r of (st, _) \<Rightarrow> st < 0 \<and> st \<noteq> USER_FILE_DOES_NOT_EXIST e))"
    by (rule fs_call_live) (use assms in \<open>auto intro: rc_wrapper_le\<close>)
  then obtain out s1 where
    1: "onC (call_retry e True (\<lambda>(st, _). st < 0 \<and> st \<noteq> USER_FILE_DOES_NOT_EXIST e) fst
       (\<lambda>conn. iFuseRodsClientObjStat e conn (obj_path e path)) p) s = Some (out, s1)" "fs_touch s s1" by blast
  have i1: "fs_inv s1" using fs_touch_inv [OF 1(2) assms(1)] .
  show ?thesis
  proof (cases out)
    case (Call_ok r)
    obtain st so where r: "r = (st, so)" by force
    show ?thesis
    proof (cases "st \<noteq> USER_FILE_DOES_NOT_EXIST e \<and> (\<exists>o'. so = Some o' \<and> os_objType o' \<noteq> UNKNOWN_OBJ_T) \<and> g_CacheMetadata s1")
      case True
      then obtain o' where so: "so = Some o'" "os_objType o' \<noteq> UNKNOWN_OBJ_T" by blast
      define buf where "buf = (if os_objType o' = COLL_OBJ_T
          then fillDirStat e zero_stat (safeAtoi (os_dataId o')) (safeAtoi (os_createTime o'))
                 (safeAtoi (os_modifyTime o')) (safeAtoi (os_modifyTime o'))
          else fillFileStat e zero_stat (safeAtoi (os_dataId o')) (os_dataMode o')
                 (os_objSize o') (safeAtoi (os_createTime o'))
                 (safeAtoi (os_modifyTime o')) (safeAtoi (os_modifyTime o')))"
      from put_stat_live [OF i1, of e path buf] obtain x s2 where
        "onMcO (iFuseMetadataCachePutStat e path buf) s1 = Some (x, s2)" "fs_touch s1 s2" by blast
      then show ?thesis
        using True so 1 Call_ok r
        by (auto simp: getattr_server_def Let_def simp flip: buf_def intro: fs_touch_trans)
    next
      case False
      then show ?thesis using 1 Call_ok r by (auto simp: getattr_server_def Let_def split: option.split)
    qed
  qed (use 1 in \<open>auto simp: getattr_server_def\<close>)
qed

lemma GetAttr_same:
  assumes "fs_inv s" and "calloc_ok e" and "conn_room s"
  shows "\<exists>r s'. iFuseFsGetAttr e path s = Some (r, s') \<and> fs_same s s'"
proof -
  from getattr_cached_live [OF assms(1), of e path] obtain r s1 where
    1: "getattr_cached e path s = Some (r, s1)" "fs_touch s s1" by blast
  have i1: "fs_inv s1" "fs_same s s1" using 1(2) assms(1) by (auto intro: fs_touch_inv fs_touch_same)
  have room: "conn_room s1" using fs_touch_conns [OF 1(2)] assms(3) by (simp add: conn_room_def touch_okD(3))
  have "\<exists>r s'. with_conn e (short_type s1) (getattr_server e path) s1 = Some (r, s') \<and> fs_same s1 s'"
    by (rule with_conn_same [OF i1(1) assms(2) room types_in(1) getattr_server_live])
  then obtain ans s' where 2: "with_conn e (short_type s1) (getattr_server e path) s1 = Some (ans, s')" "fs_same s1 s'"
    by blast
  from i1(2) 2(2) have s': "fs_same s s'" by (rule fs_same_trans)
  show ?thesis
  proof (cases r)
    case None
    with 1(1) 2(1) s' show ?thesis by (cases ans) (simp_all add: iFuseFsGetAttr_def)
  qed (use 1(1) i1(2) in \<open>simp add: iFuseFsGetAttr_def\<close>)
qed


section \<open>Open files and directories\<close>

text \<open>Every reference to a connection belongs to an open descriptor.\<close>

definition no_leak :: "'w fs_state \<Rightarrow> bool" where
  "no_leak s \<longleftrightarrow> (\<forall>cp. conn_refs (conns (fds s)) cp = int (held (fds s) cp))"

lemma no_leak_same: "fs_same s s' \<Longrightarrow> no_leak s' = no_leak s"
  by (simp add: no_leak_def fs_same_fields)

lemma connected_lock: "with_conn_lock cp (\<lambda>c. do { assert_connected cp c; f c }) c = Some x \<Longrightarrow> assert_connected cp c = Some ()"
  by (auto simp: with_conn_lock_def iFuseConnLock_def dest: assert_connected_lock)

lemma iFuseFdOpen_connected: "iFuseFdOpen e cp path fl d = Some x \<Longrightarrow> assert_connected cp (conns d) = Some ()"
  by (auto simp: iFuseFdOpen_def onConn_def dest!: connected_lock)

lemma iFuseDirOpen_connected: "iFuseDirOpen e cp path d = Some x \<Longrightarrow> assert_connected cp (conns d) = Some ()"
  by (auto simp: iFuseDirOpen_def onConn_def dest!: connected_lock)

text \<open>
  What taking a connection and opening a descriptor on it leads to: no connection; a reference
  without a descriptor; or one more descriptor with its reference.
\<close>

definition open_leaks :: "'w fs_state \<Rightarrow> 'w fs_state \<Rightarrow> nat \<Rightarrow> bool" where
  "open_leaks s s' cp \<longleftrightarrow> fs_inv s' \<and> held (fds s') = held (fds s)
     \<and> conn_refs (conns (fds s')) = (conn_refs (conns (fds s)))(cp := conn_refs (conns (fds s)) cp + 1)"

definition open_holds :: "'w fs_state \<Rightarrow> 'w fs_state \<Rightarrow> nat \<Rightarrow> bool" where
  "open_holds s s' cp \<longleftrightarrow> fs_inv s' \<and> held (fds s') = (held (fds s))(cp := held (fds s) cp + 1)
     \<and> conn_refs (conns (fds s')) = (conn_refs (conns (fds s)))(cp := conn_refs (conns (fds s)) cp + 1)"

lemma open_leaks_not: "no_leak s \<Longrightarrow> open_leaks s s' cp \<Longrightarrow> \<not> no_leak s'"
  by (auto simp: no_leak_def open_leaks_def fun_eq_iff intro!: exI [of _ cp])

lemma open_holds_no_leak: "no_leak s \<Longrightarrow> open_holds s s' cp \<Longrightarrow> no_leak s'"
  by (auto simp: no_leak_def open_holds_def)

lemma open_leaks_touch: "open_leaks s s' cp \<Longrightarrow> fs_touch s' s'' \<Longrightarrow> open_leaks s s'' cp"
  using fs_same_fields(5,6) [of s' s''] fs_touch_same [of s' s''] fs_touch_inv [of s' s''] by (simp add: open_leaks_def)

lemma open_holds_touch: "open_holds s s' cp \<Longrightarrow> fs_touch s' s'' \<Longrightarrow> open_holds s s'' cp"
  using fs_same_fields(5,6) [of s' s''] fs_touch_same [of s' s''] fs_touch_inv [of s' s''] by (simp add: open_holds_def)

text \<open>After \<open>iFuseFsOpen\<close> and \<open>iFuseFsOpenDir\<close> took the connection \<open>cp\<close>.\<close>

lemma opened_accounting:
  assumes inv: "fs_inv (s\<lparr>fds := (fds s)\<lparr>conns := c\<rparr>\<rparr>)"
    and refs: "conn_refs c = (conn_refs (conns (fds s)))(cp := conn_refs (conns (fds s)) cp + 1)"
    and ok: "open_ok ((fds s)\<lparr>conns := c\<rparr>) cp d opened"
  shows "if opened then open_holds s (s\<lparr>fds := d\<rparr>) cp else open_leaks s (s\<lparr>fds := d\<rparr>) cp"
  using assms by (auto simp: open_ok_def open_holds_def open_leaks_def fs_inv_def)

lemma opened_room:
  assumes "fs_inv s" and "conn_refs c = (conn_refs (conns (fds s)))(cp := conn_refs (conns (fds s)) cp + 1)"
  shows "int (held ((fds s)\<lparr>conns := c\<rparr>) cp) < conn_refs (conns ((fds s)\<lparr>conns := c\<rparr>)) cp"
  using fd_inv_refs [OF fs_inv_D(1) [OF assms(1)], of cp] assms(2) by simp

lemma Open_ok:
  assumes inv: "fs_inv s" and mem: "calloc_ok e" and codes: "error_codes_ok e" and room: "conn_room s"
    and run: "iFuseFsOpen e path fl s = Some ((status, fd), s')"
  shows "status = - EIO \<and> fd = None \<and> fs_same s s'
    \<or> status = - ENOENT \<and> fd = None \<and> (\<exists>cp. open_leaks s s' cp)
    \<or> status = 0 \<and> (\<exists>cp p d. open_holds s s' cp \<and> fd = Some p \<and> fd_heap (fds s) p = None
        \<and> fd_heap (fds s') = (fd_heap (fds s))(p \<mapsto> d) \<and> fd_conn d = Some cp \<and> fd_iRodsPath d = path
        \<and> fd_openFlag d = fl \<and> fd_lastFilePointer d = - 1)"
  using inv mem room types_in(2) [of s]
proof (cases rule: fs_get_cases)
  case (failed status' s'')
  then show ?thesis using run by (auto simp: iFuseFsOpen_def)
next
  case (got cp c)
  let ?d1 = "(fds s)\<lparr>conns := c\<rparr>" and ?s1 = "s\<lparr>fds := (fds s)\<lparr>conns := c\<rparr>\<rparr>"
  from run got(1) obtain x where "iFuseFdOpen e cp path fl ?d1 = Some x"
    by (cases "iFuseFdOpen e cp path fl ?d1") (simp_all add: iFuseFsOpen_def onF_def)
  then obtain st f d where o: "iFuseFdOpen e cp path fl ?d1 = Some ((st, f), d)" by (metis prod.exhaust)
  with run got(1) have r: "(if st < 0 then Some ((- ENOENT, f), ?s1\<lparr>fds := d\<rparr>)
             else Some ((0, f), if g_CacheMetadata s \<and> accmode fl \<noteq> O_RDONLY
               then onMcP (iFuseMetadataCacheRemoveStat path) (?s1\<lparr>fds := d\<rparr>) else ?s1\<lparr>fds := d\<rparr>))
           = Some ((status, fd), s')"
    by (simp add: iFuseFsOpen_def onF_def split: if_splits) blast
  from iFuseFdOpen_ok [OF fs_inv_D(1) [OF got(6), simplified] opened_room [OF inv got(5)]
      iFuseFdOpen_connected [OF o], of e path fl] o
  consider "f = None" "st \<in> {- ENOENT, SYS_MALLOC_ERR e}" "open_ok ?d1 cp d False"
    | p x where "st = 0" "f = Some p" "fd_heap ?d1 p = None" "fd_heap d = (fd_heap ?d1)(p \<mapsto> x)" "fd_conn x = Some cp"
      "fd_iRodsPath x = path" "fd_openFlag x = fl" "fd_lastFilePointer x = - 1" "open_ok ?d1 cp d True" by auto
  then show ?thesis
  proof cases
    case 1
    then show ?thesis using r codes opened_accounting [OF got(6,5) 1(3)] by (auto simp: error_codes_ok_def)
  next
    case (2 p x)
    let ?s2 = "s\<lparr>fds := d\<rparr>"
    let ?s3 = "if g_CacheMetadata s \<and> accmode fl \<noteq> O_RDONLY then onMcP (iFuseMetadataCacheRemoveStat path) ?s2 else ?s2"
    have t: "fs_touch ?s2 ?s3" by (auto intro: removals_touch)
    have "s' = ?s3" "status = 0" "fd = Some p" using r 2 by auto
    moreover have "open_holds s ?s3 cp"
      using opened_accounting [OF got(6,5) 2(9)] t by (auto intro: open_holds_touch)
    moreover have "fd_heap (fds ?s3) = (fd_heap (fds s))(p \<mapsto> x)" using 2(4) by (simp add: onMcP_def)
    ultimately show ?thesis using 2 by auto
  qed
qed


text \<open>
  The only way an open aborts the program is that the pool handed out a connection that has no
  \<open>rcComm_t\<close>, which \<open>iFuseFdOpen\<close> asserts.
\<close>

definition dead_conn :: "'w conn_state \<Rightarrow> nat \<Rightarrow> bool" where
  "dead_conn c p \<longleftrightarrow> (\<exists>cn. conn_heap c p = Some cn \<and> cn_conn cn = None)"

lemma dead_connected: "p \<in> dom (conn_heap c) \<Longrightarrow> assert_connected p c = (if dead_conn c p then None else Some ())"
  by (auto simp: assert_connected_def dead_conn_def)

lemma in_use_dom: "0 < conn_refs c p \<Longrightarrow> p \<in> dom (conn_heap c)"
  by (auto simp: conn_refs_def heap_refs_def split: option.splits)

lemma Open_aborts:
  assumes inv: "fs_inv s" and mem: "calloc_ok e" and room: "conn_room s"
  shows "iFuseFsOpen e path fl s = None \<longleftrightarrow>
    (\<exists>cp c. iFuseConnGetAndUse e (file_type s) (conns (fds s)) = Some ((0, Some cp), c) \<and> dead_conn c cp)"
  using inv mem room types_in(2) [of s]
proof (cases rule: fs_get_cases)
  case (failed status s')
  then show ?thesis by (auto simp: iFuseFsOpen_def onC_def onF_def onConn_def)
next
  case (got cp c)
  let ?d1 = "(fds s)\<lparr>conns := c\<rparr>"
  have get: "iFuseConnGetAndUse e (file_type s) (conns (fds s)) = Some ((0, Some cp), c)"
    using got(1) by (auto simp: onC_def onF_def onConn_def dest: arg_cong [where f = "\<lambda>s. conns (fds s)"])
  have conn: "assert_connected cp (conns ?d1) = (if dead_conn c cp then None else Some ())"
    using dead_connected [OF in_use_dom [OF got(4)]] by simp
  have "iFuseFsOpen e path fl s = None \<longleftrightarrow> iFuseFdOpen e cp path fl ?d1 = None"
    using got(1) by (cases "iFuseFdOpen e cp path fl ?d1")
      (auto simp: iFuseFsOpen_def onF_def simp del: not_None_eq split: if_splits)
  also have "\<dots> \<longleftrightarrow> dead_conn c cp"
  proof (cases "dead_conn c cp")
    case True
    then show ?thesis using conn iFuseFdOpen_connected [of e cp path fl ?d1]
      by (cases "iFuseFdOpen e cp path fl ?d1") auto
  next
    case False
    then have "assert_connected cp (conns ?d1) = Some ()" using conn by simp
    from iFuseFdOpen_ok [OF fs_inv_D(1) [OF got(6), simplified] opened_room [OF inv got(5)] this, of e path fl] False
    show ?thesis by auto
  qed
  finally show ?thesis using get by auto
qed

lemma unuse_held:
  assumes inv: "fd_inv d" and refs: "0 < conn_refs (conns d) cp"
    and le: "\<And>q. int (held d q) \<le> ((conn_refs (conns d))(cp := conn_refs (conns d) cp - 1)) q"
  shows "\<exists>c. iFuseConnUnuse e cp (conns d) = Some c \<and> fd_inv (d\<lparr>conns := c\<rparr>)
    \<and> conn_refs c = (conn_refs (conns d))(cp := conn_refs (conns d) cp - 1)"
proof -
  have "conn_inv (conns d)" using inv by (simp add: fd_inv_def)
  from unuse_ok [OF this refs, of e] obtain c where c: "iFuseConnUnuse e cp (conns d) = Some c" "conn_inv c"
    "rc_le (rcs (conns d)) (rcs c)" "conn_refs c = (conn_refs (conns d))(cp := conn_refs (conns d) cp - 1)"
    by (auto simp: put_ok_def)
  from fd_inv_conns [OF inv c(2,3)] le c(4) have "fd_inv (d\<lparr>conns := c\<rparr>)" by simp
  with c show ?thesis by blast
qed

text \<open>Closing gives back the reference of the descriptor.\<close>

definition close_releases :: "'w fs_state \<Rightarrow> 'w fs_state \<Rightarrow> nat \<Rightarrow> bool" where
  "close_releases s s' cp \<longleftrightarrow> fs_inv s' \<and> 0 < held (fds s) cp
     \<and> held (fds s') = (held (fds s))(cp := held (fds s) cp - 1)
     \<and> conn_refs (conns (fds s')) = (conn_refs (conns (fds s)))(cp := conn_refs (conns (fds s)) cp - 1)"

lemma close_releases_no_leak: "no_leak s \<Longrightarrow> close_releases s s' cp \<Longrightarrow> no_leak s'"
  by (auto simp: no_leak_def close_releases_def)

lemma close_releases_touch: "close_releases s s' cp \<Longrightarrow> fs_touch s' s'' \<Longrightarrow> close_releases s s'' cp"
  using fs_same_fields(5,6) [of s' s''] fs_touch_same [of s' s''] fs_touch_inv [of s' s''] by (simp add: close_releases_def)

lemma closed_releases:
  assumes inv: "fs_inv s" and d: "fd_inv d" "touch_ok (conns (fds s)) (conns d)" "0 < held (fds s) cp"
    and h: "held d = (held (fds s))(cp := held (fds s) cp - 1)"
  shows "\<exists>c. iFuseConnUnuse e cp (conns d) = Some c \<and> close_releases s (s\<lparr>fds := d\<lparr>conns := c\<rparr>\<rparr>) cp"
proof -
  have r: "conn_refs (conns d) = conn_refs (conns (fds s))" using d(2) by (rule touch_okD(4))
  note b = fd_inv_refs [OF fs_inv_D(1) [OF inv]]
  have pos: "0 < conn_refs (conns d) cp" using b [of cp] d(3) r by simp
  have le: "int (held d q) \<le> ((conn_refs (conns d))(cp := conn_refs (conns d) cp - 1)) q" for q
    using b [of q] d(3) by (cases "q = cp") (simp_all add: h r)
  from unuse_held [OF d(1) pos le, of e] obtain c where c: "iFuseConnUnuse e cp (conns d) = Some c"
    "fd_inv (d\<lparr>conns := c\<rparr>)" "conn_refs c = (conn_refs (conns d))(cp := conn_refs (conns d) cp - 1)" by blast
  then have "close_releases s (s\<lparr>fds := d\<lparr>conns := c\<rparr>\<rparr>) cp"
    using d(3) h r inv by (simp add: close_releases_def fs_inv_def)
  with c(1) show ?thesis by blast
qed

lemma Close_ok:
  assumes inv: "fs_inv s" and d: "fd_heap (fds s) p = Some d"
  shows "\<exists>s' cp. iFuseFsClose e p s = Some (0, s') \<and> fd_conn d = Some cp \<and> close_releases s s' cp
    \<and> fd_heap (fds s') = (fd_heap (fds s))(p := None)"
proof -
  obtain cp where cp: "fd_conn d = Some cp" using fd_conn_alive [OF fs_inv_D(1) [OF inv] d] by blast
  have pos: "0 < fd_fd d" using fs_inv_D(1) [OF inv] d unfolding fd_inv_def by blast
  from iFuseFdClose_ok [OF fs_inv_D(1) [OF inv] d cp, of e] obtain d' where
    d': "iFuseFdClose e p (fds s) = Some (0, d')" "fd_inv d'" "touch_ok (conns (fds s)) (conns d')"
      "held d' = (held (fds s))(cp := held (fds s) cp - 1)" "0 < held (fds s) cp"
      "fd_heap d' = (fd_heap (fds s))(p := None)" by blast
  from closed_releases [OF inv d'(2,3,5,4), of e] obtain c where
    c: "iFuseConnUnuse e cp (conns d') = Some c" "close_releases s (s\<lparr>fds := d'\<lparr>conns := c\<rparr>\<rparr>) cp" by blast
  let ?s2 = "s\<lparr>fds := d'\<lparr>conns := c\<rparr>\<rparr>"
  let ?s3 = "if g_CacheMetadata s \<and> accmode (fd_openFlag d) \<noteq> O_RDONLY
      then onMcP (iFuseMetadataCacheRemoveStat (fd_iRodsPath d)) ?s2 else ?s2"
  have t: "fs_touch ?s2 ?s3" by (auto intro: removals_touch)
  have "iFuseFsClose e p s = Some (0, ?s3)"
    using d pos cp d'(1) c(1) by (simp add: iFuseFsClose_def onF_def onCU_def)
  moreover have "fd_heap (fds ?s3) = (fd_heap (fds s))(p := None)" using d'(6) by (simp add: onMcP_def)
  ultimately show ?thesis using cp close_releases_touch [OF c(2) t] by blast
qed

lemma CloseDir_ok:
  assumes inv: "fs_inv s" and d: "dir_heap (fds s) p = Some d"
  shows "\<exists>s'. iFuseFsCloseDir e p s = Some (0, s') \<and> dir_heap (fds s') = (dir_heap (fds s))(p := None)
    \<and> (case dd_conn d of Some cp \<Rightarrow> close_releases s s' cp
       | None \<Rightarrow> fs_inv s' \<and> held (fds s') = held (fds s)
           \<and> conn_refs (conns (fds s')) = conn_refs (conns (fds s)))"
proof -
  from iFuseDirClose_ok [OF fs_inv_D(1) [OF inv] d, of e] obtain d' where
    d': "iFuseDirClose e p (fds s) = Some (0, d')" "fd_inv d'" "touch_ok (conns (fds s)) (conns d')"
      "held d' = (case dd_conn d of None \<Rightarrow> held (fds s) | Some cp \<Rightarrow> (held (fds s))(cp := held (fds s) cp - 1))"
      "\<forall>cp. dd_conn d = Some cp \<longrightarrow> 0 < held (fds s) cp" "dir_heap d' = (dir_heap (fds s))(p := None)" by blast
  show ?thesis
  proof (cases "dd_conn d")
    case None
    then show ?thesis
      using d d' inv by (simp add: iFuseFsCloseDir_def onF_def fs_inv_def touch_okD(4) [OF d'(3)])
  next
    case (Some cp)
    from closed_releases [OF inv d'(2,3), of cp e] d'(4,5) Some obtain c where
      c: "iFuseConnUnuse e cp (conns d') = Some c" "close_releases s (s\<lparr>fds := d'\<lparr>conns := c\<rparr>\<rparr>) cp" by auto
    then show ?thesis
      using Some d d' by (simp add: iFuseFsCloseDir_def onF_def onCU_def)
  qed
qed


lemma open_touched:
  assumes "fs_touch s s1"
  shows "open_leaks s1 s' cp = open_leaks s s' cp" "open_holds s1 s' cp = open_holds s s' cp"
proof -
  have "conn_refs (conns (fds s1)) = conn_refs (conns (fds s))" "held (fds s1) = held (fds s)"
    using assms by (auto simp: fs_touch_def touch_okD(4))
  then show "open_leaks s1 s' cp = open_leaks s s' cp" "open_holds s1 s' cp = open_holds s s' cp"
    by (simp_all add: open_leaks_def open_holds_def)
qed

text \<open>Asking the cache of listings, as \<open>iFuseFsOpenDir\<close> and \<open>iFuseFsCacheDir\<close> do.\<close>

definition ask_listing :: "'w ext \<Rightarrow> string \<Rightarrow> 'w fs_state \<Rightarrow> (bytes option \<times> 'w fs_state) option" where
  "ask_listing e path s =
     (if g_CacheMetadata s
      then let (_, s1) = onMc (iFuseMetadataCacheClearExpiredDir e False) s in
           do { ((status, entries), s2) \<leftarrow> onMcO (iFuseMetadataCacheGetDirEntry e path) s1;
                Some (if status = 0 then entries else None, s2) }
      else Some (None, s))"

lemma ask_listing_live:
  assumes "fs_inv s"
  shows "\<exists>r s'. ask_listing e path s = Some (r, s') \<and> fs_touch s s'"
proof (cases "g_CacheMetadata s")
  case True
  obtain x s1 where s1: "onMc (iFuseMetadataCacheClearExpiredDir e False) s = (x, s1)" by force
  have t1: "fs_touch s s1" by (rule onMc_touch [OF s1, of e]) (auto intro: mc_step.intros)
  have "mc_ok (mcache s1)" using fs_touch_inv [OF t1 assms] by (rule fs_inv_D)
  from getDirCache_ok [OF this, of e path "get_lib s1"] obtain st ans l where
    g: "getDirCache e path (get_lib s1, mcache s1) = Some ((st, ans), (l, mcache s1))" by auto
  obtain s2 where s2: "onMcO (iFuseMetadataCacheGetDirEntry e path) s1 = Some ((st, ans), s2)"
    using g by (simp add: onMcO_def iFuseMetadataCacheGetDirEntry_def)
  have t2: "fs_touch s1 s2" by (rule onMcO_touch [OF s2, of e]) (auto intro: mc_step.intros)
  show ?thesis using True s1 t1 s2 t2 by (auto simp: ask_listing_def intro: fs_touch_trans)
qed (simp add: ask_listing_def)

lemma OpenDir_alt:
  "iFuseFsOpenDir e path s =
     do { (cached, s1) \<leftarrow> ask_listing e path s;
          (case cached of
             Some entries \<Rightarrow>
               let ((status, dir), d) = iFuseDirOpenWithCache e path entries (fds s1);
                   s2 = s1\<lparr>fds := d\<rparr>
               in if status < 0 then Some ((- ENOENT, dir), s2) else Some ((0, dir), s2)
           | None \<Rightarrow>
               do { ((status, conn), s2) \<leftarrow> onC (iFuseConnGetAndUse e (file_type s1)) s1;
                    if status < 0 then Some ((- EIO, None), s2)
                    else do {
                      cp \<leftarrow> conn;
                      ((status, dir), s3) \<leftarrow> onF (iFuseDirOpen e cp path) s2;
                      if status < 0 then Some ((- ENOENT, dir), s3) else Some ((0, dir), s3) } }) }"
  by (simp add: iFuseFsOpenDir_def ask_listing_def)

text \<open>
  A directory opened from the cache takes no connection; otherwise opening a directory is like
  opening a file.
\<close>

definition dir_opened :: "'w fs_state \<Rightarrow> 'w fs_state \<Rightarrow> string \<Rightarrow> nat option \<Rightarrow> bool" where
  "dir_opened s s' path dir \<longleftrightarrow> (\<exists>p d. dir = Some p \<and> dir_heap (fds s) p = None
     \<and> dir_heap (fds s') = (dir_heap (fds s))(p \<mapsto> d) \<and> dd_iRodsPath d = path
     \<and> (case dd_conn d of
          Some cp \<Rightarrow> open_holds s s' cp \<and> dd_cachedEntries d = None
        | None \<Rightarrow> fs_inv s' \<and> held (fds s') = held (fds s) \<and> conn_refs (conns (fds s')) = conn_refs (conns (fds s))
            \<and> dd_cachedEntries d \<noteq> None))"

lemma dir_openedI:
  assumes "dir_heap (fds s) p = None" and "dir_heap (fds s') = (dir_heap (fds s))(p \<mapsto> d)"
    and "dd_iRodsPath d = path" and "case dd_conn d of
          Some cp \<Rightarrow> open_holds s s' cp \<and> dd_cachedEntries d = None
        | None \<Rightarrow> fs_inv s' \<and> held (fds s') = held (fds s) \<and> conn_refs (conns (fds s')) = conn_refs (conns (fds s))
            \<and> dd_cachedEntries d \<noteq> None"
  shows "dir_opened s s' path (Some p)"
  unfolding dir_opened_def using assms by blast

lemma OpenDir_server_ok:
  assumes inv: "fs_inv s" and mem: "calloc_ok e" and codes: "error_codes_ok e" and room: "conn_room s"
    and run: "do { ((status, conn), s2) \<leftarrow> onC (iFuseConnGetAndUse e (file_type s)) s;
                    if status < 0 then Some ((- EIO, None), s2)
                    else do {
                      cp \<leftarrow> conn;
                      ((status, dir), s3) \<leftarrow> onF (iFuseDirOpen e cp path) s2;
                      if status < 0 then Some ((- ENOENT, dir), s3) else Some ((0, dir), s3) } }
      = Some ((status, dir), s')"
  shows "status = - EIO \<and> dir = None \<and> fs_same s s'
    \<or> status = - ENOENT \<and> dir = None \<and> (\<exists>cp. open_leaks s s' cp)
    \<or> status = 0 \<and> dir_opened s s' path dir"
  using inv mem room types_in(2) [of s]
proof (cases rule: fs_get_cases)
  case (failed status' s'')
  then show ?thesis using run by auto
next
  case (got cp c)
  let ?d1 = "(fds s)\<lparr>conns := c\<rparr>"
  from run got(1) obtain x where "iFuseDirOpen e cp path ?d1 = Some x"
    by (cases "iFuseDirOpen e cp path ?d1") (simp_all add: onF_def)
  then obtain st f d where o: "iFuseDirOpen e cp path ?d1 = Some ((st, f), d)" by (metis prod.exhaust)
  with run got(1) have r: "status = (if st < 0 then - ENOENT else 0)" "f = dir" "s' = s\<lparr>fds := d\<rparr>"
    by (auto simp: onF_def split: if_splits)
  from iFuseDirOpen_ok [OF fs_inv_D(1) [OF got(6), simplified] opened_room [OF inv got(5)]
      iFuseDirOpen_connected [OF o], of e path] o
  consider "f = None" "st \<in> {- ENOENT, SYS_MALLOC_ERR e}" "open_ok ?d1 cp d False"
    | p x where "0 \<le> st" "f = Some p" "dir_heap ?d1 p = None" "dir_heap d = (dir_heap ?d1)(p \<mapsto> x)" "dd_conn x = Some cp"
      "dd_iRodsPath x = path" "dd_cachedEntries x = None" "open_ok ?d1 cp d True" by auto
  then show ?thesis
  proof cases
    case 1
    have "st < 0" using 1(2) codes by (auto simp: error_codes_ok_def)
    moreover have "open_leaks s s' cp" using opened_accounting [OF got(6,5) 1(3)] by (simp add: r)
    ultimately show ?thesis using r(1,2) 1(1) by auto
  next
    case (2 p x)
    have "open_holds s s' cp" using opened_accounting [OF got(6,5) 2(8)] by (simp add: r)
    moreover have "dir_heap (fds s') = (dir_heap (fds s))(p \<mapsto> x)" using 2(4) by (simp add: r)
    moreover have "status = 0" "dir = Some p" using r(1,2) 2(1,2) by simp_all
    moreover have "dir_heap (fds s) p = None" using 2(3) by simp
    ultimately show ?thesis using 2(5-7) dir_openedI [of s p s' x path] by simp
  qed
qed

lemma OpenDir_ok:
  assumes inv: "fs_inv s" and mem: "calloc_ok e" and codes: "error_codes_ok e" and room: "conn_room s"
    and run: "iFuseFsOpenDir e path s = Some ((status, dir), s')"
  shows "status = - EIO \<and> dir = None \<and> fs_same s s'
    \<or> status = - ENOENT \<and> dir = None \<and> (fs_inv s' \<and> no_leak s' = no_leak s \<or> (\<exists>cp. open_leaks s s' cp))
    \<or> status = 0 \<and> dir_opened s s' path dir"
proof -
  from ask_listing_live [OF inv, of e path] obtain cached s1 where
    1: "ask_listing e path s = Some (cached, s1)" "fs_touch s s1" by blast
  have i1: "fs_inv s1" using fs_touch_inv [OF 1(2) inv] .
  have same: "dir_heap (fds s1) = dir_heap (fds s)" "held (fds s1) = held (fds s)"
    "conn_refs (conns (fds s1)) = conn_refs (conns (fds s))"
    using fs_touch_same [OF 1(2) inv] by (simp_all add: fs_same_fields)
  have room1: "conn_room s1" using fs_touch_conns [OF 1(2)] room by (simp add: conn_room_def touch_okD(3))
  have opened: "dir_opened s1 s' path dir = dir_opened s s' path dir"
    unfolding dir_opened_def open_touched(2) [OF 1(2)] same by (rule refl)
  show ?thesis
  proof (cases cached)
    case None
    then have "status = - EIO \<and> dir = None \<and> fs_same s1 s'
      \<or> status = - ENOENT \<and> dir = None \<and> (\<exists>cp. open_leaks s1 s' cp)
      \<or> status = 0 \<and> dir_opened s1 s' path dir"
      using run 1(1) by (intro OpenDir_server_ok [OF i1 mem codes room1]) (simp add: OpenDir_alt)
    then show ?thesis
      using opened open_touched(1) [OF 1(2)] fs_same_trans [OF fs_touch_same [OF 1(2) inv]] by auto
  next
    case (Some es)
    from iFuseDirOpenWithCache_ok [OF fs_inv_D(1) [OF i1], of e path es 0] obtain st f d where
      o: "iFuseDirOpenWithCache e path es (fds s1) = ((st, f), d)" and
      c: "f = None \<and> st = SYS_MALLOC_ERR e \<and> open_ok (fds s1) 0 d False
       \<or> st = 0 \<and> (\<exists>p x. f = Some p \<and> dir_heap (fds s1) p = None \<and> dir_heap d = (dir_heap (fds s1))(p \<mapsto> x)
          \<and> dd_conn x = None \<and> dd_iRodsPath x = path \<and> dd_cachedEntries x = Some es \<and> open_ok (fds s1) 0 d False)"
      by blast
    have r: "status = (if st < 0 then - ENOENT else 0)" "f = dir" "s' = s1\<lparr>fds := d\<rparr>"
      using run 1(1) Some o by (auto simp: OpenDir_alt Let_def split: if_splits)
    have k: "open_ok (fds s1) 0 d False \<Longrightarrow> fs_inv s' \<and> held (fds s') = held (fds s)
        \<and> conn_refs (conns (fds s')) = conn_refs (conns (fds s))"
      using i1 same by (auto simp: open_ok_def r fs_inv_def)
    from c show ?thesis
    proof (elim disjE conjE exE)
      assume "f = None" "st = SYS_MALLOC_ERR e" "open_ok (fds s1) 0 d False"
      with k r codes show ?thesis by (auto simp: error_codes_ok_def no_leak_def)
    next
      fix p x assume "st = 0" "f = Some p" "dir_heap (fds s1) p = None" "dir_heap d = (dir_heap (fds s1))(p \<mapsto> x)"
        "dd_conn x = None" "dd_iRodsPath x = path" "dd_cachedEntries x = Some es" "open_ok (fds s1) 0 d False"
      with k r same have "dir_opened s s' path (Some p)" by (intro dir_openedI [of s p s' x]) simp_all
      with r \<open>st = 0\<close> \<open>f = Some p\<close> show ?thesis by simp
    qed
  qed
qed

section \<open>Listings from the cache\<close>

lemma parse_entries_Nil [simp]: "parse_entries [] = Some []"
  by (simp add: parse_entries.simps)

lemma parse_entries_name:
  assumes "NUL \<notin> set n"
  shows "parse_entries (n @ NUL # buf) = map_option (\<lambda>ns. if n = [] then ns else n # ns) (parse_entries buf)"
proof -
  have "takeWhile (\<lambda>c. c \<noteq> NUL) (n @ NUL # buf) = n" using assms by (induction n) auto
  then show ?thesis
    by (subst parse_entries.simps) (cases "parse_entries buf", auto)
qed

text \<open>Reading a directory from the buffer gives back the names that were put in.\<close>

lemma parse_encode:
  assumes "\<forall>n \<in> set ns. n \<noteq> [] \<and> NUL \<notin> set n"
  shows "parse_entries (encode_listing ns) = Some ns"
proof -
  have "parse_entries (concat (map (\<lambda>n. n @ [NUL]) ns)) = Some ns"
    using assms by (induction ns) (auto simp: parse_entries_name)
  moreover have "parse_entries [NUL] = Some []" using parse_entries_name [of "[]" "[]"] by simp
  ultimately show ?thesis by (simp add: encode_listing_def)
qed


section \<open>Reading, writing and flushing keep the system well formed\<close>

text \<open>
  \<open>io_ok p s s'\<close>: of all descriptors only \<open>p\<close> changed, in its lock and file pointer, and the
  pool was only touched.
\<close>

definition fd_same :: "iFuseFd \<Rightarrow> iFuseFd \<Rightarrow> bool" where
  "fd_same d d' \<longleftrightarrow> fd_fdId d' = fd_fdId d \<and> fd_conn d' = fd_conn d \<and> fd_fd d' = fd_fd d \<and> fd_iRodsPath d' = fd_iRodsPath d
     \<and> fd_openFlag d' = fd_openFlag d"

definition io_ok :: "nat \<Rightarrow> 'w fs_state \<Rightarrow> 'w fs_state \<Rightarrow> bool" where
  "io_ok p s s' \<longleftrightarrow> (\<exists>c d d'. fd_heap (fds s) p = Some d \<and> fd_same d d' \<and> touch_ok (conns (fds s)) c
     \<and> s' = s\<lparr>fds := (fds s)\<lparr>conns := c, fd_heap := (fd_heap (fds s))(p \<mapsto> d')\<rparr>\<rparr>)"

lemma io_ok_refl: "fd_heap (fds s) p = Some d \<Longrightarrow> io_ok p s s"
  unfolding io_ok_def
  by (intro exI [of _ "conns (fds s)"] exI [of _ d]) (simp add: fd_same_def fun_upd_idem)

lemma io_ok_trans: "io_ok p s s' \<Longrightarrow> io_ok p s' s'' \<Longrightarrow> io_ok p s s''"
  unfolding io_ok_def fd_same_def by (elim exE conjE) (auto intro: touch_ok_trans)

lemma io_okD:
  assumes "io_ok p s s'" and "fs_inv s"
  shows "fs_inv s'" "held (fds s') = held (fds s)" "conn_refs (conns (fds s')) = conn_refs (conns (fds s))"
    "mcache s' = mcache s" "g_CacheMetadata s' = g_CacheMetadata s" "dir_heap (fds s') = dir_heap (fds s)"
    "dom (fd_heap (fds s')) = dom (fd_heap (fds s))" "conn_room s' = conn_room s"
proof -
  from assms(1) obtain c d d' where d: "fd_heap (fds s) p = Some d" "fd_same d d'" "touch_ok (conns (fds s)) c"
    and s': "s' = s\<lparr>fds := (fds s)\<lparr>conns := c, fd_heap := (fd_heap (fds s))(p \<mapsto> d')\<rparr>\<rparr>"
    unfolding io_ok_def by blast
  let ?d = "(fds s)\<lparr>conns := c\<rparr>"
  have inv: "fd_inv ?d" using fd_inv_touch [OF fs_inv_D(1) [OF assms(2)] d(3)] .
  have "0 < fd_fd d" using fs_inv_D(1) [OF assms(2)] d(1) unfolding fd_inv_def by blast
  with fd_inv_update_fd [OF inv, of p d d'] d(1,2) have inv': "fd_inv (?d\<lparr>fd_heap := (fd_heap ?d)(p \<mapsto> d')\<rparr>)"
    by (simp add: fd_same_def)
  have eq: "fds s' = ?d\<lparr>fd_heap := (fd_heap ?d)(p \<mapsto> d')\<rparr>" by (simp add: s')
  show "fs_inv s'" using inv' assms(2) by (simp add: fs_inv_def s')
  show "held (fds s') = held (fds s)"
    using held_update_fd [of ?d p d d'] d(1,2) by (simp add: eq fd_same_def)
  show "conn_refs (conns (fds s')) = conn_refs (conns (fds s))" using d(3) by (simp add: s' touch_okD(4))
  show "mcache s' = mcache s" "g_CacheMetadata s' = g_CacheMetadata s" "dir_heap (fds s') = dir_heap (fds s)"
    by (simp_all add: s')
  show "dom (fd_heap (fds s')) = dom (fd_heap (fds s))" using d(1) by (auto simp: s')
  show "conn_room s' = conn_room s" using d(3) by (simp add: s' conn_room_def touch_okD(3))
qed

lemma io_ok_conn:
  assumes "fd_heap (fds s) p = Some d" and "touch_ok (conns (fds s)) c"
  shows "io_ok p s (s\<lparr>fds := (fds s)\<lparr>conns := c\<rparr>\<rparr>)"
  unfolding io_ok_def using assms
  by (intro exI [of _ c] exI [of _ d]) (simp add: fd_same_def fun_upd_idem)

lemma io_ok_update:
  assumes "fd_heap (fds s) p = Some d" and "fd_same d (f d)"
  shows "\<exists>s'. onFU (update_fd p f) s = Some s' \<and> io_ok p s s' \<and> fd_heap (fds s') p = Some (f d)"
proof -
  have "io_ok p s (s\<lparr>fds := (fds s)\<lparr>fd_heap := (fd_heap (fds s))(p \<mapsto> f d)\<rparr>\<rparr>)"
    unfolding io_ok_def using assms
    by (intro exI [of _ "conns (fds s)"] exI [of _ d] exI [of _ "f d"]) simp
  then show ?thesis using assms(1) by (simp add: onFU_def update_fd_def)
qed

lemma io_ok_fd: "io_ok p s s' \<Longrightarrow> fd_heap (fds s) p = Some d \<Longrightarrow> \<exists>d'. fd_heap (fds s') p = Some d' \<and> fd_same d d'"
  by (auto simp: io_ok_def)

lemma io_ok_dom: "io_ok p s s' \<Longrightarrow> cp \<in> dom (conn_heap (conns (fds s))) \<Longrightarrow> cp \<in> dom (conn_heap (conns (fds s')))"
  unfolding io_ok_def by (elim exE conjE) (simp add: touch_ok_dom)

lemma io_call_live:
  assumes "\<And>conn r x r'. call conn r = (x, r') \<Longrightarrow> rc_le r r'" and "cp \<in> dom (conn_heap (conns (fds s)))"
    and "fd_heap (fds s) p = Some d"
  shows "\<exists>out s'. onC (call_retry e noted failed status_of call cp) s = Some (out, s') \<and> io_ok p s s'
    \<and> (\<forall>r. out = Call_ok r \<longrightarrow> \<not> failed r)"
proof -
  have "\<exists>out c. call_retry e noted failed status_of call cp (conns (fds s)) = Some (out, c) \<and> touch_ok (conns (fds s)) c"
    by (rule call_retry_live) (use assms in auto)
  then obtain out c where
    r: "call_retry e noted failed status_of call cp (conns (fds s)) = Some (out, c)" "touch_ok (conns (fds s)) c"
    by blast
  from onC_nf [where f = "call_retry e noted failed status_of call cp", OF r(1)] io_ok_conn [OF assms(3) r(2)]
    call_retry_fine r(1) show ?thesis by fastforce
qed

lemma seek_to_live:
  assumes "fd_heap (fds s) p = Some d" and "cp \<in> dom (conn_heap (conns (fds s)))"
  shows "\<exists>r s'. seek_to e p cp off s = Some (r, s') \<and> io_ok p s s'"
proof (cases "fd_lastFilePointer d = off")
  case True
  with assms show ?thesis by (simp add: seek_to_def io_ok_refl)
next
  case False
  let ?call = "\<lambda>conn. iFuseRodsClientDataObjLseek e conn (fd_fd d) off"
  let ?failed = "\<lambda>(st, lseekOut). st < 0 \<or> lseekOut = None"
  have "\<exists>out s1. onC (call_retry e True ?failed fst ?call cp) s = Some (out, s1) \<and> io_ok p s s1
      \<and> (\<forall>r. out = Call_ok r \<longrightarrow> \<not> ?failed r)"
    by (rule io_call_live) (use assms in \<open>auto intro: rc_wrapper_le\<close>)
  then obtain out s1 where 1: "onC (call_retry e True ?failed fst ?call cp) s = Some (out, s1)" "io_ok p s s1" by blast
  from io_ok_fd [OF 1(2) assms(1)] obtain d1 where d1: "fd_heap (fds s1) p = Some d1" by blast
  have upd: "\<exists>s2. onFU (update_fd p (\<lambda>d. d\<lparr>fd_lastFilePointer := n\<rparr>)) s1 = Some s2 \<and> io_ok p s s2" for n
    using io_ok_update [OF d1, of "\<lambda>d. d\<lparr>fd_lastFilePointer := n\<rparr>"] io_ok_trans [OF 1(2)]
    by (auto simp: fd_same_def)
  from upd [of off] upd [of "- 1"] obtain s2 s3 where
    u: "onFU (update_fd p (\<lambda>d. d\<lparr>fd_lastFilePointer := off\<rparr>)) s1 = Some s2" "io_ok p s s2"
       "onFU (update_fd p (\<lambda>d. d\<lparr>fd_lastFilePointer := - 1\<rparr>)) s1 = Some s3" "io_ok p s s3" by blast
  show ?thesis
  proof (cases out)
    case (Call_ok r)
    then show ?thesis using False assms(1) 1(1) u by (cases r) (auto simp: seek_to_def)
  qed (use False assms(1) 1(1) u in \<open>auto simp: seek_to_def\<close>)
qed

text \<open>
  A server's answer to a read has at most the bytes asked for, and as many as it says. The
  client asserts the first and relies on the second.
\<close>

definition read_reply_ok :: "'w ext \<Rightarrow> bool" where
  "read_reply_ok e \<longleftrightarrow> SYS_MALLOC_ERR e < 0 \<and> (\<forall>conn fd len w st buf w'. rcDataObjRead e conn fd len w = ((st, buf), w') \<longrightarrow>
     st \<le> int len \<and> nat st \<le> length buf)"

lemma tracked_call_result:
  "tracked_call e conn on_fail call r = (x, r') \<Longrightarrow> x = on_fail \<or> (\<exists>w w'. call w = (x, w'))"
  by (auto simp: tracked_call_def Let_def onLib_def ext_call_def split: prod.splits option.splits)

lemma read_reply_wrapper:
  assumes "read_reply_ok e" and "iFuseRodsClientDataObjRead e conn fd len r = ((st, buf), r')"
  shows "st \<le> int len \<and> nat st \<le> length buf"
  using tracked_call_result [OF assms(2) [unfolded iFuseRodsClientDataObjRead_def]] assms(1)
  unfolding read_reply_ok_def by fastforce

lemma call_retry_result:
  assumes "call_retry e noted failed status_of call p c = Some (Call_ok x, c')"
  shows "\<exists>conn r r'. call conn r = (x, r')"
  using assms by (auto simp: call_retry_def Let_def onRc_def split: prod.splits if_splits) (metis surj_pair)+

lemma read_locked_live:
  assumes "fd_heap (fds s) p = Some d" and "cp \<in> dom (conn_heap (conns (fds s)))"
  shows "case read_locked e p cp off sz s of Some (r, s') \<Rightarrow> io_ok p s s' | None \<Rightarrow> \<not> read_reply_ok e"
proof -
  from seek_to_live [OF assms, of e off] obtain early s1 where
    1: "seek_to e p cp off s = Some (early, s1)" "io_ok p s s1" by blast
  from io_ok_fd [OF 1(2) assms(1)] obtain d1 where d1: "fd_heap (fds s1) p = Some d1" by blast
  let ?call = "\<lambda>conn. iFuseRodsClientDataObjRead e conn (fd_fd d1) sz"
  have "\<exists>out s2. onC (call_retry e True (\<lambda>(st, _). st < 0) fst ?call cp) s1 = Some (out, s2) \<and> io_ok p s1 s2
      \<and> (\<forall>r. out = Call_ok r \<longrightarrow> \<not> (case r of (st, _) \<Rightarrow> st < 0))"
    by (rule io_call_live) (use d1 io_ok_dom [OF 1(2) assms(2)] in \<open>auto intro: rc_wrapper_le\<close>)
  then obtain out s2 where 2: "onC (call_retry e True (\<lambda>(st, _). st < 0) fst ?call cp) s1 = Some (out, s2)"
    "io_ok p s1 s2" by blast
  note t = io_ok_trans [OF 1(2) 2(2)]
  show ?thesis
  proof (cases "early = None \<and> (\<exists>r. out = Call_ok r)")
    case False
    then show ?thesis
      using 1 2 d1 t by (cases early; cases out) (simp_all add: read_locked_def)
  next
    case True
    then obtain st buf where ok: "early = None" "out = Call_ok (st, buf)" by auto
    from io_ok_fd [OF t assms(1)] obtain d2 where d2: "fd_heap (fds s2) p = Some d2" by blast
    let ?f = "\<lambda>d. d\<lparr>fd_lastFilePointer := fd_lastFilePointer d + st\<rparr>"
    from io_ok_update [OF d2, of ?f] io_ok_trans [OF t] obtain s3 where
      3: "onFU (update_fd p ?f) s2 = Some s3" "io_ok p s s3" by (auto simp: fd_same_def)
    have "read_reply_ok e \<Longrightarrow> st \<le> int sz \<and> nat st \<le> length buf"
    proof -
      assume a: "read_reply_ok e"
      obtain c where "call_retry e True (\<lambda>(st, _). st < 0) fst ?call cp (conns (fds s1)) = Some (out, c)"
        using 2(1) by (auto simp: onC_def onF_def onConn_def)
      from call_retry_result [OF this [unfolded ok(2)]] read_reply_wrapper [OF a] show ?thesis by blast
    qed
    then show ?thesis
      using 1 2 3 d1 ok by (auto simp: read_locked_def slice_def split: if_splits)
  qed
qed

lemma write_locked_live:
  assumes "fd_heap (fds s) p = Some d" and "cp \<in> dom (conn_heap (conns (fds s)))"
  shows "\<exists>r s'. write_locked e p cp off buf s = Some (r, s') \<and> io_ok p s s'"
proof -
  from seek_to_live [OF assms, of e off] obtain early s1 where
    1: "seek_to e p cp off s = Some (early, s1)" "io_ok p s s1" by blast
  from io_ok_fd [OF 1(2) assms(1)] obtain d1 where d1: "fd_heap (fds s1) p = Some d1" by blast
  let ?call = "\<lambda>conn. iFuseRodsClientDataObjWrite e conn (fd_fd d1) buf"
  have "\<exists>out s2. onC (call_retry e True (\<lambda>st. st < 0) id ?call cp) s1 = Some (out, s2) \<and> io_ok p s1 s2
      \<and> (\<forall>r. out = Call_ok r \<longrightarrow> \<not> r < 0)"
    by (rule io_call_live) (use d1 io_ok_dom [OF 1(2) assms(2)] in \<open>auto intro: rc_wrapper_le\<close>)
  then obtain out s2 where 2: "onC (call_retry e True (\<lambda>st. st < 0) id ?call cp) s1 = Some (out, s2)"
    "io_ok p s1 s2" by blast
  note t = io_ok_trans [OF 1(2) 2(2)]
  from io_ok_fd [OF t assms(1)] obtain d2 where d2: "fd_heap (fds s2) p = Some d2" by blast
  have upd: "\<exists>s3. onFU (update_fd p (\<lambda>d. d\<lparr>fd_lastFilePointer := fd_lastFilePointer d + st\<rparr>)) s2 = Some s3 \<and> io_ok p s s3" for st
    using io_ok_update [OF d2, of "\<lambda>d. d\<lparr>fd_lastFilePointer := fd_lastFilePointer d + st\<rparr>"] io_ok_trans [OF t]
    by (auto simp: fd_same_def)
  show ?thesis
    using 1 2 d1 t upd by (cases early; cases out) (fastforce simp: write_locked_def)+
qed

text \<open>The locks around them.\<close>

lemma with_fd_lock_live:
  assumes inv: "fs_inv s" and d: "fd_heap (fds s) p = Some d"
    and body: "\<And>cp s2 d2. fd_heap (fds s2) p = Some d2 \<Longrightarrow> cp \<in> dom (conn_heap (conns (fds s2))) \<Longrightarrow>
      case f cp s2 of Some (r, s') \<Rightarrow> io_ok p s2 s' | None \<Rightarrow> bad"
  shows "case with_fd_lock p f s of Some (r, s') \<Rightarrow> io_ok p s s' | None \<Rightarrow> bad"
proof -
  obtain cp where cp: "fd_conn d = Some cp" "cp \<in> dom (conn_heap (conns (fds s)))"
    using fd_conn_alive [OF fs_inv_D(1) [OF inv] d] by blast
  have pos: "0 < fd_fd d" using fs_inv_D(1) [OF inv] d unfolding fd_inv_def by blast
  from io_ok_update [OF d, of "\<lambda>d. d\<lparr>fd_lock := True\<rparr>"] obtain s1 where
    1: "onFU (iFuseFdLock p) s = Some s1" "io_ok p s s1" by (auto simp: iFuseFdLock_def fd_same_def)
  from io_ok_fd [OF 1(2) d] obtain d1 where d1: "fd_heap (fds s1) p = Some d1" by blast
  from lock_live(1) [OF io_ok_dom [OF 1(2) cp(2)]] obtain c2 where
    2: "conn_wrlock cp (conns (fds s1)) = Some c2" "touch_ok (conns (fds s1)) c2" by blast
  let ?s2 = "s1\<lparr>fds := (fds s1)\<lparr>conns := c2\<rparr>\<rparr>"
  have t2: "io_ok p s ?s2" using io_ok_trans [OF 1(2) io_ok_conn [OF d1 2(2)]] .
  have l2: "onCU (iFuseConnLock cp) s1 = Some ?s2" using 2(1) by (intro onCU_nf) (simp add: iFuseConnLock_def)
  show ?thesis
  proof (cases "f cp ?s2")
    case None
    then show ?thesis
      using body [of ?s2 d1 cp] d1 io_ok_dom [OF t2 cp(2)] d pos cp(1) 1(1) l2 by (simp add: with_fd_lock_def)
  next
    case (Some rs)
    obtain r s3 where rs: "rs = (r, s3)" by force
    from body [of ?s2 d1 cp] d1 io_ok_dom [OF t2 cp(2)] Some rs have t3: "io_ok p ?s2 s3" by simp
    note t3' = io_ok_trans [OF t2 t3]
    from io_ok_fd [OF t3' d] obtain d3 where d3: "fd_heap (fds s3) p = Some d3" by blast
    from lock_live(2) [OF io_ok_dom [OF t3' cp(2)]] obtain c4 where
      4: "conn_unlock cp (conns (fds s3)) = Some c4" "touch_ok (conns (fds s3)) c4" by blast
    let ?s4 = "s3\<lparr>fds := (fds s3)\<lparr>conns := c4\<rparr>\<rparr>"
    have t4: "io_ok p s ?s4" using io_ok_trans [OF t3' io_ok_conn [OF d3 4(2)]] .
    have l4: "onCU (iFuseConnUnlock cp) s3 = Some ?s4" using 4(1) by (intro onCU_nf) (simp add: iFuseConnUnlock_def)
    have d4: "fd_heap (fds ?s4) p = Some d3" using d3 by simp
    from io_ok_update [OF d4, of "\<lambda>d. d\<lparr>fd_lock := False\<rparr>"] io_ok_trans [OF t4] obtain s5 where
      5: "onFU (iFuseFdUnlock p) ?s4 = Some s5" "io_ok p s s5" by (auto simp: iFuseFdUnlock_def fd_same_def)
    show ?thesis using Some rs d pos cp(1) 1(1) l2 l4 5 by (simp add: with_fd_lock_def)
  qed
qed

lemma Read_live:
  assumes "fs_inv s" and "fd_heap (fds s) p = Some d"
  shows "case iFuseFsRead e p off sz s of Some (r, s') \<Rightarrow> io_ok p s s' | None \<Rightarrow> \<not> read_reply_ok e"
  unfolding iFuseFsRead_def by (rule with_fd_lock_live [OF assms read_locked_live])

lemma Write_live:
  assumes "fs_inv s" and "fd_heap (fds s) p = Some d"
  shows "\<exists>r s'. iFuseFsWrite e p buf off s = Some (r, s') \<and> io_ok p s s'"
proof -
  have "case with_fd_lock p (\<lambda>cp. write_locked e p cp off buf) s of Some (r, s') \<Rightarrow> io_ok p s s' | None \<Rightarrow> False"
  proof (rule with_fd_lock_live [OF assms])
    fix cp d2 and s2 :: "'a fs_state"
    assume "fd_heap (fds s2) p = Some d2" "cp \<in> dom (conn_heap (conns (fds s2)))"
    from write_locked_live [OF this, of e off buf]
    show "case write_locked e p cp off buf s2 of Some (r, s') \<Rightarrow> io_ok p s2 s' | None \<Rightarrow> False" by auto
  qed
  then show ?thesis by (auto simp: iFuseFsWrite_def split: option.splits)
qed

end
