(* ===== verification/IFuse_Server.thy ===== *)
theory IFuse_Server
  imports IFuse_Lib
begin

text \<open>
  A small iRODS server for the witnesses: data objects and collections in memory, a clock, and
  a script of failures. It instantiates the parameter \<open>'w ext\<close>; no theorem about the client
  depends on it, it only shows that their hypotheses can hold and what the client then does.
  Descriptors belong to the connection they were opened on, and each connection numbers its
  own from 3. Each call takes the head of the script: a negative number is the status the
  call fails with, anything else lets it run.
\<close>

record demo =
  dm_clock :: int
  dm_files :: "string \<rightharpoonup> bytes"
  dm_colls :: "string \<rightharpoonup> collEnt list"
  dm_fds :: "rcComm \<times> int \<rightharpoonup> string \<times> nat"
  dm_fdnext :: "rcComm \<Rightarrow> int"
  dm_dirs :: "nat \<rightharpoonup> collEnt list"
  dm_next :: nat
  dm_script :: "int list"
  dm_calls :: nat

definition served :: "(int \<Rightarrow> 'r) \<Rightarrow> (demo \<Rightarrow> 'r \<times> demo) \<Rightarrow> demo \<Rightarrow> 'r \<times> demo" where
  "served err f w =
     (let w1 = w\<lparr>dm_calls := Suc (dm_calls w)\<rparr>
      in case dm_script w1 of
           [] \<Rightarrow> f w1
         | x # xs \<Rightarrow> let w2 = w1\<lparr>dm_script := xs\<rparr> in if x < 0 then (err x, w2) else f w2)"

definition NO_FILE :: int where "NO_FILE = - 310000"
definition NOT_EMPTY :: int where "NOT_EMPTY = - 821000"
definition NET_ERR :: int where "NET_ERR = - 4000"

text \<open>A new connection has no descriptors, whatever an old one of the same number left behind.\<close>

definition srv_connect :: "demo \<Rightarrow> (rcComm \<times> int) \<times> demo" where
  "srv_connect w = ((Some (dm_next w), 0),
     w\<lparr>dm_next := Suc (dm_next w), dm_fds := (\<lambda>k. if fst k = Some (dm_next w) then None else dm_fds w k)\<rparr>)"

definition srv_open :: "rcComm \<Rightarrow> string \<Rightarrow> demo \<Rightarrow> int \<times> demo" where
  "srv_open conn path w =
     (if dm_files w path = None \<or> conn = None then (NO_FILE, w)
      else let fd = dm_fdnext w conn
           in (fd, w\<lparr>dm_fds := (dm_fds w)((conn, fd) \<mapsto> (path, 0)), dm_fdnext := (dm_fdnext w)(conn := fd + 1)\<rparr>))"

definition srv_close :: "rcComm \<Rightarrow> int \<Rightarrow> demo \<Rightarrow> int \<times> demo" where
  "srv_close conn fd w =
     (if dm_fds w (conn, fd) = None then (- 1000, w) else (0, w\<lparr>dm_fds := (dm_fds w)((conn, fd) := None)\<rparr>))"

definition srv_fd :: "rcComm \<Rightarrow> int \<Rightarrow> demo \<Rightarrow> (string \<times> nat) option" where
  "srv_fd conn fd w = (if conn = None then None else dm_fds w (conn, fd))"

definition srv_lseek :: "rcComm \<Rightarrow> int \<Rightarrow> int \<Rightarrow> demo \<Rightarrow> (int \<times> int option) \<times> demo" where
  "srv_lseek conn fd off w =
     (case srv_fd conn fd w of
        None \<Rightarrow> ((- 1000, None), w)
      | Some (path, pos) \<Rightarrow> ((0, Some off), w\<lparr>dm_fds := (dm_fds w)((conn, fd) \<mapsto> (path, nat off))\<rparr>))"

definition file_of :: "string \<Rightarrow> demo \<Rightarrow> bytes" where
  "file_of path w = (case dm_files w path of None \<Rightarrow> [] | Some data \<Rightarrow> data)"

definition srv_read :: "rcComm \<Rightarrow> int \<Rightarrow> nat \<Rightarrow> demo \<Rightarrow> (int \<times> bytes) \<times> demo" where
  "srv_read conn fd len w =
     (case srv_fd conn fd w of
        None \<Rightarrow> ((- 1000, []), w)
      | Some (path, pos) \<Rightarrow>
          let data = take len (drop pos (file_of path w))
          in ((int (length data), data), w\<lparr>dm_fds := (dm_fds w)((conn, fd) \<mapsto> (path, pos + length data))\<rparr>))"

definition srv_write :: "rcComm \<Rightarrow> int \<Rightarrow> bytes \<Rightarrow> demo \<Rightarrow> int \<times> demo" where
  "srv_write conn fd buf w =
     (case srv_fd conn fd w of
        None \<Rightarrow> (- 1000, w)
      | Some (path, pos) \<Rightarrow>
          (int (length buf), w\<lparr>dm_files := (dm_files w)(path \<mapsto> overlay (file_of path w) pos buf),
             dm_fds := (dm_fds w)((conn, fd) \<mapsto> (path, pos + length buf))\<rparr>))"

definition srv_create :: "rcComm \<Rightarrow> string \<Rightarrow> demo \<Rightarrow> int \<times> demo" where
  "srv_create conn path w = srv_open conn path (w\<lparr>dm_files := (dm_files w)(path \<mapsto> [])\<rparr>)"

definition srv_unlink :: "string \<Rightarrow> demo \<Rightarrow> int \<times> demo" where
  "srv_unlink path w =
     (if dm_files w path = None then (NO_FILE, w) else (0, w\<lparr>dm_files := (dm_files w)(path := None)\<rparr>))"

definition srv_truncate :: "string \<Rightarrow> int \<Rightarrow> demo \<Rightarrow> int \<times> demo" where
  "srv_truncate path len w =
     (case dm_files w path of None \<Rightarrow> (NO_FILE, w)
      | Some data \<Rightarrow> (0, w\<lparr>dm_files := (dm_files w)(path \<mapsto> take (nat len) (data @ zeros (nat len - length data)))\<rparr>))"

definition below_moved :: "string \<Rightarrow> string \<Rightarrow> (string \<rightharpoonup> bytes) \<Rightarrow> string \<Rightarrow> bytes option" where
  "below_moved src dst files path =
     (if take (length dst + 1) path = dst @ ''/'' then files (src @ drop (length dst) path)
      else if take (length src + 1) path = src @ ''/'' then None
      else files path)"

definition srv_rename :: "string \<Rightarrow> string \<Rightarrow> demo \<Rightarrow> int \<times> demo" where
  "srv_rename src dst w =
     (case dm_files w src of
        Some data \<Rightarrow> (0, w\<lparr>dm_files := (dm_files w)(src := None, dst \<mapsto> data)\<rparr>)
      | None \<Rightarrow>
          (case dm_colls w src of
             None \<Rightarrow> (NO_FILE, w)
           | Some es \<Rightarrow>
               (0, w\<lparr>dm_colls := (dm_colls w)(src := None, dst \<mapsto> es),
                     dm_files := below_moved src dst (dm_files w)\<rparr>)))"

definition srv_stat :: "string \<Rightarrow> demo \<Rightarrow> (int \<times> rodsObjStat option) \<times> demo" where
  "srv_stat path w =
     (case dm_files w path of
        Some data \<Rightarrow> ((0, Some \<lparr>os_objType = DATA_OBJ_T, os_objSize = int (length data), os_dataMode = 0x180,
           os_dataId = Some ''7'', os_createTime = Some ''100'', os_modifyTime = Some ''200''\<rparr>), w)
      | None \<Rightarrow>
          if dm_colls w path = None then ((NO_FILE, None), w)
          else ((0, Some \<lparr>os_objType = COLL_OBJ_T, os_objSize = 0, os_dataMode = 0,
             os_dataId = Some ''8'', os_createTime = Some ''100'', os_modifyTime = Some ''200''\<rparr>), w))"

definition srv_opendir :: "string \<Rightarrow> demo \<Rightarrow> (int \<times> nat) \<times> demo" where
  "srv_opendir path w =
     (case dm_colls w path of None \<Rightarrow> ((NO_FILE, 0), w)
      | Some es \<Rightarrow> ((0, dm_next w), w\<lparr>dm_dirs := (dm_dirs w)(dm_next w \<mapsto> es), dm_next := Suc (dm_next w)\<rparr>))"

definition no_ent :: collEnt where
  "no_ent = \<lparr>ce_objType = UNKNOWN_OBJ_T, ce_dataName = '''', ce_collName = '''', ce_dataMode = 0,
     ce_dataSize = 0, ce_dataId = None, ce_createTime = None, ce_modifyTime = None\<rparr>"

definition srv_readdir :: "nat \<Rightarrow> demo \<Rightarrow> (int \<times> collEnt) \<times> demo" where
  "srv_readdir h w =
     (case dm_dirs w h of
        Some (en # es) \<Rightarrow> ((0, en), w\<lparr>dm_dirs := (dm_dirs w)(h \<mapsto> es)\<rparr>)
      | _ \<Rightarrow> ((- 808000, no_ent), w))"

definition srv_mkdir :: "string \<Rightarrow> demo \<Rightarrow> int \<times> demo" where
  "srv_mkdir path w = (0, w\<lparr>dm_colls := (dm_colls w)(path \<mapsto> [])\<rparr>)"

definition srv_rmdir :: "string \<Rightarrow> demo \<Rightarrow> int \<times> demo" where
  "srv_rmdir path w =
     (case dm_colls w path of None \<Rightarrow> (NO_FILE, w)
      | Some [] \<Rightarrow> (0, w\<lparr>dm_colls := (dm_colls w)(path := None)\<rparr>)
      | Some (_ # _) \<Rightarrow> (NOT_EMPTY, w))"

definition demo_ext :: "demo ext" where
  "demo_ext = \<lparr>
     MAX_NAME_LEN = 1088, SYS_MALLOC_ERR = - 12000, USER_FILE_DOES_NOT_EXIST = NO_FILE,
     CAT_COLLECTION_NOT_EMPTY = NOT_EMPTY, SYS_READ_MSG_BODY_LEN_ERR = - 7000,
     SYS_HEADER_READ_LEN_ERR = NET_ERR, SYS_HEADER_WRITE_LEN_ERR = - 5000,
     SYS_PACK_INSTRUCT_FORMAT_ERR = - 15000,
     getIrodsErrno = (\<lambda>st. - (((- st) div 1000) * 1000)), getErrno = (\<lambda>st. (- st) mod 1000),
     rstrcpy = (\<lambda>src n. take (n - 1) src),
     parseRodsPathStr = (\<lambda>path env. (0, rodsCwd env @ ''/'' @ path)),
     c_time = (\<lambda>w. (dm_clock w, w)), c_calloc = (\<lambda>w. (True, w)), c_getuid = 1000, c_getgid = 1000,
     c_shutdown = (\<lambda>conn w. w), c_pthread_create = served (\<lambda>st. - st) (\<lambda>w. (0, w)),
     rcConnect = (\<lambda>env. served (\<lambda>st. (None, st)) srv_connect),
     rcDisconnect = (\<lambda>conn w. (0, w)),
     clientLogin = (\<lambda>conn. served id (\<lambda>w. (0, w))),
     rcTicketAdmin = (\<lambda>conn ticket. served id (\<lambda>w. (0, w))),
     rcDataObjOpen = (\<lambda>conn path fl. served id (srv_open conn path)),
     rcDataObjClose = (\<lambda>conn fd. served id (srv_close conn fd)),
     rclOpenCollection = (\<lambda>conn path. served (\<lambda>st. (st, 0)) (srv_opendir path)),
     rclCloseCollection = (\<lambda>h w. (0, w\<lparr>dm_dirs := (dm_dirs w)(h := None)\<rparr>)),
     rclReadCollection = (\<lambda>conn h. served (\<lambda>st. (st, no_ent)) (srv_readdir h)),
     rcObjStat = (\<lambda>conn path. served (\<lambda>st. (st, None)) (srv_stat path)),
     rcDataObjLseek = (\<lambda>conn fd off. served (\<lambda>st. (st, None)) (srv_lseek conn fd off)),
     rcDataObjRead = (\<lambda>conn fd len. served (\<lambda>st. (st, [])) (srv_read conn fd len)),
     rcDataObjWrite = (\<lambda>conn fd buf. served id (srv_write conn fd buf)),
     rcDataObjCreate = (\<lambda>conn path mode resc. served id (srv_create conn path)),
     rcDataObjUnlink = (\<lambda>conn path. served id (srv_unlink path)),
     rcCollCreate = (\<lambda>conn path. served id (srv_mkdir path)),
     rcRmColl = (\<lambda>conn path. served id (srv_rmdir path)),
     rcDataObjRename = (\<lambda>conn src dst. served id (srv_rename src dst)),
     rcDataObjTruncate = (\<lambda>conn path len. served id (srv_truncate path len)),
     rcModDataObjMeta = (\<lambda>conn path mode. served id (\<lambda>w. (0, w)))\<rparr>"

text \<open>A world with two files in the collection \<open>/z/d\<close>, and the options the program starts with.\<close>

definition data_ent :: "string \<Rightarrow> collEnt" where
  "data_ent name = no_ent\<lparr>ce_objType := DATA_OBJ_T, ce_dataName := name, ce_dataSize := 5\<rparr>"

definition demo_world :: "int list \<Rightarrow> demo" where
  "demo_world script = \<lparr>dm_clock = 1000,
     dm_files = [''/z/d/a'' \<mapsto> ''hello'', ''/z/d/b'' \<mapsto> ''world''],
     dm_colls = [''/z/d'' \<mapsto> [data_ent ''a'', data_ent ''b'']],
     dm_fds = Map.empty, dm_fdnext = (\<lambda>_. 3), dm_dirs = Map.empty, dm_next = 1, dm_script = script, dm_calls = 0\<rparr>"

definition demo_opt :: "bool \<Rightarrow> int \<Rightarrow> iFuseOpt" where
  "demo_opt reuse maxConn = \<lparr>opt_program = Some ''irodsFs'', opt_help = False, opt_version = False, opt_debug = False,
     opt_nonempty = False, opt_foreground = False, opt_directio = True, opt_bufferedFS = True,
     opt_preload = True, opt_cacheMetadata = True, opt_maxConn = maxConn, opt_blocksize = 8,
     opt_connReuse = reuse, opt_connTimeoutSec = 300, opt_connKeepAliveSec = 180,
     opt_connCheckIntervalSec = 10, opt_rodsapiTimeoutSec = 90, opt_preloadNumBlocks = 3,
     opt_metadataCacheTimeoutSec = 180, opt_ticket = None, opt_workdir = None,
     opt_mountpoint = Some ''/mnt'', opt_extendedOpts = []\<rparr>"

definition demo_env :: rodsEnv where
  "demo_env = \<lparr>rodsHost = ''host'', rodsPort = 1247, rodsUserName = ''rods'', rodsZone = ''z'',
     rodsDefResource = ''demoResc'', rodsCwd = ''/z''\<rparr>"

definition demo_lib :: "bool \<Rightarrow> int \<Rightarrow> int list \<Rightarrow> demo lib_state" where
  "demo_lib reuse maxConn script = \<lparr>world = demo_world script, heap_next = 0, g_iFuseEnv = demo_env,
     g_iFuseOpt = demo_opt reuse maxConn, g_TimerHandlers = [], g_TimerRunning = True\<rparr>"

lemma demo_calloc [simp, intro]: "calloc_ok demo_ext"
  by (simp add: calloc_ok_def demo_ext_def)

lemma demo_clock [simp, intro]: "clock_ok demo_ext dm_clock"
  by (simp add: clock_ok_def demo_ext_def)

lemma demo_rstrcpy [simp, intro]: "rstrcpy_ok demo_ext"
  by (simp add: rstrcpy_ok_def demo_ext_def)

lemma demo_errors [simp, intro]: "error_codes_ok demo_ext"
  by (simp add: error_codes_ok_def demo_ext_def NO_FILE_def NOT_EMPTY_def)

lemma demo_max [simp]: "MAX_NAME_LEN demo_ext = 1088"
  by (simp add: demo_ext_def)

end
