(* ===== verification/IFuse_System.thy ===== *)
theory IFuse_System
  imports IFuse_FS IFuse_Server
begin

text \<open>
  Putting the library together, \<open>iFuseLibInit\<close>, \<open>iFuseLibDestroy\<close> and \<open>_timerTick\<close> of
  \<open>iFuse.Lib.cpp\<close>: the values the static variables start with, the order of the
  initialisations, the timer's round over the registered callbacks, and every sequence of file
  system operations and timer rounds.
\<close>

section \<open>The static variables at start\<close>

definition rc_start :: "'w lib_state \<Rightarrow> 'w rc_state" where
  "rc_start l = \<lparr>lib = l, op_heap = Map.empty, g_Operations = [],
     g_RodsapiTimeoutSec = IFUSE_RODSCLIENTAPI_TIMEOUT_SEC, g_LastRodsapiTimeoutCheck = 0\<rparr>"

definition conn_start :: "'w lib_state \<Rightarrow> 'w conn_state" where
  "conn_start l = \<lparr>rcs = rc_start l, conn_heap = Map.empty, g_InUseShortopConn = None, g_InUseConn = [],
     g_InUseOnetimeuseConn = [], g_FreeShortopConn = None, g_FreeConn = [], g_ConnIDGen = 0,
     g_MaxConnNum = IFUSE_MAX_NUM_CONN, g_ConnTimeoutSec = IFUSE_FREE_CONN_TIMEOUT_SEC,
     g_ConnKeepAliveSec = IFUSE_FREE_CONN_KEEPALIVE_SEC,
     g_ConnCheckIntervalSec = IFUSE_FREE_CONN_CHECK_INTERVAL_SEC, g_LastConnCheck = 0\<rparr>"

definition fd_start :: "'w lib_state \<Rightarrow> 'w fd_state" where
  "fd_start l = \<lparr>conns = conn_start l, fd_heap = Map.empty, dir_heap = Map.empty, g_AssignedFd = [],
     g_AssignedDir = [], g_FdIDGen = 0, g_DdIDGen = 0\<rparr>"

definition mc_start :: mc_state where
  "mc_start = \<lparr>g_StatCacheMap = [], g_DirCacheMap = [],
     g_metadataCacheTimeoutSec = IFUSE_METADATA_CACHE_TIMEOUT_SEC,
     g_LastStatCacheTimeoutCheck = 0, g_LastDirCacheTimeoutCheck = 0\<rparr>"

definition fs_start :: "'w lib_state \<Rightarrow> 'w fs_state" where
  "fs_start l = \<lparr>fds = fd_start l, mcache = mc_start, g_ConnReuse = False, g_CacheMetadata = True\<rparr>"

section \<open>Starting and stopping the library\<close>

definition iFuseLibInit :: "'w fs_state \<Rightarrow> 'w fs_state" where
  "iFuseLibInit s =
     (let c1 = (conns (fds s))\<lparr>rcs := iFuseRodsClientInit (rcs (conns (fds s)))\<rparr>;
          c2 = iFuseConnInit c1;
          d = iFuseFdInit ((fds s)\<lparr>conns := c2\<rparr>);
          (l, m) = iFuseMetadataCacheInit (lib (rcs c2), mcache s)
      in put_lib l (s\<lparr>fds := d, mcache := m\<rparr>))"

definition iFuseLibDestroy :: "'w ext \<Rightarrow> 'w fs_state \<Rightarrow> 'w fs_state option" where
  "iFuseLibDestroy e s =
     do { let s1 = s\<lparr>mcache := iFuseMetadataCacheDestroy (mcache s)\<rparr>;
          d \<leftarrow> iFuseFdDestroy e (fds s1);
          c \<leftarrow> iFuseConnDestroy e (conns d);
          Some (s1\<lparr>fds := d\<lparr>conns := c\<lparr>rcs := iFuseRodsClientDestroy (rcs c)\<rparr>\<rparr>\<rparr>) }"

section \<open>The timer\<close>

text \<open>
  One round of the loop of \<open>_timerTick\<close>, which runs about a thousand of them a second until
  the flag is cleared.
\<close>

fun run_handlers :: "'w ext \<Rightarrow> timerHandler list \<Rightarrow> 'w fs_state \<Rightarrow> 'w fs_state option" where
  "run_handlers e [] s = Some s"
| "run_handlers e (TimeoutChecker # cbs) s =
     do { r \<leftarrow> timeoutChecker e (rcs (conns (fds s)));
          run_handlers e cbs (s\<lparr>fds := (fds s)\<lparr>conns := (conns (fds s))\<lparr>rcs := r\<rparr>\<rparr>\<rparr>) }"
| "run_handlers e (ConnChecker # cbs) s =
     do { s1 \<leftarrow> onCU (connChecker e) s; run_handlers e cbs s1 }"

definition timerTick :: "'w ext \<Rightarrow> 'w fs_state \<Rightarrow> 'w fs_state option" where
  "timerTick e s =
     (if g_TimerRunning (get_lib s) then run_handlers e (g_TimerHandlers (get_lib s)) s else Some s)"

text \<open>A round changes neither descriptors nor references, and leaves the system well formed.\<close>

lemma kill_operations_lib: "kill_operations e ps r = Some r' \<Longrightarrow> lib_same (lib r) (lib r')"
proof (induction ps arbitrary: r)
  case (Cons p ps)
  then obtain ob where ob: "op_heap r p = Some ob" by (auto simp: Let_def)
  define r2 where "r2 = (case op_conn ob of
       None \<Rightarrow> r\<lparr>g_Operations := removeAll p (g_Operations r)\<rparr>
     | Some c \<Rightarrow> r\<lparr>g_Operations := removeAll p (g_Operations r),
         lib := (lib r)\<lparr>world := c_shutdown e c (world (lib r))\<rparr>\<rparr>)"
  have "kill_operations e (p # ps) r = kill_operations e ps r2"
    using ob by (auto simp: r2_def Let_def split: option.split)
  with Cons.prems have "kill_operations e ps r2 = Some r'" by (simp only:)
  then have "lib_same (lib r2) (lib r')" by (rule Cons.IH)
  moreover have "lib_same (lib r) (lib r2)" by (auto simp: r2_def lib_same_def split: option.split)
  ultimately show ?case by (rule lib_same_trans [rotated])
qed simp

lemma onLib_time_lib: "onLib (iFuseLibGetCurrentTime e) r = (x, r') \<Longrightarrow> lib_same (lib r) (lib r')"
  by (cases "iFuseLibGetCurrentTime e (lib r)") (auto simp: onLib_def intro: lib_same_time)

lemma timeoutChecker_lib: "timeoutChecker e r = Some r' \<Longrightarrow> lib_same (lib r) (lib r')"
proof -
  assume run: "timeoutChecker e r = Some r'"
  obtain now r1 where 1: "onLib (iFuseLibGetCurrentTime e) r = (now, r1)" by force
  note l1 = onLib_time_lib [OF 1]
  show ?thesis
  proof (cases "iFuseLibDiffTimeSec now (g_LastRodsapiTimeoutCheck r1) > c_div (g_RodsapiTimeoutSec r1) 2")
    case False
    with run 1 l1 show ?thesis by (simp add: timeoutChecker_def)
  next
    case True
    with run 1 obtain b r2 where 2: "(if b then do { removeList \<leftarrow> timed_out now (g_RodsapiTimeoutSec r1) (op_heap r1) (g_Operations r1);
                            kill_operations e removeList r1 } else Some r1) = Some r2"
      and r': "(let (now, r3) = onLib (iFuseLibGetCurrentTime e) r2 in Some (r3\<lparr>g_LastRodsapiTimeoutCheck := now\<rparr>)) = Some r'"
      by (auto simp: timeoutChecker_def)
    obtain now3 r3 where 3: "onLib (iFuseLibGetCurrentTime e) r2 = (now3, r3)" by force
    have "lib_same (lib r1) (lib r2)" using 2 by (auto split: if_splits dest: kill_operations_lib)
    with l1 onLib_time_lib [OF 3] r' 3 show ?thesis by (auto intro: lib_same_trans)
  qed
qed

lemma timeoutChecker_le:
  assumes "ops_ok r"
  shows "\<exists>r'. timeoutChecker e r = Some r' \<and> rc_le r r'"
proof -
  from timeoutChecker_live [OF assms, of e] obtain r' where r': "timeoutChecker e r = Some r'" "ops_ok r'" by blast
  with timeoutChecker_lib [OF r'(1)] show ?thesis by (auto simp: rc_le_def lib_same_def)
qed

lemma run_handlers_same:
  assumes "fs_inv s"
  shows "\<exists>s'. run_handlers e hs s = Some s' \<and> fs_same s s'"
  using assms
proof (induction hs arbitrary: s)
  case Nil
  then show ?case by (simp add: fs_same_refl)
next
  case (Cons h hs)
  have step: "\<exists>c. conn_inv c \<and> rc_le (rcs (conns (fds s))) (rcs c) \<and> conn_refs c = conn_refs (conns (fds s))
      \<and> run_handlers e (h # hs) s = run_handlers e hs (s\<lparr>fds := (fds s)\<lparr>conns := c\<rparr>\<rparr>)"
  proof (cases h)
    case TimeoutChecker
    have "ops_ok (rcs (conns (fds s)))" using fs_inv_D(3) [OF Cons.prems] by (simp add: conn_inv_def)
    from timeoutChecker_le [OF this, of e] obtain r where
      r: "timeoutChecker e (rcs (conns (fds s))) = Some r" "rc_le (rcs (conns (fds s))) r" by blast
    with touch_okD [OF touch_ok_rcs [OF r(2)]] fs_inv_D(3) [OF Cons.prems] TimeoutChecker
    show ?thesis by (intro exI [of _ "(conns (fds s))\<lparr>rcs := r\<rparr>"]) simp
  next
    case ConnChecker
    from connChecker_ok [OF fs_inv_D(3) [OF Cons.prems], of e] obtain c where
      "connChecker e (conns (fds s)) = Some c" "conn_inv c" "rc_le (rcs (conns (fds s))) (rcs c)"
      "conn_refs c = conn_refs (conns (fds s))" by blast
    with ConnChecker show ?thesis by (intro exI [of _ c]) (simp add: onCU_def)
  qed
  then obtain c where c: "conn_inv c" "rc_le (rcs (conns (fds s))) (rcs c)" "conn_refs c = conn_refs (conns (fds s))"
    "run_handlers e (h # hs) s = run_handlers e hs (s\<lparr>fds := (fds s)\<lparr>conns := c\<rparr>\<rparr>)" by blast
  have same: "fs_same s (s\<lparr>fds := (fds s)\<lparr>conns := c\<rparr>\<rparr>)"
    unfolding fs_same_def using c fs_inv_D(2) [OF Cons.prems] by (intro exI [of _ c] exI [of _ "mcache s"]) simp
  from Cons.IH [OF fs_inv_same [OF Cons.prems same]] same show ?case
    unfolding c(4) by (auto intro: fs_same_trans)
qed

lemma timerTick_same: "fs_inv s \<Longrightarrow> \<exists>s'. timerTick e s = Some s' \<and> fs_same s s'"
  using run_handlers_same [of s e "g_TimerHandlers (get_lib s)"] by (auto simp: timerTick_def intro: fs_same_refl)

text \<open>The system starts well formed, with both callbacks registered and nothing held.\<close>

lemma metadataCacheInit_start:
  "\<exists>m. iFuseMetadataCacheInit (l, mc_start) = (l, m) \<and> mc_ok m"
  by (simp add: iFuseMetadataCacheInit_def mc_start_def mc_ok_empty Let_def)

lemma LibInit_alt:
  assumes "iFuseMetadataCacheInit (lib (rcs c2), mcache s) = (lib (rcs c2), m)"
    and "c2 = iFuseConnInit ((conns (fds s))\<lparr>rcs := iFuseRodsClientInit (rcs (conns (fds s)))\<rparr>)"
  shows "iFuseLibInit s = s\<lparr>fds := iFuseFdInit ((fds s)\<lparr>conns := c2\<rparr>), mcache := m\<rparr>"
  unfolding iFuseLibInit_def Let_def assms(2) [symmetric] assms(1) prod.case put_lib_def iFuseFdInit_def by simp

lemma fs_inv_start: "fs_inv (iFuseLibInit (fs_start l))"
proof -
  let ?r = "iFuseRodsClientInit (rc_start l)"
  let ?c = "iFuseConnInit ((conn_start l)\<lparr>rcs := ?r\<rparr>)"
  have "ops_ok ?r" by (rule ops_ok_init) (simp_all add: rc_start_def)
  then have "conn_inv ?c" by (intro conn_inv_init) (simp_all add: conn_start_def IFUSE_MAX_NUM_CONN_def)
  then have fd: "fd_inv (iFuseFdInit ((fd_start l)\<lparr>conns := ?c\<rparr>))"
    by (intro fd_inv_init) (simp_all add: fd_start_def)
  obtain m where m: "iFuseMetadataCacheInit (lib (rcs ?c), mc_start) = (lib (rcs ?c), m)" "mc_ok m"
    using metadataCacheInit_start by blast
  have "iFuseLibInit (fs_start l) = (fs_start l)\<lparr>fds := iFuseFdInit ((fd_start l)\<lparr>conns := ?c\<rparr>), mcache := m\<rparr>"
    using LibInit_alt [of ?c "fs_start l" m] m(1) by (simp add: fs_start_def fd_start_def conn_start_def)
  with fd m(2) show ?thesis by (simp add: fs_inv_def)
qed


section \<open>A concrete start\<close>

text \<open>
  The library started on the small server: \<open>reuse\<close> and \<open>maxConn\<close> are the options
  \<open>connReuse\<close> and \<open>maxConn\<close>, \<open>script\<close> the failures to come.
\<close>

definition demo_fs :: "bool \<Rightarrow> int \<Rightarrow> int list \<Rightarrow> demo fs_state" where
  "demo_fs reuse maxConn script = iFuseFsInit (iFuseLibInit (fs_start (demo_lib reuse maxConn script)))"

lemma fs_inv_FsInit [simp]: "fs_inv (iFuseFsInit s) = fs_inv s"
  by (simp add: iFuseFsInit_def fs_inv_def Let_def)

lemma fs_inv_demo [simp, intro]: "fs_inv (demo_fs reuse maxConn script)"
  by (simp add: demo_fs_def fs_inv_start)

lemma demo_start:
  "conn_heap (conns (fds (demo_fs reuse maxConn script))) = Map.empty"
  "fd_heap (fds (demo_fs reuse maxConn script)) = Map.empty"
  "dir_heap (fds (demo_fs reuse maxConn script)) = Map.empty"
  "g_ConnIDGen (conns (fds (demo_fs reuse maxConn script))) = 0"
  "g_AssignedFd (fds (demo_fs reuse maxConn script)) = []"
  "g_AssignedDir (fds (demo_fs reuse maxConn script)) = []"
  "g_CacheMetadata (demo_fs reuse maxConn script) = True"
  by (simp_all add: demo_fs_def iFuseFsInit_def iFuseLibInit_def fs_start_def fd_start_def conn_start_def
      iFuseConnInit_def iFuseFdInit_def put_lib_def Let_def rc_start_def iFuseRodsClientInit_def
      iFuseMetadataCacheInit_def mc_start_def demo_lib_def demo_opt_def iFuseLibGetOption_def get_lib_def
      iFuseLibSetTimerTickHandler_def)

lemma demo_room [simp, intro]: "conn_room (demo_fs reuse maxConn script)"
  by (simp add: conn_room_def demo_start word_gt_0)

lemma demo_no_leak [simp, intro]: "no_leak (demo_fs reuse maxConn script)"
  by (simp add: no_leak_def held_def demo_start conn_refs_def heap_refs_def)

lemma run_split: "map_option fst x = Some r \<Longrightarrow> x = Some (r, snd (the x))"
  by (cases x) auto

end
