(* ===== verification/Client_Correct.thy ===== *)
theory Client_Correct
  imports IFuse_System
begin

text \<open>
  What the lower half of the library guarantees: the registry of running calls
  (\<open>iFuse.Lib.RodsClientAPI.cpp\<close>), paths and comparisons (\<open>iFuse.Lib.Util.cpp\<close>) and the
  metadata caches (\<open>iFuse.Lib.MetadataCache.cpp\<close>).
\<close>

section \<open>The registry of running calls\<close>

text \<open>
  C36: however the threads' calls and the timer interleave, the registry holds each running
  call once, all of them allocated, and a run of the timeout checker returns, having taken off
  exactly the calls that ran for the timeout or longer when a check was due and none when not.
\<close>

theorem registry_sound:
  assumes "rc_reachable e (iFuseRodsClientInit (rc_start l)) r"
  shows "distinct (g_Operations r) \<and> set (g_Operations r) \<subseteq> dom (op_heap r)
    \<and> (\<exists>r'. timeoutChecker e r = Some r' \<and> op_heap r' = op_heap r
        \<and> g_Operations r' =
            (let now = fst (c_time e (world (lib r)))
             in if now - g_LastRodsapiTimeoutCheck r > c_div (g_RodsapiTimeoutSec r) 2
                then filter (\<lambda>p. \<not> op_expired now (g_RodsapiTimeoutSec r) (op_heap r) p) (g_Operations r)
                else g_Operations r))"
proof -
  have "ops_ok (iFuseRodsClientInit (rc_start l))" by (rule ops_ok_init) (simp_all add: rc_start_def)
  with assms have ok: "ops_ok r" by (rule ops_ok_reachable)
  from timeoutChecker_live [OF ok, of e] show ?thesis using ok by (auto simp: ops_ok_def)
qed

theorem registry_sound_witness:
  "let r = snd (startOperationTimeout demo_ext (Some 7) (iFuseRodsClientInit (rc_start (demo_lib False 10 []))))
   in g_Operations r = [0] \<and> (\<exists>r'. timeoutChecker demo_ext r = Some r' \<and> g_Operations r' = [0])"
proof -
  let ?init = "iFuseRodsClientInit (rc_start (demo_lib False 10 []))"
  let ?r = "snd (startOperationTimeout demo_ext (Some 7) ?init)"
  have "startOperationTimeout demo_ext (Some 7) ?init = (fst (startOperationTimeout demo_ext (Some 7) ?init), ?r)"
    by simp
  from rc_next [OF rc_init begin_op [OF this]] have reach: "rc_reachable demo_ext ?init ?r" .
  have ops: "g_Operations ?r = [0]" "op_heap ?r 0 = Some \<lparr>op_start = 1000, op_conn = Some 7\<rparr>"
      "fst (c_time demo_ext (world (lib ?r))) = 1000" "g_RodsapiTimeoutSec ?r = 90"
    by code_simp+
  from registry_sound [OF reach] obtain r' where "timeoutChecker demo_ext ?r = Some r'" "g_Operations r' = [0]"
    using ops by (auto simp: Let_def op_expired_def)
  with ops(1) show ?thesis by (simp add: Let_def)
qed

text \<open>
  C37: a call through any of the 17 wrappers that track their call leaves the registry as it found
  it, whoever else is registered, on success and on failure. When there is no memory for the
  registration, each of them answers \<open>SYS_MALLOC_ERR\<close> and does nothing else: the library is not
  called.
\<close>

theorem wrapper_registry:
  assumes "ops_ok r"
  shows "(\<forall>r' \<in> {snd (iFuseRodsClientLogin e conn r), snd (iFuseRodsClientSetSessionTicket e conn ticket r),
        snd (iFuseRodsClientDataObjOpen e conn path fl r), snd (iFuseRodsClientDataObjClose e conn fd r),
        snd (iFuseRodsClientOpenCollection e conn path r), snd (iFuseRodsClientObjStat e conn path r),
        snd (iFuseRodsClientDataObjLseek e conn fd off r), snd (iFuseRodsClientDataObjRead e conn fd n r),
        snd (iFuseRodsClientDataObjWrite e conn fd buf r), snd (iFuseRodsClientDataObjCreate e conn path mode resc r),
        snd (iFuseRodsClientDataObjUnlink e conn path r), snd (iFuseRodsClientReadCollection e conn h old r),
        snd (iFuseRodsClientCollCreate e conn path r), snd (iFuseRodsClientRmColl e conn path r),
        snd (iFuseRodsClientDataObjRename e conn path path2 r), snd (iFuseRodsClientDataObjTruncate e conn path len r),
        snd (iFuseRodsClientModDataObjMeta e conn path mode r)}.
          g_Operations r' = g_Operations r \<and> op_heap r' = op_heap r \<and> ops_ok r')
    \<and> (\<not> fst (c_calloc e (world (lib r))) \<longrightarrow>
        (let r0 = r\<lparr>lib := (lib r)\<lparr>world := snd (c_calloc e (world (lib r)))\<rparr>\<rparr> in
        iFuseRodsClientLogin e conn r = (SYS_MALLOC_ERR e, r0)
        \<and> iFuseRodsClientSetSessionTicket e conn ticket r = (SYS_MALLOC_ERR e, r0)
        \<and> iFuseRodsClientDataObjOpen e conn path fl r = (SYS_MALLOC_ERR e, r0)
        \<and> iFuseRodsClientDataObjClose e conn fd r = (SYS_MALLOC_ERR e, r0)
        \<and> iFuseRodsClientOpenCollection e conn path r = ((SYS_MALLOC_ERR e, 0), r0)
        \<and> iFuseRodsClientObjStat e conn path r = ((SYS_MALLOC_ERR e, None), r0)
        \<and> iFuseRodsClientDataObjLseek e conn fd off r = ((SYS_MALLOC_ERR e, None), r0)
        \<and> iFuseRodsClientDataObjRead e conn fd n r = ((SYS_MALLOC_ERR e, []), r0)
        \<and> iFuseRodsClientDataObjWrite e conn fd buf r = (SYS_MALLOC_ERR e, r0)
        \<and> iFuseRodsClientDataObjCreate e conn path mode resc r = (SYS_MALLOC_ERR e, r0)
        \<and> iFuseRodsClientDataObjUnlink e conn path r = (SYS_MALLOC_ERR e, r0)
        \<and> iFuseRodsClientReadCollection e conn h old r = ((SYS_MALLOC_ERR e, old), r0)
        \<and> iFuseRodsClientCollCreate e conn path r = (SYS_MALLOC_ERR e, r0)
        \<and> iFuseRodsClientRmColl e conn path r = (SYS_MALLOC_ERR e, r0)
        \<and> iFuseRodsClientDataObjRename e conn path path2 r = (SYS_MALLOC_ERR e, r0)
        \<and> iFuseRodsClientDataObjTruncate e conn path len r = (SYS_MALLOC_ERR e, r0)
        \<and> iFuseRodsClientModDataObjMeta e conn path mode r = (SYS_MALLOC_ERR e, r0)))"
proof -
  have keeps: "g_Operations (snd (tracked_call e conn on_fail call r)) = g_Operations r
      \<and> op_heap (snd (tracked_call e conn on_fail call r)) = op_heap r \<and> ops_ok (snd (tracked_call e conn on_fail call r))"
    for on_fail :: 'r and call
    using tracked_call_registry [OF assms prod.collapse [symmetric], of e conn on_fail call] by blast
  obtain ok w where calloc: "c_calloc e (world (lib r)) = (ok, w)" by force
  have fails: "tracked_call e conn on_fail call r = (on_fail, r\<lparr>lib := (lib r)\<lparr>world := w\<rparr>\<rparr>)"
    if "\<not> ok" for on_fail :: 'r and call
    using that calloc by (simp add: tracked_call_def startOperationTimeout_def onLib_def malloc_ptr_def mem_ok_def)
  show ?thesis
    unfolding rc_wrapper_defs Let_def calloc fst_conv snd_conv
    by (intro conjI ballI impI; (elim insertE emptyE)?; simp add: keeps fails)
qed

theorem wrapper_registry_witness:
  "let r = snd (startOperationTimeout demo_ext (Some 7) (iFuseRodsClientInit (rc_start (demo_lib False 10 [])))) in
     g_Operations (snd (iFuseRodsClientDataObjRead demo_ext (Some 7) 3 8 r)) = [0]
     \<and> g_Operations (snd (iFuseRodsClientDataObjOpen demo_ext (Some 7) ''/z/d/a'' O_RDONLY r)) = [0]"
proof -
  let ?init = "iFuseRodsClientInit (rc_start (demo_lib False 10 []))"
  let ?r = "snd (startOperationTimeout demo_ext (Some 7) ?init)"
  have "ops_ok ?init" by (rule ops_ok_init) (simp_all add: rc_start_def)
  then have ok: "ops_ok ?r" by (rule ops_ok_start [OF _ prod.collapse [symmetric]])
  have "g_Operations ?r = [0]" by code_simp
  with wrapper_registry [OF ok, of demo_ext "Some 7" _ "''/z/d/a''" O_RDONLY 3 _ 8] show ?thesis
    by (simp add: Let_def)
qed

section \<open>Paths and comparisons\<close>

text \<open>
  C38: joining a directory and a name and splitting the path again gives both back, and the
  name alone is what \<open>iFuseLibGetFilename\<close> finds.
\<close>

theorem join_split:
  assumes "rstrcpy_ok e" and "dir_path d" and "file_name f" and "length (path_of d f) < MAX_NAME_LEN e"
  shows "iFuseLibJoinPath e d f (MAX_NAME_LEN e) = Some (0, Some (path_of d f))
    \<and> iFuseLibSplitPath e (path_of d f) (MAX_NAME_LEN e) (MAX_NAME_LEN e) = (0, Some (d, f))
    \<and> iFuseLibGetFilename e (path_of d f) (MAX_NAME_LEN e) = (0, Some f)"
proof -
  have len: "length d < MAX_NAME_LEN e" "length f < MAX_NAME_LEN e"
    using assms(3,4) by (auto simp: path_of_def file_name_def split: if_splits)
  show ?thesis
    using join_path [OF assms] split_path [OF assms(1-3) len] get_filename [OF assms(1-3) len] by simp
qed

theorem join_split_witness:
  "iFuseLibSplitPath demo_ext ''/z/d/a'' 1088 1088 = (0, Some (''/z/d'', ''a''))"
  using join_split [of demo_ext "''/z/d''" "''a''"] by (simp add: dir_path_def file_name_def path_of_def)

text \<open>
  \<open>iFuseUtilStricmp\<close> compares like equality of the upper-cased strings, and swapping its
  arguments flips the sign.
\<close>

theorem stricmp_spec:
  assumes "NUL \<notin> set s1" and "NUL \<notin> set s2"
  shows "(iFuseUtilStricmp s1 s2 = 0 \<longleftrightarrow> map TOUPPER s1 = map TOUPPER s2)
    \<and> iFuseUtilStricmp s2 s1 = - iFuseUtilStricmp s1 s2"
  using stricmp_eq_0 [OF assms] stricmp_antisym [OF assms] by simp

theorem stricmp_spec_witness:
  "iFuseUtilStricmp ''TRUE'' ''true'' = 0 \<and> iFuseUtilStricmp ''true'' ''TRUE'' = 0"
proof -
  have "map TOUPPER ''TRUE'' = map TOUPPER ''true''" by code_simp
  with stricmp_spec [of "''TRUE''" "''true''"] show ?thesis by simp
qed

text \<open>
  C39: joining with an empty directory or an empty name throws, which nothing in the program
  catches; and the length check forgets the separator: at the boundary \<open>dir\<close> and \<open>file\<close> pass
  it although the joined path with its terminator no longer fits, and its tail is cut.
\<close>

theorem join_boundary:
  assumes "rstrcpy_cuts e" and "0 < k" and "dir = replicate k (CHR ''d'')"
  shows "iFuseLibJoinPath e '''' ''f'' n = None \<and> iFuseLibJoinPath e ''/d'' '''' n = None
    \<and> iFuseLibJoinPath e dir ''f'' (k + 2) = Some (0, Some (dir @ ''/''))"
  using assms by (cases k) (simp_all add: iFuseLibJoinPath_def copy_at_def rstrcpy_cuts_def)

theorem join_boundary_witness:
  "iFuseLibJoinPath demo_ext ''dddd'' ''f'' 6 = Some (0, Some ''dddd/'')"
  using join_boundary [of demo_ext 4 "''dddd''" 6] by (simp add: demo_ext_def rstrcpy_cuts_def numeral_eq_Suc)

section \<open>The metadata caches\<close>

text \<open>
  C21: after any sequence of cache operations, time passing in between, every entry is filed
  under its own path and complete, no path is filed twice, and no look-up and no update can
  abort.
\<close>

theorem caches_sound:
  assumes "mc_reachable e (l0, mc_start) (l, m)"
  shows "distinct (map fst (g_StatCacheMap m)) \<and> distinct (map fst (g_DirCacheMap m))
    \<and> (\<forall>k v. map_find (g_StatCacheMap m) k = Some v \<longrightarrow> stat_entry_ok k v)
    \<and> iFuseMetadataCacheGetStat e path (l, m) \<noteq> None \<and> iFuseMetadataCacheGetDirEntry e path (l, m) \<noteq> None
    \<and> iFuseMetadataCachePutStat e path st (l, m) \<noteq> None"
proof -
  have "mc_ok mc_start" by (rule mc_ok_empty) (simp_all add: mc_start_def)
  then have ok: "mc_ok m" using mc_ok_reachable [OF assms] by simp
  have "iFuseMetadataCacheGetStat e path (l, m) \<noteq> None" "iFuseMetadataCacheGetDirEntry e path (l, m) \<noteq> None"
    using getStatCache_ok [OF ok, of e path l] getDirCache_ok [OF ok, of e path l]
    by (auto simp: iFuseMetadataCacheGetStat_def iFuseMetadataCacheGetDirEntry_def)
  moreover have "iFuseMetadataCachePutStat e path st (l, m) \<noteq> None"
    using cacheStat_ok [of "(l, m)" e path st] ok by (auto simp: iFuseMetadataCachePutStat_def)
  ultimately show ?thesis
    using ok mc_ok_maps [OF ok] by (simp add: map_ok_distinct mc_ok_def)
qed

theorem caches_sound_witness:
  "\<exists>l m. iFuseMetadataCachePutStat demo_ext ''/z/d/a'' zero_stat (demo_lib False 10 [], mc_start) = Some (0, (l, m))
     \<and> (\<forall>k v. map_find (g_StatCacheMap m) k = Some v \<longrightarrow> stat_entry_ok k v)
     \<and> iFuseMetadataCacheGetStat demo_ext ''/z/d/a'' (l, m) \<noteq> None"
proof -
  have "mc_ok mc_start" by (rule mc_ok_empty) (simp_all add: mc_start_def)
  from cacheStat_stores [OF demo_calloc demo_clock this] obtain l m where
    put: "iFuseMetadataCachePutStat demo_ext ''/z/d/a'' zero_stat (demo_lib False 10 [], mc_start) = Some (0, (l, m))"
    by (fastforce simp: iFuseMetadataCachePutStat_def)
  then have "mc_reachable demo_ext (demo_lib False 10 [], mc_start) (l, m)"
    by (intro mc_next [OF mc_init] put_stat)
  from caches_sound [OF this, of "''/z/d/a''"] put show ?thesis by blast
qed

text \<open>
  C20: a stat that was put is what a look-up of its path returns, at any later time, until the
  timeout has passed; then the look-up fails. Look-ups of other paths do not notice.
\<close>

theorem put_then_get:
  assumes "calloc_ok e" and "clock_ok e clk" and "mc_ok m"
    and put: "iFuseMetadataCachePutStat e path st (l, m) = Some (x, (l1, m1))"
  shows "x = 0 \<and> mc_ok m1
    \<and> fst (the (iFuseMetadataCacheGetStat e path (l1\<lparr>world := w\<rparr>, m1))) =
        (if clk w - clk (world l) \<le> g_metadataCacheTimeoutSec m then (0, Some st) else (- ENOENT, None))
    \<and> (other \<noteq> path \<longrightarrow>
        fst (the (iFuseMetadataCacheGetStat e other (l1\<lparr>world := w\<rparr>, m1)))
          = fst (the (iFuseMetadataCacheGetStat e other (l\<lparr>world := w\<rparr>, m))))"
proof -
  from fresh_stat_put [OF assms(1-3), of path st l] put have
    x: "x = 0" and ok: "mc_ok m1" and
    f: "fresh_stat now m1 = (fresh_stat now m)(path :=
          if now - clk (world l) \<le> g_metadataCacheTimeoutSec m then Some st else None)" for now
    by (auto simp: iFuseMetadataCachePutStat_def)
  show ?thesis
    using x ok getStat_fresh [OF assms(2) ok] getStat_fresh [OF assms(2,3)]
    by (simp add: iFuseMetadataCacheGetStat_def f)
qed

theorem put_then_get_witness:
  "\<exists>l1 m1. iFuseMetadataCachePutStat demo_ext ''/z/d/a'' zero_stat (demo_lib False 10 [], mc_start) = Some (0, (l1, m1))
     \<and> fst (the (iFuseMetadataCacheGetStat demo_ext ''/z/d/a'' (l1\<lparr>world := (demo_world [])\<lparr>dm_clock := 1180\<rparr>\<rparr>, m1))) = (0, Some zero_stat)
     \<and> fst (the (iFuseMetadataCacheGetStat demo_ext ''/z/d/a'' (l1\<lparr>world := (demo_world [])\<lparr>dm_clock := 1181\<rparr>\<rparr>, m1))) = (- ENOENT, None)"
proof -
  have ok: "mc_ok mc_start" by (rule mc_ok_empty) (simp_all add: mc_start_def)
  obtain x l1 m1 where put: "iFuseMetadataCachePutStat demo_ext ''/z/d/a'' zero_stat (demo_lib False 10 [], mc_start)
      = Some (x, (l1, m1))"
    using cacheStat_ok [of "(demo_lib False 10 [], mc_start)" demo_ext "''/z/d/a''" zero_stat] ok
    by (auto simp: iFuseMetadataCachePutStat_def)
  note r = put_then_get [OF demo_calloc demo_clock ok put]
  have "dm_clock (world (demo_lib False 10 [])) = 1000" "g_metadataCacheTimeoutSec mc_start = 180"
    by (simp_all add: demo_lib_def demo_world_def mc_start_def IFUSE_METADATA_CACHE_TIMEOUT_SEC_def)
  then show ?thesis
    using put r [of "(demo_world [])\<lparr>dm_clock := 1180\<rparr>"] r [of "(demo_world [])\<lparr>dm_clock := 1181\<rparr>"] by auto
qed

text \<open>
  C25: sweeping the expired entries, by the timer or forced, is invisible to the look-ups that
  ask for an entry's age: from then on \<open>iFuseMetadataCacheGetStat\<close> and
  \<open>iFuseMetadataCacheGetDirEntry\<close> answer with the same status and the same contents, and the
  freshness test the same, as if nothing had been swept, and each sweep leaves the other cache
  alone. A forced one leaves exactly the entries that look-ups can still find. Only
  the existence test, which does not ask for the age, can tell: it answers for the listings that
  are left as before and \<open>ENOENT\<close> for the swept ones, whatever it answered for them before.
\<close>

theorem sweep_invisible_both:
  assumes "clock_ok e clk" and "mc_ok m"
    and "iFuseMetadataCacheClearExpiredStat e force (l, m) = (x, (l1, m1))"
    and "iFuseMetadataCacheClearExpiredDir e force (l, m) = (y, (l2, m2))"
    and "clk (world l) \<le> clk (world later)"
  shows "x = 0 \<and> y = 0 \<and> g_DirCacheMap m1 = g_DirCacheMap m \<and> g_StatCacheMap m2 = g_StatCacheMap m
    \<and> map_option fst (iFuseMetadataCacheGetStat e k (later, m1)) = map_option fst (iFuseMetadataCacheGetStat e k (later, m))
    \<and> map_option fst (iFuseMetadataCacheGetDirEntry e k (later, m2)) = map_option fst (iFuseMetadataCacheGetDirEntry e k (later, m))
    \<and> fst (checkFreshessOfDirCache e k (later, m2)) = fst (checkFreshessOfDirCache e k (later, m))
    \<and> (force \<longrightarrow>
        (stat_of m1 k \<noteq> None \<longleftrightarrow> map_option fst (iFuseMetadataCacheGetStat e k (l, m)) \<noteq> Some (- ENOENT, None))
      \<and> (listing m2 k \<noteq> None \<longleftrightarrow> fst (checkFreshessOfDirCache e k (l, m)) = 0)
      \<and> checkExistanceOfDirCacheEntry k n m2
          = (if fst (checkFreshessOfDirCache e k (l, m)) = 0 then checkExistanceOfDirCacheEntry k n m else - ENOENT))"
proof -
  from ClearExpiredStat_fresh [OF assms(1,2), of force l] assms(3) have s: "x = 0" "mc_ok m1"
    "g_DirCacheMap m1 = g_DirCacheMap m"
    "force \<Longrightarrow> stat_of m1 = fresh_stat (clk (world l)) m"
    "fresh_stat (clk (world later)) m1 = fresh_stat (clk (world later)) m" using assms(5) by auto
  from ClearExpiredDir_fresh [OF assms(1,2), of force l] assms(4) have d: "y = 0" "mc_ok m2"
    "g_StatCacheMap m2 = g_StatCacheMap m" "force \<Longrightarrow> listing m2 = fresh_listing (clk (world l)) m"
    "fresh_listing (clk (world later)) m2 = fresh_listing (clk (world later)) m" using assms(5) by auto
  have "map_option fst (iFuseMetadataCacheGetStat e k (later, m1)) = map_option fst (iFuseMetadataCacheGetStat e k (later, m))"
    unfolding iFuseMetadataCacheGetStat_def getStat_fresh [OF assms(1) s(2)] getStat_fresh [OF assms(1,2)]
    by (simp add: s(5))
  moreover have "map_option fst (iFuseMetadataCacheGetDirEntry e k (later, m2)) = map_option fst (iFuseMetadataCacheGetDirEntry e k (later, m))"
    unfolding iFuseMetadataCacheGetDirEntry_def by (rule getDirCache_fresh [OF assms(1)]) (simp add: d(5))
  moreover have "fst (checkFreshessOfDirCache e k (later, m2)) = fst (checkFreshessOfDirCache e k (later, m))"
    by (simp add: checkFresh_fresh [OF assms(1)] d(5))
  moreover have "stat_of m1 k \<noteq> None \<longleftrightarrow> map_option fst (iFuseMetadataCacheGetStat e k (l, m)) \<noteq> Some (- ENOENT, None)" if force
    unfolding iFuseMetadataCacheGetStat_def getStat_fresh [OF assms(1,2)]
    by (simp add: s(4) [OF that] split: option.split)
  moreover have "listing m2 k \<noteq> None \<longleftrightarrow> fst (checkFreshessOfDirCache e k (l, m)) = 0" if force
    by (simp add: checkFresh_fresh [OF assms(1)] d(4) [OF that] split: option.split)
  moreover have "checkExistanceOfDirCacheEntry k n m2
      = (if fst (checkFreshessOfDirCache e k (l, m)) = 0 then checkExistanceOfDirCacheEntry k n m else - ENOENT)" if force
    by (auto simp: checkFresh_fresh [OF assms(1)] checkExistance_listing d(4) [OF that] fresh_listing_def listing_def
        split: option.splits)
  ultimately show ?thesis using s(1,3) d(1,3) by blast
qed

theorem sweep_invisible_both_witness:
  "let m = mc_start\<lparr>g_DirCacheMap := [(''/z/d'', Some \<lparr>dc_iRodsPath = Some ''/z/d'', dc_entries = [''a''], dc_timestamp = 800\<rparr>)]\<rparr>;
       l = demo_lib False 10 []; m2 = snd (snd (iFuseMetadataCacheClearExpiredDir demo_ext True (l, m)))
   in checkExistanceOfDirCacheEntry ''/z/d'' ''c'' m = 1 \<and> checkExistanceOfDirCacheEntry ''/z/d'' ''c'' m2 = - ENOENT
     \<and> map_option fst (iFuseMetadataCacheGetDirEntry demo_ext ''/z/d'' (l, m2))
         = map_option fst (iFuseMetadataCacheGetDirEntry demo_ext ''/z/d'' (l, m))"
proof -
  let ?m = "mc_start\<lparr>g_DirCacheMap := [(''/z/d'',
      Some \<lparr>dc_iRodsPath = Some ''/z/d'', dc_entries = [''a''], dc_timestamp = 800\<rparr>)]\<rparr>"
  let ?l = "demo_lib False 10 []"
  have ok: "mc_ok ?m" by (simp add: mc_ok_def map_ok_def mc_start_def dir_entry_ok_def)
  have old: "fst (checkFreshessOfDirCache demo_ext ''/z/d'' (?l, ?m)) = - ENOENT"
    "checkExistanceOfDirCacheEntry ''/z/d'' ''c'' ?m = 1"
    by (simp_all add: checkFresh_fresh [OF demo_clock] fresh_listing_def checkExistanceOfDirCacheEntry_def mc_start_def
        demo_lib_def demo_world_def IFUSE_METADATA_CACHE_TIMEOUT_SEC_def)
  obtain x l1 m1 where 1: "iFuseMetadataCacheClearExpiredStat demo_ext True (?l, ?m) = (x, (l1, m1))" by (metis prod.exhaust)
  obtain y l2 m2 where 2: "iFuseMetadataCacheClearExpiredDir demo_ext True (?l, ?m) = (y, (l2, m2))" by (metis prod.exhaust)
  from sweep_invisible_both [OF demo_clock ok 1 2 order.refl, of "''/z/d''" "''c''"] 2 old show ?thesis
    by (simp add: Let_def)
qed

text \<open>
  C26: the names a directory was given come back from the cache in their order, through the
  buffer the cache encodes them in and the loop of \<open>iFuseFsReadDir\<close> that takes it apart.
\<close>

theorem listing_roundtrip:
  assumes "clock_ok e clk" and "calloc_ok e" and "fresh_listing (clk (world l)) m dir = Some ns"
    and "\<forall>n \<in> set ns. n \<noteq> [] \<and> NUL \<notin> set n"
  shows "\<exists>buf l'. iFuseMetadataCacheGetDirEntry e dir (l, m) = Some ((0, Some buf), (l', m))
    \<and> parse_entries buf = Some ns"
  using getDir_fresh [OF assms(1,2), of dir l m] parse_encode [OF assms(4)] assms(3)
  by (auto simp: iFuseMetadataCacheGetDirEntry_def)

theorem listing_roundtrip_witness:
  "\<exists>buf l' m. parse_entries buf = Some [''a'', ''b''] \<and>
     iFuseMetadataCacheGetDirEntry demo_ext ''/z/d'' (demo_lib False 10 [], m) = Some ((0, Some buf), (l', m))"
proof -
  let ?m = "mc_start\<lparr>g_DirCacheMap := [(''/z/d'',
      Some \<lparr>dc_iRodsPath = Some ''/z/d'', dc_entries = [''a'', ''b''], dc_timestamp = 990\<rparr>)]\<rparr>"
  have "fresh_listing (dm_clock (world (demo_lib False 10 []))) ?m ''/z/d'' = Some [''a'', ''b'']"
    by (simp add: fresh_listing_def demo_lib_def demo_world_def mc_start_def IFUSE_METADATA_CACHE_TIMEOUT_SEC_def)
  from listing_roundtrip [OF demo_clock demo_calloc this] show ?thesis by auto
qed

text \<open>
  C40: what happens to the cached listings: adding a name appends it to its directory's listing,
  which is made when there is none and keeps its age otherwise; adding it if fresh does so only
  when there is a listing that is not too old; removing a name takes its first occurrence out of
  that listing, if it is there; dropping a listing forgets it. No other directory's listing changes
  and no stat. The existence test answers 0, 1 or \<open>ENOENT\<close> for a listed name, an unlisted one
  and an unlisted directory, however old the listing is. The operations that take a whole path do
  the same for its two parts.
\<close>

theorem listing_updates:
  assumes "calloc_ok e" and "clock_ok e clk" and "mc_ok m"
  shows "(\<exists>l1 m1. iFuseMetadataCacheAddDirEntry e dir name (l, m) = (0, (l1, m1))
        \<and> listing m1 = (listing m)(dir \<mapsto> (case listing m dir of None \<Rightarrow> [name] | Some ns \<Rightarrow> ns @ [name]))
        \<and> dir_stamp m1 = (dir_stamp m)(dir \<mapsto> (case dir_stamp m dir of None \<Rightarrow> clk (world l) | Some t \<Rightarrow> t))
        \<and> g_StatCacheMap m1 = g_StatCacheMap m)
    \<and> (case fresh_listing (clk (world l)) m dir of
        None \<Rightarrow> iFuseMetadataCacheAddDirEntryIfFresh e dir name (l, m) = (- ENOENT, (l, m))
      | Some ns \<Rightarrow> (\<exists>l1 m1. iFuseMetadataCacheAddDirEntryIfFresh e dir name (l, m) = (0, (l1, m1))
          \<and> listing m1 = (listing m)(dir \<mapsto> ns @ [name]) \<and> dir_stamp m1 = dir_stamp m
          \<and> g_StatCacheMap m1 = g_StatCacheMap m))
    \<and> (\<exists>m1. iFuseMetadataCacheRemoveDirEntry dir name m
            = ((case listing m dir of None \<Rightarrow> - ENOENT | Some ns \<Rightarrow> if name \<in> set ns then 0 else - ENOENT), m1)
        \<and> listing m1 = (listing m)(dir := map_option (remove1 name) (listing m dir))
        \<and> g_StatCacheMap m1 = g_StatCacheMap m)
    \<and> (\<exists>m1. iFuseMetadataCacheRemoveDir dir m = (0, m1)
        \<and> listing m1 = (listing m)(dir := None) \<and> g_StatCacheMap m1 = g_StatCacheMap m)
    \<and> checkExistanceOfDirCacheEntry dir name m
        = (case listing m dir of None \<Rightarrow> - ENOENT | Some ns \<Rightarrow> if name \<in> set ns then 0 else 1)
    \<and> (iFuseLibSplitPath e path (MAX_NAME_LEN e) (MAX_NAME_LEN e) = (0, Some (dir, name)) \<longrightarrow>
        iFuseMetadataCacheAddDirEntryIfFresh2 e path (l, m) = iFuseMetadataCacheAddDirEntryIfFresh e dir name (l, m)
      \<and> iFuseMetadataCacheRemoveDirEntry2 e path m = iFuseMetadataCacheRemoveDirEntry dir name m
      \<and> iFuseMetadataCacheCheckExistanceOfDirEntry e path m = checkExistanceOfDirCacheEntry dir name m)"
proof (intro conjI impI)
  from cacheDirEntry_listing [OF assms, of dir name l] obtain l1 m1 where
    add: "cacheDirEntry e dir name (l, m) = (0, (l1, m1))" "g_StatCacheMap m1 = g_StatCacheMap m"
      "listing m1 = (listing m)(dir \<mapsto> (case listing m dir of Some ns \<Rightarrow> ns @ [name] | None \<Rightarrow> [name]))"
      "dir_stamp m1 = (dir_stamp m)(dir \<mapsto> (case dir_stamp m dir of Some t \<Rightarrow> t | None \<Rightarrow> clk (world l)))" by blast
  show "\<exists>l1 m1. iFuseMetadataCacheAddDirEntry e dir name (l, m) = (0, (l1, m1))
        \<and> listing m1 = (listing m)(dir \<mapsto> (case listing m dir of None \<Rightarrow> [name] | Some ns \<Rightarrow> ns @ [name]))
        \<and> dir_stamp m1 = (dir_stamp m)(dir \<mapsto> (case dir_stamp m dir of None \<Rightarrow> clk (world l) | Some t \<Rightarrow> t))
        \<and> g_StatCacheMap m1 = g_StatCacheMap m"
    using add unfolding iFuseMetadataCacheAddDirEntry_def by blast
  show "case fresh_listing (clk (world l)) m dir of
        None \<Rightarrow> iFuseMetadataCacheAddDirEntryIfFresh e dir name (l, m) = (- ENOENT, (l, m))
      | Some ns \<Rightarrow> (\<exists>l1 m1. iFuseMetadataCacheAddDirEntryIfFresh e dir name (l, m) = (0, (l1, m1))
          \<and> listing m1 = (listing m)(dir \<mapsto> ns @ [name]) \<and> dir_stamp m1 = dir_stamp m
          \<and> g_StatCacheMap m1 = g_StatCacheMap m)"
  proof (cases "fresh_listing (clk (world l)) m dir")
    case None
    then show ?thesis by (simp add: iFuseMetadataCacheAddDirEntryIfFresh_def checkFresh_fresh [OF assms(2)])
  next
    case (Some ns)
    then have "listing m dir = Some ns" "\<exists>t. dir_stamp m dir = Some t"
      by (auto simp: fresh_listing_alt split: option.splits if_splits)
    then show ?thesis
      using Some add by (auto simp: iFuseMetadataCacheAddDirEntryIfFresh_def checkFresh_fresh [OF assms(2)])
  qed
next
  obtain x m1 where r: "removeDirCacheEntry dir name m = (x, m1)" by force
  show "\<exists>m1. iFuseMetadataCacheRemoveDirEntry dir name m
            = ((case listing m dir of None \<Rightarrow> - ENOENT | Some ns \<Rightarrow> if name \<in> set ns then 0 else - ENOENT), m1)
        \<and> listing m1 = (listing m)(dir := map_option (remove1 name) (listing m dir))
        \<and> g_StatCacheMap m1 = g_StatCacheMap m"
    using r removeDirCacheEntry_listing [OF assms(3) r] by (simp add: iFuseMetadataCacheRemoveDirEntry_def)
next
  show "\<exists>m1. iFuseMetadataCacheRemoveDir dir m = (0, m1)
        \<and> listing m1 = (listing m)(dir := None) \<and> g_StatCacheMap m1 = g_StatCacheMap m"
    using removeDirCache_listing [OF assms(3), of dir] by (simp add: iFuseMetadataCacheRemoveDir_def removeDirCache_def)
next
  show "checkExistanceOfDirCacheEntry dir name m
        = (case listing m dir of None \<Rightarrow> - ENOENT | Some ns \<Rightarrow> if name \<in> set ns then 0 else 1)"
    by (rule checkExistance_listing)
qed (simp_all add: iFuseMetadataCacheAddDirEntryIfFresh2_def iFuseMetadataCacheAddDirEntryIfFresh_def
    iFuseMetadataCacheRemoveDirEntry2_def iFuseMetadataCacheRemoveDirEntry_def iFuseMetadataCacheCheckExistanceOfDirEntry_def)

theorem listing_updates_witness:
  "let m = mc_start\<lparr>g_DirCacheMap := [(''/z/d'', Some \<lparr>dc_iRodsPath = Some ''/z/d'', dc_entries = [''a'', ''b'', ''c''], dc_timestamp = 990\<rparr>),
         (''/z/e'', Some \<lparr>dc_iRodsPath = Some ''/z/e'', dc_entries = [''x''], dc_timestamp = 990\<rparr>)]\<rparr>;
       m1 = snd (iFuseMetadataCacheRemoveDirEntry ''/z/d'' ''b'' m)
   in listing m1 ''/z/d'' = Some [''a'', ''c''] \<and> listing m1 ''/z/e'' = Some [''x'']"
proof -
  let ?m = "mc_start\<lparr>g_DirCacheMap := [(''/z/d'', Some \<lparr>dc_iRodsPath = Some ''/z/d'', dc_entries = [''a'', ''b'', ''c''], dc_timestamp = 990\<rparr>),
      (''/z/e'', Some \<lparr>dc_iRodsPath = Some ''/z/e'', dc_entries = [''x''], dc_timestamp = 990\<rparr>)]\<rparr>"
  have "mc_ok ?m" by (simp add: mc_ok_def map_ok_def mc_start_def dir_entry_ok_def)
  moreover have "listing ?m ''/z/d'' = Some [''a'', ''b'', ''c'']" "listing ?m ''/z/e'' = Some [''x'']"
    by (simp_all add: listing_def)
  moreover have "''/z/e'' \<noteq> ''/z/d''" "remove1 ''b'' [''a'', ''b'', ''c''] = [''a'', ''c'']" by simp_all
  ultimately obtain m1 where "snd (iFuseMetadataCacheRemoveDirEntry ''/z/d'' ''b'' ?m) = m1"
    "listing m1 = (listing ?m)(''/z/d'' := Some [''a'', ''c''])" "listing ?m ''/z/e'' = Some [''x'']"
    using listing_updates [OF demo_calloc demo_clock, of ?m "''/z/d''" "''b''"] by (simp only: option.map) force
  then show ?thesis by (simp add: Let_def)
qed

end
