(* ===== verification/Pool_Correct.thy ===== *)
theory Pool_Correct
  imports IFuse_System
begin

text \<open>
  What the connection pool (\<open>iFuse.Lib.Conn.cpp\<close>) and the descriptor table
  (\<open>iFuse.Lib.Fd.cpp\<close>) guarantee to the file system above them.
\<close>

definition demo_pool :: "bool \<Rightarrow> int \<Rightarrow> int list \<Rightarrow> demo conn_state" where
  "demo_pool reuse maxConn script = conns (fds (demo_fs reuse maxConn script))"

lemma demo_pool_inv [simp, intro]: "conn_inv (demo_pool reuse maxConn script)"
  unfolding demo_pool_def by (rule fs_inv_D) (rule fs_inv_demo)

lemma demo_pool_start [simp]:
  "conn_heap (demo_pool reuse maxConn script) = Map.empty" "g_ConnIDGen (demo_pool reuse maxConn script) = 0"
  by (simp_all add: demo_pool_def demo_start)

lemma length_slot_ptrs: "length (slot_ptrs xs) \<le> length xs"
proof (induction xs)
  case (Cons x xs)
  then show ?case by (cases x) simp_all
qed simp

lemma connect_dead: "connect e cn r = ((st, cn'), r') \<Longrightarrow> cn_conn cn = None \<Longrightarrow>
    cn_lock cn' = cn_lock cn \<and> (st < 0 \<longrightarrow> cn_conn cn' = None)"
  by (auto simp: connect_def Let_def split: prod.splits if_splits option.splits)

section \<open>The connection pool\<close>

text \<open>
  C3: in every interleaving of threads that take, use, reconnect and give back connections
  with the timer's checker, each allocated connection sits in exactly one place of the pool
  and everything in the pool is allocated; in-use places hold connections with users, free
  places hold connections without; and there are never more in-use slots than \<open>maxConn\<close>
  nor a used and a free connection for short operations at once.
\<close>

theorem pool_sound:
  assumes "pool_reachable e (conns (fds (iFuseLibInit (fs_start l)))) c" and "calloc_ok e"
  shows "distinct (pool_ptrs c) \<and> set (pool_ptrs c) = dom (conn_heap c)
    \<and> (\<forall>(p, t, used) \<in> set (pool_entries c). \<exists>cn. conn_heap c p = Some cn \<and> cn_type cn = t
          \<and> (if used then 0 < cn_inuseCnt cn else cn_inuseCnt cn = 0))
    \<and> length (slot_ptrs (g_InUseConn c)) \<le> nat (g_MaxConnNum c)
    \<and> (g_InUseShortopConn c = None \<or> g_FreeShortopConn c = None)"
proof -
  have "conn_inv (conns (fds (iFuseLibInit (fs_start l))))" by (rule fs_inv_D) (rule fs_inv_start)
  with conn_inv_reachable [OF assms] have inv: "conn_inv c" by blast
  from inv length_slot_ptrs [of "g_InUseConn c"] show ?thesis
    by (auto simp: pool_ptrs_live pool_ptrs_entries conn_inv_def entries_ok_def conn_is_def)
qed

theorem pool_sound_witness:
  "\<exists>c. pool_reachable demo_ext (conns (fds (iFuseLibInit (fs_start (demo_lib True 1 []))))) c
     \<and> pool_ptrs c = [0] \<and> dom (conn_heap c) = {0}"
proof -
  let ?c0 = "conns (fds (iFuseLibInit (fs_start (demo_lib True 1 []))))"
  let ?get = "iFuseConnGetAndUse demo_ext IFUSE_CONN_TYPE_FOR_FILE_IO ?c0"
  have r: "map_option fst ?get = Some (0, Some 0)" "pool_ptrs (snd (the ?get)) = [0]" "g_ConnIDGen ?c0 = 0" by code_simp+
  from run_split [OF r(1)] have "pool_step demo_ext ?c0 (snd (the ?get))" by (rule step_get) (simp add: r(3) word_gt_0)
  then have reach: "pool_reachable demo_ext ?c0 (snd (the ?get))" by (rule pool_next [OF pool_init])
  from pool_sound [OF reach demo_calloc] r(2) reach show ?thesis by (intro exI [of _ "snd (the ?get)"]) simp
qed

text \<open>
  C22: asking for a connection, of any kind, returns; it fails and changes nobody's references,
  or it hands out a pooled connection of that kind with one reference more than it had and
  everyone else's unchanged.
\<close>

theorem get_accounting:
  assumes "conn_inv c" and "calloc_ok e" and "g_ConnIDGen c < - 1" and "t \<in> conn_types"
  shows "\<exists>status conn c'. iFuseConnGetAndUse e t c = Some ((status, conn), c') \<and> conn_inv c'
    \<and> (status < 0 \<and> conn = None \<and> conn_refs c' = conn_refs c
       \<or> status = 0 \<and> (\<exists>p. conn = Some p \<and> conn_in_use c' p t
            \<and> conn_refs c' = (conn_refs c)(p := conn_refs c p + 1)))"
  using getAndUse_ok [OF assms(1-3) assms(4) [unfolded conn_types_def]] unfolding get_ok_def by blast

theorem get_accounting_witness:
  "\<exists>status conn c'. iFuseConnGetAndUse demo_ext IFUSE_CONN_TYPE_FOR_FILE_IO (demo_pool True 1 []) = Some ((status, conn), c')
     \<and> conn_inv c'"
  using get_accounting [of "demo_pool True 1 []" demo_ext IFUSE_CONN_TYPE_FOR_FILE_IO]
  by (auto simp: conn_types_def word_gt_0)

text \<open>
  C23: giving a connection back that has users never fails an assertion: it takes off exactly
  one reference, and together with what came before a take-use-give-back leaves everybody's
  references as they were.
\<close>

theorem get_use_unuse:
  assumes "conn_inv c" and "calloc_ok e" and "g_ConnIDGen c < - 1" and "t \<in> conn_types"
    and get: "iFuseConnGetAndUse e t c = Some ((0, Some p), c1)" and use: "touch_ok c1 c2"
  shows "\<exists>c3. iFuseConnUnuse e p c2 = Some c3 \<and> conn_inv c3 \<and> conn_refs c3 = conn_refs c
    \<and> conn_refs c2 p = conn_refs c p + 1"
proof -
  from getAndUse_ok [OF assms(1-3) assms(4) [unfolded conn_types_def]] get have
    g: "conn_inv c1" "rc_le (rcs c) (rcs c1)" "conn_refs c1 = (conn_refs c)(p := conn_refs c p + 1)"
    by (auto simp: get_ok_def)
  have "0 < conn_refs c1 p" using g(3) conn_refs_nonneg [OF assms(1), of p] by simp
  from pool.bracket [OF g(2) _ this g(3) use, of e] g(1) assms(2) show ?thesis
    using touch_okD(4) [OF use] g(3) by auto
qed

theorem get_use_unuse_witness:
  "let c1 = snd (the (iFuseConnGetAndUse demo_ext IFUSE_CONN_TYPE_FOR_SHORTOP (demo_pool False 1 [])))
   in \<exists>c3. iFuseConnUnuse demo_ext 0 c1 = Some c3 \<and> conn_refs c3 = conn_refs (demo_pool False 1 [])"
proof -
  have "map_option fst (iFuseConnGetAndUse demo_ext IFUSE_CONN_TYPE_FOR_SHORTOP (demo_pool False 1 [])) = Some (0, Some 0)"
    by code_simp
  from get_use_unuse [OF demo_pool_inv demo_calloc _ types_in(3) run_split [OF this] touch_ok_refl]
  show ?thesis by (auto simp: word_gt_0 Let_def)
qed

text \<open>
  C34: when every slot for file connections is taken, no connection is made: the caller shares
  one, and none of the others has fewer users.
\<close>

theorem file_io_shares_least_used:
  assumes "conn_inv c" and "calloc_ok e" and full: "None \<notin> set (g_InUseConn c)"
  shows "\<exists>p c'. iFuseConnGetAndUse e IFUSE_CONN_TYPE_FOR_FILE_IO c = Some ((0, Some p), c')
    \<and> Some p \<in> set (g_InUseConn c) \<and> dom (conn_heap c') = dom (conn_heap c)
    \<and> (\<forall>q. Some q \<in> set (g_InUseConn c) \<longrightarrow> conn_refs c p \<le> conn_refs c q)"
proof -
  have "first_null (g_InUseConn c) = None"
    using full first_null_Some [of "g_InUseConn c"] nth_mem by (cases "first_null (g_InUseConn c)") fastforce+
  note ff = this
  from get_file_io_full [OF assms(1) ff] obtain p where
    p: "least_used (conn_heap c) (g_InUseConn c) (- 1) None = Some (Some p)" "Some p \<in> set (g_InUseConn c)"
      "\<forall>q. Some q \<in> set (g_InUseConn c) \<longrightarrow> conn_refs c p \<le> conn_refs c q" by (auto simp: set_slot_ptrs)
  from slot_in_use [of p c] p(2) have "conn_in_use c p IFUSE_CONN_TYPE_FOR_FILE_IO" by (simp add: set_slot_ptrs)
  from conn_inv_entry [OF assms(1) this [unfolded conn_in_use_def]] obtain cn where cn: "conn_heap c p = Some cn" by auto
  from use_conn_nf [OF this, of e] obtain r now where
    "use_conn e p c = Some (c\<lparr>rcs := r, conn_heap := (conn_heap c)(p \<mapsto>
      cn\<lparr>cn_lastUseTime := now, cn_inuseCnt := cn_inuseCnt cn + 1, cn_lock := False\<rparr>)\<rparr>)" by blast
  then show ?thesis
    using p ff cn by (auto simp: iFuseConnGetAndUse_def get_file_io_def conn_type_defs)
qed

theorem file_io_shares_least_used_witness:
  "\<exists>c p c'. conn_inv c \<and> iFuseConnGetAndUse demo_ext IFUSE_CONN_TYPE_FOR_FILE_IO c = Some ((0, Some p), c')
     \<and> conn_refs c p = 1"
proof -
  let ?c = "snd (the (iFuseConnGetAndUse demo_ext IFUSE_CONN_TYPE_FOR_FILE_IO (demo_pool True 1 [])))"
  have "iFuseConnGetAndUse demo_ext IFUSE_CONN_TYPE_FOR_FILE_IO (demo_pool True 1 []) \<noteq> None"
    "None \<notin> set (g_InUseConn ?c)" "g_InUseConn ?c = [Some 0]" "conn_refs ?c 0 = 1" by code_simp+
  note run = this
  have inv: "conn_inv ?c"
    using getAndUse_ok [of "demo_pool True 1 []" demo_ext IFUSE_CONN_TYPE_FOR_FILE_IO]
    by (auto simp: get_ok_def word_gt_0)
  from file_io_shares_least_used [OF this demo_calloc run(2)] run(3,4) inv show ?thesis by auto
qed

text \<open>
  C24: the checker returns whatever the pool looks like, changes nobody's references, and when
  a check is due frees exactly the free connections last used the timeout ago or earlier, none
  when it is not.
\<close>

theorem checker_exact:
  assumes "conn_inv c"
  shows "\<exists>c'. connChecker e c = Some c' \<and> conn_inv c' \<and> conn_refs c' = conn_refs c
    \<and> dom (conn_heap c') =
        (let now = fst (c_time e (world (lib (rcs c))))
         in if now - g_LastConnCheck c > g_ConnCheckIntervalSec c
            then dom (conn_heap c) - {p \<in> free_ptrs c. conn_idle c now p} else dom (conn_heap c))"
  using connChecker_ok [OF assms, of e] by (auto simp: Let_def)

text \<open>A pool with one connection, given back long ago.\<close>

definition idle_pool :: "demo conn_state" where
  "idle_pool = (let c = the (iFuseConnUnuse demo_ext 0 (snd (the
       (iFuseConnGetAndUse demo_ext IFUSE_CONN_TYPE_FOR_FILE_IO (demo_pool True 1 []))))); r = rcs c
     in c\<lparr>rcs := r\<lparr>lib := (lib r)\<lparr>world := (world (lib r))\<lparr>dm_clock := 2000\<rparr>\<rparr>\<rparr>\<rparr>)"

theorem checker_exact_witness:
  "\<exists>c'. dom (conn_heap idle_pool) = {0} \<and> connChecker demo_ext idle_pool = Some c' \<and> conn_heap c' = Map.empty"
proof -
  let ?get = "iFuseConnGetAndUse demo_ext IFUSE_CONN_TYPE_FOR_FILE_IO (demo_pool True 1 [])"
  let ?c1 = "snd (the ?get)"
  let ?c2 = "the (iFuseConnUnuse demo_ext 0 ?c1)"
  have get: "map_option fst ?get = Some (0, Some 0)" by code_simp
  from getAndUse_ok [of "demo_pool True 1 []" demo_ext IFUSE_CONN_TYPE_FOR_FILE_IO] run_split [OF get]
  have 1: "conn_inv ?c1" "conn_in_use ?c1 0 IFUSE_CONN_TYPE_FOR_FILE_IO"
    by (auto simp: get_ok_def word_gt_0)
  have "0 < conn_refs ?c1 0" using conn_in_use_refs [OF 1(1)] 1(2) by blast
  from unuse_ok [OF 1(1) this, of demo_ext] have 2: "conn_inv ?c2" by (auto simp: put_ok_def)
  have "rc_le (rcs ?c2) (rcs idle_pool)" by (simp add: rc_le_def idle_pool_def Let_def ops_ok_def)
  moreover have "idle_pool = ?c2\<lparr>rcs := rcs idle_pool\<rparr>" by (simp add: idle_pool_def Let_def)
  ultimately have inv: "conn_inv idle_pool" using conn_inv_rcs [OF 2] by metis
  have p: "pool_ptrs idle_pool = [0]" "g_FreeConn idle_pool = [0]" "fst (c_time demo_ext (world (lib (rcs idle_pool)))) = 2000"
    "g_LastConnCheck idle_pool = 0" "g_ConnCheckIntervalSec idle_pool = 10" "conn_idle idle_pool 2000 0" by code_simp+
  have "dom (conn_heap idle_pool) = {0}" using p(1) pool_ptrs_live [OF inv] by simp
  with checker_exact [OF inv, of demo_ext] p show ?thesis by (auto simp: Let_def free_ptrs_def)
qed

text \<open>
  A connection for one-time use is always a new one, however many there are already and
  whatever \<open>maxConn\<close> says: the option does not bound the network connections.
\<close>

theorem onetime_always_new:
  assumes "conn_inv c" and "calloc_ok e"
    and "iFuseConnGetAndUse e IFUSE_CONN_TYPE_FOR_ONETIMEUSE c = Some ((0, Some p), c')"
  shows "p \<notin> dom (conn_heap c) \<and> dom (conn_heap c') = insert p (dom (conn_heap c))"
proof -
  have get: "get_onetimeuse e c = Some ((0, Some p), c')"
    using assms(3) by (simp add: iFuseConnGetAndUse_def conn_type_defs)
  from new_conn_in_use_nf [OF assms(2) conn_inv_fresh [OF assms(1)], of IFUSE_CONN_TYPE_FOR_ONETIMEUSE]
  show ?thesis
    using get conn_inv_fresh [OF assms(1)] by (auto simp: get_onetimeuse_def split: if_splits)
qed

theorem onetime_always_new_witness:
  "let c1 = snd (the (iFuseConnGetAndUse demo_ext IFUSE_CONN_TYPE_FOR_ONETIMEUSE (demo_pool False 1 [])))
   in dom (conn_heap c1) = {0} \<and> card (dom (conn_heap
        (snd (the (iFuseConnGetAndUse demo_ext IFUSE_CONN_TYPE_FOR_ONETIMEUSE c1))))) = 2"
proof -
  let ?c1 = "snd (the (iFuseConnGetAndUse demo_ext IFUSE_CONN_TYPE_FOR_ONETIMEUSE (demo_pool False 1 [])))"
  have r1: "map_option fst (iFuseConnGetAndUse demo_ext IFUSE_CONN_TYPE_FOR_ONETIMEUSE (demo_pool False 1 []))
      = Some (0, Some 0)" by code_simp
  have r2: "map_option (\<lambda>((st, p), _). (st, p \<noteq> None)) (iFuseConnGetAndUse demo_ext IFUSE_CONN_TYPE_FOR_ONETIMEUSE ?c1)
      = Some (0, True)" by code_simp
  then obtain p where r3: "iFuseConnGetAndUse demo_ext IFUSE_CONN_TYPE_FOR_ONETIMEUSE ?c1
      = Some ((0, Some p), snd (the (iFuseConnGetAndUse demo_ext IFUSE_CONN_TYPE_FOR_ONETIMEUSE ?c1)))"
    by auto
  have inv: "conn_inv ?c1"
    using getAndUse_ok [of "demo_pool False 1 []" demo_ext IFUSE_CONN_TYPE_FOR_ONETIMEUSE] run_split [OF r1]
    by (auto simp: get_ok_def word_gt_0)
  note a = onetime_always_new [OF demo_pool_inv demo_calloc run_split [OF r1]]
  note b = onetime_always_new [OF inv demo_calloc r3]
  have "dom (conn_heap ?c1) = {0}" using a by simp
  with b show ?thesis by (simp add: Let_def)
qed

text \<open>
  C35: a reconnection keeps the connection in its place with its users, and when it fails
  leaves it there without a handle. It also releases the connection's lock, which its callers
  had taken before and believe they still hold.
\<close>

theorem reconnect_effect:
  assumes "p \<in> dom (conn_heap c)" and "conn_inv c"
  shows "\<exists>status c' cn. iFuseConnReconnect e p c = Some (status, c') \<and> conn_inv c' \<and> conn_refs c' = conn_refs c
    \<and> pool_entries c' = pool_entries c \<and> conn_heap c' p = Some cn \<and> \<not> cn_lock cn
    \<and> (status < 0 \<longrightarrow> cn_conn cn = None)"
proof -
  from reconnect_live [OF assms(1), of e] obtain status c' where
    run: "iFuseConnReconnect e p c = Some (status, c')" and t: "touch_ok c c'" by blast
  have "\<exists>cn. conn_heap c' p = Some cn \<and> \<not> cn_lock cn \<and> (status < 0 \<longrightarrow> cn_conn cn = None)"
    using run by (auto simp: iFuseConnReconnect_def update_conn_def conn_unlock_def conn_wrlock_def onRc_def
        disconnect_def split: prod.splits if_splits dest!: connect_dead)
  with run touch_okD(1,4,5) [OF t] assms(2) show ?thesis by blast
qed

theorem reconnect_effect_witness:
  "\<exists>status c'. iFuseConnReconnect demo_ext 0 (snd (the (iFuseConnGetAndUse demo_ext IFUSE_CONN_TYPE_FOR_SHORTOP
     (demo_pool False 1 [0, 0, - 4000, - 4000])))) = Some (status, c') \<and> dead_conn c' 0"
proof -
  let ?get = "iFuseConnGetAndUse demo_ext IFUSE_CONN_TYPE_FOR_SHORTOP (demo_pool False 1 [0, 0, - 4000, - 4000])"
  have r: "map_option fst ?get = Some (0, Some 0)" by code_simp
  have st: "map_option fst (iFuseConnReconnect demo_ext 0 (snd (the ?get))) = Some (- 4000)" by code_simp
  from getAndUse_ok [of "demo_pool False 1 [0, 0, - 4000, - 4000]" demo_ext IFUSE_CONN_TYPE_FOR_SHORTOP] run_split [OF r]
  have inv: "conn_inv (snd (the ?get))" "conn_in_use (snd (the ?get)) 0 IFUSE_CONN_TYPE_FOR_SHORTOP"
    by (auto simp: get_ok_def word_gt_0)
  have "0 < conn_refs (snd (the ?get)) 0" using conn_in_use_refs [OF inv(1)] inv(2) by blast
  then have "0 \<in> dom (conn_heap (snd (the ?get)))" by (rule in_use_dom)
  from reconnect_effect [OF this inv(1), of demo_ext] st show ?thesis
    by (fastforce simp: dead_conn_def)
qed

text \<open>
  No connection identifier, file descriptor identifier or directory descriptor identifier
  is given twice within fewer than \<open>2 ^ 64\<close> of its kind.
\<close>

theorem identifiers_distinct:
  assumes "m < n" and "n < 2 ^ 64"
  shows "fst (genNextConnID (((\<lambda>s. snd (genNextConnID s)) ^^ m) c)) \<noteq> fst (genNextConnID (((\<lambda>s. snd (genNextConnID s)) ^^ n) c))
    \<and> fst (genNextFdID (((\<lambda>s. snd (genNextFdID s)) ^^ m) d)) \<noteq> fst (genNextFdID (((\<lambda>s. snd (genNextFdID s)) ^^ n) d))
    \<and> fst (genNextDdID (((\<lambda>s. snd (genNextDdID s)) ^^ m) d)) \<noteq> fst (genNextDdID (((\<lambda>s. snd (genNextDdID s)) ^^ n) d))"
  using conn_id.ids_distinct [OF assms] fd_id.ids_distinct [OF assms] dd_id.ids_distinct [OF assms] by blast

theorem identifiers_distinct_witness:
  "fst (genNextFdID (fd_start (demo_lib False 1 []))) \<noteq> fst (genNextFdID (snd (genNextFdID (fd_start (demo_lib False 1 [])))))"
  using identifiers_distinct [of 0 1 "demo_pool False 1 []" "fd_start (demo_lib False 1 [])"] by simp

end
