(* ===== verification/IFuse_Steps.thy ===== *)
theory IFuse_Steps
  imports IFuse_System
begin

text \<open>
  Every sequence of file system operations and timer rounds: what flushing, listing and
  requests keep, the step relation of the whole library with one step per operation, and its
  invariant.
\<close>

section \<open>Flushing, listing and requests\<close>

text \<open>\<open>fs_keeps\<close>: well formed; nobody's references and no set of open descriptors changed.\<close>

definition fs_keeps :: "'w fs_state \<Rightarrow> 'w fs_state \<Rightarrow> bool" where
  "fs_keeps s s' \<longleftrightarrow> fs_inv s' \<and> held (fds s') = held (fds s)
     \<and> conn_refs (conns (fds s')) = conn_refs (conns (fds s))
     \<and> dom (fd_heap (fds s')) = dom (fd_heap (fds s)) \<and> dom (dir_heap (fds s')) = dom (dir_heap (fds s))
     \<and> dir_conn_of (fds s') = dir_conn_of (fds s)"

lemma dir_conn_of_cong: "dir_heap d' = dir_heap d \<Longrightarrow> dir_conn_of d' = dir_conn_of d"
  by (simp add: dir_conn_of_def fun_eq_iff)

lemma fs_keeps_trans: "fs_keeps s s' \<Longrightarrow> fs_keeps s' s'' \<Longrightarrow> fs_keeps s s''"
  by (simp add: fs_keeps_def)

lemma fs_keeps_same: "fs_same s s' \<Longrightarrow> fs_inv s \<Longrightarrow> fs_keeps s s'"
  using fs_inv_same [of s s'] fs_same_fields [of s s'] dir_conn_of_cong [of "fds s'" "fds s"]
  by (simp add: fs_keeps_def)

lemma fs_keeps_touch: "fs_touch s s' \<Longrightarrow> fs_inv s \<Longrightarrow> fs_keeps s s'"
  by (blast intro: fs_keeps_same fs_touch_same)

lemma fs_keeps_io: "io_ok p s s' \<Longrightarrow> fs_inv s \<Longrightarrow> fs_keeps s s'"
  using io_okD [of p s s'] dir_conn_of_cong [of "fds s'" "fds s"]
  by (simp add: fs_keeps_def)

lemma fs_keeps_inv: "fs_keeps s s' \<Longrightarrow> fs_inv s'"
  by (simp add: fs_keeps_def)

lemma fs_keeps_no_leak: "fs_keeps s s' \<Longrightarrow> no_leak s' = no_leak s"
  by (simp add: fs_keeps_def no_leak_def)

lemma fs_keeps_update_dir:
  assumes inv: "fs_inv s" and run: "onFU (update_dir p f) s = Some s'"
    and f: "\<And>d. dd_conn (f d) = dd_conn d" "\<And>d. dir_entry_valid (f d) = dir_entry_valid d"
  shows "fs_keeps s s'"
proof -
  from run obtain d where d: "dir_heap (fds s) p = Some d"
    and s': "s' = s\<lparr>fds := (fds s)\<lparr>dir_heap := (dir_heap (fds s))(p \<mapsto> f d)\<rparr>\<rparr>"
    by (auto simp: onFU_def update_dir_def)
  have "dir_entry_valid d" using fs_inv_D(1) [OF inv] d unfolding fd_inv_def by blast
  with fd_inv_update_dir [OF fs_inv_D(1) [OF inv] d, of "f d"] f
  have "fd_inv ((fds s)\<lparr>dir_heap := (dir_heap (fds s))(p \<mapsto> f d)\<rparr>)" by simp
  with held_update_dir [OF d, of "f d"] f(1) inv d show ?thesis
    by (auto simp: fs_keeps_def s' fs_inv_def dir_conn_of_def fun_eq_iff)
qed

lemma dir_lock_keeps:
  "fs_inv s \<Longrightarrow> onFU (iFuseDirLock p) s = Some s' \<Longrightarrow> fs_keeps s s'"
  "fs_inv s \<Longrightarrow> onFU (iFuseDirUnlock p) s = Some s' \<Longrightarrow> fs_keeps s s'"
  by (unfold iFuseDirLock_def iFuseDirUnlock_def,
      erule (1) fs_keeps_update_dir; simp add: dir_entry_valid_def split: option.split)+

lemma onCU_touch:
  assumes "onCU f s = Some s'" and "\<And>c'. f (conns (fds s)) = Some c' \<Longrightarrow> touch_ok (conns (fds s)) c'"
  shows "fs_touch s s'"
  using assms by (auto simp: onCU_def intro: fs_touch_conn)

lemma conn_lock_touch:
  "onCU (iFuseConnLock p) s = Some s' \<Longrightarrow> fs_touch s s'"
  "onCU (iFuseConnUnlock p) s = Some s' \<Longrightarrow> fs_touch s s'"
  by (auto simp: onCU_def iFuseConnLock_def iFuseConnUnlock_def intro: fs_touch_conn touch_ok_lock)

lemma Flush_keeps:
  assumes inv: "fs_inv s" and run: "iFuseFsFlush e p s = Some (status, s')"
  shows "fs_keeps s s'"
proof -
  from run obtain d st d' where d: "fd_heap (fds s) p = Some d" and r: "iFuseFdReopen e p (fds s) = Some (st, d')"
    and s': "s' = s\<lparr>fds := d'\<rparr> \<or> s' = onMcP (iFuseMetadataCacheRemoveStat (fd_iRodsPath d)) (s\<lparr>fds := d'\<rparr>)"
    by (auto simp: iFuseFsFlush_def onF_def split: if_splits)
  from iFuseFdReopen_ok [OF fs_inv_D(1) [OF inv] d r] inv dir_conn_of_cong [of d' "fds s"]
  have k: "fs_keeps s (s\<lparr>fds := d'\<rparr>)"
    by (auto simp: fs_keeps_def fs_inv_def touch_okD(4))
  have "fs_touch (s\<lparr>fds := d'\<rparr>) s'" using s' removals_touch(1) by auto
  with k show ?thesis by (blast intro: fs_keeps_trans fs_keeps_touch fs_keeps_inv)
qed

lemma Ioctl_touch: "iFuseFsIoctl e cmd s = (r, s') \<Longrightarrow> fs_touch s s'"
proof (cases cmd)
  case IFUSEIOC_RESET_METADATA_CACHE
  moreover assume "iFuseFsIoctl e cmd s = (r, s')"
  moreover have "fs_touch s (s\<lparr>mcache := iFuseMetadataCacheClear (mcache s)\<rparr>)"
    using onMcP_touch [of releaseAllCache s] releaseAllCache_ok by (simp add: onMcP_def iFuseMetadataCacheClear_def)
  ultimately show ?thesis by (auto simp: iFuseFsIoctl_def split: if_splits)
next
  case IFUSEIOC_SHOW_CONNECTIONS
  moreover assume "iFuseFsIoctl e cmd s = (r, s')"
  ultimately show ?thesis
    by (auto simp: iFuseFsIoctl_def iFuseConnReport_def Let_def split: prod.splits
        intro!: fs_touch_conn intro: touch_ok_time)
qed (auto simp: iFuseFsIoctl_def)

lemma cache_entry_touch: "cache_entry e dir name st s = Some s' \<Longrightarrow> fs_touch s s'"
proof (cases "g_CacheMetadata s")
  case True
  moreover assume "cache_entry e dir name st s = Some s'"
  ultimately obtain x y s1 where 1: "onMcO (iFuseMetadataCachePutStat2 e dir name st) s = Some (x, s1)"
    and 2: "onMc (iFuseMetadataCacheAddDirEntry e dir name) s1 = (y, s')"
    by (simp add: cache_entry_def case_prod_unfold) (metis prod.collapse)
  have "fs_touch s s1" by (rule onMcO_touch [OF 1, of e]) (auto intro: mc_step.intros)
  moreover have "fs_touch s1 s'" by (rule onMc_touch [OF 2, of e]) (auto intro: mc_step.intros)
  ultimately show ?thesis by (rule fs_touch_trans)
qed (simp add: cache_entry_def)

lemma list_entry_touch: "list_entry e dir ent s = Some (names, s') \<Longrightarrow> fs_touch s s'"
  by (auto simp: list_entry_def split: if_splits prod.splits option.splits dest: cache_entry_touch)

lemma read_entries_touch:
  assumes "read_entries e cp h dir ent names s = Some y"
  shows "fs_touch s (snd y)"
proof (rule read_entries.raw_induct [where P = "\<lambda>e cp h dir ent names s y. fs_touch s (snd y)", OF _ assms])
  fix f :: "'a ext \<Rightarrow> nat \<Rightarrow> nat \<Rightarrow> string \<Rightarrow> collEnt \<Rightarrow> string list \<Rightarrow> 'a fs_state \<Rightarrow> (string list \<times> 'a fs_state) option"
  fix e cp h dir ent names and s :: "'a fs_state" and y
  assume IH: "\<And>e cp h dir ent names s y. f e cp h dir ent names s = Some y \<Longrightarrow> fs_touch s (snd y)"
  assume "do { cn \<leftarrow> conn_heap (conns (fds s)) cp;
          let ((status, ent'), c1) = onRc (iFuseRodsClientReadCollection e (cn_conn cn) h ent) (conns (fds s));
          let s1 = s\<lparr>fds := (fds s)\<lparr>conns := c1\<rparr>\<rparr>;
          if status < 0 then Some (names, s1)
          else do { s2 \<leftarrow> onCU (iFuseConnUpdateLastActTime e cp False) s1;
                    (new, s3) \<leftarrow> list_entry e dir ent' s2;
                    f e cp h dir ent' (names @ new) s3 } } = Some y"
  then obtain cn st ent' c1 where
    c: "conn_heap (conns (fds s)) cp = Some cn" "onRc (iFuseRodsClientReadCollection e (cn_conn cn) h ent) (conns (fds s)) = ((st, ent'), c1)"
    and rest: "(let s1 = s\<lparr>fds := (fds s)\<lparr>conns := c1\<rparr>\<rparr> in
          if st < 0 then Some (names, s1)
          else do { s2 \<leftarrow> onCU (iFuseConnUpdateLastActTime e cp False) s1;
                    (new, s3) \<leftarrow> list_entry e dir ent' s2;
                    f e cp h dir ent' (names @ new) s3 }) = Some y"
    by (auto simp: case_prod_unfold) (metis prod.collapse)
  let ?s1 = "s\<lparr>fds := (fds s)\<lparr>conns := c1\<rparr>\<rparr>"
  have t1: "fs_touch s ?s1" by (rule fs_touch_conn, rule touch_ok_onRc [OF _ c(2)]) (rule rc_wrapper_le)
  show "fs_touch s (snd y)"
  proof (cases "st < 0")
    case False
    then obtain s2 new s3 where
      2: "onCU (iFuseConnUpdateLastActTime e cp False) ?s1 = Some s2" "list_entry e dir ent' s2 = Some (new, s3)"
        "f e cp h dir ent' (names @ new) s3 = Some y"
      using rest by (auto simp: Let_def)
    have "cp \<in> dom (conn_heap (conns (fds ?s1)))" using c(1) fs_touch_fields(5) [OF t1] by auto
    from updateLastActTime_live [OF this, of e False] have "fs_touch ?s1 s2"
      by (intro onCU_touch [OF 2(1)]) auto
    with t1 list_entry_touch [OF 2(2)] IH [OF 2(3)] show ?thesis by (blast intro: fs_touch_trans)
  qed (use rest t1 in auto)
qed

lemma list_dir_keeps:
  assumes inv: "fs_inv s" and run: "list_dir e p s = Some (names, s')"
  shows "fs_keeps s s'"
proof -
  from run obtain path cp h s1 s2 s3 s4 where
    r: "onFU (iFuseDirLock p) s = Some s1" "onCU (iFuseConnLock cp) s1 = Some s2"
      "read_entries e cp h path zero_collEnt [] s2 = Some (names, s3)"
      "onCU (iFuseConnUnlock cp) s3 = Some s4" "onFU (iFuseDirUnlock p) s4 = Some s'"
    by (auto simp: list_dir_def)
  have k1: "fs_keeps s s1" using dir_lock_keeps(1) [OF inv r(1)] .
  have "fs_touch s1 s4"
    using conn_lock_touch(1) [OF r(2)] read_entries_touch [OF r(3)] conn_lock_touch(2) [OF r(4)]
    by (auto intro: fs_touch_trans)
  then have k4: "fs_keeps s s4" using fs_keeps_touch [OF _ fs_keeps_inv [OF k1]] k1 by (blast intro: fs_keeps_trans)
  from this dir_lock_keeps(2) [OF fs_keeps_inv [OF k4] r(5)] show ?thesis by (rule fs_keeps_trans)
qed

lemma ReadDir_keeps:
  assumes inv: "fs_inv s" and run: "iFuseFsReadDir e p s = Some (r, s')"
  shows "fs_keeps s s'"
proof -
  have "s' = s \<or> (\<exists>s1 names. fs_touch s s1 \<and> list_dir e p s1 = Some (names, s'))"
    using run removals_touch(2) [of s]
    by (auto simp: iFuseFsReadDir_def Let_def split: option.splits bool.splits)
  then show ?thesis
  proof (elim disjE exE conjE)
    fix s1 names assume "fs_touch s s1" "list_dir e p s1 = Some (names, s')"
    then show ?thesis using fs_keeps_touch [OF _ inv, of s1] list_dir_keeps [of s1 e p names s']
      by (blast intro: fs_keeps_trans fs_keeps_inv)
  qed (use inv fs_keeps_touch in blast)
qed

text \<open>\<open>iFuseFsCacheDir\<close> opens, lists and closes a directory of its own.\<close>

lemma CacheDir_server_inv:
  assumes inv: "fs_inv s" and mem: "calloc_ok e" and codes: "error_codes_ok e" and room: "conn_room s"
    and run: "do { ((status, conn), s3) \<leftarrow> onC (iFuseConnGetAndUse e (file_type s)) s;
               if status < 0 then Some (- EIO, s3)
               else do {
                 cp \<leftarrow> conn;
                 ((status, dir), s4) \<leftarrow> onF (iFuseDirOpen e cp path) s3;
                 if status < 0 then Some (- ENOENT, s4)
                 else do {
                   p \<leftarrow> dir;
                   (_, s5) \<leftarrow> list_dir e p s4;
                   (status, s6) \<leftarrow> onF (iFuseDirClose e p) s5;
                   if status < 0 then Some (- ENOENT, s6)
                   else do { s7 \<leftarrow> onCU (iFuseConnUnuse e cp) s6; Some (0, s7) } } } } = Some (status, s')"
  shows "fs_inv s'"
  using inv mem room types_in(2) [of s]
proof (cases rule: fs_get_cases)
  case (failed status' s'')
  then show ?thesis using run fs_inv_same [OF inv] by auto
next
  case (got cp c)
  let ?d1 = "(fds s)\<lparr>conns := c\<rparr>"
  from run got(1) obtain x where "iFuseDirOpen e cp path ?d1 = Some x"
    by (cases "iFuseDirOpen e cp path ?d1") (simp_all add: onF_def)
  then obtain st f d where o: "iFuseDirOpen e cp path ?d1 = Some ((st, f), d)" by (metis prod.exhaust)
  let ?s4 = "s\<lparr>fds := d\<rparr>"
  from run got(1) o have r: "(if st < 0 then Some (- ENOENT, ?s4)
                 else do {
                   p \<leftarrow> f;
                   (_, s5) \<leftarrow> list_dir e p ?s4;
                   (status, s6) \<leftarrow> onF (iFuseDirClose e p) s5;
                   if status < 0 then Some (- ENOENT, s6)
                   else do { s7 \<leftarrow> onCU (iFuseConnUnuse e cp) s6; Some (0, s7) } }) = Some (status, s')"
    by (simp add: onF_def)
  from iFuseDirOpen_ok [OF fs_inv_D(1) [OF got(6), simplified] opened_room [OF inv got(5)]
      iFuseDirOpen_connected [OF o], of e path] o
  consider "st \<in> {- ENOENT, SYS_MALLOC_ERR e}" "open_ok ?d1 cp d False"
    | p x where "0 \<le> st" "f = Some p" "dir_heap d = (dir_heap ?d1)(p \<mapsto> x)" "dd_conn x = Some cp"
      "open_ok ?d1 cp d True" by auto
  then show ?thesis
  proof cases
    case 1
    have "st < 0" using 1(1) codes by (auto simp: error_codes_ok_def)
    with r opened_accounting [OF got(6,5) 1(2)] show ?thesis by (simp add: open_leaks_def)
  next
    case (2 p x)
    have i4: "fs_inv ?s4" using opened_accounting [OF got(6,5) 2(5)] by (simp add: open_holds_def)
    from r 2(1,2) obtain names s5 where 5: "list_dir e p ?s4 = Some (names, s5)" by (auto split: if_splits)
    note k = list_dir_keeps [OF i4 5]
    have i5: "fs_inv s5" using k by (rule fs_keeps_inv)
    have "dir_conn_of (fds s5) p = Some cp" using k 2(3,4) by (simp add: fs_keeps_def dir_conn_of_def)
    then obtain y where y: "dir_heap (fds s5) p = Some y" "dd_conn y = Some cp"
      by (auto simp: dir_conn_of_def split: option.splits)
    from iFuseDirClose_ok [OF fs_inv_D(1) [OF i5] y(1), of e] y(2) obtain d6 where
      6: "iFuseDirClose e p (fds s5) = Some (0, d6)" "fd_inv d6" "touch_ok (conns (fds s5)) (conns d6)"
        "held d6 = (held (fds s5))(cp := held (fds s5) cp - 1)" "0 < held (fds s5) cp" by auto
    from closed_releases [OF i5 6(2,3,5,4), of e] obtain c7 where
      7: "iFuseConnUnuse e cp (conns d6) = Some c7" "close_releases s5 (s5\<lparr>fds := d6\<lparr>conns := c7\<rparr>\<rparr>) cp" by blast
    from r 2(1,2) 5 6(1) 7(1) have "s' = s5\<lparr>fds := d6\<lparr>conns := c7\<rparr>\<rparr>"
      by (auto simp: onF_def onCU_def)
    with 7(2) show ?thesis by (simp add: close_releases_def)
  qed
qed

lemma CacheDir_inv:
  assumes inv: "fs_inv s" and mem: "calloc_ok e" and codes: "error_codes_ok e" and room: "conn_room s"
    and run: "iFuseFsCacheDir e path s = Some (status, s')"
  shows "fs_inv s'"
proof (cases "g_CacheMetadata s")
  case True
  obtain x s1 where 1: "onMc (iFuseMetadataCacheClearExpiredDir e False) s = (x, s1)" by force
  have t1: "fs_touch s s1" by (rule onMc_touch [OF 1, of e]) (auto intro: mc_step.intros)
  from run True 1 obtain st ans s2 where
    2: "onMcO (iFuseMetadataCacheGetDirEntry e path) s1 = Some ((st, ans), s2)" by (auto simp: iFuseFsCacheDir_def)
  have t2: "fs_touch s1 s2" by (rule onMcO_touch [OF 2, of e]) (auto intro: mc_step.intros)
  note t = fs_touch_trans [OF t1 t2]
  have i2: "fs_inv s2" using t inv by (rule fs_touch_inv)
  have room2: "conn_room s2" using fs_touch_conns [OF t] room by (simp add: conn_room_def touch_okD(3))
  show ?thesis
  proof (cases "st = 0")
    case False
    from CacheDir_server_inv [OF i2 mem codes room2, of path status s'] show ?thesis
      using run True 1 2 False by (simp add: iFuseFsCacheDir_def)
  qed (use run True 1 2 i2 in \<open>simp add: iFuseFsCacheDir_def\<close>)
qed (use run inv in \<open>simp add: iFuseFsCacheDir_def\<close>)


section \<open>Every sequence of operations\<close>

text \<open>
  One step is one operation of \<open>iFuse.FS.cpp\<close> that returns, on any arguments and whatever the
  server answers, or one round of the timer. \<open>conn_room\<close> says that fewer than \<open>2 ^ 64 - 1\<close>
  connections were made.
\<close>

inductive fs_step :: "'w ext \<Rightarrow> 'w fs_state \<Rightarrow> 'w fs_state \<Rightarrow> bool" for e where
  step_getattr: "conn_room s \<Longrightarrow> iFuseFsGetAttr e path s = Some (r, s') \<Longrightarrow> fs_step e s s'"
| step_open: "conn_room s \<Longrightarrow> iFuseFsOpen e path fl s = Some ((st, fd), s') \<Longrightarrow> fs_step e s s'"
| step_close: "iFuseFsClose e p s = Some (st, s') \<Longrightarrow> fs_step e s s'"
| step_read: "iFuseFsRead e p off sz s = Some (x, s') \<Longrightarrow> fs_step e s s'"
| step_write: "iFuseFsWrite e p buf off s = Some (st, s') \<Longrightarrow> fs_step e s s'"
| step_flush: "iFuseFsFlush e p s = Some (st, s') \<Longrightarrow> fs_step e s s'"
| step_create: "conn_room s \<Longrightarrow> iFuseFsCreate e path mode s = Some (st, s') \<Longrightarrow> fs_step e s s'"
| step_unlink: "conn_room s \<Longrightarrow> iFuseFsUnlink e path s = Some (st, s') \<Longrightarrow> fs_step e s s'"
| step_opendir: "conn_room s \<Longrightarrow> iFuseFsOpenDir e path s = Some ((st, dir), s') \<Longrightarrow> fs_step e s s'"
| step_closedir: "iFuseFsCloseDir e p s = Some (st, s') \<Longrightarrow> fs_step e s s'"
| step_readdir: "iFuseFsReadDir e p s = Some (y, s') \<Longrightarrow> fs_step e s s'"
| step_makedir: "conn_room s \<Longrightarrow> iFuseFsMakeDir e path s = Some (st, s') \<Longrightarrow> fs_step e s s'"
| step_removedir: "conn_room s \<Longrightarrow> iFuseFsRemoveDir e path s = Some (st, s') \<Longrightarrow> fs_step e s s'"
| step_rename: "conn_room s \<Longrightarrow> iFuseFsRename e path path2 s = Some (st, s') \<Longrightarrow> fs_step e s s'"
| step_truncate: "conn_room s \<Longrightarrow> iFuseFsTruncate e path len s = Some (st, s') \<Longrightarrow> fs_step e s s'"
| step_chmod: "conn_room s \<Longrightarrow> iFuseFsChmod e path mode s = Some (st, s') \<Longrightarrow> fs_step e s s'"
| step_ioctl: "iFuseFsIoctl e cmd s = (rep, s') \<Longrightarrow> fs_step e s s'"
| step_cachedir: "conn_room s \<Longrightarrow> iFuseFsCacheDir e path s = Some (st, s') \<Longrightarrow> fs_step e s s'"
| step_tick: "timerTick e s = Some s' \<Longrightarrow> fs_step e s s'"

inductive fs_reachable :: "'w ext \<Rightarrow> 'w fs_state \<Rightarrow> 'w fs_state \<Rightarrow> bool" for e s0 where
  fs_init: "fs_reachable e s0 s0"
| fs_next: "fs_reachable e s0 s \<Longrightarrow> fs_step e s s' \<Longrightarrow> fs_reachable e s0 s'"

lemma same_inv: "\<exists>r s1. f = Some (r, s1) \<and> fs_same s s1 \<Longrightarrow> f = Some (x, s') \<Longrightarrow> fs_inv s \<Longrightarrow> fs_inv s'"
  by (auto intro: fs_inv_same)

lemmas same_invs = GetAttr_same [THEN same_inv] Create_same [THEN same_inv] Unlink_same [THEN same_inv]
  MakeDir_same [THEN same_inv] RemoveDir_same [THEN same_inv] Rename_same [THEN same_inv]
  Truncate_same [THEN same_inv] Chmod_same [THEN same_inv]

lemma dir_opened_inv: "dir_opened s s' path dir \<Longrightarrow> fs_inv s'"
  by (auto simp: dir_opened_def open_holds_def split: option.splits)

lemma Close_inv: "fs_inv s \<Longrightarrow> iFuseFsClose e p s = Some (st, s') \<Longrightarrow> fs_inv s'"
  using Close_ok [of s p _ e] by (cases "fd_heap (fds s) p") (auto simp: iFuseFsClose_def close_releases_def)

lemma CloseDir_inv: "fs_inv s \<Longrightarrow> iFuseFsCloseDir e p s = Some (st, s') \<Longrightarrow> fs_inv s'"
proof (cases "dir_heap (fds s) p")
  case (Some d)
  assume "fs_inv s" "iFuseFsCloseDir e p s = Some (st, s')"
  with CloseDir_ok [OF _ Some, of e] show ?thesis by (auto simp: close_releases_def split: option.splits)
qed (simp add: iFuseFsCloseDir_def)

lemma io_inv:
  assumes "fs_inv s"
  shows "iFuseFsRead e p off sz s = Some (x, s') \<Longrightarrow> fs_inv s'" "iFuseFsWrite e p buf off s = Some (st, s') \<Longrightarrow> fs_inv s'"
proof -
  assume r: "iFuseFsRead e p off sz s = Some (x, s')"
  then obtain d where "fd_heap (fds s) p = Some d" by (auto simp: iFuseFsRead_def with_fd_lock_def)
  from Read_live [OF assms this, of e off sz] r show "fs_inv s'" by (auto dest: io_okD(1) [OF _ assms])
next
  assume r: "iFuseFsWrite e p buf off s = Some (st, s')"
  then obtain d where "fd_heap (fds s) p = Some d" by (auto simp: iFuseFsWrite_def with_fd_lock_def)
  from Write_live [OF assms this, of e buf off] r show "fs_inv s'" by (auto dest: io_okD(1) [OF _ assms])
qed

lemma fs_inv_step:
  assumes "fs_step e s s'" and inv: "fs_inv s" and mem: "calloc_ok e" and codes: "error_codes_ok e"
  shows "fs_inv s'"
  using assms(1)
proof cases
  case (step_open path fl st fd)
  from Open_ok [OF inv mem codes this] show ?thesis
    by (auto simp: open_leaks_def open_holds_def intro: fs_inv_same [OF inv])
next
  case (step_opendir path st dir)
  from OpenDir_ok [OF inv mem codes this] show ?thesis
    by (auto simp: open_leaks_def intro: fs_inv_same [OF inv] dir_opened_inv)
next
  case (step_tick)
  with timerTick_same [OF inv, of e] show ?thesis by (auto intro: fs_inv_same [OF inv])
next
  case (step_cachedir path st)
  with CacheDir_inv [OF inv mem codes] show ?thesis by blast
qed (use inv mem in \<open>auto intro: same_invs Close_inv CloseDir_inv io_inv fs_touch_inv Ioctl_touch
       dest: fs_keeps_inv [OF Flush_keeps] fs_keeps_inv [OF ReadDir_keeps]\<close>)

lemma fs_inv_reachable:
  assumes "fs_reachable e s0 s" and "fs_inv s0" and "calloc_ok e" and "error_codes_ok e"
  shows "fs_inv s"
  using assms by (induction rule: fs_reachable.induct) (auto intro: fs_inv_step)

end
