(* ===== verification/IFuse_ConnHandles.thy ===== *)
theory IFuse_ConnHandles
  imports IFuse_FS
begin

text \<open>
  Where connections without a handle come from. The pool never takes a handle from a connection
  it keeps but in \<open>iFuseConnReconnect\<close>, and hands out a new one without a handle only when a
  login or a session ticket answered with a positive status, which \<open>_newConn\<close> takes for success.
\<close>

section \<open>What connecting answers\<close>

text \<open>The status of \<open>_connect\<close> is 0 exactly when the connection has a handle afterwards.\<close>

lemma connect_handle:
  "connect e cn r = ((st, cn'), r') \<Longrightarrow> cn_conn cn' = None \<longleftrightarrow> st \<noteq> 0"
  by (auto simp: connect_def Let_def split: prod.splits if_splits option.splits)

text \<open>Logins and tickets as the iRODS library documents them: 0, or an error, which is negative.\<close>

definition login_answers :: "'w ext \<Rightarrow> bool" where
  "login_answers e \<longleftrightarrow> SYS_MALLOC_ERR e \<le> 0 \<and> (\<forall>conn w. fst (clientLogin e conn w) \<le> 0)
     \<and> (\<forall>conn ticket w. fst (rcTicketAdmin e conn ticket w) \<le> 0)"

lemma tracked_call_answer:
  assumes "tracked_call e conn on_fail call r = (st, r')" and "on_fail \<le> 0" and "\<And>w. fst (call w) \<le> (0 :: int)"
  shows "st \<le> 0"
proof -
  have "fst (onLib (ext_call call) r1) \<le> 0" for r1
    using assms(3) by (simp add: onLib_def ext_call_def split: prod.split) (metis fst_conv)
  then show ?thesis
    using assms(1,2) by (auto simp: tracked_call_def split: prod.splits option.splits) (metis fst_conv)
qed

lemma connect_answer:
  assumes "login_answers e" and "connect e cn r = ((st, cn'), r')"
  shows "st \<le> 0"
proof -
  have login: "iFuseRodsClientLogin e conn r1 = (x, r2) \<Longrightarrow> x \<le> 0" for conn r1 x r2
    using assms(1) by (auto simp: iFuseRodsClientLogin_def login_answers_def intro: tracked_call_answer)
  have ticket: "iFuseRodsClientSetSessionTicket e conn t r1 = (x, r2) \<Longrightarrow> x \<le> 0" for conn t r1 x r2
    using assms(1) by (auto simp: iFuseRodsClientSetSessionTicket_def login_answers_def intro: tracked_call_answer)
  show ?thesis
    using assms(2) by (auto simp: connect_def Let_def split: prod.splits if_splits option.splits
        dest!: login ticket)
qed

section \<open>Operations that leave handles alone\<close>

lemma all_pair: "(\<forall>a b. x = (a, b) \<longrightarrow> P a b) \<longleftrightarrow> P (fst x) (snd x)"
  by (cases x) simp

definition keeps_handles :: "'w conn_state \<Rightarrow> 'w conn_state \<Rightarrow> bool" where
  "keeps_handles c c' \<longleftrightarrow> (\<forall>p. dead_conn c' p \<longrightarrow> dead_conn c p)"

named_theorems handles

lemma keeps_handles_refl [simp, intro]: "keeps_handles c c"
  by (simp add: keeps_handles_def)

lemma keeps_handles_trans [trans]: "keeps_handles c c' \<Longrightarrow> keeps_handles c' c'' \<Longrightarrow> keeps_handles c c''"
  by (simp add: keeps_handles_def)

lemma dead_conn_heap: "conn_heap c' = conn_heap c \<Longrightarrow> dead_conn c' = dead_conn c"
  by (simp add: dead_conn_def fun_eq_iff)

text \<open>Only the heap matters.\<close>

lemma dead_conn_fields [simp]:
  "dead_conn (c\<lparr>rcs := x0\<rparr>) = dead_conn c"
  "dead_conn (c\<lparr>g_InUseShortopConn := x1\<rparr>) = dead_conn c"
  "dead_conn (c\<lparr>g_InUseConn := x2\<rparr>) = dead_conn c"
  "dead_conn (c\<lparr>g_InUseOnetimeuseConn := x3\<rparr>) = dead_conn c"
  "dead_conn (c\<lparr>g_FreeShortopConn := x4\<rparr>) = dead_conn c"
  "dead_conn (c\<lparr>g_FreeConn := x5\<rparr>) = dead_conn c"
  "dead_conn (c\<lparr>g_ConnIDGen := x6\<rparr>) = dead_conn c"
  "dead_conn (c\<lparr>g_LastConnCheck := x7\<rparr>) = dead_conn c"
  by (simp_all add: dead_conn_def fun_eq_iff)

lemma keeps_handles_fields [simp]:
  "keeps_handles (c\<lparr>rcs := x0\<rparr>) c' = keeps_handles c c'"
  "keeps_handles c (c'\<lparr>rcs := x0\<rparr>) = keeps_handles c c'"
  "keeps_handles (c\<lparr>g_InUseShortopConn := x1\<rparr>) c' = keeps_handles c c'"
  "keeps_handles c (c'\<lparr>g_InUseShortopConn := x1\<rparr>) = keeps_handles c c'"
  "keeps_handles (c\<lparr>g_InUseConn := x2\<rparr>) c' = keeps_handles c c'"
  "keeps_handles c (c'\<lparr>g_InUseConn := x2\<rparr>) = keeps_handles c c'"
  "keeps_handles (c\<lparr>g_InUseOnetimeuseConn := x3\<rparr>) c' = keeps_handles c c'"
  "keeps_handles c (c'\<lparr>g_InUseOnetimeuseConn := x3\<rparr>) = keeps_handles c c'"
  "keeps_handles (c\<lparr>g_FreeShortopConn := x4\<rparr>) c' = keeps_handles c c'"
  "keeps_handles c (c'\<lparr>g_FreeShortopConn := x4\<rparr>) = keeps_handles c c'"
  "keeps_handles (c\<lparr>g_FreeConn := x5\<rparr>) c' = keeps_handles c c'"
  "keeps_handles c (c'\<lparr>g_FreeConn := x5\<rparr>) = keeps_handles c c'"
  "keeps_handles (c\<lparr>g_ConnIDGen := x6\<rparr>) c' = keeps_handles c c'"
  "keeps_handles c (c'\<lparr>g_ConnIDGen := x6\<rparr>) = keeps_handles c c'"
  "keeps_handles (c\<lparr>g_LastConnCheck := x7\<rparr>) c' = keeps_handles c c'"
  "keeps_handles c (c'\<lparr>g_LastConnCheck := x7\<rparr>) = keeps_handles c c'"
  by (simp_all add: keeps_handles_def)

lemma handles_same: "conn_heap c' = conn_heap c \<Longrightarrow> keeps_handles c c'"
  by (simp add: keeps_handles_def dead_conn_heap [of c' c])

lemma onRc_handles [handles]: "onRc f c = (x, c') \<Longrightarrow> keeps_handles c c'"
  by (auto dest!: onRcD intro: handles_same)

lemma currentTime_handles [handles]: "currentTime e c = (x, c') \<Longrightarrow> keeps_handles c c'"
  unfolding currentTime_def by (rule onRc_handles)

lemma update_conn_handles:
  "update_conn p f c = Some c' \<Longrightarrow> (\<And>cn. cn_conn (f cn) = cn_conn cn) \<Longrightarrow> keeps_handles c c'"
  by (auto simp: update_conn_def keeps_handles_def dead_conn_def split: if_splits)

lemma lock_handles [handles]:
  "conn_wrlock p c = Some c' \<Longrightarrow> keeps_handles c c'"
  "conn_unlock p c = Some c' \<Longrightarrow> keeps_handles c c'"
  unfolding conn_wrlock_def conn_unlock_def by (erule update_conn_handles, simp)+

lemma freeConn_handles [handles]:
  assumes "freeConn e conn c = Some c'"
  shows "keeps_handles c c'"
proof -
  from assms obtain p cn where p: "conn = Some p" "conn_heap c p = Some cn"
    by (auto simp: freeConn_def)
  from freeConn_nf [OF p(2), of e] p(1) assms obtain r where
    "c' = c\<lparr>rcs := r, conn_heap := (conn_heap c)(p := None)\<rparr>" by auto
  then show ?thesis by (simp add: keeps_handles_def dead_conn_def)
qed

lemma use_conn_handles [handles]:
  assumes "use_conn e p c = Some c'"
  shows "keeps_handles c c'"
proof -
  from assms obtain cn where cn: "conn_heap c p = Some cn"
    by (auto simp: use_conn_def conn_wrlock_def update_conn_def)
  from use_conn_nf [OF cn, of e] assms obtain r now where
    "c' = c\<lparr>rcs := r, conn_heap := (conn_heap c)(p \<mapsto>
      cn\<lparr>cn_lastUseTime := now, cn_inuseCnt := cn_inuseCnt cn + 1, cn_lock := False\<rparr>)\<rparr>" by auto
  with cn show ?thesis by (auto simp: keeps_handles_def dead_conn_def split: if_splits)
qed

lemma newConn_handles:
  assumes "login_answers e" and "newConn e c = ((status, conn), c')" and "0 \<le> status"
  shows "keeps_handles c c'"
proof (cases "onRc (onLib (malloc_ptr e)) c")
  case (Pair m c1)
  show ?thesis
  proof (cases m)
    case None
    with Pair assms(2) show ?thesis by (auto simp: newConn_def intro: handles)
  next
    case (Some p)
    let ?cn = "zero_conn\<lparr>cn_connId := g_ConnIDGen c1\<rparr>" and ?c2 = "c1\<lparr>g_ConnIDGen := g_ConnIDGen c1 + 1\<rparr>"
    obtain st cn c3 where con: "onRc (connect e ?cn) ?c2 = ((st, cn), c3)" by (metis prod.exhaust)
    obtain now c4 where t: "currentTime e c3 = (now, c4)" by force
    from onRcD [OF con] obtain r where r: "connect e ?cn (rcs ?c2) = ((st, cn), r)" by blast
    have res: "status = st" "c' = c4\<lparr>conn_heap := (conn_heap c4)(p \<mapsto> cn\<lparr>cn_lastActTime := now\<rparr>)\<rparr>"
      using assms(2) Pair Some con t by (auto simp: newConn_def genNextConnID_def)
    have "st = 0" using connect_answer [OF assms(1) r] assms(3) res(1) by simp
    then have "cn_conn cn \<noteq> None" using connect_handle [OF r] by simp
    then have "keeps_handles c4 c'" by (auto simp: res(2) keeps_handles_def dead_conn_def)
    moreover have "keeps_handles c c1" "keeps_handles ?c2 c3" "keeps_handles c3 c4"
      using Pair con t by (blast intro: handles)+
    ultimately show ?thesis by (simp add: keeps_handles_def)
  qed
qed

lemma newConn_failed_handles:
  assumes "newConn e c = ((status, conn), c1)" and "freeConn e conn c1 = Some c2"
  shows "keeps_handles c c2"
proof (cases "onRc (onLib (malloc_ptr e)) c")
  case (Pair m c0)
  show ?thesis
  proof (cases m)
    case None
    with Pair assms show ?thesis by (auto simp: newConn_def freeConn_def)
  next
    case (Some p)
    have c0: "conn_heap c0 = conn_heap c" using onRcD [OF Pair] by auto
    have "conn = Some p \<and> (\<exists>cn. conn_heap c1 = (conn_heap c)(p \<mapsto> cn))"
      using assms(1) Pair Some c0
      by (auto simp: newConn_def genNextConnID_def currentTime_def split: prod.splits dest!: onRcD)
    then obtain cn where h: "conn = Some p" "conn_heap c1 = (conn_heap c)(p \<mapsto> cn)" by blast
    from freeConn_nf [of c1 p cn e] h assms(2) obtain r where
      "c2 = c1\<lparr>rcs := r, conn_heap := (conn_heap c1)(p := None)\<rparr>" by auto
    with h show ?thesis by (auto simp: keeps_handles_def dead_conn_def split: if_splits)
  qed
qed

lemma new_conn_in_use_handles [handles]:
  assumes "new_conn_in_use e t c = Some ((status, conn), c')" and "login_answers e"
  shows "keeps_handles c c'"
proof -
  obtain st p c1 where new: "newConn e c = ((st, p), c1)" by (metis prod.exhaust)
  show ?thesis
  proof (cases "st < 0")
    case True
    with new assms(1) newConn_failed_handles [OF new] show ?thesis by (auto simp: new_conn_in_use_def)
  next
    case False
    with new assms(1) obtain q c2 where
      s: "update_conn q (\<lambda>cn. cn\<lparr>cn_type := t\<rparr>) c1 = Some c2"
      "update_conn q (\<lambda>cn. cn\<lparr>cn_lastUseTime := fst (currentTime e c2), cn_inuseCnt := cn_inuseCnt cn + 1\<rparr>)
         (snd (currentTime e c2)) = Some c'"
      by (auto simp: new_conn_in_use_def all_pair split: prod.splits)
    have "keeps_handles c2 (snd (currentTime e c2))" by (rule currentTime_handles [OF prod.collapse [symmetric]])
    moreover from s have "keeps_handles c1 c2" "keeps_handles (snd (currentTime e c2)) c'"
      by (auto elim: update_conn_handles)
    moreover have "keeps_handles c c1" using newConn_handles [OF assms(2) new] False by simp
    ultimately show ?thesis by (blast intro: keeps_handles_trans)
  qed
qed

section \<open>The operations of the pool\<close>

lemma get_shortop_handles:
  assumes "get_shortop e c = Some (x, c')" and "login_answers e"
  shows "keeps_handles c c'"
  using assms(1) unfolding get_shortop_def
  by (auto split: option.splits if_splits dest!: use_conn_handles new_conn_in_use_handles [OF _ assms(2)])

lemma get_file_io_handles:
  assumes "get_file_io e c = Some (x, c')" and "login_answers e"
  shows "keeps_handles c c'"
  using assms(1) unfolding get_file_io_def
  by (auto split: option.splits if_splits list.splits dest!: use_conn_handles new_conn_in_use_handles [OF _ assms(2)])

lemma get_onetimeuse_handles:
  assumes "get_onetimeuse e c = Some (x, c')" and "login_answers e"
  shows "keeps_handles c c'"
  using assms(1) unfolding get_onetimeuse_def
  by (auto split: option.splits if_splits dest!: new_conn_in_use_handles [OF _ assms(2)])

lemma get_handles [handles]:
  "iFuseConnGetAndUse e t c = Some (x, c') \<Longrightarrow> login_answers e \<Longrightarrow> keeps_handles c c'"
  by (auto simp: iFuseConnGetAndUse_def split: if_splits
      dest: get_shortop_handles get_file_io_handles get_onetimeuse_handles)

text \<open>The steps shared by the operations that mark a connection: lock, clock, assignment.\<close>

lemma mark_handles:
  assumes "conn_wrlock p c = Some c1" and "update_conn p f (snd (currentTime e c1)) = Some c3"
    and "\<And>cn. cn_conn (f cn) = cn_conn cn"
  shows "keeps_handles c c3"
proof -
  have "keeps_handles c1 (snd (currentTime e c1))" by (rule currentTime_handles [OF prod.collapse [symmetric]])
  with lock_handles(1) [OF assms(1)] update_conn_handles [OF assms(2,3)] show ?thesis
    by (blast intro: keeps_handles_trans)
qed

lemma unuse_handles [handles]:
  assumes "iFuseConnUnuse e p c = Some c'"
  shows "keeps_handles c c'"
proof -
  let ?f = "\<lambda>now cn. cn\<lparr>cn_lastUseTime := now, cn_inuseCnt := cn_inuseCnt cn - 1\<rparr>"
  obtain c1 c3 where m: "conn_wrlock p c = Some c1"
      "update_conn p (?f (fst (currentTime e c1))) (snd (currentTime e c1)) = Some c3"
    using assms by (auto simp: iFuseConnUnuse_def all_pair split: prod.splits)
  have u: "conn_unlock p (c3\<lparr>g_InUseOnetimeuseConn := x\<rparr>) = Some c4 \<Longrightarrow> freeConn e (Some p) c4 = Some c' \<Longrightarrow>
      keeps_handles c3 c'" for x c4
    using lock_handles(2) [of p "c3\<lparr>g_InUseOnetimeuseConn := x\<rparr>" c4] freeConn_handles [of e "Some p" c4 c']
    by (simp add: keeps_handles_def)
  have "keeps_handles c3 c'"
    using assms m unfolding iFuseConnUnuse_def
    by (auto simp: all_pair split: prod.splits if_splits dest: u lock_handles(2))
  moreover have "keeps_handles c c3" using m by (rule mark_handles) simp
  ultimately show ?thesis by (blast intro: keeps_handles_trans)
qed

lemma act_handles [handles]:
  assumes "iFuseConnUpdateLastActTime e p lk c = Some c'"
  shows "keeps_handles c c'"
proof -
  obtain c1 c3 where s: "(if lk then conn_wrlock p c else Some c) = Some c1"
      "update_conn p (\<lambda>cn. cn\<lparr>cn_lastActTime := fst (currentTime e c1)\<rparr>) (snd (currentTime e c1)) = Some c3"
      "(if lk then conn_unlock p c3 else Some c3) = Some c'"
    using assms by (auto simp: iFuseConnUpdateLastActTime_def all_pair split: prod.splits if_splits)
  have "keeps_handles c1 (snd (currentTime e c1))" by (rule currentTime_handles [OF prod.collapse [symmetric]])
  moreover have "keeps_handles (snd (currentTime e c1)) c3" using s(2) by (rule update_conn_handles) simp
  moreover have "keeps_handles c c1" "keeps_handles c3 c'" using s(1,3) by (auto split: if_splits intro: handles)
  ultimately show ?thesis by (blast intro: keeps_handles_trans)
qed

lemma keepAlive_handles [handles]:
  assumes "keepAlive e p c = Some c'"
  shows "keeps_handles c c'"
proof (cases "fst (iFuseRodsClientMakeRodsPath e ''/'' (rcs c)) < 0")
  case True
  with assms show ?thesis by (auto simp: keepAlive_def split: prod.splits)
next
  case False
  obtain st0 path where path: "iFuseRodsClientMakeRodsPath e ''/'' (rcs c) = (st0, path)" by force
  with False assms obtain c1 cn where c1: "conn_wrlock p c = Some c1" "conn_heap c1 p = Some cn"
    by (auto simp: keepAlive_def)
  obtain st so c2 where st: "onRc (iFuseRodsClientObjStat e (cn_conn cn) (rstrcpy e path (MAX_NAME_LEN e))) c1
      = ((st, so), c2)" by (metis prod.exhaust)
  obtain now c3 where c3: "currentTime e c2 = (now, c3)" by force
  have pre: "keeps_handles c c1" "keeps_handles c1 c2" "keeps_handles c2 c3"
    using c1(1) st c3 by (blast intro: handles)+
  show ?thesis
  proof (cases "st < 0")
    case True
    then have "conn_unlock p c2 = Some c'" using assms False path c1 st by (simp add: keepAlive_def)
    from lock_handles(2) [OF this] pre show ?thesis by (blast intro: keeps_handles_trans)
  next
    case nonneg: False
    then obtain c4 where c4: "update_conn p (\<lambda>cn. cn\<lparr>cn_lastActTime := now\<rparr>) c3 = Some c4" "conn_unlock p c4 = Some c'"
      using assms False path c1 st c3 by (auto simp: keepAlive_def)
    have "keeps_handles c3 c4" using c4(1) by (rule update_conn_handles) simp
    with lock_handles(2) [OF c4(2)] pre show ?thesis by (blast intro: keeps_handles_trans)
  qed
qed

lemma keep_alive_all_handles [handles]: "keep_alive_all e now ps c = Some c' \<Longrightarrow> keeps_handles c c'"
proof (induction ps arbitrary: c)
  case (Cons p ps)
  then obtain cn where "conn_heap c p = Some cn" by auto
  with Cons.prems obtain c1 where c1: "(if iFuseLibDiffTimeSec now (cn_lastActTime cn) \<ge> g_ConnKeepAliveSec c
      then keepAlive e p c else Some c) = Some c1" "keep_alive_all e now ps c1 = Some c'" by auto
  have "keeps_handles c c1" using c1(1) by (auto split: if_splits intro: keepAlive_handles)
  with Cons.IH [OF c1(2)] show ?case by (blast intro: keeps_handles_trans)
qed simp

lemma remove_free_conns_handles [handles]: "remove_free_conns e ps c = Some c' \<Longrightarrow> keeps_handles c c'"
proof (induction ps arbitrary: c)
  case (Cons p ps)
  then obtain c1 where c1: "freeConn e (Some p) (c\<lparr>g_FreeConn := removeAll p (g_FreeConn c)\<rparr>) = Some c1"
    "remove_free_conns e ps c1 = Some c'" by auto
  from freeConn_handles [OF c1(1)] Cons.IH [OF c1(2)] show ?case by (auto intro: keeps_handles_trans)
qed simp

lemma connChecker_handles [handles]:
  assumes "connChecker e c = Some c'"
  shows "keeps_handles c c'"
proof -
  obtain now c0 where t: "currentTime e c = (now, c0)" by force
  have t0: "keeps_handles c c0" using t by (rule currentTime_handles)
  show ?thesis
  proof (cases "iFuseLibDiffTimeSec now (g_LastConnCheck c0) > g_ConnCheckIntervalSec c0")
    case False
    with assms t t0 show ?thesis by (simp add: connChecker_def)
  next
    case True
    from assms t True obtain c1 ps c2 c3 where
      s: "keep_alive_all e now (pool_ptrs c0) c0 = Some c1" "remove_free_conns e ps c1 = Some c2"
      and c3: "(case g_FreeShortopConn c2 of None \<Rightarrow> Some c2
        | Some p \<Rightarrow> do { cn \<leftarrow> conn_heap c2 p;
            if iFuseLibDiffTimeSec now (cn_lastUseTime cn) \<ge> g_ConnTimeoutSec c2
            then do { c3 \<leftarrow> freeConn e (Some p) c2; Some (c3\<lparr>g_FreeShortopConn := None\<rparr>) }
            else Some c2 }) = Some c3"
      and c': "c' = snd (currentTime e c3)\<lparr>g_LastConnCheck := fst (currentTime e c3)\<rparr>"
      by (auto simp: connChecker_def all_pair split: prod.splits)
    have "keeps_handles c2 c3"
      using c3 by (auto split: option.splits if_splits dest: freeConn_handles)
    moreover have "keeps_handles c3 c'"
      using currentTime_handles [OF prod.collapse [symmetric], of c3 e] by (simp add: c')
    ultimately show ?thesis
      using t0 keep_alive_all_handles [OF s(1)] remove_free_conns_handles [OF s(2)]
      by (blast intro: keeps_handles_trans)
  qed
qed

text \<open>
  A reconnection takes no other connection's handle, and its own exactly when it answers
  anything but 0.
\<close>

lemma reconnect_nf:
  assumes "conn_heap c p = Some cn0"
  shows "\<exists>st r cn. iFuseConnReconnect e p c = Some (st, c\<lparr>rcs := r, conn_heap := (conn_heap c)(p \<mapsto> cn)\<rparr>)
    \<and> (cn_conn cn = None \<longleftrightarrow> st \<noteq> 0)"
proof -
  let ?cn = "cn0\<lparr>cn_lock := True\<rparr>"
  let ?c1 = "c\<lparr>conn_heap := (conn_heap c)(p \<mapsto> ?cn)\<rparr>"
  have lk: "conn_wrlock p c = Some ?c1" by (simp add: conn_wrlock_def update_conn_nf [OF assms])
  obtain cn1 c2 where d: "onRc (disconnect e ?cn) ?c1 = (cn1, c2)" by force
  from onRcD [OF d] obtain r2 where r2: "c2 = ?c1\<lparr>rcs := r2\<rparr>" by auto
  obtain st cn2 c3 where cc: "onRc (connect e cn1) c2 = ((st, cn2), c3)" by (metis prod.exhaust)
  from onRcD [OF cc] obtain r3 where r3: "connect e cn1 (rcs c2) = ((st, cn2), r3)" "c3 = c2\<lparr>rcs := r3\<rparr>" by auto
  obtain now r4 where r4: "currentTime e c3 = (now, c3\<lparr>rcs := r4\<rparr>)"
    using currentTime_ex by blast
  have "iFuseConnReconnect e p c = Some (st, c\<lparr>rcs := r4,
      conn_heap := (conn_heap c)(p \<mapsto> cn2\<lparr>cn_lastActTime := now, cn_lock := False\<rparr>)\<rparr>)"
    using lk d cc r4 by (simp add: iFuseConnReconnect_def update_conn_def conn_unlock_def r2 r3(2))
  moreover have "cn_conn (cn2\<lparr>cn_lastActTime := now, cn_lock := False\<rparr>) = None \<longleftrightarrow> st \<noteq> 0"
    using connect_handle [OF r3(1)] by simp
  ultimately show ?thesis by (intro exI conjI)
qed

lemma reconnect_handle:
  assumes "iFuseConnReconnect e p c = Some (st, c')"
  shows "dead_conn c' p \<longleftrightarrow> st \<noteq> 0" and "q \<noteq> p \<Longrightarrow> dead_conn c' q = dead_conn c q"
proof -
  from assms obtain cn0 where "conn_heap c p = Some cn0"
    by (auto simp: iFuseConnReconnect_def conn_wrlock_def update_conn_def)
  from reconnect_nf [OF this, of e] obtain st1 r cn where
    "iFuseConnReconnect e p c = Some (st1, c\<lparr>rcs := r, conn_heap := (conn_heap c)(p \<mapsto> cn)\<rparr>)"
    "cn_conn cn = None \<longleftrightarrow> st1 \<noteq> 0" by (elim exE conjE)
  with assms have "c' = c\<lparr>rcs := r, conn_heap := (conn_heap c)(p \<mapsto> cn)\<rparr>" "cn_conn cn = None \<longleftrightarrow> st \<noteq> 0" by auto
  then show "dead_conn c' p \<longleftrightarrow> st \<noteq> 0" "q \<noteq> p \<Longrightarrow> dead_conn c' q = dead_conn c q"
    by (simp_all add: dead_conn_def)
qed

text \<open>So, whatever threads and the timer do, only a failed reconnection leaves one without.\<close>

lemma pool_step_handles:
  assumes "pool_step e c c'" and "login_answers e" and "dead_conn c' p"
  shows "dead_conn c p \<or> (\<exists>st. iFuseConnReconnect e p c = Some (st, c') \<and> st \<noteq> 0)"
  using assms(1)
proof (cases rule: pool_step.cases)
  case (step_reconnect q st)
  then show ?thesis using reconnect_handle [of e q c st c'] assms(3) by (cases "p = q") auto
next
  case (step_get t x)
  then show ?thesis using get_handles [of e t c x c'] assms(2,3) by (simp add: keeps_handles_def)
next
  case (step_lock q)
  then show ?thesis using lock_handles(1) [of q c c'] assms(3) by (simp add: iFuseConnLock_def keeps_handles_def)
next
  case (step_unlock q)
  then show ?thesis using lock_handles(2) [of q c c'] assms(3) by (simp add: iFuseConnUnlock_def keeps_handles_def)
next
  case (step_call r)
  then show ?thesis using assms(3) by simp
qed (use assms(3) in \<open>auto simp: keeps_handles_def dest!: unuse_handles act_handles connChecker_handles\<close>)

lemma pool_handle_lost:
  assumes "pool_reachable e c0 c" and "login_answers e" and "dead_conn c p" and "\<not> dead_conn c0 p"
  shows "\<exists>c1 st c2. pool_reachable e c0 c1 \<and> iFuseConnReconnect e p c1 = Some (st, c2) \<and> st \<noteq> 0
    \<and> pool_reachable e c2 c"
  using assms(1,3)
proof (induction rule: pool_reachable.induct)
  case pool_init
  then show ?case using assms(4) by simp
next
  case (pool_next c c')
  show ?case
  proof (cases "dead_conn c p")
    case True
    with pool_next.IH pool_next.hyps(2) show ?thesis by (blast intro: pool_reachable.pool_next)
  next
    case False
    with pool_step_handles [OF pool_next.hyps(2) assms(2) pool_next.prems] pool_next.hyps(1)
    show ?thesis by (blast intro: pool_reachable.pool_init)
  qed
qed

end
