(* ===== verification/FS_Correct.thy ===== *)
theory FS_Correct
  imports IFuse_Steps IFuse_ConnHandles
begin

text \<open>
  What the file system operations of \<open>iFuse.FS.cpp\<close> guarantee: the whole library stays well
  formed, operations on a temporary connection are balanced, open descriptors and references
  to connections correspond, and where that fails.
\<close>

section \<open>The whole library\<close>

lemma short_same:
  assumes "fs_inv s" and "calloc_ok e" and "conn_room s"
    and "f \<in> {iFuseFsUnlink e path, iFuseFsMakeDir e path, iFuseFsRemoveDir e path, iFuseFsRename e path path2,
              iFuseFsTruncate e path len, iFuseFsChmod e path mode, iFuseFsCreate e path mode}"
  shows "\<exists>status s'. f s = Some (status, s') \<and> fs_same s s'"
  using assms(4) Unlink_same [OF assms(1-3)] MakeDir_same [OF assms(1-3)] RemoveDir_same [OF assms(1-3)]
    Rename_same [OF assms(1-3)] Truncate_same [OF assms(1-3)] Chmod_same [OF assms(1-3)] Create_same [OF assms(1-3)]
  by auto

text \<open>
  C2: in every sequence of operations and timer rounds after start-up, whatever the server
  answers, an open file has a positive descriptor number and a connection that is in the pool,
  with at least as many references as it has open descriptors; so no connection is freed under
  an open file. The short operations return from every such state, as do the timer's round and
  the closing of an open file.
\<close>

theorem system_sound:
  assumes "fs_reachable e (iFuseFsInit (iFuseLibInit (fs_start l))) s" and "calloc_ok e" and "error_codes_ok e"
  shows "(\<forall>p d. fd_heap (fds s) p = Some d \<longrightarrow> 0 < fd_fd d
        \<and> (\<exists>cp. fd_conn d = Some cp \<and> cp \<in> set (pool_ptrs (conns (fds s))))
        \<and> (\<exists>s'. iFuseFsClose e p s = Some (0, s')))
    \<and> (\<forall>cp. int (held (fds s) cp) \<le> conn_refs (conns (fds s)) cp)
    \<and> (conn_room s \<longrightarrow> iFuseFsGetAttr e path s \<noteq> None
        \<and> (\<forall>f \<in> {iFuseFsUnlink e path, iFuseFsMakeDir e path, iFuseFsRemoveDir e path, iFuseFsRename e path path2,
               iFuseFsTruncate e path len, iFuseFsChmod e path mode, iFuseFsCreate e path mode}. f s \<noteq> None))
    \<and> timerTick e s \<noteq> None"
proof -
  have "fs_inv (iFuseFsInit (iFuseLibInit (fs_start l)))" by (simp add: fs_inv_start)
  from fs_inv_reachable [OF assms(1) this assms(2,3)] have inv: "fs_inv s" .
  have "conn_inv (conns (fds s))" using inv by (rule fs_inv_D)
  then have ptrs: "set (pool_ptrs (conns (fds s))) = dom (conn_heap (conns (fds s)))"
    by (auto simp: pool_ptrs_live)
  have pos: "0 < fd_fd d" if "fd_heap (fds s) p = Some d" for p d
    using fs_inv_D(1) [OF inv] that unfolding fd_inv_def by blast
  have fd: "\<exists>cp. fd_conn d = Some cp \<and> cp \<in> dom (conn_heap (conns (fds s)))"
    "\<exists>s'. iFuseFsClose e p s = Some (0, s')" if "fd_heap (fds s) p = Some d" for p d
    using fd_conn_alive [OF fs_inv_D(1) [OF inv] that] Close_ok [OF inv that, of e] by blast+
  have short: "iFuseFsGetAttr e path s \<noteq> None
      \<and> (\<forall>f \<in> {iFuseFsUnlink e path, iFuseFsMakeDir e path, iFuseFsRemoveDir e path, iFuseFsRename e path path2,
             iFuseFsTruncate e path len, iFuseFsChmod e path mode, iFuseFsCreate e path mode}. f s \<noteq> None)"
    if "conn_room s"
  proof (intro conjI ballI)
    show "iFuseFsGetAttr e path s \<noteq> None" using GetAttr_same [OF inv assms(2) that, of path] by auto
  next
    fix f
    assume "f \<in> {iFuseFsUnlink e path, iFuseFsMakeDir e path, iFuseFsRemoveDir e path, iFuseFsRename e path path2,
             iFuseFsTruncate e path len, iFuseFsChmod e path mode, iFuseFsCreate e path mode}"
    from short_same [OF inv assms(2) that this] show "f s \<noteq> None" by auto
  qed
  from timerTick_same [OF inv, of e] pos fd short fd_inv_refs [OF fs_inv_D(1) [OF inv]] show ?thesis
    unfolding ptrs by auto
qed

theorem system_sound_witness:
  "\<exists>s. iFuseFsUnlink demo_ext ''/z/d/a'' (demo_fs True 1 []) = Some (0, s) \<and> timerTick demo_ext s \<noteq> None"
proof -
  let ?s = "snd (the (iFuseFsUnlink demo_ext ''/z/d/a'' (demo_fs True 1 [])))"
  have "map_option fst (iFuseFsUnlink demo_ext ''/z/d/a'' (demo_fs True 1 [])) = Some 0" by code_simp
  note run = run_split [OF this]
  have "fs_reachable demo_ext (demo_fs True 1 []) ?s"
    by (rule fs_next [OF fs_init step_unlink [OF _ run]]) simp
  from system_sound [OF this [unfolded demo_fs_def] demo_calloc demo_errors] run show ?thesis
    unfolding demo_fs_def by blast
qed

text \<open>
  C10: the operations that use a connection for one call, \<open>iFuseFsGetAttr\<close> among them, return
  whatever the server answers, and when they return every reference, every open file and every
  open directory is as it was: each error path gives the connection back.
\<close>

theorem short_ops_balanced:
  assumes "fs_inv s" and "calloc_ok e" and "conn_room s"
    and "f \<in> {iFuseFsUnlink e path, iFuseFsMakeDir e path, iFuseFsRemoveDir e path, iFuseFsRename e path path2,
              iFuseFsTruncate e path len, iFuseFsChmod e path mode, iFuseFsCreate e path mode}"
  shows "(\<exists>status s'. f s = Some (status, s') \<and> fs_inv s' \<and> conn_refs (conns (fds s')) = conn_refs (conns (fds s))
        \<and> fd_heap (fds s') = fd_heap (fds s) \<and> dir_heap (fds s') = dir_heap (fds s))
    \<and> (\<exists>answer s'. iFuseFsGetAttr e path s = Some (answer, s') \<and> fs_inv s'
        \<and> conn_refs (conns (fds s')) = conn_refs (conns (fds s))
        \<and> fd_heap (fds s') = fd_heap (fds s) \<and> dir_heap (fds s') = dir_heap (fds s))"
  using short_same [OF assms] GetAttr_same [OF assms(1-3), of path] fs_inv_same [OF assms(1)] fs_same_fields by blast

theorem short_ops_balanced_witness:
  "let s = demo_fs False 1 [0, 0, - 4000, - 4000, - 4000] in
     \<exists>st s1 st2 s2. iFuseFsTruncate demo_ext ''/z/d/a'' 3 s = Some (st, s1) \<and> conn_refs (conns (fds s1)) = conn_refs (conns (fds s))
       \<and> iFuseFsRename demo_ext ''/z/d/a'' ''/z/d/c'' s = Some (st2, s2) \<and> conn_refs (conns (fds s2)) = conn_refs (conns (fds s))"
proof -
  note bal = short_ops_balanced [of "demo_fs False 1 [0, 0, - 4000, - 4000, - 4000]" demo_ext _
      "''/z/d/a''" "''/z/d/c''" 3 0, OF fs_inv_demo demo_calloc demo_room]
  from bal [of "iFuseFsTruncate demo_ext ''/z/d/a'' 3"] bal [of "iFuseFsRename demo_ext ''/z/d/a'' ''/z/d/c''"]
  show ?thesis by (auto simp: Let_def)
qed

section \<open>Open files and directories\<close>

text \<open>
  C12: what opening a file leads to: no connection and nothing changed; an error with one
  connection left in use by nobody; or one more open file, with its path, flags and an unknown
  file position, and one more reference to its connection.
\<close>

theorem open_accounting:
  assumes "fs_inv s" and "calloc_ok e" and "error_codes_ok e" and "conn_room s"
    and "iFuseFsOpen e path fl s = Some ((status, fd), s')"
  shows "fs_inv s' \<and> (status = - EIO \<and> fd = None \<and> conn_refs (conns (fds s')) = conn_refs (conns (fds s))
        \<and> held (fds s') = held (fds s) \<and> fd_heap (fds s') = fd_heap (fds s) \<and> dir_heap (fds s') = dir_heap (fds s)
    \<or> status = - ENOENT \<and> fd = None \<and> held (fds s') = held (fds s)
        \<and> (\<exists>cp. conn_refs (conns (fds s')) = (conn_refs (conns (fds s)))(cp := conn_refs (conns (fds s)) cp + 1))
    \<or> status = 0 \<and> (\<exists>cp p d. fd = Some p \<and> fd_heap (fds s) p = None
        \<and> fd_heap (fds s') = (fd_heap (fds s))(p \<mapsto> d) \<and> fd_conn d = Some cp \<and> fd_iRodsPath d = path
        \<and> fd_openFlag d = fl \<and> fd_lastFilePointer d = - 1
        \<and> held (fds s') = (held (fds s))(cp := held (fds s) cp + 1)
        \<and> conn_refs (conns (fds s')) = (conn_refs (conns (fds s)))(cp := conn_refs (conns (fds s)) cp + 1)))"
  using Open_ok [OF assms] fs_inv_same [OF assms(1), of s'] fs_same_fields [of s s']
  unfolding open_leaks_def open_holds_def by blast

theorem open_accounting_witness:
  "\<exists>s' p. iFuseFsOpen demo_ext ''/z/d/a'' O_RDWR (demo_fs True 1 []) = Some ((0, Some p), s')
     \<and> dom (fd_heap (fds s')) = {p}"
proof -
  let ?run = "iFuseFsOpen demo_ext ''/z/d/a'' O_RDWR (demo_fs True 1 [])"
  have "map_option (\<lambda>((st, fd), _). st) ?run = Some 0" by code_simp
  then obtain fd s' where run: "?run = Some ((0, fd), s')" by auto
  from open_accounting [OF fs_inv_demo demo_calloc demo_errors demo_room this] run show ?thesis
    by (auto simp: demo_start)
qed

text \<open>
  A pool after a failed reconnection: one connection was taken, lost its server, and was given
  back without a handle.
\<close>

definition live_pool :: "demo conn_state" where
  "live_pool = conns (fds (demo_fs True 1 [0, 0, - 4000, - 4000]))"

definition used_pool :: "demo conn_state" where
  "used_pool = snd (the (iFuseConnGetAndUse demo_ext IFUSE_CONN_TYPE_FOR_FILE_IO live_pool))"

definition lost_pool :: "demo conn_state" where
  "lost_pool = snd (the (iFuseConnReconnect demo_ext 0 used_pool))"

definition dead_pool :: "demo conn_state" where
  "dead_pool = the (iFuseConnUnuse demo_ext 0 lost_pool)"

definition dead_fs :: "demo fs_state" where
  "dead_fs = (let s = demo_fs True 1 [0, 0, - 4000, - 4000] in s\<lparr>fds := (fds s)\<lparr>conns := dead_pool\<rparr>\<rparr>)"

lemma demo_login_answers [simp]: "login_answers demo_ext"
  by (simp add: login_answers_def demo_ext_def served_def Let_def split: list.split)

lemma live_pool_start: "conn_inv live_pool" "conn_heap live_pool = Map.empty" "g_ConnIDGen live_pool = 0"
  using fs_inv_D(3) [OF fs_inv_demo] by (simp_all add: live_pool_def demo_start)

lemma dead_pool_run:
  "pool_reachable demo_ext live_pool dead_pool" "conn_inv dead_pool" "rc_le (rcs live_pool) (rcs dead_pool)"
  "g_ConnIDGen dead_pool < - 1"
proof -
  have "map_option fst (iFuseConnGetAndUse demo_ext IFUSE_CONN_TYPE_FOR_FILE_IO live_pool) = Some (0, Some 0)" by code_simp
  note get = run_split [OF this, folded used_pool_def]
  from getAndUse_ok [of live_pool demo_ext IFUSE_CONN_TYPE_FOR_FILE_IO] get live_pool_start
  have used: "rc_le (rcs live_pool) (rcs used_pool)" "conn_inv used_pool" "conn_refs used_pool 0 = 1"
    "g_ConnIDGen used_pool = 0 \<or> g_ConnIDGen used_pool = 1"
    by (auto simp: get_ok_def word_gt_0 conn_refs_def heap_refs_def)
  then have dom: "0 \<in> dom (conn_heap used_pool)" using in_use_dom [of used_pool 0] by simp
  from reconnect_live [OF dom, of demo_ext] obtain st where
    re: "iFuseConnReconnect demo_ext 0 used_pool = Some (st, lost_pool)" "touch_ok used_pool lost_pool"
    by (auto simp: lost_pool_def)
  note lost = touch_okD [OF re(2)]
  have refs: "0 < conn_refs lost_pool 0" using used(3) lost(4) by simp
  from unuse_ok [OF lost(1) [OF used(2)] refs, of demo_ext] have
    un: "iFuseConnUnuse demo_ext 0 lost_pool = Some dead_pool" "rc_le (rcs lost_pool) (rcs dead_pool)"
      "g_ConnIDGen dead_pool = g_ConnIDGen lost_pool" "conn_inv dead_pool"
    by (auto simp: put_ok_def dead_pool_def)
  have "pool_step demo_ext live_pool used_pool" using step_get [OF get] live_pool_start by (simp add: word_gt_0)
  moreover have "pool_step demo_ext used_pool lost_pool" by (rule step_reconnect [OF dom re(1)])
  moreover have "pool_step demo_ext lost_pool dead_pool" by (rule step_unuse [OF refs un(1)])
  ultimately show "pool_reachable demo_ext live_pool dead_pool" by (blast intro: pool_reachable.intros)
  show "conn_inv dead_pool" by fact
  show "rc_le (rcs live_pool) (rcs dead_pool)" using used(1) lost(2) un(2) by (blast intro: rc_le_trans)
  have "(0 :: 64 word) < - 1" "(1 :: 64 word) < - 1" by (simp_all flip: word_order.not_eq_extremum)
  then show "g_ConnIDGen dead_pool < - 1" using used(4) lost(3) un(3) by metis
qed

lemma dead_fs_start: "conns (fds dead_fs) = dead_pool" "fs_inv dead_fs" "conn_room dead_fs"
proof -
  let ?d = "fds (demo_fs True 1 [0, 0, - 4000, - 4000])"
  show "conns (fds dead_fs) = dead_pool" by (simp add: dead_fs_def Let_def)
  then show "conn_room dead_fs" using dead_pool_run(4) by (simp add: conn_room_def)
  have "fd_inv (?d\<lparr>conns := dead_pool\<rparr>)"
    using dead_pool_run(2,3) conn_refs_nonneg [OF dead_pool_run(2)]
    by (intro fd_inv_conns fs_inv_D(1) [OF fs_inv_demo]) (simp_all add: live_pool_def held_def demo_start)
  then show "fs_inv dead_fs" using fs_inv_D(2) [OF fs_inv_demo] by (simp add: dead_fs_def Let_def fs_inv_def)
qed

text \<open>
  C29: an open aborts the program exactly when the pool hands out a connection that has no
  handle: nothing else makes one of its assertions fail. When logins and session tickets answer
  0 or an error, as documented, and every connection of the pool had its handle at some point
  of its history, then what happened since is a reconnection of that very connection which did
  not succeed.
\<close>

theorem open_aborts_iff:
  assumes "fs_inv s" and "calloc_ok e" and "conn_room s"
  shows "(iFuseFsOpen e path fl s = None \<longleftrightarrow>
      (\<exists>cp c. iFuseConnGetAndUse e (file_type s) (conns (fds s)) = Some ((0, Some cp), c) \<and> dead_conn c cp))
    \<and> (iFuseFsOpen e path fl s = None \<and> login_answers e \<and> pool_reachable e c0 (conns (fds s)) \<and> (\<forall>p. \<not> dead_conn c0 p) \<longrightarrow>
      (\<exists>cp c c1 st c2. iFuseConnGetAndUse e (file_type s) (conns (fds s)) = Some ((0, Some cp), c)
        \<and> pool_reachable e c0 c1 \<and> iFuseConnReconnect e cp c1 = Some (st, c2) \<and> st \<noteq> 0
        \<and> pool_reachable e c2 (conns (fds s))))"
proof (intro conjI impI)
  show iff: "iFuseFsOpen e path fl s = None \<longleftrightarrow>
      (\<exists>cp c. iFuseConnGetAndUse e (file_type s) (conns (fds s)) = Some ((0, Some cp), c) \<and> dead_conn c cp)"
    by (rule Open_aborts [OF assms])
  assume h: "iFuseFsOpen e path fl s = None \<and> login_answers e \<and> pool_reachable e c0 (conns (fds s)) \<and> (\<forall>p. \<not> dead_conn c0 p)"
  with iff have "\<exists>cp c. iFuseConnGetAndUse e (file_type s) (conns (fds s)) = Some ((0, Some cp), c) \<and> dead_conn c cp"
    by simp
  then obtain cp c where
    get: "iFuseConnGetAndUse e (file_type s) (conns (fds s)) = Some ((0, Some cp), c)" "dead_conn c cp"
    by (elim exE conjE)
  then have "dead_conn (conns (fds s)) cp" using get_handles [OF get(1)] h by (simp add: keeps_handles_def)
  with pool_handle_lost [of e c0 "conns (fds s)" cp] h get(1)
  show "\<exists>cp c c1 st c2. iFuseConnGetAndUse e (file_type s) (conns (fds s)) = Some ((0, Some cp), c)
        \<and> pool_reachable e c0 c1 \<and> iFuseConnReconnect e cp c1 = Some (st, c2) \<and> st \<noteq> 0
        \<and> pool_reachable e c2 (conns (fds s))" by blast
qed

theorem open_aborts_iff_witness:
  "iFuseFsOpen demo_ext ''/z/d/b'' O_RDONLY dead_fs = None
   \<and> (\<exists>cp c1 st c2. pool_reachable demo_ext live_pool c1 \<and> iFuseConnReconnect demo_ext cp c1 = Some (st, c2) \<and> st \<noteq> 0
        \<and> pool_reachable demo_ext c2 dead_pool)"
proof -
  let ?get = "iFuseConnGetAndUse demo_ext IFUSE_CONN_TYPE_FOR_FILE_IO dead_pool"
  have "map_option (\<lambda>((st, p), c). (st, p, map_option cn_conn (conn_heap c 0))) ?get = Some (0, Some 0, Some None)"
    by code_simp
  then obtain c where "?get = Some ((0, Some 0), c)" "dead_conn c 0" by (auto simp: dead_conn_def)
  moreover have "file_type dead_fs = IFUSE_CONN_TYPE_FOR_FILE_IO" by code_simp
  moreover note a = open_aborts_iff [OF dead_fs_start(2) demo_calloc dead_fs_start(3), of "''/z/d/b''" O_RDONLY live_pool,
      unfolded dead_fs_start(1)]
  ultimately have "iFuseFsOpen demo_ext ''/z/d/b'' O_RDONLY dead_fs = None" by metis
  with a dead_pool_run(1) live_pool_start(2) show ?thesis by (auto simp: dead_conn_def)
qed

text \<open>
  C28: when opening a file fails after a connection was taken for it, that connection is never
  given back: where every reference belonged to an open descriptor before, one belongs to
  nobody afterwards. Every other outcome keeps references and descriptors in balance.
\<close>

theorem failed_open_leaks:
  assumes "fs_inv s" and "calloc_ok e" and "error_codes_ok e" and "conn_room s" and "no_leak s"
    and "iFuseFsOpen e path fl s = Some ((status, fd), s')"
  shows "no_leak s' \<longleftrightarrow> status \<noteq> - ENOENT"
  using Open_ok [OF assms(1-4,6)] no_leak_same [of s s'] open_leaks_not [OF assms(5), of s']
    open_holds_no_leak [OF assms(5), of s'] assms(5) by auto

theorem failed_open_leaks_witness:
  "\<exists>fd s'. iFuseFsOpen demo_ext ''/z/d/x'' O_RDONLY (demo_fs True 1 []) = Some ((- ENOENT, fd), s')
     \<and> no_leak (demo_fs True 1 []) \<and> \<not> no_leak s'"
proof -
  let ?run = "iFuseFsOpen demo_ext ''/z/d/x'' O_RDONLY (demo_fs True 1 [])"
  have "map_option (\<lambda>((st, fd), _). st) ?run = Some (- ENOENT)" by code_simp
  then obtain fd s' where run: "?run = Some ((- ENOENT, fd), s')" by auto
  from failed_open_leaks [OF fs_inv_demo demo_calloc demo_errors demo_room demo_no_leak this] run show ?thesis
    by blast
qed

lemma fun_upd_back: "f p = None \<Longrightarrow> (f(p \<mapsto> d))(p := None) = f"
  by (simp add: fun_eq_iff)

text \<open>
  C11: closing an open file always succeeds, whatever the server answers, and closing what was
  just opened restores all references and the table of open files; likewise for directories.
\<close>

theorem open_close_roundtrip:
  assumes "fs_inv s" and "calloc_ok e" and "error_codes_ok e" and "conn_room s"
    and "iFuseFsOpen e path fl s = Some ((0, Some p), s1)"
    and "iFuseFsOpenDir e dir s = Some ((0, Some q), s2)"
  shows "(\<exists>s'. iFuseFsClose e p s1 = Some (0, s') \<and> fs_inv s' \<and> fd_heap (fds s') = fd_heap (fds s)
        \<and> held (fds s') = held (fds s) \<and> conn_refs (conns (fds s')) = conn_refs (conns (fds s)))
    \<and> (\<exists>s'. iFuseFsCloseDir e q s2 = Some (0, s') \<and> fs_inv s' \<and> dir_heap (fds s') = dir_heap (fds s)
        \<and> held (fds s') = held (fds s) \<and> conn_refs (conns (fds s')) = conn_refs (conns (fds s)))"
proof (rule conjI)
  from Open_ok [OF assms(1-5)] obtain cp d where
    o: "open_holds s s1 cp" "fd_heap (fds s) p = None" "fd_heap (fds s1) = (fd_heap (fds s))(p \<mapsto> d)" "fd_conn d = Some cp"
    by auto
  have "fs_inv s1" "fd_heap (fds s1) p = Some d" using o by (auto simp: open_holds_def)
  from Close_ok [OF this, of e] o(4) obtain s' where c: "iFuseFsClose e p s1 = Some (0, s')" "close_releases s1 s' cp"
    "fd_heap (fds s') = (fd_heap (fds s1))(p := None)" by auto
  then show "\<exists>s'. iFuseFsClose e p s1 = Some (0, s') \<and> fs_inv s' \<and> fd_heap (fds s') = fd_heap (fds s)
        \<and> held (fds s') = held (fds s) \<and> conn_refs (conns (fds s')) = conn_refs (conns (fds s))"
    using o by (auto simp: close_releases_def open_holds_def fun_upd_back)
next
  from OpenDir_ok [OF assms(1-4,6)] obtain d where
    o: "dir_heap (fds s) q = None" "dir_heap (fds s2) = (dir_heap (fds s))(q \<mapsto> d)"
      "case dd_conn d of
          Some cp \<Rightarrow> open_holds s s2 cp \<and> dd_cachedEntries d = None
        | None \<Rightarrow> fs_inv s2 \<and> held (fds s2) = held (fds s) \<and> conn_refs (conns (fds s2)) = conn_refs (conns (fds s))
            \<and> dd_cachedEntries d \<noteq> None"
    by (auto simp: dir_opened_def)
  have "fs_inv s2" "dir_heap (fds s2) q = Some d" using o by (auto simp: open_holds_def split: option.splits)
  from CloseDir_ok [OF this, of e] o obtain s' where c: "iFuseFsCloseDir e q s2 = Some (0, s')"
    "dir_heap (fds s') = (dir_heap (fds s2))(q := None)"
    "case dd_conn d of Some cp \<Rightarrow> close_releases s2 s' cp
       | None \<Rightarrow> fs_inv s' \<and> held (fds s') = held (fds s2) \<and> conn_refs (conns (fds s')) = conn_refs (conns (fds s2))" by blast
  then show "\<exists>s'. iFuseFsCloseDir e q s2 = Some (0, s') \<and> fs_inv s' \<and> dir_heap (fds s') = dir_heap (fds s)
        \<and> held (fds s') = held (fds s) \<and> conn_refs (conns (fds s')) = conn_refs (conns (fds s))"
    using o by (auto simp: close_releases_def open_holds_def fun_upd_back split: option.splits)
qed

theorem open_close_roundtrip_witness:
  "\<exists>p s1 s'. iFuseFsOpen demo_ext ''/z/d/a'' O_RDWR (demo_fs True 1 []) = Some ((0, Some p), s1)
     \<and> iFuseFsClose demo_ext p s1 = Some (0, s') \<and> no_leak s'"
proof -
  let ?run = "iFuseFsOpen demo_ext ''/z/d/a'' O_RDWR (demo_fs True 1 [])"
  let ?dir = "iFuseFsOpenDir demo_ext ''/z/d'' (demo_fs True 1 [])"
  have "map_option (\<lambda>((st, p), _). (st, p \<noteq> None)) ?run = Some (0, True)" by code_simp
  then obtain p s1 where run: "?run = Some ((0, Some p), s1)" by auto
  have "map_option (\<lambda>((st, p), _). (st, p \<noteq> None)) ?dir = Some (0, True)" by code_simp
  then obtain q s2 where dir: "?dir = Some ((0, Some q), s2)" by auto
  from open_close_roundtrip [OF fs_inv_demo demo_calloc demo_errors demo_room run dir] run
  show ?thesis using demo_no_leak [of True 1 "[]"] by (fastforce simp: no_leak_def)
qed

text \<open>
  C13: reading or writing an open file returns whatever the server answers to seeks and
  reconnections; a read aborts only when the server claims more bytes than were asked for or
  than it sent. Either way no reference and no other descriptor changes, nor does the open
  file but for its number's file position and lock.
\<close>

theorem read_write_live:
  assumes "fs_inv s" and "fd_heap (fds s) p = Some d"
  shows "(\<exists>st s'. iFuseFsWrite e p buf off s = Some (st, s') \<and> fs_inv s' \<and> conn_refs (conns (fds s')) = conn_refs (conns (fds s))
        \<and> (\<exists>n lk. fd_heap (fds s') = (fd_heap (fds s))(p \<mapsto> d\<lparr>fd_lastFilePointer := n, fd_lock := lk\<rparr>)))
    \<and> (case iFuseFsRead e p off sz s of
        Some ((st, data), s') \<Rightarrow> fs_inv s' \<and> conn_refs (conns (fds s')) = conn_refs (conns (fds s))
          \<and> (\<exists>n lk. fd_heap (fds s') = (fd_heap (fds s))(p \<mapsto> d\<lparr>fd_lastFilePointer := n, fd_lock := lk\<rparr>))
      | None \<Rightarrow> \<not> read_reply_ok e)"
proof -
  have io: "fs_inv s' \<and> conn_refs (conns (fds s')) = conn_refs (conns (fds s))
      \<and> (\<exists>n lk. fd_heap (fds s') = (fd_heap (fds s))(p \<mapsto> d\<lparr>fd_lastFilePointer := n, fd_lock := lk\<rparr>))"
    if io: "io_ok p s s'" for s'
  proof -
    obtain d' where d': "fd_same d d'" "fd_heap (fds s') = (fd_heap (fds s))(p \<mapsto> d')"
      using io assms(2) by (auto simp: io_ok_def)
    then have "d' = d\<lparr>fd_lastFilePointer := fd_lastFilePointer d', fd_lock := fd_lock d'\<rparr>"
      by (cases d; cases d') (simp add: fd_same_def)
    with d'(2) io_okD [OF io assms(1)] show ?thesis by metis
  qed
  from Write_live [OF assms, of e buf off] obtain st s' where w: "iFuseFsWrite e p buf off s = Some (st, s')" "io_ok p s s'"
    by auto
  from Read_live [OF assms, of e off sz] io have "case iFuseFsRead e p off sz s of
        Some ((st, data), s') \<Rightarrow> fs_inv s' \<and> conn_refs (conns (fds s')) = conn_refs (conns (fds s))
          \<and> (\<exists>n lk. fd_heap (fds s') = (fd_heap (fds s))(p \<mapsto> d\<lparr>fd_lastFilePointer := n, fd_lock := lk\<rparr>))
      | None \<Rightarrow> \<not> read_reply_ok e"
    by (cases "iFuseFsRead e p off sz s") auto
  with w(1) io [OF w(2)] show ?thesis by blast
qed

theorem read_write_live_witness:
  "\<exists>p s1 st s2. iFuseFsOpen demo_ext ''/z/d/a'' O_RDWR (demo_fs True 1 [0, 0, 0, - 4000, - 4000]) = Some ((0, Some p), s1)
     \<and> iFuseFsWrite demo_ext p ''hi'' 4 s1 = Some (st, s2)"
proof -
  let ?run = "iFuseFsOpen demo_ext ''/z/d/a'' O_RDWR (demo_fs True 1 [0, 0, 0, - 4000, - 4000])"
  have "map_option (\<lambda>((st, p), _). (st, p \<noteq> None)) ?run = Some (0, True)" by code_simp
  then obtain p s1 where run: "?run = Some ((0, Some p), s1)" by auto
  from Open_ok [OF fs_inv_demo demo_calloc demo_errors demo_room this]
  obtain d where "fs_inv s1" "fd_heap (fds s1) p = Some d" by (auto simp: open_holds_def)
  from read_write_live [OF this, of demo_ext "''hi''" 4 0] run show ?thesis by blast
qed

end
