(* ===== verification/Attr_Correct.thy ===== *)
theory Attr_Correct
  imports IFuse_Steps
begin

text \<open>
  How the file system operations and the metadata caches work together: when \<open>iFuseFsGetAttr\<close>
  answers without the server, and what removing and renaming leave in the caches.
\<close>

section \<open>Sweeping seen from a look-up\<close>

lemma put_lib_get [simp]: "put_lib (get_lib s) (s\<lparr>mcache := m\<rparr>) = s\<lparr>mcache := m\<rparr>"
  by (simp add: put_lib_def get_lib_def)

lemma get_lib_mcache [simp]: "get_lib (s\<lparr>mcache := m\<rparr>) = get_lib s"
  by (simp add: get_lib_def)

lemma ClearExpiredStat_view:
  assumes "clock_ok e clk" and "mc_ok m"
  shows "\<exists>x m'. iFuseMetadataCacheClearExpiredStat e force (l, m) = (x, (l, m')) \<and> mc_ok m'
    \<and> fresh_stat (clk (world l)) m' = fresh_stat (clk (world l)) m \<and> g_DirCacheMap m' = g_DirCacheMap m
    \<and> g_metadataCacheTimeoutSec m' = g_metadataCacheTimeoutSec m"
proof -
  from clearExpiredStat_find [OF assms, of l] obtain m1 where
    1: "clearExpiredStatCache e (l, m) = (0, (l, m1))" "mc_ok m1"
      "g_metadataCacheTimeoutSec m1 = g_metadataCacheTimeoutSec m" "g_DirCacheMap m1 = g_DirCacheMap m"
      "\<And>k. map_find (g_StatCacheMap m1) k = (case map_find (g_StatCacheMap m) k of
        Some (Some c) \<Rightarrow> if clk (world l) - sc_timestamp c \<le> g_metadataCacheTimeoutSec m
                        then Some (Some c) else None | _ \<Rightarrow> None)" by blast
  have "fresh_stat (clk (world l)) (m1\<lparr>g_LastStatCacheTimeoutCheck := t\<rparr>) = fresh_stat (clk (world l)) m" for t
    using 1(3,5) by (auto simp: fresh_stat_def fun_eq_iff split: option.split)
  with 1 assms show ?thesis
    by (simp add: iFuseMetadataCacheClearExpiredStat_def Let_def time_clk mc_ok_other_fields)
qed

lemma ClearExpiredDir_view:
  assumes "clock_ok e clk" and "mc_ok m"
  shows "\<exists>x m'. iFuseMetadataCacheClearExpiredDir e force (l, m) = (x, (l, m')) \<and> mc_ok m'
    \<and> fresh_listing (clk (world l)) m' = fresh_listing (clk (world l)) m \<and> g_StatCacheMap m' = g_StatCacheMap m
    \<and> g_metadataCacheTimeoutSec m' = g_metadataCacheTimeoutSec m"
proof -
  from clearExpiredDir_find [OF assms, of l] obtain m1 where
    1: "clearExpiredDirCache e (l, m) = (0, (l, m1))" "mc_ok m1"
      "g_metadataCacheTimeoutSec m1 = g_metadataCacheTimeoutSec m" "g_StatCacheMap m1 = g_StatCacheMap m"
      "\<And>k. map_find (g_DirCacheMap m1) k = (case map_find (g_DirCacheMap m) k of
        Some (Some c) \<Rightarrow> if clk (world l) - dc_timestamp c \<le> g_metadataCacheTimeoutSec m
                        then Some (Some c) else None | _ \<Rightarrow> None)" by blast
  have "fresh_listing (clk (world l)) (m1\<lparr>g_LastDirCacheTimeoutCheck := t\<rparr>) = fresh_listing (clk (world l)) m" for t
    using 1(3,5) by (auto simp: fresh_listing_def fun_eq_iff split: option.split)
  with 1 assms show ?thesis
    by (simp add: iFuseMetadataCacheClearExpiredDir_def Let_def time_clk mc_ok_other_fields)
qed

lemma fresh_listing_Some: "fresh_listing now m k = Some ns \<Longrightarrow> listing m k = Some ns"
  by (auto simp: fresh_listing_def listing_def split: option.splits if_splits)

lemma fresh_stat_cong:
  "g_StatCacheMap m' = g_StatCacheMap m \<Longrightarrow> g_metadataCacheTimeoutSec m' = g_metadataCacheTimeoutSec m
    \<Longrightarrow> fresh_stat now m' = fresh_stat now m"
  by (auto simp: fresh_stat_def fun_eq_iff split: option.split)

lemma fresh_listing_cong:
  "g_DirCacheMap m' = g_DirCacheMap m \<Longrightarrow> g_metadataCacheTimeoutSec m' = g_metadataCacheTimeoutSec m
    \<Longrightarrow> fresh_listing now m' = fresh_listing now m"
  by (auto simp: fresh_listing_def fun_eq_iff split: option.split)

section \<open>Attributes from the caches\<close>

lemma getattr_hit:
  assumes clk: "clock_ok e clk" and ok: "mc_ok (mcache s)" and on: "g_CacheMetadata s"
    and st: "fresh_stat (clk (world (get_lib s))) (mcache s) path = Some st"
  shows "\<exists>m. iFuseFsGetAttr e path s = Some ((0, Some st), s\<lparr>mcache := m\<rparr>)"
proof -
  from ClearExpiredStat_view [OF clk ok, of False "get_lib s"] obtain x m1 where
    1: "iFuseMetadataCacheClearExpiredStat e False (get_lib s, mcache s) = (x, (get_lib s, m1))" "mc_ok m1"
      "fresh_stat (clk (world (get_lib s))) m1 path = Some st" using st by auto
  then show ?thesis
    using on getStat_fresh [OF clk 1(2), of path "get_lib s"]
    by (auto simp: iFuseFsGetAttr_def getattr_cached_def onMc_def onMcO_def iFuseMetadataCacheGetStat_def)
qed

lemma getattr_absent:
  assumes clk: "clock_ok e clk" and ok: "mc_ok (mcache s)" and on: "g_CacheMetadata s" and r: "rstrcpy_ok e"
    and path: "dir_path d" "file_name f" "length (path_of d f) < MAX_NAME_LEN e"
    and st: "fresh_stat (clk (world (get_lib s))) (mcache s) (path_of d f) = None"
    and ns: "fresh_listing (clk (world (get_lib s))) (mcache s) d = Some ns" "f \<notin> set ns"
  shows "\<exists>m. iFuseFsGetAttr e (path_of d f) s = Some ((- ENOENT, None), s\<lparr>mcache := m\<rparr>)"
proof -
  let ?l = "get_lib s"
  from ClearExpiredStat_view [OF clk ok, of False ?l] obtain x m1 where
    1: "iFuseMetadataCacheClearExpiredStat e False (?l, mcache s) = (x, (?l, m1))" "mc_ok m1"
      "fresh_stat (clk (world ?l)) m1 (path_of d f) = None" "g_DirCacheMap m1 = g_DirCacheMap (mcache s)"
      "g_metadataCacheTimeoutSec m1 = g_metadataCacheTimeoutSec (mcache s)"
    using st by auto
  have ns1: "fresh_listing (clk (world ?l)) m1 d = Some ns" using ns(1) fresh_listing_cong [OF 1(4,5)] by simp
  from ClearExpiredDir_view [OF clk 1(2), of False ?l] obtain y m2 where
    2: "iFuseMetadataCacheClearExpiredDir e False (?l, m1) = (y, (?l, m2))"
      "fresh_listing (clk (world ?l)) m2 = fresh_listing (clk (world ?l)) m1" by blast
  have l2: "listing m2 d = Some ns" using fresh_listing_Some [of "clk (world ?l)" m2 d ns] ns1 2(2) by simp
  have len: "length d < MAX_NAME_LEN e" "length f < MAX_NAME_LEN e"
    using path by (auto simp: path_of_def file_name_def split: if_splits)
  show ?thesis
    using on 1 2(1) l2 ns(2) getStat_fresh [OF clk 1(2), of "path_of d f" ?l] split_path [OF r path(1,2) len]
    by (auto simp: iFuseFsGetAttr_def getattr_cached_def onMc_def onMcO_def iFuseMetadataCacheGetStat_def
        iFuseMetadataCacheCheckExistanceOfDirEntry_def checkExistance_listing)
qed

text \<open>
  C14: with the caches on, a path with an unexpired stat is answered from it, and a path that
  an unexpired listing of its directory does not name is answered \<open>ENOENT\<close>; in both cases the
  server is not contacted, no connection is taken, and nothing but the caches' own bookkeeping
  changes.
\<close>

theorem getattr_from_cache:
  assumes "clock_ok e clk" and "fs_inv s" and "g_CacheMetadata s" and "rstrcpy_ok e"
    and "dir_path d" and "file_name f" and "length (path_of d f) < MAX_NAME_LEN e"
  shows "case fresh_stat (clk (world (get_lib s))) (mcache s) (path_of d f) of
      Some st \<Rightarrow> \<exists>m. iFuseFsGetAttr e (path_of d f) s = Some ((0, Some st), s\<lparr>mcache := m\<rparr>)
    | None \<Rightarrow> (\<exists>ns. fresh_listing (clk (world (get_lib s))) (mcache s) d = Some ns \<and> f \<notin> set ns) \<longrightarrow>
        (\<exists>m. iFuseFsGetAttr e (path_of d f) s = Some ((- ENOENT, None), s\<lparr>mcache := m\<rparr>))"
  using getattr_hit [OF assms(1) fs_inv_D(2) [OF assms(2)] assms(3)]
    getattr_absent [OF assms(1) fs_inv_D(2) [OF assms(2)] assms(3-7)]
  by (auto split: option.split)

text \<open>The small server's client with the listing of \<open>/z/d\<close> and the stat of one of its files cached.\<close>

definition cached_fs :: "demo fs_state" where
  "cached_fs = (demo_fs True 1 [])\<lparr>mcache := mc_start\<lparr>
     g_StatCacheMap := [(''/z/d/a'', Some \<lparr>sc_iRodsPath = Some ''/z/d/a'', sc_stbuf = Some zero_stat, sc_timestamp = 990\<rparr>)],
     g_DirCacheMap := [(''/z/d'', Some \<lparr>dc_iRodsPath = Some ''/z/d'', dc_entries = [''a'', ''b''], dc_timestamp = 990\<rparr>)]\<rparr>\<rparr>"

lemma fs_inv_cached: "fs_inv cached_fs"
  using fs_inv_demo [of True 1 "[]"]
  by (simp add: fs_inv_def cached_fs_def mc_ok_def map_ok_def mc_start_def stat_entry_ok_def dir_entry_ok_def)

lemma cached_fs_fields:
  "g_CacheMetadata cached_fs" "conn_room cached_fs" "dm_clock (world (get_lib cached_fs)) = 1000"
  "fresh_stat 1000 (mcache cached_fs) = [''/z/d/a'' \<mapsto> zero_stat]"
  "fresh_listing 1000 (mcache cached_fs) = [''/z/d'' \<mapsto> [''a'', ''b'']]"
proof -
  show "g_CacheMetadata cached_fs" by (simp add: cached_fs_def demo_start)
  show "conn_room cached_fs" using demo_room [of True 1 "[]"] by (simp add: cached_fs_def conn_room_def)
  show "dm_clock (world (get_lib cached_fs)) = 1000" by code_simp
  show "fresh_stat 1000 (mcache cached_fs) = [''/z/d/a'' \<mapsto> zero_stat]"
    "fresh_listing 1000 (mcache cached_fs) = [''/z/d'' \<mapsto> [''a'', ''b'']]"
    by (simp_all add: fun_eq_iff cached_fs_def mc_start_def fresh_stat_def fresh_listing_def
        IFUSE_METADATA_CACHE_TIMEOUT_SEC_def)
qed

theorem getattr_from_cache_witness:
  "\<exists>m m'. iFuseFsGetAttr demo_ext ''/z/d/a'' cached_fs = Some ((0, Some zero_stat), cached_fs\<lparr>mcache := m\<rparr>)
     \<and> iFuseFsGetAttr demo_ext ''/z/d/x'' cached_fs = Some ((- ENOENT, None), cached_fs\<lparr>mcache := m'\<rparr>)"
proof -
  have p: "path_of ''/z/d'' ''a'' = ''/z/d/a''" "path_of ''/z/d'' ''x'' = ''/z/d/x''" "dir_path ''/z/d''"
    "file_name ''a''" "file_name ''x''"
    by (simp_all add: path_of_def dir_path_def file_name_def)
  note g = getattr_from_cache [OF demo_clock fs_inv_cached cached_fs_fields(1) demo_rstrcpy p(3)]
  from g [OF p(4)] g [OF p(5)] show ?thesis by (simp add: p cached_fs_fields)
qed

section \<open>Removing and renaming\<close>

lemma removeDirCacheEntry_timeout: "g_metadataCacheTimeoutSec (snd (removeDirCacheEntry k n m)) = g_metadataCacheTimeoutSec m"
  by (simp add: removeDirCacheEntry_def split: option.split)

lemma RemoveDirEntry2_stat:
  assumes "mc_ok m"
  shows "fresh_stat now (snd (iFuseMetadataCacheRemoveDirEntry2 e k m)) = fresh_stat now m"
  by (rule fresh_stat_cong)
    (auto simp: iFuseMetadataCacheRemoveDirEntry2_def removeDirCacheEntry_timeout
      removeDirCacheEntry_listing(1) [OF assms surjective_pairing] split: prod.split option.split)

lemma RemoveDir_stat: "fresh_stat now (snd (iFuseMetadataCacheRemoveDir k m)) = fresh_stat now m"
  by (rule fresh_stat_cong) (simp_all add: iFuseMetadataCacheRemoveDir_def removeDirCache_def)

lemma newDirCache_nothing: "cacheDirEntry e k n (l, m) = (x, (l', m')) \<Longrightarrow>
    g_StatCacheMap m' = g_StatCacheMap m \<and> g_metadataCacheTimeoutSec m' = g_metadataCacheTimeoutSec m"
  by (auto simp: cacheDirEntry_def dir_cache_for_def Let_def split: prod.splits option.splits if_splits)

lemma AddFresh2_stat:
  "fresh_stat now (mcache (snd (onMc (iFuseMetadataCacheAddDirEntryIfFresh2 e k) s))) = fresh_stat now (mcache s)"
proof -
  obtain x l m where r: "iFuseMetadataCacheAddDirEntryIfFresh2 e k (get_lib s, mcache s) = (x, (l, m))" by (metis prod.exhaust)
  then have "g_StatCacheMap m = g_StatCacheMap (mcache s) \<and> g_metadataCacheTimeoutSec m = g_metadataCacheTimeoutSec (mcache s)"
    by (auto simp: iFuseMetadataCacheAddDirEntryIfFresh2_def checkFreshessOfDirCache_def Let_def
        split: prod.splits option.splits if_splits dest!: newDirCache_nothing)
  with r fresh_stat_cong [of m "mcache s"] show ?thesis by (simp add: onMc_def put_lib_def)
qed

lemma RemoveStat_stat: "mc_ok m \<Longrightarrow> fresh_stat now (snd (iFuseMetadataCacheRemoveStat k m)) = (fresh_stat now m)(k := None)"
  by (simp add: iFuseMetadataCacheRemoveStat_def removeStatCache_fresh)

lemma removals_mc_ok [simp]:
  "mc_ok m \<Longrightarrow> mc_ok (snd (iFuseMetadataCacheRemoveStat k m))"
  "mc_ok m \<Longrightarrow> mc_ok (snd (iFuseMetadataCacheRemoveDir k m))"
  by (simp_all add: iFuseMetadataCacheRemoveStat_def iFuseMetadataCacheRemoveDir_def removeStatCache_ok removeDirCache_ok)

lemma mcache_onMcP [simp]: "mcache (onMcP f s) = snd (f (mcache s))"
  by (simp add: onMcP_def)

lemma zero_or_enoent_cases: "zero_or_enoent out \<in> {- ENOENT, 0}"
  by (cases out) (simp_all add: zero_or_enoent_def)

text \<open>
  C15: removing a file returns with one of three statuses. When it succeeds the caches have
  forgotten the file, its stat and its first mention in the listing of its directory, and
  nothing else; when it fails they are untouched.
\<close>

theorem unlink_forgets:
  assumes "fs_inv s" and "calloc_ok e" and "conn_room s" and "g_CacheMetadata s" and "rstrcpy_ok e"
    and "dir_path d" and "file_name f" and "length (path_of d f) < MAX_NAME_LEN e"
  shows "\<exists>status s'. iFuseFsUnlink e (path_of d f) s = Some (status, s') \<and> fs_inv s'
    \<and> (status \<in> {- EIO, - ENOENT} \<and> mcache s' = mcache s
      \<or> status = 0 \<and> (\<forall>now. fresh_stat now (mcache s') = (fresh_stat now (mcache s))(path_of d f := None))
          \<and> listing (mcache s') = (listing (mcache s))(d := map_option (remove1 f) (listing (mcache s) d)))"
proof -
  let ?p = "path_of d f"
  let ?after = "\<lambda>s. onMcP (iFuseMetadataCacheRemoveDirEntry2 e ?p) (onMcP (iFuseMetadataCacheRemoveStat ?p) s)"
  have "\<exists>status s1. iFuseFsUnlink e ?p s = Some (status, if status < 0 \<or> \<not> g_CacheMetadata s then s1 else ?after s1)
    \<and> fs_same s s1 \<and> mcache s1 = mcache s
    \<and> (status = - EIO \<or> (\<exists>out. status = zero_or_enoent out \<and> (\<forall>r. out = Call_ok r \<longrightarrow> \<not> r < 0)))"
    unfolding iFuseFsUnlink_def by (rule short_op_effect [OF assms(1-3)]) (rule rc_wrapper_le)
  then obtain status s1 where
    r: "iFuseFsUnlink e ?p s = Some (status, if status < 0 \<or> \<not> g_CacheMetadata s then s1 else ?after s1)"
      "fs_same s s1" "mcache s1 = mcache s" and out: "status = - EIO \<or> (\<exists>out. status = zero_or_enoent out)"
    by blast
  have st: "status \<in> {- EIO, - ENOENT, 0}" using out zero_or_enoent_cases by blast
  have ok: "mc_ok (mcache s)" using assms(1) by (rule fs_inv_D)
  have len: "length d < MAX_NAME_LEN e" "length f < MAX_NAME_LEN e"
    using assms(7,8) by (auto simp: path_of_def file_name_def split: if_splits)
  let ?m1 = "snd (iFuseMetadataCacheRemoveStat ?p (mcache s))"
  have list1: "listing ?m1 = listing (mcache s)"
    by (simp add: listing_def fun_eq_iff iFuseMetadataCacheRemoveStat_def removeStatCache_def)
  have rem: "iFuseMetadataCacheRemoveDirEntry2 e ?p ?m1 = removeDirCacheEntry d f ?m1"
    using split_path [OF assms(5-7) len] by (simp add: iFuseMetadataCacheRemoveDirEntry2_def)
  have "listing (mcache (?after s1)) = (listing (mcache s))(d := map_option (remove1 f) (listing (mcache s) d))"
    using removeDirCacheEntry_listing(2) [OF removals_mc_ok(1) [OF ok, of ?p] surjective_pairing, of d f]
    by (simp add: r(3) rem list1)
  moreover have "fresh_stat now (mcache (?after s1)) = (fresh_stat now (mcache s))(?p := None)" for now
    using RemoveDirEntry2_stat [OF removals_mc_ok(1) [OF ok, of ?p], of now e ?p] RemoveStat_stat [OF ok, of now ?p]
    by (simp add: r(3))
  moreover have "fs_inv s1" using assms(1) r(2) by (rule fs_inv_same)
  moreover have "fs_touch s1 (?after s1)" by (intro cache_touch fs_touch_refl)
  ultimately show ?thesis
    using r st assms(4) fs_touch_inv [of s1 "?after s1"] by (cases "status < 0") auto
qed

theorem unlink_forgets_witness:
  "\<exists>s'. iFuseFsUnlink demo_ext ''/z/d/a'' cached_fs = Some (0, s') \<and> fresh_stat 1000 (mcache s') ''/z/d/a'' = None
     \<and> listing (mcache s') ''/z/d'' = Some [''b'']"
proof -
  have p: "path_of ''/z/d'' ''a'' = ''/z/d/a''" "dir_path ''/z/d''" "file_name ''a''"
    by (simp_all add: path_of_def dir_path_def file_name_def)
  have st: "map_option fst (iFuseFsUnlink demo_ext ''/z/d/a'' cached_fs) = Some 0" by code_simp
  have "listing (mcache cached_fs) ''/z/d'' = Some [''a'', ''b'']" by code_simp
  with unlink_forgets [OF fs_inv_cached demo_calloc cached_fs_fields(2,1) demo_rstrcpy p(2,3)] st
  show ?thesis by (auto simp: p(1))
qed

text \<open>
  C30: renaming a directory forgets the stats of the two paths it is given and of no other: a
  path below the old name keeps its stat, and until that expires \<open>iFuseFsGetAttr\<close> goes on
  answering that the path exists, without asking the server.
\<close>

theorem rename_leaves_stale:
  assumes "fs_inv s" and "calloc_ok e" and "conn_room s" and "g_CacheMetadata s" and "clock_ok e clk"
  shows "\<exists>status s'. iFuseFsRename e src dst s = Some (status, s') \<and> fs_inv s' \<and> (status = 0 \<longrightarrow>
      (\<forall>now. fresh_stat now (mcache s') = (fresh_stat now (mcache s))(src := None, dst := None))
    \<and> (\<forall>below st. below \<notin> {src, dst} \<and> fresh_stat (clk (world (get_lib s'))) (mcache s) below = Some st
        \<longrightarrow> (\<exists>m. iFuseFsGetAttr e below s' = Some ((0, Some st), s'\<lparr>mcache := m\<rparr>))))"
proof -
  let ?drop = "\<lambda>s. onMcP (iFuseMetadataCacheRemoveDirEntry2 e src)
                (onMcP (iFuseMetadataCacheRemoveDir dst)
                  (onMcP (iFuseMetadataCacheRemoveDir src)
                    (onMcP (iFuseMetadataCacheRemoveStat dst)
                      (onMcP (iFuseMetadataCacheRemoveStat src) s))))"
  let ?after = "\<lambda>s. snd (onMc (iFuseMetadataCacheAddDirEntryIfFresh2 e dst) (?drop s))"
  have "\<exists>status s1. iFuseFsRename e src dst s = Some (status, if status < 0 \<or> \<not> g_CacheMetadata s then s1 else ?after s1)
    \<and> fs_same s s1 \<and> mcache s1 = mcache s
    \<and> (status = - EIO \<or> (\<exists>out. status = zero_or_enoent out \<and> (\<forall>r. out = Call_ok r \<longrightarrow> \<not> r < 0)))"
    unfolding iFuseFsRename_def by (rule short_op_effect [OF assms(1-3)]) (rule rc_wrapper_le)
  then obtain status s1 where
    r: "iFuseFsRename e src dst s = Some (status, if status < 0 \<or> \<not> g_CacheMetadata s then s1 else ?after s1)"
      "fs_same s s1" "mcache s1 = mcache s" by blast
  have i1: "fs_inv s1" using assms(1) r(2) by (rule fs_inv_same)
  have ok: "mc_ok (mcache s)" using assms(1) by (rule fs_inv_D)
  have fresh: "fresh_stat now (mcache (?after s1)) = (fresh_stat now (mcache s))(src := None, dst := None)" for now
    by (simp add: AddFresh2_stat RemoveDirEntry2_stat RemoveDir_stat RemoveStat_stat ok r(3))
  have "fs_touch s1 (?after s1)" by (intro cache_touch fs_touch_refl)
  note t = fs_touch_inv [OF this i1] fs_touch_fields(1) [OF this]
  have on: "g_CacheMetadata (?after s1)" using t(2) fs_same_fields(1) [OF r(2)] assms(4) by simp
  from r(1) t(1) i1 fresh getattr_hit [OF assms(5) fs_inv_D(2) [OF t(1)] on] assms(4) show ?thesis by auto
qed

lemma cacheDirEntry_clk:
  assumes "clock_ok e clk" and "cacheDirEntry e d n (l, m) = (x, (l', m'))"
  shows "clk (world l') = clk (world l)"
  using assms(2)
  by (auto simp: cacheDirEntry_def dir_cache_for_def newDirCache_def Let_def time_clk [OF assms(1)]
      split: prod.splits option.splits if_splits dest!: mem_ok_clk [OF assms(1)])

lemma AddFresh2_clk:
  assumes "clock_ok e clk"
  shows "clk (world (get_lib (snd (onMc (iFuseMetadataCacheAddDirEntryIfFresh2 e k) s)))) = clk (world (get_lib s))"
  using checkFresh_fresh [OF assms]
  by (auto simp: onMc_def iFuseMetadataCacheAddDirEntryIfFresh2_def put_lib_def get_lib_def
      split: prod.splits option.splits dest!: cacheDirEntry_clk [OF assms])

lemma get_lib_onMcP [simp]: "get_lib (onMcP f s) = get_lib s"
  by (simp add: onMcP_def)

lemma cache_on_onMcP [simp]: "g_CacheMetadata (onMcP f s) = g_CacheMetadata s"
  by (simp add: onMcP_def)

theorem rename_leaves_stale_witness:
  "\<exists>s' m. iFuseFsRename demo_ext ''/z/d'' ''/z/e'' cached_fs = Some (0, s')
     \<and> iFuseFsGetAttr demo_ext ''/z/d/a'' s' = Some ((0, Some zero_stat), s'\<lparr>mcache := m\<rparr>)"
proof -
  let ?call = "\<lambda>conn. iFuseRodsClientDataObjRename demo_ext conn (obj_path demo_ext ''/z/d'') (obj_path demo_ext ''/z/e'')"
  let ?run = "with_conn demo_ext IFUSE_CONN_TYPE_FOR_SHORTOP (\<lambda>p. onC (call_retry demo_ext True (\<lambda>st. st < 0) id ?call p)) cached_fs"
  have "map_option (\<lambda>(r, s1). (r, dm_clock (world (get_lib s1)))) ?run = Some (Some (Call_ok (0::int)), 1000)"
    by code_simp
  then obtain s1 where s1: "?run = Some (Some (Call_ok 0), s1)" "dm_clock (world (get_lib s1)) = 1000" by auto
  from rename_leaves_stale [OF fs_inv_cached demo_calloc cached_fs_fields(2,1) demo_clock, of "''/z/d''" "''/z/e''"]
  obtain status s' where s': "iFuseFsRename demo_ext ''/z/d'' ''/z/e'' cached_fs = Some (status, s')" and
    stale: "status = 0 \<longrightarrow> (\<forall>below st. below \<notin> {''/z/d'', ''/z/e''}
        \<and> fresh_stat (dm_clock (world (get_lib s'))) (mcache cached_fs) below = Some st
        \<longrightarrow> (\<exists>m. iFuseFsGetAttr demo_ext below s' = Some ((0, Some st), s'\<lparr>mcache := m\<rparr>)))" by blast
  have "status = 0 \<and> dm_clock (world (get_lib s')) = 1000"
    using s' s1
    by (auto simp: iFuseFsRename_def short_op_def zero_or_enoent_def AddFresh2_clk [OF demo_clock] split: if_splits)
  with stale s' show ?thesis by (auto simp: cached_fs_fields)
qed

end
