(* ===== verification/IFuse_Content.thy ===== *)
theory IFuse_Content
  imports IFuse_Steps
begin

text \<open>
  What reading and writing an open file mean for the bytes on the server: the documented
  behaviour of the seek, read and write calls as a named hypothesis, and that \<open>iFuseFsRead\<close> and
  \<open>iFuseFsWrite\<close>, when they report success, read and write exactly at the offset they were
  given. The interface \<open>byte_store\<close> states that for the layers above.
\<close>

section \<open>What the client relies on\<close>

text \<open>
  \<open>cont w h n\<close> is what the descriptor \<open>n\<close> opened over the connection \<open>h\<close> holds in the world \<open>w\<close>:
  the bytes of its data object and its file position. A call on anything else fails; a new
  connection has no descriptors, and neither logging in nor a ticket opens any. A write that
  succeeds is complete.
\<close>

type_synonym 'w files = "'w \<Rightarrow> nat \<Rightarrow> int \<Rightarrow> (bytes \<times> nat) option"

definition quiet_calls :: "'w ext \<Rightarrow> 'w files \<Rightarrow> bool" where
  "quiet_calls e cont \<longleftrightarrow> SYS_MALLOC_ERR e < 0
     \<and> (\<forall>w. cont (snd (c_time e w)) = cont w \<and> cont (snd (c_calloc e w)) = cont w)"

definition lseek_contract :: "'w ext \<Rightarrow> 'w files \<Rightarrow> bool" where
  "lseek_contract e cont \<longleftrightarrow>
     (\<forall>conn n off w st out w'. rcDataObjLseek e conn n off w = ((st, out), w') \<longrightarrow> 0 \<le> st \<longrightarrow>
        (\<exists>h data old pos. conn = Some h \<and> out = Some pos \<and> cont w h n = Some (data, old)
           \<and> cont w' h n = Some (data, nat pos)))"

definition read_contract :: "'w ext \<Rightarrow> 'w files \<Rightarrow> bool" where
  "read_contract e cont \<longleftrightarrow>
     (\<forall>conn n len w st buf w'. rcDataObjRead e conn n len w = ((st, buf), w') \<longrightarrow> 0 \<le> st \<longrightarrow>
        (\<exists>h data pos. conn = Some h \<and> cont w h n = Some (data, pos)
           \<and> st = int (length (take len (drop pos data))) \<and> take (nat st) buf = take len (drop pos data)
           \<and> cont w' h n = Some (data, pos + nat st)))"

definition write_contract :: "'w ext \<Rightarrow> 'w files \<Rightarrow> bool" where
  "write_contract e cont \<longleftrightarrow>
     (\<forall>conn n buf w st w'. rcDataObjWrite e conn n buf w = (st, w') \<longrightarrow> 0 \<le> st \<longrightarrow>
        (\<exists>h data pos. conn = Some h \<and> cont w h n = Some (data, pos) \<and> st = int (length buf)
           \<and> cont w' h n = Some (overlay data pos buf, pos + length buf)))"

definition connect_contract :: "'w ext \<Rightarrow> 'w files \<Rightarrow> bool" where
  "connect_contract e cont \<longleftrightarrow>
     (\<forall>env w h st w' n. rcConnect e env w = ((Some h, st), w') \<longrightarrow> cont w' h n = None)
     \<and> (\<forall>h w n. cont w h n = None \<longrightarrow> cont (snd (clientLogin e (Some h) w)) h n = None)
     \<and> (\<forall>h t w n. cont w h n = None \<longrightarrow> cont (snd (rcTicketAdmin e (Some h) t w)) h n = None)"

definition file_contract :: "'w ext \<Rightarrow> 'w files \<Rightarrow> bool" where
  "file_contract e cont \<longleftrightarrow> quiet_calls e cont \<and> lseek_contract e cont \<and> read_contract e cont
     \<and> write_contract e cont \<and> connect_contract e cont"

abbreviation rc_world :: "'w rc_state \<Rightarrow> 'w" where
  "rc_world r \<equiv> world (lib r)"

abbreviation pool_world :: "'w conn_state \<Rightarrow> 'w" where
  "pool_world c \<equiv> world (lib (rcs c))"

lemma contract_quiet:
  assumes "file_contract e cont"
  shows "cont (snd (c_time e w)) = cont w" "cont (snd (c_calloc e w)) = cont w" "SYS_MALLOC_ERR e < 0"
  using assms by (simp_all add: file_contract_def quiet_calls_def)

lemma contract_lseek:
  assumes "file_contract e cont" and "rcDataObjLseek e conn n off w = ((st, out), w')" and "0 \<le> st"
  shows "\<exists>h data old pos. conn = Some h \<and> out = Some pos \<and> cont w h n = Some (data, old) \<and> cont w' h n = Some (data, nat pos)"
proof -
  from assms(1) have "lseek_contract e cont" by (simp add: file_contract_def)
  from this [unfolded lseek_contract_def, rule_format, OF assms(2,3)] show ?thesis .
qed

lemma contract_read:
  assumes "file_contract e cont" and "rcDataObjRead e conn n len w = ((st, buf), w')" and "0 \<le> st"
  shows "\<exists>h data pos. conn = Some h \<and> cont w h n = Some (data, pos)
     \<and> st = int (length (take len (drop pos data))) \<and> take (nat st) buf = take len (drop pos data)
     \<and> cont w' h n = Some (data, pos + nat st)"
proof -
  from assms(1) have "read_contract e cont" by (simp add: file_contract_def)
  from this [unfolded read_contract_def, rule_format, OF assms(2,3)] show ?thesis .
qed

lemma contract_write:
  assumes "file_contract e cont" and "rcDataObjWrite e conn n buf w = (st, w')" and "0 \<le> st"
  shows "\<exists>h data pos. conn = Some h \<and> cont w h n = Some (data, pos) \<and> st = int (length buf)
     \<and> cont w' h n = Some (overlay data pos buf, pos + length buf)"
proof -
  from assms(1) have "write_contract e cont" by (simp add: file_contract_def)
  from this [unfolded write_contract_def, rule_format, OF assms(2,3)] show ?thesis .
qed

lemma contract_fresh:
  assumes "file_contract e cont"
  shows "rcConnect e env w = ((Some h, st), w') \<Longrightarrow> cont w' h n = None"
    "cont w h n = None \<Longrightarrow> clientLogin e (Some h) w = (st, w') \<Longrightarrow> cont w' h n = None"
    "cont w h n = None \<Longrightarrow> rcTicketAdmin e (Some h) t w = (st, w') \<Longrightarrow> cont w' h n = None"
  using assms unfolding file_contract_def connect_contract_def by (metis snd_conv)+

lemma quiet_time:
  assumes "file_contract e cont" and "onLib (iFuseLibGetCurrentTime e) r = (x, r')"
  shows "cont (rc_world r') = cont (rc_world r)"
  using assms(2) contract_quiet(1) [OF assms(1), of "rc_world r"]
  by (auto simp: onLib_def iFuseLibGetCurrentTime_def split: prod.splits)

lemma quiet_malloc:
  assumes "file_contract e cont" and "onLib (malloc_ptr e) r = (x, r')"
  shows "cont (rc_world r') = cont (rc_world r)"
  using assms(2) contract_quiet(2) [OF assms(1), of "rc_world r"]
  by (auto simp: onLib_def malloc_ptr_def mem_ok_def Let_def split: prod.splits if_splits)

lemma quiet_pool_time:
  assumes "file_contract e cont" and "currentTime e c = (x, c')"
  shows "cont (pool_world c') = cont (pool_world c)" "conn_heap c' = conn_heap c"
  using assms(2) quiet_time [OF assms(1), of "rcs c"]
  by (auto simp: currentTime_def onRc_def split: prod.splits)

text \<open>A wrapper either could not register the call or made it, in a world with the same files.\<close>

lemma tracked_call_world:
  assumes "file_contract e cont" and "tracked_call e conn on_fail call r = (x, r')"
  shows "x = on_fail \<and> cont (rc_world r') = cont (rc_world r)
    \<or> (\<exists>w. cont w = cont (rc_world r) \<and> call w = (x, rc_world r'))"
proof -
  obtain oper r1 where start: "startOperationTimeout e conn r = (oper, r1)" by force
  have q: "cont (rc_world r1) = cont (rc_world r)"
  proof -
    obtain m r0 where m: "onLib (malloc_ptr e) r = (m, r0)" by force
    obtain now r2 where now: "onLib (iFuseLibGetCurrentTime e) r0 = (now, r2)" by force
    have "rc_world r1 = rc_world r0 \<or> rc_world r1 = rc_world r2"
      using start m now by (cases m) (auto simp: startOperationTimeout_def)
    with quiet_malloc [OF assms(1) m] quiet_time [OF assms(1) now] show ?thesis by auto
  qed
  show ?thesis
  proof (cases oper)
    case None
    then show ?thesis using start assms(2) q by (simp add: tracked_call_def)
  next
    case (Some p)
    obtain y w2 where "call (rc_world r1) = (y, w2)" by force
    then have "x = y" "rc_world r' = w2"
      using start Some assms(2) by (auto simp: tracked_call_def onLib_def ext_call_def endOperationTimeout_def)
    with \<open>call (rc_world r1) = (y, w2)\<close> q show ?thesis by blast
  qed
qed

section \<open>A reconnection loses every open descriptor\<close>

definition fresh_handle :: "('w \<Rightarrow> nat \<Rightarrow> int \<Rightarrow> (bytes \<times> nat) option) \<Rightarrow> rcComm \<Rightarrow> 'w \<Rightarrow> bool" where
  "fresh_handle cont conn w \<longleftrightarrow> (\<forall>h n. conn = Some h \<longrightarrow> cont w h n = None)"

lemma fresh_handle_None [simp]: "fresh_handle cont None w"
  by (simp add: fresh_handle_def)

lemma fresh_handle_cong: "cont w' = cont w \<Longrightarrow> fresh_handle cont conn w' = fresh_handle cont conn w"
  by (simp add: fresh_handle_def)

lemma Connect_fresh:
  assumes "file_contract e cont" and "iFuseRodsClientConnect e env r = ((conn, err), r')"
  shows "fresh_handle cont conn (rc_world r')"
proof -
  have "rcConnect e env (rc_world r) = ((conn, err), rc_world r')"
    using assms(2) by (auto simp: iFuseRodsClientConnect_def onLib_def ext_call_def split: prod.splits)
  then show ?thesis using contract_fresh(1) [OF assms(1)] by (auto simp: fresh_handle_def)
qed

lemma Login_fresh:
  assumes "file_contract e cont" and "iFuseRodsClientLogin e conn r = (st, r')" and "fresh_handle cont conn (rc_world r)"
  shows "fresh_handle cont conn (rc_world r')"
  using tracked_call_world [OF assms(1) assms(2) [unfolded iFuseRodsClientLogin_def]] assms(3) contract_fresh(2) [OF assms(1)]
  by (auto simp: fresh_handle_def) metis

lemma Ticket_fresh:
  assumes "file_contract e cont" and "iFuseRodsClientSetSessionTicket e conn t r = (st, r')"
    and "fresh_handle cont conn (rc_world r)"
  shows "fresh_handle cont conn (rc_world r')"
  using tracked_call_world [OF assms(1) assms(2) [unfolded iFuseRodsClientSetSessionTicket_def]] assms(3)
    contract_fresh(3) [OF assms(1)]
  by (auto simp: fresh_handle_def) metis

lemma connect_fresh:
  assumes contract: "file_contract e cont" and run: "connect e cn r = ((st, cn'), r')" and "cn_conn cn = None"
  shows "fresh_handle cont (cn_conn cn') (rc_world r')"
proof -
  let ?env = "iFuseLibGetRodsEnv (lib r)"
  obtain conn1 err1 r1 where 1: "iFuseRodsClientConnect e ?env r = ((conn1, err1), r1)" by (metis prod.exhaust)
  obtain conn err r2 where 2: "(if conn1 = None then iFuseRodsClientConnect e ?env r1 else ((conn1, err1), r1))
      = ((conn, err), r2)" by (metis prod.exhaust)
  have f2: "fresh_handle cont conn (rc_world r2)"
    using 2 Connect_fresh [OF contract 1] Connect_fresh [OF contract, of ?env r1] by (auto split: if_splits)
  obtain st3 r3 where 3: "iFuseRodsClientLogin e conn r2 = (st3, r3)" by force
  note f3 = Login_fresh [OF contract 3 f2]
  obtain t st4 r4 where 4: "iFuseRodsClientSetSessionTicket e conn (the (opt_ticket (iFuseLibGetOption (lib r3)))) r3 = (st4, r4)"
    by force
  note f4 = Ticket_fresh [OF contract 4 f3]
  from run assms(3) 1 2 3 4 f3 f4 show ?thesis
    by (auto simp: connect_def Let_def split: if_splits prod.splits option.splits)
qed

lemma reconnect_fresh:
  assumes contract: "file_contract e cont" and run: "iFuseConnReconnect e p c = Some (st, c')"
  shows "\<exists>cn. conn_heap c' p = Some cn \<and> fresh_handle cont (cn_conn cn) (pool_world c')"
proof -
  from run obtain c1 cn where 0: "conn_wrlock p c = Some c1" "conn_heap c1 p = Some cn"
    by (auto simp: iFuseConnReconnect_def)
  obtain cn1 c2 where 2: "onRc (disconnect e cn) c1 = (cn1, c2)" by force
  obtain st3 cn2 c3 where 3: "onRc (connect e cn1) c2 = ((st3, cn2), c3)" by (metis prod.exhaust)
  obtain now c4 where 4: "currentTime e c3 = (now, c4)" by force
  from run 0 2 3 4 have c': "c' = c4\<lparr>conn_heap := (conn_heap c4)(p \<mapsto> cn2\<lparr>cn_lastActTime := now, cn_lock := False\<rparr>)\<rparr>"
    by (auto simp: iFuseConnReconnect_def update_conn_def conn_unlock_def)
  have "cn_conn cn1 = None" using 2 by (auto simp: disconnect_def onRc_def split: prod.splits if_splits)
  with 3 connect_fresh [OF contract] have "fresh_handle cont (cn_conn cn2) (pool_world c3)"
    by (auto simp: onRc_def split: prod.splits)
  with fresh_handle_cong [of cont "pool_world c4" "pool_world c3"] quiet_pool_time(1) [OF contract 4]
  show ?thesis by (simp add: c')
qed

section \<open>The calls on an open descriptor\<close>

text \<open>The three wrappers, when they report success.\<close>

lemma Lseek_world:
  assumes contract: "file_contract e cont" and run: "iFuseRodsClientDataObjLseek e conn n off r = ((st, out), r')" and "0 \<le> st"
  shows "\<exists>h data old pos. conn = Some h \<and> out = Some pos \<and> cont (rc_world r) h n = Some (data, old)
     \<and> cont (rc_world r') h n = Some (data, nat pos)"
  using tracked_call_world [OF contract run [unfolded iFuseRodsClientDataObjLseek_def]] contract_quiet(3) [OF contract]
    contract_lseek [OF contract _ assms(3)] assms(3) by (auto; metis)

lemma Read_world:
  assumes contract: "file_contract e cont" and run: "iFuseRodsClientDataObjRead e conn n len r = ((st, buf), r')" and "0 \<le> st"
  shows "\<exists>h data pos. conn = Some h \<and> cont (rc_world r) h n = Some (data, pos)
     \<and> st = int (length (take len (drop pos data))) \<and> take (nat st) buf = take len (drop pos data)
     \<and> cont (rc_world r') h n = Some (data, pos + nat st)"
proof -
  from tracked_call_world [OF contract run [unfolded iFuseRodsClientDataObjRead_def]] contract_quiet(3) [OF contract] assms(3)
  obtain w where w: "cont w = cont (rc_world r)" "rcDataObjRead e conn n len w = ((st, buf), rc_world r')" by auto
  from contract_read [OF contract w(2) assms(3)] show ?thesis unfolding w(1) .
qed

lemma Write_world:
  assumes contract: "file_contract e cont" and run: "iFuseRodsClientDataObjWrite e conn n buf r = (st, r')" and "0 \<le> st"
  shows "\<exists>h data pos. conn = Some h \<and> cont (rc_world r) h n = Some (data, pos) \<and> st = int (length buf)
     \<and> cont (rc_world r') h n = Some (overlay data pos buf, pos + length buf)"
proof -
  from tracked_call_world [OF contract run [unfolded iFuseRodsClientDataObjWrite_def]] contract_quiet(3) [OF contract] assms(3)
  obtain w where w: "cont w = cont (rc_world r)" "rcDataObjWrite e conn n buf w = (st, rc_world r')" by auto
  from contract_write [OF contract w(2) assms(3)] show ?thesis unfolding w(1) .
qed

text \<open>
  A call that fails on every new connection and succeeds in \<open>call_retry\<close> was made once, over the
  connection as it was: a descriptor does not survive a reconnection.
\<close>

lemma call_retry_first:
  assumes contract: "file_contract e cont"
    and run: "call_retry e True failed status_of call p c = Some (Call_ok x, c')"
    and fresh: "\<And>conn r y r'. fresh_handle cont conn (rc_world r) \<Longrightarrow> call conn r = (y, r') \<Longrightarrow> failed y"
  shows "\<exists>cn r1 cn'. conn_heap c p = Some cn \<and> call (cn_conn cn) (rcs c) = (x, r1)
     \<and> cont (pool_world c') = cont (rc_world r1) \<and> conn_heap c' p = Some cn' \<and> cn_conn cn' = cn_conn cn"
proof -
  from run obtain cn where cn: "conn_heap c p = Some cn" by (auto simp: call_retry_def)
  obtain y c1 where 1: "onRc (call (cn_conn cn)) c = (y, c1)" by force
  then obtain r1 where r1: "call (cn_conn cn) (rcs c) = (y, r1)" "c1 = c\<lparr>rcs := r1\<rparr>"
    by (auto simp: onRc_def split: prod.splits)
  obtain now c2 where 2: "currentTime e c1 = (now, c2)" by force
  note q = quiet_pool_time [OF contract 2]
  let ?c3 = "c2\<lparr>conn_heap := (conn_heap c2)(p \<mapsto> cn\<lparr>cn_lastActTime := now\<rparr>)\<rparr>"
  have 3: "iFuseConnUpdateLastActTime e p False c1 = Some ?c3"
    using 2 q(2) r1(2) cn by (simp add: iFuseConnUpdateLastActTime_def update_conn_def)
  show ?thesis
  proof (cases "failed y")
    case False
    then have "x = y" "c' = ?c3" using run cn 1 3 by (auto simp: call_retry_def)
    then show ?thesis using cn r1 q by simp
  next
    case True
    with run cn 1 3 obtain st c4 where 4: "iFuseConnReconnect e p ?c3 = Some (st, c4)" and
      rest: "do { cn' \<leftarrow> conn_heap c4 p; let (r', c5) = onRc (call (cn_conn cn')) c4;
                  Some (if failed r' then Retry_failed r' else Call_ok r', c5) } = Some (Call_ok x, c')"
      by (auto simp: call_retry_def split: if_splits)
    from reconnect_fresh [OF contract 4] obtain cn4 where
      cn4: "conn_heap c4 p = Some cn4" "fresh_handle cont (cn_conn cn4) (pool_world c4)" by blast
    obtain r' r5 where 5: "call (cn_conn cn4) (rcs c4) = (r', r5)" by force
    with fresh [OF cn4(2) 5] cn4(1) rest have False by (simp add: onRc_def)
    then show ?thesis ..
  qed
qed

section \<open>The file behind an open descriptor\<close>

definition server_file :: "'w files \<Rightarrow> nat \<Rightarrow> 'w fs_state \<Rightarrow> (bytes \<times> nat) option" where
  "server_file cont p s =
     do { d \<leftarrow> fd_heap (fds s) p;
          cp \<leftarrow> fd_conn d;
          cn \<leftarrow> conn_heap (conns (fds s)) cp;
          h \<leftarrow> cn_conn cn;
          cont (pool_world (conns (fds s))) h (fd_fd d) }"

text \<open>The client's idea of the file position is right whenever it has one.\<close>

definition pos_ok :: "'w files \<Rightarrow> nat \<Rightarrow> 'w fs_state \<Rightarrow> bool" where
  "pos_ok cont p s \<longleftrightarrow> (\<forall>d. fd_heap (fds s) p = Some d \<longrightarrow> fd_lastFilePointer d \<noteq> - 1 \<longrightarrow>
     (\<exists>data pos. server_file cont p s = Some (data, pos) \<and> fd_lastFilePointer d = int pos))"

lemma server_file_at:
  assumes "fd_heap (fds s) p = Some d" and "fd_conn d = Some cp" and "conn_heap (conns (fds s)) cp = Some cn"
  shows "server_file cont p s = (case cn_conn cn of None \<Rightarrow> None | Some h \<Rightarrow> cont (pool_world (conns (fds s))) h (fd_fd d))"
  using assms by (simp add: server_file_def split: option.split)

text \<open>Whatever \<open>call_retry\<close> returns is an answer to the call, a failure unless it says otherwise.\<close>

lemma call_retry_from:
  assumes run: "call_retry e noted failed status_of call p c = Some (out, c')"
  shows "\<exists>conn r r'. call conn r = (result out, r') \<and> ((\<forall>y. out \<noteq> Call_ok y) \<longrightarrow> failed (result out))"
proof -
  from run obtain cn where cn: "conn_heap c p = Some cn" by (auto simp: call_retry_def)
  obtain y r1 where y: "call (cn_conn cn) (rcs c) = (y, r1)" by force
  then have 1: "onRc (call (cn_conn cn)) c = (y, c\<lparr>rcs := r1\<rparr>)" by (simp add: onRc_def)
  show ?thesis
  proof (cases "failed y \<and> (\<exists>z. out = Call_ok z \<or> out = Retry_failed z)")
    case False
    then have "result out = y \<and> ((\<forall>z. out \<noteq> Call_ok z) \<longrightarrow> failed y)"
      using run cn 1 by (auto simp: call_retry_def case_prod_unfold Let_def split: if_splits)
    with y show ?thesis by metis
  next
    case True
    with run cn 1 obtain c2 st c4 cn4 where
      "iFuseConnReconnect e p c2 = Some (st, c4)" "conn_heap c4 p = Some cn4" and
      out: "out = (let r' = fst (onRc (call (cn_conn cn4)) c4) in if failed r' then Retry_failed r' else Call_ok r')"
      by (auto simp: call_retry_def case_prod_unfold Let_def split: if_splits)
    obtain r' r5 where 5: "call (cn_conn cn4) (rcs c4) = (r', r5)" by force
    then have "result out = r'" "(\<forall>z. out \<noteq> Call_ok z) \<longrightarrow> failed r'"
      using out by (auto simp: onRc_def Let_def split: if_splits)
    with 5 show ?thesis by metis
  qed
qed

lemma onC_conn: "onC f s = Some (x, s') \<Longrightarrow> \<exists>c. f (conns (fds s)) = Some (x, c) \<and> s' = s\<lparr>fds := (fds s)\<lparr>conns := c\<rparr>\<rparr>"
  by (auto simp: onC_def onF_def onConn_def)

lemma onFU_update:
  assumes "onFU (update_fd p f) s = Some s'" and "fd_heap (fds s) p = Some d"
  shows "s' = s\<lparr>fds := (fds s)\<lparr>fd_heap := (fd_heap (fds s))(p \<mapsto> f d)\<rparr>\<rparr>"
  using assms by (auto simp: onFU_def update_fd_def)

lemma seek_to_content:
  assumes contract: "file_contract e cont" and d: "fd_heap (fds s) p = Some d" "fd_conn d = Some cp"
    and pos: "pos_ok cont p s" and off: "0 \<le> off" and run: "seek_to e p cp off s = Some (early, s')"
  shows "(case early of Some st \<Rightarrow> st < 0
     | None \<Rightarrow> fd_heap (fds s') p = Some (d\<lparr>fd_lastFilePointer := off\<rparr>)
         \<and> (\<exists>data old. server_file cont p s = Some (data, old) \<and> server_file cont p s' = Some (data, nat off)))"
proof (cases "fd_lastFilePointer d = off")
  case True
  then have "early = None" "s' = s" using run d by (auto simp: seek_to_def)
  with True pos d off show ?thesis by (auto simp: pos_ok_def)
next
  case False
  let ?call = "\<lambda>conn. iFuseRodsClientDataObjLseek e conn (fd_fd d) off"
  let ?failed = "\<lambda>(st, lseekOut). st < 0 \<or> lseekOut = None"
  from run d False obtain out s1 where o: "onC (call_retry e True ?failed fst ?call cp) s = Some (out, s1)"
    by (auto simp: seek_to_def)
  from onC_conn [OF o] obtain c1 where c1: "call_retry e True ?failed fst ?call cp (conns (fds s)) = Some (out, c1)"
    "s1 = s\<lparr>fds := (fds s)\<lparr>conns := c1\<rparr>\<rparr>" by blast
  have d1: "fd_heap (fds s1) p = Some d" using c1(2) d by simp
  show ?thesis
  proof (cases "\<exists>st. out = Call_ok (st, Some off)")
    case True
    then obtain st where ok: "out = Call_ok (st, Some off)" ..
    have st: "0 \<le> st" using call_retry_fine [OF c1(1) [unfolded ok]] by simp
    have fresh: "?failed y" if "fresh_handle cont conn (rc_world r)" "?call conn r = (y, r')" for conn r y r'
      using Lseek_world [OF contract, of conn "fd_fd d" off r "fst y" "snd y" r'] that
      by (cases y) (fastforce simp: fresh_handle_def)
    have "\<exists>cn r1 cn'. conn_heap (conns (fds s)) cp = Some cn \<and> ?call (cn_conn cn) (rcs (conns (fds s))) = ((st, Some off), r1)
       \<and> cont (pool_world c1) = cont (rc_world r1) \<and> conn_heap c1 cp = Some cn' \<and> cn_conn cn' = cn_conn cn"
      by (rule call_retry_first [OF contract c1(1) [unfolded ok]]) (rule fresh)
    then obtain cn r1 cn' where
      f: "conn_heap (conns (fds s)) cp = Some cn" "?call (cn_conn cn) (rcs (conns (fds s))) = ((st, Some off), r1)"
        "cont (pool_world c1) = cont (rc_world r1)" "conn_heap c1 cp = Some cn'" "cn_conn cn' = cn_conn cn" by blast
    from Lseek_world [OF contract f(2) st] obtain h data old where
      h: "cn_conn cn = Some h" "cont (pool_world (conns (fds s))) h (fd_fd d) = Some (data, old)"
        "cont (rc_world r1) h (fd_fd d) = Some (data, nat off)" by auto
    have s': "early = None" "onFU (update_fd p (\<lambda>d. d\<lparr>fd_lastFilePointer := off\<rparr>)) s1 = Some s'"
      using run d False o ok by (auto simp: seek_to_def)
    from onFU_update [OF s'(2) d1] have eq: "s' = s1\<lparr>fds := (fds s1)\<lparr>fd_heap := (fd_heap (fds s1))(p \<mapsto> d\<lparr>fd_lastFilePointer := off\<rparr>)\<rparr>\<rparr>" .
    have "server_file cont p s = Some (data, old)" "server_file cont p s' = Some (data, nat off)"
      using server_file_at [OF d f(1), of cont] h server_file_at [of s' p "d\<lparr>fd_lastFilePointer := off\<rparr>" cp cn' cont] d f
      by (simp_all add: eq c1(2))
    then show ?thesis using s'(1) by (simp add: eq)
  next
    case bad: False
    show ?thesis
    proof (cases early)
      case None
      then show ?thesis using run d False o bad by (auto simp: seek_to_def split: outcome.splits)
    next
      case (Some st)
      show ?thesis
      proof (cases "\<exists>r. out = Call_ok r")
        case True
        then have "st = - ENOENT" using run d False o Some by (auto simp: seek_to_def split: if_splits)
        then show ?thesis using Some by simp
      next
        case out: False
        then have st: "st = fst (result out)"
          using run d False o Some by (auto simp: seek_to_def split: outcome.splits)
        from call_retry_from [OF c1(1)] obtain conn r r' where
          l: "?call conn r = (result out, r')" "(\<forall>y. out \<noteq> Call_ok y) \<longrightarrow> ?failed (result out)" by (elim exE conjE)
        have "?failed (result out)" using l(2) out by simp
        with l(1) Lseek_world [OF contract, of conn "fd_fd d" off r "fst (result out)" "snd (result out)" r'] Some st
        show ?thesis by (cases "result out") fastforce
      qed
    qed
  qed
qed

lemma io_error_neg [simp]: "\<not> 0 \<le> io_error e st"
  by (simp add: io_error_def)

lemma read_locked_content:
  assumes contract: "file_contract e cont" and d: "fd_heap (fds s) p = Some d" "fd_conn d = Some cp"
    and pos: "pos_ok cont p s" and off: "0 \<le> off" and run: "read_locked e p cp off sz s = Some ((st, buf), s')" and st: "0 \<le> st"
  shows "\<exists>data old. server_file cont p s = Some (data, old) \<and> buf = take sz (drop (nat off) data) \<and> st = int (length buf)
    \<and> fd_heap (fds s') p = Some (d\<lparr>fd_lastFilePointer := off + st\<rparr>)
    \<and> server_file cont p s' = Some (data, nat (off + st))"
proof -
  from run obtain early s1 where sk: "seek_to e p cp off s = Some (early, s1)" by (auto simp: read_locked_def)
  note content = seek_to_content [OF contract d pos off sk]
  have early: "early = None" using content run sk st by (auto simp: read_locked_def split: option.splits)
  from content early obtain data old where
    d1: "fd_heap (fds s1) p = Some (d\<lparr>fd_lastFilePointer := off\<rparr>)" and
    sf: "server_file cont p s = Some (data, old)" "server_file cont p s1 = Some (data, nat off)" by auto
  let ?d1 = "d\<lparr>fd_lastFilePointer := off\<rparr>"
  let ?call = "\<lambda>conn. iFuseRodsClientDataObjRead e conn (fd_fd d) sz"
  let ?failed = "\<lambda>(st, _). st < 0"
  from run sk early d1 obtain out s2 where o: "onC (call_retry e True ?failed fst ?call cp) s1 = Some (out, s2)"
    by (auto simp: read_locked_def)
  from onC_conn [OF o] obtain c2 where c2: "call_retry e True ?failed fst ?call cp (conns (fds s1)) = Some (out, c2)"
    "s2 = s1\<lparr>fds := (fds s1)\<lparr>conns := c2\<rparr>\<rparr>" by blast
  have "\<exists>data. out = Call_ok (st, data) \<and> slice data 0 (nat st) = Some buf
    \<and> onFU (update_fd p (\<lambda>d. d\<lparr>fd_lastFilePointer := fd_lastFilePointer d + st\<rparr>)) s2 = Some s'"
    using run sk early d1 o st by (cases out) (auto simp: read_locked_def split: if_splits)
  then obtain outbuf where ok: "out = Call_ok (st, outbuf)" "slice outbuf 0 (nat st) = Some buf"
    "onFU (update_fd p (\<lambda>d. d\<lparr>fd_lastFilePointer := fd_lastFilePointer d + st\<rparr>)) s2 = Some s'" by blast
  have fresh: "?failed y" if "fresh_handle cont conn (rc_world r)" "?call conn r = (y, r')" for conn r y r'
    using Read_world [OF contract, of conn "fd_fd d" sz r "fst y" "snd y" r'] that
    by (cases y) (fastforce simp: fresh_handle_def)
  have "\<exists>cn r1 cn'. conn_heap (conns (fds s1)) cp = Some cn \<and> ?call (cn_conn cn) (rcs (conns (fds s1))) = ((st, outbuf), r1)
     \<and> cont (pool_world c2) = cont (rc_world r1) \<and> conn_heap c2 cp = Some cn' \<and> cn_conn cn' = cn_conn cn"
    by (rule call_retry_first [OF contract c2(1) [unfolded ok(1)]]) (rule fresh)
  then obtain cn r1 cn' where
    f: "conn_heap (conns (fds s1)) cp = Some cn" "?call (cn_conn cn) (rcs (conns (fds s1))) = ((st, outbuf), r1)"
      "cont (pool_world c2) = cont (rc_world r1)" "conn_heap c2 cp = Some cn'" "cn_conn cn' = cn_conn cn" by blast
  from Read_world [OF contract f(2) st] obtain h data' pos where
    h: "cn_conn cn = Some h" "cont (pool_world (conns (fds s1))) h (fd_fd d) = Some (data', pos)"
      "st = int (length (take sz (drop pos data')))" "take (nat st) outbuf = take sz (drop pos data')"
      "cont (rc_world r1) h (fd_fd d) = Some (data', pos + nat st)" by blast
  have same: "data' = data" "pos = nat off"
    using server_file_at [OF d1 _ f(1), of cont] d(2) h(1,2) sf(2) by auto
  have buf: "buf = take sz (drop (nat off) data)" using ok(2) h(4) same by (auto simp: slice_def split: if_splits)
  have d2: "fd_heap (fds s2) p = Some ?d1" using c2(2) d1 by simp
  from onFU_update [OF ok(3) d2] have eq: "s' = s2\<lparr>fds := (fds s2)\<lparr>fd_heap := (fd_heap (fds s2))(p \<mapsto> d\<lparr>fd_lastFilePointer := off + st\<rparr>)\<rparr>\<rparr>"
    by simp
  have "server_file cont p s' = Some (data, nat (off + st))"
    using server_file_at [of s' p "d\<lparr>fd_lastFilePointer := off + st\<rparr>" cp cn' cont] d f h same st off
    by (simp add: eq c2(2) nat_add_distrib)
  then show ?thesis using sf(1) buf h(3) same by (auto simp: eq)
qed

lemma write_locked_content:
  assumes contract: "file_contract e cont" and d: "fd_heap (fds s) p = Some d" "fd_conn d = Some cp"
    and pos: "pos_ok cont p s" and off: "0 \<le> off" and run: "write_locked e p cp off buf s = Some (st, s')" and st: "0 \<le> st"
  shows "\<exists>data old. server_file cont p s = Some (data, old) \<and> st = int (length buf)
    \<and> fd_heap (fds s') p = Some (d\<lparr>fd_lastFilePointer := off + st\<rparr>)
    \<and> server_file cont p s' = Some (overlay data (nat off) buf, nat (off + st))"
proof -
  from run obtain early s1 where sk: "seek_to e p cp off s = Some (early, s1)" by (auto simp: write_locked_def)
  note content = seek_to_content [OF contract d pos off sk]
  have early: "early = None" using content run sk st by (auto simp: write_locked_def split: option.splits)
  from content early obtain data old where
    d1: "fd_heap (fds s1) p = Some (d\<lparr>fd_lastFilePointer := off\<rparr>)" and
    sf: "server_file cont p s = Some (data, old)" "server_file cont p s1 = Some (data, nat off)" by auto
  let ?d1 = "d\<lparr>fd_lastFilePointer := off\<rparr>"
  let ?call = "\<lambda>conn. iFuseRodsClientDataObjWrite e conn (fd_fd d) buf"
  let ?failed = "\<lambda>st. st < 0"
  from run sk early d1 obtain out s2 where o: "onC (call_retry e True ?failed id ?call cp) s1 = Some (out, s2)"
    by (auto simp: write_locked_def)
  from onC_conn [OF o] obtain c2 where c2: "call_retry e True ?failed id ?call cp (conns (fds s1)) = Some (out, c2)"
    "s2 = s1\<lparr>fds := (fds s1)\<lparr>conns := c2\<rparr>\<rparr>" by blast
  have ok: "out = Call_ok st" "onFU (update_fd p (\<lambda>d. d\<lparr>fd_lastFilePointer := fd_lastFilePointer d + st\<rparr>)) s2 = Some s'"
    using run sk early d1 o st by (cases out, auto simp: write_locked_def)+
  have fresh: "?failed y" if "fresh_handle cont conn (rc_world r)" "?call conn r = (y, r')" for conn r y r'
    using Write_world [OF contract that(2)] that(1) by (fastforce simp: fresh_handle_def)
  have "\<exists>cn r1 cn'. conn_heap (conns (fds s1)) cp = Some cn \<and> ?call (cn_conn cn) (rcs (conns (fds s1))) = (st, r1)
     \<and> cont (pool_world c2) = cont (rc_world r1) \<and> conn_heap c2 cp = Some cn' \<and> cn_conn cn' = cn_conn cn"
    by (rule call_retry_first [OF contract c2(1) [unfolded ok(1)]]) (rule fresh)
  then obtain cn r1 cn' where
    f: "conn_heap (conns (fds s1)) cp = Some cn" "?call (cn_conn cn) (rcs (conns (fds s1))) = (st, r1)"
      "cont (pool_world c2) = cont (rc_world r1)" "conn_heap c2 cp = Some cn'" "cn_conn cn' = cn_conn cn" by blast
  from Write_world [OF contract f(2) st] obtain h data' pos where
    h: "cn_conn cn = Some h" "cont (pool_world (conns (fds s1))) h (fd_fd d) = Some (data', pos)" "st = int (length buf)"
      "cont (rc_world r1) h (fd_fd d) = Some (overlay data' pos buf, pos + length buf)" by blast
  have same: "data' = data" "pos = nat off"
    using server_file_at [OF d1 _ f(1), of cont] d(2) h(1,2) sf(2) by auto
  have d2: "fd_heap (fds s2) p = Some ?d1" using c2(2) d1 by simp
  from onFU_update [OF ok(2) d2] have eq: "s' = s2\<lparr>fds := (fds s2)\<lparr>fd_heap := (fd_heap (fds s2))(p \<mapsto> d\<lparr>fd_lastFilePointer := off + st\<rparr>)\<rparr>\<rparr>"
    by simp
  have "server_file cont p s' = Some (overlay data (nat off) buf, nat (off + st))"
    using server_file_at [of s' p "d\<lparr>fd_lastFilePointer := off + st\<rparr>" cp cn' cont] d f h same st off
    by (simp add: eq c2(2) nat_add_distrib)
  then show ?thesis using sf(1) h(3) by (auto simp: eq)
qed

section \<open>Reading and writing at an offset\<close>

definition content :: "'w files \<Rightarrow> nat \<Rightarrow> 'w fs_state \<Rightarrow> bytes option" where
  "content cont p s = map_option fst (server_file cont p s)"

definition fd_synced :: "'w files \<Rightarrow> nat \<Rightarrow> 'w fs_state \<Rightarrow> bool" where
  "fd_synced cont p s \<longleftrightarrow> fs_inv s \<and> fd_heap (fds s) p \<noteq> None \<and> pos_ok cont p s"

lemma server_file_locks:
  "onFU (update_fd p (\<lambda>d. d\<lparr>fd_lock := b\<rparr>)) s = Some s' \<Longrightarrow> server_file cont p s' = server_file cont p s"
  "onCU (update_conn q (\<lambda>cn. cn\<lparr>cn_lock := b\<rparr>)) s = Some s' \<Longrightarrow> server_file cont p s' = server_file cont p s"
  by (auto simp: server_file_def onFU_def onCU_def update_fd_def update_conn_def fun_upd_def split: Option.bind_splits if_splits)

lemma with_fd_lock_content:
  assumes "with_fd_lock p f s = Some (x, s')"
  shows "\<exists>d cp s2 s3. fd_heap (fds s) p = Some d \<and> fd_conn d = Some cp \<and> f cp s2 = Some (x, s3)
    \<and> fd_heap (fds s2) p = Some (d\<lparr>fd_lock := True\<rparr>) \<and> server_file cont p s2 = server_file cont p s
    \<and> server_file cont p s' = server_file cont p s3
    \<and> fd_heap (fds s') p = map_option (\<lambda>d. d\<lparr>fd_lock := False\<rparr>) (fd_heap (fds s3) p)"
proof -
  from assms obtain d cp s1 s2 s3 s4 where
    d: "fd_heap (fds s) p = Some d" "fd_conn d = Some cp"
    and l: "onFU (iFuseFdLock p) s = Some s1" "onCU (iFuseConnLock cp) s1 = Some s2"
      "f cp s2 = Some (x, s3)" "onCU (iFuseConnUnlock cp) s3 = Some s4" "onFU (iFuseFdUnlock p) s4 = Some s'"
    by (auto simp: with_fd_lock_def split: if_splits)
  note l' = l [unfolded iFuseFdLock_def iFuseFdUnlock_def iFuseConnLock_def iFuseConnUnlock_def conn_wrlock_def conn_unlock_def]
  have "fd_heap (fds s2) p = Some (d\<lparr>fd_lock := True\<rparr>)" using l'(1,2) d by (auto simp: onFU_def onCU_def update_fd_def)
  moreover have "fd_heap (fds s') p = map_option (\<lambda>d. d\<lparr>fd_lock := False\<rparr>) (fd_heap (fds s3) p)"
    using l'(4,5) by (auto simp: onFU_def onCU_def update_fd_def)
  ultimately show ?thesis
    using d l(3) server_file_locks(1) [OF l'(1), of cont] server_file_locks(2) [OF l'(2), of cont p]
      server_file_locks(2) [OF l'(4), of cont p] server_file_locks(1) [OF l'(5), of cont] by auto
qed

lemma pos_ok_lock:
  assumes "pos_ok cont p s" and "fd_heap (fds s) p = Some d" and "fd_heap (fds s2) p = Some (d\<lparr>fd_lock := True\<rparr>)"
    and "server_file cont p s2 = server_file cont p s"
  shows "pos_ok cont p s2"
  using assms by (auto simp: pos_ok_def)

lemma pos_ok_at:
  assumes "fd_heap (fds s) p = Some d" and "server_file cont p s = Some (data, nat (fd_lastFilePointer d))" and "0 \<le> fd_lastFilePointer d"
  shows "pos_ok cont p s"
  using assms by (auto simp: pos_ok_def)

lemma Read_content:
  assumes contract: "file_contract e cont" and sync: "fd_synced cont p s" and off: "0 \<le> off"
    and run: "iFuseFsRead e p off sz s = Some ((st, buf), s')" and st: "0 \<le> st"
  shows "fd_synced cont p s' \<and> (\<exists>c. content cont p s = Some c \<and> content cont p s' = Some c
    \<and> buf = take sz (drop (nat off) c) \<and> st = int (length buf))"
proof -
  from with_fd_lock_content [OF run [unfolded iFuseFsRead_def], of cont] obtain d cp s2 s3 where
    r: "fd_heap (fds s) p = Some d" "fd_conn d = Some cp" "read_locked e p cp off sz s2 = Some ((st, buf), s3)"
      "fd_heap (fds s2) p = Some (d\<lparr>fd_lock := True\<rparr>)" "server_file cont p s2 = server_file cont p s"
      "server_file cont p s' = server_file cont p s3"
      "fd_heap (fds s') p = map_option (\<lambda>d. d\<lparr>fd_lock := False\<rparr>) (fd_heap (fds s3) p)" by blast
  have pos: "pos_ok cont p s2" using sync by (intro pos_ok_lock [OF _ r(1,4,5)]) (simp add: fd_synced_def)
  from read_locked_content [OF contract r(4) _ pos off r(3) st] r(2) obtain data old where
    c: "server_file cont p s2 = Some (data, old)" "buf = take sz (drop (nat off) data)" "st = int (length buf)"
      "fd_heap (fds s3) p = Some (d\<lparr>fd_lock := True, fd_lastFilePointer := off + st\<rparr>)"
      "server_file cont p s3 = Some (data, nat (off + st))" by auto
  have "pos_ok cont p s'" using c(4,5) r(6,7) off st by (intro pos_ok_at [where data = data]) auto
  moreover have "fs_inv s'" using io_inv(1) run sync by (auto simp: fd_synced_def)
  ultimately show ?thesis using c r by (auto simp: fd_synced_def content_def)
qed

lemma Write_content:
  assumes contract: "file_contract e cont" and sync: "fd_synced cont p s" and off: "0 \<le> off"
    and run: "iFuseFsWrite e p buf off s = Some (st, s')" and st: "0 \<le> st"
  shows "fd_synced cont p s' \<and> (\<exists>c. content cont p s = Some c
    \<and> content cont p s' = Some (overlay c (nat off) buf) \<and> st = int (length buf))"
proof -
  from with_fd_lock_content [OF run [unfolded iFuseFsWrite_def], of cont] obtain d cp s2 s3 where
    r: "fd_heap (fds s) p = Some d" "fd_conn d = Some cp" "write_locked e p cp off buf s2 = Some (st, s3)"
      "fd_heap (fds s2) p = Some (d\<lparr>fd_lock := True\<rparr>)" "server_file cont p s2 = server_file cont p s"
      "server_file cont p s' = server_file cont p s3"
      "fd_heap (fds s') p = map_option (\<lambda>d. d\<lparr>fd_lock := False\<rparr>) (fd_heap (fds s3) p)" by blast
  have pos: "pos_ok cont p s2" using sync by (intro pos_ok_lock [OF _ r(1,4,5)]) (simp add: fd_synced_def)
  from write_locked_content [OF contract r(4) _ pos off r(3) st] r(2) obtain data old where
    c: "server_file cont p s2 = Some (data, old)" "st = int (length buf)"
      "fd_heap (fds s3) p = Some (d\<lparr>fd_lock := True, fd_lastFilePointer := off + st\<rparr>)"
      "server_file cont p s3 = Some (overlay data (nat off) buf, nat (off + st))" by auto
  have "pos_ok cont p s'" using c(3,4) r(6,7) off st by (intro pos_ok_at) auto
  moreover have "fs_inv s'" using io_inv(2) run sync by (auto simp: fd_synced_def)
  ultimately show ?thesis using c r by (auto simp: fd_synced_def content_def)
qed

section \<open>Files as an interface\<close>

text \<open>
  What a layer that reads and writes an open file promises to the one above, for calls that
  report success: a read returns the bytes at the offset, as many as there are, and a write at
  or before the end of the file puts its bytes there. \<open>valid\<close> is the state it keeps that in,
  \<open>in_range off n\<close> the requests its integer types leave room for.
\<close>

locale byte_store =
  fixes read_at :: "int \<Rightarrow> nat \<Rightarrow> 's \<Rightarrow> ((int \<times> bytes) \<times> 's) option"
    and write_at :: "bytes \<Rightarrow> int \<Rightarrow> 's \<Rightarrow> (int \<times> 's) option"
    and bytes_of :: "'s \<Rightarrow> bytes option"
    and in_range :: "int \<Rightarrow> nat \<Rightarrow> bool"
    and valid :: "'s \<Rightarrow> bool"
  assumes read_bytes: "valid s \<Longrightarrow> bytes_of s = Some c \<Longrightarrow> 0 \<le> off \<Longrightarrow> in_range off n \<Longrightarrow> read_at off n s = Some ((st, buf), s') \<Longrightarrow> 0 \<le> st \<Longrightarrow>
      valid s' \<and> bytes_of s' = Some c \<and> buf = take n (drop (nat off) c) \<and> st = int (length buf)"
    and write_bytes: "valid s \<Longrightarrow> bytes_of s = Some c \<Longrightarrow> 0 \<le> off \<Longrightarrow> nat off \<le> length c \<Longrightarrow> in_range off (length buf) \<Longrightarrow>
      write_at buf off s = Some (st, s') \<Longrightarrow> 0 \<le> st \<Longrightarrow>
      valid s' \<and> bytes_of s' = Some (overlay c (nat off) buf) \<and> st = int (length buf)"
begin

text \<open>Reading back what was written.\<close>

lemma read_your_write:
  assumes "valid s" and "bytes_of s = Some c" and "0 \<le> off" and "nat off \<le> length c" and "in_range off (length buf)"
    and "write_at buf off s = Some (st, s1)" and "0 \<le> st"
    and "read_at off (length buf) s1 = Some ((st2, out), s2)" and "0 \<le> st2"
  shows "out = buf \<and> st2 = int (length buf)"
proof -
  note w = write_bytes [OF assms(1-7)]
  from read_bytes [OF _ _ assms(3,5,8,9)] w have "out = take (length buf) (drop (nat off) (overlay c (nat off) buf))"
    "st2 = int (length out)" by auto
  then show ?thesis using assms(4) by (simp add: overlay_def)
qed

text \<open>A write leaves alone what lies before and behind it.\<close>

lemma read_other:
  assumes "valid s" and "bytes_of s = Some c" and "0 \<le> off" and "nat off \<le> length c" and "in_range off (length buf)"
    and "write_at buf off s = Some (st, s1)" and "0 \<le> st"
    and "read_at off2 n s1 = Some ((st2, out), s2)" and "0 \<le> st2" and "0 \<le> off2" and "in_range off2 n"
    and "nat off2 + n \<le> nat off \<or> nat off + length buf \<le> nat off2"
  shows "out = take n (drop (nat off2) c)"
proof -
  note w = write_bytes [OF assms(1-7)]
  from read_bytes [OF _ _ assms(10,11,8,9)] w have out: "out = take n (drop (nat off2) (overlay c (nat off) buf))" by auto
  show ?thesis
  proof (cases "nat off2 + n \<le> nat off")
    case True
    then show ?thesis using out assms(4) by (simp add: overlay_def take_drop min_def)
  next
    case False
    then show ?thesis using out assms(4,12) by (simp add: overlay_def)
  qed
qed

end

interpretation fs: byte_store "iFuseFsRead e p" "iFuseFsWrite e p" "content cont p" "\<lambda>off n. True"
    "\<lambda>s. file_contract e cont \<and> fd_synced cont p s" for e :: "'w ext" and cont and p
proof unfold_locales
  fix s c off n st buf s' assume "file_contract e cont \<and> fd_synced cont p s" "content cont p s = Some c" "0 \<le> off"
    "iFuseFsRead e p off n s = Some ((st, buf), s')" "0 \<le> st"
  with Read_content [of e cont p s off n st buf s']
  show "(file_contract e cont \<and> fd_synced cont p s') \<and> content cont p s' = Some c \<and> buf = take n (drop (nat off) c)
      \<and> st = int (length buf)" by auto
next
  fix s c off buf st s' assume "file_contract e cont \<and> fd_synced cont p s" "content cont p s = Some c" "0 \<le> off"
    "iFuseFsWrite e p buf off s = Some (st, s')" "0 \<le> st"
  with Write_content [of e cont p s off buf st s']
  show "(file_contract e cont \<and> fd_synced cont p s') \<and> content cont p s' = Some (overlay c (nat off) buf)
      \<and> st = int (length buf)" by auto
qed

end
