(* ===== verification/IFuse_BufferedFS.thy ===== *)
theory IFuse_BufferedFS
  imports IFuse_Content
begin

text \<open>
  \<open>iFuse.BufferedFS.cpp\<close>: block-wise reading and delayed writing on top of \<open>iFuse.FS.cpp\<close>.
  Every open file has at most one cached block, kept under the number of its descriptor; every
  path has at most one pending piece of data, the delta, not yet sent to the server. Entries
  enter the two tables with their buffer set, so the code's tests for a NULL buffer are true.
  The read-write lock is never held across a call of another component; the operations are
  modelled without it.
\<close>

record iFuseBufferCache =
  bc_fdId :: "64 word"
  bc_iRodsPath :: string
  bc_offset :: int
  bc_size :: nat
  bc_buffer :: bytes

record 'w buf_state =
  bfs :: "'w fs_state"
  g_DeltaMap :: "(string, iFuseBufferCache) stdmap"
  g_CacheMap :: "(64 word, iFuseBufferCache) stdmap"
  g_Blocksize :: int

definition onFs :: "('w fs_state \<Rightarrow> ('r \<times> 'w fs_state) option) \<Rightarrow> 'w buf_state \<Rightarrow> ('r \<times> 'w buf_state) option" where
  "onFs f s = do { (x, t) \<leftarrow> f (bfs s); Some (x, s\<lparr>bfs := t\<rparr>) }"

definition onLibB :: "('w lib_state \<Rightarrow> 'r \<times> 'w lib_state) \<Rightarrow> 'w buf_state \<Rightarrow> 'r \<times> 'w buf_state" where
  "onLibB f s = (let (x, l) = f (get_lib (bfs s)) in (x, s\<lparr>bfs := put_lib l (bfs s)\<rparr>))"

text \<open>Conversions to \<open>size_t\<close> and, from there, to \<open>int\<close>.\<close>

definition size_t :: "int \<Rightarrow> nat" where
  "size_t n = nat (n mod 2 ^ 64)"

definition c_int :: "nat \<Rightarrow> int" where
  "c_int n = signed_take_bit 31 (int n)"

definition IFUSE_BUFFER_CACHE_BLOCK_SIZE :: int where
  "IFUSE_BUFFER_CACHE_BLOCK_SIZE = 1024 * 1024 * 1"

text \<open>The tables and the block size as the program starts.\<close>

definition buf_start :: "'w fs_state \<Rightarrow> 'w buf_state" where
  "buf_start t = \<lparr>bfs = t, g_DeltaMap = [], g_CacheMap = [], g_Blocksize = IFUSE_BUFFER_CACHE_BLOCK_SIZE\<rparr>"

section \<open>Blocks\<close>

text \<open>A block number is an \<open>unsigned int\<close>; the asserted signs are the \<open>None\<close> of these.\<close>

definition getBufferCacheBlockSize :: "'w buf_state \<Rightarrow> nat" where
  "getBufferCacheBlockSize s = size_t (g_Blocksize s)"

definition getBlockID :: "int \<Rightarrow> int \<Rightarrow> 32 word option" where
  "getBlockID B off = (if 0 \<le> off then Some (word_of_int (c_div off B)) else None)"

definition getBlockStartOffset :: "int \<Rightarrow> 32 word \<Rightarrow> int option" where
  "getBlockStartOffset B blockID = (if 0 \<le> uint blockID * B then Some (uint blockID * B) else None)"

definition getInBlockOffset :: "int \<Rightarrow> int \<Rightarrow> int option" where
  "getInBlockOffset B off =
     do { blockID \<leftarrow> getBlockID B off;
          start \<leftarrow> getBlockStartOffset B blockID;
          if 0 \<le> off - start then Some (off - start) else None }"

definition isSameBlock :: "int \<Rightarrow> int \<Rightarrow> int \<Rightarrow> bool option" where
  "isSameBlock B off1 off2 = do { b1 \<leftarrow> getBlockID B off1; b2 \<leftarrow> getBlockID B off2; Some (b1 = b2) }"

section \<open>Cache entries\<close>

definition zero_bufferCache :: iFuseBufferCache where
  "zero_bufferCache = \<lparr>bc_fdId = 0, bc_iRodsPath = [], bc_offset = 0, bc_size = 0, bc_buffer = []\<rparr>"

definition newBufferCache :: "'w ext \<Rightarrow> 'w buf_state \<Rightarrow> (int \<times> iFuseBufferCache option) \<times> 'w buf_state" where
  "newBufferCache e s = (let (ok, s1) = onLibB (mem_ok e) s
     in if ok then ((0, Some zero_bufferCache), s1) else ((SYS_MALLOC_ERR e, None), s1))"

text \<open>\<open>memcpy(dst + off, entry->buffer, entry->size)\<close>.\<close>

definition copy_entry :: "bytes \<Rightarrow> nat \<Rightarrow> iFuseBufferCache \<Rightarrow> bytes option" where
  "copy_entry dst off bc = do { src \<leftarrow> slice (bc_buffer bc) 0 (bc_size bc); memcpy dst off src }"

text \<open>What \<open>_applyDeltaToCache\<close> does with one entry, and its loop over all of them.\<close>

definition apply_delta :: "int \<Rightarrow> string \<Rightarrow> bytes \<Rightarrow> int \<Rightarrow> iFuseBufferCache \<Rightarrow> iFuseBufferCache option" where
  "apply_delta B iRodsPath buf off bc =
     (if bc_iRodsPath bc = iRodsPath
      then do {
        same \<leftarrow> isSameBlock B (bc_offset bc) off;
        if same
        then let endOffset = (if off + int (length buf) > bc_offset bc + int (bc_size bc)
                              then off + int (length buf) else bc_offset bc + int (bc_size bc));
                 newSize = endOffset - bc_offset bc
             in if newSize = 0 \<or> off < bc_offset bc then None
                else do { buffer \<leftarrow> memcpy (bc_buffer bc) (nat (off - bc_offset bc)) buf;
                          Some (bc\<lparr>bc_buffer := buffer, bc_size := nat newSize\<rparr>) }
        else Some bc }
      else Some bc)"

fun apply_delta_all ::
    "int \<Rightarrow> string \<Rightarrow> bytes \<Rightarrow> int \<Rightarrow> (64 word, iFuseBufferCache) stdmap \<Rightarrow> (64 word, iFuseBufferCache) stdmap option" where
  "apply_delta_all B iRodsPath buf off [] = Some []"
| "apply_delta_all B iRodsPath buf off ((k, bc) # m) =
     do { bc' \<leftarrow> apply_delta B iRodsPath buf off bc;
          m' \<leftarrow> apply_delta_all B iRodsPath buf off m;
          Some ((k, bc') # m') }"

definition applyDeltaToCache :: "string \<Rightarrow> bytes \<Rightarrow> int \<Rightarrow> 'w buf_state \<Rightarrow> 'w buf_state option" where
  "applyDeltaToCache iRodsPath buf off s =
     (if off < 0 \<or> buf = [] then None
      else do { m \<leftarrow> apply_delta_all (g_Blocksize s) iRodsPath buf off (g_CacheMap s);
                Some (s\<lparr>g_CacheMap := m\<rparr>) })"

text \<open>The delta leaves the table before it is written: when the write fails it is gone.\<close>

definition flushDelta :: "'w ext \<Rightarrow> nat \<Rightarrow> 'w buf_state \<Rightarrow> (int \<times> 'w buf_state) option" where
  "flushDelta e p s =
     do { d \<leftarrow> fd_heap (fds (bfs s)) p;
          if accmode (fd_openFlag d) \<noteq> O_RDONLY
          then (case map_find (g_DeltaMap s) (fd_iRodsPath d) of
                  None \<Rightarrow> Some (0, s)
                | Some bc \<Rightarrow>
                    do { let s1 = s\<lparr>g_DeltaMap := map_erase (fd_iRodsPath d) (g_DeltaMap s)\<rparr>;
                         src \<leftarrow> slice (bc_buffer bc) 0 (bc_size bc);
                         s2 \<leftarrow> applyDeltaToCache (fd_iRodsPath d) src (bc_offset bc) s1;
                         (status, s3) \<leftarrow> onFs (iFuseFsWrite e p src (bc_offset bc)) s2;
                         if status < 0 then Some (- ENOENT, s3) else Some (0, s3) })
          else Some (0, s) }"

section \<open>Reading and writing a block\<close>

text \<open>The part of \<open>_readBlock\<close> that asks the server, when the block is not cached.\<close>

definition fetch_block ::
    "'w ext \<Rightarrow> nat \<Rightarrow> iFuseFd \<Rightarrow> int \<Rightarrow> 'w buf_state \<Rightarrow> ((int + iFuseBufferCache) \<times> 'w buf_state) option" where
  "fetch_block e p d start s =
     do { let s0 = s\<lparr>g_CacheMap := map_erase (fd_fdId d) (g_CacheMap s)\<rparr>;
          let ((status, entry), s1) = newBufferCache e s0;
          if status < 0 then Some (Inl status, s1)
          else do {
            bc \<leftarrow> entry;
            let (ok, s2) = onLibB (mem_ok e) s1;
            if \<not> ok then Some (Inl (SYS_MALLOC_ERR e), s2)
            else do {
              ((status, dat), s3) \<leftarrow> onFs (iFuseFsRead e p start (size_t (g_Blocksize s))) s2;
              if status < 0 then Some (Inl (- ENOENT), s3)
              else do {
                blockBuffer \<leftarrow> memcpy (zeros (size_t (g_Blocksize s))) 0 dat;
                let bc' = bc\<lparr>bc_fdId := fd_fdId d, bc_iRodsPath := fd_iRodsPath d, bc_buffer := blockBuffer,
                             bc_offset := start, bc_size := nat status\<rparr>;
                Some (Inr bc', s3\<lparr>g_CacheMap := map_insert (fd_fdId d) bc' (g_CacheMap s3)\<rparr>) } } } }"

definition cached_block ::
    "'w ext \<Rightarrow> nat \<Rightarrow> iFuseFd \<Rightarrow> int \<Rightarrow> 'w buf_state \<Rightarrow> ((int + iFuseBufferCache) \<times> 'w buf_state) option" where
  "cached_block e p d start s =
     (case map_find (g_CacheMap s) (fd_fdId d) of
        Some bc \<Rightarrow> if bc_offset bc = start then Some (Inr bc, s) else fetch_block e p d start s
      | None \<Rightarrow> fetch_block e p d start s)"

text \<open>The part that lays the delta over the block. Its result is the size and the buffer.\<close>

definition delta_over ::
    "int \<Rightarrow> iFuseBufferCache option \<Rightarrow> 32 word \<Rightarrow> int \<Rightarrow> nat \<Rightarrow> bytes \<Rightarrow> (nat \<times> bytes) option" where
  "delta_over B delta blockID start readSize buf =
     (case delta of
        None \<Rightarrow> Some (readSize, buf)
      | Some bc \<Rightarrow>
          do { b \<leftarrow> getBlockID B (bc_offset bc);
               if b = blockID
               then if bc_offset bc < start then None
                    else do { buf' \<leftarrow> copy_entry buf (nat (bc_offset bc - start)) bc;
                              let deltaSize = nat (bc_offset bc - start) + bc_size bc;
                              Some (if readSize < deltaSize then deltaSize else readSize, buf') }
               else Some (readSize, buf) })"

definition readBlock ::
    "'w ext \<Rightarrow> nat \<Rightarrow> bytes \<Rightarrow> 32 word \<Rightarrow> 'w buf_state \<Rightarrow> ((int \<times> bytes) \<times> 'w buf_state) option" where
  "readBlock e p buf blockID s =
     do { d \<leftarrow> fd_heap (fds (bfs s)) p;
          start \<leftarrow> getBlockStartOffset (g_Blocksize s) blockID;
          (r, s1) \<leftarrow> cached_block e p d start s;
          (case r of
             Inl status \<Rightarrow> Some ((status, buf), s1)
           | Inr bc \<Rightarrow>
               do { buf1 \<leftarrow> copy_entry buf 0 bc;
                    (readSize, buf2) \<leftarrow> delta_over (g_Blocksize s1) (map_find (g_DeltaMap s1) (fd_iRodsPath d))
                                          blockID start (bc_size bc) buf1;
                    Some ((c_int readSize, buf2), s1) }) }"

text \<open>Extending the delta by data that meets it: the new offset and the new buffer.\<close>

definition join_delta :: "iFuseBufferCache \<Rightarrow> bytes \<Rightarrow> int \<Rightarrow> iFuseBufferCache option" where
  "join_delta bc buf off =
     (let startOffset = (if off > bc_offset bc then bc_offset bc else off);
          endOffset = (if off + int (length buf) > bc_offset bc + int (bc_size bc)
                       then off + int (length buf) else bc_offset bc + int (bc_size bc));
          newSize = size_t (endOffset - startOffset)
      in if newSize = 0 then None
         else do { newBuf \<leftarrow> copy_entry (zeros newSize) (nat (bc_offset bc - startOffset)) bc;
                   newBuf' \<leftarrow> memcpy newBuf (nat (off - startOffset)) buf;
                   Some (bc\<lparr>bc_buffer := newBuf', bc_offset := startOffset, bc_size := newSize\<rparr>) })"

definition writeBlock :: "'w ext \<Rightarrow> nat \<Rightarrow> bytes \<Rightarrow> int \<Rightarrow> 'w buf_state \<Rightarrow> (int \<times> 'w buf_state) option" where
  "writeBlock e p buf off s =
     do { d \<leftarrow> fd_heap (fds (bfs s)) p;
          let path = fd_iRodsPath d;
          if buf = [] then None
          else (case map_find (g_DeltaMap s) path of
            Some bc \<Rightarrow>
              do { same \<leftarrow> isSameBlock (g_Blocksize s) (bc_offset bc) off;
                   let (ok, s1) = onLibB (mem_ok e) s;
                   if \<not> ok then Some (SYS_MALLOC_ERR e, s1)
                   else if same \<and> bc_offset bc + int (bc_size bc) \<ge> off \<and> bc_offset bc \<le> off + int (length buf)
                   then do { bc' \<leftarrow> join_delta bc buf off;
                             Some (0, s1\<lparr>g_DeltaMap := map_insert path bc' (g_DeltaMap s1)\<rparr>) }
                   else do {
                     src \<leftarrow> slice (bc_buffer bc) 0 (bc_size bc);
                     s2 \<leftarrow> applyDeltaToCache path src (bc_offset bc) s1;
                     let s3 = s2\<lparr>g_DeltaMap := map_insert path
                                 (bc\<lparr>bc_buffer := buf, bc_offset := off, bc_size := length buf\<rparr>) (g_DeltaMap s2)\<rparr>;
                     (status, s4) \<leftarrow> onFs (iFuseFsWrite e p src (bc_offset bc)) s3;
                     Some (if status < 0 then - ENOENT else 0, s4) } }
          | None \<Rightarrow>
              do { let (ok, s1) = onLibB (mem_ok e) s;
                   if \<not> ok then Some (SYS_MALLOC_ERR e, s1)
                   else do {
                     let ((status, entry), s2) = newBufferCache e s1;
                     if status < 0 then Some (status, s2)
                     else do {
                       bc \<leftarrow> entry;
                       let bc' = bc\<lparr>bc_fdId := fd_fdId d, bc_iRodsPath := path, bc_buffer := buf,
                                    bc_offset := off, bc_size := length buf\<rparr>;
                       Some (0, s2\<lparr>g_DeltaMap := map_insert path bc' (g_DeltaMap s2)\<rparr>) } } }) }"

section \<open>The operations of the layer\<close>

definition releaseAllBufferCache :: "'w buf_state \<Rightarrow> 'w buf_state" where
  "releaseAllBufferCache s = s\<lparr>g_DeltaMap := [], g_CacheMap := []\<rparr>"

definition iFuseBufferedFSInit :: "'w buf_state \<Rightarrow> 'w buf_state" where
  "iFuseBufferedFSInit s = (let opt = iFuseLibGetOption (get_lib (bfs s))
     in if opt_blocksize opt > 0 then s\<lparr>g_Blocksize := opt_blocksize opt\<rparr> else s)"

definition iFuseBufferedFSDestroy :: "'w buf_state \<Rightarrow> 'w buf_state" where
  "iFuseBufferedFSDestroy s = releaseAllBufferCache s"

definition iFuseBufferedFsGetAttr ::
    "'w ext \<Rightarrow> string \<Rightarrow> 'w buf_state \<Rightarrow> ((int \<times> stat option) \<times> 'w buf_state) option" where
  "iFuseBufferedFsGetAttr e iRodsPath s =
     do { ((status, st), s1) \<leftarrow> onFs (iFuseFsGetAttr e iRodsPath) s;
          if status < 0 then Some ((status, st), s1)
          else (case map_find (g_DeltaMap s1) iRodsPath of
            None \<Rightarrow> Some ((status, st), s1)
          | Some bc \<Rightarrow>
              let newSize = bc_offset bc + int (bc_size bc)
              in Some ((status, map_option (\<lambda>b. if newSize > st_size b then b\<lparr>st_size := newSize\<rparr> else b) st), s1)) }"

definition iFuseBufferedFsOpen ::
    "'w ext \<Rightarrow> string \<Rightarrow> flags \<Rightarrow> 'w buf_state \<Rightarrow> ((int \<times> nat option) \<times> 'w buf_state) option" where
  "iFuseBufferedFsOpen e iRodsPath openFlag = onFs (iFuseFsOpen e iRodsPath openFlag)"

definition iFuseBufferedFsClose :: "'w ext \<Rightarrow> nat \<Rightarrow> 'w buf_state \<Rightarrow> (int \<times> 'w buf_state) option" where
  "iFuseBufferedFsClose e p s =
     do { d \<leftarrow> fd_heap (fds (bfs s)) p;
          (status, s1) \<leftarrow> (if accmode (fd_openFlag d) \<noteq> O_RDONLY then flushDelta e p s else Some (0, s));
          if status < 0 then Some (- ENOENT, s1)
          else do {
            let s2 = s1\<lparr>g_CacheMap := map_erase (fd_fdId d) (g_CacheMap s1)\<rparr>;
            (status, s3) \<leftarrow> onFs (iFuseFsClose e p) s2;
            Some (if status < 0 then - ENOENT else status, s3) } }"

definition iFuseBufferedFsFlush :: "'w ext \<Rightarrow> nat \<Rightarrow> 'w buf_state \<Rightarrow> (int \<times> 'w buf_state) option" where
  "iFuseBufferedFsFlush e p s =
     do { d \<leftarrow> fd_heap (fds (bfs s)) p;
          (status, s1) \<leftarrow> (if accmode (fd_openFlag d) \<noteq> O_RDONLY then flushDelta e p s else Some (0, s));
          if status < 0 then Some (- ENOENT, s1)
          else do { (status, s2) \<leftarrow> onFs (iFuseFsFlush e p) s1;
                    Some (if status < 0 then - ENOENT else status, s2) } }"

definition iFuseBufferedFsReadBlock ::
    "'w ext \<Rightarrow> nat \<Rightarrow> bytes \<Rightarrow> 32 word \<Rightarrow> 'w buf_state \<Rightarrow> ((int \<times> bytes) \<times> 'w buf_state) option" where
  "iFuseBufferedFsReadBlock = readBlock"

text \<open>
  One round of the loop of \<open>iFuseBufferedFsRead\<close>: the bytes to append and whether the loop
  ends with them. The block buffer is carried from round to round, as in the code.
\<close>

datatype read_result = Read_failed int | Read_eof | Read_chunk bytes bool

text \<open>What a round takes from a block of \<open>blockSize\<close> bytes; the subtraction is unsigned.\<close>

definition block_chunk :: "int \<Rightarrow> int \<Rightarrow> nat \<Rightarrow> nat \<Rightarrow> bytes \<Rightarrow> read_result option" where
  "block_chunk B inBlockOffset curSize blockSize bb =
     (let curSize' = (if size_t (inBlockOffset + int curSize) > blockSize
                      then size_t (int blockSize - inBlockOffset) else curSize)
      in if curSize' = 0 then Some Read_eof
         else do { chunk \<leftarrow> slice bb (nat inBlockOffset) curSize';
                   Some (Read_chunk chunk (blockSize < size_t B)) })"

definition read_round ::
    "'w ext \<Rightarrow> nat \<Rightarrow> int \<Rightarrow> nat \<Rightarrow> bytes \<Rightarrow> 'w buf_state \<Rightarrow> ((read_result \<times> bytes) \<times> 'w buf_state) option" where
  "read_round e p off remain blockBuffer s =
     do { blockID \<leftarrow> getBlockID (g_Blocksize s) off;
          inBlockOffset \<leftarrow> getInBlockOffset (g_Blocksize s) off;
          let inBlockAvail = size_t (g_Blocksize s - inBlockOffset);
          let curSize = (if inBlockAvail > remain then remain else inBlockAvail);
          ((status, bb), s1) \<leftarrow> readBlock e p blockBuffer blockID s;
          if status < 0 then Some ((Read_failed status, bb), s1)
          else if status = 0 then Some ((Read_eof, bb), s1)
          else do { r \<leftarrow> block_chunk (g_Blocksize s) inBlockOffset curSize (nat status) bb;
                    Some ((r, bb), s1) } }"

lemma block_chunk_nonempty:
  "block_chunk B i n sz bb = Some (Read_chunk chunk short) \<Longrightarrow> chunk \<noteq> []"
  by (auto simp: block_chunk_def slice_def Let_def simp del: slice_Some split: if_splits)

lemma read_round_chunk:
  assumes "read_round e p off remain blockBuffer s = Some ((Read_chunk chunk short, bb), s1)"
  shows "chunk \<noteq> []"
  using assms by (auto simp: read_round_def Let_def dest: block_chunk_nonempty split: if_splits)

function read_blocks ::
    "'w ext \<Rightarrow> nat \<Rightarrow> int \<Rightarrow> nat \<Rightarrow> bytes \<Rightarrow> bytes \<Rightarrow> 'w buf_state \<Rightarrow> ((int \<times> bytes) \<times> 'w buf_state) option" where
  "read_blocks e p off remain out blockBuffer s =
     (if remain = 0 then Some ((c_int (length out), out), s)
      else do { ((r, bb), s1) \<leftarrow> read_round e p off remain blockBuffer s;
                (case r of
                   Read_failed status \<Rightarrow> Some ((status, out), s1)
                 | Read_eof \<Rightarrow> Some ((c_int (length out), out), s1)
                 | Read_chunk chunk short \<Rightarrow>
                     if short then Some ((c_int (length (out @ chunk)), out @ chunk), s1)
                     else read_blocks e p (off + int (length chunk)) (remain - length chunk) (out @ chunk) bb s1) })"
  by pat_completeness auto
termination
  by (relation "measure (\<lambda>(e, p, off, remain, _). remain)") (auto dest: read_round_chunk)

declare read_blocks.simps [simp del]

definition iFuseBufferedFsRead ::
    "'w ext \<Rightarrow> nat \<Rightarrow> int \<Rightarrow> nat \<Rightarrow> 'w buf_state \<Rightarrow> ((int \<times> bytes) \<times> 'w buf_state) option" where
  "iFuseBufferedFsRead e p off sz s =
     (let (ok, s1) = onLibB (mem_ok e) s
      in if \<not> ok then Some ((SYS_MALLOC_ERR e, []), s1)
         else read_blocks e p off sz [] (zeros (size_t (g_Blocksize s))) s1)"

function write_blocks :: "'w ext \<Rightarrow> nat \<Rightarrow> bytes \<Rightarrow> int \<Rightarrow> 'w buf_state \<Rightarrow> (int \<times> 'w buf_state) option" where
  "write_blocks e p buf off s =
     (if buf = [] then Some (0, s)
      else do { inBlockOffset \<leftarrow> getInBlockOffset (g_Blocksize s) off;
                let inBlockAvail = size_t (g_Blocksize s - inBlockOffset);
                let curSize = (if inBlockAvail > length buf then length buf else inBlockAvail);
                if curSize = 0 then None
                else do { (status, s1) \<leftarrow> writeBlock e p (take curSize buf) off s;
                          if status < 0 then Some (status, s1)
                          else write_blocks e p (drop curSize buf) (off + int curSize) s1 } })"
  by pat_completeness auto
termination
  by (relation "measure (\<lambda>(e, p, buf, _). length buf)") auto

declare write_blocks.simps [simp del]

definition iFuseBufferedFsWrite :: "'w ext \<Rightarrow> nat \<Rightarrow> bytes \<Rightarrow> int \<Rightarrow> 'w buf_state \<Rightarrow> (int \<times> 'w buf_state) option" where
  "iFuseBufferedFsWrite e p buf off s =
     do { (status, s1) \<leftarrow> write_blocks e p buf off s;
          Some (if status < 0 then status else c_int (length buf), s1) }"

end
