(* ===== verification/IFuse_BufferedSafe.thy ===== *)
theory IFuse_BufferedSafe
  imports IFuse_BufferedFS
begin

text \<open>
  The buffered layer stays inside its buffers: the arithmetic of blocks, the invariant of the
  two tables, and that reading, writing and flushing an open file keep it and do not abort as
  long as the offsets stay below \<open>2 ^ 32\<close> blocks and a read does not start behind the end of
  the file's last block.
\<close>

section \<open>The arithmetic of blocks\<close>

lemma c_int_small [simp]: "n < 2 ^ 31 \<Longrightarrow> c_int n = int n"
  unfolding c_int_def by (rule signed_take_bit_int_eq_self) simp_all

lemma size_t_int [simp]: "0 \<le> n \<Longrightarrow> n < 2 ^ 64 \<Longrightarrow> size_t n = nat n"
  by (simp add: size_t_def)

definition block_size_ok :: "int \<Rightarrow> bool" where
  "block_size_ok B \<longleftrightarrow> 0 < B \<and> B < 2 ^ 31"

definition off_ok :: "int \<Rightarrow> int \<Rightarrow> bool" where
  "off_ok B off \<longleftrightarrow> 0 \<le> off \<and> off < 2 ^ 32 * B"

lemma off_div:
  assumes "block_size_ok B" and "off_ok B off"
  shows "0 \<le> off div B" "off div B < 2 ^ 32"
proof -
  show "0 \<le> off div B" using assms by (intro div_int_pos_iff [THEN iffD2]) (auto simp: block_size_ok_def off_ok_def)
  show "off div B < 2 ^ 32"
  proof (rule ccontr)
    assume "\<not> off div B < 2 ^ 32"
    then have "2 ^ 32 * B \<le> off div B * B" using assms(1) by (intro mult_right_mono) (auto simp: block_size_ok_def)
    also have "\<dots> = off - off mod B" by (simp add: minus_mod_eq_div_mult)
    also have "\<dots> \<le> off" using assms(1) by (simp add: block_size_ok_def)
    finally show False using assms(2) by (simp add: off_ok_def)
  qed
qed

lemma getBlockID_ok:
  assumes "block_size_ok B" and "off_ok B off"
  shows "getBlockID B off = Some (word_of_int (off div B))"
    "uint (word_of_int (off div B) :: 32 word) = off div B"
  using assms off_div [OF assms] by (simp_all add: getBlockID_def c_div_nonneg block_size_ok_def off_ok_def
      uint_word_of_int take_bit_int_eq_self)

lemma getBlockStartOffset_ok:
  assumes "block_size_ok B"
  shows "getBlockStartOffset B b = Some (uint b * B)" "off_ok B (uint b * B)"
proof -
  have "uint b < 2 ^ 32" using uint_lt2p [of b] by simp
  then show "getBlockStartOffset B b = Some (uint b * B)" "off_ok B (uint b * B)"
    using assms by (simp_all add: getBlockStartOffset_def block_size_ok_def off_ok_def)
qed

lemma getInBlockOffset_ok:
  assumes "block_size_ok B" and "off_ok B off"
  shows "getInBlockOffset B off = Some (off mod B)"
proof -
  have eq: "off - off div B * B = off mod B" by (metis minus_div_mult_eq_mod)
  have "0 \<le> off mod B" using assms(1) by (simp add: block_size_ok_def)
  then show ?thesis
    using getBlockID_ok [OF assms] getBlockStartOffset_ok(1) [OF assms(1)] eq
    by (simp add: getInBlockOffset_def)
qed

lemma isSameBlock_ok:
  assumes "block_size_ok B" and "off_ok B a" and "off_ok B b"
  shows "isSameBlock B a b = Some (a div B = b div B)"
proof -
  have "word_of_int (a div B) = (word_of_int (b div B) :: 32 word) \<longleftrightarrow> a div B = b div B"
    using getBlockID_ok(2) [OF assms(1,2)] getBlockID_ok(2) [OF assms(1,3)] by metis
  then show ?thesis using getBlockID_ok(1) [OF assms(1,2)] getBlockID_ok(1) [OF assms(1,3)]
    by (simp add: isSameBlock_def)
qed

section \<open>Well-formed entries\<close>

definition entry_ok :: "int \<Rightarrow> iFuseBufferCache \<Rightarrow> bool" where
  "entry_ok B bc \<longleftrightarrow> off_ok B (bc_offset bc) \<and> B dvd bc_offset bc \<and> length (bc_buffer bc) = nat B \<and> bc_size bc \<le> nat B"

text \<open>A piece of data that lies in one block.\<close>

definition piece_ok :: "int \<Rightarrow> int \<Rightarrow> bytes \<Rightarrow> bool" where
  "piece_ok B off buf \<longleftrightarrow> off_ok B off \<and> buf \<noteq> [] \<and> off mod B + int (length buf) \<le> B"

definition delta_ok :: "int \<Rightarrow> iFuseBufferCache \<Rightarrow> bool" where
  "delta_ok B bc \<longleftrightarrow> piece_ok B (bc_offset bc) (bc_buffer bc) \<and> bc_size bc = length (bc_buffer bc)"

definition tables_ok :: "'w buf_state \<Rightarrow> bool" where
  "tables_ok s \<longleftrightarrow> block_size_ok (g_Blocksize s) \<and> map_ok (g_DeltaMap s) \<and> map_ok (g_CacheMap s)
     \<and> (\<forall>x \<in> set (g_DeltaMap s). delta_ok (g_Blocksize s) (snd x))
     \<and> (\<forall>x \<in> set (g_CacheMap s). entry_ok (g_Blocksize s) (snd x))"

definition delta_on :: "int \<Rightarrow> string \<Rightarrow> bytes \<Rightarrow> int \<Rightarrow> iFuseBufferCache \<Rightarrow> iFuseBufferCache" where
  "delta_on B path buf off bc =
     (if bc_iRodsPath bc = path \<and> bc_offset bc div B = off div B
      then bc\<lparr>bc_buffer := overlay (bc_buffer bc) (nat (off - bc_offset bc)) buf,
              bc_size := max (bc_size bc) (nat (off - bc_offset bc) + length buf)\<rparr>
      else bc)"

lemma same_block_sub:
  assumes "block_size_ok B" and "B dvd start" and "start div B = off div B"
  shows "off - start = off mod B" "start \<le> off" "off - start < B"
proof -
  have "start = off div B * B" using assms(2,3) by (metis dvd_div_mult_self)
  then show "off - start = off mod B" by (metis minus_div_mult_eq_mod)
  moreover have "0 \<le> off mod B" "off mod B < B" using assms(1) by (simp_all add: block_size_ok_def)
  ultimately show "start \<le> off" "off - start < B" by linarith+
qed

lemma apply_delta_ok:
  assumes B: "block_size_ok B" and bc: "entry_ok B bc" and piece: "piece_ok B off buf"
  shows "apply_delta B path buf off bc = Some (delta_on B path buf off bc)" "entry_ok B (delta_on B path buf off bc)"
proof -
  have same: "isSameBlock B (bc_offset bc) off = Some (bc_offset bc div B = off div B)"
    using isSameBlock_ok [OF B] bc piece by (simp add: entry_ok_def piece_ok_def)
  have fits: "bc_offset bc \<le> off \<and> nat (off - bc_offset bc) + length buf \<le> nat B" if "bc_offset bc div B = off div B"
    using same_block_sub [OF B _ that] bc piece by (auto simp: entry_ok_def piece_ok_def)
  obtain k where len: "length buf = Suc k" using piece by (cases buf) (simp_all add: piece_ok_def)
  show "apply_delta B path buf off bc = Some (delta_on B path buf off bc)"
    using same fits len bc by (auto simp: apply_delta_def delta_on_def entry_ok_def Let_def)
  show "entry_ok B (delta_on B path buf off bc)"
    using bc fits by (auto simp: delta_on_def entry_ok_def)
qed

lemma apply_delta_all_ok:
  assumes "block_size_ok B" and "piece_ok B off buf" and "\<forall>x \<in> set m. entry_ok B (snd x)"
  shows "apply_delta_all B path buf off m = Some (map (map_prod id (delta_on B path buf off)) m)"
  using assms(3) by (induction m) (auto simp: apply_delta_ok [OF assms(1) _ assms(2)])

lemma map_ok_map_prod [simp]: "map_ok (map (map_prod id f) m) = map_ok m"
  by (simp add: map_ok_def)

lemma find_map_prod [simp]: "map_find (map (map_prod id f) m) k = map_option f (map_find m k)"
  by (induction m) auto

lemma applyDelta_ok:
  assumes "tables_ok s" and "piece_ok (g_Blocksize s) off buf"
  shows "\<exists>s'. applyDeltaToCache path buf off s = Some s' \<and> tables_ok s'
    \<and> s' = s\<lparr>g_CacheMap := map (map_prod id (delta_on (g_Blocksize s) path buf off)) (g_CacheMap s)\<rparr>"
proof -
  let ?m = "map (map_prod id (delta_on (g_Blocksize s) path buf off)) (g_CacheMap s)"
  have "apply_delta_all (g_Blocksize s) path buf off (g_CacheMap s) = Some ?m"
    using assms by (intro apply_delta_all_ok) (auto simp: tables_ok_def)
  moreover have "tables_ok (s\<lparr>g_CacheMap := ?m\<rparr>)"
    using assms by (auto simp: tables_ok_def apply_delta_ok(2))
  ultimately show ?thesis using assms(2) by (simp add: applyDeltaToCache_def piece_ok_def off_ok_def)
qed

lemma find_in_set: "map_find m k = Some v \<Longrightarrow> (k, v) \<in> set m"
  by (rule map_of_SomeD)

lemma tables_okD:
  assumes "tables_ok s"
  shows "block_size_ok (g_Blocksize s)" "map_ok (g_DeltaMap s)" "map_ok (g_CacheMap s)"
    "map_find (g_DeltaMap s) k = Some dl \<Longrightarrow> delta_ok (g_Blocksize s) dl"
    "map_find (g_CacheMap s) i = Some bc \<Longrightarrow> entry_ok (g_Blocksize s) bc"
  using assms by (auto simp: tables_ok_def dest!: find_in_set)

lemma tables_ok_delta_erase: "tables_ok s \<Longrightarrow> tables_ok (s\<lparr>g_DeltaMap := map_erase k (g_DeltaMap s)\<rparr>)"
  using map_erase_subset [of k "g_DeltaMap s"] by (auto simp: tables_ok_def)

lemma tables_ok_cache_erase: "tables_ok s \<Longrightarrow> tables_ok (s\<lparr>g_CacheMap := map_erase k (g_CacheMap s)\<rparr>)"
  using map_erase_subset [of k "g_CacheMap s"] by (auto simp: tables_ok_def)

lemma tables_ok_delta_insert:
  "tables_ok s \<Longrightarrow> delta_ok (g_Blocksize s) bc \<Longrightarrow> tables_ok (s\<lparr>g_DeltaMap := map_insert k bc (g_DeltaMap s)\<rparr>)"
  by (auto simp: tables_ok_def dest: set_map_insert_cases)

lemma tables_ok_cache_insert:
  "tables_ok s \<Longrightarrow> entry_ok (g_Blocksize s) bc \<Longrightarrow> tables_ok (s\<lparr>g_CacheMap := map_insert k bc (g_CacheMap s)\<rparr>)"
  by (auto simp: tables_ok_def dest: set_map_insert_cases)

lemma tables_ok_bfs [simp]: "tables_ok (s\<lparr>bfs := t\<rparr>) = tables_ok s"
  by (simp add: tables_ok_def)

section \<open>What a step of the layer keeps\<close>

text \<open>
  \<open>buf_io p s s'\<close>: below, only the descriptor \<open>p\<close> and the pool were touched; the tables are
  still well formed, and of the deltas only that of \<open>p\<close>'s path may have changed.
\<close>

definition buf_io :: "nat \<Rightarrow> 'w buf_state \<Rightarrow> 'w buf_state \<Rightarrow> bool" where
  "buf_io p s s' \<longleftrightarrow> io_ok p (bfs s) (bfs s') \<and> tables_ok s' \<and> g_Blocksize s' = g_Blocksize s
     \<and> (\<forall>d k. fd_heap (fds (bfs s)) p = Some d \<longrightarrow> k \<noteq> fd_iRodsPath d \<longrightarrow>
          map_find (g_DeltaMap s') k = map_find (g_DeltaMap s) k)"

lemma buf_ioI:
  assumes "io_ok p (bfs s) (bfs s')" and "tables_ok s'" and "g_Blocksize s' = g_Blocksize s"
    and "\<And>d k. fd_heap (fds (bfs s)) p = Some d \<Longrightarrow> k \<noteq> fd_iRodsPath d \<Longrightarrow> map_find (g_DeltaMap s') k = map_find (g_DeltaMap s) k"
  shows "buf_io p s s'"
  using assms by (auto simp: buf_io_def)

lemma buf_io_refl: "tables_ok s \<Longrightarrow> fd_heap (fds (bfs s)) p = Some d \<Longrightarrow> buf_io p s s"
  by (intro buf_ioI) (auto intro: io_ok_refl)

lemma buf_ioD:
  assumes "buf_io p s s'"
  shows "io_ok p (bfs s) (bfs s')" "tables_ok s'" "g_Blocksize s' = g_Blocksize s"
    "fd_heap (fds (bfs s)) p = Some d \<Longrightarrow> k \<noteq> fd_iRodsPath d \<Longrightarrow> map_find (g_DeltaMap s') k = map_find (g_DeltaMap s) k"
    "fs_inv (bfs s) \<Longrightarrow> fs_inv (bfs s')"
    "fd_heap (fds (bfs s)) p = Some d \<Longrightarrow> \<exists>d'. fd_heap (fds (bfs s')) p = Some d' \<and> fd_same d d'"
  using assms by (auto simp: buf_io_def intro: io_ok_fd io_okD(1))

lemma buf_io_trans:
  assumes "buf_io p s s'" and "buf_io p s' s''"
  shows "buf_io p s s''"
proof (rule buf_ioI)
  fix d k assume d: "fd_heap (fds (bfs s)) p = Some d" "k \<noteq> fd_iRodsPath d"
  from buf_ioD(6) [OF assms(1) d(1)] obtain d' where d': "fd_heap (fds (bfs s')) p = Some d'" "fd_same d d'" by blast
  then show "map_find (g_DeltaMap s'') k = map_find (g_DeltaMap s) k"
    using buf_ioD(4) [OF assms(1) d] buf_ioD(4) [OF assms(2) d'(1), of k] d(2) by (simp add: fd_same_def)
qed (use assms in \<open>auto simp: buf_io_def intro: io_ok_trans\<close>)

text \<open>An allocation, a call below, and a change of the tables.\<close>

lemma put_lib_io:
  assumes "fd_heap (fds s) p = Some d" and "lib_same (get_lib s) l"
  shows "io_ok p s (put_lib l s)"
proof -
  have "rc_le (rcs (conns (fds s))) ((rcs (conns (fds s)))\<lparr>lib := l\<rparr>)"
    using assms(2) by (auto simp: rc_le_def lib_same_def ops_ok_def get_lib_def)
  from io_ok_conn [OF assms(1) touch_ok_rcs [OF this]] show ?thesis by (simp add: put_lib_def)
qed

lemma mem_io:
  assumes "fd_heap (fds (bfs s)) p = Some d" and "onLibB (mem_ok e) s = (ok, s1)"
  shows "io_ok p (bfs s) (bfs s1)" "s1 = s\<lparr>bfs := bfs s1\<rparr>" "fd_heap (fds (bfs s1)) = fd_heap (fds (bfs s))"
  using assms(2) put_lib_io [OF assms(1)]
  by (auto simp: onLibB_def put_lib_def dest!: lib_same_mem split: prod.splits)

lemma newBufferCache_io:
  assumes "fd_heap (fds (bfs s)) p = Some d" and "newBufferCache e s = (r, s1)"
  shows "io_ok p (bfs s) (bfs s1)" "s1 = s\<lparr>bfs := bfs s1\<rparr>" "fd_heap (fds (bfs s1)) = fd_heap (fds (bfs s))"
    "r = (0, Some zero_bufferCache) \<or> r = (SYS_MALLOC_ERR e, None)"
  using assms(2) mem_io [OF assms(1), of e] by (auto simp: newBufferCache_def split: prod.splits if_splits)

lemma buf_io_below:
  assumes "tables_ok s" and "io_ok p (bfs s) t"
  shows "buf_io p s (s\<lparr>bfs := t\<rparr>)"
  using assms by (intro buf_ioI) auto

lemma buf_io_tables:
  assumes "fd_heap (fds (bfs s)) p = Some d" and "tables_ok s'" and "bfs s' = bfs s" and "g_Blocksize s' = g_Blocksize s"
    and "\<And>k. k \<noteq> fd_iRodsPath d \<Longrightarrow> map_find (g_DeltaMap s') k = map_find (g_DeltaMap s) k"
  shows "buf_io p s s'"
  using assms io_ok_refl [of "bfs s" p d] by (intro buf_ioI) auto

lemma Write_io:
  assumes "tables_ok s" and "fs_inv (bfs s)" and "fd_heap (fds (bfs s)) p = Some d"
  shows "\<exists>st s'. onFs (iFuseFsWrite e p buf off) s = Some (st, s') \<and> buf_io p s s' \<and> s' = s\<lparr>bfs := bfs s'\<rparr>"
proof -
  from Write_live [OF assms(2,3), of e buf off] obtain st t where
    w: "iFuseFsWrite e p buf off (bfs s) = Some (st, t)" "io_ok p (bfs s) t" by blast
  with buf_io_below [OF assms(1) w(2)] show ?thesis by (simp add: onFs_def)
qed

text \<open>
  What the layer relies on in the server's answers: a read answers with at most what was asked
  for, and a seek that reports success says where it went.
\<close>

definition replies_ok :: "'w ext \<Rightarrow> bool" where
  "replies_ok e \<longleftrightarrow> read_reply_ok e
     \<and> (\<forall>conn n off w st out w'. rcDataObjLseek e conn n off w = ((st, out), w') \<longrightarrow> 0 \<le> st \<longrightarrow> out \<noteq> None)"

lemma replies_malloc: "replies_ok e \<Longrightarrow> SYS_MALLOC_ERR e < 0"
  by (simp add: replies_ok_def read_reply_ok_def)

lemma lseek_reply:
  assumes "replies_ok e" and "iFuseRodsClientDataObjLseek e conn fd off r = ((st, out), r')" and "0 \<le> st"
  shows "out \<noteq> None"
  using tracked_call_result [OF assms(2) [unfolded iFuseRodsClientDataObjLseek_def]] assms(1,3)
  unfolding replies_ok_def read_reply_ok_def by fastforce

lemma seek_to_fails:
  assumes "replies_ok e" and "seek_to e p cp off s = Some (Some st, s')"
  shows "st < 0"
proof -
  from assms(2) obtain d where d: "fd_heap (fds s) p = Some d" "fd_lastFilePointer d \<noteq> off"
    by (auto simp: seek_to_def split: if_splits)
  let ?call = "\<lambda>conn. iFuseRodsClientDataObjLseek e conn (fd_fd d) off"
  let ?failed = "\<lambda>(st, lseekOut). st < 0 \<or> lseekOut = None"
  from assms(2) d obtain out s1 where o: "onC (call_retry e True ?failed fst ?call cp) s = Some (out, s1)"
    by (auto simp: seek_to_def)
  from onC_conn [OF o] obtain c1 where c1: "call_retry e True ?failed fst ?call cp (conns (fds s)) = Some (out, c1)" by blast
  show ?thesis
  proof (cases "\<exists>r. out = Call_ok r")
    case True
    then show ?thesis using assms(2) d o by (auto simp: seek_to_def split: if_splits)
  next
    case False
    then have st: "st = fst (result out)" using assms(2) d o by (auto simp: seek_to_def split: outcome.splits)
    from call_retry_from [OF c1] obtain conn r r' where
      l: "?call conn r = (result out, r')" "(\<forall>y. out \<noteq> Call_ok y) \<longrightarrow> ?failed (result out)" by (elim exE conjE)
    have "?failed (result out)" using l(2) False by simp
    moreover have "?call conn r = ((fst (result out), snd (result out)), r')" using l(1) by simp
    note lseek_reply [OF assms(1) this]
    ultimately have "\<not> 0 \<le> st" using st by (auto simp: case_prod_unfold)
    then show ?thesis by simp
  qed
qed

lemma read_locked_size:
  assumes "replies_ok e" and "read_locked e p cp off sz s = Some ((st, dat), s')" and "0 \<le> st"
  shows "length dat = nat st \<and> nat st \<le> sz"
proof -
  from assms(2) obtain early s1 where sk: "seek_to e p cp off s = Some (early, s1)" by (auto simp: read_locked_def)
  have "early = None" using sk assms seek_to_fails [OF assms(1)] by (cases early) (force simp: read_locked_def)+
  with sk obtain d out s2 where d: "fd_heap (fds s1) p = Some d"
    and o: "onC (call_retry e True (\<lambda>(st, _). st < 0) fst (\<lambda>conn. iFuseRodsClientDataObjRead e conn (fd_fd d) sz) cp) s1 = Some (out, s2)"
    using assms(2) by (auto simp: read_locked_def)
  from onC_conn [OF o] obtain c where
    c: "call_retry e True (\<lambda>(st, _). st < 0) fst (\<lambda>conn. iFuseRodsClientDataObjRead e conn (fd_fd d) sz) cp (conns (fds s1)) = Some (out, c)"
    by blast
  from call_retry_from [OF c] have neg: "(\<forall>y. out \<noteq> Call_ok y) \<longrightarrow> fst (result out) < 0" by (auto simp: case_prod_unfold)
  show ?thesis using assms(2,3) sk \<open>early = None\<close> d o
    by (cases out) (auto simp: read_locked_def slice_def split: if_splits)
qed

lemma Read_size:
  assumes "replies_ok e" and "iFuseFsRead e p off sz s = Some ((st, dat), s')" and "0 \<le> st"
  shows "length dat = nat st" "nat st \<le> sz"
proof -
  from assms(2) obtain cp s2 s3 where "read_locked e p cp off sz s2 = Some ((st, dat), s3)"
    by (auto simp: iFuseFsRead_def with_fd_lock_def split: if_splits)
  from read_locked_size [OF assms(1) this assms(3)] show "length dat = nat st" "nat st \<le> sz" by simp_all
qed

section \<open>Reading a block\<close>

lemma block_size_nat:
  assumes "block_size_ok B"
  shows "size_t B = nat B" "int (nat B) = B" "0 < nat B" "nat B < 2 ^ 31"
proof -
  show "size_t B = nat B" using assms by (intro size_t_int) (simp_all add: block_size_ok_def)
  show "nat B < 2 ^ 31" using assms by (simp add: block_size_ok_def nat_less_iff)
qed (use assms in \<open>simp_all add: block_size_ok_def\<close>)

lemma fetch_block_live:
  assumes replies: "replies_ok e" and ok: "tables_ok s" and inv: "fs_inv (bfs s)"
    and d: "fd_heap (fds (bfs s)) p = Some d" and start: "off_ok (g_Blocksize s) start" "g_Blocksize s dvd start"
  shows "\<exists>r s'. fetch_block e p d start s = Some (r, s') \<and> buf_io p s s' \<and> g_DeltaMap s' = g_DeltaMap s
    \<and> (case r of Inl st \<Rightarrow> st < 0 | Inr bc \<Rightarrow> entry_ok (g_Blocksize s) bc \<and> bc_offset bc = start)"
proof -
  let ?s0 = "s\<lparr>g_CacheMap := map_erase (fd_fdId d) (g_CacheMap s)\<rparr>" and ?B = "g_Blocksize s"
  note B = block_size_nat [OF tables_okD(1) [OF ok]]
  have t0: "tables_ok ?s0" using tables_ok_cache_erase [OF ok] .
  have io0: "buf_io p s ?s0" by (rule buf_io_tables [OF d t0]) simp_all
  have d0: "fd_heap (fds (bfs ?s0)) p = Some d" using d by simp
  obtain r1 s1 where 1: "newBufferCache e ?s0 = (r1, s1)" by (rule prod.exhaust)
  note n1 = newBufferCache_io [OF d0 1]
  have io1: "buf_io p s s1" using buf_io_trans [OF io0 buf_io_below [OF t0 n1(1)]] n1(2) by simp
  have d1: "fd_heap (fds (bfs s1)) p = Some d" using n1(3) d by simp
  obtain ok2 s2 where 2: "onLibB (mem_ok e) s1 = (ok2, s2)" by force
  note n2 = mem_io [OF d1 2]
  have io2: "buf_io p s s2" using buf_io_trans [OF io1 buf_io_below [OF buf_ioD(2) [OF io1] n2(1)]] n2(2) by simp
  have dm: "g_DeltaMap s2 = g_DeltaMap s" "g_DeltaMap s1 = g_DeltaMap s" by (subst n2(2), simp, subst n1(2), simp)+ (subst n1(2), simp)
  show ?thesis
  proof (cases "r1 = (0, Some zero_bufferCache) \<and> ok2")
    case False
    then show ?thesis using n1(4) 1 2 io1 io2 dm replies_malloc [OF replies] by (auto simp: fetch_block_def Let_def)
  next
    case True
    have d2: "fd_heap (fds (bfs s2)) p = Some d" using n2(3) d1 by simp
    from Read_live [OF buf_ioD(5) [OF io2 inv] d2, of e start "nat ?B"] replies obtain st dat t where
      3: "iFuseFsRead e p start (nat ?B) (bfs s2) = Some ((st, dat), t)" "io_ok p (bfs s2) t"
      by (auto simp: replies_ok_def split: option.splits)
    let ?s3 = "s2\<lparr>bfs := t\<rparr>"
    have io3: "buf_io p s ?s3" using buf_io_trans [OF io2 buf_io_below [OF buf_ioD(2) [OF io2] 3(2)]] .
    show ?thesis
    proof (cases "st < 0")
      case neg: True
      then show ?thesis using True 1 2 3 io3 dm B by (simp add: fetch_block_def onFs_def)
    next
      case False
      note sz = Read_size [OF replies 3(1)]
      let ?buf = "overlay (zeros (nat ?B)) 0 dat"
      let ?bc = "zero_bufferCache\<lparr>bc_fdId := fd_fdId d, bc_iRodsPath := fd_iRodsPath d, bc_buffer := ?buf,
        bc_offset := start, bc_size := nat st\<rparr>"
      have bc: "entry_ok ?B ?bc" using sz False start by (simp add: entry_ok_def)
      let ?s4 = "?s3\<lparr>g_CacheMap := map_insert (fd_fdId d) ?bc (g_CacheMap ?s3)\<rparr>"
      from buf_ioD(6) [OF io3 d] obtain d3 where d3: "fd_heap (fds (bfs ?s3)) p = Some d3" by blast
      have "tables_ok ?s4" using tables_ok_cache_insert [OF buf_ioD(2) [OF io3]] bc buf_ioD(3) [OF io3] by simp
      then have "buf_io p ?s3 ?s4" by (intro buf_io_tables [OF d3]) simp_all
      with io3 have "buf_io p s ?s4" by (rule buf_io_trans)
      then show ?thesis using True 1 2 3 dm B False sz bc by (simp add: fetch_block_def onFs_def Let_def)
    qed
  qed
qed

lemma cached_block_live:
  assumes replies: "replies_ok e" and ok: "tables_ok s" and inv: "fs_inv (bfs s)"
    and d: "fd_heap (fds (bfs s)) p = Some d" and start: "off_ok (g_Blocksize s) start" "g_Blocksize s dvd start"
  shows "\<exists>r s'. cached_block e p d start s = Some (r, s') \<and> buf_io p s s' \<and> g_DeltaMap s' = g_DeltaMap s
    \<and> (case r of Inl st \<Rightarrow> st < 0 | Inr bc \<Rightarrow> entry_ok (g_Blocksize s) bc \<and> bc_offset bc = start)"
  using fetch_block_live [OF assms] buf_io_refl [OF ok d] tables_okD(5) [OF ok]
  by (auto simp: cached_block_def split: option.split)

text \<open>The delta laid over a block: the size and the bytes.\<close>

definition over :: "int \<Rightarrow> iFuseBufferCache option \<Rightarrow> int \<Rightarrow> nat \<Rightarrow> bytes \<Rightarrow> nat \<times> bytes" where
  "over B delta start n buf =
     (case delta of
        None \<Rightarrow> (n, buf)
      | Some dl \<Rightarrow> if bc_offset dl div B = start div B
                   then (max n (nat (bc_offset dl - start) + bc_size dl), overlay buf (nat (bc_offset dl - start)) (bc_buffer dl))
                   else (n, buf))"

lemma copy_entry_whole:
  "bc_size bc = length (bc_buffer bc) \<Longrightarrow> off + bc_size bc \<le> length dst \<Longrightarrow> copy_entry dst off bc = Some (overlay dst off (bc_buffer bc))"
  by (simp add: copy_entry_def slice_def memcpy_def)

lemma delta_over_ok:
  assumes B: "block_size_ok B" and delta: "\<And>dl. delta = Some dl \<Longrightarrow> delta_ok B dl"
    and buf: "length buf = nat B" "n \<le> nat B"
  shows "delta_over B delta b (uint b * B) n buf = Some (over B delta (uint b * B) n buf)
    \<and> length (snd (over B delta (uint b * B) n buf)) = nat B \<and> fst (over B delta (uint b * B) n buf) \<le> nat B"
proof (cases delta)
  case None
  then show ?thesis using buf by (simp add: delta_over_def over_def)
next
  case (Some dl)
  note dl = delta [OF Some, unfolded delta_ok_def piece_ok_def]
  have b: "uint b * B div B = uint b" using B by (simp add: block_size_ok_def)
  have id: "getBlockID B (bc_offset dl) = Some (word_of_int (bc_offset dl div B))"
    "(word_of_int (bc_offset dl div B) = b) = (bc_offset dl div B = uint b)"
    using getBlockID_ok [OF B, of "bc_offset dl"] dl by auto
  show ?thesis
  proof (cases "bc_offset dl div B = uint b")
    case True
    from same_block_sub [OF B _ , of "uint b * B" "bc_offset dl"] b True dl
    have "uint b * B \<le> bc_offset dl" and fits: "nat (bc_offset dl - uint b * B) + bc_size dl \<le> nat B" by auto
    then show ?thesis using Some id True b copy_entry_whole [of dl] dl buf
      by (auto simp: delta_over_def over_def max_def Let_def)
  next
    case False
    then show ?thesis using Some id b buf by (simp add: delta_over_def over_def)
  qed
qed

lemma copy_entry_ok:
  "entry_ok B bc \<Longrightarrow> length buf = nat B \<Longrightarrow> copy_entry buf 0 bc = Some (overlay buf 0 (take (bc_size bc) (bc_buffer bc)))
    \<and> length (overlay buf 0 (take (bc_size bc) (bc_buffer bc))) = nat B"
  by (simp add: copy_entry_def slice_def memcpy_def entry_ok_def)

lemma readBlock_live:
  assumes replies: "replies_ok e" and ok: "tables_ok s" and inv: "fs_inv (bfs s)"
    and d: "fd_heap (fds (bfs s)) p = Some d" and buf: "length buf = nat (g_Blocksize s)"
  shows "\<exists>st buf' s'. readBlock e p buf b s = Some ((st, buf'), s') \<and> buf_io p s s' \<and> g_DeltaMap s' = g_DeltaMap s
    \<and> length buf' = nat (g_Blocksize s) \<and> st \<le> g_Blocksize s"
proof -
  let ?B = "g_Blocksize s"
  note B = tables_okD(1) [OF ok]
  note start = getBlockStartOffset_ok [OF B, of b]
  from cached_block_live [OF replies ok inv d start(2)] obtain r s1 where
    1: "cached_block e p d (uint b * ?B) s = Some (r, s1)" "buf_io p s s1" "g_DeltaMap s1 = g_DeltaMap s"
      "case r of Inl st \<Rightarrow> st < 0 | Inr bc \<Rightarrow> entry_ok ?B bc \<and> bc_offset bc = uint b * ?B" by auto
  show ?thesis
  proof (cases r)
    case (Inl st)
    then show ?thesis using 1 d start(1) buf B by (simp add: readBlock_def block_size_ok_def)
  next
    case (Inr bc)
    with 1(4) have bc: "entry_ok ?B bc" by simp
    note c = copy_entry_ok [OF bc buf]
    have dl: "delta_ok ?B dl" if "map_find (g_DeltaMap s1) (fd_iRodsPath d) = Some dl" for dl
      using tables_okD(4) [OF ok] that 1(3) by simp
    have sz: "bc_size bc \<le> nat ?B" using bc by (simp add: entry_ok_def)
    note o = delta_over_ok [OF B _ c [THEN conjunct2] sz, of "map_find (g_DeltaMap s1) (fd_iRodsPath d)" b, OF dl]
    obtain n out where no: "over ?B (map_find (g_DeltaMap s1) (fd_iRodsPath d)) (uint b * ?B) (bc_size bc)
        (overlay buf 0 (take (bc_size bc) (bc_buffer bc))) = (n, out)" by (rule prod.exhaust)
    have n: "n \<le> nat ?B" using o no by simp
    have "n < 2 ^ 31" "int n \<le> ?B" using n block_size_nat(2,4) [OF B] by linarith+
    then show ?thesis
      using 1 d start(1) Inr c o sz no B buf_ioD(3) [OF 1(2)] by (simp add: readBlock_def block_size_ok_def)
  qed
qed

section \<open>Reading\<close>

lemma slice_past: "length xs < off + n \<Longrightarrow> slice xs off n = None"
  by (simp add: slice_def)

lemma block_chunk_ok:
  assumes B: "block_size_ok B" and i: "0 \<le> i" "i < B" and n: "n \<le> nat (B - i)" and bb: "length bb = nat B" "sz \<le> nat B"
  shows "block_chunk B i n sz bb =
     (if sz < nat i then None
      else if min n (sz - nat i) = 0 then Some Read_eof
      else Some (Read_chunk (take (min n (sz - nat i)) (drop (nat i) bb)) (sz < nat B)))"
proof -
  have i': "i = int (nat i)" using i by simp
  have le: "nat i + n \<le> nat B" using n i by linarith
  have s1: "size_t (i + int n) = nat i + n"
    using le i B block_size_nat(4) [OF B] by (subst size_t_int) (auto simp: nat_add_distrib)
  note s2 = block_size_nat(1) [OF B]
  show ?thesis
  proof (cases "sz < nat i")
    case True
    have lt: "i < 2 ^ 31" using i B by (simp add: block_size_ok_def)
    have "int sz - i < 0" "- (2 ^ 64) < int sz - i" using True i lt by simp_all
    then have "(int sz - i) mod 2 ^ 64 = int sz - i + 2 ^ 64"
      by (subst mod_add_self2 [symmetric], intro mod_pos_pos_trivial) auto
    then have "size_t (int sz - i) = nat (int sz - i + 2 ^ 64)" by (simp add: size_t_def)
    moreover have "2 ^ 31 < int sz - i + 2 ^ 64" using lt by simp
    ultimately have big: "nat B < size_t (int sz - i)" using B by (simp add: block_size_ok_def)
    then have "slice bb (nat i) (size_t (int sz - i)) = None" using bb by (intro slice_past) simp
    then show ?thesis using True big s1 by (simp add: block_chunk_def)
  next
    case False
    have s3: "size_t (int sz - i) = sz - nat i"
      using False i bb block_size_nat(4) [OF B] by (subst size_t_int) auto
    show ?thesis using False s1 s2 s3 le bb by (auto simp: block_chunk_def slice_def Let_def min_def)
  qed
qed

text \<open>
  The one way a read can run out of its buffer: it starts in a block that holds data, but
  behind that data.
\<close>

definition starts_behind :: "'w ext \<Rightarrow> nat \<Rightarrow> int \<Rightarrow> bytes \<Rightarrow> 'w buf_state \<Rightarrow> bool" where
  "starts_behind e p off bb s \<longleftrightarrow>
     (\<exists>st buf' s1. readBlock e p bb (word_of_int (off div g_Blocksize s)) s = Some ((st, buf'), s1)
        \<and> 0 < st \<and> st < off mod g_Blocksize s)"

lemma read_round_live:
  assumes replies: "replies_ok e" and ok: "tables_ok s" and inv: "fs_inv (bfs s)"
    and d: "fd_heap (fds (bfs s)) p = Some d" and bb: "length bb = nat (g_Blocksize s)"
    and off: "off_ok (g_Blocksize s) off"
  shows "case read_round e p off remain bb s of
      None \<Rightarrow> starts_behind e p off bb s
    | Some ((r, bb'), s') \<Rightarrow> buf_io p s s' \<and> length bb' = nat (g_Blocksize s)
        \<and> (case r of Read_failed st \<Rightarrow> st < 0 | Read_eof \<Rightarrow> True
           | Read_chunk chunk short \<Rightarrow> length chunk \<le> remain
               \<and> (short \<or> length chunk = remain \<or> (off + int (length chunk)) mod g_Blocksize s = 0))"
proof -
  let ?B = "g_Blocksize s" and ?b = "word_of_int (off div g_Blocksize s) :: 32 word"
  note B = tables_okD(1) [OF ok]
  from readBlock_live [OF replies ok inv d bb, of ?b] obtain st bb' s' where
    1: "readBlock e p bb ?b s = Some ((st, bb'), s')" "buf_io p s s'" "length bb' = nat ?B" "st \<le> ?B" by auto
  have i: "0 \<le> off mod ?B" "off mod ?B < ?B" using B by (simp_all add: block_size_ok_def)
  have av: "size_t (?B - off mod ?B) = nat (?B - off mod ?B)"
    using i B by (intro size_t_int) (auto simp: block_size_ok_def)
  define cur where "cur = (if nat (?B - off mod ?B) > remain then remain else nat (?B - off mod ?B))"
  have cur: "cur \<le> nat (?B - off mod ?B)" by (simp add: cur_def)
  have sz: "nat st \<le> nat ?B" using 1(4) by simp
  note bc = block_chunk_ok [OF B i cur 1(3) sz]
  have run: "read_round e p off remain bb s =
      (if st < 0 then Some ((Read_failed st, bb'), s') else if st = 0 then Some ((Read_eof, bb'), s')
       else do { r \<leftarrow> block_chunk ?B (off mod ?B) cur (nat st) bb'; Some ((r, bb'), s') })"
    using getBlockID_ok(1) [OF B off] getInBlockOffset_ok [OF B off] av 1(1)
    by (simp add: read_round_def cur_def Let_def)
  show ?thesis
  proof (cases "0 < st \<and> st < off mod ?B")
    case True
    then have "nat st < nat (off mod ?B)" by simp
    then show ?thesis using True 1 by (simp add: run bc) (auto simp: starts_behind_def)
  next
    case False
    have whole: "(off + int cur) mod ?B = 0" if "cur \<noteq> remain"
    proof -
      have "int cur = ?B - off mod ?B" using that i by (auto simp: cur_def split: if_splits)
      then have "off + int cur = ?B + (off - off mod ?B)" by simp
      then show ?thesis by (simp add: minus_mod_eq_mult_div)
    qed
    have le: "cur \<le> remain" by (simp add: cur_def)
    consider "st \<le> 0" | "0 < st" "\<not> nat st < nat (off mod ?B)" using False by fastforce
    then show ?thesis
    proof cases
      case 1
      then show ?thesis using \<open>buf_io p s s'\<close> \<open>length bb' = nat ?B\<close> by (simp add: run)
    next
      case 2
      let ?n = "min cur (nat st - nat (off mod ?B))"
      have "block_chunk ?B (off mod ?B) cur (nat st) bb' =
          Some (if ?n = 0 then Read_eof else Read_chunk (take ?n (drop (nat (off mod ?B)) bb')) (nat st < nat ?B))"
        by (subst bc, subst if_not_P [OF 2(2)]) (rule if_distrib [where f = Some, symmetric])
      with 2 have r: "read_round e p off remain bb s =
          Some ((if ?n = 0 then Read_eof else Read_chunk (take ?n (drop (nat (off mod ?B)) bb')) (nat st < nat ?B), bb'), s')"
        by (simp add: run split del: if_split)
      have n: "length (take ?n (drop (nat (off mod ?B)) bb')) = ?n"
      proof -
        have "?n \<le> length (drop (nat (off mod ?B)) bb')"
          unfolding length_drop \<open>length bb' = nat ?B\<close>
          by (rule order_trans [OF min.cobounded2 diff_le_mono [OF sz]])
        then show ?thesis by (rule length_take [THEN trans, OF min_absorb2])
      qed
      have "nat st < nat ?B \<or> ?n = cur"
      proof (cases "nat st = nat ?B")
        case True
        have "nat (?B - off mod ?B) = nat ?B - nat (off mod ?B)" using i by (intro nat_diff_distrib) simp_all
        then show ?thesis using cur True by simp
      next
        case False
        with sz have "nat st < nat ?B" by (rule le_neq_implies_less)
        then show ?thesis ..
      qed
      with whole have "nat st < nat ?B \<or> ?n = remain \<or> (off + int ?n) mod ?B = 0" by metis
      moreover have "?n \<le> remain" using le by (rule min.coboundedI1)
      ultimately show ?thesis
        using r n \<open>buf_io p s s'\<close> \<open>length bb' = nat ?B\<close> by (simp only: r n option.case prod.case) (simp only: n read_result.case simp_thms split: if_split)
    qed
  qed
qed

lemma starts_behind_aligned: "off mod g_Blocksize s = 0 \<Longrightarrow> \<not> starts_behind e p off bb s"
  by (auto simp: starts_behind_def)

lemma off_ok_range:
  assumes "0 \<le> off" and "off + int n \<le> 2 ^ 32 * B" and "0 < n"
  shows "off_ok B off"
  using assms by (simp add: off_ok_def)

lemma read_blocks_live:
  assumes "replies_ok e" and "tables_ok s" and "fs_inv (bfs s)" and "fd_heap (fds (bfs s)) p = Some d"
    and "length bb = nat (g_Blocksize s)" and "0 \<le> off" and "off + int remain \<le> 2 ^ 32 * g_Blocksize s"
  shows "case read_blocks e p off remain out bb s of
      None \<Rightarrow> 0 < remain \<and> starts_behind e p off bb s
    | Some (r, s') \<Rightarrow> buf_io p s s'"
  using assms
proof (induction remain arbitrary: off out bb s d rule: less_induct)
  case (less remain)
  show ?case
  proof (cases "remain = 0")
    case True
    then show ?thesis using buf_io_refl [OF less.prems(2,4)] by (simp add: read_blocks.simps)
  next
    case False
    have off: "off_ok (g_Blocksize s) off" using less.prems(6,7) False by (intro off_ok_range) auto
    note live = read_round_live [OF less.prems(1-5) off, of remain]
    show ?thesis
    proof (cases "read_round e p off remain bb s")
      case None
      then show ?thesis using live False by (subst read_blocks.simps) simp
    next
      case (Some x)
      obtain r bb' s1 where x: "x = ((r, bb'), s1)" by (cases x) auto
      note run = Some [unfolded x]
      from live run have io: "buf_io p s s1" "length bb' = nat (g_Blocksize s)" by simp_all
      show ?thesis
      proof (cases "\<exists>chunk. r = Read_chunk chunk False")
        case no: False
        then show ?thesis using run False io(1)
          by (subst read_blocks.simps) (auto split: read_result.split)
      next
        case True
        then obtain chunk where r: "r = Read_chunk chunk False" ..
        from live run r have c: "length chunk \<le> remain"
          "length chunk = remain \<or> (off + int (length chunk)) mod g_Blocksize s = 0" by simp_all
        have ne: "chunk \<noteq> []" using read_round_chunk run r by metis
        from buf_ioD(6) [OF io(1) less.prems(4)] obtain d1 where d1: "fd_heap (fds (bfs s1)) p = Some d1" by blast
        let ?rest = "read_blocks e p (off + int (length chunk)) (remain - length chunk) (out @ chunk) bb' s1"
        have IH: "case ?rest of None \<Rightarrow> 0 < remain - length chunk \<and> starts_behind e p (off + int (length chunk)) bb' s1
            | Some (r, s') \<Rightarrow> buf_io p s1 s'"
          by (rule less.IH [OF _ less.prems(1) buf_ioD(2) [OF io(1)] buf_ioD(5) [OF io(1) less.prems(3)] d1])
             (use c(1) ne False io less.prems(6,7) buf_ioD(3) [OF io(1)] in auto)
        have "?rest \<noteq> None"
        proof
          assume "?rest = None"
          with IH have "0 < remain - length chunk" "starts_behind e p (off + int (length chunk)) bb' s1" by simp_all
          with c(2) starts_behind_aligned buf_ioD(3) [OF io(1)] show False by (metis diff_self_eq_0 less_numeral_extra(3))
        qed
        then obtain y s2 where rest: "?rest = Some (y, s2)" by (metis not_None_eq surj_pair)
        then have "buf_io p s s2" using IH buf_io_trans [OF io(1)] by simp
        moreover have "read_blocks e p off remain out bb s = Some (y, s2)"
          using run r False rest by (subst read_blocks.simps) simp
        ultimately show ?thesis by simp
      qed
    qed
  qed
qed

lemma Read_buffered_live:
  assumes "replies_ok e" and ok: "tables_ok s" and inv: "fs_inv (bfs s)" and d: "fd_heap (fds (bfs s)) p = Some d"
    and "0 \<le> off" and "off + int sz \<le> 2 ^ 32 * g_Blocksize s"
  shows "case iFuseBufferedFsRead e p off sz s of
      None \<Rightarrow> 0 < sz \<and> starts_behind e p off (zeros (nat (g_Blocksize s))) (snd (onLibB (mem_ok e) s))
    | Some (r, s') \<Rightarrow> buf_io p s s'"
proof -
  obtain ok1 s1 where 1: "onLibB (mem_ok e) s = (ok1, s1)" by (rule prod.exhaust)
  note m = mem_io [OF d 1]
  have io: "buf_io p s s1" using buf_io_below [OF ok m(1)] m(2) by simp
  have d1: "fd_heap (fds (bfs s1)) p = Some d" using m(3) d by simp
  note B = block_size_nat(1) [OF tables_okD(1) [OF ok]]
  have Bs: "g_Blocksize s1 = g_Blocksize s" by (subst m(2)) simp
  note live = read_blocks_live [OF assms(1) buf_ioD(2) [OF io] buf_ioD(5) [OF io inv] d1,
      where bb = "zeros (nat (g_Blocksize s))" and off = off and remain = sz and out = "[]"]
  show ?thesis
  proof (cases ok1)
    case True
    then show ?thesis
      using live assms(5,6) 1 B Bs io buf_io_trans [OF io] by (auto simp: iFuseBufferedFsRead_def split: option.splits)
  next
    case False
    then show ?thesis using 1 io by (simp add: iFuseBufferedFsRead_def)
  qed
qed

section \<open>Writing and flushing\<close>

text \<open>Extending the delta: it stays inside its block, and says what writing twice says.\<close>

definition joined :: "iFuseBufferCache \<Rightarrow> bytes \<Rightarrow> int \<Rightarrow> bytes" where
  "joined bc buf off =
     (if bc_offset bc \<le> off then overlay (bc_buffer bc) (nat (off - bc_offset bc)) buf
      else overlay (overlay buf (nat (bc_offset bc - off)) (bc_buffer bc)) 0 buf)"

lemma overlay_zeros_0: "n = max (length src) (k + length buf) \<Longrightarrow> overlay (overlay (zeros n) 0 src) k buf = overlay src k buf"
  by (rule bytes_eqI) (auto simp: byte_at_overlay byte_at_beyond)

lemma overlay_zeros_later:
  "n = max (length buf) (k + length src) \<Longrightarrow> overlay (overlay (zeros n) k src) 0 buf = overlay (overlay buf k src) 0 buf"
  by (rule bytes_eqI) (auto simp: byte_at_overlay byte_at_beyond)

lemma mod_in_block: "a div B = b div B \<Longrightarrow> a mod B = b mod B + (a - b)" for a b B :: int
  by (metis (no_types) add_diff_cancel_left add_diff_eq diff_add_cancel minus_div_mult_eq_mod)

lemma join_delta_ok:
  assumes B: "block_size_ok B" and dl: "delta_ok B bc" and piece: "piece_ok B off buf"
    and same: "bc_offset bc div B = off div B" and touch: "off \<le> bc_offset bc + int (bc_size bc)" "bc_offset bc \<le> off + int (length buf)"
  shows "\<exists>bc'. join_delta bc buf off = Some bc' \<and> delta_ok B bc' \<and> bc_offset bc' = min (bc_offset bc) off
    \<and> bc_buffer bc' = joined bc buf off"
proof -
  note dl' = dl [unfolded delta_ok_def piece_ok_def] and piece' = piece [unfolded piece_ok_def]
  let ?start = "min (bc_offset bc) off" and ?fin = "max (bc_offset bc + int (bc_size bc)) (off + int (length buf))"
  obtain k where k: "length buf = Suc k" using piece' by (cases buf) simp_all
  note md = mod_in_block [OF same]
  have start: "?start mod B = off mod B + (?start - off)" using mod_in_block [OF same] by (simp add: min_def)
  have fit: "?start mod B + (?fin - ?start) \<le> B" using dl' piece' md start by (auto simp: min_def max_def)
  have pos: "0 < ?fin - ?start" "0 \<le> ?start mod B" using k B by (auto simp: block_size_ok_def)
  have sz: "size_t (?fin - ?start) = nat (?fin - ?start)"
    using pos fit B by (intro size_t_int) (auto simp: block_size_ok_def)
  define n where "n = nat (?fin - ?start)"
  have n0: "0 < n" using pos by (simp add: n_def)
  have len: "length (joined bc buf off) = n"
    using touch dl' by (auto simp: joined_def n_def)
  have new: "overlay (overlay (zeros n) (nat (bc_offset bc - ?start)) (bc_buffer bc)) (nat (off - ?start)) buf = joined bc buf off"
  proof (cases "bc_offset bc \<le> off")
    case True
    then have "n = max (length (bc_buffer bc)) (nat (off - bc_offset bc) + length buf)"
      using dl' by (auto simp: n_def)
    from overlay_zeros_0 [OF this] True show ?thesis by (simp add: joined_def)
  next
    case False
    then have "n = max (length buf) (nat (bc_offset bc - off) + length (bc_buffer bc))"
      using dl' by (auto simp: n_def)
    from overlay_zeros_later [OF this] False show ?thesis by (simp add: joined_def)
  qed
  have in1: "nat (bc_offset bc - ?start) + bc_size bc \<le> n" and in2: "nat (off - ?start) + length buf \<le> n"
    by (auto simp: n_def)
  let ?bc = "bc\<lparr>bc_buffer := joined bc buf off, bc_offset := ?start, bc_size := n\<rparr>"
  have eqs: "(if off > bc_offset bc then bc_offset bc else off) = ?start"
    "(if off + int (length buf) > bc_offset bc + int (bc_size bc) then off + int (length buf) else bc_offset bc + int (bc_size bc)) = ?fin"
    by auto
  have cp: "copy_entry (zeros n) (nat (bc_offset bc - ?start)) bc = Some (overlay (zeros n) (nat (bc_offset bc - ?start)) (bc_buffer bc))"
    using in1 dl' by (intro copy_entry_whole) simp_all
  have "memcpy (overlay (zeros n) (nat (bc_offset bc - ?start)) (bc_buffer bc)) (nat (off - ?start)) buf = Some (joined bc buf off)"
    using in1 in2 dl' by (subst memcpy_Some) (simp add: new)
  then have "join_delta bc buf off = Some ?bc"
    using n0 cp by (simp add: join_delta_def eqs sz n_def [symmetric] Let_def)
  moreover have "off_ok B ?start" using dl' piece' by (simp add: min_def)
  moreover have "joined bc buf off \<noteq> []" using len n0 by auto
  moreover have "?start mod B + int n \<le> B" using fit pos by (simp add: n_def)
  ultimately show ?thesis using len by (auto simp: delta_ok_def piece_ok_def)
qed

text \<open>\<open>quiet\<close>: descriptors and files are as they were, whatever the files are.\<close>

definition quiet :: "'w ext \<Rightarrow> 'w fs_state \<Rightarrow> 'w fs_state \<Rightarrow> bool" where
  "quiet e t t' \<longleftrightarrow> fd_heap (fds t') = fd_heap (fds t)
     \<and> (\<forall>cont p. file_contract e cont \<longrightarrow> server_file cont p t' = server_file cont p t)"

lemma quiet_refl [simp]: "quiet e t t"
  by (simp add: quiet_def)

lemma quiet_trans: "quiet e t t' \<Longrightarrow> quiet e t' t'' \<Longrightarrow> quiet e t t''"
  by (simp add: quiet_def)

lemma mem_quiet:
  assumes "onLibB (mem_ok e) s = (ok, s1)"
  shows "quiet e (bfs s) (bfs s1)"
proof -
  have "cont (world l) = cont (world (get_lib (bfs s)))" if "file_contract e cont" "mem_ok e (get_lib (bfs s)) = (ok, l)" for cont l
    using that contract_quiet(2) [OF that(1), of "world (get_lib (bfs s))"] by (auto simp: mem_ok_def split: prod.splits)
  then show ?thesis
    using assms by (auto simp: quiet_def onLibB_def put_lib_def server_file_def get_lib_def split: prod.splits)
qed

lemma newBufferCache_quiet: "newBufferCache e s = (r, s1) \<Longrightarrow> quiet e (bfs s) (bfs s1)"
  by (auto simp: newBufferCache_def split: prod.splits if_splits intro: mem_quiet)

text \<open>
  \<open>sent\<close>: the delta \<open>bc\<close> was applied to the cached blocks and written to the server.
  \<open>wrote\<close>: what a block write that succeeds did. It extended the delta, made one, or sent
  the old one and made one.
\<close>

definition sent :: "'w ext \<Rightarrow> nat \<Rightarrow> string \<Rightarrow> iFuseBufferCache \<Rightarrow> 'w buf_state \<Rightarrow> 'w buf_state \<Rightarrow> bool" where
  "sent e p path bc s s' \<longleftrightarrow>
     (\<exists>t0 st. quiet e (bfs s) t0 \<and> io_ok p (bfs s) t0 \<and> iFuseFsWrite e p (bc_buffer bc) (bc_offset bc) t0 = Some (st, bfs s') \<and> 0 \<le> st)
     \<and> g_CacheMap s' = map (map_prod id (delta_on (g_Blocksize s) path (bc_buffer bc) (bc_offset bc))) (g_CacheMap s)"

definition wrote :: "'w ext \<Rightarrow> nat \<Rightarrow> string \<Rightarrow> bytes \<Rightarrow> int \<Rightarrow> 'w buf_state \<Rightarrow> 'w buf_state \<Rightarrow> bool" where
  "wrote e p path buf off s s' \<longleftrightarrow>
     (\<exists>bc'. map_find (g_DeltaMap s') path = Some bc'
       \<and> (case map_find (g_DeltaMap s) path of
            None \<Rightarrow> quiet e (bfs s) (bfs s') \<and> g_CacheMap s' = g_CacheMap s \<and> bc_offset bc' = off \<and> bc_buffer bc' = buf
          | Some bc \<Rightarrow>
              quiet e (bfs s) (bfs s') \<and> g_CacheMap s' = g_CacheMap s
                \<and> off \<le> bc_offset bc + int (length (bc_buffer bc)) \<and> bc_offset bc \<le> off + int (length buf)
                \<and> bc_offset bc' = min (bc_offset bc) off \<and> bc_buffer bc' = joined bc buf off
              \<or> sent e p path bc s s' \<and> bc_offset bc' = off \<and> bc_buffer bc' = buf))"

lemma flushDelta_live:
  assumes ok: "tables_ok s" and inv: "fs_inv (bfs s)" and d: "fd_heap (fds (bfs s)) p = Some d"
  shows "\<exists>st s'. flushDelta e p s = Some (st, s') \<and> buf_io p s s' \<and> (st = 0 \<or> st = - ENOENT)
    \<and> (if accmode (fd_openFlag d) = O_RDONLY then s' = s \<and> st = 0
       else map_find (g_DeltaMap s') (fd_iRodsPath d) = None
         \<and> (case map_find (g_DeltaMap s) (fd_iRodsPath d) of
              None \<Rightarrow> s' = s \<and> st = 0
            | Some bc \<Rightarrow> st = 0 \<longrightarrow> sent e p (fd_iRodsPath d) bc s s'))"
proof (cases "accmode (fd_openFlag d) = O_RDONLY \<or> map_find (g_DeltaMap s) (fd_iRodsPath d) = None")
  case True
  then show ?thesis using d buf_io_refl [OF ok d] by (auto simp: flushDelta_def)
next
  case False
  then obtain bc where w: "accmode (fd_openFlag d) \<noteq> O_RDONLY" and bc: "map_find (g_DeltaMap s) (fd_iRodsPath d) = Some bc" by auto
  let ?path = "fd_iRodsPath d"
  let ?s1 = "s\<lparr>g_DeltaMap := map_erase ?path (g_DeltaMap s)\<rparr>"
  have dl: "delta_ok (g_Blocksize s) bc" using tables_okD(4) [OF ok bc] .
  have t1: "tables_ok ?s1" using tables_ok_delta_erase [OF ok] .
  have io1: "buf_io p s ?s1"
    using t1 find_map_erase [OF tables_okD(2) [OF ok]] by (intro buf_io_tables [OF d]) simp_all
  from applyDelta_ok [OF t1, of "bc_offset bc" "bc_buffer bc" ?path] dl obtain s2 where
    2: "applyDeltaToCache ?path (bc_buffer bc) (bc_offset bc) ?s1 = Some s2" "tables_ok s2"
      "s2 = ?s1\<lparr>g_CacheMap := map (map_prod id (delta_on (g_Blocksize s) ?path (bc_buffer bc) (bc_offset bc))) (g_CacheMap s)\<rparr>"
    by (auto simp: delta_ok_def)
  have d2: "fd_heap (fds (bfs s2)) p = Some d" using d 2(3) by simp
  have "buf_io p ?s1 s2" using d 2(2,3) by (intro buf_io_tables) auto
  note io2 = buf_io_trans [OF io1 this]
  from Write_io [OF 2(2) buf_ioD(5) [OF io2 inv] d2, of e "bc_buffer bc" "bc_offset bc"] obtain st s3 where
    3: "onFs (iFuseFsWrite e p (bc_buffer bc) (bc_offset bc)) s2 = Some (st, s3)" "buf_io p s2 s3" "s3 = s2\<lparr>bfs := bfs s3\<rparr>"
    by blast
  note io3 = buf_io_trans [OF io2 3(2)]
  have tabs: "g_DeltaMap s3 = map_erase ?path (g_DeltaMap s)" "g_CacheMap s3 = g_CacheMap s2" by (subst 3(3), simp add: 2(3))+
  have none: "map_find (g_DeltaMap s3) ?path = None" using find_map_erase [OF tables_okD(2) [OF ok]] by (simp add: tabs)
  have "sent e p ?path bc s s3" if "0 \<le> st"
    using that 3(1) tabs 2(3) io_ok_refl [OF d] by (auto simp: sent_def onFs_def intro!: exI [of _ "bfs s"])
  then show ?thesis using w d bc dl 2(1) 3(1) io3 none
    by (auto simp: flushDelta_def Let_def delta_ok_def slice_def not_less)
qed

lemma put_delta_io:
  assumes "tables_ok s" and "fd_heap (fds (bfs s)) p = Some d" and "delta_ok (g_Blocksize s) bc"
  shows "buf_io p s (s\<lparr>g_DeltaMap := map_insert (fd_iRodsPath d) bc (g_DeltaMap s)\<rparr>)"
  using assms tables_ok_delta_insert [OF assms(1,3)] by (intro buf_io_tables [OF assms(2)]) simp_all

lemma writeBlock_live:
  assumes replies: "SYS_MALLOC_ERR e < 0" and ok: "tables_ok s" and inv: "fs_inv (bfs s)"
    and d: "fd_heap (fds (bfs s)) p = Some d" and piece: "piece_ok (g_Blocksize s) off buf"
  shows "\<exists>st s'. writeBlock e p buf off s = Some (st, s') \<and> buf_io p s s' \<and> st \<le> 0
    \<and> (st = 0 \<longrightarrow> wrote e p (fd_iRodsPath d) buf off s s')"
proof -
  let ?path = "fd_iRodsPath d"
  note B = tables_okD(1) [OF ok]
  have ne: "buf \<noteq> []" using piece by (simp add: piece_ok_def)
  obtain ok1 s1 where 1: "onLibB (mem_ok e) s = (ok1, s1)" by (rule prod.exhaust)
  note m = mem_io [OF d 1] and q = mem_quiet [OF 1]
  have io1: "buf_io p s s1" using buf_io_below [OF ok m(1)] m(2) by simp
  have d1: "fd_heap (fds (bfs s1)) p = Some d" using m(3) d by simp
  have tabs: "g_DeltaMap s1 = g_DeltaMap s" "g_CacheMap s1 = g_CacheMap s" "g_Blocksize s1 = g_Blocksize s"
    by (subst m(2), simp)+
  have new: "delta_ok (g_Blocksize s) (bc\<lparr>bc_fdId := i, bc_iRodsPath := x, bc_buffer := buf, bc_offset := off, bc_size := length buf\<rparr>)"
    "delta_ok (g_Blocksize s) (bc\<lparr>bc_buffer := buf, bc_offset := off, bc_size := length buf\<rparr>)" for bc i x
    using piece by (simp_all add: delta_ok_def)
  show ?thesis
  proof (cases "map_find (g_DeltaMap s) ?path")
    case None
    obtain r s2 where 2: "newBufferCache e s1 = (r, s2)" by (rule prod.exhaust)
    note n = newBufferCache_io [OF d1 2] and q2 = quiet_trans [OF q newBufferCache_quiet [OF 2]]
    have io2: "buf_io p s s2" using buf_io_trans [OF io1 buf_io_below [OF buf_ioD(2) [OF io1] n(1)]] n(2) by simp
    have d2: "fd_heap (fds (bfs s2)) p = Some d" using n(3) d1 by simp
    have tabs2: "g_DeltaMap s2 = g_DeltaMap s" "g_CacheMap s2 = g_CacheMap s" "g_Blocksize s2 = g_Blocksize s"
      by (subst n(2), simp add: tabs)+
    let ?bc = "zero_bufferCache\<lparr>bc_fdId := fd_fdId d, bc_iRodsPath := ?path, bc_buffer := buf, bc_offset := off, bc_size := length buf\<rparr>"
    have "buf_io p s (s2\<lparr>g_DeltaMap := map_insert ?path ?bc (g_DeltaMap s2)\<rparr>)"
      using buf_io_trans [OF io2 put_delta_io [OF buf_ioD(2) [OF io2] d2]] new by (simp add: tabs2)
    moreover have "wrote e p ?path buf off s (s2\<lparr>g_DeltaMap := map_insert ?path ?bc (g_DeltaMap s2)\<rparr>)"
      using None q2 tabs2 by (simp add: wrote_def)
    ultimately show ?thesis using None n(4) 1 2 io1 io2 d ne replies by (auto simp: writeBlock_def Let_def)
  next
    case (Some bc)
    have dl: "delta_ok (g_Blocksize s) bc" using tables_okD(4) [OF ok Some] .
    note dl' = dl [unfolded delta_ok_def piece_ok_def] and piece' = piece [unfolded piece_ok_def]
    have same: "isSameBlock (g_Blocksize s) (bc_offset bc) off = Some (bc_offset bc div g_Blocksize s = off div g_Blocksize s)"
      using isSameBlock_ok [OF B] dl' piece' by simp
    have src: "slice (bc_buffer bc) 0 (bc_size bc) = Some (bc_buffer bc)" using dl' by simp
    show ?thesis
    proof (cases "ok1")
      case False
      then show ?thesis using Some same 1 io1 d ne replies by (simp add: writeBlock_def)
    next
      case True
      show ?thesis
      proof (cases "bc_offset bc div g_Blocksize s = off div g_Blocksize s \<and> bc_offset bc + int (bc_size bc) \<ge> off
          \<and> bc_offset bc \<le> off + int (length buf)")
        case join: True
        from join_delta_ok [OF B dl piece] join obtain bc' where
          j: "join_delta bc buf off = Some bc'" "delta_ok (g_Blocksize s) bc'" "bc_offset bc' = min (bc_offset bc) off"
            "bc_buffer bc' = joined bc buf off" by blast
        let ?s2 = "s1\<lparr>g_DeltaMap := map_insert ?path bc' (g_DeltaMap s1)\<rparr>"
        have "buf_io p s ?s2"
          using buf_io_trans [OF io1 put_delta_io [OF buf_ioD(2) [OF io1] d1, of bc']] j(2) by (simp add: tabs)
        moreover have "wrote e p ?path buf off s ?s2" using Some q tabs j join dl' by (simp add: wrote_def)
        ultimately show ?thesis using Some same 1 d ne True join j(1) by (simp add: writeBlock_def)
      next
        case far: False
        from applyDelta_ok [OF buf_ioD(2) [OF io1], of "bc_offset bc" "bc_buffer bc" ?path] dl tabs(2,3) obtain s2 where
          2: "applyDeltaToCache ?path (bc_buffer bc) (bc_offset bc) s1 = Some s2" "tables_ok s2"
            "s2 = s1\<lparr>g_CacheMap := map (map_prod id (delta_on (g_Blocksize s) ?path (bc_buffer bc) (bc_offset bc))) (g_CacheMap s)\<rparr>"
          by (auto simp: delta_ok_def)
        have d2: "fd_heap (fds (bfs s2)) p = Some d" using d1 2(3) by simp
        have "buf_io p s1 s2" using d1 2(2,3) by (intro buf_io_tables) auto
        note io2 = buf_io_trans [OF io1 this]
        let ?bc = "bc\<lparr>bc_buffer := buf, bc_offset := off, bc_size := length buf\<rparr>"
        let ?s3 = "s2\<lparr>g_DeltaMap := map_insert ?path ?bc (g_DeltaMap s2)\<rparr>"
        have io3: "buf_io p s ?s3"
          using buf_io_trans [OF io2 put_delta_io [OF 2(2) d2, of ?bc]] new(2) buf_ioD(3) [OF io2] by simp
        have d3: "fd_heap (fds (bfs ?s3)) p = Some d" using d2 by simp
        from Write_io [OF buf_ioD(2) [OF io3] buf_ioD(5) [OF io3 inv] d3, of e "bc_buffer bc" "bc_offset bc"] obtain st s4 where
          4: "onFs (iFuseFsWrite e p (bc_buffer bc) (bc_offset bc)) ?s3 = Some (st, s4)" "buf_io p ?s3 s4" "s4 = ?s3\<lparr>bfs := bfs s4\<rparr>"
          by blast
        note io4 = buf_io_trans [OF io3 4(2)]
        have tabs4: "g_DeltaMap s4 = map_insert ?path ?bc (g_DeltaMap s2)"
          "g_CacheMap s4 = map (map_prod id (delta_on (g_Blocksize s) ?path (bc_buffer bc) (bc_offset bc))) (g_CacheMap s)"
          by (subst 4(3), simp add: 2(3))+
        have "iFuseFsWrite e p (bc_buffer bc) (bc_offset bc) (bfs s1) = Some (st, bfs s4)"
          using 4(1) by (auto simp: onFs_def 2(3))
        then have "sent e p ?path bc s s4" if "0 \<le> st"
          using that tabs4(2) q buf_ioD(1) [OF io1] by (auto simp: sent_def intro!: exI [of _ "bfs s1"])
        then have "wrote e p ?path buf off s s4" if "0 \<le> st"
          using that Some tabs4(1) by (simp add: wrote_def)
        then show ?thesis using Some same src 1 2(1) 4(1) d ne True far io4
          by (auto simp: writeBlock_def Let_def)
      qed
    qed
  qed
qed

text \<open>A round of the write loop takes the rest of the block, or all that is left.\<close>

definition room_at :: "int \<Rightarrow> int \<Rightarrow> nat" where
  "room_at B off = nat (B - off mod B)"

lemma write_blocks_step:
  assumes B: "block_size_ok (g_Blocksize s)" and off: "off_ok (g_Blocksize s) off" and ne: "buf \<noteq> []"
  defines "n \<equiv> min (length buf) (room_at (g_Blocksize s) off)"
  shows "write_blocks e p buf off s =
      do { (status, s1) \<leftarrow> writeBlock e p (take n buf) off s;
           if status < 0 then Some (status, s1) else write_blocks e p (drop n buf) (off + int n) s1 }"
    and "0 < n" "n \<le> length buf" "piece_ok (g_Blocksize s) off (take n buf)"
proof -
  let ?B = "g_Blocksize s"
  have i: "0 \<le> off mod ?B" "off mod ?B < ?B" using B by (simp_all add: block_size_ok_def)
  have av: "size_t (?B - off mod ?B) = room_at ?B off"
    unfolding room_at_def using i B by (intro size_t_int) (auto simp: block_size_ok_def)
  show n: "0 < n" "n \<le> length buf" using ne i by (simp_all add: n_def room_at_def)
  have len: "length (take n buf) = n" using n by simp
  have "int (room_at ?B off) = ?B - off mod ?B" using i by (simp add: room_at_def)
  moreover have "n \<le> room_at ?B off" by (simp add: n_def)
  ultimately have "off mod ?B + int n \<le> ?B" by linarith
  then show "piece_ok ?B off (take n buf)" using off n len ne by (simp add: piece_ok_def)
  have cur: "(if size_t (?B - off mod ?B) > length buf then length buf else size_t (?B - off mod ?B)) = n"
    unfolding av by (simp add: n_def min_def)
  then show "write_blocks e p buf off s =
      do { (status, s1) \<leftarrow> writeBlock e p (take n buf) off s;
           if status < 0 then Some (status, s1) else write_blocks e p (drop n buf) (off + int n) s1 }"
    using ne n(1) by (subst write_blocks.simps, unfold getInBlockOffset_ok [OF B off] Option.bind.bind_lunit Let_def cur) simp
qed

lemma write_blocks_live:
  assumes "SYS_MALLOC_ERR e < 0" and "tables_ok s" and "fs_inv (bfs s)" and "fd_heap (fds (bfs s)) p = Some d"
    and "0 \<le> off" and "off + int (length buf) \<le> 2 ^ 32 * g_Blocksize s"
  shows "\<exists>st s'. write_blocks e p buf off s = Some (st, s') \<and> buf_io p s s' \<and> st \<le> 0"
  using assms
proof (induction "length buf" arbitrary: buf off s d rule: less_induct)
  case less
  show ?case
  proof (cases "buf = []")
    case True
    then show ?thesis using buf_io_refl [OF less.prems(2,4)] by (simp add: write_blocks.simps)
  next
    case False
    have off: "off_ok (g_Blocksize s) off" using less.prems(5,6) False by (intro off_ok_range) auto
    define n where "n = min (length buf) (room_at (g_Blocksize s) off)"
    note step = write_blocks_step [OF tables_okD(1) [OF less.prems(2)] off False, folded n_def]
    from writeBlock_live [OF less.prems(1-4) step(4)] obtain st s1 where
      w: "writeBlock e p (take n buf) off s = Some (st, s1)" "buf_io p s s1" "st \<le> 0" by blast
    show ?thesis
    proof (cases "st < 0")
      case True
      then show ?thesis using w step(1) [of e p] by simp
    next
      case pos: False
      from buf_ioD(6) [OF w(2) less.prems(4)] obtain d1 where d1: "fd_heap (fds (bfs s1)) p = Some d1" by blast
      have "\<exists>st s'. write_blocks e p (drop n buf) (off + int n) s1 = Some (st, s') \<and> buf_io p s1 s' \<and> st \<le> 0"
        by (rule less.hyps [OF _ less.prems(1) buf_ioD(2) [OF w(2)] buf_ioD(5) [OF w(2) less.prems(3)] d1])
           (use step(2,3) False less.prems(5,6) buf_ioD(3) [OF w(2)] in auto)
      then show ?thesis using w pos step(1) [of e p] buf_io_trans [OF w(2)] by auto
    qed
  qed
qed

lemma Write_buffered_live:
  assumes "SYS_MALLOC_ERR e < 0" and "tables_ok s" and "fs_inv (bfs s)" and "fd_heap (fds (bfs s)) p = Some d"
    and "0 \<le> off" and "off + int (length buf) \<le> 2 ^ 32 * g_Blocksize s"
  shows "\<exists>st s'. iFuseBufferedFsWrite e p buf off s = Some (st, s') \<and> buf_io p s s' \<and> (st < 0 \<or> st = c_int (length buf))"
proof -
  from write_blocks_live [OF assms] obtain st s' where
    "write_blocks e p buf off s = Some (st, s')" "buf_io p s s'" "st \<le> 0" by blast
  then show ?thesis by (cases "st < 0") (simp_all add: iFuseBufferedFsWrite_def)
qed

end
