(* ===== verification/IFuse_BufferedContent.thy ===== *)
theory IFuse_BufferedContent
  imports IFuse_BufferedSafe
begin

text \<open>
  The buffered layer refines the file it buffers: the bytes of a file as seen through it are
  the server's bytes with the delta laid over them; reading returns those, writing changes
  them at the offset, and a cached block never differs from the server's. The layer is a
  \<open>byte_store\<close> on top of the \<open>byte_store\<close> of \<open>IFuse_Content\<close>.
\<close>

section \<open>Blocks of a file under a write\<close>

lemma block_overlay:
  assumes "n \<le> length X" and "take n X = take B (drop start c)"
    and "start \<le> off" and "off \<le> length c" and "off - start + length buf \<le> B" and "off - start < B" and "length X = B"
  shows "take (max n (off - start + length buf)) (overlay X (off - start) buf) = take B (drop start (overlay c off buf))"
proof (rule bytes_eqI)
  have n: "n = min B (length c - start)" using arg_cong [OF assms(2), of length] assms(1) by simp
  have le: "off - start \<le> n" using assms by (simp add: n)
  show "length (take (max n (off - start + length buf)) (overlay X (off - start) buf)) = length (take B (drop start (overlay c off buf)))"
    using assms n by (auto simp: max_def min_def)
  fix i assume "i < length (take B (drop start (overlay c off buf)))"
  then have i: "i < B" "start + i < max (length c) (off + length buf)" by (simp, simp, linarith)
  have X: "byte_at X i = byte_at c (start + i)" if "i < n"
    using arg_cong [OF assms(2), of "\<lambda>xs. byte_at xs i"] that i by (simp add: byte_at_take byte_at_drop)
  have mem: "i < n \<or> (off - start \<le> i \<and> i < off - start + length buf)"
    using i assms n le by (auto simp: min_def max_def split: if_splits)
  have arg: "i - (off - start) = start + i - off" using assms(3) by simp
  show "byte_at (take (max n (off - start + length buf)) (overlay X (off - start) buf)) i
      = byte_at (take B (drop start (overlay c off buf))) i"
    using mem i(1) X assms(3) arg unfolding byte_at_take byte_at_drop byte_at_overlay by (auto simp: le_diff_conv less_diff_conv2)
qed

lemma block_other:
  assumes "off \<le> length c" and "off + length buf \<le> start \<or> start + B \<le> off"
  shows "take B (drop start (overlay c off buf)) = take B (drop start c)"
proof (rule bytes_eqI)
  show "length (take B (drop start (overlay c off buf))) = length (take B (drop start c))"
    using assms by auto
qed (use assms in \<open>auto simp: byte_at_take byte_at_drop byte_at_overlay\<close>)

lemma overlay_joined:
  assumes "bc_offset bc \<le> off + int (length buf)" "off \<le> bc_offset bc + int (length (bc_buffer bc))"
    and "0 \<le> bc_offset bc" and "0 \<le> off"
  shows "overlay (overlay c (nat (bc_offset bc)) (bc_buffer bc)) (nat off) buf
    = overlay c (nat (min (bc_offset bc) off)) (joined bc buf off)"
proof (cases "bc_offset bc \<le> off")
  case True
  then show ?thesis
    using overlay_overlay_extend [of "nat (bc_offset bc)" "nat off" "bc_buffer bc" c buf] assms
    by (simp add: joined_def nat_diff_distrib nat_le_eq_zle min_def)
next
  case False
  then show ?thesis
    using overlay_overlay_before [of "nat off" "nat (bc_offset bc)" buf c "bc_buffer bc"] assms
    by (simp add: joined_def nat_diff_distrib nat_le_eq_zle min_def)
qed

section \<open>The file as the layer shows it\<close>

definition pending :: "'w buf_state \<Rightarrow> string \<Rightarrow> bytes \<Rightarrow> bytes" where
  "pending s path c =
     (case map_find (g_DeltaMap s) path of None \<Rightarrow> c | Some bc \<Rightarrow> overlay c (nat (bc_offset bc)) (bc_buffer bc))"

definition buffered_content :: "'w files \<Rightarrow> nat \<Rightarrow> 'w buf_state \<Rightarrow> bytes option" where
  "buffered_content cont p s =
     do { d \<leftarrow> fd_heap (fds (bfs s)) p; c \<leftarrow> content cont p (bfs s); Some (pending s (fd_iRodsPath d) c) }"

text \<open>A cached block holds what the server holds there.\<close>

definition cache_of :: "int \<Rightarrow> bytes \<Rightarrow> iFuseBufferCache \<Rightarrow> bool" where
  "cache_of B c bc \<longleftrightarrow> take (bc_size bc) (bc_buffer bc) = take (nat B) (drop (nat (bc_offset bc)) c)"

definition views :: "'w files \<Rightarrow> nat \<Rightarrow> iFuseFd \<Rightarrow> bytes \<Rightarrow> 'w buf_state \<Rightarrow> bool" where
  "views cont p d c s \<longleftrightarrow> fd_heap (fds (bfs s)) p = Some d \<and> content cont p (bfs s) = Some c
     \<and> (\<forall>dl. map_find (g_DeltaMap s) (fd_iRodsPath d) = Some dl \<longrightarrow> nat (bc_offset dl) \<le> length c)
     \<and> (\<forall>bc. map_find (g_CacheMap s) (fd_fdId d) = Some bc \<longrightarrow> bc_iRodsPath bc = fd_iRodsPath d \<and> cache_of (g_Blocksize s) c bc)"

definition buf_synced :: "'w files \<Rightarrow> nat \<Rightarrow> 'w buf_state \<Rightarrow> bool" where
  "buf_synced cont p s \<longleftrightarrow> tables_ok s \<and> fd_synced cont p (bfs s) \<and> (\<exists>d c. views cont p d c s)"

lemma buf_syncedD:
  assumes "buf_synced cont p s"
  shows "tables_ok s" "fd_synced cont p (bfs s)" "fs_inv (bfs s)"
  using assms by (simp_all add: buf_synced_def fd_synced_def)

lemma views_content: "views cont p d c s \<Longrightarrow> buffered_content cont p s = Some (pending s (fd_iRodsPath d) c)"
  by (simp add: views_def buffered_content_def)

lemma file_contract_replies:
  assumes "file_contract e cont"
  shows "replies_ok e"
proof -
  have "st \<le> int len \<and> nat st \<le> length buf" if r: "rcDataObjRead e conn fd len w = ((st, buf), w')" for conn fd len w st buf w'
  proof (cases "0 \<le> st")
    case True
    from contract_read [OF assms r this] obtain data pos where
      d: "st = int (length (take len (drop pos data)))" "take (nat st) buf = take len (drop pos data)" by blast
    then have "length (take (nat st) buf) = nat st" by simp
    with d(1) show ?thesis by auto
  qed simp
  moreover have "out \<noteq> None" if "rcDataObjLseek e conn n off w = ((st, out), w')" "0 \<le> st" for conn n off w st out w'
    using contract_lseek [OF assms that] by auto
  ultimately show ?thesis using contract_quiet(3) [OF assms] by (simp add: replies_ok_def read_reply_ok_def)
qed

lemma quiet_content:
  assumes "file_contract e cont" and "quiet e t t'"
  shows "content cont p t' = content cont p t" "fs_inv t' \<Longrightarrow> fd_synced cont p t \<Longrightarrow> fd_synced cont p t'"
proof -
  have eq: "server_file cont p t' = server_file cont p t" "fd_heap (fds t') = fd_heap (fds t)"
    using assms by (simp_all add: quiet_def)
  then show "content cont p t' = content cont p t" "fs_inv t' \<Longrightarrow> fd_synced cont p t \<Longrightarrow> fd_synced cont p t'"
    by (simp_all add: content_def fd_synced_def pos_ok_def)
qed

text \<open>Applying the delta to a cached block, when the delta goes to the server.\<close>

lemma delta_on_cache:
  assumes B: "block_size_ok B" and bc: "entry_ok B bc" "cache_of B c bc" "bc_iRodsPath bc = path"
    and piece: "piece_ok B off buf" and le: "nat off \<le> length c"
  shows "cache_of B (overlay c (nat off) buf) (delta_on B path buf off bc)" "bc_iRodsPath (delta_on B path buf off bc) = path"
proof -
  note bc' = bc [unfolded entry_ok_def cache_of_def off_ok_def] and piece' = piece [unfolded piece_ok_def off_ok_def]
  show "bc_iRodsPath (delta_on B path buf off bc) = path" using bc(3) by (simp add: delta_on_def)
  show "cache_of B (overlay c (nat off) buf) (delta_on B path buf off bc)"
  proof (cases "bc_offset bc div B = off div B")
    case True
    from same_block_sub [OF B _ True] bc' have s: "off - bc_offset bc = off mod B" "bc_offset bc \<le> off" "off - bc_offset bc < B" by simp_all
    have k: "nat (off - bc_offset bc) = nat off - nat (bc_offset bc)" using s(2) bc' by (simp add: nat_diff_distrib)
    have fit: "nat off - nat (bc_offset bc) + length buf \<le> nat B" "nat off - nat (bc_offset bc) < nat B"
      using s piece' unfolding k [symmetric] by linarith+
    from block_overlay [OF _ _ _ le fit, of "bc_size bc" "bc_buffer bc"] bc' s(2)
    show ?thesis using True bc(3) by (simp add: delta_on_def cache_of_def k)
  next
    case False
    have start: "bc_offset bc = bc_offset bc div B * B" using bc' by simp
    have "off + int (length buf) \<le> bc_offset bc \<or> bc_offset bc + B \<le> off"
    proof (cases "off div B < bc_offset bc div B")
      case True
      then have "(off div B + 1) * B \<le> bc_offset bc" using start B mult_right_mono [of "off div B + 1" "bc_offset bc div B" B]
        by (simp add: block_size_ok_def)
      moreover have "off + int (length buf) \<le> off div B * B + B"
        using minus_mod_eq_div_mult [of off B] piece' by linarith
      moreover have "(off div B + 1) * B = off div B * B + B" by (simp add: algebra_simps)
      ultimately show ?thesis by linarith
    next
      case gt: False
      with False have "(bc_offset bc div B + 1) * B \<le> off div B * B"
        using B mult_right_mono [of "bc_offset bc div B + 1" "off div B" B] by (simp add: block_size_ok_def)
      moreover have "0 \<le> off mod B" using B by (simp add: block_size_ok_def)
      then have "off div B * B \<le> off" using minus_mod_eq_div_mult [of off B] by linarith
      ultimately show ?thesis using start by (simp add: algebra_simps)
    qed
    then have "nat off + length buf \<le> nat (bc_offset bc) \<or> nat (bc_offset bc) + nat B \<le> nat off"
      using bc' piece' B unfolding block_size_ok_def by linarith
    from block_other [OF le this] False bc' show ?thesis by (simp add: delta_on_def cache_of_def)
  qed
qed

section \<open>Writing\<close>

lemma views_fd_same:
  assumes "fd_same d d'"
  shows "fd_iRodsPath d' = fd_iRodsPath d" "fd_fdId d' = fd_fdId d"
  using assms by (simp_all add: fd_same_def)

text \<open>Once the delta is sent, the server's file is what the layer showed before.\<close>

lemma sent_views:
  assumes contract: "file_contract e cont" and ok: "tables_ok s" and sync: "fd_synced cont p (bfs s)" and v: "views cont p d c s"
    and dl: "map_find (g_DeltaMap s) (fd_iRodsPath d) = Some bc" and st: "sent e p (fd_iRodsPath d) bc s s'"
    and io: "buf_io p s s'"
    and new: "\<And>dl. map_find (g_DeltaMap s') (fd_iRodsPath d) = Some dl \<Longrightarrow> nat (bc_offset dl) \<le> length (pending s (fd_iRodsPath d) c)"
  shows "fd_synced cont p (bfs s') \<and> (\<exists>d'. fd_iRodsPath d' = fd_iRodsPath d \<and> views cont p d' (pending s (fd_iRodsPath d) c) s')"
proof -
  let ?path = "fd_iRodsPath d" and ?B = "g_Blocksize s"
  note dlo = tables_okD(4) [OF ok dl, unfolded delta_ok_def]
  from v have le: "nat (bc_offset bc) \<le> length c" using dl by (simp add: views_def)
  have pend: "pending s ?path c = overlay c (nat (bc_offset bc)) (bc_buffer bc)" using dl by (simp add: pending_def)
  from st obtain t0 st0 where w: "quiet e (bfs s) t0" "io_ok p (bfs s) t0"
      "iFuseFsWrite e p (bc_buffer bc) (bc_offset bc) t0 = Some (st0, bfs s')" "0 \<le> st0"
    and cm: "g_CacheMap s' = map (map_prod id (delta_on ?B ?path (bc_buffer bc) (bc_offset bc))) (g_CacheMap s)"
    by (auto simp: sent_def)
  have inv: "fs_inv t0" using io_okD(1) [OF w(2)] sync by (simp add: fd_synced_def)
  note q = quiet_content [OF contract w(1)]
  have off: "0 \<le> bc_offset bc" using dlo by (simp add: piece_ok_def off_ok_def)
  from Write_content [OF contract q(2) [OF inv sync] off w(3,4)] v q(1) [of p]
  have c': "fd_synced cont p (bfs s')" "content cont p (bfs s') = Some (pending s ?path c)"
    by (auto simp: views_def pend)
  from buf_ioD(6) [OF io] v obtain d' where d': "fd_heap (fds (bfs s')) p = Some d'" "fd_same d d'" by (auto simp: views_def)
  have "bc_iRodsPath b = ?path \<and> cache_of (g_Blocksize s') (pending s ?path c) b"
    if b: "map_find (g_CacheMap s') (fd_fdId d') = Some b" for b
  proof -
    from b cm views_fd_same(2) [OF d'(2)] obtain b0 where b0: "map_find (g_CacheMap s) (fd_fdId d) = Some b0"
      "b = delta_on ?B ?path (bc_buffer bc) (bc_offset bc) b0" by auto
    from v b0(1) have "bc_iRodsPath b0 = ?path" "cache_of ?B c b0" by (simp_all add: views_def)
    with delta_on_cache [OF tables_okD(1) [OF ok] tables_okD(5) [OF ok b0(1)] _ _ _ le, of ?path "bc_buffer bc"] dlo
    show ?thesis by (simp add: b0(2) pend buf_ioD(3) [OF io])
  qed
  then have "views cont p d' (pending s ?path c) s'"
    using d'(1) c'(2) new views_fd_same(1) [OF d'(2)] by (simp add: views_def)
  then show ?thesis using c'(1) views_fd_same(1) [OF d'(2)] by blast
qed

lemma writeBlock_content:
  assumes contract: "file_contract e cont" and sync: "buf_synced cont p s" and v: "buffered_content cont p s = Some v"
    and piece: "piece_ok (g_Blocksize s) off buf" and le: "nat off \<le> length v"
    and run: "writeBlock e p buf off s = Some (st, s')" and st: "0 \<le> st"
  shows "buf_synced cont p s' \<and> buffered_content cont p s' = Some (overlay v (nat off) buf) \<and> g_Blocksize s' = g_Blocksize s"
proof -
  note ok = buf_syncedD(1) [OF sync]
  from sync obtain d c where vs: "views cont p d c s" by (auto simp: buf_synced_def)
  then have d: "fd_heap (fds (bfs s)) p = Some d" by (simp add: views_def)
  let ?path = "fd_iRodsPath d"
  from views_content [OF vs] v have vp: "v = pending s ?path c" by simp
  from writeBlock_live [OF contract_quiet(3) [OF contract] ok buf_syncedD(3) [OF sync] d piece] run st
  have io: "buf_io p s s'" and w: "wrote e p ?path buf off s s'" by auto
  from w obtain bc' where new: "map_find (g_DeltaMap s') ?path = Some bc'" by (auto simp: wrote_def)
  have off: "0 \<le> off" using piece by (simp add: piece_ok_def off_ok_def)
  show ?thesis
  proof (cases "\<exists>bc. map_find (g_DeltaMap s) ?path = Some bc \<and> sent e p ?path bc s s'
      \<and> bc_offset bc' = off \<and> bc_buffer bc' = buf")
    case True
    then obtain bc where bc: "map_find (g_DeltaMap s) ?path = Some bc" "sent e p ?path bc s s'" "bc_offset bc' = off" "bc_buffer bc' = buf"
      by blast
    from sent_views [OF contract ok buf_syncedD(2) [OF sync] vs bc(1,2) io] new bc(3) le vp obtain d' where
      d': "fd_synced cont p (bfs s')" "fd_iRodsPath d' = ?path" "views cont p d' v s'" by auto
    have "pending s' ?path v = overlay v (nat off) buf" using new bc(3,4) by (simp add: pending_def)
    with views_content [OF d'(3)] d' buf_ioD(2,3) [OF io] show ?thesis by (auto simp: buf_synced_def)
  next
    case False
    with w new have q: "quiet e (bfs s) (bfs s')" "g_CacheMap s' = g_CacheMap s"
      by (auto simp: wrote_def split: option.splits)
    note qc = quiet_content [OF contract q(1)]
    from buf_ioD(6) [OF io d] obtain d' where d': "fd_heap (fds (bfs s')) p = Some d'" "fd_same d d'" by blast
    have pend: "pending s' ?path c = overlay v (nat off) buf \<and> nat (bc_offset bc') \<le> length c"
    proof (cases "map_find (g_DeltaMap s) ?path")
      case None
      with w new le vp show ?thesis by (auto simp: wrote_def pending_def)
    next
      case (Some bc)
      with w new False have j: "off \<le> bc_offset bc + int (length (bc_buffer bc))" "bc_offset bc \<le> off + int (length buf)"
        "bc_offset bc' = min (bc_offset bc) off" "bc_buffer bc' = joined bc buf off" by (auto simp: wrote_def)
      have "0 \<le> bc_offset bc" using tables_okD(4) [OF ok Some] by (simp add: delta_ok_def piece_ok_def off_ok_def)
      from overlay_joined [OF j(2,1) this off] have "pending s' ?path c = overlay v (nat off) buf"
        using new j(3,4) Some vp by (simp add: pending_def)
      moreover have "nat (bc_offset bc) \<le> length c" using vs Some by (simp add: views_def)
      ultimately show ?thesis using j(3) by simp
    qed
    have "views cont p d' c s'"
      using vs d'(1) views_fd_same [OF d'(2)] qc(1) [of p] q(2) new pend buf_ioD(3) [OF io] by (simp add: views_def)
    with views_content [OF this] pend views_fd_same(1) [OF d'(2)] qc(2) [OF buf_ioD(5) [OF io buf_syncedD(3) [OF sync]] buf_syncedD(2) [OF sync]]
      buf_ioD(2,3) [OF io]
    show ?thesis by (auto simp: buf_synced_def)
  qed
qed

lemma overlay_take_drop:
  assumes "n \<le> length buf"
  shows "overlay (overlay v off (take n buf)) (off + n) (drop n buf) = overlay v off buf"
proof -
  have "overlay (overlay v off (take n buf)) (off + n) (drop n buf) = overlay v off (overlay (take n buf) n (drop n buf))"
    using overlay_overlay_extend [of off "off + n" "take n buf" v "drop n buf"] assms by simp
  also have "overlay (take n buf) n (drop n buf) = buf"
    using overlay_Nil_at_end [of "take n buf" "drop n buf"] assms by (simp add: min_absorb2)
  finally show ?thesis .
qed

lemma overlay_Nil: "off \<le> length v \<Longrightarrow> overlay v off [] = v"
  by (simp add: overlay_def)

lemma write_blocks_content:
  assumes "file_contract e cont" and "buf_synced cont p s" and "buffered_content cont p s = Some v"
    and "0 \<le> off" and "off + int (length buf) \<le> 2 ^ 32 * g_Blocksize s" and "nat off \<le> length v"
    and "write_blocks e p buf off s = Some (st, s')" and "0 \<le> st"
  shows "buf_synced cont p s' \<and> buffered_content cont p s' = Some (overlay v (nat off) buf) \<and> g_Blocksize s' = g_Blocksize s"
  using assms
proof (induction "length buf" arbitrary: buf off s v rule: less_induct)
  case less
  show ?case
  proof (cases "buf = []")
    case True
    then show ?thesis using less.prems by (simp add: write_blocks.simps overlay_Nil)
  next
    case False
    have off: "off_ok (g_Blocksize s) off" using less.prems(4,5) False by (intro off_ok_range) auto
    define n where "n = min (length buf) (room_at (g_Blocksize s) off)"
    note step = write_blocks_step [OF tables_okD(1) [OF buf_syncedD(1) [OF less.prems(2)]] off False, folded n_def]
    from less.prems(7) step(1) [of e p] obtain st1 s1 where
      1: "writeBlock e p (take n buf) off s = Some (st1, s1)" by auto
    with less.prems(7,8) step(1) [of e p] have st1: "0 \<le> st1" "write_blocks e p (drop n buf) (off + int n) s1 = Some (st, s')"
      by (auto split: if_splits)
    let ?v = "overlay v (nat off) (take n buf)"
    from writeBlock_content [OF less.prems(1-3) step(4) less.prems(6) 1 st1(1)] have
      c: "buf_synced cont p s1" "buffered_content cont p s1 = Some ?v" "g_Blocksize s1 = g_Blocksize s" by simp_all
    have "buf_synced cont p s' \<and> buffered_content cont p s' = Some (overlay ?v (nat (off + int n)) (drop n buf))
        \<and> g_Blocksize s' = g_Blocksize s1"
      by (rule less.hyps [OF _ less.prems(1) c(1,2) _ _ _ st1(2) less.prems(8)])
         (use step(2,3) False less.prems(4,5) c(3) in \<open>auto simp: nat_add_distrib\<close>)
    then show ?thesis using overlay_take_drop [OF step(3), of v "nat off"] less.prems(4) c(3) by (simp add: nat_add_distrib)
  qed
qed

lemma Write_buffered_content:
  assumes contract: "file_contract e cont" and sync: "buf_synced cont p s" and v: "buffered_content cont p s = Some v"
    and off: "0 \<le> off" "off + int (length buf) \<le> 2 ^ 32 * g_Blocksize s" "nat off \<le> length v" and len: "length buf < 2 ^ 31"
    and run: "iFuseBufferedFsWrite e p buf off s = Some (st, s')" and st: "0 \<le> st"
  shows "buf_synced cont p s' \<and> buffered_content cont p s' = Some (overlay v (nat off) buf) \<and> st = int (length buf)
    \<and> g_Blocksize s' = g_Blocksize s"
proof -
  from run obtain st1 where w: "write_blocks e p buf off s = Some (st1, s')" "st = (if st1 < 0 then st1 else c_int (length buf))"
    by (auto simp: iFuseBufferedFsWrite_def)
  with st have "0 \<le> st1" by (auto split: if_splits)
  from write_blocks_content [OF contract sync v off w(1) this] w(2) this len show ?thesis by simp
qed

text \<open>After a flush that succeeds the server has everything.\<close>

lemma flushDelta_content:
  assumes contract: "file_contract e cont" and sync: "buf_synced cont p s" and v: "buffered_content cont p s = Some v"
    and d: "fd_heap (fds (bfs s)) p = Some d" "accmode (fd_openFlag d) \<noteq> O_RDONLY" and run: "flushDelta e p s = Some (0, s')"
  shows "buf_synced cont p s' \<and> content cont p (bfs s') = Some v \<and> buffered_content cont p s' = Some v
    \<and> map_find (g_DeltaMap s') (fd_iRodsPath d) = None"
proof -
  note ok = buf_syncedD(1) [OF sync]
  from sync d obtain c where vs: "views cont p d c s" by (auto simp: buf_synced_def views_def)
  from views_content [OF vs] v have vp: "v = pending s (fd_iRodsPath d) c" by simp
  from flushDelta_live [OF ok buf_syncedD(3) [OF sync] d(1), of e] run d(2) have
    io: "buf_io p s s'" and none: "map_find (g_DeltaMap s') (fd_iRodsPath d) = None" and
    how: "case map_find (g_DeltaMap s) (fd_iRodsPath d) of None \<Rightarrow> s' = s
          | Some bc \<Rightarrow> sent e p (fd_iRodsPath d) bc s s'" by (auto split: option.splits)
  show ?thesis
  proof (cases "map_find (g_DeltaMap s) (fd_iRodsPath d)")
    case None
    then show ?thesis using how vs vp sync v by (auto simp: pending_def views_def)
  next
    case (Some bc)
    with how have "sent e p (fd_iRodsPath d) bc s s'" by simp
    from sent_views [OF contract ok buf_syncedD(2) [OF sync] vs Some this io] none vp obtain d' where
      d': "fd_synced cont p (bfs s')" "fd_iRodsPath d' = fd_iRodsPath d" "views cont p d' v s'" by auto
    with views_content [OF d'(3)] none buf_ioD(2) [OF io] show ?thesis
      by (auto simp: buf_synced_def pending_def views_def)
  qed
qed

section \<open>Reading\<close>

lemma fetch_block_result:
  assumes "fetch_block e p d start s = Some (Inr bc, s')"
  shows "\<exists>s1 r1 s2 ok st dat. newBufferCache e (s\<lparr>g_CacheMap := map_erase (fd_fdId d) (g_CacheMap s)\<rparr>) = (r1, s1)
    \<and> onLibB (mem_ok e) s1 = (ok, s2)
    \<and> iFuseFsRead e p start (size_t (g_Blocksize s)) (bfs s2) = Some ((st, dat), bfs s') \<and> 0 \<le> st
    \<and> length dat \<le> size_t (g_Blocksize s) \<and> bc_buffer bc = overlay (zeros (size_t (g_Blocksize s))) 0 dat
    \<and> bc_offset bc = start \<and> bc_size bc = nat st \<and> bc_iRodsPath bc = fd_iRodsPath d
    \<and> g_CacheMap s' = map_insert (fd_fdId d) bc (g_CacheMap s2)"
proof -
  obtain r1 s1 where 1: "newBufferCache e (s\<lparr>g_CacheMap := map_erase (fd_fdId d) (g_CacheMap s)\<rparr>) = (r1, s1)" by (rule prod.exhaust)
  obtain ok s2 where 2: "onLibB (mem_ok e) s1 = (ok, s2)" by (rule prod.exhaust)
  show ?thesis using assms 1 2
    by (auto simp: fetch_block_def Let_def onFs_def not_less split: if_splits prod.splits)
qed

lemma fetch_block_content:
  assumes contract: "file_contract e cont" and ok: "tables_ok s" and sync: "fd_synced cont p (bfs s)" and v: "views cont p d c s"
    and start: "0 \<le> start" and run: "fetch_block e p d start s = Some (Inr bc, s')" and io: "buf_io p s s'" and dm: "g_DeltaMap s' = g_DeltaMap s"
  shows "fd_synced cont p (bfs s') \<and> (\<exists>d'. fd_iRodsPath d' = fd_iRodsPath d \<and> views cont p d' c s') \<and> cache_of (g_Blocksize s) c bc"
proof -
  from fetch_block_result [OF run] obtain s1 r1 s2 okm st dat where
    1: "newBufferCache e (s\<lparr>g_CacheMap := map_erase (fd_fdId d) (g_CacheMap s)\<rparr>) = (r1, s1)" "onLibB (mem_ok e) s1 = (okm, s2)"
    and r: "iFuseFsRead e p start (size_t (g_Blocksize s)) (bfs s2) = Some ((st, dat), bfs s')" "0 \<le> st"
      "length dat \<le> size_t (g_Blocksize s)" "bc_buffer bc = overlay (zeros (size_t (g_Blocksize s))) 0 dat"
    and bc: "bc_offset bc = start" "bc_size bc = nat st" "bc_iRodsPath bc = fd_iRodsPath d"
      "g_CacheMap s' = map_insert (fd_fdId d) bc (g_CacheMap s2)" by (elim exE conjE)
  from v have d: "fd_heap (fds (bfs s)) p = Some d" by (simp add: views_def)
  have q: "quiet e (bfs s) (bfs s2)"
    using newBufferCache_quiet [OF 1(1)] mem_quiet [OF 1(2)] by (auto intro: quiet_trans)
  have d0: "fd_heap (fds (bfs (s\<lparr>g_CacheMap := map_erase (fd_fdId d) (g_CacheMap s)\<rparr>))) p = Some d" using d by simp
  note n1 = newBufferCache_io [OF d0 1(1)]
  have d1: "fd_heap (fds (bfs s1)) p = Some d" using n1(3) d by simp
  have "io_ok p (bfs s) (bfs s2)" using n1(1) mem_io(1) [OF d1 1(2)] by (auto intro: io_ok_trans)
  with sync have inv: "fs_inv (bfs s2)" using io_okD(1) by (auto simp: fd_synced_def)
  note qc = quiet_content [OF contract q]
  from Read_content [OF contract qc(2) [OF inv sync] start r(1,2)] qc(1) [of p] v have
    c: "fd_synced cont p (bfs s')" "content cont p (bfs s') = Some c" "dat = take (size_t (g_Blocksize s)) (drop (nat start) c)"
      "st = int (length dat)" by (auto simp: views_def)
  note B = block_size_nat(1) [OF tables_okD(1) [OF ok]]
  have "take (bc_size bc) (bc_buffer bc) = dat" using c(4) bc(2) r(4) by (simp add: overlay_def)
  then have cb: "cache_of (g_Blocksize s) c bc" using c(3) bc(1) by (simp add: cache_of_def B)
  from buf_ioD(6) [OF io d] obtain d' where d': "fd_heap (fds (bfs s')) p = Some d'" "fd_same d d'" by blast
  have "views cont p d' c s'"
    using v d'(1) c(2) views_fd_same [OF d'(2)] bc cb buf_ioD(3) [OF io] dm by (simp add: views_def)
  with c(1) cb views_fd_same(1) [OF d'(2)] show ?thesis by blast
qed

lemma readBlock_content:
  assumes contract: "file_contract e cont" and sync: "buf_synced cont p s" and v: "buffered_content cont p s = Some v"
    and buf: "length buf = nat (g_Blocksize s)" and run: "readBlock e p buf b s = Some ((st, buf'), s')" and st: "0 \<le> st"
  shows "buf_synced cont p s' \<and> buffered_content cont p s' = Some v \<and> g_Blocksize s' = g_Blocksize s
    \<and> length buf' = nat (g_Blocksize s) \<and> nat st \<le> nat (g_Blocksize s)
    \<and> take (nat st) buf' = take (nat (g_Blocksize s)) (drop (nat (uint b * g_Blocksize s)) v)"
proof -
  let ?B = "g_Blocksize s" and ?start = "uint b * g_Blocksize s"
  note ok = buf_syncedD(1) [OF sync] and inv = buf_syncedD(3) [OF sync] and replies = file_contract_replies [OF contract]
  note B = tables_okD(1) [OF ok]
  from sync obtain d c where vs: "views cont p d c s" by (auto simp: buf_synced_def)
  then have d: "fd_heap (fds (bfs s)) p = Some d" by (simp add: views_def)
  let ?path = "fd_iRodsPath d" and ?dl = "map_find (g_DeltaMap s) (fd_iRodsPath d)"
  note start = getBlockStartOffset_ok [OF B, of b]
  from cached_block_live [OF replies ok inv d start(2)] obtain r s1 where
    1: "cached_block e p d ?start s = Some (r, s1)" "buf_io p s s1" "g_DeltaMap s1 = g_DeltaMap s"
      "case r of Inl st \<Rightarrow> st < 0 | Inr bc \<Rightarrow> entry_ok ?B bc \<and> bc_offset bc = ?start" by auto
  from run 1 d start(1) st obtain bc where r: "r = Inr bc" by (cases r) (auto simp: readBlock_def)
  with 1(4) have bc: "entry_ok ?B bc" "bc_offset bc = ?start" by simp_all
  have "fd_synced cont p (bfs s1) \<and> (\<exists>d'. fd_iRodsPath d' = ?path \<and> views cont p d' c s1) \<and> cache_of ?B c bc"
  proof (cases "s1 = s \<and> map_find (g_CacheMap s) (fd_fdId d) = Some bc")
    case True
    then show ?thesis using vs buf_syncedD(2) [OF sync] by (auto simp: views_def)
  next
    case False
    then have "fetch_block e p d ?start s = Some (Inr bc, s1)"
      using 1(1) r by (auto simp: cached_block_def split: option.splits if_splits)
    from fetch_block_content [OF contract ok buf_syncedD(2) [OF sync] vs _ this 1(2,3)] start(2) show ?thesis
      by (simp add: off_ok_def)
  qed
  then obtain d' where c: "fd_synced cont p (bfs s1)" "fd_iRodsPath d' = ?path" "views cont p d' c s1" "cache_of ?B c bc" by blast
  have vp: "v = pending s ?path c" using views_content [OF vs] v by simp
  then have vp1: "v = pending s1 ?path c" using 1(3) by (simp add: pending_def)
  have same: "buf_synced cont p s1 \<and> buffered_content cont p s1 = Some v \<and> g_Blocksize s1 = ?B"
    using c(1,2,3) buf_ioD(2,3) [OF 1(2)] views_content [OF c(3)] vp1 by (auto simp: buf_synced_def)
  let ?buf1 = "overlay buf 0 (take (bc_size bc) (bc_buffer bc))"
  note ce = copy_entry_ok [OF bc(1) buf]
  have sz: "bc_size bc \<le> nat ?B" "length (bc_buffer bc) = nat ?B" using bc by (simp_all add: entry_ok_def)
  have dl: "delta_ok ?B x" if "?dl = Some x" for x using tables_okD(4) [OF ok that] .
  note o = delta_over_ok [OF B _ ce [THEN conjunct2] sz(1), of ?dl b, OF dl]
  obtain n out where no: "over ?B ?dl ?start (bc_size bc) ?buf1 = (n, out)" by (rule prod.exhaust)
  have n: "n \<le> nat ?B" "length out = nat ?B" using o no by simp_all
  then have "n < 2 ^ 31" using block_size_nat(4) [OF B] by linarith
  then have res: "st = int n" "buf' = out" "s' = s1"
    using run 1 d start(1) r ce o no buf_ioD(3) [OF 1(2)] by (auto simp: readBlock_def)
  have buf1: "take (bc_size bc) ?buf1 = take (bc_size bc) (bc_buffer bc)" using sz by (simp add: overlay_def min_absorb2)
  then have cb: "take (bc_size bc) ?buf1 = take (nat ?B) (drop (nat ?start) c)"
    using c(4) bc(2) by (simp add: cache_of_def)
  have "take n out = take (nat ?B) (drop (nat ?start) v)"
  proof (cases ?dl)
    case None
    then have out: "n = bc_size bc" "out = ?buf1" and vc: "v = c" using no vp by (auto simp: over_def pending_def)
    show ?thesis unfolding out vc by (rule cb)
  next
    case (Some x)
    note x = dl [OF Some, unfolded delta_ok_def piece_ok_def]
    have le: "nat (bc_offset x) \<le> length c" using vs Some by (simp add: views_def)
    have vx: "v = overlay c (nat (bc_offset x)) (bc_buffer x)" using vp Some by (simp add: pending_def)
    show ?thesis
    proof (cases "bc_offset x div ?B = ?start div ?B")
      case True
      then have s: "bc_offset x - ?start = bc_offset x mod ?B" "?start \<le> bc_offset x" "bc_offset x - ?start < ?B"
        using same_block_sub [OF B _ True [symmetric]] by simp_all
      have k: "nat (bc_offset x - ?start) = nat (bc_offset x) - nat ?start"
        using s(2) start(2) by (simp add: nat_diff_distrib off_ok_def)
      have fit: "nat (bc_offset x) - nat ?start + length (bc_buffer x) \<le> nat ?B" "nat (bc_offset x) - nat ?start < nat ?B"
        using s x unfolding k [symmetric] by linarith+
      have "n = max (bc_size bc) (nat (bc_offset x) - nat ?start + length (bc_buffer x))"
        "out = overlay ?buf1 (nat (bc_offset x) - nat ?start) (bc_buffer x)"
        using no True Some x by (simp_all add: over_def k)
      with block_overlay [OF _ cb nat_mono [OF s(2)] le fit] ce sz show ?thesis by (simp add: vx)
    next
      case False
      then have out: "n = bc_size bc" "out = ?buf1" using no Some by (auto simp: over_def)
      have e: "entry_ok ?B bc" "cache_of ?B c (bc\<lparr>bc_iRodsPath := ?path\<rparr>)" using bc(1) c(4) by (simp_all add: cache_of_def)
      have "cache_of ?B (overlay c (nat (bc_offset x)) (bc_buffer x))
          (delta_on ?B ?path (bc_buffer x) (bc_offset x) (bc\<lparr>bc_iRodsPath := ?path\<rparr>))"
        by (rule delta_on_cache(1) [OF B _ e(2) _ _ le]) (use bc(1) x in \<open>simp_all add: entry_ok_def piece_ok_def\<close>)
      then have "take (bc_size bc) (bc_buffer bc) = take (nat ?B) (drop (nat ?start) v)"
        using False bc(2) by (simp add: delta_on_def cache_of_def vx)
      then show ?thesis unfolding out buf1 .
    qed
  qed
  then show ?thesis using res same n by simp
qed

lemma read_round_eq:
  assumes B: "block_size_ok (g_Blocksize s)" and off: "off_ok (g_Blocksize s) off"
  shows "read_round e p off remain bb s =
    do { ((st, bb'), s1) \<leftarrow> readBlock e p bb (word_of_int (off div g_Blocksize s)) s;
         if st < 0 then Some ((Read_failed st, bb'), s1)
         else if st = 0 then Some ((Read_eof, bb'), s1)
         else do { r \<leftarrow> block_chunk (g_Blocksize s) (off mod g_Blocksize s) (min remain (room_at (g_Blocksize s) off)) (nat st) bb';
                   Some ((r, bb'), s1) } }"
proof -
  let ?B = "g_Blocksize s"
  have i: "0 \<le> off mod ?B" "off mod ?B < ?B" using B by (simp_all add: block_size_ok_def)
  have av: "size_t (?B - off mod ?B) = room_at ?B off"
    unfolding room_at_def using i B by (intro size_t_int) (auto simp: block_size_ok_def)
  have cur: "(if size_t (?B - off mod ?B) > remain then remain else size_t (?B - off mod ?B)) = min remain (room_at ?B off)"
    unfolding av by (simp add: min_def)
  show ?thesis
    unfolding read_round_def getBlockID_ok(1) [OF B off] getInBlockOffset_ok [OF B off] Option.bind.bind_lunit Let_def cur ..
qed

text \<open>Where a block of the file lies: \<open>i\<close> bytes into the block are \<open>off\<close> bytes into the file.\<close>

lemma block_at:
  assumes "take n xs = take b (drop start v)" and "length xs = b" and "n \<le> b" and "i \<le> n" and "off = start + i"
  shows "m \<le> n - i \<Longrightarrow> take m (drop i xs) = take m (drop off v)"
    and "n < b \<Longrightarrow> length v - off = n - i" "n = b \<Longrightarrow> b - i \<le> length v - off"
proof -
  have n: "n = min b (length v - start)" using arg_cong [OF assms(1), of length] assms(2,3) by simp
  show "n < b \<Longrightarrow> length v - off = n - i" "n = b \<Longrightarrow> b - i \<le> length v - off" using n assms(4,5) by auto
  assume m: "m \<le> n - i"
  have "take m (drop i xs) = drop i (take (i + m) xs)" by (simp add: drop_take)
  also have "take (i + m) xs = take (i + m) (take n xs)" using m assms(4) by (simp add: min_absorb1)
  also have "drop i \<dots> = drop i (take (i + m) (drop start v))"
    unfolding assms(1) using m assms(3,4) by (simp add: min_absorb1)
  also have "\<dots> = take m (drop off v)" by (simp add: drop_take assms(5) add.commute)
  finally show "take m (drop i xs) = take m (drop off v)" .
qed

lemma read_round_content:
  assumes contract: "file_contract e cont" and sync: "buf_synced cont p s" and v: "buffered_content cont p s = Some v"
    and bb: "length bb = nat (g_Blocksize s)" and off: "off_ok (g_Blocksize s) off" and remain: "0 < remain"
    and run: "read_round e p off remain bb s = Some ((r, bb'), s')" and r: "\<forall>st. r \<noteq> Read_failed st"
  shows "buf_synced cont p s' \<and> buffered_content cont p s' = Some v \<and> g_Blocksize s' = g_Blocksize s
    \<and> length bb' = nat (g_Blocksize s)
    \<and> (case r of Read_chunk chunk short \<Rightarrow> length chunk \<le> remain \<and> chunk = take (length chunk) (drop (nat off) v)
          \<and> (short \<longrightarrow> chunk = take remain (drop (nat off) v))
        | _ \<Rightarrow> take remain (drop (nat off) v) = [])"
proof -
  let ?B = "g_Blocksize s" and ?i = "off mod g_Blocksize s"
  note B = tables_okD(1) [OF buf_syncedD(1) [OF sync]]
  from run r obtain st where rb: "readBlock e p bb (word_of_int (off div ?B)) s = Some ((st, bb'), s')" "0 \<le> st"
    and res: "if st = 0 then r = Read_eof else block_chunk ?B ?i (min remain (room_at ?B off)) (nat st) bb' = Some r"
    by (auto simp: read_round_eq [OF B off] split: if_splits)
  from readBlock_content [OF contract sync v bb rb] getBlockID_ok(2) [OF B off] have
    c: "buf_synced cont p s'" "buffered_content cont p s' = Some v" "g_Blocksize s' = ?B" "length bb' = nat ?B" "nat st \<le> nat ?B"
      "take (nat st) bb' = take (nat ?B) (drop (nat (off div ?B * ?B)) v)" by simp_all
  have i: "0 \<le> ?i" "?i < ?B" using B by (simp_all add: block_size_ok_def)
  have start: "0 \<le> off div ?B * ?B" using off_div(1) [OF B off] B by (simp add: block_size_ok_def)
  have off_eq: "nat off = nat (off div ?B * ?B) + nat ?i"
    using start i nat_add_distrib [of "off div ?B * ?B" ?i] by simp
  define n where "n = min remain (room_at ?B off)"
  have n: "0 < n" "n \<le> nat (?B - ?i)" using remain i by (simp_all add: n_def room_at_def)
  have room: "nat (?B - ?i) = nat ?B - nat ?i" using i by (intro nat_diff_distrib) simp_all
  have "case r of Read_chunk chunk short \<Rightarrow> length chunk \<le> remain \<and> chunk = take (length chunk) (drop (nat off) v)
          \<and> (short \<longrightarrow> chunk = take remain (drop (nat off) v))
        | _ \<Rightarrow> take remain (drop (nat off) v) = []"
  proof (cases "st = 0")
    case True
    have "length v \<le> nat (off div ?B * ?B)" using c(6) True B by (simp add: block_size_ok_def)
    then show ?thesis using res True off_eq by simp
  next
    case False
    then have blk: "block_chunk ?B ?i n (nat st) bb' = Some r" using res by (simp add: n_def)
    note bc = block_chunk_ok [OF B i n(2) c(4,5)]
    have ge: "nat ?i \<le> nat st" using blk bc by (auto split: if_splits)
    note at = block_at [OF c(6,4,5) ge off_eq]
    let ?m = "min n (nat st - nat ?i)"
    have bc': "block_chunk ?B ?i n (nat st) bb' = Some (if ?m = 0 then Read_eof else Read_chunk (take ?m (drop (nat ?i) bb')) (nat st < nat ?B))"
      unfolding bc if_not_P [OF ge [folded not_less]] by (rule if_distrib [where f = Some, symmetric])
    show ?thesis
    proof (cases "?m = 0")
      case True
      then have "nat st = nat ?i" using n(1) ge by simp
      moreover have "nat ?i < nat ?B" using i by simp
      ultimately have "length v - nat off = 0" using at(2) by simp
      then show ?thesis using blk bc' True by simp
    next
      case False
      then have r: "r = Read_chunk (take ?m (drop (nat ?i) bb')) (nat st < nat ?B)" using blk unfolding bc' if_not_P [OF False] by blast
      have chunk: "take ?m (drop (nat ?i) bb') = take ?m (drop (nat off) v)" by (rule at(1)) simp
      have "nat st - nat ?i \<le> length v - nat off"
      proof (cases "nat st = nat ?B")
        case True
        from at(3) [OF True] show ?thesis unfolding True .
      next
        case False
        from at(2) [OF le_neq_implies_less [OF c(5) this]] show ?thesis by (rule eq_imp_le [OF sym])
      qed
      then have len: "length (take ?m (drop (nat off) v)) = ?m" by (simp add: min.coboundedI2 min_absorb2)
      have le: "?m \<le> remain" by (simp add: n_def min.coboundedI1)
      have "take ?m (drop (nat off) v) = take remain (drop (nat off) v)" if "nat st < nat ?B"
      proof -
        have l: "length (drop (nat off) v) = nat st - nat ?i" using at(2) [OF that] by simp
        have "nat st - nat ?i \<le> room_at ?B off" unfolding room_at_def room by (rule diff_le_mono [OF c(5)])
        then have "n = remain \<or> nat st - nat ?i \<le> n" unfolding n_def by (cases "remain \<le> room_at ?B off") simp_all
        then show ?thesis
        proof
          assume "nat st - nat ?i \<le> n"
          then have m: "?m = nat st - nat ?i" by (rule min_absorb2)
          then have "nat st - nat ?i \<le> remain" using le by (rule subst)
          then show ?thesis unfolding m using l by simp
        next
          assume "n = remain"
          then show ?thesis using l by (simp add: min_def)
        qed
      qed
      then show ?thesis using len le unfolding r chunk read_result.case len by simp
    qed
  qed
  then show ?thesis using c by simp
qed

lemma take_step: "k \<le> m \<Longrightarrow> take k (drop off v) @ take (m - k) (drop (off + k) v) = take m (drop off v)"
  by (metis add.commute drop_drop le_add_diff_inverse take_add)

lemma read_blocks_content:
  assumes "file_contract e cont" and "buf_synced cont p s" and "buffered_content cont p s = Some v"
    and "length bb = nat (g_Blocksize s)" and "0 \<le> off" and "off + int remain \<le> 2 ^ 32 * g_Blocksize s"
    and "read_blocks e p off remain out bb s = Some ((st, res), s')" and "0 \<le> st"
  shows "buf_synced cont p s' \<and> buffered_content cont p s' = Some v \<and> g_Blocksize s' = g_Blocksize s
    \<and> res = out @ take remain (drop (nat off) v) \<and> st = c_int (length res)"
  using assms
proof (induction remain arbitrary: off out bb s rule: less_induct)
  case (less remain)
  show ?case
  proof (cases "remain = 0")
    case True
    then show ?thesis using less.prems by (auto simp: read_blocks.simps)
  next
    case False
    have off: "off_ok (g_Blocksize s) off" using less.prems(5,6) False by (intro off_ok_range) auto
    from less.prems(7) False obtain r bb' s1 where run: "read_round e p off remain bb s = Some ((r, bb'), s1)"
      by (subst (asm) read_blocks.simps) auto
    note loop = less.prems(7) [unfolded read_blocks.simps [of e p off remain out bb s] run]
    from less.prems(2) obtain d where d: "fd_heap (fds (bfs s)) p = Some d" by (auto simp: buf_synced_def views_def)
    have ok: "\<forall>st. r \<noteq> Read_failed st"
      using read_round_live [OF file_contract_replies [OF less.prems(1)] buf_syncedD(1,3) [OF less.prems(2)] d less.prems(4) off, of remain]
        run loop less.prems(8) False by auto
    note c = read_round_content [OF less.prems(1-4) off _ run ok]
    show ?thesis
    proof (cases "\<exists>chunk. r = Read_chunk chunk False")
      case no: False
      then show ?thesis using c loop False ok by (cases r) auto
    next
      case True
      then obtain chunk where r: "r = Read_chunk chunk False" ..
      have s1: "buf_synced cont p s1" "buffered_content cont p s1 = Some v" "g_Blocksize s1 = g_Blocksize s" "length bb' = nat (g_Blocksize s)"
        "length chunk \<le> remain" "chunk = take (length chunk) (drop (nat off) v)" using c r False by simp_all
      have ne: "chunk \<noteq> []" using read_round_chunk run r by metis
      have rest: "read_blocks e p (off + int (length chunk)) (remain - length chunk) (out @ chunk) bb' s1 = Some ((st, res), s')"
        using loop r False by simp
      have "buf_synced cont p s' \<and> buffered_content cont p s' = Some v \<and> g_Blocksize s' = g_Blocksize s1
          \<and> res = (out @ chunk) @ take (remain - length chunk) (drop (nat (off + int (length chunk))) v) \<and> st = c_int (length res)"
        by (rule less.IH [OF _ less.prems(1) s1(1,2) _ _ _ rest less.prems(8)])
           (use ne False s1(3,4,5) less.prems(5,6) in auto)
      moreover have "chunk @ take (remain - length chunk) (drop (nat (off + int (length chunk))) v) = take remain (drop (nat off) v)"
        using take_step [OF s1(5), of "nat off" v] s1(6) less.prems(5) by (simp add: nat_add_distrib)
      ultimately show ?thesis using s1(3) by simp
    qed
  qed
qed

lemma mem_synced:
  assumes contract: "file_contract e cont" and sync: "buf_synced cont p s" and v: "buffered_content cont p s = Some v"
    and run: "onLibB (mem_ok e) s = (ok, s1)"
  shows "buf_synced cont p s1" "buffered_content cont p s1 = Some v" "g_Blocksize s1 = g_Blocksize s"
proof -
  from sync obtain d c where vs: "views cont p d c s" by (auto simp: buf_synced_def)
  then have d: "fd_heap (fds (bfs s)) p = Some d" by (simp add: views_def)
  note m = mem_io [OF d run] and q = quiet_content [OF contract mem_quiet [OF run]]
  have io: "buf_io p s s1" using buf_io_below [OF buf_syncedD(1) [OF sync] m(1)] m(2) by simp
  have tabs: "g_DeltaMap s1 = g_DeltaMap s" "g_CacheMap s1 = g_CacheMap s" "g_Blocksize s1 = g_Blocksize s" by (subst m(2), simp)+
  have vs1: "views cont p d c s1" using vs m(3) q(1) [of p] tabs by (simp add: views_def)
  show "g_Blocksize s1 = g_Blocksize s" by (rule tabs(3))
  show "buf_synced cont p s1"
    using vs1 buf_ioD(2) [OF io] q(2) [OF buf_ioD(5) [OF io buf_syncedD(3) [OF sync]] buf_syncedD(2) [OF sync]]
    by (auto simp: buf_synced_def)
  show "buffered_content cont p s1 = Some v"
    using views_content [OF vs1] views_content [OF vs] v tabs(1) by (simp add: pending_def)
qed

lemma Read_buffered_content:
  assumes contract: "file_contract e cont" and sync: "buf_synced cont p s" and v: "buffered_content cont p s = Some v"
    and off: "0 \<le> off" "off + int sz \<le> 2 ^ 32 * g_Blocksize s" and len: "sz < 2 ^ 31"
    and run: "iFuseBufferedFsRead e p off sz s = Some ((st, res), s')" and st: "0 \<le> st"
  shows "buf_synced cont p s' \<and> buffered_content cont p s' = Some v \<and> g_Blocksize s' = g_Blocksize s
    \<and> res = take sz (drop (nat off) v) \<and> st = int (length res)"
proof -
  note ok = buf_syncedD(1) [OF sync]
  obtain ok1 s1 where 1: "onLibB (mem_ok e) s = (ok1, s1)" by (rule prod.exhaust)
  note m = mem_synced [OF contract sync v 1]
  have "ok1" using run 1 st contract_quiet(3) [OF contract] by (cases ok1) (auto simp: iFuseBufferedFsRead_def)
  with run 1 have loop: "read_blocks e p off sz [] (zeros (size_t (g_Blocksize s))) s1 = Some ((st, res), s')"
    by (simp add: iFuseBufferedFsRead_def)
  have bb: "length (zeros (size_t (g_Blocksize s))) = nat (g_Blocksize s1)"
    using block_size_nat(1) [OF tables_okD(1) [OF ok]] by (simp add: m(3))
  have "length (take sz (drop (nat off) v)) < 2 ^ 31" using len by simp
  with read_blocks_content [OF contract m(1,2) bb off(1) _ loop st] off(2) show ?thesis by (simp add: m(3))
qed

section \<open>The buffered layer is a byte store\<close>

text \<open>
  \<open>buf_ok\<close>: the state of the layer over an open file, with block size \<open>B\<close>. The requests with
  room are those that stay below \<open>2 ^ 32\<close> blocks and whose size fits an \<open>int\<close>.
\<close>

definition buf_ok :: "'w ext \<Rightarrow> 'w files \<Rightarrow> int \<Rightarrow> nat \<Rightarrow> 'w buf_state \<Rightarrow> bool" where
  "buf_ok e cont B p s \<longleftrightarrow> file_contract e cont \<and> g_Blocksize s = B \<and> buf_synced cont p s"

definition request_ok :: "int \<Rightarrow> int \<Rightarrow> nat \<Rightarrow> bool" where
  "request_ok B off n \<longleftrightarrow> off + int n \<le> 2 ^ 32 * B \<and> n < 2 ^ 31"

interpretation buffered: byte_store "iFuseBufferedFsRead e p" "iFuseBufferedFsWrite e p" "buffered_content cont p"
    "request_ok B" "buf_ok e cont B p" for e :: "'w ext" and cont and p and B
proof unfold_locales
  fix s c off n st buf s' assume "buf_ok e cont B p s" "buffered_content cont p s = Some c" "0 \<le> off" "request_ok B off n"
    "iFuseBufferedFsRead e p off n s = Some ((st, buf), s')" "0 \<le> st"
  with Read_buffered_content [of e cont p s c off n st buf s']
  show "buf_ok e cont B p s' \<and> buffered_content cont p s' = Some c \<and> buf = take n (drop (nat off) c) \<and> st = int (length buf)"
    by (simp add: buf_ok_def request_ok_def)
next
  fix s c off buf st s' assume "buf_ok e cont B p s" "buffered_content cont p s = Some c" "0 \<le> off" "nat off \<le> length c"
    "request_ok B off (length buf)" "iFuseBufferedFsWrite e p buf off s = Some (st, s')" "0 \<le> st"
  with Write_buffered_content [of e cont p s c off buf st s']
  show "buf_ok e cont B p s' \<and> buffered_content cont p s' = Some (overlay c (nat off) buf) \<and> st = int (length buf)"
    by (simp add: buf_ok_def request_ok_def)
qed

end
