(* ===== verification/IFuse_Serving.thy ===== *)
theory IFuse_Serving
  imports IFuse_BufferedContent
begin

text \<open>
  A server that is up: while it is, seeks to offsets from 0 on, reads and writes on descriptors
  it knows do not fail. Then reading and writing through the client succeed, so that what \<open>IFuse_Content\<close> and
  \<open>IFuse_BufferedContent\<close> say of calls that report success holds of every call.
\<close>

definition quiet_up :: "'w ext \<Rightarrow> ('w \<Rightarrow> bool) \<Rightarrow> bool" where
  "quiet_up e up \<longleftrightarrow> calloc_ok e \<and> (\<forall>w. up w \<longrightarrow> up (snd (c_time e w)) \<and> up (snd (c_calloc e w)))"

definition lseek_up :: "'w ext \<Rightarrow> 'w files \<Rightarrow> ('w \<Rightarrow> bool) \<Rightarrow> bool" where
  "lseek_up e cont up \<longleftrightarrow>
     (\<forall>w h n f off st out w'. up w \<longrightarrow> cont w h n = Some f \<longrightarrow> 0 \<le> off \<longrightarrow> rcDataObjLseek e (Some h) n off w = ((st, out), w') \<longrightarrow>
        0 \<le> st \<and> out = Some off \<and> up w')"

definition read_up :: "'w ext \<Rightarrow> 'w files \<Rightarrow> ('w \<Rightarrow> bool) \<Rightarrow> bool" where
  "read_up e cont up \<longleftrightarrow>
     (\<forall>w h n f len st buf w'. up w \<longrightarrow> cont w h n = Some f \<longrightarrow> rcDataObjRead e (Some h) n len w = ((st, buf), w') \<longrightarrow>
        0 \<le> st \<and> up w')"

definition write_up :: "'w ext \<Rightarrow> 'w files \<Rightarrow> ('w \<Rightarrow> bool) \<Rightarrow> bool" where
  "write_up e cont up \<longleftrightarrow>
     (\<forall>w h n f buf st w'. up w \<longrightarrow> cont w h n = Some f \<longrightarrow> rcDataObjWrite e (Some h) n buf w = (st, w') \<longrightarrow>
        0 \<le> st \<and> up w')"

definition serving :: "'w ext \<Rightarrow> 'w files \<Rightarrow> ('w \<Rightarrow> bool) \<Rightarrow> bool" where
  "serving e cont up \<longleftrightarrow> quiet_up e up \<and> lseek_up e cont up \<and> read_up e cont up \<and> write_up e cont up"

lemma serving_quiet:
  assumes "serving e cont up"
  shows "calloc_ok e" "up w \<Longrightarrow> up (snd (c_time e w))" "up w \<Longrightarrow> up (snd (c_calloc e w))"
  using assms by (simp_all add: serving_def quiet_up_def)

lemma serving_calls:
  assumes "serving e cont up"
  shows "up w \<Longrightarrow> cont w h n = Some f \<Longrightarrow> 0 \<le> off \<Longrightarrow> rcDataObjLseek e (Some h) n off w = ((st, out), w') \<Longrightarrow> 0 \<le> st \<and> out = Some off \<and> up w'"
    "up w \<Longrightarrow> cont w h n = Some f \<Longrightarrow> rcDataObjRead e (Some h) n len w = ((st, buf), w') \<Longrightarrow> 0 \<le> st \<and> up w'"
    "up w \<Longrightarrow> cont w h n = Some f \<Longrightarrow> rcDataObjWrite e (Some h) n wbuf w = (st, w') \<Longrightarrow> 0 \<le> st \<and> up w'"
proof -
  from assms have c: "lseek_up e cont up" "read_up e cont up" "write_up e cont up" by (simp_all add: serving_def)
  show "up w \<Longrightarrow> cont w h n = Some f \<Longrightarrow> 0 \<le> off \<Longrightarrow> rcDataObjLseek e (Some h) n off w = ((st, out), w') \<Longrightarrow> 0 \<le> st \<and> out = Some off \<and> up w'"
    by (rule c(1) [unfolded lseek_up_def, rule_format])
  show "up w \<Longrightarrow> cont w h n = Some f \<Longrightarrow> rcDataObjRead e (Some h) n len w = ((st, buf), w') \<Longrightarrow> 0 \<le> st \<and> up w'"
    by (rule c(2) [unfolded read_up_def, rule_format])
  show "up w \<Longrightarrow> cont w h n = Some f \<Longrightarrow> rcDataObjWrite e (Some h) n wbuf w = (st, w') \<Longrightarrow> 0 \<le> st \<and> up w'"
    by (rule c(3) [unfolded write_up_def, rule_format])
qed

lemma up_time:
  assumes "serving e cont up" and "onLib (iFuseLibGetCurrentTime e) r = (x, r')" and "up (rc_world r)"
  shows "up (rc_world r')"
  using assms(2) serving_quiet(2) [OF assms(1,3)] by (auto simp: onLib_def iFuseLibGetCurrentTime_def split: prod.splits)

lemma up_malloc:
  assumes "serving e cont up" and "onLib (malloc_ptr e) r = (x, r')" and "up (rc_world r)"
  shows "up (rc_world r')" "x \<noteq> None"
proof -
  have ok: "fst (c_calloc e w)" for w using serving_quiet(1) [OF assms(1)] by (simp add: calloc_ok_def)
  show "up (rc_world r')" "x \<noteq> None"
    using assms(2) serving_quiet(3) [OF assms(1,3)] ok [of "rc_world r"]
    by (auto simp: onLib_def malloc_ptr_def mem_ok_def Let_def split: prod.splits if_splits)
qed

lemma wrapper_up:
  assumes contract: "file_contract e cont" and up: "serving e cont up" "up (rc_world r)"
    and run: "tracked_call e conn on_fail call r = (x, r')"
  shows "\<exists>w. up w \<and> cont w = cont (rc_world r) \<and> call w = (x, rc_world r')"
proof -
  obtain m r0 where m: "onLib (malloc_ptr e) r = (m, r0)" by force
  obtain now r1 where now: "onLib (iFuseLibGetCurrentTime e) r0 = (now, r1)" by force
  from up_malloc [OF up(1) m up(2)] obtain oper where u0: "up (rc_world r0)" "m = Some oper" by blast
  have "up (rc_world r1)" "cont (rc_world r1) = cont (rc_world r)"
    using up_time [OF up(1) now u0(1)] quiet_malloc [OF contract m] quiet_time [OF contract now] by simp_all
  moreover have "call (rc_world r1) = (x, rc_world r')"
  proof -
    obtain r2 where start: "startOperationTimeout e conn r = (Some oper, r2)" "rc_world r2 = rc_world r1"
      using m now u0(2) by (simp add: startOperationTimeout_def)
    obtain y w2 where "call (rc_world r1) = (y, w2)" by force
    then show ?thesis
      using start run by (auto simp: tracked_call_def onLib_def ext_call_def endOperationTimeout_def)
  qed
  ultimately show ?thesis by blast
qed

lemma call_first_up:
  assumes up: "serving e cont up" and cn: "conn_heap c cp = Some cn" and call: "call (cn_conn cn) (rcs c) = (x, r1)"
    and ok: "\<not> failed x" "up (rc_world r1)"
  shows "\<exists>c'. call_retry e True failed status_of call cp c = Some (Call_ok x, c') \<and> up (pool_world c')"
proof -
  obtain now c2 where 2: "currentTime e (c\<lparr>rcs := r1\<rparr>) = (now, c2)" by force
  then obtain r2 where r2: "onLib (iFuseLibGetCurrentTime e) r1 = (now, r2)" "c2 = c\<lparr>rcs := r2\<rparr>"
    by (auto simp: currentTime_def onRc_def split: prod.splits)
  have "up (pool_world c2)" using up_time [OF up r2(1) ok(2)] r2(2) by simp
  moreover have "iFuseConnUpdateLastActTime e cp False (c\<lparr>rcs := r1\<rparr>)
      = Some (c2\<lparr>conn_heap := (conn_heap c2)(cp \<mapsto> cn\<lparr>cn_lastActTime := now\<rparr>)\<rparr>)"
    using 2 r2(2) cn by (simp add: iFuseConnUpdateLastActTime_def update_conn_def)
  ultimately show ?thesis using cn call ok(1) by (simp add: call_retry_def onRc_def)
qed

section \<open>Reading and writing succeed\<close>

abbreviation fs_world :: "'w fs_state \<Rightarrow> 'w" where
  "fs_world s \<equiv> pool_world (conns (fds s))"

lemma server_fileD:
  assumes "server_file cont p s = Some f"
  shows "\<exists>d cp cn h. fd_heap (fds s) p = Some d \<and> fd_conn d = Some cp \<and> conn_heap (conns (fds s)) cp = Some cn
    \<and> cn_conn cn = Some h \<and> cont (fs_world s) h (fd_fd d) = Some f"
  using assms by (auto simp: server_file_def)

lemma onFU_world: "onFU (update_fd p f) s = Some s' \<Longrightarrow> fs_world s' = fs_world s"
  by (auto simp: onFU_def update_fd_def)

lemma seek_to_up:
  assumes contract: "file_contract e cont" and up: "serving e cont up" "up (fs_world s)"
    and off: "0 \<le> off" and sf: "server_file cont p s = Some f" and d: "fd_heap (fds s) p = Some d" "fd_conn d = Some cp"
  shows "\<exists>s'. seek_to e p cp off s = Some (None, s') \<and> up (fs_world s')"
proof (cases "fd_lastFilePointer d = off")
  case True
  then show ?thesis using d up(2) by (simp add: seek_to_def)
next
  case False
  from server_fileD [OF sf] d obtain cn h where cn: "conn_heap (conns (fds s)) cp = Some cn" "cn_conn cn = Some h"
    "cont (fs_world s) h (fd_fd d) = Some f" by auto
  let ?call = "\<lambda>conn. iFuseRodsClientDataObjLseek e conn (fd_fd d) off"
  obtain x r1 where 1: "?call (cn_conn cn) (rcs (conns (fds s))) = (x, r1)" by (rule prod.exhaust)
  obtain st out where x: "x = (st, out)" by (rule prod.exhaust)
  from wrapper_up [OF contract up 1 [unfolded iFuseRodsClientDataObjLseek_def]] obtain w where
    w: "up w" "cont w = cont (fs_world s)" "rcDataObjLseek e (Some h) (fd_fd d) off w = ((st, out), rc_world r1)"
    by (auto simp: cn(2) x)
  from serving_calls(1) [OF up(1) w(1) _ off w(3)] w(2) cn(3) have ok: "0 \<le> st" "out = Some off" "up (rc_world r1)" by auto
  from call_first_up [where call = ?call and failed = "\<lambda>(st, lseekOut). st < 0 \<or> lseekOut = None" and status_of = fst,
      OF up(1) cn(1) 1 _ ok(3)] ok x obtain c' where
    c': "call_retry e True (\<lambda>(st, lseekOut). st < 0 \<or> lseekOut = None) fst ?call cp (conns (fds s)) = Some (Call_ok (st, Some off), c')"
      "up (pool_world c')" by auto
  let ?s1 = "s\<lparr>fds := (fds s)\<lparr>conns := c'\<rparr>\<rparr>"
  have "onC (call_retry e True (\<lambda>(st, lseekOut). st < 0 \<or> lseekOut = None) fst ?call cp) s = Some (Call_ok (st, Some off), ?s1)"
    by (simp add: onC_def onF_def onConn_def c'(1))
  moreover obtain s2 where "onFU (update_fd p (\<lambda>d. d\<lparr>fd_lastFilePointer := off\<rparr>)) ?s1 = Some s2"
    using d by (simp add: onFU_def update_fd_def)
  ultimately show ?thesis using False d c'(2) onFU_world by (fastforce simp: seek_to_def)
qed

lemma read_locked_up:
  assumes contract: "file_contract e cont" and up: "serving e cont up" "up (fs_world s)" and pos: "pos_ok cont p s" "0 \<le> off"
    and sf: "server_file cont p s = Some f" and d: "fd_heap (fds s) p = Some d" "fd_conn d = Some cp"
    and run: "read_locked e p cp off sz s = Some ((st, buf), s')"
  shows "0 \<le> st \<and> up (fs_world s')"
proof -
  from seek_to_up [OF contract up pos(2) sf d] obtain s1 where 1: "seek_to e p cp off s = Some (None, s1)" "up (fs_world s1)" by blast
  from seek_to_content [OF contract d pos 1(1)] obtain f1 where
    d1: "fd_heap (fds s1) p = Some (d\<lparr>fd_lastFilePointer := off\<rparr>)" and sf1: "server_file cont p s1 = Some f1" by auto
  from server_fileD [OF sf1] d d1 obtain cn h where cn: "conn_heap (conns (fds s1)) cp = Some cn" "cn_conn cn = Some h"
    "cont (fs_world s1) h (fd_fd d) = Some f1" by auto
  let ?call = "\<lambda>conn. iFuseRodsClientDataObjRead e conn (fd_fd d) sz"
  obtain x r1 where 2: "?call (cn_conn cn) (rcs (conns (fds s1))) = (x, r1)" by (rule prod.exhaust)
  obtain st1 out where x: "x = (st1, out)" by (rule prod.exhaust)
  from wrapper_up [OF contract up(1) 1(2) 2 [unfolded iFuseRodsClientDataObjRead_def]] obtain w where
    w: "up w" "cont w = cont (fs_world s1)" "rcDataObjRead e (Some h) (fd_fd d) sz w = ((st1, out), rc_world r1)"
    by (auto simp: cn(2) x)
  from serving_calls(2) [OF up(1) w(1) _ w(3)] w(2) cn(3) have ok: "0 \<le> st1" "up (rc_world r1)" by auto
  from call_first_up [where call = ?call and failed = "\<lambda>(st, _). st < 0" and status_of = fst, OF up(1) cn(1) 2 _ ok(2)] ok(1) x
  obtain c' where c': "call_retry e True (\<lambda>(st, _). st < 0) fst ?call cp (conns (fds s1)) = Some (Call_ok (st1, out), c')"
    "up (pool_world c')" by auto
  have c: "onC (call_retry e True (\<lambda>(st, _). st < 0) fst ?call cp) s1 = Some (Call_ok (st1, out), s1\<lparr>fds := (fds s1)\<lparr>conns := c'\<rparr>\<rparr>)"
    by (simp add: onC_def onF_def onConn_def c'(1))
  have "0 \<le> st \<and> onFU (update_fd p (\<lambda>d. d\<lparr>fd_lastFilePointer := fd_lastFilePointer d + st\<rparr>))
      (s1\<lparr>fds := (fds s1)\<lparr>conns := c'\<rparr>\<rparr>) = Some s'"
    using run 1(1) d1 c ok(1) c'(2) by (auto simp: read_locked_def split: if_splits)
  then show ?thesis using onFU_world c'(2) by fastforce
qed

lemma write_locked_up:
  assumes contract: "file_contract e cont" and up: "serving e cont up" "up (fs_world s)" and pos: "pos_ok cont p s" "0 \<le> off"
    and sf: "server_file cont p s = Some f" and d: "fd_heap (fds s) p = Some d" "fd_conn d = Some cp"
    and run: "write_locked e p cp off buf s = Some (st, s')"
  shows "0 \<le> st \<and> up (fs_world s')"
proof -
  from seek_to_up [OF contract up pos(2) sf d] obtain s1 where 1: "seek_to e p cp off s = Some (None, s1)" "up (fs_world s1)" by blast
  from seek_to_content [OF contract d pos 1(1)] obtain f1 where
    d1: "fd_heap (fds s1) p = Some (d\<lparr>fd_lastFilePointer := off\<rparr>)" and sf1: "server_file cont p s1 = Some f1" by auto
  from server_fileD [OF sf1] d d1 obtain cn h where cn: "conn_heap (conns (fds s1)) cp = Some cn" "cn_conn cn = Some h"
    "cont (fs_world s1) h (fd_fd d) = Some f1" by auto
  let ?call = "\<lambda>conn. iFuseRodsClientDataObjWrite e conn (fd_fd d) buf"
  obtain x r1 where 2: "?call (cn_conn cn) (rcs (conns (fds s1))) = (x, r1)" by (rule prod.exhaust)
  from wrapper_up [OF contract up(1) 1(2) 2 [unfolded iFuseRodsClientDataObjWrite_def]] obtain w where
    w: "up w" "cont w = cont (fs_world s1)" "rcDataObjWrite e (Some h) (fd_fd d) buf w = (x, rc_world r1)"
    by (auto simp: cn(2))
  from serving_calls(3) [OF up(1) w(1) _ w(3)] w(2) cn(3) have ok: "0 \<le> x" "up (rc_world r1)" by auto
  from call_first_up [where call = ?call and failed = "\<lambda>st. st < 0" and status_of = id, OF up(1) cn(1) 2 _ ok(2)] ok(1)
  obtain c' where c': "call_retry e True (\<lambda>st. st < 0) id ?call cp (conns (fds s1)) = Some (Call_ok x, c')" "up (pool_world c')" by auto
  have c: "onC (call_retry e True (\<lambda>st. st < 0) id ?call cp) s1 = Some (Call_ok x, s1\<lparr>fds := (fds s1)\<lparr>conns := c'\<rparr>\<rparr>)"
    by (simp add: onC_def onF_def onConn_def c'(1))
  have "0 \<le> st \<and> onFU (update_fd p (\<lambda>d. d\<lparr>fd_lastFilePointer := fd_lastFilePointer d + st\<rparr>))
      (s1\<lparr>fds := (fds s1)\<lparr>conns := c'\<rparr>\<rparr>) = Some s'"
    using run 1(1) d1 c ok(1) c'(2) by (auto simp: write_locked_def)
  then show ?thesis using onFU_world c'(2) by fastforce
qed

lemma with_fd_lock_up:
  assumes run: "with_fd_lock p f s = Some (x, s')"
  shows "\<exists>d cp s2 s3. fd_heap (fds s) p = Some d \<and> fd_conn d = Some cp \<and> f cp s2 = Some (x, s3)
    \<and> fd_heap (fds s2) p = Some (d\<lparr>fd_lock := True\<rparr>) \<and> server_file cont p s2 = server_file cont p s
    \<and> fs_world s2 = fs_world s \<and> fs_world s' = fs_world s3"
proof -
  from run obtain d cp s1 s2 s3 s4 where
    d: "fd_heap (fds s) p = Some d" "fd_conn d = Some cp"
    and l: "onFU (iFuseFdLock p) s = Some s1" "onCU (iFuseConnLock cp) s1 = Some s2"
      "f cp s2 = Some (x, s3)" "onCU (iFuseConnUnlock cp) s3 = Some s4" "onFU (iFuseFdUnlock p) s4 = Some s'"
    by (auto simp: with_fd_lock_def split: if_splits)
  note l' = l [unfolded iFuseFdLock_def iFuseFdUnlock_def iFuseConnLock_def iFuseConnUnlock_def conn_wrlock_def conn_unlock_def]
  have "fd_heap (fds s2) p = Some (d\<lparr>fd_lock := True\<rparr>)" using l'(1,2) d by (auto simp: onFU_def onCU_def update_fd_def)
  moreover have "fs_world s2 = fs_world s" "fs_world s' = fs_world s3"
    using l'(1,2,4,5) by (auto simp: onFU_def onCU_def update_fd_def update_conn_def split: Option.bind_splits if_splits)
  ultimately show ?thesis
    using d l(3) server_file_locks(1) [OF l'(1), of cont] server_file_locks(2) [OF l'(2), of cont p] by metis
qed

lemma Read_up:
  assumes contract: "file_contract e cont" and up: "serving e cont up" "up (fs_world s)" and sync: "fd_synced cont p s"
    and c: "content cont p s = Some c" and off: "0 \<le> off"
  shows "\<exists>buf s'. iFuseFsRead e p off sz s = Some ((int (length buf), buf), s') \<and> up (fs_world s')
    \<and> buf = take sz (drop (nat off) c) \<and> fd_synced cont p s' \<and> content cont p s' = Some c"
proof -
  from sync obtain d0 where inv: "fs_inv s" and "fd_heap (fds s) p = Some d0" by (auto simp: fd_synced_def)
  from Read_live [OF this, of e off sz] file_contract_replies [OF contract] obtain st buf s' where
    run: "iFuseFsRead e p off sz s = Some ((st, buf), s')" by (auto simp: replies_ok_def split: option.splits)
  from with_fd_lock_up [OF run [unfolded iFuseFsRead_def], of cont] obtain d cp s2 s3 where
    r: "fd_heap (fds s) p = Some d" "fd_conn d = Some cp" "read_locked e p cp off sz s2 = Some ((st, buf), s3)"
      "fd_heap (fds s2) p = Some (d\<lparr>fd_lock := True\<rparr>)" "server_file cont p s2 = server_file cont p s"
      "fs_world s2 = fs_world s" "fs_world s' = fs_world s3" by blast
  have pos: "pos_ok cont p s2" using sync by (intro pos_ok_lock [OF _ r(1,4,5)]) (simp add: fd_synced_def)
  from c r(5) obtain f where sf: "server_file cont p s2 = Some f" by (auto simp: content_def)
  from read_locked_up [OF contract up(1) _ pos off sf r(4) _ r(3)] up(2) r(2,6,7) have ok: "0 \<le> st" "up (fs_world s')" by simp_all
  from Read_content [OF contract sync off run ok(1)] c run ok(2) show ?thesis by auto
qed

lemma Write_up:
  assumes contract: "file_contract e cont" and up: "serving e cont up" "up (fs_world s)" and sync: "fd_synced cont p s"
    and c: "content cont p s = Some c" and off: "0 \<le> off"
  shows "\<exists>s'. iFuseFsWrite e p buf off s = Some (int (length buf), s') \<and> up (fs_world s')
    \<and> fd_synced cont p s' \<and> content cont p s' = Some (overlay c (nat off) buf)"
proof -
  from sync obtain d0 where inv: "fs_inv s" and "fd_heap (fds s) p = Some d0" by (auto simp: fd_synced_def)
  from Write_live [OF this, of e buf off] obtain st s' where run: "iFuseFsWrite e p buf off s = Some (st, s')" by blast
  from with_fd_lock_up [OF run [unfolded iFuseFsWrite_def], of cont] obtain d cp s2 s3 where
    r: "fd_heap (fds s) p = Some d" "fd_conn d = Some cp" "write_locked e p cp off buf s2 = Some (st, s3)"
      "fd_heap (fds s2) p = Some (d\<lparr>fd_lock := True\<rparr>)" "server_file cont p s2 = server_file cont p s"
      "fs_world s2 = fs_world s" "fs_world s' = fs_world s3" by blast
  have pos: "pos_ok cont p s2" using sync by (intro pos_ok_lock [OF _ r(1,4,5)]) (simp add: fd_synced_def)
  from c r(5) obtain f where sf: "server_file cont p s2 = Some f" by (auto simp: content_def)
  from write_locked_up [OF contract up(1) _ pos off sf r(4) _ r(3)] up(2) r(2,6,7) have ok: "0 \<le> st" "up (fs_world s')" by simp_all
  from Write_content [OF contract sync off run ok(1)] c run ok(2) show ?thesis by auto
qed

section \<open>The buffered layer on a server that is up\<close>

abbreviation buf_world :: "'w buf_state \<Rightarrow> 'w" where
  "buf_world s \<equiv> fs_world (bfs s)"

lemma mem_up:
  assumes "serving e cont up" and "onLibB (mem_ok e) s = (ok, s1)" and "up (buf_world s)"
  shows "ok" "up (buf_world s1)"
proof -
  have alloc: "fst (c_calloc e w)" for w using serving_quiet(1) [OF assms(1)] by (simp add: calloc_ok_def)
  show "ok" "up (buf_world s1)"
    using assms(2) alloc serving_quiet(3) [OF assms(1,3)]
    by (auto simp: onLibB_def mem_ok_def put_lib_def get_lib_def split: prod.splits) (metis fst_conv)
qed

lemma newBufferCache_up:
  assumes "serving e cont up" and "newBufferCache e s = (r, s1)" and "up (buf_world s)"
  shows "r = (0, Some zero_bufferCache)" "up (buf_world s1)"
  using assms(2) mem_up [OF assms(1) _ assms(3)] by (auto simp: newBufferCache_def split: prod.splits if_splits)

lemma fetch_block_up:
  assumes contract: "file_contract e cont" and up: "serving e cont up" "up (buf_world s)"
    and ok: "tables_ok s" and sync: "fd_synced cont p (bfs s)" and c: "content cont p (bfs s) = Some c"
    and d: "fd_heap (fds (bfs s)) p = Some d" and start: "0 \<le> start" and run: "fetch_block e p d start s = Some (r, s')"
  shows "(\<exists>bc. r = Inr bc) \<and> up (buf_world s')"
proof -
  let ?s0 = "s\<lparr>g_CacheMap := map_erase (fd_fdId d) (g_CacheMap s)\<rparr>"
  obtain r1 s1 where 1: "newBufferCache e ?s0 = (r1, s1)" by (rule prod.exhaust)
  obtain okm s2 where 2: "onLibB (mem_ok e) s1 = (okm, s2)" by (rule prod.exhaust)
  from newBufferCache_up [OF up(1) 1] up(2) have u1: "r1 = (0, Some zero_bufferCache)" "up (buf_world s1)" by simp_all
  note u2 = mem_up [OF up(1) 2 u1(2)]
  have d0: "fd_heap (fds (bfs ?s0)) p = Some d" using d by simp
  note n1 = newBufferCache_io [OF d0 1]
  have d1: "fd_heap (fds (bfs s1)) p = Some d" using n1(3) d by simp
  have "io_ok p (bfs s) (bfs s2)" using n1(1) mem_io(1) [OF d1 2] by (auto intro: io_ok_trans)
  with sync have inv: "fs_inv (bfs s2)" using io_okD(1) by (auto simp: fd_synced_def)
  have q: "quiet e (bfs s) (bfs s2)" using newBufferCache_quiet [OF 1] mem_quiet [OF 2] by (auto intro: quiet_trans)
  note qc = quiet_content [OF contract q]
  note B = block_size_nat(1) [OF tables_okD(1) [OF ok]]
  from Read_up [OF contract up(1) u2(2) qc(2) [OF inv sync] _ start, of c "nat (g_Blocksize s)"] qc(1) [of p] c obtain dat t where
    r: "iFuseFsRead e p start (nat (g_Blocksize s)) (bfs s2) = Some ((int (length dat), dat), t)" "up (fs_world t)" by auto
  have "fetch_block e p d start s = Some (r, s')" by (rule run)
  with 1 2 u1(1) u2(1) r B show ?thesis
    by (auto simp: fetch_block_def onFs_def Let_def split: if_splits Option.bind_splits)
qed

lemma readBlock_up:
  assumes contract: "file_contract e cont" and up: "serving e cont up" "up (buf_world s)"
    and sync: "buf_synced cont p s" and buf: "length buf = nat (g_Blocksize s)"
    and run: "readBlock e p buf b s = Some ((st, buf'), s')"
  shows "0 \<le> st \<and> up (buf_world s')"
proof -
  let ?B = "g_Blocksize s" and ?start = "uint b * g_Blocksize s"
  note ok = buf_syncedD(1) [OF sync]
  note B = tables_okD(1) [OF ok]
  note start = getBlockStartOffset_ok [OF B, of b]
  from sync obtain d c where "views cont p d c s" by (auto simp: buf_synced_def)
  then have d: "fd_heap (fds (bfs s)) p = Some d" "content cont p (bfs s) = Some c" by (simp_all add: views_def)
  from cached_block_live [OF file_contract_replies [OF contract] ok buf_syncedD(3) [OF sync] d(1) start(2)] obtain r s1 where
    1: "cached_block e p d ?start s = Some (r, s1)" "buf_io p s s1" "g_DeltaMap s1 = g_DeltaMap s"
      "case r of Inl st \<Rightarrow> st < 0 | Inr bc \<Rightarrow> entry_ok ?B bc \<and> bc_offset bc = ?start" by auto
  have pos: "0 \<le> ?start" using start(2) by (simp add: off_ok_def)
  have fetch: "(\<exists>bc. r = Inr bc) \<and> up (buf_world s1)" if "fetch_block e p d ?start s = Some (r, s1)"
    by (rule fetch_block_up [OF contract up ok buf_syncedD(2) [OF sync] d(2,1) pos that])
  have hit: "(\<exists>bc. r = Inr bc) \<and> up (buf_world s1)"
    using 1(1) fetch up(2) by (auto simp: cached_block_def split: option.splits if_splits)
  then obtain bc where r: "r = Inr bc" and u: "up (buf_world s1)" by blast
  with 1(4) have bc: "entry_ok ?B bc" by simp
  note ce = copy_entry_ok [OF bc buf]
  have sz: "bc_size bc \<le> nat ?B" using bc by (simp add: entry_ok_def)
  have dl: "delta_ok ?B x" if "map_find (g_DeltaMap s) (fd_iRodsPath d) = Some x" for x using tables_okD(4) [OF ok that] .
  note o = delta_over_ok [OF B _ ce [THEN conjunct2] sz, of "map_find (g_DeltaMap s) (fd_iRodsPath d)" b, OF dl]
  obtain n out where no: "over ?B (map_find (g_DeltaMap s) (fd_iRodsPath d)) ?start (bc_size bc)
      (overlay buf 0 (take (bc_size bc) (bc_buffer bc))) = (n, out)" by (rule prod.exhaust)
  have "n \<le> nat ?B" using o no by simp
  then have "n < 2 ^ 31" using block_size_nat(4) [OF B] by linarith
  then have "st = int n" "s' = s1" using run 1 d start(1) r ce o no buf_ioD(3) [OF 1(2)] by (auto simp: readBlock_def)
  then show ?thesis using u by simp
qed

lemma writeBlock_up:
  assumes contract: "file_contract e cont" and up: "serving e cont up" "up (buf_world s)"
    and sync: "buf_synced cont p s" and piece: "piece_ok (g_Blocksize s) off buf"
    and run: "writeBlock e p buf off s = Some (st, s')"
  shows "st = 0 \<and> up (buf_world s')"
proof -
  note ok = buf_syncedD(1) [OF sync] and inv = buf_syncedD(3) [OF sync]
  note B = tables_okD(1) [OF ok]
  from sync obtain d c where "views cont p d c s" by (auto simp: buf_synced_def)
  then have d: "fd_heap (fds (bfs s)) p = Some d" "content cont p (bfs s) = Some c" by (simp_all add: views_def)
  let ?path = "fd_iRodsPath d"
  have ne: "buf \<noteq> []" using piece by (simp add: piece_ok_def)
  obtain ok1 s1 where 1: "onLibB (mem_ok e) s = (ok1, s1)" by (rule prod.exhaust)
  note u1 = mem_up [OF up(1) 1 up(2)] and m = mem_io [OF d(1) 1]
  note qc = quiet_content [OF contract mem_quiet [OF 1]]
  have inv1: "fs_inv (bfs s1)" using io_okD(1) [OF m(1) inv] .
  show ?thesis
  proof (cases "map_find (g_DeltaMap s) ?path")
    case None
    obtain r s2 where 2: "newBufferCache e s1 = (r, s2)" by (rule prod.exhaust)
    from newBufferCache_up [OF up(1) 2 u1(2)] run 1 2 u1(1) None d ne show ?thesis
      by (simp add: writeBlock_def Let_def) auto
  next
    case (Some bc)
    have dl: "delta_ok (g_Blocksize s) bc" using tables_okD(4) [OF ok Some] .
    have off: "0 \<le> bc_offset bc" "slice (bc_buffer bc) 0 (bc_size bc) = Some (bc_buffer bc)"
      using dl by (simp_all add: delta_ok_def piece_ok_def off_ok_def)
    from Write_up [OF contract up(1) u1(2) qc(2) [OF inv1 buf_syncedD(2) [OF sync]] _ off(1), of c "bc_buffer bc"] qc(1) [of p] d(2)
    obtain t where w: "iFuseFsWrite e p (bc_buffer bc) (bc_offset bc) (bfs s1) = Some (int (length (bc_buffer bc)), t)" "up (fs_world t)"
      by auto
    have bfs: "bfs s2 = bfs s1" if "applyDeltaToCache x y z s1 = Some s2" for x y z s2
      using that by (auto simp: applyDeltaToCache_def split: if_splits)
    obtain same where same: "isSameBlock (g_Blocksize s) (bc_offset bc) off = Some same"
      using isSameBlock_ok [OF B, of "bc_offset bc" off] dl piece by (simp add: delta_ok_def piece_ok_def)
    have run': "(if same \<and> bc_offset bc + int (bc_size bc) \<ge> off \<and> bc_offset bc \<le> off + int (length buf)
          then do { bc' \<leftarrow> join_delta bc buf off; Some (0, s1\<lparr>g_DeltaMap := map_insert ?path bc' (g_DeltaMap s1)\<rparr>) }
          else do {
            src \<leftarrow> slice (bc_buffer bc) 0 (bc_size bc);
            s2 \<leftarrow> applyDeltaToCache ?path src (bc_offset bc) s1;
            let s3 = s2\<lparr>g_DeltaMap := map_insert ?path
                        (bc\<lparr>bc_buffer := buf, bc_offset := off, bc_size := length buf\<rparr>) (g_DeltaMap s2)\<rparr>;
            (status, s4) \<leftarrow> onFs (iFuseFsWrite e p src (bc_offset bc)) s3;
            Some (if status < 0 then - ENOENT else 0, s4) }) = Some (st, s')" (is "(if ?J then ?a else ?b) = _")
      using run Some 1 u1(1) d(1) ne same by (simp add: writeBlock_def Let_def del: bind_Some_iff split del: if_split)
    show ?thesis
    proof (cases ?J)
      case True
      with run' u1(2) show ?thesis by auto
    next
      case False
      with run' off(2) obtain s2 where s2: "applyDeltaToCache ?path (bc_buffer bc) (bc_offset bc) s1 = Some s2"
        by (simp only: if_False) auto
      with run' False off(2) w bfs [OF s2] show ?thesis by (simp only: if_False) (auto simp: onFs_def)
    qed
  qed
qed

lemma synced_fd: "buf_synced cont p s \<Longrightarrow> \<exists>d. fd_heap (fds (bfs s)) p = Some d"
  by (auto simp: buf_synced_def views_def)

lemma write_blocks_up:
  assumes "file_contract e cont" and "serving e cont up" and "up (buf_world s)" and "buf_synced cont p s"
    and "buffered_content cont p s = Some v" and "0 \<le> off" and "off + int (length buf) \<le> 2 ^ 32 * g_Blocksize s"
    and "nat off \<le> length v" and "write_blocks e p buf off s = Some (st, s')"
  shows "st = 0 \<and> up (buf_world s')"
  using assms
proof (induction "length buf" arbitrary: buf off s v rule: less_induct)
  case less
  show ?case
  proof (cases "buf = []")
    case True
    then show ?thesis using less.prems by (auto simp: write_blocks.simps)
  next
    case False
    have off: "off_ok (g_Blocksize s) off" using less.prems(6,7) False by (intro off_ok_range) auto
    define n where "n = min (length buf) (room_at (g_Blocksize s) off)"
    note step = write_blocks_step [OF tables_okD(1) [OF buf_syncedD(1) [OF less.prems(4)]] off False, folded n_def]
    from less.prems(9) step(1) [of e p] obtain st1 s1 where
      1: "writeBlock e p (take n buf) off s = Some (st1, s1)" by auto
    from writeBlock_up [OF less.prems(1-4) step(4) 1] have u: "st1 = 0" "up (buf_world s1)" by simp_all
    have rest: "write_blocks e p (drop n buf) (off + int n) s1 = Some (st, s')"
      using less.prems(9) step(1) [of e p] 1 u(1) by simp
    from writeBlock_content [OF less.prems(1,4,5) step(4) less.prems(8) 1] u(1) have
      c: "buf_synced cont p s1" "buffered_content cont p s1 = Some (overlay v (nat off) (take n buf))" "g_Blocksize s1 = g_Blocksize s"
      by simp_all
    show ?thesis
      by (rule less.hyps [OF _ less.prems(1,2) u(2) c(1,2) _ _ _ rest])
         (use step(2,3) False less.prems(6,7) c(3) in \<open>auto simp: nat_add_distrib\<close>)
  qed
qed

lemma read_blocks_up:
  assumes "file_contract e cont" and "serving e cont up" and "up (buf_world s)" and "buf_synced cont p s"
    and "buffered_content cont p s = Some v" and "length bb = nat (g_Blocksize s)"
    and "0 \<le> off" and "off + int remain \<le> 2 ^ 32 * g_Blocksize s" and "length out + remain < 2 ^ 31"
    and "read_blocks e p off remain out bb s = Some ((st, res), s')"
  shows "0 \<le> st \<and> up (buf_world s')"
  using assms
proof (induction remain arbitrary: off out bb s rule: less_induct)
  case (less remain)
  show ?case
  proof (cases "remain = 0")
    case True
    then show ?thesis using less.prems by (auto simp: read_blocks.simps)
  next
    case False
    have off: "off_ok (g_Blocksize s) off" using less.prems(7,8) False by (intro off_ok_range) auto
    note B = tables_okD(1) [OF buf_syncedD(1) [OF less.prems(4)]]
    from less.prems(10) False obtain r bb' s1 where run: "read_round e p off remain bb s = Some ((r, bb'), s1)"
      by (subst (asm) read_blocks.simps) auto
    note loop = less.prems(10) [unfolded read_blocks.simps [of e p off remain out bb s] run]
    from run obtain st1 where rb: "readBlock e p bb (word_of_int (off div g_Blocksize s)) s = Some ((st1, bb'), s1)"
      and r: "st1 < 0 \<longrightarrow> r = Read_failed st1" "0 \<le> st1 \<longrightarrow> (\<forall>x. r \<noteq> Read_failed x)"
      by (auto simp: read_round_eq [OF B off] block_chunk_def Let_def split: if_splits)
    from readBlock_up [OF less.prems(1-4,6) rb] r have u: "\<forall>x. r \<noteq> Read_failed x" "up (buf_world s1)" by simp_all
    note c = read_round_content [OF less.prems(1,4,5,6) off _ run u(1)]
    have len: "length chunk \<le> remain" if "r = Read_chunk chunk short" for chunk short using c that False by simp
    show ?thesis
    proof (cases "\<exists>chunk. r = Read_chunk chunk False")
      case no: False
      have "s' = s1 \<and> (\<exists>n. n < 2 ^ 31 \<and> st = c_int n)"
      proof (cases r)
        case Read_eof
        then show ?thesis using loop False less.prems(9) by (auto intro!: exI [of _ "length out"])
      next
        case (Read_chunk chunk short)
        then show ?thesis using loop False less.prems(9) no len [OF Read_chunk] by (auto intro!: exI [of _ "length (out @ chunk)"])
      qed (use u(1) in simp)
      then show ?thesis using u(2) by auto
    next
      case True
      then obtain chunk where r: "r = Read_chunk chunk False" ..
      have s1: "buf_synced cont p s1" "buffered_content cont p s1 = Some v" "g_Blocksize s1 = g_Blocksize s" "length bb' = nat (g_Blocksize s)"
        using c r False by simp_all
      have ne: "chunk \<noteq> []" using read_round_chunk run r by metis
      have rest: "read_blocks e p (off + int (length chunk)) (remain - length chunk) (out @ chunk) bb' s1 = Some ((st, res), s')"
        using loop r False by simp
      show ?thesis
        by (rule less.IH [OF _ less.prems(1,2) u(2) s1(1,2) _ _ _ _ rest])
           (use ne False s1(3,4) len [OF r] less.prems(7,8,9) in auto)
    qed
  qed
qed

section \<open>Total correctness of the buffered layer\<close>

lemma Write_buffered_total:
  assumes contract: "file_contract e cont" and up: "serving e cont up" "up (buf_world s)"
    and sync: "buf_synced cont p s" and v: "buffered_content cont p s = Some v"
    and off: "0 \<le> off" "nat off \<le> length v" and room: "request_ok (g_Blocksize s) off (length buf)"
  shows "\<exists>s'. iFuseBufferedFsWrite e p buf off s = Some (int (length buf), s') \<and> up (buf_world s') \<and> buf_synced cont p s'
    \<and> buffered_content cont p s' = Some (overlay v (nat off) buf) \<and> g_Blocksize s' = g_Blocksize s"
proof -
  note room' = room [unfolded request_ok_def]
  from synced_fd [OF sync] obtain d where d: "fd_heap (fds (bfs s)) p = Some d" ..
  from write_blocks_live [OF contract_quiet(3) [OF contract] buf_syncedD(1,3) [OF sync] d off(1)] room' obtain st s' where
    w: "write_blocks e p buf off s = Some (st, s')" by blast
  from write_blocks_up [OF contract up sync v off(1) _ off(2) w] room' have u: "st = 0" "up (buf_world s')" by simp_all
  have run: "iFuseBufferedFsWrite e p buf off s = Some (int (length buf), s')" using w u(1) room' by (simp add: iFuseBufferedFsWrite_def)
  from Write_buffered_content [OF contract sync v off(1) _ off(2) _ run] room' run u(2) show ?thesis by simp
qed

lemma starts_inside:
  assumes contract: "file_contract e cont" and up: "serving e cont up" "up (buf_world s)" and sync: "buf_synced cont p s"
    and v: "buffered_content cont p s = Some v" and off: "off_ok (g_Blocksize s) off" and bb: "length bb = nat (g_Blocksize s)"
  shows "starts_behind e p off bb s \<longleftrightarrow>
    nat (off div g_Blocksize s * g_Blocksize s) < length v \<and> length v < nat off"
proof -
  let ?B = "g_Blocksize s" and ?b = "word_of_int (off div g_Blocksize s) :: 32 word"
  note ok = buf_syncedD(1) [OF sync]
  note B = tables_okD(1) [OF ok]
  from synced_fd [OF sync] obtain d where d: "fd_heap (fds (bfs s)) p = Some d" ..
  from readBlock_live [OF file_contract_replies [OF contract] ok buf_syncedD(3) [OF sync] d bb, of ?b] obtain st bb' s' where
    rb: "readBlock e p bb ?b s = Some ((st, bb'), s')" by blast
  from readBlock_up [OF contract up sync bb rb] have st: "0 \<le> st" ..
  from readBlock_content [OF contract sync v bb rb st] getBlockID_ok(2) [OF B off] have
    "length bb' = nat ?B" "nat st \<le> nat ?B" "take (nat st) bb' = take (nat ?B) (drop (nat (off div ?B * ?B)) v)" by simp_all
  then have sz: "nat st = min (nat ?B) (length v - nat (off div ?B * ?B))" by (metis length_take length_drop min.commute min_absorb2)
  have start: "0 \<le> off div ?B * ?B" using off_div(1) [OF B off] B by (simp add: block_size_ok_def)
  have i: "0 \<le> off mod ?B" "off mod ?B < ?B" using B by (simp_all add: block_size_ok_def)
  have off_eq: "off = off div ?B * ?B + off mod ?B" by simp
  have "starts_behind e p off bb s \<longleftrightarrow> 0 < st \<and> st < off mod ?B" using rb by (simp add: starts_behind_def)
  also have "\<dots> \<longleftrightarrow> nat (off div ?B * ?B) < length v \<and> length v < nat off"
    using sz st start i off_eq by linarith
  finally show ?thesis .
qed

lemma Read_buffered_total:
  assumes contract: "file_contract e cont" and up: "serving e cont up" "up (buf_world s)"
    and sync: "buf_synced cont p s" and v: "buffered_content cont p s = Some v"
    and off: "0 \<le> off" "nat off \<le> length v" and room: "request_ok (g_Blocksize s) off n"
  shows "\<exists>s'. iFuseBufferedFsRead e p off n s = Some ((int (length (take n (drop (nat off) v))), take n (drop (nat off) v)), s')
    \<and> up (buf_world s') \<and> buf_synced cont p s' \<and> buffered_content cont p s' = Some v \<and> g_Blocksize s' = g_Blocksize s"
proof -
  note room' = room [unfolded request_ok_def]
  note ok = buf_syncedD(1) [OF sync]
  from synced_fd [OF sync] obtain d where d: "fd_heap (fds (bfs s)) p = Some d" ..
  obtain ok1 s1 where 1: "onLibB (mem_ok e) s = (ok1, s1)" by (rule prod.exhaust)
  note u1 = mem_up [OF up(1) 1 up(2)] and m = mem_synced [OF contract sync v 1]
  have bb: "length (zeros (nat (g_Blocksize s))) = nat (g_Blocksize s1)" by (simp add: m(3))
  have "\<not> (0 < n \<and> starts_behind e p off (zeros (nat (g_Blocksize s))) s1)"
  proof
    assume a: "0 < n \<and> starts_behind e p off (zeros (nat (g_Blocksize s))) s1"
    then have "off_ok (g_Blocksize s1) off" using off(1) room' by (auto simp: m(3) off_ok_def)
    from starts_inside [OF contract up(1) u1(2) m(1,2) this bb] a off(2) show False by simp
  qed
  with Read_buffered_live [OF file_contract_replies [OF contract] ok buf_syncedD(3) [OF sync] d off(1), of n] room' 1
  obtain st res s' where run: "iFuseBufferedFsRead e p off n s = Some ((st, res), s')" by (auto split: option.splits)
  have loop: "read_blocks e p off n [] (zeros (nat (g_Blocksize s))) s1 = Some ((st, res), s')"
    using run 1 u1(1) block_size_nat(1) [OF tables_okD(1) [OF ok]] by (simp add: iFuseBufferedFsRead_def)
  from read_blocks_up [OF contract up(1) u1(2) m(1,2) bb off(1) _ _ loop] room' have u: "0 \<le> st" "up (buf_world s')"
    by (simp_all add: m(3))
  from Read_buffered_content [OF contract sync v off(1) _ _ run u(1)] room' run u(2) show ?thesis by auto
qed

text \<open>Reading from behind the end of a file whose last block is partly filled, in that block, aborts.\<close>

lemma Read_behind_end:
  assumes contract: "file_contract e cont" and up: "serving e cont up" "up (buf_world s)"
    and sync: "buf_synced cont p s" and v: "buffered_content cont p s = Some v"
    and off: "off_ok (g_Blocksize s) off" "nat (off div g_Blocksize s * g_Blocksize s) < length v" "length v < nat off" and n: "0 < n"
  shows "iFuseBufferedFsRead e p off n s = None"
proof -
  note ok = buf_syncedD(1) [OF sync]
  note B = tables_okD(1) [OF ok]
  obtain ok1 s1 where 1: "onLibB (mem_ok e) s = (ok1, s1)" by (rule prod.exhaust)
  note u1 = mem_up [OF up(1) 1 up(2)] and m = mem_synced [OF contract sync v 1]
  let ?bb = "zeros (nat (g_Blocksize s))"
  have bb: "length ?bb = nat (g_Blocksize s1)" by (simp add: m(3))
  have "starts_behind e p off ?bb s1"
    using starts_inside [OF contract up(1) u1(2) m(1,2) _ bb, of off] off by (simp add: m(3))
  then obtain st bb' s2 where rb: "readBlock e p ?bb (word_of_int (off div g_Blocksize s1)) s1 = Some ((st, bb'), s2)"
    "0 < st" "st < off mod g_Blocksize s1" by (auto simp: starts_behind_def)
  from readBlock_content [OF contract m(1,2) bb rb(1)] rb(2) have len: "length bb' = nat (g_Blocksize s1)" "nat st \<le> nat (g_Blocksize s1)"
    by simp_all
  have B1: "block_size_ok (g_Blocksize s1)" using B by (simp add: m(3))
  have i: "0 \<le> off mod g_Blocksize s1" "off mod g_Blocksize s1 < g_Blocksize s1" using B1 by (simp_all add: block_size_ok_def)
  have "min n (room_at (g_Blocksize s1) off) \<le> nat (g_Blocksize s1 - off mod g_Blocksize s1)" by (simp add: room_at_def)
  from block_chunk_ok [OF B1 i this len] rb(2,3)
  have "block_chunk (g_Blocksize s1) (off mod g_Blocksize s1) (min n (room_at (g_Blocksize s1) off)) (nat st) bb' = None" by simp
  then have "read_round e p off n ?bb s1 = None" using rb(1,2) off(1) by (simp add: read_round_eq [OF B1] m(3))
  then have "read_blocks e p off n [] ?bb s1 = None" using n by (subst read_blocks.simps) simp
  then show ?thesis using 1 u1(1) block_size_nat(1) [OF B] by (simp add: iFuseBufferedFsRead_def)
qed

section \<open>The small server honours the contracts\<close>

definition demo_cont :: "demo files" where
  "demo_cont w h n = (case dm_fds w (Some h, n) of None \<Rightarrow> None | Some (path, pos) \<Rightarrow> Some (file_of path w, pos))"

definition demo_up :: "demo \<Rightarrow> bool" where
  "demo_up w \<longleftrightarrow> dm_script w = []"

lemma served_cases:
  "served err f w = (x, w') \<Longrightarrow> (\<exists>st<0. x = err st \<and> dm_fds w' = dm_fds w \<and> dm_files w' = dm_files w)
     \<or> (\<exists>w1. f w1 = (x, w') \<and> dm_fds w1 = dm_fds w \<and> dm_files w1 = dm_files w \<and> dm_next w1 = dm_next w)"
  by (auto simp: served_def Let_def split: list.splits if_splits)

lemma demo_cont_cong: "dm_fds w' = dm_fds w \<Longrightarrow> dm_files w' = dm_files w \<Longrightarrow> demo_cont w' = demo_cont w"
  by (intro ext) (simp add: demo_cont_def file_of_def split: option.split)

lemma take_min_drop: "take (min (length x - b) n) (drop b x) = take n (drop b x)"
  by (simp add: min_def)

lemma demo_lseek: "lseek_contract demo_ext demo_cont"
  unfolding lseek_contract_def
proof (intro allI impI)
  fix conn n off w st out w' assume run: "rcDataObjLseek demo_ext conn n off w = ((st, out), w')" and st: "0 \<le> st"
  then obtain w1 where w1: "srv_lseek conn n off w1 = ((st, out), w')" "dm_fds w1 = dm_fds w" "dm_files w1 = dm_files w"
    by (auto simp: demo_ext_def dest!: served_cases)
  then show "\<exists>h data old pos. conn = Some h \<and> out = Some pos \<and> demo_cont w h n = Some (data, old) \<and> demo_cont w' h n = Some (data, nat pos)"
    using st by (cases conn) (auto simp: srv_lseek_def srv_fd_def demo_cont_def file_of_def split: option.splits)
qed

lemma demo_read: "read_contract demo_ext demo_cont"
  unfolding read_contract_def
proof (intro allI impI)
  fix conn n len w st buf w' assume run: "rcDataObjRead demo_ext conn n len w = ((st, buf), w')" and st: "0 \<le> st"
  then obtain w1 where w1: "srv_read conn n len w1 = ((st, buf), w')" "dm_fds w1 = dm_fds w" "dm_files w1 = dm_files w"
    by (auto simp: demo_ext_def dest!: served_cases)
  then show "\<exists>h data pos. conn = Some h \<and> demo_cont w h n = Some (data, pos) \<and> st = int (length (take len (drop pos data)))
      \<and> take (nat st) buf = take len (drop pos data) \<and> demo_cont w' h n = Some (data, pos + nat st)"
    using st by (cases conn) (auto simp: srv_read_def srv_fd_def demo_cont_def file_of_def Let_def take_min_drop split: option.splits)
qed

lemma demo_write: "write_contract demo_ext demo_cont"
  unfolding write_contract_def
proof (intro allI impI)
  fix conn n buf w st w' assume run: "rcDataObjWrite demo_ext conn n buf w = (st, w')" and st: "0 \<le> st"
  then obtain w1 where w1: "srv_write conn n buf w1 = (st, w')" "dm_fds w1 = dm_fds w" "dm_files w1 = dm_files w"
    by (auto simp: demo_ext_def dest!: served_cases)
  then show "\<exists>h data pos. conn = Some h \<and> demo_cont w h n = Some (data, pos) \<and> st = int (length buf)
      \<and> demo_cont w' h n = Some (overlay data pos buf, pos + length buf)"
    using st by (cases conn) (auto simp: srv_write_def srv_fd_def demo_cont_def file_of_def split: option.splits)
qed

lemma demo_connect: "connect_contract demo_ext demo_cont"
proof -
  have "demo_cont w' h n = None" if "rcConnect demo_ext env w = ((Some h, st), w')" for env w h st w' n
    using that by (auto simp: demo_ext_def srv_connect_def demo_cont_def dest!: served_cases)
  moreover have "demo_cont (snd (clientLogin demo_ext (Some h) w)) = demo_cont w"
    "demo_cont (snd (rcTicketAdmin demo_ext (Some h) t w)) = demo_cont w" for h t w
    by (rule demo_cont_cong; simp add: demo_ext_def served_def Let_def split: list.split)+
  ultimately show ?thesis by (auto simp: connect_contract_def)
qed

lemma demo_contract [simp, intro]: "file_contract demo_ext demo_cont"
  using demo_lseek demo_read demo_write demo_connect
  by (simp add: file_contract_def quiet_calls_def) (simp add: demo_ext_def)

lemma demo_serving [simp, intro]: "serving demo_ext demo_cont demo_up"
proof -
  have fd: "\<exists>path pos. dm_fds w (Some h, n) = Some (path, pos)" if "demo_cont w h n = Some f" for w h n f
    using that by (auto simp: demo_cont_def split: option.splits)
  have "quiet_up demo_ext demo_up" by (simp add: quiet_up_def demo_up_def) (simp add: demo_ext_def)
  moreover have "lseek_up demo_ext demo_cont demo_up"
    unfolding lseek_up_def by (intro allI impI, drule fd)
      (auto simp: demo_up_def demo_ext_def served_def srv_lseek_def srv_fd_def)
  moreover have "read_up demo_ext demo_cont demo_up"
    unfolding read_up_def by (intro allI impI, drule fd)
      (auto simp: demo_up_def demo_ext_def served_def srv_read_def srv_fd_def Let_def)
  moreover have "write_up demo_ext demo_cont demo_up"
    unfolding write_up_def by (intro allI impI, drule fd)
      (auto simp: demo_up_def demo_ext_def served_def srv_write_def srv_fd_def Let_def)
  ultimately show ?thesis by (simp add: serving_def)
qed

text \<open>A file opened on it, through the buffered layer with blocks of 8 bytes.\<close>

definition demo_buf :: "demo buf_state" where
  "demo_buf = iFuseBufferedFSInit (buf_start (demo_fs True 1 []))"

lemma demo_buf_simps [simp]:
  "bfs demo_buf = demo_fs True 1 []" "g_DeltaMap demo_buf = []" "g_CacheMap demo_buf = []" "g_Blocksize demo_buf = 8"
  by (simp_all add: demo_buf_def iFuseBufferedFSInit_def buf_start_def Let_def iFuseLibGetOption_def get_lib_def
      demo_fs_def iFuseFsInit_def iFuseLibInit_def fs_start_def fd_start_def conn_start_def iFuseConnInit_def
      iFuseFdInit_def put_lib_def rc_start_def iFuseRodsClientInit_def demo_lib_def demo_opt_def iFuseLibSetTimerTickHandler_def
      iFuseMetadataCacheInit_def mc_start_def)

lemma demo_open:
  "map_option (\<lambda>((st, p), t). (st, p \<noteq> None, content demo_cont (the p) t, dm_script (fs_world t),
       map_option fd_lastFilePointer (fd_heap (fds t) (the p)), map_option fd_openFlag (fd_heap (fds t) (the p)),
       g_iFuseOpt (get_lib t) = demo_opt True 1, g_iFuseEnv (get_lib t) = demo_env))
     (iFuseFsOpen demo_ext ''/z/d/a'' O_RDWR (demo_fs True 1 []))
   = Some (0, True, Some ''hello'', [], Some (- 1), Some O_RDWR, True, True)"
  by code_simp

lemma demo_opened:
  "\<exists>p s1 d. iFuseBufferedFsOpen demo_ext ''/z/d/a'' O_RDWR demo_buf = Some ((0, Some p), s1)
     \<and> buf_synced demo_cont p s1 \<and> g_Blocksize s1 = 8 \<and> buffered_content demo_cont p s1 = Some ''hello''
     \<and> demo_up (buf_world s1) \<and> fd_heap (fds (bfs s1)) p = Some d \<and> fd_openFlag d = O_RDWR
     \<and> g_iFuseOpt (get_lib (bfs s1)) = demo_opt True 1 \<and> g_iFuseEnv (get_lib (bfs s1)) = demo_env"
proof -
  from demo_open obtain p t d where run: "iFuseFsOpen demo_ext ''/z/d/a'' O_RDWR (demo_fs True 1 []) = Some ((0, Some p), t)"
    and c: "content demo_cont p t = Some ''hello''" "dm_script (fs_world t) = []"
    and d: "fd_heap (fds t) p = Some d" "fd_lastFilePointer d = - 1" "fd_openFlag d = O_RDWR"
    and l: "g_iFuseOpt (get_lib t) = demo_opt True 1" "g_iFuseEnv (get_lib t) = demo_env" by auto
  from Open_ok [OF fs_inv_demo demo_calloc demo_errors demo_room run] have inv: "fs_inv t" by (auto simp: open_holds_def)
  let ?s1 = "demo_buf\<lparr>bfs := t\<rparr>"
  have open1: "iFuseBufferedFsOpen demo_ext ''/z/d/a'' O_RDWR demo_buf = Some ((0, Some p), ?s1)"
    using run by (simp add: iFuseBufferedFsOpen_def onFs_def)
  have "fd_synced demo_cont p t" using inv d by (auto simp: fd_synced_def pos_ok_def)
  moreover have "views demo_cont p d ''hello'' ?s1" using d c by (simp add: views_def)
  moreover have "tables_ok ?s1" by (simp add: tables_ok_def block_size_ok_def)
  ultimately have "buf_synced demo_cont p ?s1" by (auto simp: buf_synced_def)
  moreover have "buffered_content demo_cont p ?s1 = Some ''hello''" using d c by (simp add: buffered_content_def pending_def)
  ultimately show ?thesis using open1 c d l by (auto simp: demo_up_def)
qed

end
