(* ===== verification/Buffered_Correct.thy ===== *)
theory Buffered_Correct
  imports IFuse_Serving
begin

text \<open>
  The properties of reading and writing: of an open file at the server, and through the
  buffered layer.
\<close>

section \<open>Through the descriptor\<close>

text \<open>
  C16: reading and writing an open file at an offset, when the call reports success, returns
  exactly the bytes of the file at that offset, as many as there are, and puts exactly the
  given bytes there, whatever position the descriptor was left at, and although a failing call
  may have been repeated over a new connection. The descriptor stays in step with the server.
\<close>

theorem fs_io_content:
  assumes "file_contract e cont" and "fd_synced cont p s" and "content cont p s = Some c" and "0 \<le> off"
  shows "(\<forall>st dat s'. iFuseFsRead e p off sz s = Some ((st, dat), s') \<longrightarrow> 0 \<le> st \<longrightarrow>
      dat = take sz (drop (nat off) c) \<and> st = int (length dat) \<and> content cont p s' = Some c \<and> fd_synced cont p s')
    \<and> (\<forall>st s'. iFuseFsWrite e p buf off s = Some (st, s') \<longrightarrow> 0 \<le> st \<longrightarrow>
      st = int (length buf) \<and> content cont p s' = Some (overlay c (nat off) buf) \<and> fd_synced cont p s')"
  using Read_content [OF assms(1,2,4)] Write_content [OF assms(1,2,4)] assms(3) by fastforce

theorem fs_io_content_witness:
  "\<exists>p s st dat s'. iFuseFsRead demo_ext p 1 3 s = Some ((st, dat), s') \<and> dat = ''ell'' \<and> content demo_cont p s' = Some ''hello''"
proof -
  from demo_opened obtain p s1 where s1: "buf_synced demo_cont p s1" "buffered_content demo_cont p s1 = Some ''hello''"
    "demo_up (buf_world s1)" "iFuseBufferedFsOpen demo_ext ''/z/d/a'' O_RDWR demo_buf = Some ((0, Some p), s1)" by blast
  from s1(4) have "g_DeltaMap s1 = []" by (auto simp: iFuseBufferedFsOpen_def onFs_def)
  with s1(2) have c: "content demo_cont p (bfs s1) = Some ''hello''" by (auto simp: buffered_content_def pending_def)
  note sync = buf_syncedD(2) [OF s1(1)]
  from Read_up [OF demo_contract demo_serving s1(3) sync c, of 1 3] obtain dat s' where
    r: "iFuseFsRead demo_ext p 1 3 (bfs s1) = Some ((int (length dat), dat), s')" by auto
  from fs_io_content [OF demo_contract sync c, of 1 3] r show ?thesis by fastforce
qed

section \<open>Through the buffered layer\<close>

text \<open>
  C4: the buffered layer refines the file. What a reader sees is the server's file with the
  pending data laid over it; on a server that is up, a write at or before the end of that file
  succeeds and changes it at the offset, across blocks, and a read of any part of it then
  returns exactly those bytes, whether they come from the server, the cached block or the
  pending data.
\<close>

theorem buffered_refines_file:
  assumes "file_contract e cont" and "serving e cont up" and "up (buf_world s)" and "buf_synced cont p s"
    and "buffered_content cont p s = Some v" and "0 \<le> off" and "nat off \<le> length v"
    and "request_ok (g_Blocksize s) off (length buf)" and "request_ok (g_Blocksize s) off2 n"
    and "0 \<le> off2" and "nat off2 \<le> length (overlay v (nat off) buf)"
  shows "\<exists>s1 s2. iFuseBufferedFsWrite e p buf off s = Some (int (length buf), s1)
    \<and> buffered_content cont p s1 = Some (overlay v (nat off) buf)
    \<and> map_option fst (iFuseBufferedFsRead e p off2 n s1)
      = Some (let dat = take n (drop (nat off2) (overlay v (nat off) buf)) in (int (length dat), dat))
    \<and> map_option snd (iFuseBufferedFsRead e p off2 n s1) = Some s2
    \<and> buf_synced cont p s2 \<and> buffered_content cont p s2 = Some (overlay v (nat off) buf) \<and> up (buf_world s2)"
proof -
  from Write_buffered_total [OF assms(1-8)] obtain s1 where
    w: "iFuseBufferedFsWrite e p buf off s = Some (int (length buf), s1)" "up (buf_world s1)" "buf_synced cont p s1"
      "buffered_content cont p s1 = Some (overlay v (nat off) buf)" "g_Blocksize s1 = g_Blocksize s" by blast
  from Read_buffered_total [OF assms(1,2) w(2,3,4) assms(10,11)] assms(9) w obtain s2 where
    "iFuseBufferedFsRead e p off2 n s1 = Some ((int (length (take n (drop (nat off2) (overlay v (nat off) buf)))),
        take n (drop (nat off2) (overlay v (nat off) buf))), s2)"
    "up (buf_world s2)" "buf_synced cont p s2" "buffered_content cont p s2 = Some (overlay v (nat off) buf)" by auto
  with w show ?thesis by (intro exI [of _ s1] exI [of _ s2]) (simp add: Let_def)
qed

theorem buffered_refines_file_witness:
  "\<exists>p s s1. iFuseBufferedFsWrite demo_ext p '', world'' 5 s = Some (7, s1)
     \<and> map_option fst (iFuseBufferedFsRead demo_ext p 3 20 s1) = Some (9, ''lo, world'')"
proof -
  from demo_opened obtain p s where s: "buf_synced demo_cont p s" "buffered_content demo_cont p s = Some ''hello''"
    "demo_up (buf_world s)" "g_Blocksize s = 8" by blast
  from buffered_refines_file [OF demo_contract demo_serving s(3,1,2), of 5 "'', world''" 3 20] s(4)
  show ?thesis by (auto simp: request_ok_def overlay_def Let_def)
qed

text \<open>
  C17: when server, network and memory fail as they like, a write and a read that both report
  success still agree: the read returns what was written, and elsewhere what was there before.
\<close>

theorem buffered_read_your_write:
  assumes "file_contract e cont" and "buf_synced cont p s" and "buffered_content cont p s = Some c"
    and "0 \<le> off" and "nat off \<le> length c" and "request_ok (g_Blocksize s) off (length buf)"
    and "iFuseBufferedFsWrite e p buf off s = Some (st, s1)" and "0 \<le> st"
    and "0 \<le> off2" and "request_ok (g_Blocksize s) off2 n"
    and "iFuseBufferedFsRead e p off2 n s1 = Some ((st2, out), s2)" and "0 \<le> st2"
  shows "(off2 = off \<and> n = length buf \<longrightarrow> out = buf)
    \<and> (nat off2 + n \<le> nat off \<or> nat off + length buf \<le> nat off2 \<longrightarrow> out = take n (drop (nat off2) c))"
proof -
  have ok: "buf_ok e cont (g_Blocksize s) p s" using assms(1,2) by (simp add: buf_ok_def)
  from buffered.read_your_write [OF ok assms(3-8), of st2 out s2]
    buffered.read_other [OF ok assms(3-8) assms(11,12,9,10)] assms(11,12)
  show ?thesis by auto
qed

theorem buffered_read_your_write_witness:
  "\<exists>p s s1. iFuseBufferedFsWrite demo_ext p ''HE'' 0 s = Some (2, s1)
     \<and> (\<exists>st out s2. iFuseBufferedFsRead demo_ext p 2 10 s1 = Some ((st, out), s2) \<and> out = ''llo'')"
proof -
  from demo_opened obtain p s where s: "buf_synced demo_cont p s" "buffered_content demo_cont p s = Some ''hello''"
    "demo_up (buf_world s)" "g_Blocksize s = 8" by blast
  from Write_buffered_total [OF demo_contract demo_serving s(3,1,2), of 0 "''HE''"] s(4) obtain s1 where
    w: "iFuseBufferedFsWrite demo_ext p ''HE'' 0 s = Some (2, s1)" "demo_up (buf_world s1)" "buf_synced demo_cont p s1"
      "buffered_content demo_cont p s1 = Some (overlay ''hello'' 0 ''HE'')" "g_Blocksize s1 = 8" by (auto simp: request_ok_def)
  from Read_buffered_total [OF demo_contract demo_serving w(2-4), of 2 10] w(5) obtain st out s2 where
    r: "iFuseBufferedFsRead demo_ext p 2 10 s1 = Some ((st, out), s2)" "0 \<le> st" by (auto simp: request_ok_def overlay_def)
  from buffered_read_your_write [OF demo_contract s(1,2) _ _ _ w(1) _ _ _ r] s(4)
  have "out = ''llo''" by (auto simp: request_ok_def)
  with w(1) r(1) show ?thesis by blast
qed

text \<open>
  C6: flushing the pending data of a file open for writing always returns; afterwards the
  table holds none for its path. When it reports success the server's file is what the readers
  saw before, and they still see it. When it does not, the data is gone.
\<close>

theorem flush_delta_effect:
  assumes "file_contract e cont" and "buf_synced cont p s" and "buffered_content cont p s = Some v"
    and "fd_heap (fds (bfs s)) p = Some d" and "accmode (fd_openFlag d) \<noteq> O_RDONLY"
  shows "\<exists>st s'. flushDelta e p s = Some (st, s') \<and> (st = 0 \<or> st = - ENOENT)
    \<and> map_find (g_DeltaMap s') (fd_iRodsPath d) = None
    \<and> (\<forall>path. path \<noteq> fd_iRodsPath d \<longrightarrow> map_find (g_DeltaMap s') path = map_find (g_DeltaMap s) path)
    \<and> (st = 0 \<longrightarrow> buf_synced cont p s' \<and> content cont p (bfs s') = Some v \<and> buffered_content cont p s' = Some v)"
proof -
  from flushDelta_live [OF buf_syncedD(1,3) [OF assms(2)] assms(4), of e] assms(5) obtain st s' where
    f: "flushDelta e p s = Some (st, s')" "buf_io p s s'" "st = 0 \<or> st = - ENOENT"
      "map_find (g_DeltaMap s') (fd_iRodsPath d) = None" by auto
  with flushDelta_content [OF assms, of s'] buf_ioD(4) [OF f(2) assms(4)] show ?thesis by auto
qed

theorem flush_delta_effect_witness:
  "\<exists>p s st s'. buffered_content demo_cont p s = Some ''hello, world'' \<and> flushDelta demo_ext p s = Some (st, s')
     \<and> (st = 0 \<longrightarrow> content demo_cont p (bfs s') = Some ''hello, world'')"
proof -
  from demo_opened obtain p s d where s: "buf_synced demo_cont p s" "buffered_content demo_cont p s = Some ''hello''"
    "demo_up (buf_world s)" "g_Blocksize s = 8" "fd_heap (fds (bfs s)) p = Some d" "fd_openFlag d = O_RDWR" by blast
  from Write_buffered_total [OF demo_contract demo_serving s(3,1,2), of 5 "'', world''"] s(4) obtain s1 where
    w: "iFuseBufferedFsWrite demo_ext p '', world'' 5 s = Some (7, s1)" "buf_synced demo_cont p s1"
      "buffered_content demo_cont p s1 = Some (overlay ''hello'' 5 '', world'')" by (auto simp: request_ok_def)
  have v: "buffered_content demo_cont p s1 = Some ''hello, world''" using w(3) by (simp add: overlay_def)
  from Write_buffered_live [OF _ buf_syncedD(1,3) [OF s(1)] s(5), of demo_ext 5 "'', world''"] w(1) s(4)
    contract_quiet(3) [OF demo_contract] have "buf_io p s s1" by auto
  from buf_ioD(6) [OF this s(5)] obtain d1 where d1: "fd_heap (fds (bfs s1)) p = Some d1" "fd_openFlag d1 = O_RDWR"
    using s(6) by (auto simp: fd_same_def)
  have "accmode (fd_openFlag d1) \<noteq> O_RDONLY" by (simp add: d1(2) accmode_def O_RDWR_def O_RDONLY_def)
  from flush_delta_effect [OF demo_contract w(2) v d1(1) this] v show ?thesis by blast
qed

text \<open>
  C5: writing through the layer always returns and reading aborts in one case only, when it
  starts in a block that holds data but behind that data; neither overruns a buffer, whatever
  the server answers, as long as the request stays below \<open>2 ^ 32\<close> blocks and the server keeps to
  its replies. Both keep the tables well formed, leave the other files' pending data alone and
  touch no other descriptor.
\<close>

theorem buffered_io_safe:
  assumes "replies_ok e" and "tables_ok s" and "fs_inv (bfs s)" and "fd_heap (fds (bfs s)) p = Some d" and "0 \<le> off"
    and "off + int sz \<le> 2 ^ 32 * g_Blocksize s" and "off + int (length buf) \<le> 2 ^ 32 * g_Blocksize s"
  shows "(\<exists>st s'. iFuseBufferedFsWrite e p buf off s = Some (st, s') \<and> buf_io p s s' \<and> (st < 0 \<or> st = c_int (length buf)))
    \<and> (case iFuseBufferedFsRead e p off sz s of
         Some (r, s') \<Rightarrow> buf_io p s s'
       | None \<Rightarrow> 0 < sz \<and> starts_behind e p off (zeros (nat (g_Blocksize s))) (snd (onLibB (mem_ok e) s)))"
  using Write_buffered_live [OF replies_malloc [OF assms(1)] assms(2-5,7)] Read_buffered_live [OF assms(1-6)]
  by (auto split: option.splits)

theorem buffered_io_safe_witness:
  "\<exists>p s st s'. iFuseBufferedFsWrite demo_ext p ''abc'' 100 s = Some (st, s') \<and> buf_io p s s'"
proof -
  from demo_opened obtain p s d where s: "buf_synced demo_cont p s" "g_Blocksize s = 8" "fd_heap (fds (bfs s)) p = Some d" by blast
  from buffered_io_safe [OF file_contract_replies [OF demo_contract] buf_syncedD(1,3) [OF s(1)] s(3), of 100 0 "''abc''"] s(2)
  show ?thesis by auto
qed

text \<open>
  C18: reading from behind the end of a file in its last, partly filled block does not return:
  the size left in the block is computed without sign and the copy runs out of the buffer.
\<close>

theorem read_behind_end_aborts:
  assumes "file_contract e cont" and "serving e cont up" and "up (buf_world s)" and "buf_synced cont p s"
    and "buffered_content cont p s = Some v" and "off_ok (g_Blocksize s) off" and "0 < n"
    and "length v < nat off" and "nat (off div g_Blocksize s * g_Blocksize s) < length v"
  shows "iFuseBufferedFsRead e p off n s = None"
  by (rule Read_behind_end [OF assms(1-6,9,8,7)])

theorem read_behind_end_aborts_witness:
  "\<exists>p s. buffered_content demo_cont p s = Some ''hello'' \<and> iFuseBufferedFsRead demo_ext p 6 1 s = None"
proof -
  from demo_opened obtain p s where s: "buf_synced demo_cont p s" "buffered_content demo_cont p s = Some ''hello''"
    "demo_up (buf_world s)" "g_Blocksize s = 8" by blast
  from read_behind_end_aborts [OF demo_contract demo_serving s(3,1,2), of 6 1] s show ?thesis by (auto simp: off_ok_def)
qed

text \<open>
  C19: block numbers, block starts and the position in a block are the quotient, the multiple and
  the remainder, below \<open>2 ^ 32\<close> blocks; from there on block numbers start again at 0, so that
  the position in the block leaves the block.
\<close>

theorem block_numbers:
  assumes "block_size_ok B" and "0 \<le> off"
  shows "(off < 2 ^ 32 * B \<longrightarrow>
       (\<exists>b. getBlockID B off = Some b \<and> uint b = off div B \<and> getBlockStartOffset B b = Some (off div B * B))
       \<and> getInBlockOffset B off = Some (off mod B))
    \<and> getBlockID B (off + 2 ^ 32 * B) = getBlockID B off
    \<and> (off < 2 ^ 32 * B \<longrightarrow> getInBlockOffset B (off + 2 ^ 32 * B) = Some (off mod B + 2 ^ 32 * B))"
proof -
  have B: "0 < B" using assms(1) by (simp add: block_size_ok_def)
  have "(off + 2 ^ 32 * B) div B = off div B + 2 ^ 32" using B by simp
  then have wrap: "getBlockID B (off + 2 ^ 32 * B) = getBlockID B off"
    using B assms(2) by (simp add: getBlockID_def c_div_nonneg word_of_int_eq_iff take_bit_eq_mod)
  show ?thesis
  proof (intro conjI impI)
    assume "off < 2 ^ 32 * B"
    then have off: "off_ok B off" using assms(2) by (simp add: off_ok_def)
    note id = getBlockID_ok [OF assms(1) off]
    show "\<exists>b. getBlockID B off = Some b \<and> uint b = off div B \<and> getBlockStartOffset B b = Some (off div B * B)"
      using id getBlockStartOffset_ok(1) [OF assms(1)] by auto
    show "getInBlockOffset B off = Some (off mod B)" by (rule getInBlockOffset_ok [OF assms(1) off])
    have "off + 2 ^ 32 * B - off div B * B = off mod B + 2 ^ 32 * B" by (simp add: minus_mod_eq_div_mult [symmetric])
    moreover have "0 \<le> off mod B + 2 ^ 32 * B" using B by (intro add_nonneg_nonneg) simp_all
    ultimately show "getInBlockOffset B (off + 2 ^ 32 * B) = Some (off mod B + 2 ^ 32 * B)"
      using id getBlockStartOffset_ok(1) [OF assms(1)] unfolding getInBlockOffset_def wrap by simp
  qed (rule wrap)
qed

theorem block_numbers_witness:
  "getBlockID IFUSE_BUFFER_CACHE_BLOCK_SIZE (2 ^ 32 * IFUSE_BUFFER_CACHE_BLOCK_SIZE + 5) = getBlockID IFUSE_BUFFER_CACHE_BLOCK_SIZE 5"
  using block_numbers [of IFUSE_BUFFER_CACHE_BLOCK_SIZE 5]
  by (simp add: block_size_ok_def IFUSE_BUFFER_CACHE_BLOCK_SIZE_def add.commute)

end
