(* ===== verification/IFuse_Preload.thy ===== *)
theory IFuse_Preload
  imports IFuse_BufferedFS
begin

text \<open>
  \<open>iFuse.Preload.cpp\<close>: reading blocks ahead. A file opened for reading has a preload with a
  list of blocks; each block has a thread that opens the file by itself and reads its block,
  and with it the descriptor that caches the block. The thread runs as one step, at the latest
  when somebody joins it; \<open>pb_thread\<close> says whether it is still to run. The locks are never
  waited for by a thread and are not modelled. Preloads and blocks are known by their
  addresses, which \<open>preload_next\<close> numbers; freeing one takes it from the heap.
\<close>

datatype pblockStatus = PBLOCK_INIT | PBLOCK_RUNNING | PBLOCK_COMPLETED | PBLOCK_TASK_FAILED
  | PBLOCK_CREATION_FAILED

text \<open>No thread (or one already joined); a thread of the preload at that address; one that ended.\<close>

datatype preloadThread = No_thread | To_run nat | Ended

record iFusePreloadPBlock =
  pb_fd :: "nat option"
  pb_blockID :: "32 word"
  pb_status :: pblockStatus
  pb_threadJoined :: bool
  pb_thread :: preloadThread

record iFusePreload =
  pl_fdId :: "64 word"
  pl_iRodsPath :: "string option"
  pl_pblocks :: "nat list"

record 'w preload_state =
  bufs :: "'w buf_state"
  pblock_heap :: "nat \<rightharpoonup> iFusePreloadPBlock"
  preload_heap :: "nat \<rightharpoonup> iFusePreload"
  preload_next :: nat
  g_PreloadMap :: "(64 word, nat) stdmap"
  g_preloadNumBlocks :: int

definition IFUSE_PRELOAD_PBLOCK_NUM :: int where "IFUSE_PRELOAD_PBLOCK_NUM = 3"
definition IFUSE_PRELOAD_MAX_PBLOCK_NUM :: int where "IFUSE_PRELOAD_MAX_PBLOCK_NUM = 10"

definition preload_start :: "'w buf_state \<Rightarrow> 'w preload_state" where
  "preload_start b = \<lparr>bufs = b, pblock_heap = Map.empty, preload_heap = Map.empty,
     preload_next = 0, g_PreloadMap = [],
     g_preloadNumBlocks = IFUSE_PRELOAD_PBLOCK_NUM\<rparr>"

definition onBuf :: "('w buf_state \<Rightarrow> ('r \<times> 'w buf_state) option) \<Rightarrow> 'w preload_state \<Rightarrow> ('r \<times> 'w preload_state) option" where
  "onBuf f s = do { (x, b) \<leftarrow> f (bufs s); Some (x, s\<lparr>bufs := b\<rparr>) }"

definition onLibP :: "('w lib_state \<Rightarrow> 'r \<times> 'w lib_state) \<Rightarrow> 'w preload_state \<Rightarrow> 'r \<times> 'w preload_state" where
  "onLibP f s = (let (x, b) = onLibB f (bufs s) in (x, s\<lparr>bufs := b\<rparr>))"

definition set_pblock :: "nat \<Rightarrow> iFusePreloadPBlock \<Rightarrow> 'w preload_state \<Rightarrow> 'w preload_state" where
  "set_pblock q pb s = s\<lparr>pblock_heap := (pblock_heap s)(q \<mapsto> pb)\<rparr>"

definition set_preload :: "nat \<Rightarrow> iFusePreload \<Rightarrow> 'w preload_state \<Rightarrow> 'w preload_state" where
  "set_preload pp pl s = s\<lparr>preload_heap := (preload_heap s)(pp \<mapsto> pl)\<rparr>"

definition new_addr :: "'w ext \<Rightarrow> 'w preload_state \<Rightarrow> nat option \<times> 'w preload_state" where
  "new_addr e s =
     (let (ok, s1) = onLibP (mem_ok e) s
      in if ok then (Some (preload_next s1), s1\<lparr>preload_next := Suc (preload_next s1)\<rparr>) else (None, s1))"

section \<open>Blocks and their threads\<close>

definition newPreloadPBlock :: "'w ext \<Rightarrow> 'w preload_state \<Rightarrow> (int \<times> nat option) \<times> 'w preload_state" where
  "newPreloadPBlock e s =
     (let (q, s1) = new_addr e s
      in case q of
           None \<Rightarrow> ((SYS_MALLOC_ERR e, None), s1)
         | Some q \<Rightarrow> ((0, Some q), set_pblock q \<lparr>pb_fd = None, pb_blockID = 0, pb_status = PBLOCK_INIT,
                                    pb_threadJoined = False, pb_thread = No_thread\<rparr> s1))"

text \<open>\<open>new\<close> throws when there is no memory; nothing catches that.\<close>

definition newPreload :: "'w ext \<Rightarrow> 'w preload_state \<Rightarrow> ((int \<times> nat option) \<times> 'w preload_state) option" where
  "newPreload e s =
     (let (pp, s1) = new_addr e s
      in case pp of
           None \<Rightarrow> Some ((SYS_MALLOC_ERR e, None), s1)
         | Some pp \<Rightarrow>
             let (ok, s2) = onLibP (mem_ok e) s1
             in if ok then Some ((0, Some pp), set_preload pp \<lparr>pl_fdId = 0, pl_iRodsPath = None, pl_pblocks = []\<rparr> s2)
                else None)"

definition end_task :: "nat \<Rightarrow> pblockStatus \<Rightarrow> 'w preload_state \<Rightarrow> 'w preload_state option" where
  "end_task q st s =
     do { pb \<leftarrow> pblock_heap s q; Some (set_pblock q (pb\<lparr>pb_status := st, pb_thread := Ended\<rparr>) s) }"

text \<open>The part of \<open>_preloadTask\<close> that opens the file, when the block has no descriptor yet.\<close>

definition open_task :: "'w ext \<Rightarrow> nat \<Rightarrow> nat \<Rightarrow> 'w preload_state \<Rightarrow> (int \<times> 'w preload_state) option" where
  "open_task e pp q s =
     do { pb \<leftarrow> pblock_heap s q;
          (case pb_fd pb of
             Some _ \<Rightarrow> Some (0, s)
           | None \<Rightarrow>
               do { pl \<leftarrow> preload_heap s pp;
                    path \<leftarrow> pl_iRodsPath pl;
                    ((status, fd), s1) \<leftarrow> onBuf (iFuseBufferedFsOpen e path O_RDONLY) s;
                    if status < 0 then Some (status, s1)
                    else do { p \<leftarrow> fd; Some (status, set_pblock q (pb\<lparr>pb_fd := Some p\<rparr>) s1) } }) }"

definition preloadTask :: "'w ext \<Rightarrow> nat \<Rightarrow> nat \<Rightarrow> 'w preload_state \<Rightarrow> 'w preload_state option" where
  "preloadTask e pp q s =
     (let (ok, s1) = onLibP (mem_ok e) s
      in if \<not> ok then end_task q PBLOCK_TASK_FAILED s1
         else do {
           (status, s2) \<leftarrow> open_task e pp q s1;
           if status < 0 then end_task q PBLOCK_TASK_FAILED s2
           else do {
             pb \<leftarrow> pblock_heap s2 q;
             p \<leftarrow> pb_fd pb;
             ((status, _), s3) \<leftarrow> onBuf (iFuseBufferedFsReadBlock e p (zeros (getBufferCacheBlockSize (bufs s2))) (pb_blockID pb)) s2;
             end_task q (if status < 0 then PBLOCK_TASK_FAILED else PBLOCK_COMPLETED) s3 } })"

text \<open>Joining a thread waits for its end; there must be one that nobody joined before.\<close>

definition pthread_join :: "'w ext \<Rightarrow> nat \<Rightarrow> 'w preload_state \<Rightarrow> 'w preload_state option" where
  "pthread_join e q s =
     do { pb \<leftarrow> pblock_heap s q;
          s1 \<leftarrow> (case pb_thread pb of No_thread \<Rightarrow> None | To_run pp \<Rightarrow> preloadTask e pp q s | Ended \<Rightarrow> Some s);
          pb1 \<leftarrow> pblock_heap s1 q;
          Some (set_pblock q (pb1\<lparr>pb_thread := No_thread\<rparr>) s1) }"

text \<open>The code's three places that wait for a block's thread do the same.\<close>

definition join_block :: "'w ext \<Rightarrow> nat \<Rightarrow> 'w preload_state \<Rightarrow> 'w preload_state option" where
  "join_block e q s =
     do { pb \<leftarrow> pblock_heap s q;
          if pb_status pb \<in> {PBLOCK_RUNNING, PBLOCK_INIT, PBLOCK_COMPLETED, PBLOCK_TASK_FAILED} \<and> \<not> pb_threadJoined pb
          then do { s1 \<leftarrow> pthread_join e q s;
                    pb1 \<leftarrow> pblock_heap s1 q;
                    Some (set_pblock q (pb1\<lparr>pb_threadJoined := True\<rparr>) s1) }
          else Some s }"

definition freePreloadPBlock :: "'w ext \<Rightarrow> nat \<Rightarrow> 'w preload_state \<Rightarrow> 'w preload_state option" where
  "freePreloadPBlock e q s =
     do { s1 \<leftarrow> join_block e q s;
          pb \<leftarrow> pblock_heap s1 q;
          s2 \<leftarrow> (case pb_fd pb of
                   None \<Rightarrow> Some s1
                 | Some p \<Rightarrow> map_option snd (onBuf (iFuseBufferedFsClose e p) s1));
          Some (s2\<lparr>pblock_heap := (pblock_heap s2)(q := None)\<rparr>) }"

text \<open>
  \<open>_startPreload\<close>. When there is no memory for the thread's parameter the block is left
  behind, with the descriptor it was given.
\<close>

definition startPreload ::
    "'w ext \<Rightarrow> nat \<Rightarrow> 32 word \<Rightarrow> nat option \<Rightarrow> 'w preload_state \<Rightarrow> (int \<times> 'w preload_state) option" where
  "startPreload e pp blockID fd s =
     do { pl \<leftarrow> preload_heap s pp;
          _ \<leftarrow> pl_iRodsPath pl;
          let ((status, blk), s1) = newPreloadPBlock e s;
          if status < 0 then Some (status, s1)
          else do {
            q \<leftarrow> blk;
            pb \<leftarrow> pblock_heap s1 q;
            let pb1 = pb\<lparr>pb_fd := fd, pb_blockID := blockID, pb_status := PBLOCK_RUNNING\<rparr>;
            let (ok, s2) = onLibP (mem_ok e) (set_pblock q pb1 s1);
            if \<not> ok then Some (SYS_MALLOC_ERR e, s2)
            else do {
              let (status, s3) = onLibP (ext_call (c_pthread_create e)) s2;
              if status \<noteq> 0
              then do { s4 \<leftarrow> freePreloadPBlock e q (set_pblock q (pb1\<lparr>pb_status := PBLOCK_CREATION_FAILED\<rparr>) s3);
                        Some (- 1, s4) }
              else Some (status, set_preload pp (pl\<lparr>pl_pblocks := pl_pblocks pl @ [q]\<rparr>)
                                   (set_pblock q (pb1\<lparr>pb_thread := To_run pp\<rparr>) s3)) } } }"

section \<open>Preloads\<close>

fun free_pblocks :: "'w ext \<Rightarrow> nat \<Rightarrow> nat list \<Rightarrow> 'w preload_state \<Rightarrow> 'w preload_state option" where
  "free_pblocks e pp [] s = Some s"
| "free_pblocks e pp (q # qs) s =
     do { pl \<leftarrow> preload_heap s pp;
          s1 \<leftarrow> freePreloadPBlock e q (set_preload pp (pl\<lparr>pl_pblocks := qs\<rparr>) s);
          free_pblocks e pp qs s1 }"

definition freePreload :: "'w ext \<Rightarrow> nat \<Rightarrow> 'w preload_state \<Rightarrow> 'w preload_state option" where
  "freePreload e pp s =
     do { pl \<leftarrow> preload_heap s pp;
          s1 \<leftarrow> free_pblocks e pp (pl_pblocks pl) s;
          Some (s1\<lparr>preload_heap := (preload_heap s1)(pp := None)\<rparr>) }"

fun release_preloads :: "'w ext \<Rightarrow> (64 word, nat) stdmap \<Rightarrow> 'w preload_state \<Rightarrow> 'w preload_state option" where
  "release_preloads e [] s = Some s"
| "release_preloads e ((k, pp) # m) s =
     do { s1 \<leftarrow> freePreload e pp (s\<lparr>g_PreloadMap := m\<rparr>); release_preloads e m s1 }"

definition releaseAllPreload :: "'w ext \<Rightarrow> 'w preload_state \<Rightarrow> 'w preload_state option" where
  "releaseAllPreload e s = release_preloads e (g_PreloadMap s) s"

section \<open>Reading a block through its preload\<close>

text \<open>
  The first loop of \<open>_readPreload\<close>: is the block there, which blocks are out of the window (in
  the order of the list), and which of the next ones are there. The comparisons are unsigned.
\<close>

fun scan_pblocks ::
    "int \<Rightarrow> 32 word \<Rightarrow> (nat \<rightharpoonup> iFusePreloadPBlock) \<Rightarrow> nat list \<Rightarrow> bool \<times> nat list \<times> bool list
       \<Rightarrow> (bool \<times> nat list \<times> bool list) option" where
  "scan_pblocks n blockID h [] acc = Some acc"
| "scan_pblocks n blockID h (q # qs) (hasBlock, removeList, existance) =
     do { pb \<leftarrow> h q;
          scan_pblocks n blockID h qs
            (if blockID = pb_blockID pb then (True, removeList, existance)
             else if blockID > pb_blockID pb \<or> blockID + word_of_int n < pb_blockID pb
             then (hasBlock, removeList @ [q], existance)
             else if pb_blockID pb - blockID - 1 < word_of_int n
             then (hasBlock, removeList, existance[unat (pb_blockID pb - blockID - 1) := True])
             else (hasBlock, removeList, existance)) }"

fun join_pblocks :: "'w ext \<Rightarrow> nat list \<Rightarrow> 'w preload_state \<Rightarrow> 'w preload_state option" where
  "join_pblocks e [] s = Some s"
| "join_pblocks e (q # qs) s = do { s1 \<leftarrow> join_block e q s; join_pblocks e qs s1 }"

text \<open>Taking the old blocks off the list: the list of those to recycle; the others are freed.\<close>

fun remove_pblocks :: "'w ext \<Rightarrow> nat \<Rightarrow> nat list \<Rightarrow> 'w preload_state \<Rightarrow> (nat list \<times> 'w preload_state) option" where
  "remove_pblocks e pp [] s = Some ([], s)"
| "remove_pblocks e pp (q # qs) s =
     do { pl \<leftarrow> preload_heap s pp;
          let s1 = set_preload pp (pl\<lparr>pl_pblocks := removeAll q (pl_pblocks pl)\<rparr>) s;
          pb \<leftarrow> pblock_heap s1 q;
          if pb_fd pb \<noteq> None \<and> pb_status pb = PBLOCK_COMPLETED \<and> pb_threadJoined pb
          then do { (recycle, s2) \<leftarrow> remove_pblocks e pp qs s1; Some (q # recycle, s2) }
          else do { s2 \<leftarrow> freePreloadPBlock e q s1; remove_pblocks e pp qs s2 } }"

text \<open>The descriptor of the first recycled block, if there is one; the block itself is freed.\<close>

definition take_recycled ::
    "'w ext \<Rightarrow> nat list \<Rightarrow> 'w preload_state \<Rightarrow> ((nat option \<times> nat list) \<times> 'w preload_state) option" where
  "take_recycled e recycle s =
     (case recycle of
        [] \<Rightarrow> Some ((None, []), s)
      | q # qs \<Rightarrow>
          do { pb \<leftarrow> pblock_heap s q;
               s1 \<leftarrow> freePreloadPBlock e q (set_pblock q (pb\<lparr>pb_fd := None\<rparr>) s);
               Some ((pb_fd pb, qs), s1) })"

text \<open>Starting the preload of a block, on a recycled descriptor when there is one.\<close>

definition start_recycled ::
    "'w ext \<Rightarrow> nat \<Rightarrow> 32 word \<Rightarrow> nat list \<Rightarrow> 'w preload_state \<Rightarrow> (nat list \<times> 'w preload_state) option" where
  "start_recycled e pp blockID recycle s =
     do { ((fd, rest), s1) \<leftarrow> take_recycled e recycle s;
          (_, s2) \<leftarrow> startPreload e pp blockID fd s1;
          Some (rest, s2) }"

text \<open>The loop over the blocks with the number asked for: their size (\<open>size_t\<close>) and the buffer.\<close>

fun read_pblocks ::
    "'w ext \<Rightarrow> 32 word \<Rightarrow> nat list \<Rightarrow> nat \<times> bytes \<Rightarrow> 'w preload_state \<Rightarrow> ((nat \<times> bytes) \<times> 'w preload_state) option" where
  "read_pblocks e blockID [] r s = Some (r, s)"
| "read_pblocks e blockID (q # qs) (readSize, buf) s =
     do { pb \<leftarrow> pblock_heap s q;
          if blockID \<noteq> pb_blockID pb then read_pblocks e blockID qs (readSize, buf) s
          else do {
            s1 \<leftarrow> join_block e q s;
            pb1 \<leftarrow> pblock_heap s1 q;
            if pb_status pb1 = PBLOCK_COMPLETED \<and> pb_threadJoined pb1
            then (case pb_fd pb1 of
                    Some p \<Rightarrow>
                      do { ((status, buf'), s2) \<leftarrow> onBuf (iFuseBufferedFsReadBlock e p buf blockID) s1;
                           read_pblocks e blockID qs (size_t status, buf') s2 }
                  | None \<Rightarrow> read_pblocks e blockID qs (size_t (- 1), buf) s1)
            else read_pblocks e blockID qs (size_t (- 1), buf) s1 } }"

text \<open>The loop that starts the missing ones of the next blocks, from the number \<open>i + blockID + 1\<close>.\<close>

fun start_missing ::
    "'w ext \<Rightarrow> nat \<Rightarrow> 32 word \<Rightarrow> nat \<Rightarrow> bool list \<Rightarrow> nat list \<Rightarrow> 'w preload_state \<Rightarrow> (nat list \<times> 'w preload_state) option" where
  "start_missing e pp blockID i [] recycle s = Some (recycle, s)"
| "start_missing e pp blockID i (there # others) recycle s =
     do { (rest, s1) \<leftarrow> (if there then Some (recycle, s)
                         else start_recycled e pp (of_nat i + blockID + 1) recycle s);
          start_missing e pp blockID (i + 1) others rest s1 }"

text \<open>
  The body of \<open>_readPreload\<close>: what it returns, the buffer, and the blocks left in \<open>recycleList\<close>
  when the last loop is reached.
\<close>

definition readPreload_blocks ::
    "'w ext \<Rightarrow> nat \<Rightarrow> bytes \<Rightarrow> 32 word \<Rightarrow> 'w preload_state \<Rightarrow> (((int \<times> bytes) \<times> nat list) \<times> 'w preload_state) option" where
  "readPreload_blocks e pp buf blockID s =
     (let n = g_preloadNumBlocks s; (ok, s1) = onLibP (mem_ok e) s
      in if \<not> ok then Some (((SYS_MALLOC_ERR e, buf), []), s1)
         else do {
           pl \<leftarrow> preload_heap s1 pp;
           (hasBlock, removeList, existance) \<leftarrow>
             scan_pblocks n blockID (pblock_heap s1) (pl_pblocks pl) (False, [], replicate (nat n) False);
           s2 \<leftarrow> join_pblocks e removeList s1;
           (recycle, s3) \<leftarrow> remove_pblocks e pp removeList s2;
           (recycle1, s4) \<leftarrow> (if hasBlock then Some (recycle, s3) else start_recycled e pp blockID recycle s3);
           pl4 \<leftarrow> preload_heap s4 pp;
           ((readSize, buf'), s5) \<leftarrow> read_pblocks e blockID (pl_pblocks pl4) (0, buf) s4;
           (recycle2, s6) \<leftarrow> start_missing e pp blockID 0 existance recycle1 s5;
           Some (((c_int readSize, buf'), recycle2), s6) })"

text \<open>
  The last loop takes an element off \<open>removeList\<close>, which is empty by then, for every block
  left in \<open>recycleList\<close>: undefined, if there is one.
\<close>

definition readPreload ::
    "'w ext \<Rightarrow> nat \<Rightarrow> bytes \<Rightarrow> 32 word \<Rightarrow> 'w preload_state \<Rightarrow> ((int \<times> bytes) \<times> 'w preload_state) option" where
  "readPreload e pp buf blockID s =
     do { ((r, recycle), s1) \<leftarrow> readPreload_blocks e pp buf blockID s;
          if recycle = [] then Some (r, s1) else None }"

section \<open>The operations of the layer\<close>

definition iFusePreloadInit :: "'w preload_state \<Rightarrow> 'w preload_state" where
  "iFusePreloadInit s =
     (let opt = iFuseLibGetOption (get_lib (bfs (bufs s)))
      in if opt_preloadNumBlocks opt > 0
         then s\<lparr>g_preloadNumBlocks := (if opt_preloadNumBlocks opt > IFUSE_PRELOAD_MAX_PBLOCK_NUM
                                       then IFUSE_PRELOAD_MAX_PBLOCK_NUM else opt_preloadNumBlocks opt)\<rparr>
         else s)"

definition iFusePreloadDestroy :: "'w ext \<Rightarrow> 'w preload_state \<Rightarrow> 'w preload_state option" where
  "iFusePreloadDestroy e s = releaseAllPreload e s"

text \<open>\<open>strdup\<close>, which gives NULL when there is no memory.\<close>

definition strdupP :: "'w ext \<Rightarrow> string \<Rightarrow> 'w preload_state \<Rightarrow> string option \<times> 'w preload_state" where
  "strdupP e str s = (let (ok, s1) = onLibP (mem_ok e) s in (if ok then Some str else None, s1))"

text \<open>The first blocks of the file, from the number \<open>i\<close> on; a start that fails is passed over.\<close>

fun start_first :: "'w ext \<Rightarrow> nat \<Rightarrow> nat \<Rightarrow> nat \<Rightarrow> 'w preload_state \<Rightarrow> 'w preload_state option" where
  "start_first e pp i 0 s = Some s"
| "start_first e pp i (Suc k) s =
     do { (_, s1) \<leftarrow> startPreload e pp (of_nat i) None s; start_first e pp (i + 1) k s1 }"

definition iFusePreloadOpen ::
    "'w ext \<Rightarrow> string \<Rightarrow> flags \<Rightarrow> 'w preload_state \<Rightarrow> ((int \<times> nat option) \<times> 'w preload_state) option" where
  "iFusePreloadOpen e iRodsPath openFlag s =
     do { ((status, fd), s1) \<leftarrow> onBuf (iFuseBufferedFsOpen e iRodsPath openFlag) s;
          if status < 0 then Some ((status, fd), s1)
          else do {
            ((status, preload), s2) \<leftarrow> newPreload e s1;
            if status \<noteq> 0 then Some ((0, fd), s2)
            else do {
              p \<leftarrow> fd;
              d \<leftarrow> fd_heap (fds (bfs (bufs s2))) p;
              pp \<leftarrow> preload;
              pl \<leftarrow> preload_heap s2 pp;
              let (path, s3) = strdupP e iRodsPath s2;
              let s4 = set_preload pp (pl\<lparr>pl_fdId := fd_fdId d, pl_iRodsPath := path\<rparr>) s3;
              s5 \<leftarrow> (if accmode openFlag = O_RDONLY \<or> accmode openFlag = O_RDWR
                      then start_first e pp 0 (nat (g_preloadNumBlocks s4)) s4 else Some s4);
              Some ((0, fd), s5\<lparr>g_PreloadMap := map_insert (fd_fdId d) pp (g_PreloadMap s5)\<rparr>) } } }"

definition iFusePreloadClose :: "'w ext \<Rightarrow> nat \<Rightarrow> 'w preload_state \<Rightarrow> (int \<times> 'w preload_state) option" where
  "iFusePreloadClose e p s =
     do { d \<leftarrow> fd_heap (fds (bfs (bufs s))) p;
          let (_, s1) = strdupP e (fd_iRodsPath d) s;
          (status, s2) \<leftarrow> onBuf (iFuseBufferedFsClose e p) s1;
          if status < 0 then Some (- ENOENT, s2)
          else (case map_find (g_PreloadMap s2) (fd_fdId d) of
                  None \<Rightarrow> Some (status, s2)
                | Some pp \<Rightarrow>
                    do { s3 \<leftarrow> freePreload e pp (s2\<lparr>g_PreloadMap := map_erase (fd_fdId d) (g_PreloadMap s2)\<rparr>);
                         Some (status, s3) }) }"

text \<open>One round of the loop of \<open>iFusePreloadRead\<close>.\<close>

definition preload_round ::
    "'w ext \<Rightarrow> nat \<Rightarrow> int \<Rightarrow> nat \<Rightarrow> bytes \<Rightarrow> 'w preload_state \<Rightarrow> ((read_result \<times> bytes) \<times> 'w preload_state) option" where
  "preload_round e pp off remain blockBuffer s =
     do { let B = g_Blocksize (bufs s);
          inBlockOffset \<leftarrow> getInBlockOffset B off;
          let inBlockAvail = size_t (B - inBlockOffset);
          let curSize = (if inBlockAvail > remain then remain else inBlockAvail);
          blockID \<leftarrow> getBlockID B off;
          ((status, bb), s1) \<leftarrow> readPreload e pp blockBuffer blockID s;
          if status < 0 then Some ((Read_failed status, bb), s1)
          else if status = 0 then Some ((Read_eof, bb), s1)
          else do { r \<leftarrow> block_chunk B inBlockOffset curSize (nat status) bb;
                    Some ((r, bb), s1) } }"

lemma preload_round_chunk:
  assumes "preload_round e pp off remain blockBuffer s = Some ((Read_chunk chunk short, bb), s1)"
  shows "chunk \<noteq> []"
  using assms by (auto simp: preload_round_def Let_def dest: block_chunk_nonempty split: if_splits)

text \<open>The loop; \<open>None\<close> instead of a size says that a block could not be read through the preload.\<close>

function preload_blocks ::
    "'w ext \<Rightarrow> nat \<Rightarrow> int \<Rightarrow> nat \<Rightarrow> bytes \<Rightarrow> bytes \<Rightarrow> 'w preload_state \<Rightarrow> ((int \<times> bytes) option \<times> 'w preload_state) option" where
  "preload_blocks e pp off remain out blockBuffer s =
     (if remain = 0 then Some (Some (c_int (length out), out), s)
      else do { ((r, bb), s1) \<leftarrow> preload_round e pp off remain blockBuffer s;
                (case r of
                   Read_failed status \<Rightarrow> Some (None, s1)
                 | Read_eof \<Rightarrow> Some (Some (c_int (length out), out), s1)
                 | Read_chunk chunk short \<Rightarrow>
                     if short then Some (Some (c_int (length (out @ chunk)), out @ chunk), s1)
                     else preload_blocks e pp (off + int (length chunk)) (remain - length chunk) (out @ chunk) bb s1) })"
  by pat_completeness auto
termination
  by (relation "measure (\<lambda>(e, pp, off, remain, _). remain)") (auto dest: preload_round_chunk)

declare preload_blocks.simps [simp del]

text \<open>Reading without the preload, from the start of the request.\<close>

definition read_around ::
    "'w ext \<Rightarrow> nat \<Rightarrow> int \<Rightarrow> nat \<Rightarrow> 'w preload_state \<Rightarrow> ((int \<times> bytes) \<times> 'w preload_state) option" where
  "read_around e p off sz s =
     do { ((status, dat), s1) \<leftarrow> onBuf (iFuseBufferedFsRead e p off sz) s;
          Some ((if status < 0 then - ENOENT else status, dat), s1) }"

text \<open>The block buffer's \<open>calloc\<close> is not checked; \<open>_readPreload\<close> asserts that it is there.\<close>

definition iFusePreloadRead ::
    "'w ext \<Rightarrow> nat \<Rightarrow> int \<Rightarrow> nat \<Rightarrow> 'w preload_state \<Rightarrow> ((int \<times> bytes) \<times> 'w preload_state) option" where
  "iFusePreloadRead e p off sz s =
     do { let (ok, s1) = onLibP (mem_ok e) s;
          d \<leftarrow> fd_heap (fds (bfs (bufs s1))) p;
          (case map_find (g_PreloadMap s1) (fd_fdId d) of
             None \<Rightarrow> read_around e p off sz s1
           | Some pp \<Rightarrow>
               if \<not> ok \<and> sz > 0 then None
               else do {
                 (r, s2) \<leftarrow> preload_blocks e pp off sz [] (zeros (getBufferCacheBlockSize (bufs s1))) s1;
                 (case r of Some out \<Rightarrow> Some (out, s2) | None \<Rightarrow> read_around e p off sz s2) }) }"

end
