(* ===== verification/IFuse_CmdLineOpt.thy ===== *)
theory IFuse_CmdLineOpt
  imports IFuse_Preload IFuse_System
begin

text \<open>
  \<open>iFuseCmdLineOpt.cpp\<close>: the options from the environment and the command line, and the command
  line handed on to FUSE. The state is the options (\<open>g_Opt\<close>) and the library state, of which
  only the allocator is used. What the code prints is not modelled. \<open>getopt\<close> is the C library's
  (GNU, which moves the operands behind the options), with the option string of the code.
\<close>

record 'w cmd_state =
  cmd_lib :: "'w lib_state"
  g_Opt :: iFuseOpt

definition strdupC :: "'w ext \<Rightarrow> string \<Rightarrow> 'w cmd_state \<Rightarrow> string option \<times> 'w cmd_state" where
  "strdupC e str s = (let (ok, l) = mem_ok e (cmd_lib s) in (if ok then Some str else None, s\<lparr>cmd_lib := l\<rparr>))"

definition set_opt :: "(iFuseOpt \<Rightarrow> iFuseOpt) \<Rightarrow> 'w cmd_state \<Rightarrow> 'w cmd_state" where
  "set_opt f s = s\<lparr>g_Opt := f (g_Opt s)\<rparr>"

section \<open>Defaults and environment\<close>

definition atob :: "string option \<Rightarrow> bool" where
  "atob str = (case str of None \<Rightarrow> False | Some s \<Rightarrow> iFuseUtilStricmp s ''true'' = 0)"

definition zero_opt :: iFuseOpt where
  "zero_opt = \<lparr>opt_program = None, opt_help = False, opt_version = False, opt_debug = False,
     opt_nonempty = False, opt_foreground = False, opt_directio = False, opt_bufferedFS = False,
     opt_preload = False, opt_cacheMetadata = False, opt_maxConn = 0, opt_blocksize = 0, opt_connReuse = False,
     opt_connTimeoutSec = 0, opt_connKeepAliveSec = 0, opt_connCheckIntervalSec = 0, opt_rodsapiTimeoutSec = 0,
     opt_preloadNumBlocks = 0, opt_metadataCacheTimeoutSec = 0, opt_ticket = None, opt_workdir = None,
     opt_mountpoint = None, opt_extendedOpts = []\<rparr>"

text \<open>\<open>USE_CONNREUSE\<close> is not defined.\<close>

definition default_opt :: iFuseOpt where
  "default_opt = zero_opt\<lparr>opt_directio := True, opt_bufferedFS := True, opt_preload := True, opt_cacheMetadata := True,
     opt_maxConn := IFUSE_MAX_NUM_CONN, opt_blocksize := IFUSE_BUFFER_CACHE_BLOCK_SIZE, opt_connReuse := False,
     opt_connTimeoutSec := IFUSE_FREE_CONN_TIMEOUT_SEC, opt_connKeepAliveSec := IFUSE_FREE_CONN_KEEPALIVE_SEC,
     opt_connCheckIntervalSec := IFUSE_FREE_CONN_CHECK_INTERVAL_SEC,
     opt_rodsapiTimeoutSec := IFUSE_RODSCLIENTAPI_TIMEOUT_SEC, opt_preloadNumBlocks := IFUSE_PRELOAD_PBLOCK_NUM,
     opt_metadataCacheTimeoutSec := IFUSE_METADATA_CACHE_TIMEOUT_SEC\<rparr>"

definition env_flag :: "string option \<Rightarrow> (iFuseOpt \<Rightarrow> iFuseOpt) \<Rightarrow> iFuseOpt \<Rightarrow> iFuseOpt" where
  "env_flag var f opt = (if atob var then f opt else opt)"

definition env_number :: "string option \<Rightarrow> (int \<Rightarrow> iFuseOpt \<Rightarrow> iFuseOpt) \<Rightarrow> iFuseOpt \<Rightarrow> iFuseOpt" where
  "env_number var f opt = (case var of None \<Rightarrow> opt | Some n \<Rightarrow> f (atoi n) opt)"

definition iFuseCmdOptsInit :: "(string \<Rightarrow> string option) \<Rightarrow> 'w cmd_state \<Rightarrow> 'w cmd_state" where
  "iFuseCmdOptsInit getenv s =
     (let o1 = env_flag (getenv ''IRODSFS_NOCACHE'')
                 (\<lambda>opt. opt\<lparr>opt_bufferedFS := False, opt_preload := False, opt_cacheMetadata := False\<rparr>) default_opt;
          o2 = env_flag (getenv ''IRODSFS_NOPRELOAD'') (\<lambda>opt. opt\<lparr>opt_preload := False\<rparr>) o1;
          o3 = env_flag (getenv ''IRODSFS_NOCACHEMETADATA'') (\<lambda>opt. opt\<lparr>opt_cacheMetadata := False\<rparr>) o2;
          o4 = env_number (getenv ''IRODSFS_MAXCONN'') (\<lambda>n opt. opt\<lparr>opt_maxConn := n\<rparr>) o3;
          o5 = env_number (getenv ''IRODSFS_BLOCKSIZE'') (\<lambda>n opt. opt\<lparr>opt_blocksize := n\<rparr>) o4;
          o6 = env_flag (getenv ''IRODSFS_CONNREUSE'') (\<lambda>opt. opt\<lparr>opt_connReuse := True\<rparr>) o5;
          o7 = env_flag (getenv ''IRODSFS_NOCONNREUSE'') (\<lambda>opt. opt\<lparr>opt_connReuse := False\<rparr>) o6;
          o8 = env_number (getenv ''IRODSFS_CONNTIMEOUT'') (\<lambda>n opt. opt\<lparr>opt_connTimeoutSec := n\<rparr>) o7;
          o9 = env_number (getenv ''IRODSFS_CONNKEEPALIVE'') (\<lambda>n opt. opt\<lparr>opt_connKeepAliveSec := n\<rparr>) o8;
          o10 = env_number (getenv ''IRODSFS_CONNCHECKINTERVAL'') (\<lambda>n opt. opt\<lparr>opt_connCheckIntervalSec := n\<rparr>) o9;
          o11 = env_number (getenv ''IRODSFS_APITIMEOUT'') (\<lambda>n opt. opt\<lparr>opt_rodsapiTimeoutSec := n\<rparr>) o10;
          o12 = env_number (getenv ''IRODSFS_PRELOADBLOCKS'') (\<lambda>n opt. opt\<lparr>opt_preloadNumBlocks := n\<rparr>) o11;
          o13 = env_number (getenv ''IRODSFS_METADATACACHETIMEOUT'') (\<lambda>n opt. opt\<lparr>opt_metadataCacheTimeoutSec := n\<rparr>) o12
      in s\<lparr>g_Opt := o13\<rparr>)"

definition iFuseCmdOptsDestroy :: "'w cmd_state \<Rightarrow> 'w cmd_state" where
  "iFuseCmdOptsDestroy s =
     set_opt (\<lambda>opt. opt\<lparr>opt_program := None, opt_mountpoint := None, opt_workdir := None, opt_ticket := None,
                        opt_extendedOpts := []\<rparr>) s"

section \<open>Options for FUSE\<close>

definition newExtendedOpt :: "'w ext \<Rightarrow> string \<Rightarrow> 'w cmd_state \<Rightarrow> iFuseExtendedOpt option \<times> 'w cmd_state" where
  "newExtendedOpt e opt s =
     (let (ok, l) = mem_ok e (cmd_lib s); s1 = s\<lparr>cmd_lib := l\<rparr>
      in if ok then let (str, s2) = strdupC e opt s1 in (Some \<lparr>eo_fuse = False, eo_opt = str\<rparr>, s2) else (None, s1))"

definition iFuseCmdOptsAdd :: "'w ext \<Rightarrow> string \<Rightarrow> 'w cmd_state \<Rightarrow> 'w cmd_state option" where
  "iFuseCmdOptsAdd e opt s =
     (case newExtendedOpt e opt s of
        (None, s1) \<Rightarrow> None
      | (Some eopt, s1) \<Rightarrow>
          Some (set_opt (\<lambda>o'. o'\<lparr>opt_extendedOpts := eopt\<lparr>eo_fuse := (take 2 opt = ''-o'')\<rparr> # opt_extendedOpts o'\<rparr>) s1))"

section \<open>Finding a command\<close>

definition IFUSE_CMD_ARG_MAX_TOKEN_LEN :: nat where
  "IFUSE_CMD_ARG_MAX_TOKEN_LEN = 30"

text \<open>The two arrays of \<open>char\<close>; \<open>strncpy\<close> ends a string with a \<open>NUL\<close> only if there is room.\<close>

record iFuseCmdArg =
  arg_start :: nat
  arg_end :: nat
  arg_command :: bytes
  arg_value :: bytes

definition strncpy_arg :: "string \<Rightarrow> bytes" where
  "strncpy_arg src = take IFUSE_CMD_ARG_MAX_TOKEN_LEN (src @ zeros IFUSE_CMD_ARG_MAX_TOKEN_LEN)"

definition zero_arg :: iFuseCmdArg where
  "zero_arg = \<lparr>arg_start = 0, arg_end = 0, arg_command = zeros IFUSE_CMD_ARG_MAX_TOKEN_LEN,
     arg_value = zeros IFUSE_CMD_ARG_MAX_TOKEN_LEN\<rparr>"

text \<open>The string an array holds; reading on behind an array without \<open>NUL\<close> is undefined.\<close>

definition c_string :: "bytes \<Rightarrow> string option" where
  "c_string buf = (if NUL \<in> set buf then Some (takeWhile (\<lambda>c. c \<noteq> NUL) buf) else None)"

text \<open>\<open>strcmp\<close> and \<open>strncmp\<close> with a literal stop at the first difference, inside the array.\<close>

definition cmd_is :: "bytes \<Rightarrow> string \<Rightarrow> bool" where
  "cmd_is buf lit \<longleftrightarrow> take (length lit + 1) buf = lit @ [NUL]"

definition cmd_starts :: "bytes \<Rightarrow> string \<Rightarrow> bool" where
  "cmd_starts buf lit \<longleftrightarrow> take (length lit) buf = lit"

fun parse_args :: "string list \<Rightarrow> nat \<Rightarrow> nat \<Rightarrow> iFuseCmdArg \<Rightarrow> nat \<times> iFuseCmdArg" where
  "parse_args [] i tokens arg = (tokens, arg)"
| "parse_args (a # args) i tokens arg =
     (if a = ''-o''
      then if tokens > 0 then (tokens, arg)
           else let arg1 = arg\<lparr>arg_start := i, arg_end := i + 1\<rparr>
                in (case args of
                      [] \<Rightarrow> (tokens + 1, arg1)
                    | b # bs \<Rightarrow> parse_args bs (i + 2) (tokens + 2) (arg1\<lparr>arg_command := strncpy_arg b, arg_end := i + 2\<rparr>))
      else if take 2 a = ''--'' \<or> take 2 a = ''-o''
      then if tokens > 0 then (tokens, arg)
           else parse_args args (i + 1) (tokens + 1)
                  (arg\<lparr>arg_start := i, arg_command := strncpy_arg (drop 2 a), arg_end := i + 1\<rparr>)
      else if take 1 a = ''-''
      then if tokens > 0 then (tokens, arg)
           else parse_args args (i + 1) (tokens + 1)
                  (arg\<lparr>arg_start := i, arg_command := strncpy_arg (drop 1 a), arg_end := i + 1\<rparr>)
      else if tokens = 0 then parse_args args (i + 1) tokens arg
      else (tokens + 1, arg\<lparr>arg_value := strncpy_arg a, arg_end := i + 1\<rparr>))"

definition parseFuseCommandArg :: "string list \<Rightarrow> nat \<Rightarrow> nat \<times> iFuseCmdArg" where
  "parseFuseCommandArg argv index = parse_args (drop index argv) index 0 zero_arg"

section \<open>Obeying a command\<close>

text \<open>The ones with a number, and how the others set the options.\<close>

definition number_command :: "bytes \<Rightarrow> (int \<Rightarrow> iFuseOpt \<Rightarrow> iFuseOpt) option" where
  "number_command cmd =
     (if cmd_is cmd ''maxconn'' then Some (\<lambda>n opt. opt\<lparr>opt_maxConn := n\<rparr>)
      else if cmd_is cmd ''blocksize'' then Some (\<lambda>n opt. opt\<lparr>opt_blocksize := n\<rparr>)
      else if cmd_is cmd ''conntimeout'' then Some (\<lambda>n opt. opt\<lparr>opt_connTimeoutSec := n\<rparr>)
      else if cmd_is cmd ''connkeepalive'' then Some (\<lambda>n opt. opt\<lparr>opt_connKeepAliveSec := n\<rparr>)
      else if cmd_is cmd ''conncheckinterval'' then Some (\<lambda>n opt. opt\<lparr>opt_connCheckIntervalSec := n\<rparr>)
      else if cmd_is cmd ''apitimeout'' then Some (\<lambda>n opt. opt\<lparr>opt_rodsapiTimeoutSec := n\<rparr>)
      else if cmd_is cmd ''preloadblocks'' then Some (\<lambda>n opt. opt\<lparr>opt_preloadNumBlocks := n\<rparr>)
      else if cmd_is cmd ''metadatacachetimeout'' then Some (\<lambda>n opt. opt\<lparr>opt_metadataCacheTimeoutSec := n\<rparr>)
      else None)"

definition flag_command :: "bytes \<Rightarrow> (iFuseOpt \<Rightarrow> iFuseOpt) option" where
  "flag_command cmd =
     (if cmd_is cmd ''version'' then Some (\<lambda>opt. opt\<lparr>opt_version := True\<rparr>)
      else if cmd_is cmd ''nodirectio'' then Some (\<lambda>opt. opt\<lparr>opt_directio := False\<rparr>)
      else if cmd_is cmd ''nocache''
      then Some (\<lambda>opt. opt\<lparr>opt_bufferedFS := False, opt_preload := False, opt_cacheMetadata := False\<rparr>)
      else if cmd_is cmd ''nopreload'' then Some (\<lambda>opt. opt\<lparr>opt_preload := False\<rparr>)
      else if cmd_is cmd ''nocachemetadata'' then Some (\<lambda>opt. opt\<lparr>opt_cacheMetadata := False\<rparr>)
      else if cmd_is cmd ''connreuse'' then Some (\<lambda>opt. opt\<lparr>opt_connReuse := True\<rparr>)
      else if cmd_is cmd ''noconnreuse'' then Some (\<lambda>opt. opt\<lparr>opt_connReuse := False\<rparr>)
      else None)"

text \<open>Those for FUSE; \<open>strlen\<close> of the command comes last.\<close>

definition fuse_command :: "bytes \<Rightarrow> bool option" where
  "fuse_command cmd =
     (if list_ex (cmd_is cmd) [''default_permissions'', ''allow_other'', ''nonempty'', ''use_ino'', ''blkdev'',
                               ''allow_root'', ''auto_unmount'']
         \<or> list_ex (cmd_starts cmd) [''rootmode'', ''blksize'', ''max_read'', ''fd'', ''user_id'', ''fsname'', ''subtype'']
      then Some True
      else do { str \<leftarrow> c_string cmd; Some (length str = 1) })"

text \<open>Whether the command is processed here; \<open>Some None\<close> is an unknown one.\<close>

definition apply_command ::
    "'w ext \<Rightarrow> iFuseCmdArg \<Rightarrow> 'w cmd_state \<Rightarrow> (bool option \<times> 'w cmd_state) option" where
  "apply_command e arg s =
     (let cmd = arg_command arg in
      case flag_command cmd of
        Some f \<Rightarrow> Some (Some True, set_opt f s)
      | None \<Rightarrow> (case number_command cmd of
          Some f \<Rightarrow>
            do { str \<leftarrow> c_string (arg_value arg);
                 Some (Some True, if length str > 0 then set_opt (f (atoi str)) s else s) }
        | None \<Rightarrow>
            if cmd_is cmd ''ticket''
            then do { str \<leftarrow> c_string (arg_value arg);
                      Some (Some True, if length str > 0
                                       then let (x, s1) = strdupC e str s in set_opt (\<lambda>opt. opt\<lparr>opt_ticket := x\<rparr>) s1 else s) }
            else if cmd_is cmd ''workdir''
            then do { str \<leftarrow> c_string (arg_value arg);
                      Some (Some True, if length str > 0
                                       then let (x, s1) = strdupC e str s in set_opt (\<lambda>opt. opt\<lparr>opt_workdir := x\<rparr>) s1 else s) }
            else do { known \<leftarrow> fuse_command cmd; Some (if known then Some False else None, s) }))"

text \<open>\<open>for(j=cmd.start;j<cmd.end;j++) argv[j] = "-Z"\<close>.\<close>

definition mark_processed :: "iFuseCmdArg \<Rightarrow> string list \<Rightarrow> string list option" where
  "mark_processed arg argv =
     (if arg_end arg \<le> length argv then Some (fold (\<lambda>j v. v[j := ''-Z'']) [arg_start arg..<arg_end arg] argv) else None)"

lemma length_mark_processed: "mark_processed arg argv = Some argv' \<Longrightarrow> length argv' = length argv"
proof -
  have "length (fold (\<lambda>j v. v[j := x]) js v) = length v" for js v and x :: string
    by (induction js arbitrary: v) simp_all
  moreover assume "mark_processed arg argv = Some argv'"
  ultimately show ?thesis by (auto simp: mark_processed_def split: if_splits)
qed

text \<open>The first loop of \<open>iFuseCmdOptsParse\<close>: its status and what it made of \<open>argv\<close>.\<close>

function parse_commands ::
    "'w ext \<Rightarrow> nat \<Rightarrow> string list \<Rightarrow> 'w cmd_state \<Rightarrow> ((int \<times> string list) \<times> 'w cmd_state) option" where
  "parse_commands e i argv s =
     (if \<not> i < length argv then Some ((0, argv), s)
      else let (tokens, arg) = parseFuseCommandArg argv i
           in if tokens > 0
              then do { (processed, s1) \<leftarrow> apply_command e arg s;
                        (case processed of
                           None \<Rightarrow> Some ((1, argv), s1)
                         | Some True \<Rightarrow> do { argv1 \<leftarrow> mark_processed arg argv; parse_commands e (i + tokens) argv1 s1 }
                         | Some False \<Rightarrow> parse_commands e (i + tokens) argv s1) }
              else Some ((0, argv), s))"
  by pat_completeness auto
termination
  by (relation "measure (\<lambda>(e, i, argv, s). length argv - i)") (auto dest: length_mark_processed)

declare parse_commands.simps [simp del]

section \<open>getopt\<close>

text \<open>
  What the C library's \<open>getopt\<close> gives for \<open>"hvVdfo:t:w:Z"\<close>: the options in the order it returns
  them, each with its argument, an unknown one or one without its argument as \<open>'?'\<close>, and the
  operands, which it has moved to the end. The first argument is what is left of a cluster of
  short options.
\<close>

definition opt_flags :: "char set" where
  "opt_flags = {CHR ''h'', CHR ''v'', CHR ''V'', CHR ''d'', CHR ''f'', CHR ''Z''}"

definition opt_args :: "char set" where
  "opt_args = {CHR ''o'', CHR ''t'', CHR ''w''}"

definition operand :: "string \<Rightarrow> bool" where
  "operand a \<longleftrightarrow> take 1 a \<noteq> ''-'' \<or> a = ''-''"

function getopt :: "string \<Rightarrow> string list \<Rightarrow> (char \<times> string option) list \<times> string list" where
  "getopt [] [] = ([], [])"
| "getopt [] (a # args) =
     (if a = ''--'' then ([], args)
      else if operand a then (let (opts, ops) = getopt [] args in (opts, a # ops))
      else getopt (drop 1 a) args)"
| "getopt (c # cs) args =
     (if c \<in> opt_args
      then (if cs \<noteq> [] then (let (opts, ops) = getopt [] args in ((c, Some cs) # opts, ops))
            else (case args of
                    [] \<Rightarrow> ([(CHR ''?'', None)], [])
                  | x # rest \<Rightarrow> (let (opts, ops) = getopt [] rest in ((c, Some x) # opts, ops))))
      else (let (opts, ops) = getopt cs args in ((if c \<in> opt_flags then c else CHR ''?'', None) # opts, ops)))"
  by pat_completeness auto
termination
  by (relation "measure (\<lambda>(cs, args). length cs + sum_list (map (\<lambda>a. length a + 1) args))") auto

text \<open>What is done with the options; the result is the status. \<open>sprintf\<close> must stay in its buffer.\<close>

definition obey_option ::
    "'w ext \<Rightarrow> char \<times> string option \<Rightarrow> 'w cmd_state \<Rightarrow> (int \<times> 'w cmd_state) option" where
  "obey_option e opt s =
     (case opt of
        (c, None) \<Rightarrow>
          Some (0, if c = CHR ''h'' then set_opt (\<lambda>opt. opt\<lparr>opt_help := True\<rparr>) s
                   else if c = CHR ''v'' \<or> c = CHR ''V'' then set_opt (\<lambda>opt. opt\<lparr>opt_version := True\<rparr>) s
                   else if c = CHR ''d'' then set_opt (\<lambda>opt. opt\<lparr>opt_debug := True\<rparr>) s
                   else if c = CHR ''f'' then set_opt (\<lambda>opt. opt\<lparr>opt_foreground := True\<rparr>) s
                   else s)
      | (c, Some optarg) \<Rightarrow>
          if c = CHR ''o''
          then if optarg = ''use_ino'' then Some (1, s)
               else if optarg = ''nonempty'' then Some (0, set_opt (\<lambda>opt. opt\<lparr>opt_nonempty := True\<rparr>) s)
               else if length optarg + 3 > MAX_NAME_LEN e then None
               else do { s1 \<leftarrow> iFuseCmdOptsAdd e (''-o'' @ optarg) s; Some (0, s1) }
          else if c = CHR ''t''
          then Some (0, if length optarg > 0
                        then let (x, s1) = strdupC e optarg s in set_opt (\<lambda>opt. opt\<lparr>opt_ticket := x\<rparr>) s1 else s)
          else Some (0, if length optarg > 0
                        then let (x, s1) = strdupC e optarg s in set_opt (\<lambda>opt. opt\<lparr>opt_workdir := x\<rparr>) s1 else s))"

fun obey_options :: "'w ext \<Rightarrow> (char \<times> string option) list \<Rightarrow> 'w cmd_state \<Rightarrow> (int \<times> 'w cmd_state) option" where
  "obey_options e [] s = Some (0, s)"
| "obey_options e (opt # opts) s =
     do { (status, s1) \<leftarrow> obey_option e opt s;
          if status \<noteq> 0 then Some (status, s1) else obey_options e opts s1 }"

text \<open>\<open>argv[0]\<close> must be there: \<open>strdup\<close> reads it.\<close>

definition iFuseCmdOptsParse :: "'w ext \<Rightarrow> string list \<Rightarrow> 'w cmd_state \<Rightarrow> (int \<times> 'w cmd_state) option" where
  "iFuseCmdOptsParse e argv s =
     (case argv of
        [] \<Rightarrow> None
      | prog # _ \<Rightarrow>
          let (program, s1) = strdupC e prog s; s2 = set_opt (\<lambda>opt. opt\<lparr>opt_program := program\<rparr>) s1
          in do { ((status, argv1), s3) \<leftarrow> parse_commands e 0 argv s2;
                  if status \<noteq> 0 then Some (status, s3)
                  else do {
                    let (opts, operands) = getopt [] (tl argv1);
                    (status, s4) \<leftarrow> obey_options e opts s3;
                    if status \<noteq> 0 then Some (status, s4)
                    else Some (0, case filter (\<lambda>a. length a > 0) operands of
                                    [] \<Rightarrow> s4
                                  | m # _ \<Rightarrow> let (x, s5) = strdupC e m s4
                                             in set_opt (\<lambda>opt. opt\<lparr>opt_mountpoint := x\<rparr>) s5) } })"

definition iFuseGetOption :: "'w cmd_state \<Rightarrow> iFuseOpt" where
  "iFuseGetOption s = (g_Opt s)\<lparr>opt_extendedOpts := []\<rparr>"

section \<open>The command line for FUSE\<close>

text \<open>First the arguments are counted, then the array is filled from the front.\<close>

definition fuse_opts :: "iFuseOpt \<Rightarrow> string list" where
  "fuse_opts opt = concat (map (\<lambda>eopt. if eo_fuse eopt then opt_list (eo_opt eopt) else []) (opt_extendedOpts opt))"

definition count_args :: "iFuseOpt \<Rightarrow> nat" where
  "count_args opt =
     (if opt_program opt \<noteq> None then 1 else 0) + (if opt_debug opt then 1 else 0) + (if opt_foreground opt then 1 else 0)
     + (if opt_nonempty opt then 1 else 0) + (if opt_directio opt then 1 else 0)
     + (if opt_mountpoint opt \<noteq> None then 1 else 0)
     + length (filter (\<lambda>eopt. eo_fuse eopt \<and> eo_opt eopt \<noteq> None) (opt_extendedOpts opt))"

text \<open>\<open>argv[i] = strdup(str); i++\<close>; past the end of the array it is undefined.\<close>

definition put_arg ::
    "'w ext \<Rightarrow> string \<Rightarrow> (nat \<times> string option list) \<times> 'w cmd_state \<Rightarrow> ((nat \<times> string option list) \<times> 'w cmd_state) option" where
  "put_arg e str x =
     (case x of ((i, argv), s) \<Rightarrow>
        let (p, s1) = strdupC e str s
        in if i < length argv then Some ((i + 1, argv[i := p]), s1) else None)"

fun put_args ::
    "'w ext \<Rightarrow> string list \<Rightarrow> (nat \<times> string option list) \<times> 'w cmd_state \<Rightarrow> ((nat \<times> string option list) \<times> 'w cmd_state) option" where
  "put_args e [] x = Some x"
| "put_args e (str # strs) x = do { x1 \<leftarrow> put_arg e str x; put_args e strs x1 }"

definition iFuseGenCmdLineForFuse :: "'w ext \<Rightarrow> 'w cmd_state \<Rightarrow> ((nat \<times> string option list) \<times> 'w cmd_state) option" where
  "iFuseGenCmdLineForFuse e s =
     (let opt = g_Opt s; argc = count_args opt; (ok, l) = mem_ok e (cmd_lib s); s1 = s\<lparr>cmd_lib := l\<rparr>
      in if \<not> ok then None
         else do {
           x1 \<leftarrow> put_args e (opt_list (opt_program opt)) ((0, replicate argc None), s1);
           x2 \<leftarrow> put_args e (if opt_debug opt then [''-d''] else []) x1;
           x3 \<leftarrow> put_args e (if opt_foreground opt then [''-f''] else []) x2;
           x4 \<leftarrow> put_args e (if opt_nonempty opt then [''-nonempty''] else []) x3;
           x5 \<leftarrow> put_args e (if opt_directio opt then [''-odirect_io''] else []) x4;
           x6 \<leftarrow> put_args e (fuse_opts opt) x5;
           ((_, argv), s2) \<leftarrow> put_args e (opt_list (opt_mountpoint opt)) x6;
           Some ((argc, argv), s2) })"

text \<open>Releasing frees the strings that are there and the array; reading past it is undefined.\<close>

definition iFuseReleaseCmdLineForFuse :: "nat \<Rightarrow> string option list \<Rightarrow> unit option" where
  "iFuseReleaseCmdLineForFuse fuse_argc fuse_argv = (if fuse_argc \<le> length fuse_argv then Some () else None)"

section \<open>Filling the array\<close>

lemma strdupC_ok: "strdupC e str s = (p, s1) \<Longrightarrow> (calloc_ok e \<longrightarrow> p = Some str) \<and> g_Opt s1 = g_Opt s"
  using mem_ok_True [of e "cmd_lib s"] by (auto simp: strdupC_def split: prod.splits if_splits)

text \<open>Filling the array from the front: \<open>xs\<close> is there already, \<open>k\<close> places stay free.\<close>

lemma put_args_ok:
  "\<exists>ys s'. put_args e strs ((length xs, xs @ replicate (length strs + k) None), s)
      = Some ((length (xs @ ys), (xs @ ys) @ replicate k None), s')
    \<and> length ys = length strs \<and> (calloc_ok e \<longrightarrow> ys = map Some strs) \<and> g_Opt s' = g_Opt s"
proof (induction strs arbitrary: xs s)
  case (Cons str strs)
  obtain p s1 where 1: "strdupC e str s = (p, s1)" by force
  from Cons.IH [of "xs @ [p]" s1] obtain ys s' where
    "put_args e strs ((length (xs @ [p]), (xs @ [p]) @ replicate (length strs + k) None), s1)
      = Some ((length ((xs @ [p]) @ ys), ((xs @ [p]) @ ys) @ replicate k None), s')"
    "length ys = length strs" "calloc_ok e \<longrightarrow> ys = map Some strs" "g_Opt s' = g_Opt s1" by blast
  with 1 strdupC_ok [OF 1] show ?case by (intro exI [of _ "p # ys"] exI [of _ s']) (simp add: put_arg_def)
qed simp

text \<open>The arguments in their order.\<close>

definition fuse_line :: "iFuseOpt \<Rightarrow> string list" where
  "fuse_line opt = opt_list (opt_program opt) @ (if opt_debug opt then [''-d''] else []) @ (if opt_foreground opt then [''-f''] else [])
     @ (if opt_nonempty opt then [''-nonempty''] else []) @ (if opt_directio opt then [''-odirect_io''] else [])
     @ fuse_opts opt @ opt_list (opt_mountpoint opt)"

lemma count_fuse_opts:
  "length (filter (\<lambda>eopt. eo_fuse eopt \<and> eo_opt eopt \<noteq> None) (opt_extendedOpts opt)) = length (fuse_opts opt)"
proof -
  have "length (filter (\<lambda>eopt. eo_fuse eopt \<and> eo_opt eopt \<noteq> None) xs)
      = length (concat (map (\<lambda>eopt. if eo_fuse eopt then opt_list (eo_opt eopt) else []) xs))" for xs
    by (induction xs) auto
  then show ?thesis by (simp add: fuse_opts_def)
qed

lemma count_args_line: "count_args opt = length (fuse_line opt)"
  unfolding count_args_def count_fuse_opts fuse_line_def
  by (cases "opt_program opt"; cases "opt_mountpoint opt") auto

lemma put_args_append:
  "put_args e (as @ bs) x = put_args e as x \<bind> put_args e bs"
  by (induction as arbitrary: x) (auto split: bind_split)

lemma gen_alt:
  "iFuseGenCmdLineForFuse e s = (let (ok, l) = mem_ok e (cmd_lib s)
     in if \<not> ok then None
        else do { ((_, argv), s2) \<leftarrow> put_args e (fuse_line (g_Opt s)) ((0, replicate (count_args (g_Opt s)) None), s\<lparr>cmd_lib := l\<rparr>);
                  Some ((count_args (g_Opt s), argv), s2) })"
  unfolding iFuseGenCmdLineForFuse_def fuse_line_def put_args_append
  by (cases "mem_ok e (cmd_lib s)"; cases "fst (mem_ok e (cmd_lib s))") (simp_all add: Let_def Option.bind_assoc split del: if_split)

lemma gen_ok:
  assumes "mem_ok e (cmd_lib s) = (True, l)"
  shows "\<exists>argv s'. iFuseGenCmdLineForFuse e s = Some ((length argv, argv), s') \<and> length argv = count_args (g_Opt s)
    \<and> (calloc_ok e \<longrightarrow> argv = map Some (fuse_line (g_Opt s))) \<and> g_Opt s' = g_Opt s"
  using put_args_ok [of e "fuse_line (g_Opt s)" "[]" 0 "s\<lparr>cmd_lib := l\<rparr>"] assms
  by (auto simp: gen_alt count_args_line)

section \<open>A line with one long command\<close>

lemma not_option:
  assumes "take 1 a \<noteq> ''-''"
  shows "a \<noteq> ''-o''" "take 2 a \<noteq> ''--''" "take 2 a \<noteq> ''-o''" "a \<noteq> ''--''" "operand a"
  using assms by (cases a; auto simp: operand_def)+

lemma parse_args_value: "take 1 a \<noteq> ''-'' \<Longrightarrow> parse_args (a # args) i 0 arg = parse_args args (i + 1) 0 arg"
  using not_option [of a] by simp

lemma parse_args_command:
  "parse_args ((CHR ''-'' # CHR ''-'' # name) # args) i 0 arg =
     parse_args args (i + 1) (Suc 0) (arg\<lparr>arg_start := i, arg_command := strncpy_arg name, arg_end := i + 1\<rparr>)"
  by simp

lemma parse_args_last:
  "take 1 a \<noteq> ''-'' \<Longrightarrow> parse_args (a # args) i (Suc 0) arg = (2, arg\<lparr>arg_value := strncpy_arg a, arg_end := i + 1\<rparr>)"
  using not_option [of a] by simp

lemma Z_command: "apply_command e (arg\<lparr>arg_command := strncpy_arg ''Z''\<rparr>) s = Some (Some False, s)"
  by (simp add: apply_command_def flag_command_def number_command_def fuse_command_def cmd_is_def cmd_starts_def
      strncpy_arg_def c_string_def IFUSE_CMD_ARG_MAX_TOKEN_LEN_def zeros_def numeral_eq_Suc)


lemma mark_two: "mark_processed (arg\<lparr>arg_start := 1, arg_end := 3\<rparr>) (a # b # c # d) = Some (a # ''-Z'' # ''-Z'' # d)"
  by (simp add: mark_processed_def upt_rec)

text \<open>The rounds of the first loop on a line with one long command and its value.\<close>

definition command_arg :: "string \<Rightarrow> string \<Rightarrow> iFuseCmdArg" where
  "command_arg name v = \<lparr>arg_start = 1, arg_end = 3, arg_command = strncpy_arg name, arg_value = strncpy_arg v\<rparr>"

lemma parse_first:
  "take 1 prog \<noteq> ''-'' \<Longrightarrow> take 1 v \<noteq> ''-'' \<Longrightarrow>
     parseFuseCommandArg (prog # (''--'' @ name) # v # args) 0 = (2, command_arg name v)"
  by (simp add: parseFuseCommandArg_def command_arg_def zero_arg_def parse_args_value parse_args_command
      parse_args_last del: parse_args.simps(2))

lemma parse_Z:
  "parseFuseCommandArg [a, b, ''-Z''] 2 = (1, zero_arg\<lparr>arg_start := 2, arg_end := 3, arg_command := strncpy_arg ''Z''\<rparr>)"
  "take 1 m \<noteq> ''-'' \<Longrightarrow> parseFuseCommandArg [a, b, ''-Z'', m] 2
     = (2, zero_arg\<lparr>arg_start := 2, arg_end := 4, arg_value := strncpy_arg m, arg_command := strncpy_arg ''Z''\<rparr>)"
  using not_option [of m] by (simp_all add: parseFuseCommandArg_def numeral_eq_Suc)

lemma parse_commands_one:
  assumes "take 1 prog \<noteq> ''-''" and "take 1 v \<noteq> ''-''" and "apply_command e (command_arg name v) s = Some (Some True, s1)"
  shows "parse_commands e 0 [prog, ''--'' @ name, v] s = Some ((0, [prog, ''-Z'', ''-Z'']), s1)"
    and "take 1 m \<noteq> ''-'' \<Longrightarrow> parse_commands e 0 [prog, ''--'' @ name, v, m] s = Some ((0, [prog, ''-Z'', ''-Z'', m]), s1)"
proof -
  have mark: "mark_processed (command_arg name v) (a # b # c # d) = Some (a # ''-Z'' # ''-Z'' # d)" for a b c and d :: "string list"
    using mark_two [of "command_arg name v" a b c d] by (simp add: command_arg_def)
  have Z: "apply_command e (zero_arg\<lparr>arg_start := 2, arg_end := k, arg_value := x, arg_command := strncpy_arg ''Z''\<rparr>) s1 = Some (Some False, s1)" for k x
    by (rule Z_command)
  have Z': "apply_command e (zero_arg\<lparr>arg_start := 2, arg_end := k, arg_command := strncpy_arg ''Z''\<rparr>) s1 = Some (Some False, s1)" for k
    by (rule Z_command)
  have "parse_commands e 2 [prog, ''-Z'', ''-Z''] s1 = Some ((0, [prog, ''-Z'', ''-Z'']), s1)"
    by (subst parse_commands.simps, simp add: parse_Z(1) Z' del: parse_args.simps) (subst parse_commands.simps, simp)
  then show "parse_commands e 0 [prog, ''--'' @ name, v] s = Some ((0, [prog, ''-Z'', ''-Z'']), s1)"
    using parse_first [OF assms(1,2), of name "[]"] assms(3) mark by (subst parse_commands.simps) (simp add: numeral_2_eq_2)
  assume m: "take 1 m \<noteq> ''-''"
  have "parse_commands e 2 [prog, ''-Z'', ''-Z'', m] s1 = Some ((0, [prog, ''-Z'', ''-Z'', m]), s1)"
    by (subst parse_commands.simps, simp add: parse_Z(2) [OF m] Z del: parse_args.simps) (subst parse_commands.simps, simp)
  then show "parse_commands e 0 [prog, ''--'' @ name, v, m] s = Some ((0, [prog, ''-Z'', ''-Z'', m]), s1)"
    using parse_first [OF assms(1,2), of name "[m]"] assms(3) mark by (subst parse_commands.simps) (simp add: numeral_2_eq_2)
qed


lemma getopt_Z:
  "getopt [] [''-Z'', ''-Z''] = ([(CHR ''Z'', None), (CHR ''Z'', None)], [])"
  "take 1 m \<noteq> ''-'' \<Longrightarrow> getopt [] [''-Z'', ''-Z'', m] = ([(CHR ''Z'', None), (CHR ''Z'', None)], [m])"
  using not_option [of m] by (simp_all add: operand_def opt_args_def opt_flags_def)

lemma obey_Z: "obey_options e [(CHR ''Z'', None), (CHR ''Z'', None)] s = Some (0, s)"
  by (simp add: obey_option_def)

definition with_program :: "'w ext \<Rightarrow> string \<Rightarrow> 'w cmd_state \<Rightarrow> 'w cmd_state" where
  "with_program e prog s = (let (program, s1) = strdupC e prog s in set_opt (\<lambda>opt. opt\<lparr>opt_program := program\<rparr>) s1)"

lemma opts_parse_one:
  assumes "take 1 prog \<noteq> ''-''" and "take 1 v \<noteq> ''-''"
    and "apply_command e (command_arg name v) (with_program e prog s) = Some (Some True, s1)"
  shows "iFuseCmdOptsParse e [prog, ''--'' @ name, v] s = Some (0, s1)"
    and "take 1 m \<noteq> ''-'' \<Longrightarrow> m \<noteq> [] \<Longrightarrow> iFuseCmdOptsParse e [prog, ''--'' @ name, v, m] s
      = Some (0, let (x, s2) = strdupC e m s1 in set_opt (\<lambda>opt. opt\<lparr>opt_mountpoint := x\<rparr>) s2)"
proof -
  obtain p s0 where p: "strdupC e prog s = (p, s0)" by force
  note run = parse_commands_one [OF assms(1,2), of e name "with_program e prog s" s1, OF assms(3)]
  show "iFuseCmdOptsParse e [prog, ''--'' @ name, v] s = Some (0, s1)"
    using run(1) p by (simp add: iFuseCmdOptsParse_def with_program_def getopt_Z obey_Z del: getopt.simps obey_options.simps)
  assume "take 1 m \<noteq> ''-''" "m \<noteq> []"
  then show "iFuseCmdOptsParse e [prog, ''--'' @ name, v, m] s
      = Some (0, let (x, s2) = strdupC e m s1 in set_opt (\<lambda>opt. opt\<lparr>opt_mountpoint := x\<rparr>) s2)"
    using run(2) [of m] p
    by (simp add: iFuseCmdOptsParse_def with_program_def getopt_Z obey_Z del: getopt.simps obey_options.simps)
qed

text \<open>A string shorter than the array comes out as it went in.\<close>

lemma c_string_strncpy: "length v < 30 \<Longrightarrow> NUL \<notin> set v \<Longrightarrow> c_string (strncpy_arg v) = Some v"
proof -
  assume v: "length v < 30" "NUL \<notin> set v"
  then have "takeWhile (\<lambda>c. c \<noteq> NUL) (v @ replicate (30 - length v) NUL) = v"
    by (subst takeWhile_append2) (auto simp: takeWhile_replicate)
  then show ?thesis using v by (simp add: c_string_def strncpy_arg_def IFUSE_CMD_ARG_MAX_TOKEN_LEN_def zeros_def)
qed

section \<open>Parsing ends\<close>

text \<open>
  When the arguments fit into the arrays for a command and its value, both end with a \<open>NUL\<close>, and
  so every step of the two loops is defined.
\<close>

definition arg_ends :: "iFuseCmdArg \<Rightarrow> bool" where
  "arg_ends arg \<longleftrightarrow> NUL \<in> set (arg_command arg) \<and> NUL \<in> set (arg_value arg)"

lemma strncpy_ends: "length a < IFUSE_CMD_ARG_MAX_TOKEN_LEN \<Longrightarrow> NUL \<in> set (strncpy_arg a)"
  by (auto simp: strncpy_arg_def IFUSE_CMD_ARG_MAX_TOKEN_LEN_def zeros_def)

lemma parse_args_ends:
  assumes "parse_args args i tokens arg = (t, arg')" and "\<forall>a \<in> set args. length a < IFUSE_CMD_ARG_MAX_TOKEN_LEN"
    and "arg_ends arg" and "arg_end arg \<le> i"
  shows "arg_ends arg' \<and> arg_end arg' \<le> i + length args"
  using assms
  by (induction args i tokens arg rule: parse_args.induct)
     (auto simp: arg_ends_def strncpy_ends Let_def split: if_splits list.splits)

lemma apply_command_returns: "arg_ends arg \<Longrightarrow> \<exists>r s'. apply_command e arg s = Some (r, s')"
  by (auto simp: arg_ends_def apply_command_def c_string_def fuse_command_def Let_def split: option.split prod.split)

lemma mark_processed_short:
  assumes "arg_end arg \<le> length argv" and "\<forall>a \<in> set argv. length a < IFUSE_CMD_ARG_MAX_TOKEN_LEN"
  shows "\<exists>argv'. mark_processed arg argv = Some argv' \<and> length argv' = length argv
    \<and> (\<forall>a \<in> set argv'. length a < IFUSE_CMD_ARG_MAX_TOKEN_LEN)"
proof -
  have "(\<forall>a \<in> set v. length a < IFUSE_CMD_ARG_MAX_TOKEN_LEN)
      \<Longrightarrow> \<forall>a \<in> set (fold (\<lambda>j v. v[j := ''-Z'']) js v). length a < IFUSE_CMD_ARG_MAX_TOKEN_LEN" for js and v :: "string list"
  proof (induction js arbitrary: v)
    case (Cons j js)
    have "set (v[j := ''-Z'']) \<subseteq> insert ''-Z'' (set v)" by (rule set_update_subset_insert)
    then have "\<forall>a \<in> set (v[j := ''-Z'']). length a < IFUSE_CMD_ARG_MAX_TOKEN_LEN"
      using Cons.prems by (auto simp: IFUSE_CMD_ARG_MAX_TOKEN_LEN_def)
    from Cons.IH [OF this] show ?case by simp
  qed simp
  from this [OF assms(2), of "[arg_start arg..<arg_end arg]"] assms(1) show ?thesis
    using length_mark_processed [of arg argv "fold (\<lambda>j v. v[j := ''-Z'']) [arg_start arg..<arg_end arg] argv"]
    unfolding mark_processed_def by simp
qed

lemma parse_commands_returns:
  assumes "\<forall>a \<in> set argv. length a < IFUSE_CMD_ARG_MAX_TOKEN_LEN"
  shows "\<exists>st argv' s'. parse_commands e i argv s = Some ((st, argv'), s') \<and> (st = 0 \<or> st = 1)
    \<and> length argv' = length argv \<and> (\<forall>a \<in> set argv'. length a < IFUSE_CMD_ARG_MAX_TOKEN_LEN)"
  using assms
proof (induction e i argv s rule: parse_commands.induct)
  case (1 e i argv s)
  obtain t arg where p: "parseFuseCommandArg argv i = (t, arg)" by force
  show ?case
  proof (cases "i < length argv \<and> 0 < t")
    case True
    have "arg_ends zero_arg" "arg_end zero_arg \<le> i"
      by (simp_all add: arg_ends_def zero_arg_def zeros_def IFUSE_CMD_ARG_MAX_TOKEN_LEN_def)
    with parse_args_ends [OF p [unfolded parseFuseCommandArg_def]] 1(3) True
    have arg: "arg_ends arg" "arg_end arg \<le> length argv" by (auto dest: in_set_dropD)
    from apply_command_returns [OF arg(1)] obtain r s1 where a: "apply_command e arg s = Some (r, s1)" by blast
    from mark_processed_short [OF arg(2) 1(3)] obtain argv1 where m: "mark_processed arg argv = Some argv1"
      "length argv1 = length argv" "\<forall>a \<in> set argv1. length a < IFUSE_CMD_ARG_MAX_TOKEN_LEN" by blast
    show ?thesis
    proof (cases r)
      case None
      then show ?thesis using True p a 1(3) by (subst parse_commands.simps) simp
    next
      case (Some b)
      show ?thesis
      proof (cases b)
        case t: True
        from 1(1) [OF _ p [symmetric] refl _ a refl _ _ m(1)] True Some t m
        show ?thesis using p a by (subst parse_commands.simps) simp
      next
        case False
        from 1(2) [OF _ p [symmetric] refl _ a refl] True Some False 1(3)
        show ?thesis using p a by (subst parse_commands.simps) simp
      qed
    qed
  next
    case False
    then show ?thesis using p 1(3) by (subst parse_commands.simps) auto
  qed
qed

lemma getopt_short:
  assumes "getopt cs args = (opts, ops)" and "length cs < IFUSE_CMD_ARG_MAX_TOKEN_LEN"
    and "\<forall>a \<in> set args. length a < IFUSE_CMD_ARG_MAX_TOKEN_LEN" and "(c, Some x) \<in> set opts"
  shows "length x < IFUSE_CMD_ARG_MAX_TOKEN_LEN"
  using assms
  by (induction cs args arbitrary: opts ops rule: getopt.induct)
     (auto simp: Let_def split: if_splits list.splits prod.splits)

lemma obey_options_returns:
  assumes "calloc_ok e" and "IFUSE_CMD_ARG_MAX_TOKEN_LEN + 2 \<le> MAX_NAME_LEN e"
    and "\<forall>c x. (c, Some x) \<in> set opts \<longrightarrow> length x < IFUSE_CMD_ARG_MAX_TOKEN_LEN"
  shows "\<exists>st s'. obey_options e opts s = Some (st, s') \<and> (st = 0 \<or> st = 1)"
  using assms(3)
proof (induction opts arbitrary: s)
  case (Cons opt opts)
  have add: "\<exists>s'. iFuseCmdOptsAdd e str s = Some s'" for str s
    using mem_ok_True [OF assms(1), of "cmd_lib s"]
    by (auto simp: iFuseCmdOptsAdd_def newExtendedOpt_def Let_def split: prod.split)
  have "\<exists>st s'. obey_option e opt s = Some (st, s') \<and> (st = 0 \<or> st = 1)"
  proof (cases opt)
    case (Pair c optarg)
    show ?thesis
    proof (cases optarg)
      case (Some x)
      have "length x + 3 \<le> MAX_NAME_LEN e" using Cons.prems assms(2) Pair Some by fastforce
      moreover obtain s' where "iFuseCmdOptsAdd e (''-o'' @ x) s = Some s'" using add by blast
      ultimately show ?thesis by (simp add: obey_option_def Pair Some)
    qed (simp add: obey_option_def Pair)
  qed
  then obtain st s' where "obey_option e opt s = Some (st, s')" "st = 0 \<or> st = 1" by blast
  with Cons.IH [of s'] Cons.prems show ?case by auto
qed simp

end
