(* ===== verification/IFuse_Oper.thy ===== *)
theory IFuse_Oper
  imports IFuse_Preload IFuse_System
begin

text \<open>
  \<open>iFuseOper.cpp\<close>: the operations FUSE calls. Each turns the path into an iRODS path, hands the
  work to the layer the options select, and maps the errors. A file handle is the address in
  \<open>fi->fh\<close>, 0 being \<open>None\<close>. The state is that of the whole mounted program.
\<close>

definition onFsP :: "('w fs_state \<Rightarrow> ('r \<times> 'w fs_state) option) \<Rightarrow> 'w preload_state \<Rightarrow> ('r \<times> 'w preload_state) option" where
  "onFsP f = onBuf (onFs f)"

abbreviation mounted_lib :: "'w preload_state \<Rightarrow> 'w lib_state" where
  "mounted_lib s \<equiv> get_lib (bfs (bufs s))"

definition set_mounted_lib :: "'w lib_state \<Rightarrow> 'w preload_state \<Rightarrow> 'w preload_state" where
  "set_mounted_lib l s = s\<lparr>bufs := (bufs s)\<lparr>bfs := put_lib l (bfs (bufs s))\<rparr>\<rparr>"

text \<open>
  The beginning of the handlers: a path that is not valid gives \<open>-ENOTDIR\<close>, before anything
  else is done.
\<close>

definition with_path ::
    "'w ext \<Rightarrow> string \<Rightarrow> (int \<Rightarrow> 'r) \<Rightarrow> (string \<Rightarrow> 'w preload_state \<Rightarrow> ('r \<times> 'w preload_state) option) \<Rightarrow> 'w preload_state
       \<Rightarrow> ('r \<times> 'w preload_state) option" where
  "with_path e path err f s =
     (let (status, iRodsPath) = iFuseRodsClientMakeRodsPath e path (rcs (conns (fds (bfs (bufs s)))))
      in if status < 0 then Some (err (- ENOTDIR), s) else f iRodsPath s)"

text \<open>\<open>assert(fi->fh != 0)\<close> and \<open>assert(iFuseFd->fd > 0)\<close>: the descriptor behind a handle.\<close>

definition open_handle :: "nat option \<Rightarrow> 'w preload_state \<Rightarrow> nat option" where
  "open_handle fh s =
     do { p \<leftarrow> fh; d \<leftarrow> fd_heap (fds (bfs (bufs s))) p; if fd_fd d > 0 then Some p else None }"

section \<open>Starting and stopping\<close>

text \<open>The capabilities wanted from FUSE: the two flags, where the kernel offers them.\<close>

definition wanted_caps :: "32 word \<Rightarrow> 32 word \<Rightarrow> 32 word \<Rightarrow> 32 word \<Rightarrow> 32 word" where
  "wanted_caps big_writes ioctl_dir capable want =
     (let want1 = (if and capable big_writes \<noteq> 0 then or want big_writes else want)
      in if and capable ioctl_dir \<noteq> 0 then or want1 ioctl_dir else want1)"

definition iFuseInit :: "'w ext \<Rightarrow> 'w preload_state \<Rightarrow> 'w preload_state option" where
  "iFuseInit e s =
     (let s1 = set_mounted_lib (iFuseLibInitTimerThread (mounted_lib s)) s;
          (status, iRodsPath) = iFuseRodsClientMakeRodsPath e ''/'' (rcs (conns (fds (bfs (bufs s1)))))
      in if status < 0 then Some s1
         else do { (_, s2) \<leftarrow> onFsP (iFuseFsCacheDir e iRodsPath) s1; Some s2 })"

definition iFuseDestroy :: "'w preload_state \<Rightarrow> 'w preload_state" where
  "iFuseDestroy s = set_mounted_lib (iFuseLibTerminateTimerThread (mounted_lib s)) s"

section \<open>Attributes\<close>

definition iFuseGetAttr ::
    "'w ext \<Rightarrow> string \<Rightarrow> 'w preload_state \<Rightarrow> ((int \<times> stat option) \<times> 'w preload_state) option" where
  "iFuseGetAttr e path s =
     with_path e path (\<lambda>err. (err, None))
       (\<lambda>iRodsPath. if opt_bufferedFS (iFuseLibGetOption (mounted_lib s))
                    then onBuf (iFuseBufferedFsGetAttr e iRodsPath)
                    else onFsP (iFuseFsGetAttr e iRodsPath)) s"

definition iFuseChmod :: "'w ext \<Rightarrow> string \<Rightarrow> 32 word \<Rightarrow> 'w preload_state \<Rightarrow> (int \<times> 'w preload_state) option" where
  "iFuseChmod e path mode =
     with_path e path id
       (\<lambda>iRodsPath s. do { (status, s1) \<leftarrow> onFsP (iFuseFsChmod e iRodsPath mode) s;
                           Some (if status < 0 then status else 0, s1) })"

text \<open>Not supported, and reported as done.\<close>

definition iFuseLink :: "string \<Rightarrow> string \<Rightarrow> int" where
  "iFuseLink from_path to_path = 0"

definition iFuseChown :: "string \<Rightarrow> 32 word \<Rightarrow> 32 word \<Rightarrow> int" where
  "iFuseChown path uid gid = 0"

definition iFuseUtimens :: "string \<Rightarrow> int \<times> int \<Rightarrow> int" where
  "iFuseUtimens path ts = 0"

text \<open>\<open>struct statvfs\<close>; the fields not named by the code keep what \<open>statvfs\<close> of the root gave.\<close>

record statvfs =
  f_bsize :: int
  f_frsize :: int
  f_blocks :: int
  f_bfree :: int
  f_bavail :: int
  f_files :: int
  f_ffree :: int
  f_favail :: int
  f_fsid :: int
  f_flag :: int
  f_namemax :: int

definition iFuseStatfs :: "'w ext \<Rightarrow> statvfs \<Rightarrow> statvfs option \<Rightarrow> int \<times> statvfs option" where
  "iFuseStatfs e root stbuf =
     (case stbuf of
        None \<Rightarrow> (0, None)
      | Some _ \<Rightarrow> (0, Some (root\<lparr>f_bsize := FILE_BLOCK_SIZE, f_blocks := 2000000000, f_bfree := 1000000000,
                    f_bavail := 1000000000, f_files := 200000000, f_ffree := 100000000, f_favail := 100000000,
                    f_fsid := 777, f_namemax := int (MAX_NAME_LEN e)\<rparr>)))"

section \<open>Files\<close>

definition iFuseOpen ::
    "'w ext \<Rightarrow> string \<Rightarrow> flags \<Rightarrow> 'w preload_state \<Rightarrow> ((int \<times> nat option) \<times> 'w preload_state) option" where
  "iFuseOpen e path flag =
     with_path e path (\<lambda>err. (err, None))
       (\<lambda>iRodsPath s.
          do { let opt = iFuseLibGetOption (mounted_lib s);
               ((status, fd), s1) \<leftarrow>
                 (if opt_bufferedFS opt
                  then if opt_preload opt then iFusePreloadOpen e iRodsPath flag s
                       else onBuf (iFuseBufferedFsOpen e iRodsPath flag) s
                  else onFsP (iFuseFsOpen e iRodsPath flag) s);
               Some (if status < 0 then (- ENOENT, None) else (0, fd), s1) })"

definition iFuseClose :: "'w ext \<Rightarrow> string \<Rightarrow> nat option \<Rightarrow> 'w preload_state \<Rightarrow> (int \<times> 'w preload_state) option" where
  "iFuseClose e path fh s =
     do { p \<leftarrow> open_handle fh s;
          with_path e path id
            (\<lambda>_ s. do { let opt = iFuseLibGetOption (mounted_lib s);
                        (status, s1) \<leftarrow>
                          (if opt_bufferedFS opt
                           then if opt_preload opt then iFusePreloadClose e p s
                                else onBuf (iFuseBufferedFsClose e p) s
                           else onFsP (iFuseFsClose e p) s);
                        Some (if status < 0 then - ENOENT else 0, s1) }) s }"

definition iFuseFlush :: "'w ext \<Rightarrow> string \<Rightarrow> nat option \<Rightarrow> 'w preload_state \<Rightarrow> (int \<times> 'w preload_state) option" where
  "iFuseFlush e path fh s =
     do { p \<leftarrow> open_handle fh s;
          with_path e path id
            (\<lambda>_ s. do { (status, s1) \<leftarrow> (if opt_bufferedFS (iFuseLibGetOption (mounted_lib s))
                                         then onBuf (iFuseBufferedFsFlush e p) s else onFsP (iFuseFsFlush e p) s);
                        Some (if status < 0 then - ENOENT else status, s1) }) s }"

text \<open>\<open>fsync\<close> is the same code as \<open>flush\<close>, whatever \<open>isdatasync\<close> says.\<close>

definition iFuseFsync ::
    "'w ext \<Rightarrow> string \<Rightarrow> int \<Rightarrow> nat option \<Rightarrow> 'w preload_state \<Rightarrow> (int \<times> 'w preload_state) option" where
  "iFuseFsync e path isdatasync fh s =
     do { p \<leftarrow> open_handle fh s;
          with_path e path id
            (\<lambda>_ s. do { (status, s1) \<leftarrow> (if opt_bufferedFS (iFuseLibGetOption (mounted_lib s))
                                         then onBuf (iFuseBufferedFsFlush e p) s else onFsP (iFuseFsFlush e p) s);
                        Some (if status < 0 then - ENOENT else status, s1) }) s }"

definition iFuseRead ::
    "'w ext \<Rightarrow> string \<Rightarrow> nat \<Rightarrow> int \<Rightarrow> nat option \<Rightarrow> 'w preload_state \<Rightarrow> ((int \<times> bytes) \<times> 'w preload_state) option" where
  "iFuseRead e path sz offset fh s =
     (if \<not> (sz > 0 \<and> offset \<ge> 0) then None
      else do { p \<leftarrow> open_handle fh s;
                with_path e path (\<lambda>err. (err, []))
                  (\<lambda>_ s. do { let opt = iFuseLibGetOption (mounted_lib s);
                              ((status, buf), s1) \<leftarrow>
                                (if opt_bufferedFS opt
                                 then if opt_preload opt then iFusePreloadRead e p offset sz s
                                      else onBuf (iFuseBufferedFsRead e p offset sz) s
                                 else onFsP (iFuseFsRead e p offset sz) s);
                              Some ((if status < 0 then - ENOENT else status, buf), s1) }) s })"

definition iFuseWrite ::
    "'w ext \<Rightarrow> string \<Rightarrow> bytes \<Rightarrow> int \<Rightarrow> nat option \<Rightarrow> 'w preload_state \<Rightarrow> (int \<times> 'w preload_state) option" where
  "iFuseWrite e path buf offset fh s =
     do { p \<leftarrow> open_handle fh s;
          with_path e path id
            (\<lambda>_ s. do { (status, s1) \<leftarrow> (if opt_bufferedFS (iFuseLibGetOption (mounted_lib s))
                                         then onBuf (iFuseBufferedFsWrite e p buf offset) s
                                         else onFsP (iFuseFsWrite e p buf offset) s);
                        Some (if status < 0 then - ENOENT else status, s1) }) s }"

definition iFuseCreate :: "'w ext \<Rightarrow> string \<Rightarrow> 32 word \<Rightarrow> 'w preload_state \<Rightarrow> (int \<times> 'w preload_state) option" where
  "iFuseCreate e path mode =
     with_path e path id
       (\<lambda>iRodsPath s. do { (status, s1) \<leftarrow> onFsP (iFuseFsCreate e iRodsPath mode) s;
                           Some (if status < 0 then - ENOENT else 0, s1) })"

definition iFuseUnlink :: "'w ext \<Rightarrow> string \<Rightarrow> 'w preload_state \<Rightarrow> (int \<times> 'w preload_state) option" where
  "iFuseUnlink e path =
     with_path e path id
       (\<lambda>iRodsPath s. do { (status, s1) \<leftarrow> onFsP (iFuseFsUnlink e iRodsPath) s;
                           Some (if status < 0 then status else 0, s1) })"

definition iFuseTruncate :: "'w ext \<Rightarrow> string \<Rightarrow> int \<Rightarrow> 'w preload_state \<Rightarrow> (int \<times> 'w preload_state) option" where
  "iFuseTruncate e path sz =
     with_path e path id
       (\<lambda>iRodsPath s. do { (status, s1) \<leftarrow> onFsP (iFuseFsTruncate e iRodsPath sz) s;
                           Some (if status < 0 then status else 0, s1) })"

text \<open>A file of the new name, if its attributes can be had, is deleted before the renaming.\<close>

definition iFuseRename :: "'w ext \<Rightarrow> string \<Rightarrow> string \<Rightarrow> 'w preload_state \<Rightarrow> (int \<times> 'w preload_state) option" where
  "iFuseRename e from_path to_path =
     with_path e from_path id (\<lambda>iRodsFromPath. with_path e to_path id (\<lambda>iRodsToPath s.
       do { ((status, _), s1) \<leftarrow> onFsP (iFuseFsGetAttr e iRodsToPath) s;
            (status, s2) \<leftarrow> (if status \<ge> 0 then onFsP (iFuseFsUnlink e iRodsToPath) s1 else Some (0, s1));
            if status < 0 then Some (status, s2)
            else do { (status, s3) \<leftarrow> onFsP (iFuseFsRename e iRodsFromPath iRodsToPath) s2;
                      Some (if status < 0 then status else 0, s3) } }))"

section \<open>Directories\<close>

definition iFuseOpenDir ::
    "'w ext \<Rightarrow> string \<Rightarrow> 'w preload_state \<Rightarrow> ((int \<times> nat option) \<times> 'w preload_state) option" where
  "iFuseOpenDir e path =
     with_path e path (\<lambda>err. (err, None))
       (\<lambda>iRodsPath s. do { ((status, dir), s1) \<leftarrow> onFsP (iFuseFsOpenDir e iRodsPath) s;
                           Some (if status < 0 then (status, None) else (0, dir), s1) })"

definition iFuseCloseDir :: "'w ext \<Rightarrow> string \<Rightarrow> nat option \<Rightarrow> 'w preload_state \<Rightarrow> (int \<times> 'w preload_state) option" where
  "iFuseCloseDir e path fh s =
     do { p \<leftarrow> fh;
          with_path e path id
            (\<lambda>_ s. do { (status, s1) \<leftarrow> onFsP (iFuseFsCloseDir e p) s;
                        Some (if status < 0 then - ENOENT else 0, s1) }) s }"

text \<open>The result is the status and the names given to the filler.\<close>

definition iFuseReadDir ::
    "'w ext \<Rightarrow> string \<Rightarrow> nat option \<Rightarrow> 'w preload_state \<Rightarrow> ((int \<times> string list) \<times> 'w preload_state) option" where
  "iFuseReadDir e path fh s =
     do { p \<leftarrow> fh;
          with_path e path (\<lambda>err. (err, []))
            (\<lambda>_ s. do { ((status, names), s1) \<leftarrow> onFsP (iFuseFsReadDir e p) s;
                        Some ((if status < 0 then status else 0, [''.'', ''..''] @ names), s1) }) s }"

definition iFuseMakeDir :: "'w ext \<Rightarrow> string \<Rightarrow> 32 word \<Rightarrow> 'w preload_state \<Rightarrow> (int \<times> 'w preload_state) option" where
  "iFuseMakeDir e path mode =
     with_path e path id
       (\<lambda>iRodsPath s.
          do { ((status, _), s1) \<leftarrow> onFsP (iFuseFsGetAttr e iRodsPath) s;
               if status \<ge> 0 then Some (- EEXIST, s1)
               else do { (status, s2) \<leftarrow> onFsP (iFuseFsMakeDir e iRodsPath) s1;
                         Some (if status < 0 then - ENOENT else 0, s2) } })"

definition iFuseRemoveDir :: "'w ext \<Rightarrow> string \<Rightarrow> 'w preload_state \<Rightarrow> (int \<times> 'w preload_state) option" where
  "iFuseRemoveDir e path =
     with_path e path id
       (\<lambda>iRodsPath s. do { (status, s1) \<leftarrow> onFsP (iFuseFsRemoveDir e iRodsPath) s;
                           Some (if status < 0 then status else 0, s1) })"

section \<open>Symbolic links\<close>

definition S_IFLNK :: "32 word" where "S_IFLNK = 0xA000"

text \<open>
  A link is a data object that holds the path it leads to. First make sure that there is an
  empty object: truncate it, or create it when it does not exist; another error is passed over.
\<close>

definition empty_object :: "'w ext \<Rightarrow> string \<Rightarrow> 'w preload_state \<Rightarrow> (int \<times> 'w preload_state) option" where
  "empty_object e iRodsFromPath s =
     do { ((status, _), s1) \<leftarrow> onFsP (iFuseFsGetAttr e iRodsFromPath) s;
          if status \<ge> 0
          then do { (status, s2) \<leftarrow> onFsP (iFuseFsTruncate e iRodsFromPath 0) s1;
                    Some (if status < 0 then status else 0, s2) }
          else if status = - ENOENT
          then do { (status, s2) \<leftarrow> onFsP (iFuseFsCreate e iRodsFromPath S_IFLNK) s1;
                    Some (if status < 0 then - ENOENT else 0, s2) }
          else Some (0, s1) }"

text \<open>Then open it, work on it, and close it, also when the work failed.\<close>

definition open_work_close ::
    "'w ext \<Rightarrow> string \<Rightarrow> flags \<Rightarrow> (nat \<Rightarrow> 'w preload_state \<Rightarrow> ((int \<times> 'r) \<times> 'w preload_state) option) \<Rightarrow> 'w preload_state
       \<Rightarrow> ((int \<times> 'r option) \<times> 'w preload_state) option" where
  "open_work_close e iRodsPath flag work s =
     do { ((status, fd), s1) \<leftarrow> onFsP (iFuseFsOpen e iRodsPath flag) s;
          if status < 0 then Some ((- ENOENT, None), s1)
          else do {
            p \<leftarrow> fd;
            ((status, x), s2) \<leftarrow> work p s1;
            (closed, s3) \<leftarrow> onFsP (iFuseFsClose e p) s2;
            Some (if status < 0 then (- ENOENT, None) else if closed < 0 then (- ENOENT, Some x) else (0, Some x), s3) } }"

definition iFuseSymlink :: "'w ext \<Rightarrow> string \<Rightarrow> string \<Rightarrow> 'w preload_state \<Rightarrow> (int \<times> 'w preload_state) option" where
  "iFuseSymlink e to_path from_path =
     with_path e from_path id (\<lambda>iRodsFromPath. with_path e to_path id (\<lambda>iRodsToPath s.
       do { (status, s1) \<leftarrow> empty_object e iRodsFromPath s;
            if status < 0 then Some (status, s1)
            else do { ((status, _), s2) \<leftarrow> open_work_close e iRodsFromPath O_WRONLY
                        (\<lambda>p s. do { (status, s1) \<leftarrow> onFsP (iFuseFsWrite e p iRodsToPath 0) s; Some ((status, ()), s1) }) s1;
                      Some (status, s2) } }))"

text \<open>
  The buffer has \<open>sz\<close> bytes; \<open>size - 1\<close> is unsigned, and the terminator is written behind what
  was read.
\<close>

definition iFuseReadLink ::
    "'w ext \<Rightarrow> string \<Rightarrow> nat \<Rightarrow> 'w preload_state \<Rightarrow> ((int \<times> bytes option) \<times> 'w preload_state) option" where
  "iFuseReadLink e path sz =
     with_path e path (\<lambda>err. (err, None))
       (\<lambda>iRodsPath. open_work_close e iRodsPath O_RDONLY
          (\<lambda>p s. do { ((status, dat), s1) \<leftarrow> onFsP (iFuseFsRead e p 0 (size_t (int sz - 1))) s;
                      if status < 0 then Some ((status, []), s1)
                      else if nat status < sz then Some ((status, dat @ [NUL]), s1) else None }))"

section \<open>Requests\<close>

definition iFuseIoctl ::
    "'w ext \<Rightarrow> string \<Rightarrow> ioctlCmd \<Rightarrow> 'w preload_state \<Rightarrow> ((int \<times> iFuseFsConnReport option) \<times> 'w preload_state) option" where
  "iFuseIoctl e path cmd =
     with_path e path (\<lambda>err. (err, None))
       (\<lambda>_ s. do { ((status, report), s1) \<leftarrow> onFsP (\<lambda>t. Some (iFuseFsIoctl e cmd t)) s;
                   Some ((if status < 0 then status else 0, report), s1) })"

end
