(* ===== verification/IFuse_Main.thy ===== *)
theory IFuse_Main
  imports IFuse_CmdLineOpt IFuse_Oper IFuse_Util
begin

text \<open>
  \<open>irodsFs.cpp\<close>: the start of the program. What it asks of the system is the record \<open>'w sys\<close>, a
  parameter like the iRODS library: the environment, the directory tree, the iRODS environment
  and \<open>fuse_main\<close>, which runs the operations on the mounted program until it is unmounted and
  whose answer is its status and the state it leaves. What is printed is not modelled.
\<close>

record 'w sys =
  getRodsEnv :: "int \<times> rodsEnv"
  c_getenv :: "string \<Rightarrow> string option"
  c_getcwd :: "string option"
  c_realpath :: "string \<Rightarrow> string option"
  c_opendir :: "string \<Rightarrow> string list option"
  fuse_main :: "nat \<Rightarrow> string option list \<Rightarrow> 'w preload_state \<Rightarrow> (int \<times> 'w preload_state) option"

text \<open>The absolute path of the mount point; a NULL one is not resolved.\<close>

definition absMountPath :: "'w ext \<Rightarrow> 'w sys \<Rightarrow> string \<Rightarrow> 'w cmd_state \<Rightarrow> (string option option \<times> 'w cmd_state) option" where
  "absMountPath e sys mountPoint s =
     (if take 1 mountPoint = ''/''
      then let (p, s1) = strdupC e mountPoint s in Some (Some p, s1)
      else (case c_getcwd sys of
              None \<Rightarrow> Some (None, s)
            | Some cwd \<Rightarrow>
                let (ok, l) = mem_ok e (cmd_lib s); s1 = s\<lparr>cmd_lib := l\<rparr>
                in if \<not> ok \<or> cwd = [] then None
                   else Some (Some (Some (cwd @ (if last cwd \<noteq> CHR ''/'' then ''/'' else []) @ mountPoint)), s1)))"

definition checkMountPoint ::
    "'w ext \<Rightarrow> 'w sys \<Rightarrow> string option \<Rightarrow> bool \<Rightarrow> 'w cmd_state \<Rightarrow> (int \<times> 'w cmd_state) option" where
  "checkMountPoint e sys mountPoint nonempty s =
     (case mountPoint of
        None \<Rightarrow> Some (- 1, s)
      | Some m \<Rightarrow>
          if length m = 0 then Some (- 1, s)
          else do { (path, s1) \<leftarrow> absMountPath e sys m s;
                    (case path of
                       None \<Rightarrow> Some (- 1, s1)
                     | Some p \<Rightarrow>
                         (case p of
                            None \<Rightarrow> Some (- 1, s1)
                          | Some absPath \<Rightarrow>
                              (case c_realpath sys absPath of
                                 None \<Rightarrow> Some (- 1, s1)
                               | Some resolved \<Rightarrow>
                                   (case c_opendir sys resolved of
                                      None \<Rightarrow> Some (- 1, s1)
                                    | Some entries \<Rightarrow>
                                        Some (if \<not> nonempty \<and> (\<exists>d \<in> set entries. d \<noteq> ''.'' \<and> d \<noteq> ''..'') then - 1 else 0, s1))))) })"

text \<open>The name put into the environment for the server, if there is one.\<close>

definition registerClientProgram :: "'w ext \<Rightarrow> string \<Rightarrow> string option" where
  "registerClientProgram e prog =
     (case iFuseLibGetFilename e prog (MAX_NAME_LEN e) of
        (_, None) \<Rightarrow> None
      | (_, Some filename) \<Rightarrow> if length filename \<noteq> 0 then Some filename else None)"

text \<open>Starting and stopping the layers.\<close>

definition init_layers :: "'w lib_state \<Rightarrow> 'w preload_state" where
  "init_layers l =
     (let t = iFuseFsInit (iFuseLibInit (fs_start l));
          b = iFuseBufferedFSInit (buf_start t)
      in iFusePreloadInit (preload_start b))"

definition destroy_layers :: "'w ext \<Rightarrow> 'w preload_state \<Rightarrow> 'w preload_state option" where
  "destroy_layers e s =
     do { s1 \<leftarrow> iFusePreloadDestroy e s;
          let b = iFuseBufferedFSDestroy (bufs s1);
          t \<leftarrow> iFuseLibDestroy e (bfs b);
          Some (s1\<lparr>bufs := b\<lparr>bfs := t\<rparr>\<rparr>) }"

text \<open>The working directory from the options, when it fits.\<close>

definition set_workdir :: "'w ext \<Rightarrow> string option \<Rightarrow> rodsEnv \<Rightarrow> rodsEnv" where
  "set_workdir e workdir env =
     (case workdir of
        None \<Rightarrow> env
      | Some w \<Rightarrow> if length w < MAX_NAME_LEN e then env\<lparr>rodsCwd := w\<rparr> else env)"

text \<open>
  From the connection test on: the exit code and the state at the end. The command line is
  made with the options that were parsed, after the layers are up.
\<close>

definition mount_and_serve ::
    "'w ext \<Rightarrow> 'w sys \<Rightarrow> 'w cmd_state \<Rightarrow> 'w preload_state \<Rightarrow> (int \<times> 'w preload_state) option" where
  "mount_and_serve e sys s m =
     do { (status, m1) \<leftarrow> onFsP (onC (iFuseConnTest e)) m;
          if status \<noteq> 0
          then do { m2 \<leftarrow> destroy_layers e m1; Some (1, m2) }
          else do {
            ((argc, argv), s1) \<leftarrow> iFuseGenCmdLineForFuse e (s\<lparr>cmd_lib := mounted_lib m1\<rparr>);
            let m2 = set_mounted_lib (cmd_lib s1) m1;
            (status, m3) \<leftarrow> fuse_main sys argc argv m2;
            _ \<leftarrow> iFuseReleaseCmdLineForFuse argc argv;
            m4 \<leftarrow> destroy_layers e m3;
            Some (if status < 0 then 1 else 0, m4) } }"

text \<open>
  The whole of \<open>main\<close>: the exit code, the name registered for the server and, when the layers
  were started, the state they end in.
\<close>

definition main_program ::
    "'w ext \<Rightarrow> 'w sys \<Rightarrow> string list \<Rightarrow> 'w cmd_state \<Rightarrow> (int \<times> string option \<times> 'w preload_state option) option" where
  "main_program e sys argv s =
     (let (status, env) = getRodsEnv sys
      in if status < 0 then Some (1, None, None)
         else do {
           (status, s1) \<leftarrow> iFuseCmdOptsParse e argv (iFuseCmdOptsInit (c_getenv sys) s);
           if status \<noteq> 0 then Some (1, None, None)
           else do {
             let opt = iFuseGetOption s1;
             if opt_help opt \<or> opt_version opt then Some (0, None, None)
             else do {
               (status, s2) \<leftarrow> checkMountPoint e sys (opt_mountpoint opt) (opt_nonempty opt) s1;
               if status \<noteq> 0 then Some (1, None, None)
               else do {
                 let env1 = set_workdir e (opt_workdir opt) env;
                 let sp = registerClientProgram e (hd argv);
                 let l = iFuseLibSetOption opt (iFuseLibSetRodsEnv env1 (cmd_lib s2));
                 (code, m) \<leftarrow> mount_and_serve e sys s2 (init_layers l);
                 Some (code, sp, Some m) } } } })"

end
