(* ===== verification/Cmd_Correct.thy ===== *)
theory Cmd_Correct
  imports IFuse_Main
begin

text \<open>The properties of the command line and of the start of the program.\<close>

text \<open>
  C27: the command line for FUSE: the array has as many places as arguments were counted, it is
  never written past its end, and, when there is memory, it holds exactly the program, the
  flags, the FUSE options and the mount point, in this order and without a gap. Releasing it
  stays in the array.
\<close>

theorem fuse_line_exact:
  assumes "calloc_ok e"
  shows "\<exists>s'. iFuseGenCmdLineForFuse e s = Some ((length (fuse_line (g_Opt s)), map Some (fuse_line (g_Opt s))), s')
    \<and> g_Opt s' = g_Opt s
    \<and> iFuseReleaseCmdLineForFuse (length (fuse_line (g_Opt s))) (map Some (fuse_line (g_Opt s))) = Some ()"
proof -
  obtain l where "mem_ok e (cmd_lib s) = (True, l)" using mem_ok_True [OF assms] by (metis prod.collapse)
  from gen_ok [OF this] assms show ?thesis by (auto simp: iFuseReleaseCmdLineForFuse_def count_args_line)
qed

definition demo_cmd :: "demo cmd_state" where
  "demo_cmd = \<lparr>cmd_lib = demo_lib True 10 [], g_Opt = default_opt\<rparr>"

theorem fuse_line_exact_witness:
  "\<exists>s'. iFuseGenCmdLineForFuse demo_ext (set_opt (\<lambda>opt. opt\<lparr>opt_program := Some ''irodsFs'', opt_mountpoint := Some ''/mnt''\<rparr>) demo_cmd)
     = Some ((3, map Some [''irodsFs'', ''-odirect_io'', ''/mnt'']), s')"
  using fuse_line_exact [OF demo_calloc, of "set_opt (\<lambda>opt. opt\<lparr>opt_program := Some ''irodsFs'', opt_mountpoint := Some ''/mnt''\<rparr>) demo_cmd"]
  by (auto simp: fuse_line_def set_opt_def demo_cmd_def default_opt_def zero_opt_def fuse_opts_def)

lemma number_commands:
  "number_command (strncpy_arg ''maxconn'') = Some (\<lambda>n opt. opt\<lparr>opt_maxConn := n\<rparr>)"
  "number_command (strncpy_arg ''blocksize'') = Some (\<lambda>n opt. opt\<lparr>opt_blocksize := n\<rparr>)"
  "number_command (strncpy_arg ''conntimeout'') = Some (\<lambda>n opt. opt\<lparr>opt_connTimeoutSec := n\<rparr>)"
  "number_command (strncpy_arg ''connkeepalive'') = Some (\<lambda>n opt. opt\<lparr>opt_connKeepAliveSec := n\<rparr>)"
  "number_command (strncpy_arg ''conncheckinterval'') = Some (\<lambda>n opt. opt\<lparr>opt_connCheckIntervalSec := n\<rparr>)"
  "number_command (strncpy_arg ''apitimeout'') = Some (\<lambda>n opt. opt\<lparr>opt_rodsapiTimeoutSec := n\<rparr>)"
  "number_command (strncpy_arg ''preloadblocks'') = Some (\<lambda>n opt. opt\<lparr>opt_preloadNumBlocks := n\<rparr>)"
  "number_command (strncpy_arg ''metadatacachetimeout'') = Some (\<lambda>n opt. opt\<lparr>opt_metadataCacheTimeoutSec := n\<rparr>)"
  by (simp_all add: number_command_def cmd_is_def strncpy_arg_def IFUSE_CMD_ARG_MAX_TOKEN_LEN_def zeros_def)

lemma number_commands_no_flag:
  "name \<in> {''maxconn'', ''blocksize'', ''conntimeout'', ''connkeepalive'', ''conncheckinterval'', ''apitimeout'',
     ''preloadblocks'', ''metadatacachetimeout''} \<Longrightarrow> flag_command (strncpy_arg name) = None"
  by (elim insertE emptyE; simp add: flag_command_def cmd_is_def strncpy_arg_def IFUSE_CMD_ARG_MAX_TOKEN_LEN_def zeros_def)

text \<open>
  C31: each of the eight long options with a number, in front of the mount point, sets exactly its
  own field of the options to what \<open>atoi\<close> makes of the argument after it; the mount point is the
  last argument and the program name the first, and no other option changes.
\<close>

theorem number_option:
  assumes "calloc_ok e"
    and "(name, setting) \<in> {(''maxconn'', \<lambda>n opt. opt\<lparr>opt_maxConn := n\<rparr>),
        (''blocksize'', \<lambda>n opt. opt\<lparr>opt_blocksize := n\<rparr>),
        (''conntimeout'', \<lambda>n opt. opt\<lparr>opt_connTimeoutSec := n\<rparr>),
        (''connkeepalive'', \<lambda>n opt. opt\<lparr>opt_connKeepAliveSec := n\<rparr>),
        (''conncheckinterval'', \<lambda>n opt. opt\<lparr>opt_connCheckIntervalSec := n\<rparr>),
        (''apitimeout'', \<lambda>n opt. opt\<lparr>opt_rodsapiTimeoutSec := n\<rparr>),
        (''preloadblocks'', \<lambda>n opt. opt\<lparr>opt_preloadNumBlocks := n\<rparr>),
        (''metadatacachetimeout'', \<lambda>n opt. opt\<lparr>opt_metadataCacheTimeoutSec := n\<rparr>)}"
    and "length v < 30" and "NUL \<notin> set v" and "v \<noteq> []" and "m \<noteq> []"
    and "take 1 prog \<noteq> ''-''" and "take 1 v \<noteq> ''-''" and "take 1 m \<noteq> ''-''"
  shows "\<exists>s'. iFuseCmdOptsParse e [prog, ''--'' @ name, v, m] s = Some (0, s')
    \<and> g_Opt s' = (setting (atoi v) ((g_Opt s)\<lparr>opt_program := Some prog\<rparr>))\<lparr>opt_mountpoint := Some m\<rparr>"
proof -
  have cmd: "number_command (strncpy_arg name) = Some setting"
    using assms(2) by (elim insertE emptyE; simp only: prod.inject number_commands)
  have flag: "flag_command (strncpy_arg name) = None"
    using assms(2) by (intro number_commands_no_flag) auto
  have prog: "g_Opt (with_program e prog s) = (g_Opt s)\<lparr>opt_program := Some prog\<rparr>"
    using strdupC_ok [of e prog s] assms(1) by (auto simp: with_program_def set_opt_def split: prod.split)
  have run: "apply_command e (command_arg name v) (with_program e prog s)
      = Some (Some True, set_opt (setting (atoi v)) (with_program e prog s))"
    using cmd flag assms(3-5) by (simp add: apply_command_def command_arg_def c_string_strncpy)
  obtain x s2 where x: "strdupC e m (set_opt (setting (atoi v)) (with_program e prog s)) = (x, s2)" by force
  with strdupC_ok [OF x] assms(1) prog opts_parse_one(2) [OF assms(7,8) run assms(9,6)] show ?thesis
    by (simp add: set_opt_def)
qed

theorem number_option_witness:
  "\<exists>s'. iFuseCmdOptsParse demo_ext [''irodsFs'', ''--maxconn'', ''25'', ''/mnt''] demo_cmd = Some (0, s')
     \<and> opt_maxConn (g_Opt s') = 25 \<and> opt_mountpoint (g_Opt s') = Some ''/mnt''"
proof -
  from number_option [OF demo_calloc, of "''maxconn''" "\<lambda>n opt. opt\<lparr>opt_maxConn := n\<rparr>" "''25''" "''/mnt''" "''irodsFs''" demo_cmd]
  have "\<exists>s'. iFuseCmdOptsParse demo_ext [''irodsFs'', ''--'' @ ''maxconn'', ''25'', ''/mnt''] demo_cmd = Some (0, s')
     \<and> opt_maxConn (g_Opt s') = atoi ''25'' \<and> opt_mountpoint (g_Opt s') = Some ''/mnt''" by auto
  moreover have "atoi ''25'' = 25"
    by (simp add: atoi_def c_isspace_def digits_val_def is_digit_def less_eq_char_def of_char_def)
  ultimately show ?thesis by simp
qed

text \<open>
  C32: parsing the command line ends, on any arguments shorter than the 30 characters of a
  token: its loops stop, no string is read or written past its array, and the status is 0 or 1.
\<close>

theorem parse_terminates:
  assumes "calloc_ok e" and "IFUSE_CMD_ARG_MAX_TOKEN_LEN + 2 \<le> MAX_NAME_LEN e" and "argv \<noteq> []"
    and "\<forall>a \<in> set argv. length a < IFUSE_CMD_ARG_MAX_TOKEN_LEN"
  shows "\<exists>st s'. iFuseCmdOptsParse e argv s = Some (st, s') \<and> (st = 0 \<or> st = 1)"
proof -
  obtain prog args where argv: "argv = prog # args" using assms(3) by (cases argv) auto
  obtain pr s1 where 1: "strdupC e prog s = (pr, s1)" by force
  let ?s2 = "set_opt (\<lambda>opt. opt\<lparr>opt_program := pr\<rparr>) s1"
  from parse_commands_returns [OF assms(4), of e 0 ?s2] obtain st argv' s3 where
    3: "parse_commands e 0 argv ?s2 = Some ((st, argv'), s3)" "st = 0 \<or> st = 1"
      "\<forall>a \<in> set argv'. length a < IFUSE_CMD_ARG_MAX_TOKEN_LEN" by blast
  obtain opts ops where g: "getopt [] (tl argv') = (opts, ops)" by force
  have tl: "\<forall>a \<in> set (tl argv'). length a < IFUSE_CMD_ARG_MAX_TOKEN_LEN" using 3(3) by (cases argv') auto
  from obey_options_returns [OF assms(1,2), of opts s3] getopt_short [OF g _ tl]
  obtain st4 s4 where "obey_options e opts s3 = Some (st4, s4)" "st4 = 0 \<or> st4 = 1"
    by (auto simp: IFUSE_CMD_ARG_MAX_TOKEN_LEN_def)
  with 1 3 g show ?thesis by (auto simp: iFuseCmdOptsParse_def argv Let_def)
qed

theorem parse_terminates_witness:
  "\<exists>st s'. iFuseCmdOptsParse demo_ext [''irodsFs'', ''-o'', ''ro'', ''--maxconn'', ''x'', ''-d'', ''--bad''] demo_cmd = Some (st, s') \<and> (st = 0 \<or> st = 1)"
  by (rule parse_terminates [OF demo_calloc]) (simp_all add: demo_ext_def IFUSE_CMD_ARG_MAX_TOKEN_LEN_def)

lemma env_keeps:
  "(\<And>x. opt_mountpoint (f x) = opt_mountpoint x) \<Longrightarrow> opt_mountpoint (env_flag v f opt) = opt_mountpoint opt"
  "(\<And>x. opt_help (f x) = opt_help x) \<Longrightarrow> opt_help (env_flag v f opt) = opt_help opt"
  "(\<And>x. opt_version (f x) = opt_version x) \<Longrightarrow> opt_version (env_flag v f opt) = opt_version opt"
  "(\<And>n x. opt_mountpoint (g n x) = opt_mountpoint x) \<Longrightarrow> opt_mountpoint (env_number v g opt) = opt_mountpoint opt"
  "(\<And>n x. opt_help (g n x) = opt_help x) \<Longrightarrow> opt_help (env_number v g opt) = opt_help opt"
  "(\<And>n x. opt_version (g n x) = opt_version x) \<Longrightarrow> opt_version (env_number v g opt) = opt_version opt"
  by (simp_all add: env_flag_def env_number_def split: option.split)

text \<open>The long options that switch a feature, and what they leave alone.\<close>

definition only_features :: "(iFuseOpt \<Rightarrow> iFuseOpt) \<Rightarrow> bool" where
  "only_features f \<longleftrightarrow> (\<forall>opt. opt_mountpoint (f opt) = opt_mountpoint opt \<and> opt_help (f opt) = opt_help opt
     \<and> opt_version (f opt) = opt_version opt)"

lemma feature_commands:
  "\<exists>f. flag_command (strncpy_arg ''nodirectio'') = Some f \<and> only_features f"
  "\<exists>f. flag_command (strncpy_arg ''nocache'') = Some f \<and> only_features f"
  "\<exists>f. flag_command (strncpy_arg ''nopreload'') = Some f \<and> only_features f"
  "\<exists>f. flag_command (strncpy_arg ''nocachemetadata'') = Some f \<and> only_features f"
  "\<exists>f. flag_command (strncpy_arg ''connreuse'') = Some f \<and> only_features f"
  "\<exists>f. flag_command (strncpy_arg ''noconnreuse'') = Some f \<and> only_features f"
  by (simp_all add: flag_command_def cmd_is_def strncpy_arg_def IFUSE_CMD_ARG_MAX_TOKEN_LEN_def zeros_def only_features_def)

text \<open>
  C33: a long option without a number, in front of the mount point, swallows it: the argument
  after the option is taken for its value and both are marked as done, so that \<open>irodsFs
  --nocache mount-point\<close> ends with the exit code 1, whatever the system is like.
\<close>

theorem flag_swallows_mount_point:
  assumes "name \<in> {''nodirectio'', ''nocache'', ''nopreload'', ''nocachemetadata'', ''connreuse'', ''noconnreuse''}"
    and "take 1 prog \<noteq> ''-''" and "take 1 m \<noteq> ''-''" and "0 \<le> fst (getRodsEnv sys)"
  shows "main_program e sys [prog, ''--'' @ name, m] s = Some (1, None, None)"
proof -
  have "\<exists>f. flag_command (strncpy_arg name) = Some f \<and> only_features f"
    using assms(1) by (elim insertE emptyE; simp only: feature_commands)
  then obtain f where f: "flag_command (strncpy_arg name) = Some f"
    "\<And>opt. opt_mountpoint (f opt) = opt_mountpoint opt \<and> opt_help (f opt) = opt_help opt \<and> opt_version (f opt) = opt_version opt"
    by (auto simp: only_features_def)
  let ?s0 = "iFuseCmdOptsInit (c_getenv sys) s"
  have "apply_command e (command_arg name m) (with_program e prog ?s0) = Some (Some True, set_opt f (with_program e prog ?s0))"
    using f(1) by (simp add: apply_command_def command_arg_def)
  from opts_parse_one(1) [OF assms(2,3) this]
  have parse: "iFuseCmdOptsParse e [prog, ''--'' @ name, m] ?s0 = Some (0, set_opt f (with_program e prog ?s0))" .
  have "opt_mountpoint (g_Opt ?s0) = None \<and> \<not> opt_help (g_Opt ?s0) \<and> \<not> opt_version (g_Opt ?s0)"
    by (simp add: iFuseCmdOptsInit_def Let_def env_keeps default_opt_def zero_opt_def)
  then have "opt_mountpoint (g_Opt (with_program e prog ?s0)) = None \<and> \<not> opt_help (g_Opt (with_program e prog ?s0))
      \<and> \<not> opt_version (g_Opt (with_program e prog ?s0))"
    using strdupC_ok [of e prog ?s0] by (auto simp: with_program_def set_opt_def split: prod.split)
  then have "opt_mountpoint (iFuseGetOption (set_opt f (with_program e prog ?s0))) = None
      \<and> \<not> opt_help (iFuseGetOption (set_opt f (with_program e prog ?s0))) \<and> \<not> opt_version (iFuseGetOption (set_opt f (with_program e prog ?s0)))"
    using f(2) by (simp add: iFuseGetOption_def set_opt_def)
  with parse assms(4) show ?thesis
    by (auto simp: main_program_def checkMountPoint_def Let_def split: prod.split)
qed

definition demo_sys :: "demo sys" where
  "demo_sys = \<lparr>getRodsEnv = (0, demo_env), c_getenv = (\<lambda>_. None), c_getcwd = Some ''/home'', c_realpath = Some,
     c_opendir = (\<lambda>_. Some [''.'', ''..'']), fuse_main = (\<lambda>argc argv m. Some (0, m))\<rparr>"

theorem flag_swallows_mount_point_witness:
  "main_program demo_ext demo_sys [''irodsFs'', ''--nocache'', ''/mnt''] demo_cmd = Some (1, None, None)"
  using flag_swallows_mount_point [of "''nocache''" "''irodsFs''" "''/mnt''" demo_sys demo_ext demo_cmd]
  by (simp add: demo_sys_def)

end
