(* ===== verification/IFuse_ConnIds.thy ===== *)
theory IFuse_ConnIds
  imports IFuse_Steps
begin

text \<open>
  How many identifiers of connections an operation uses: at most one for each connection it
  takes. \<open>id_room n\<close> says that another \<open>n\<close> can be made before the 64 bits wrap; operations that
  take several connections one after the other need it.
\<close>

abbreviation next_id :: "'w fs_state \<Rightarrow> 64 word" where
  "next_id s \<equiv> g_ConnIDGen (conns (fds s))"

definition id_room :: "nat \<Rightarrow> 'w fs_state \<Rightarrow> bool" where
  "id_room n s \<longleftrightarrow> uint (next_id s) + int n < 2 ^ 64 - 1"

lemma id_room_conn: "id_room n s \<Longrightarrow> conn_room s"
proof -
  have "uint (- 1 :: 64 word) = 2 ^ 64 - 1" by (simp add: uint_word_ariths)
  then show "id_room n s \<Longrightarrow> conn_room s" by (simp add: id_room_def conn_room_def word_less_def)
qed

lemma id_room_less: "id_room n s \<Longrightarrow> m \<le> n \<Longrightarrow> id_room m s"
  by (simp add: id_room_def)

lemma id_room_next:
  assumes "id_room (Suc n) s" and "next_id s' = next_id s \<or> next_id s' = next_id s + 1"
  shows "id_room n s'"
  using assms by (auto simp: id_room_def uint_word_ariths)

lemma id_room_same: "next_id s' = next_id s \<Longrightarrow> id_room n s' = id_room n s"
  by (simp add: id_room_def)

section \<open>Taking and giving back a connection\<close>

lemma get_next_id:
  assumes "conn_inv c" and "calloc_ok e" and "g_ConnIDGen c < - 1" and "iFuseConnGetAndUse e t c = Some (x, c')"
  shows "g_ConnIDGen c' = g_ConnIDGen c \<or> g_ConnIDGen c' = g_ConnIDGen c + 1"
  using getAndUse_ok [OF assms(1-3) get_type [OF assms(4)]] assms(4) by (auto simp: get_ok_def)

lemma conn_steps_next_id:
  "update_conn p f c = Some c' \<Longrightarrow> g_ConnIDGen c' = g_ConnIDGen c"
  "conn_wrlock p c = Some c' \<Longrightarrow> g_ConnIDGen c' = g_ConnIDGen c"
  "conn_unlock p c = Some c' \<Longrightarrow> g_ConnIDGen c' = g_ConnIDGen c"
  "iFuseConnLock p c = Some c' \<Longrightarrow> g_ConnIDGen c' = g_ConnIDGen c"
  "iFuseConnUnlock p c = Some c' \<Longrightarrow> g_ConnIDGen c' = g_ConnIDGen c"
  "onRc g c = (x, c') \<Longrightarrow> g_ConnIDGen c' = g_ConnIDGen c"
  "currentTime e c = (now, c') \<Longrightarrow> g_ConnIDGen c' = g_ConnIDGen c"
  "freeConn e q c = Some c' \<Longrightarrow> g_ConnIDGen c' = g_ConnIDGen c"
  by (auto simp: update_conn_def conn_wrlock_def conn_unlock_def iFuseConnLock_def iFuseConnUnlock_def onRc_def
      currentTime_def freeConn_def split: prod.splits)

lemma snd_next_id [simp]:
  "g_ConnIDGen (snd (onRc g c)) = g_ConnIDGen c"
  "g_ConnIDGen (snd (currentTime e c)) = g_ConnIDGen c"
  by (simp_all add: onRc_def currentTime_def case_prod_unfold Let_def)

lemma act_next_id: "iFuseConnUpdateLastActTime e p lk c = Some c' \<Longrightarrow> g_ConnIDGen c' = g_ConnIDGen c"
  by (cases lk) (auto simp: iFuseConnUpdateLastActTime_def case_prod_unfold Let_def dest!: conn_steps_next_id)

lemma reconnect_next_id: "iFuseConnReconnect e p c = Some (st, c') \<Longrightarrow> g_ConnIDGen c' = g_ConnIDGen c"
  by (auto simp: iFuseConnReconnect_def case_prod_unfold Let_def dest!: conn_steps_next_id)

lemma unuse_next_id:
  assumes "iFuseConnUnuse e p c = Some c'"
  shows "g_ConnIDGen c' = g_ConnIDGen c"
proof -
  from assms obtain c1 now c2 c3 cn where
    s: "conn_wrlock p c = Some c1" "currentTime e c1 = (now, c2)"
      "update_conn p (\<lambda>cn. cn\<lparr>cn_lastUseTime := now, cn_inuseCnt := cn_inuseCnt cn - 1\<rparr>) c2 = Some c3"
      "conn_heap c3 p = Some cn"
    unfolding iFuseConnUnuse_def by (cases "conn_wrlock p c"; auto split: prod.splits)
  have 3: "g_ConnIDGen c3 = g_ConnIDGen c" using s(1-3) by (auto dest!: conn_steps_next_id)
  have "g_ConnIDGen c' = g_ConnIDGen c3"
    using assms unfolding iFuseConnUnuse_def s(1) Option.bind.bind_lunit s(2) Let_def prod.case s(3,4)
    by (simp split: if_split_asm) (auto dest!: conn_steps_next_id)
  with 3 show ?thesis by simp
qed

lemma call_retry_next_id:
  assumes "call_retry e noted failed status_of call p c = Some (out, c')"
  shows "g_ConnIDGen c' = g_ConnIDGen c"
proof -
  from assms obtain cn where cn: "conn_heap c p = Some cn" by (auto simp: call_retry_def)
  let ?y = "onRc (call (cn_conn cn)) c"
  from assms cn obtain c2 where c2: "(if noted then iFuseConnUpdateLastActTime e p False (snd ?y) else Some (snd ?y)) = Some c2"
    by (auto simp: call_retry_def case_prod_unfold Let_def)
  then have 2: "g_ConnIDGen c2 = g_ConnIDGen c" by (auto split: if_splits dest!: act_next_id)
  have run: "(if failed (fst ?y) then
            (if iFuseRodsClientReadMsgError e (status_of (fst ?y)) then
               do { (status, c3) \<leftarrow> iFuseConnReconnect e p c2;
                    if status < 0 then Some (Reconnect_failed (fst ?y), c3)
                    else do { cn' \<leftarrow> conn_heap c3 p;
                              let z = onRc (call (cn_conn cn')) c3;
                              Some (if failed (fst z) then Retry_failed (fst z) else Call_ok (fst z), snd z) } }
             else Some (Call_failed (fst ?y), c2))
          else Some (Call_ok (fst ?y), c2)) = Some (out, c')"
    using assms by (simp only: call_retry_def cn c2 case_prod_unfold Let_def Option.bind.bind_lunit)
  show ?thesis
  proof (cases "failed (fst ?y) \<and> iFuseRodsClientReadMsgError e (status_of (fst ?y))")
    case True
    with run obtain st c3 where 3: "iFuseConnReconnect e p c2 = Some (st, c3)" by auto
    then have "g_ConnIDGen c' = g_ConnIDGen c3"
      using run True by (cases "st < 0") (auto simp: Let_def)
    with reconnect_next_id [OF 3] 2 show ?thesis by auto
  next
    case False
    with run 2 show ?thesis by (auto split: if_splits)
  qed
qed

lemma onC_next_id:
  "onC (call_retry e noted failed status_of call p) s = Some (out, s') \<Longrightarrow> next_id s' = next_id s"
  by (auto simp: onC_def onF_def onConn_def dest: call_retry_next_id)

lemma with_conn_next_id:
  assumes inv: "fs_inv s" and mem: "calloc_ok e" and room: "conn_room s"
    and run: "with_conn e t f s = Some (r, s')"
    and f: "\<And>p s2 x s3. f p s2 = Some (x, s3) \<Longrightarrow> next_id s3 = next_id s2"
  shows "next_id s' = next_id s \<or> next_id s' = next_id s + 1"
proof -
  from run obtain st conn s1 where g: "onC (iFuseConnGetAndUse e t) s = Some ((st, conn), s1)"
    by (auto simp: with_conn_def)
  then have 1: "next_id s1 = next_id s \<or> next_id s1 = next_id s + 1"
    using get_next_id [OF fs_inv_D(3) [OF inv] mem room [unfolded conn_room_def], of t "(st, conn)"]
    by (auto simp: onC_def onF_def onConn_def)
  have "next_id s' = next_id s1"
    using run g by (auto simp: with_conn_def onCU_def split: if_splits dest!: f unuse_next_id conn_steps_next_id)
  with 1 show ?thesis by simp
qed

lemma cache_next_id:
  "next_id (onMcP g s) = next_id s" "onMc h s = (x, s1) \<Longrightarrow> next_id s1 = next_id s"
  "onMcO k s = Some (y, s2) \<Longrightarrow> next_id s2 = next_id s"
  by (auto simp: onMcP_def onMc_def onMcO_def put_lib_def split: prod.splits)

section \<open>The operations\<close>

lemma short_op_next_id:
  assumes "fs_inv s" and "calloc_ok e" and "conn_room s"
    and "short_op e call failed status_for after s = Some (st, s')"
    and "\<And>s. next_id (after s) = next_id s"
  shows "next_id s' = next_id s \<or> next_id s' = next_id s + 1"
proof -
  from assms(4) obtain r s1 where
    1: "with_conn e IFUSE_CONN_TYPE_FOR_SHORTOP (\<lambda>p. onC (call_retry e True failed id call p)) s = Some (r, s1)"
    and "next_id s' = next_id s1"
    using assms(5) by (auto simp: short_op_def split: option.splits if_splits)
  with with_conn_next_id [OF assms(1-3) 1] show ?thesis by (auto dest: onC_next_id)
qed

lemma short_ops_next_id:
  assumes "fs_inv s" and "calloc_ok e" and "conn_room s"
  shows "iFuseFsUnlink e path s = Some (st, s') \<Longrightarrow> next_id s' = next_id s \<or> next_id s' = next_id s + 1"
    "iFuseFsTruncate e path len s = Some (st, s') \<Longrightarrow> next_id s' = next_id s \<or> next_id s' = next_id s + 1"
  unfolding iFuseFsUnlink_def iFuseFsTruncate_def
  by (erule short_op_next_id [OF assms], simp add: cache_next_id)+

lemma Create_next_id:
  assumes "fs_inv s" and "calloc_ok e" and "conn_room s" and "iFuseFsCreate e path mode s = Some (st, s')"
  shows "next_id s' = next_id s \<or> next_id s' = next_id s + 1"
proof -
  from assms(4) obtain r s1 where
    1: "with_conn e IFUSE_CONN_TYPE_FOR_SHORTOP (create_close e path mode) s = Some (r, s1)"
    by (auto simp: iFuseFsCreate_def)
  have "next_id (snd (onMc (iFuseMetadataCacheAddDirEntryIfFresh2 e path) (onMcP g s1))) = next_id s1" for g
    using cache_next_id(2) [of "iFuseMetadataCacheAddDirEntryIfFresh2 e path" "onMcP g s1"]
    by (metis cache_next_id(1) prod.collapse)
  then have "next_id s' = next_id s1"
    using assms(4) 1 by (auto simp: iFuseFsCreate_def case_prod_unfold split: option.splits if_splits)
  moreover have "next_id s3 = next_id s2" if r: "create_close e path mode p s2 = Some (x, s3)" for p s2 x s3
  proof -
    from r obtain out t where t: "onC (call_retry e True (\<lambda>st. st < 0) id
        (\<lambda>conn. iFuseRodsClientDataObjCreate e conn (obj_path e path) mode (rodsDefResource (iFuseLibGetRodsEnv (get_lib s2)))) p) s2
        = Some (out, t)" by (auto simp: create_close_def)
    with r show ?thesis by (cases out) (auto simp: create_close_def dest!: onC_next_id)
  qed
  ultimately show ?thesis using with_conn_next_id [OF assms(1-3) 1] by simp
qed

lemma GetAttr_next_id:
  assumes "fs_inv s" and "calloc_ok e" and "conn_room s" and "iFuseFsGetAttr e path s = Some (r, s')"
  shows "next_id s' = next_id s \<or> next_id s' = next_id s + 1"
proof -
  from getattr_cached_live [OF assms(1), of e path] obtain c s1 where
    1: "getattr_cached e path s = Some (c, s1)" "fs_touch s s1" by blast
  have i1: "fs_inv s1" "next_id s1 = next_id s"
    using fs_touch_inv [OF 1(2) assms(1)] touch_okD(3) [OF fs_touch_conns [OF 1(2)]] by simp_all
  then have room: "conn_room s1" using assms(3) by (simp add: conn_room_def)
  have f: "next_id s3 = next_id s2" if r: "getattr_server e path p s2 = Some (x, s3)" for p s2 x s3
  proof -
    from r obtain out t where t: "onC (call_retry e True (\<lambda>(st, _). st < 0 \<and> st \<noteq> USER_FILE_DOES_NOT_EXIST e) fst
       (\<lambda>conn. iFuseRodsClientObjStat e conn (obj_path e path)) p) s2 = Some (out, t)" by (auto simp: getattr_server_def)
    have "s3 = t \<or> (\<exists>y b. onMcO (iFuseMetadataCachePutStat e path b) t = Some (y, s3))"
      using r t unfolding getattr_server_def
      by (cases out) (auto simp: Let_def split: if_split_asm option.split_asm)
    with onC_next_id [OF t] show ?thesis by (auto dest: cache_next_id(3))
  qed
  from assms(4) 1(1) have "s' = s1 \<or> (\<exists>ans. with_conn e (short_type s1) (getattr_server e path) s1 = Some (ans, s'))"
    by (auto simp: iFuseFsGetAttr_def split: option.splits)
  then show ?thesis
  proof
    assume "\<exists>ans. with_conn e (short_type s1) (getattr_server e path) s1 = Some (ans, s')"
    then obtain ans where "with_conn e (short_type s1) (getattr_server e path) s1 = Some (ans, s')" ..
    from with_conn_next_id [OF i1(1) assms(2) room this f] i1(2) show ?thesis by simp
  qed (use i1(2) in simp)
qed

lemma Open_next_id:
  assumes "fs_inv s" and "calloc_ok e" and "conn_room s" and "iFuseFsOpen e path fl s = Some (r, s')"
  shows "next_id s' = next_id s \<or> next_id s' = next_id s + 1"
proof -
  from assms(4) obtain st conn s1 where g: "onC (iFuseConnGetAndUse e (file_type s)) s = Some ((st, conn), s1)"
    by (auto simp: iFuseFsOpen_def)
  then have 1: "next_id s1 = next_id s \<or> next_id s1 = next_id s + 1"
    using get_next_id [OF fs_inv_D(3) [OF assms(1)] assms(2) assms(3) [unfolded conn_room_def], of "file_type s" "(st, conn)"]
    by (auto simp: onC_def onF_def onConn_def)
  have o: "g_ConnIDGen (conns d') = g_ConnIDGen (conns d)" if "iFuseFdOpen e cp path fl d = Some (x, d')" for cp d x d'
  proof -
    from that obtain out c1 where 1: "onConn (with_conn_lock cp (\<lambda>c. do { assert_connected cp c;
                   call_retry e True (\<lambda>fd. fd \<le> 0) id
                     (\<lambda>conn. iFuseRodsClientDataObjOpen e conn (rstrcpy e path (MAX_NAME_LEN e)) fl) cp c })) d = Some (out, c1)"
      by (auto simp: iFuseFdOpen_def)
    then have "g_ConnIDGen (conns c1) = g_ConnIDGen (conns d)"
      by (auto simp: onConn_def with_conn_lock_def dest!: conn_steps_next_id call_retry_next_id)
    moreover have "g_ConnIDGen (conns d') = g_ConnIDGen (conns c1)"
      using that 1 by (cases out) (auto simp: iFuseFdOpen_def onLibF_def genNextFdID_def Let_def
        split: option.splits prod.splits dest!: conn_steps_next_id)
    ultimately show ?thesis by simp
  qed
  have "next_id s' = next_id s1"
  proof (cases "st < 0")
    case False
    with assms(4) g obtain cp y d' where 2: "conn = Some cp" "iFuseFdOpen e cp path fl (fds s1) = Some (y, d')"
      by (cases conn; cases "iFuseFdOpen e (the conn) path fl (fds s1)") (auto simp: iFuseFsOpen_def onF_def)
    then have "next_id s' = g_ConnIDGen (conns d')"
      using assms(4) g False by (cases y) (simp add: iFuseFsOpen_def onF_def split: if_splits, auto simp: cache_next_id(1))
    with o [OF 2(2)] show ?thesis by simp
  qed (use assms(4) g in \<open>simp add: iFuseFsOpen_def\<close>)
  with 1 show ?thesis by simp
qed

lemma Close_next_id:
  assumes "fs_inv s" and "iFuseFsClose e p s = Some (st, s')"
  shows "next_id s' = next_id s"
proof -
  from assms(2) obtain d st' d' where d: "fd_heap (fds s) p = Some d" and c: "iFuseFdClose e p (fds s) = Some (st', d')"
    by (auto simp: iFuseFsClose_def onF_def split: if_splits)
  obtain cp where cp: "fd_conn d = Some cp" using fd_conn_alive [OF fs_inv_D(1) [OF assms(1)] d] by blast
  from iFuseFdClose_ok [OF fs_inv_D(1) [OF assms(1)] d cp, of e] c
  have "g_ConnIDGen (conns d') = next_id s" by (auto simp: touch_okD(3))
  then show ?thesis
    using assms(2) d c cp
    by (auto simp: iFuseFsClose_def onF_def onCU_def cache_next_id(1) split: if_splits dest!: unuse_next_id)
qed

section \<open>One operation uses one identifier at most\<close>

text \<open>\<open>ids_next s s'\<close>: at most one identifier was used.\<close>

abbreviation ids_next :: "'w fs_state \<Rightarrow> 'w fs_state \<Rightarrow> bool" where
  "ids_next s s' \<equiv> next_id s' = next_id s \<or> next_id s' = next_id s + 1"

lemma snd_onMc_next_id: "next_id (snd (onMc h s)) = next_id s"
  using cache_next_id(2) [of h s] by (metis prod.collapse)

lemma more_short_ops_next_id:
  assumes "fs_inv s" and "calloc_ok e" and "conn_room s"
  shows "iFuseFsMakeDir e path s = Some (st, s') \<Longrightarrow> ids_next s s'"
    "iFuseFsRemoveDir e path s = Some (st, s') \<Longrightarrow> ids_next s s'"
    "iFuseFsRename e path path2 s = Some (st, s') \<Longrightarrow> ids_next s s'"
    "iFuseFsChmod e path mode s = Some (st, s') \<Longrightarrow> ids_next s s'"
  unfolding iFuseFsMakeDir_def iFuseFsRemoveDir_def iFuseFsRename_def iFuseFsChmod_def
  by (erule short_op_next_id [OF assms], simp add: snd_onMc_next_id cache_next_id)+

lemma touch_next_id: "fs_touch s s' \<Longrightarrow> next_id s' = next_id s"
  by (auto dest: fs_touch_conns touch_okD(3))

lemma Flush_next_id:
  assumes inv: "fs_inv s" and run: "iFuseFsFlush e p s = Some (status, s')"
  shows "next_id s' = next_id s"
proof -
  from run obtain d st d' where d: "fd_heap (fds s) p = Some d" and r: "iFuseFdReopen e p (fds s) = Some (st, d')"
    and s': "s' = s\<lparr>fds := d'\<rparr> \<or> s' = onMcP (iFuseMetadataCacheRemoveStat (fd_iRodsPath d)) (s\<lparr>fds := d'\<rparr>)"
    by (auto simp: iFuseFsFlush_def onF_def split: if_splits)
  from iFuseFdReopen_ok [OF fs_inv_D(1) [OF inv] d r] s' show ?thesis by (auto simp: touch_okD(3) cache_next_id)
qed

lemma CloseDir_next_id:
  assumes inv: "fs_inv s" and run: "iFuseFsCloseDir e p s = Some (st, s')"
  shows "next_id s' = next_id s"
proof -
  from run obtain d st' d' where d: "dir_heap (fds s) p = Some d" and c: "iFuseDirClose e p (fds s) = Some (st', d')"
    by (auto simp: iFuseFsCloseDir_def onF_def split: if_splits)
  from iFuseDirClose_ok [OF fs_inv_D(1) [OF inv] d, of e] c
  have "g_ConnIDGen (conns d') = next_id s" by (auto simp: touch_okD(3))
  then show ?thesis
    using run d c by (auto simp: iFuseFsCloseDir_def onF_def onCU_def split: if_splits option.splits dest!: unuse_next_id)
qed

lemma list_dir_next_id:
  assumes run: "list_dir e p s = Some (names, s')"
  shows "next_id s' = next_id s"
proof -
  from run obtain path cp h s1 s2 s3 s4 where
    r: "onFU (iFuseDirLock p) s = Some s1" "onCU (iFuseConnLock cp) s1 = Some s2"
      "read_entries e cp h path zero_collEnt [] s2 = Some (names, s3)"
      "onCU (iFuseConnUnlock cp) s3 = Some s4" "onFU (iFuseDirUnlock p) s4 = Some s'"
    by (auto simp: list_dir_def)
  have "fs_touch s1 s4"
    using conn_lock_touch(1) [OF r(2)] read_entries_touch [OF r(3)] conn_lock_touch(2) [OF r(4)]
    by (auto intro: fs_touch_trans)
  then have "next_id s4 = next_id s1" by (rule touch_next_id)
  moreover have "next_id s1 = next_id s" "next_id s' = next_id s4"
    using r(1,5) by (auto simp: onFU_def iFuseDirLock_def iFuseDirUnlock_def update_dir_def)
  ultimately show ?thesis by simp
qed

lemma ReadDir_next_id:
  assumes run: "iFuseFsReadDir e p s = Some (r, s')"
  shows "next_id s' = next_id s"
proof -
  have "s' = s \<or> (\<exists>s1 names. fs_touch s s1 \<and> list_dir e p s1 = Some (names, s'))"
    using run removals_touch(2) [of s]
    by (auto simp: iFuseFsReadDir_def Let_def split: option.splits bool.splits)
  then show ?thesis by (metis touch_next_id list_dir_next_id)
qed

lemma get_dir_next_id:
  assumes inv: "fs_inv s" and mem: "calloc_ok e" and room: "conn_room s"
    and g: "onC (iFuseConnGetAndUse e (file_type s)) s = Some ((st, conn), s1)"
  shows "ids_next s s1"
    and "\<lbrakk>0 \<le> st; conn = Some cp; onF (iFuseDirOpen e cp path) s1 = Some (r, s2)\<rbrakk> \<Longrightarrow> next_id s2 = next_id s1"
proof -
  show "ids_next s s1"
    using g get_next_id [OF fs_inv_D(3) [OF inv] mem room [unfolded conn_room_def], of "file_type s" "(st, conn)"]
    by (auto simp: onC_def onF_def onConn_def)
  assume st: "0 \<le> st" "conn = Some cp" and o: "onF (iFuseDirOpen e cp path) s1 = Some (r, s2)"
  from inv mem room types_in(2) [of s] show "next_id s2 = next_id s1"
  proof (cases rule: fs_get_cases)
    case (failed st' s'')
    with g st show ?thesis by simp
  next
    case (got p c)
    with g st have s1: "s1 = s\<lparr>fds := (fds s)\<lparr>conns := c\<rparr>\<rparr>" "p = cp" by simp_all
    from o obtain d where d: "iFuseDirOpen e cp path (fds s1) = Some (r, d)" "s2 = s1\<lparr>fds := d\<rparr>" by (auto simp: onF_def)
    obtain x y where r: "r = (x, y)" by force
    have o: "iFuseDirOpen e cp path ((fds s)\<lparr>conns := c\<rparr>) = Some ((x, y), d)" using d(1) s1 r by simp
    from iFuseDirOpen_ok [OF fs_inv_D(1) [OF got(6), simplified] opened_room [OF inv got(5)]
      iFuseDirOpen_connected [OF o [folded s1(2)]], of e path] o d(2) s1
    show ?thesis by (auto simp: open_ok_def)
  qed
qed

lemma cached_dir_next_id:
  assumes inv: "fs_inv s"
    and 1: "onMc (iFuseMetadataCacheClearExpiredDir e False) s = (x, s1)"
    and 2: "onMcO (iFuseMetadataCacheGetDirEntry e path) s1 = Some (y, s2)"
  shows "fs_inv s2" "next_id s2 = next_id s"
proof -
  have "fs_touch s s1" by (rule onMc_touch [OF 1, of e]) (auto intro: mc_step.intros)
  moreover have "fs_touch s1 s2" by (rule onMcO_touch [OF 2, of e]) (auto intro: mc_step.intros)
  ultimately have "fs_touch s s2" by (rule fs_touch_trans)
  then show "fs_inv s2" "next_id s2 = next_id s" by (auto intro: fs_touch_inv [OF _ inv] touch_next_id)
qed

lemma OpenDir_next_id:
  assumes inv: "fs_inv s" and mem: "calloc_ok e" and room: "conn_room s"
    and run: "iFuseFsOpenDir e path s = Some (r, s')"
  shows "ids_next s s'"
proof -
  obtain x t where t: "onMc (iFuseMetadataCacheClearExpiredDir e False) s = (x, t)" by force
  define f where "f = (\<lambda>(cached, s1). case cached of
             Some entries \<Rightarrow>
               let ((status, dir), d) = iFuseDirOpenWithCache e path entries (fds s1);
                   s2 = s1\<lparr>fds := d\<rparr>
               in if status < 0 then Some ((- ENOENT, dir), s2) else Some ((0, dir), s2)
           | None \<Rightarrow>
               do { ((status, conn), s2) \<leftarrow> onC (iFuseConnGetAndUse e (file_type s1)) s1;
                    if status < 0 then Some ((- EIO, None), s2)
                    else do {
                      cp \<leftarrow> conn;
                      ((status, dir), s3) \<leftarrow> onF (iFuseDirOpen e cp path) s2;
                      if status < 0 then Some ((- ENOENT, dir), s3) else Some ((0, dir), s3) } })"
  have "\<exists>c s1. f (c, s1) = Some (r, s') \<and> fs_inv s1 \<and> next_id s1 = next_id s"
  proof (cases "g_CacheMetadata s")
    case True
    with run t obtain st es s1 where 2: "onMcO (iFuseMetadataCacheGetDirEntry e path) t = Some ((st, es), s1)"
      and "f (if st = 0 then es else None, s1) = Some (r, s')"
      by (auto simp: iFuseFsOpenDir_def f_def)
    with cached_dir_next_id [OF inv t 2] show ?thesis by blast
  next
    case False
    with run have "f (None, s) = Some (r, s')" by (simp add: iFuseFsOpenDir_def f_def)
    with inv show ?thesis by blast
  qed
  then obtain c s1 where 1: "f (c, s1) = Some (r, s')" "fs_inv s1" "next_id s1 = next_id s" by blast
  have room1: "conn_room s1" using room 1(3) by (simp add: conn_room_def)
  show ?thesis
  proof (cases c)
    case (Some es)
    obtain st dir d where o: "iFuseDirOpenWithCache e path es (fds s1) = ((st, dir), d)" by (metis prod.exhaust)
    from iFuseDirOpenWithCache_ok [OF fs_inv_D(1) [OF 1(2)], of e path es] o
    have "g_ConnIDGen (conns d) = next_id s1" by (auto simp: open_ok_def)
    with 1(1,3) o Some show ?thesis by (auto simp: f_def Let_def split: if_splits)
  next
    case None
    with 1(1) obtain st conn s2 where g: "onC (iFuseConnGetAndUse e (file_type s1)) s1 = Some ((st, conn), s2)"
      by (auto simp: f_def)
    note n = get_dir_next_id [OF 1(2) mem room1 g]
    have "next_id s' = next_id s2"
    proof (cases "st < 0")
      case False
      with 1(1) None g obtain cp y s3 where "conn = Some cp" "onF (iFuseDirOpen e cp path) s2 = Some (y, s3)" "s' = s3"
        by (auto simp: f_def split: if_splits)
      with n(2) False show ?thesis by auto
    qed (use 1(1) None g in \<open>simp add: f_def\<close>)
    with n(1) 1(3) show ?thesis by simp
  qed
qed

lemma CacheDir_next_id:
  assumes inv: "fs_inv s" and mem: "calloc_ok e" and codes: "error_codes_ok e" and room: "conn_room s"
    and run: "iFuseFsCacheDir e path s = Some (r, s')"
  shows "ids_next s s'"
proof (cases "g_CacheMetadata s")
  case True
  obtain x t where t: "onMc (iFuseMetadataCacheClearExpiredDir e False) s = (x, t)" by force
  from run True t obtain st0 es s1 where
    2: "onMcO (iFuseMetadataCacheGetDirEntry e path) t = Some ((st0, es), s1)" by (auto simp: iFuseFsCacheDir_def)
  note 1 = cached_dir_next_id [OF inv t 2]
  have room1: "conn_room s1" using room 1(2) by (simp add: conn_room_def)
  show ?thesis
  proof (cases "st0 = 0")
    case False
    with run True t 2 obtain st conn s2 where g: "onC (iFuseConnGetAndUse e (file_type s1)) s1 = Some ((st, conn), s2)"
      by (auto simp: iFuseFsCacheDir_def)
    note n = get_dir_next_id [OF 1(1) mem room1 g]
    have "next_id s' = next_id s2"
    proof (cases "st < 0")
      case st: False
      with run True t 2 g False obtain cp stD dir s4 where cp: "conn = Some cp"
        and o: "onF (iFuseDirOpen e cp path) s2 = Some ((stD, dir), s4)"
        by (auto simp: iFuseFsCacheDir_def)
      from n(2) [OF _ cp o] st have n4: "next_id s4 = next_id s2" by simp
      have i2: "fs_inv s2 \<and> assert_connected cp (conns (fds s2)) = Some () \<and> int (held (fds s2) cp) < conn_refs (conns (fds s2)) cp"
      proof -
        from 1(1) mem room1 types_in(2) [of s1] show ?thesis
        proof (cases rule: fs_get_cases)
          case (failed st' s'')
          with g st show ?thesis by simp
        next
          case (got p c)
          with g cp have "s2 = s1\<lparr>fds := (fds s1)\<lparr>conns := c\<rparr>\<rparr>" "p = cp" by simp_all
          moreover obtain d where "iFuseDirOpen e cp path (fds s2) = Some ((stD, dir), d)" using o by (auto simp: onF_def)
          ultimately show ?thesis
            using got(6) opened_room [OF 1(1) got(5)] iFuseDirOpen_connected by fastforce
        qed
      qed
      show ?thesis
      proof (cases "stD < 0")
        case d: False
        with run True t 2 g False st cp o obtain p ns s5 where dp: "dir = Some p" and l: "list_dir e p s4 = Some (ns, s5)"
          by (auto simp: iFuseFsCacheDir_def)
        from run True t 2 g False st cp o d dp l obtain st6 s6 where c6: "onF (iFuseDirClose e p) s5 = Some (st6, s6)"
          by (auto simp: iFuseFsCacheDir_def)
        have tail: "next_id s' = next_id s6"
          using run True t 2 g False st cp o d dp l c6
          by (auto simp: iFuseFsCacheDir_def onCU_def split: if_splits dest!: unuse_next_id)
        have i4: "fs_inv s4"
        proof -
          from o obtain d' where d': "iFuseDirOpen e cp path (fds s2) = Some ((stD, dir), d')" "s4 = s2\<lparr>fds := d'\<rparr>" by (auto simp: onF_def)
          from iFuseDirOpen_ok [of "fds s2" cp e path] i2 fs_inv_D(1) d' d codes
          have "open_ok (fds s2) cp d' True" by (auto simp: error_codes_ok_def dp)
          then show ?thesis using i2 d'(2) by (simp add: fs_inv_def open_ok_def)
        qed
        note k = list_dir_keeps [OF i4 l]
        have "dir_conn_of (fds s4) p \<noteq> None" using l by (auto simp: list_dir_def dir_conn_of_def)
        then have "dir_conn_of (fds s5) p \<noteq> None" using k by (simp add: fs_keeps_def)
        then obtain x where x: "dir_heap (fds s5) p = Some x"
          by (cases "dir_heap (fds s5) p") (auto simp: dir_conn_of_def)
        have "next_id s6 = next_id s5"
          using c6 iFuseDirClose_ok [OF fs_inv_D(1) [OF fs_keeps_inv [OF k]] x, of e] by (auto simp: onF_def touch_okD(3))
        with tail list_dir_next_id [OF l] n4 show ?thesis by simp
      qed (use run True t 2 g False st cp o n4 in \<open>simp add: iFuseFsCacheDir_def\<close>)
    qed (use run True t 2 g False in \<open>simp add: iFuseFsCacheDir_def\<close>)
    with n(1) 1(2) show ?thesis by simp
  qed (use run True t 2 1(2) in \<open>simp add: iFuseFsCacheDir_def\<close>)
qed (use run in \<open>simp add: iFuseFsCacheDir_def\<close>)

lemma run_handlers_next_id:
  "fs_inv s \<Longrightarrow> run_handlers e hs s = Some s' \<Longrightarrow> next_id s' = next_id s"
proof (induction e hs s rule: run_handlers.induct)
  case (2 e cbs s)
  from 2(3) obtain r where r: "timeoutChecker e (rcs (conns (fds s))) = Some r"
    "run_handlers e cbs (s\<lparr>fds := (fds s)\<lparr>conns := (conns (fds s))\<lparr>rcs := r\<rparr>\<rparr>\<rparr>) = Some s'" by auto
  let ?t = "s\<lparr>fds := (fds s)\<lparr>conns := (conns (fds s))\<lparr>rcs := r\<rparr>\<rparr>\<rparr>"
  have "run_handlers e [TimeoutChecker] s = Some ?t" using r(1) by simp
  with run_handlers_same [OF 2(2), of e "[TimeoutChecker]"] have "fs_inv ?t" by (auto intro: fs_inv_same [OF 2(2)])
  from 2(1) [OF r(1) this r(2)] show ?case by simp
next
  case (3 e cbs s)
  from 3(3) obtain t where t: "onCU (connChecker e) s = Some t" "run_handlers e cbs t = Some s'" by auto
  then have "run_handlers e [ConnChecker] s = Some t" by simp
  with run_handlers_same [OF 3(2), of e "[ConnChecker]"] have "fs_inv t" by (auto intro: fs_inv_same [OF 3(2)])
  from 3(1) [OF t(1) this t(2)] t(1) connChecker_ok [OF fs_inv_D(3) [OF 3(2)], of e] show ?case
    by (auto simp: onCU_def)
qed simp

lemma io_ids:
  assumes inv: "fs_inv s"
  shows "iFuseFsRead e p off sz s = Some (x, s') \<Longrightarrow> next_id s' = next_id s"
    "iFuseFsWrite e p buf off s = Some (st, s') \<Longrightarrow> next_id s' = next_id s"
proof -
  assume r: "iFuseFsRead e p off sz s = Some (x, s')"
  then obtain d where "fd_heap (fds s) p = Some d" by (auto simp: iFuseFsRead_def with_fd_lock_def)
  from Read_live [OF inv this, of e off sz] r show "next_id s' = next_id s" by (auto simp: io_ok_def touch_okD(3))
next
  assume r: "iFuseFsWrite e p buf off s = Some (st, s')"
  then obtain d where "fd_heap (fds s) p = Some d" by (auto simp: iFuseFsWrite_def with_fd_lock_def)
  from Write_live [OF inv this, of e buf off] r show "next_id s' = next_id s" by (auto simp: io_ok_def touch_okD(3))
qed

lemma fs_step_next_id:
  assumes "fs_step e s s'" and "fs_inv s" and "calloc_ok e" and "error_codes_ok e"
  shows "ids_next s s'"
  using assms(1)
proof cases
  case (step_tick)
  then show ?thesis using run_handlers_next_id [OF assms(2), of e] by (auto simp: timerTick_def split: if_splits)
qed (use assms(2-) in \<open>auto dest: GetAttr_next_id Open_next_id Close_next_id io_ids Flush_next_id Create_next_id short_ops_next_id
    more_short_ops_next_id OpenDir_next_id CloseDir_next_id ReadDir_next_id CacheDir_next_id touch_next_id [OF Ioctl_touch]\<close>)

end
