(* ===== verification/IFuse_BufferedSteps.thy ===== *)
theory IFuse_BufferedSteps
  imports IFuse_ConnIds IFuse_BufferedSafe
begin

text \<open>
  The operations of the buffered layer as steps between good states, to be composed by the
  layers above. A step says how many identifiers of connections it uses at most.
\<close>

section \<open>Good states\<close>

definition buf_good :: "'w buf_state \<Rightarrow> bool" where
  "buf_good b \<longleftrightarrow> fs_inv (bfs b) \<and> tables_ok b"

text \<open>What is asked of memory, the error codes and the server's replies.\<close>

definition env_ok :: "'w ext \<Rightarrow> bool" where
  "env_ok e \<longleftrightarrow> calloc_ok e \<and> error_codes_ok e \<and> replies_ok e"

text \<open>\<open>bstep k b b'\<close>: a good state stays good, at the price of \<open>k\<close> identifiers at most.\<close>

definition bstep :: "nat \<Rightarrow> 'w buf_state \<Rightarrow> 'w buf_state \<Rightarrow> bool" where
  "bstep k b b' \<longleftrightarrow> (\<forall>m. buf_good b \<longrightarrow> id_room (k + m) (bfs b) \<longrightarrow>
     buf_good b' \<and> id_room m (bfs b') \<and> g_Blocksize b' = g_Blocksize b)"

lemma bstepD:
  assumes "bstep k b b'" and "buf_good b" and "id_room (k + m) (bfs b)"
  shows "buf_good b'" "id_room m (bfs b')" "g_Blocksize b' = g_Blocksize b"
  using assms by (auto simp: bstep_def)

lemma bstep_refl [simp, intro]: "bstep k b b"
  by (auto simp: bstep_def intro: id_room_less)

lemma bstep_trans: "bstep j b b' \<Longrightarrow> bstep k b' b'' \<Longrightarrow> j + k \<le> n \<Longrightarrow> bstep n b b''"
  unfolding bstep_def
proof (intro allI impI)
  fix m assume a: "\<forall>m. buf_good b \<longrightarrow> id_room (j + m) (bfs b) \<longrightarrow> buf_good b' \<and> id_room m (bfs b') \<and> g_Blocksize b' = g_Blocksize b"
    and c: "\<forall>m. buf_good b' \<longrightarrow> id_room (k + m) (bfs b') \<longrightarrow> buf_good b'' \<and> id_room m (bfs b'') \<and> g_Blocksize b'' = g_Blocksize b'"
    and n: "j + k \<le> n" and b: "buf_good b" "id_room (n + m) (bfs b)"
  have "id_room (j + (k + m)) (bfs b)" using b(2) by (rule id_room_less) (use n in simp)
  with a b(1) have "buf_good b' \<and> id_room (k + m) (bfs b') \<and> g_Blocksize b' = g_Blocksize b" by blast
  with c show "buf_good b'' \<and> id_room m (bfs b'') \<and> g_Blocksize b'' = g_Blocksize b" by auto
qed

interpretation buf_steps: metered bstep
  by unfold_locales (auto intro: bstep_trans)

lemmas bstep_less = buf_steps.less

lemma bstepI:
  assumes "\<And>m. buf_good b \<Longrightarrow> id_room (k + m) (bfs b) \<Longrightarrow> buf_good b' \<and> id_room m (bfs b') \<and> g_Blocksize b' = g_Blocksize b"
  shows "bstep k b b'"
  using assms by (simp add: bstep_def)

text \<open>Steps that take no connection.\<close>

lemma io_next_id: "io_ok p s s' \<Longrightarrow> next_id s' = next_id s"
  by (auto simp: io_ok_def touch_okD(3))

lemma id_room_keep: "next_id s' = next_id s \<Longrightarrow> id_room (k + m) s \<Longrightarrow> id_room m s'"
  by (simp add: id_room_def)

lemma bstep_io:
  assumes "buf_good b \<Longrightarrow> buf_io p b b'"
  shows "bstep k b b'"
proof (rule bstepI)
  fix m assume b: "buf_good b" "id_room (k + m) (bfs b)"
  note io = buf_ioD [OF assms [OF b(1)]]
  show "buf_good b' \<and> id_room m (bfs b') \<and> g_Blocksize b' = g_Blocksize b"
    using io(2,3) io(5) b id_room_keep [OF io_next_id [OF io(1)] b(2)] by (simp add: buf_good_def)
qed

lemma bstep_fs:
  assumes "fs_inv (bfs b) \<Longrightarrow> fs_inv t" and "next_id t = next_id (bfs b)"
  shows "bstep k b (b\<lparr>bfs := t\<rparr>)"
  by (rule bstepI) (use assms in \<open>auto simp: buf_good_def intro: id_room_keep [OF assms(2)]\<close>)

lemma bstep_lib:
  assumes "onLibB f b = (x, b')" and "\<And>l. lib_same l (snd (f l))"
  shows "bstep k b b'"
proof -
  from assms obtain l where b': "b' = b\<lparr>bfs := put_lib l (bfs b)\<rparr>" and l: "lib_same (get_lib (bfs b)) l"
    by (auto simp: onLibB_def split: prod.splits) (metis snd_conv)
  have t: "fs_touch (bfs b) (put_lib l (bfs b))"
    using put_lib_touch [OF l, of "mcache (bfs b)"] by simp
  show ?thesis
    unfolding b' by (rule bstep_fs [OF fs_touch_inv [OF t] touch_okD(3) [OF fs_touch_conns [OF t]]])
qed

lemma bstep_mem: "onLibB (mem_ok e) b = (x, b') \<Longrightarrow> bstep k b b'"
  by (erule bstep_lib) (metis lib_same_mem prod.collapse)

section \<open>The operations\<close>

lemma bstep_Open:
  assumes "env_ok e" and "iFuseBufferedFsOpen e path fl b = Some ((st, fd), b')"
  shows "bstep 1 b b'"
proof (rule bstepI)
  fix m assume b: "buf_good b" "id_room (1 + m) (bfs b)"
  from assms(2) obtain t where t: "iFuseFsOpen e path fl (bfs b) = Some ((st, fd), t)" and b': "b' = b\<lparr>bfs := t\<rparr>"
    by (auto simp: iFuseBufferedFsOpen_def onFs_def)
  have i: "fs_inv (bfs b)" "calloc_ok e" "error_codes_ok e" "conn_room (bfs b)"
    using assms(1) b id_room_conn [OF b(2)] by (simp_all add: buf_good_def env_ok_def)
  from fs_inv_step [OF step_open [OF i(4) t] i(1-3)] have "fs_inv t" .
  moreover have "id_room m t" using id_room_next [OF _ Open_next_id [OF i(1,2,4) t]] b(2) by simp
  ultimately show "buf_good b' \<and> id_room m (bfs b') \<and> g_Blocksize b' = g_Blocksize b"
    using b(1) by (simp add: b' buf_good_def)
qed

lemma bstep_below_close:
  assumes "onFs (iFuseFsClose e p) b = Some (st, b')"
  shows "bstep k b b'"
proof (rule bstepI)
  fix m assume b: "buf_good b" "id_room (k + m) (bfs b)"
  from assms obtain t where t: "iFuseFsClose e p (bfs b) = Some (st, t)" "b' = b\<lparr>bfs := t\<rparr>" by (auto simp: onFs_def)
  have i: "fs_inv (bfs b)" using b(1) by (simp add: buf_good_def)
  have "fs_inv t" using i t(1) by (rule Close_inv)
  moreover have "id_room m t" using Close_next_id [OF i t(1)] b(2) by (rule id_room_keep)
  ultimately show "buf_good b' \<and> id_room m (bfs b') \<and> g_Blocksize b' = g_Blocksize b"
    using b(1) by (simp add: t(2) buf_good_def)
qed

lemma bstep_flushDelta:
  assumes "flushDelta e p b = Some (st, b')"
  shows "bstep k b b'"
proof (rule bstep_io)
  assume "buf_good b"
  moreover from assms obtain d where "fd_heap (fds (bfs b)) p = Some d" by (auto simp: flushDelta_def)
  ultimately show "buf_io p b b'" using flushDelta_live [of b p d e] assms by (auto simp: buf_good_def)
qed

lemma bstep_Close:
  assumes "iFuseBufferedFsClose e p b = Some (st, b')"
  shows "bstep k b b'"
proof -
  from assms obtain d st1 b1 where d: "fd_heap (fds (bfs b)) p = Some d"
    and 1: "(if accmode (fd_openFlag d) \<noteq> O_RDONLY then flushDelta e p b else Some (0, b)) = Some (st1, b1)"
    by (auto simp: iFuseBufferedFsClose_def)
  have b1: "bstep 0 b b1" using 1 by (auto intro: bstep_flushDelta split: if_splits)
  let ?b2 = "b1\<lparr>g_CacheMap := map_erase (fd_fdId d) (g_CacheMap b1)\<rparr>"
  have b2: "bstep 0 b1 ?b2"
    by (rule bstepI) (auto simp: buf_good_def tables_ok_cache_erase)
  have "b' = b1 \<or> (\<exists>st2. onFs (iFuseFsClose e p) ?b2 = Some (st2, b'))"
    using assms d 1 by (auto simp: iFuseBufferedFsClose_def Let_def split: if_splits)
  then show ?thesis
    using b1 b2 by (auto intro: bstep_less bstep_below_close bstep_trans [of 0 b b1 0] bstep_trans [of 0 b ?b2 0])
qed

lemma Flush_good:
  assumes "buf_good b" and "iFuseBufferedFsFlush e p b = Some (st, b')"
  shows "buf_good b'"
proof -
  from assms(2) obtain d st1 b1 where d: "fd_heap (fds (bfs b)) p = Some d"
    and 1: "(if accmode (fd_openFlag d) \<noteq> O_RDONLY then flushDelta e p b else Some (0, b)) = Some (st1, b1)"
    by (auto simp: iFuseBufferedFsFlush_def)
  have b1: "buf_good b1"
    using 1 flushDelta_live [of b p d e] assms(1) d by (auto simp: buf_good_def dest: buf_ioD(2,5) split: if_splits)
  from assms(2) d 1 have "b' = b1 \<or> (\<exists>st2. onFs (iFuseFsFlush e p) b1 = Some (st2, b'))"
    by (auto simp: iFuseBufferedFsFlush_def split: if_splits)
  with b1 show ?thesis by (auto simp: onFs_def buf_good_def dest: fs_keeps_inv [OF Flush_keeps])
qed

text \<open>A buffer of the size of a block.\<close>

definition block_buf :: "'w buf_state \<Rightarrow> bytes \<Rightarrow> bool" where
  "block_buf b buf \<longleftrightarrow> length buf = nat (g_Blocksize b)"

lemma bstep_ReadBlock:
  assumes "env_ok e" and "iFuseBufferedFsReadBlock e p buf blockID b = Some ((st, buf'), b')"
    and "block_buf b buf"
  shows "bstep k b b'" "buf_good b \<Longrightarrow> block_buf b' buf'" "buf_good b \<Longrightarrow> st \<le> g_Blocksize b"
proof -
  from assms(2) obtain d where d: "fd_heap (fds (bfs b)) p = Some d" by (auto simp: iFuseBufferedFsReadBlock_def readBlock_def)
  have r: "replies_ok e" using assms(1) by (simp add: env_ok_def)
  have live: "buf_io p b b' \<and> length buf' = nat (g_Blocksize b) \<and> st \<le> g_Blocksize b" if "buf_good b"
    using readBlock_live [OF r, of b p d buf blockID] that d assms(2,3)
    by (auto simp: buf_good_def block_buf_def iFuseBufferedFsReadBlock_def)
  then show "bstep k b b'" by (intro bstep_io) auto
  show "buf_good b \<Longrightarrow> block_buf b' buf'" using live buf_ioD(3) [of p b b'] by (simp add: block_buf_def)
  show "buf_good b \<Longrightarrow> st \<le> g_Blocksize b" using live by simp
qed

lemma block_buf_zeros: "buf_good b \<Longrightarrow> block_buf b (zeros (getBufferCacheBlockSize b))"
  using block_size_nat(1) [OF tables_okD(1), of b] by (simp add: buf_good_def block_buf_def getBufferCacheBlockSize_def zeros_def)

end
