(* ===== verification/IFuse_PreloadLists.thy ===== *)
theory IFuse_PreloadLists
  imports IFuse_Preload IFuse_BufferedSteps
begin

text \<open>
  What holds of the preload lists (src/src/iFuse.Preload.cpp) between two operations, and that every
  step of a read keeps it: \<open>pblock_wf\<close> is the invariant of one preload block, \<open>lists_ok\<close> that of all
  lists of the heap (no block is in two lists, a list holds at most one block more than the
  configured number, no two of its blocks carry the same block number, a running thread belongs to
  the list its block is in).  The lemmas follow the functions of the file: joining and freeing a
  block, \<open>startPreload\<close>, and the passes of \<open>readPreload\<close> over its list.
\<close>

section \<open>Blocks and their threads\<close>

text \<open>
  A block in the list of the preload \<open>pp\<close>: its thread is to run for \<open>pp\<close>, or has ended and waits
  to be joined, or was joined; a completed block has a descriptor.
\<close>

definition pblock_wf :: "nat \<Rightarrow> iFusePreloadPBlock \<Rightarrow> bool" where
  "pblock_wf pp pb \<longleftrightarrow>
     (case pb_thread pb of
        No_thread \<Rightarrow> pb_threadJoined pb \<and> pb_status pb \<in> {PBLOCK_COMPLETED, PBLOCK_TASK_FAILED}
      | To_run pp' \<Rightarrow> pp' = pp \<and> \<not> pb_threadJoined pb \<and> pb_status pb = PBLOCK_RUNNING
      | Ended \<Rightarrow> \<not> pb_threadJoined pb \<and> pb_status pb \<in> {PBLOCK_COMPLETED, PBLOCK_TASK_FAILED})
     \<and> (pb_status pb = PBLOCK_COMPLETED \<longrightarrow> pb_fd pb \<noteq> None)"

text \<open>A block nobody will wait for.\<close>

definition pblock_idle :: "iFusePreloadPBlock \<Rightarrow> bool" where
  "pblock_idle pb \<longleftrightarrow> pb_thread pb = No_thread \<and> (pb_threadJoined pb \<or> pb_status pb = PBLOCK_CREATION_FAILED)"

abbreviation put_pblock :: "nat \<Rightarrow> iFusePreloadPBlock \<Rightarrow> 'w buf_state \<Rightarrow> 'w preload_state \<Rightarrow> 'w preload_state" where
  "put_pblock q pb b s \<equiv> s\<lparr>bufs := b, pblock_heap := (pblock_heap s)(q \<mapsto> pb)\<rparr>"

abbreviation del_pblock :: "nat \<Rightarrow> 'w buf_state \<Rightarrow> 'w preload_state \<Rightarrow> 'w preload_state" where
  "del_pblock q b s \<equiv> s\<lparr>bufs := b, pblock_heap := (pblock_heap s)(q := None)\<rparr>"

lemma onBufD: "onBuf f s = Some (x, s') \<Longrightarrow> \<exists>b. f (bufs s) = Some (x, b) \<and> s' = s\<lparr>bufs := b\<rparr>"
  by (auto simp: onBuf_def)

lemma onLibP_mem:
  assumes "onLibP (mem_ok e) s = (ok, s')"
  shows "\<exists>b. s' = s\<lparr>bufs := b\<rparr> \<and> bstep 0 (bufs s) b"
  using assms by (auto simp: onLibP_def bstep_mem split: prod.splits)

lemma onLibP_ext:
  assumes "onLibP (ext_call f) s = (ok, s')"
  shows "\<exists>b. s' = s\<lparr>bufs := b\<rparr> \<and> bstep 0 (bufs s) b"
proof -
  from assms obtain b where b: "onLibB (ext_call f) (bufs s) = (ok, b)" "s' = s\<lparr>bufs := b\<rparr>"
    by (auto simp: onLibP_def split: prod.splits)
  have "bstep 0 (bufs s) b" by (rule bstep_lib [OF b(1)]) (simp add: ext_call_def case_prod_unfold Let_def)
  with b(2) show ?thesis by blast
qed

lemma open_task_ok:
  assumes env: "env_ok e" and q: "pblock_heap s q = Some pb" and run: "open_task e pp q s = Some (st, s')"
  shows "\<exists>pb' b. s' = put_pblock q pb' b s \<and> bstep 1 (bufs s) b \<and> pb' = pb\<lparr>pb_fd := pb_fd pb'\<rparr>
    \<and> (0 \<le> st \<longrightarrow> pb_fd pb' \<noteq> None)"
proof (cases "pb_fd pb")
  case (Some p)
  then show ?thesis using q run by (intro exI [of _ pb] exI [of _ "bufs s"]) (auto simp: open_task_def fun_upd_idem)
next
  case None
  with q run obtain path st1 fd s1 where o: "onBuf (iFuseBufferedFsOpen e path O_RDONLY) s = Some ((st1, fd), s1)"
    and r: "(if st1 < 0 then Some (st1, s1)
             else do { p \<leftarrow> fd; Some (st1, set_pblock q (pb\<lparr>pb_fd := Some p\<rparr>) s1) }) = Some (st, s')"
    by (auto simp: open_task_def)
  from onBufD [OF o] obtain b where b: "iFuseBufferedFsOpen e path O_RDONLY (bufs s) = Some ((st1, fd), b)" "s1 = s\<lparr>bufs := b\<rparr>" by blast
  have step: "bstep 1 (bufs s) b" using env b(1) by (rule bstep_Open)
  show ?thesis
  proof (cases "st1 < 0")
    case True
    with r b q step show ?thesis by (intro exI [of _ pb] exI [of _ b]) (auto simp: fun_upd_idem)
  next
    case False
    with r b step show ?thesis
      by (cases fd) (auto simp: set_pblock_def intro!: exI [of _ "pb\<lparr>pb_fd := fd\<rparr>"] exI [of _ b])
  qed
qed

lemma preloadTask_ok:
  assumes env: "env_ok e" and q: "pblock_heap s q = Some pb" and run: "preloadTask e pp q s = Some s'"
  shows "\<exists>pb' b. s' = put_pblock q pb' b s \<and> bstep 1 (bufs s) b \<and> pb_blockID pb' = pb_blockID pb
    \<and> pb_threadJoined pb' = pb_threadJoined pb \<and> pb_thread pb' = Ended
    \<and> (pb_status pb' = PBLOCK_TASK_FAILED \<or> pb_status pb' = PBLOCK_COMPLETED \<and> pb_fd pb' \<noteq> None)"
proof -
  obtain ok s1 where 1: "onLibP (mem_ok e) s = (ok, s1)" by force
  from onLibP_mem [OF 1] obtain b1 where b1: "s1 = s\<lparr>bufs := b1\<rparr>" "bstep 0 (bufs s) b1" by blast
  show ?thesis
  proof (cases ok)
    case False
    with run 1 q b1 show ?thesis
      by (auto simp: preloadTask_def end_task_def set_pblock_def intro: bstep_less
          intro!: exI [of _ "pb\<lparr>pb_status := PBLOCK_TASK_FAILED, pb_thread := Ended\<rparr>"] exI [of _ b1])
  next
    case True
    with run 1 obtain st2 s2 where 2: "open_task e pp q s1 = Some (st2, s2)" by (auto simp: preloadTask_def)
    have "pblock_heap s1 q = Some pb" using q b1 by simp
    from open_task_ok [OF env this 2] obtain pb2 b2 where
      s2: "s2 = put_pblock q pb2 b2 s1" "bstep 1 (bufs s1) b2" "pb2 = pb\<lparr>pb_fd := pb_fd pb2\<rparr>"
        "0 \<le> st2 \<longrightarrow> pb_fd pb2 \<noteq> None" by blast
    have step: "bstep 1 (bufs s) b2" using bstep_trans [OF b1(2) s2(2) [unfolded b1(1), simplified]] by simp
    have pb2: "pb_blockID pb2 = pb_blockID pb" "pb_threadJoined pb2 = pb_threadJoined pb"
      by (subst s2(3), simp)+
    show ?thesis
    proof (cases "st2 < 0")
      case neg: True
      with run 1 True 2 s2(1) b1(1) step pb2 show ?thesis
        by (auto simp: preloadTask_def end_task_def set_pblock_def
            intro!: exI [of _ "pb2\<lparr>pb_status := PBLOCK_TASK_FAILED, pb_thread := Ended\<rparr>"] exI [of _ b2])
    next
      case False
      let ?z = "zeros (getBufferCacheBlockSize b2)"
      from run 1 True 2 False s2(1) obtain p st3 buf s3 where p: "pb_fd pb2 = Some p"
        and 3: "onBuf (iFuseBufferedFsReadBlock e p ?z (pb_blockID pb2)) s2 = Some ((st3, buf), s3)"
        and s': "end_task q (if st3 < 0 then PBLOCK_TASK_FAILED else PBLOCK_COMPLETED) s3 = Some s'"
        by (auto simp: preloadTask_def)
      from onBufD [OF 3] s2(1) obtain b3 where
        b3: "iFuseBufferedFsReadBlock e p ?z (pb_blockID pb2) b2 = Some ((st3, buf), b3)" "s3 = s2\<lparr>bufs := b3\<rparr>" by auto
      have "bstep 0 b2 b3"
      proof (rule bstepI)
        fix m assume g: "buf_good b2" "id_room (0 + m) (bfs b2)"
        from bstep_ReadBlock(1) [OF env b3(1) block_buf_zeros [OF g(1)], of 0] g
        show "buf_good b3 \<and> id_room m (bfs b3) \<and> g_Blocksize b3 = g_Blocksize b2" by (auto dest: bstepD)
      qed
      with step have "bstep 1 (bufs s) b3" by (rule bstep_trans) simp
      with s' b3(2) s2(1) b1(1) p pb2 show ?thesis
        by (auto simp: end_task_def set_pblock_def
            intro!: exI [of _ "pb2\<lparr>pb_status := if st3 < 0 then PBLOCK_TASK_FAILED else PBLOCK_COMPLETED, pb_thread := Ended\<rparr>"] exI [of _ b3])
    qed
  qed
qed

text \<open>Waiting for a block: afterwards it is joined, its number is the same.\<close>

lemma join_block_ok:
  assumes env: "env_ok e" and q: "pblock_heap s q = Some pb" and wf: "pblock_wf pp pb" and run: "join_block e q s = Some s'"
  shows "\<exists>pb' b. s' = put_pblock q pb' b s \<and> bstep 1 (bufs s) b \<and> pb_blockID pb' = pb_blockID pb
    \<and> pblock_wf pp pb' \<and> pb_threadJoined pb'"
proof (cases "pb_threadJoined pb")
  case True
  with q wf run show ?thesis
    by (intro exI [of _ pb] exI [of _ "bufs s"]) (auto simp: join_block_def fun_upd_idem)
next
  case False
  have st: "pb_status pb \<in> {PBLOCK_RUNNING, PBLOCK_INIT, PBLOCK_COMPLETED, PBLOCK_TASK_FAILED}"
    using wf by (auto simp: pblock_wf_def split: preloadThread.splits)
  show ?thesis
  proof (cases "pb_thread pb")
    case No_thread
    with wf False show ?thesis by (simp add: pblock_wf_def)
  next
    case Ended
    with wf False q run st show ?thesis
      by (intro exI [of _ "pb\<lparr>pb_thread := No_thread, pb_threadJoined := True\<rparr>"] exI [of _ "bufs s"])
        (auto simp: join_block_def pthread_join_def set_pblock_def pblock_wf_def)
  next
    case (To_run pp')
    from run q st False To_run obtain s1 where 1: "preloadTask e pp' q s = Some s1"
      by (auto simp: join_block_def pthread_join_def)
    from preloadTask_ok [OF env q 1] obtain pb1 b where
      s1: "s1 = put_pblock q pb1 b s" "bstep 1 (bufs s) b" "pb_blockID pb1 = pb_blockID pb"
      "pb_status pb1 = PBLOCK_TASK_FAILED \<or> pb_status pb1 = PBLOCK_COMPLETED \<and> pb_fd pb1 \<noteq> None" by blast
    have "s' = put_pblock q (pb1\<lparr>pb_thread := No_thread, pb_threadJoined := True\<rparr>) b s"
      using run q st False To_run 1 s1(1) by (auto simp: join_block_def pthread_join_def set_pblock_def)
    moreover have "pblock_wf pp (pb1\<lparr>pb_thread := No_thread, pb_threadJoined := True\<rparr>)"
      using s1(4) by (auto simp: pblock_wf_def)
    ultimately show ?thesis using s1(2,3) by (intro exI) auto
  qed
qed

lemma joined_idle: "pblock_wf pp pb \<Longrightarrow> pb_threadJoined pb \<Longrightarrow> pblock_idle pb"
  by (auto simp: pblock_wf_def pblock_idle_def split: preloadThread.splits)

lemma join_idle: "pblock_heap s q = Some pb \<Longrightarrow> pblock_idle pb \<Longrightarrow> join_block e q s = Some s"
  by (auto simp: join_block_def pblock_idle_def)

lemma free_idle_ok:
  assumes q: "pblock_heap s q = Some pb" and idle: "pblock_idle pb" and run: "freePreloadPBlock e q s = Some s'"
  shows "\<exists>b. s' = del_pblock q b s \<and> bstep 0 (bufs s) b"
proof (cases "pb_fd pb")
  case None
  with run q join_idle [OF q idle] show ?thesis
    by (intro exI [of _ "bufs s"]) (auto simp: freePreloadPBlock_def)
next
  case (Some p)
  with run q join_idle [OF q idle, of e] obtain st s2 where 2: "onBuf (iFuseBufferedFsClose e p) s = Some (st, s2)"
    and s': "s' = s2\<lparr>pblock_heap := (pblock_heap s2)(q := None)\<rparr>" by (auto simp: freePreloadPBlock_def)
  from onBufD [OF 2] obtain b where b: "iFuseBufferedFsClose e p (bufs s) = Some (st, b)" "s2 = s\<lparr>bufs := b\<rparr>" by blast
  from s' b(2) bstep_Close [OF b(1)] show ?thesis by (intro exI [of _ b]) simp
qed

lemma free_pblock_ok:
  assumes env: "env_ok e" and q: "pblock_heap s q = Some pb" and wf: "pblock_wf pp pb"
    and run: "freePreloadPBlock e q s = Some s'"
  shows "\<exists>b. s' = del_pblock q b s \<and> bstep 1 (bufs s) b"
proof -
  from run obtain s1 where 1: "join_block e q s = Some s1" by (auto simp: freePreloadPBlock_def)
  from join_block_ok [OF env q wf 1] obtain pb1 b1 where
    s1: "s1 = put_pblock q pb1 b1 s" "bstep 1 (bufs s) b1" "pblock_wf pp pb1" "pb_threadJoined pb1" by blast
  have q1: "pblock_heap s1 q = Some pb1" "pblock_idle pb1" using s1 by (auto intro: joined_idle)
  have "freePreloadPBlock e q s1 = Some s'"
    using run 1 join_idle [OF q1, of e] by (simp add: freePreloadPBlock_def)
  from free_idle_ok [OF q1 this] obtain b where "s' = del_pblock q b s1" "bstep 0 (bufs s1) b" by blast
  with s1(1,2) show ?thesis by (intro exI [of _ b]) (auto intro: bstep_trans)
qed

section \<open>The lists of blocks\<close>

text \<open>
  \<open>lists_ok n next L H\<close>: \<open>L\<close> gives the list of each preload and \<open>H\<close> the blocks. A block is in one
  list at most; one with a thread is in the list of the preload the thread works for. The
  numbers of a list's blocks differ, and there are at most \<open>n + 1\<close>.
\<close>

definition numbers :: "(nat \<rightharpoonup> iFusePreloadPBlock) \<Rightarrow> nat list \<Rightarrow> 32 word list" where
  "numbers H ps = map (\<lambda>q. case H q of Some pb \<Rightarrow> pb_blockID pb | None \<Rightarrow> 0) ps"

definition list_ok :: "nat \<Rightarrow> (nat \<rightharpoonup> iFusePreloadPBlock) \<Rightarrow> nat \<Rightarrow> nat list \<Rightarrow> bool" where
  "list_ok n H pp ps \<longleftrightarrow> distinct ps \<and> length ps \<le> n + 1 \<and> distinct (numbers H ps)
     \<and> (\<forall>q \<in> set ps. \<exists>pb. H q = Some pb \<and> pblock_wf pp pb)"

definition lists_ok :: "nat \<Rightarrow> nat \<Rightarrow> (nat \<rightharpoonup> nat list) \<Rightarrow> (nat \<rightharpoonup> iFusePreloadPBlock) \<Rightarrow> bool" where
  "lists_ok n next L H \<longleftrightarrow> (\<forall>pp ps. L pp = Some ps \<longrightarrow> pp < next \<and> list_ok n H pp ps)
     \<and> (\<forall>pp pp' ps ps' q. L pp = Some ps \<longrightarrow> L pp' = Some ps' \<longrightarrow> q \<in> set ps \<longrightarrow> q \<in> set ps' \<longrightarrow> pp = pp')
     \<and> (\<forall>q pb. H q = Some pb \<longrightarrow> q < next \<and> (pb_thread pb = No_thread \<or> (\<exists>pp ps. L pp = Some ps \<and> q \<in> set ps)))"

lemma numbers_cong:
  assumes "\<And>q. q \<in> set ps \<Longrightarrow> map_option pb_blockID (H' q) = map_option pb_blockID (H q)"
  shows "numbers H' ps = numbers H ps"
  unfolding numbers_def
proof (rule map_cong [OF refl])
  fix q assume "q \<in> set ps"
  from assms [OF this] show "(case H' q of Some pb \<Rightarrow> pb_blockID pb | None \<Rightarrow> 0) = (case H q of Some pb \<Rightarrow> pb_blockID pb | None \<Rightarrow> 0)"
    by (cases "H' q"; cases "H q") auto
qed

lemma numbers_other [simp]: "q \<notin> set ps \<Longrightarrow> numbers (H(q := x)) ps = numbers H ps"
  by (auto simp: numbers_def)

lemma numbers_simps [simp]:
  "numbers H [] = []"
  "numbers H (q # ps) = (case H q of Some pb \<Rightarrow> pb_blockID pb | None \<Rightarrow> 0) # numbers H ps"
  "numbers H (ps @ qs) = numbers H ps @ numbers H qs"
  "length (numbers H ps) = length ps"
  by (auto simp: numbers_def)

lemma list_ok_other: "q \<notin> set ps \<Longrightarrow> list_ok n (H(q := x)) pp ps = list_ok n H pp ps"
  by (auto simp: list_ok_def split: if_splits)

lemma lists_okD:
  assumes "lists_ok n next L H" and "L pp = Some ps"
  shows "list_ok n H pp ps" "pp < next" "distinct ps" "length ps \<le> n + 1" "distinct (numbers H ps)"
    "q \<in> set ps \<Longrightarrow> \<exists>pb. H q = Some pb \<and> pblock_wf pp pb"
    "L pp' = Some ps' \<Longrightarrow> q \<in> set ps \<Longrightarrow> q \<in> set ps' \<Longrightarrow> pp = pp'"
  using assms by (auto simp: lists_ok_def list_ok_def)

lemma distinct_numbers_removeAll: "distinct (numbers H ps) \<Longrightarrow> distinct (numbers H (removeAll q ps))"
  unfolding numbers_def by (simp add: removeAll_filter_not_eq distinct_map_filter)

lemma list_ok_removeAll: "list_ok n H pp ps \<Longrightarrow> list_ok n H pp (removeAll q ps)"
  by (auto simp: list_ok_def distinct_removeAll distinct_numbers_removeAll intro: order.trans [OF length_removeAll_less_eq])

text \<open>A change of one block of a list.\<close>

lemma lists_ok_update:
  assumes ok: "lists_ok n next L H" and q: "L pp = Some ps" "q \<in> set ps" "H q = Some pb"
    and pb': "pblock_wf pp pb'" "pb_blockID pb' = pb_blockID pb"
  shows "lists_ok n next L (H(q \<mapsto> pb'))"
proof -
  have num: "numbers (H(q \<mapsto> pb')) xs = numbers H xs" for xs
    by (rule numbers_cong) (use q(3) pb'(2) in auto)
  have "list_ok n (H(q \<mapsto> pb')) r rs" if "L r = Some rs" for r rs
  proof (cases "q \<in> set rs")
    case True
    with lists_okD(7) [OF ok q(1) that q(2)] have "r = pp" by simp
    with lists_okD(1) [OF ok that] pb'(1) show ?thesis by (auto simp: list_ok_def num)
  qed (use lists_okD(1) [OF ok that] in \<open>simp add: list_ok_other\<close>)
  with ok q show ?thesis by (auto simp: lists_ok_def)
qed

text \<open>Taking a block off its list: with the block gone, or idle and kept.\<close>

lemma lists_ok_remove:
  assumes ok: "lists_ok n next L H" and q: "L pp = Some ps" "q \<in> set ps"
  shows "lists_ok n next (L(pp \<mapsto> removeAll q ps)) (H(q := None))"
proof -
  have "list_ok n (H(q := None)) r rs" if "(L(pp \<mapsto> removeAll q ps)) r = Some rs" for r rs
  proof -
    have "q \<notin> set rs" using that lists_okD(7) [OF ok q(1) _ q(2)] by (auto split: if_splits)
    moreover have "list_ok n H r rs"
      using that lists_okD(1) [OF ok] q(1) list_ok_removeAll by (auto split: if_splits)
    ultimately show ?thesis by (simp add: list_ok_other)
  qed
  with ok q show ?thesis unfolding lists_ok_def
    by (auto split: if_splits) (metis (lifting) Diff_iff option.inject set_removeAll singletonD)+
qed

lemma lists_ok_detach:
  assumes ok: "lists_ok n next L H" and q: "L pp = Some ps" "H q = Some pb" "pb_thread pb = No_thread"
  shows "lists_ok n next (L(pp \<mapsto> removeAll q ps)) H"
proof -
  have "list_ok n H r rs" if "(L(pp \<mapsto> removeAll q ps)) r = Some rs" for r rs
    using that lists_okD(1) [OF ok] q(1) list_ok_removeAll by (auto split: if_splits)
  with ok q show ?thesis unfolding lists_ok_def
    by (auto split: if_splits) (metis (lifting) Diff_iff option.inject set_removeAll singletonD)+
qed

text \<open>A block in no list: freed, or just made.\<close>

lemma lists_ok_drop:
  assumes ok: "lists_ok n next L H" and q: "\<And>pp ps. L pp = Some ps \<Longrightarrow> q \<notin> set ps"
  shows "lists_ok n next L (H(q := None))"
  using ok q list_ok_other [of q] by (auto simp: lists_ok_def)

lemma lists_ok_fresh:
  assumes ok: "lists_ok n next L H" and q: "next \<le> q"
  shows "H q = None" "L q = None" "L pp = Some ps \<Longrightarrow> q \<notin> set ps"
proof -
  have lt: "x < next" if "H x = Some pb" for x pb using ok that unfolding lists_ok_def by blast
  show "H q = None" using lt [of q] q by (cases "H q") auto
  show "L q = None" using lists_okD(2) [OF ok, of q] q by (cases "L q") auto
  show "q \<notin> set ps" if "L pp = Some ps"
  proof
    assume "q \<in> set ps"
    from lists_okD(6) [OF ok that this] obtain pb where "H q = Some pb" by blast
    with \<open>H q = None\<close> show False by simp
  qed
qed

lemma lists_ok_more: "lists_ok n next L H \<Longrightarrow> next \<le> next' \<Longrightarrow> lists_ok n next' L H"
  by (fastforce simp: lists_ok_def)

lemma lists_ok_idle:
  assumes ok: "lists_ok n next L H" and q: "next \<le> q" "q < next'" and pb: "pb_thread pb = No_thread"
  shows "lists_ok n next' L (H(q \<mapsto> pb))"
proof -
  have "list_ok n (H(q \<mapsto> pb)) r rs" if "L r = Some rs" for r rs
    using that lists_okD(1) [OF ok that] lists_ok_fresh(3) [OF ok q(1) that] by (simp add: list_ok_other)
  with lists_ok_more [OF ok, of next'] q pb show ?thesis by (auto simp: lists_ok_def)
qed

lemma lists_ok_add:
  assumes ok: "lists_ok n next L H" and q: "next \<le> q" "q < next'" and pp: "L pp = Some ps"
    and pb: "pblock_wf pp pb" "pb_blockID pb \<notin> set (numbers H ps)" and room: "length ps \<le> n"
  shows "lists_ok n next' (L(pp \<mapsto> ps @ [q])) (H(q \<mapsto> pb))"
proof -
  note fresh = lists_ok_fresh [OF ok q(1)]
  have "list_ok n (H(q \<mapsto> pb)) r rs" if r: "(L(pp \<mapsto> ps @ [q])) r = Some rs" for r rs
  proof (cases "r = pp")
    case True
    with r lists_okD(1) [OF ok pp] fresh(3) [OF pp] pb room show ?thesis by (auto simp: list_ok_def)
  next
    case False
    with r have L: "L r = Some rs" by simp
    show ?thesis using lists_okD(1) [OF ok L] fresh(3) [OF L] by (simp add: list_ok_other)
  qed
  moreover have "r = r'" if "(L(pp \<mapsto> ps @ [q])) r = Some rs" "(L(pp \<mapsto> ps @ [q])) r' = Some rs'" "x \<in> set rs" "x \<in> set rs'" for r r' rs rs' x
    using that lists_okD(7) [OF ok] pp fresh(3) by (fastforce split: if_splits)
  moreover have "r < next'" if "(L(pp \<mapsto> ps @ [q])) r = Some rs" for r rs
    using that lists_okD(2) [OF ok] pp q by (fastforce split: if_splits)
  moreover have "x < next' \<and> (pb_thread b = No_thread \<or> (\<exists>r rs. (L(pp \<mapsto> ps @ [q])) r = Some rs \<and> x \<in> set rs))"
    if "(H(q \<mapsto> pb)) x = Some b" for x b
  proof (cases "x = q")
    case False
    with that have x: "H x = Some b" by simp
    with ok have "x < next" "pb_thread b = No_thread \<or> (\<exists>r rs. L r = Some rs \<and> x \<in> set rs)" by (auto simp: lists_ok_def)
    moreover have "\<exists>r rs. (L(pp \<mapsto> ps @ [q])) r = Some rs \<and> x \<in> set rs" if "L r = Some rs" "x \<in> set rs" for r rs
      using that pp by (intro exI [of _ r]) auto
    ultimately show ?thesis using q by (meson order.strict_trans order.strict_trans2)
  qed (use q in auto)
  ultimately show ?thesis unfolding lists_ok_def by blast
qed

text \<open>Preloads come with an empty list and go with one.\<close>

lemma lists_ok_new:
  assumes ok: "lists_ok n next L H" and pp: "next \<le> pp" "pp < next'"
  shows "lists_ok n next' (L(pp \<mapsto> [])) H"
proof -
  note fresh = lists_ok_fresh(2) [OF ok pp(1)]
  have "list_ok n H r rs" if "(L(pp \<mapsto> [])) r = Some rs" for r rs
    using that lists_okD(1) [OF ok] by (auto simp: list_ok_def split: if_splits)
  with lists_ok_more [OF ok, of next'] pp fresh show ?thesis unfolding lists_ok_def
    by (auto split: if_splits) (metis option.distinct(1))+
qed

lemma lists_ok_free:
  assumes ok: "lists_ok n next L H" and pp: "L pp = Some []"
  shows "lists_ok n next (L(pp := None)) H"
  using assms unfolding lists_ok_def
  by (auto split: if_splits) (metis empty_iff empty_set option.inject)+

section \<open>Starting a thread\<close>

definition blists :: "'w preload_state \<Rightarrow> nat \<rightharpoonup> nat list" where
  "blists s pp = map_option pl_pblocks (preload_heap s pp)"

abbreviation num_blocks :: "'w preload_state \<Rightarrow> nat" where
  "num_blocks s \<equiv> nat (g_preloadNumBlocks s)"

text \<open>
  The lists of a state are well formed, that of \<open>pp\<close> is \<open>ps\<close>, and \<open>R\<close> holds idle blocks that are
  in no list.
\<close>

definition pre_lists :: "'w preload_state \<Rightarrow> nat \<Rightarrow> nat list \<Rightarrow> nat list \<Rightarrow> bool" where
  "pre_lists s pp ps R \<longleftrightarrow> lists_ok (num_blocks s) (preload_next s) (blists s) (pblock_heap s) \<and> blists s pp = Some ps
     \<and> distinct R \<and> (\<forall>q \<in> set R. \<exists>pb. pblock_heap s q = Some pb \<and> pblock_idle pb)
     \<and> (\<forall>q \<in> set R. \<forall>r rs. blists s r = Some rs \<longrightarrow> q \<notin> set rs)"

lemma pre_listsD:
  assumes "pre_lists s pp ps R"
  shows "lists_ok (num_blocks s) (preload_next s) (blists s) (pblock_heap s)" "blists s pp = Some ps" "distinct R"
    "q \<in> set R \<Longrightarrow> \<exists>pb. pblock_heap s q = Some pb \<and> pblock_idle pb"
    "q \<in> set R \<Longrightarrow> blists s r = Some rs \<Longrightarrow> q \<notin> set rs"
  using assms unfolding pre_lists_def by blast+

lemma pre_listsI:
  assumes "lists_ok (num_blocks s) (preload_next s) (blists s) (pblock_heap s)" and "blists s pp = Some ps" and "distinct R"
    and "\<And>q. q \<in> set R \<Longrightarrow> \<exists>pb. pblock_heap s q = Some pb \<and> pblock_idle pb"
    and "\<And>q r rs. q \<in> set R \<Longrightarrow> blists s r = Some rs \<Longrightarrow> q \<notin> set rs"
  shows "pre_lists s pp ps R"
  unfolding pre_lists_def using assms by blast

text \<open>What else stays: the other lists, the map and the number of blocks.\<close>

definition pre_frame :: "nat \<Rightarrow> 'w preload_state \<Rightarrow> 'w preload_state \<Rightarrow> bool" where
  "pre_frame pp s s' \<longleftrightarrow> g_PreloadMap s' = g_PreloadMap s \<and> g_preloadNumBlocks s' = g_preloadNumBlocks s
     \<and> preload_next s \<le> preload_next s' \<and> (\<forall>r. r \<noteq> pp \<longrightarrow> blists s' r = blists s r)"

lemma pre_frame_refl [simp, intro]: "pre_frame pp s s"
  by (simp add: pre_frame_def)

lemma pre_frame_trans: "pre_frame pp s s' \<Longrightarrow> pre_frame pp s' s'' \<Longrightarrow> pre_frame pp s s''"
  by (auto simp: pre_frame_def)

lemma lists_simps [simp]:
  "blists (s\<lparr>bufs := b\<rparr>) = blists s" "blists (s\<lparr>pblock_heap := H\<rparr>) = blists s" "blists (s\<lparr>preload_next := n\<rparr>) = blists s"
  "blists (s\<lparr>g_PreloadMap := m\<rparr>) = blists s"
  by (simp_all add: blists_def fun_eq_iff)

lemma lists_set_preload [simp]:
  "blists (s\<lparr>preload_heap := (preload_heap s)(pp \<mapsto> pl)\<rparr>) = (blists s)(pp \<mapsto> pl_pblocks pl)"
  by (simp add: blists_def fun_eq_iff)

lemma new_addr_ok:
  assumes "calloc_ok e" and "new_addr e s = (q, s')"
  shows "\<exists>b. q = Some (preload_next s) \<and> s' = s\<lparr>bufs := b, preload_next := Suc (preload_next s)\<rparr> \<and> bstep 0 (bufs s) b"
proof -
  obtain ok s1 where 1: "onLibP (mem_ok e) s = (ok, s1)" by force
  from onLibP_mem [OF 1] obtain b where b: "s1 = s\<lparr>bufs := b\<rparr>" "bstep 0 (bufs s) b" by blast
  have ok using 1 mem_ok_True [OF assms(1)] by (auto simp: onLibP_def onLibB_def split: prod.splits)
  with 1 b assms(2) show ?thesis by (auto simp: new_addr_def)
qed

lemma mem_True: "calloc_ok e \<Longrightarrow> onLibP (mem_ok e) s = (ok, s') \<Longrightarrow> ok"
  using mem_ok_True [of e] by (auto simp: onLibP_def onLibB_def split: prod.splits)

lemma startPreload_ok:
  assumes env: "env_ok e" and pre: "pre_lists s pp ps R" and room: "length ps \<le> num_blocks s"
    and new: "blockID \<notin> set (numbers (pblock_heap s) ps)"
    and run: "startPreload e pp blockID fd s = Some (st, s')"
  shows "\<exists>ps'. pre_lists s' pp ps' R \<and> pre_frame pp s s' \<and> bstep 0 (bufs s) (bufs s')
    \<and> (ps' = ps \<and> numbers (pblock_heap s') ps' = numbers (pblock_heap s) ps
       \<or> numbers (pblock_heap s') ps' = numbers (pblock_heap s) ps @ [blockID])"
proof -
  have mem: "calloc_ok e" using env by (simp add: env_ok_def)
  from pre obtain pl where pl: "preload_heap s pp = Some pl" "ps = pl_pblocks pl" by (auto simp: pre_lists_def blists_def)
  define q where "q = preload_next s"
  define pb where "pb = \<lparr>pb_fd = fd, pb_blockID = blockID, pb_status = PBLOCK_RUNNING, pb_threadJoined = False, pb_thread = No_thread\<rparr>"
  note ok = pre [unfolded pre_lists_def, THEN conjunct1]
  note fresh = lists_ok_fresh [OF ok, of q, unfolded q_def, OF order.refl, folded q_def]
  obtain a s1 where na: "new_addr e s = (a, s1)" by force
  from new_addr_ok [OF mem na] obtain b1 where
    1: "a = Some q" "s1 = s\<lparr>bufs := b1, preload_next := Suc q\<rparr>" "bstep 0 (bufs s) b1" by (auto simp: q_def)
  obtain ok2 s2 where 2: "onLibP (mem_ok e) (set_pblock q pb (set_pblock q \<lparr>pb_fd = None, pb_blockID = 0, pb_status = PBLOCK_INIT,
                                    pb_threadJoined = False, pb_thread = No_thread\<rparr> s1)) = (ok2, s2)" by force
  have ok2 using mem_True [OF mem 2] .
  from onLibP_mem [OF 2] 1(2) obtain b2 where
    b2: "s2 = s\<lparr>preload_next := Suc q, pblock_heap := (pblock_heap s)(q \<mapsto> pb), bufs := b2\<rparr>" "bstep 0 b1 b2"
    by (auto simp: set_pblock_def)
  obtain st3 s3 where 3: "onLibP (ext_call (c_pthread_create e)) s2 = (st3, s3)" by force
  from onLibP_ext [OF 3] b2 obtain b3 where
    b3: "s3 = s\<lparr>preload_next := Suc q, pblock_heap := (pblock_heap s)(q \<mapsto> pb), bufs := b3\<rparr>" "bstep 0 b2 b3" by auto
  have step: "bstep 0 (bufs s) b3" using 1(3) b2(2) b3(2) by (auto intro: bstep_trans)
  have run': "(if st3 \<noteq> 0
              then do { s4 \<leftarrow> freePreloadPBlock e q (set_pblock q (pb\<lparr>pb_status := PBLOCK_CREATION_FAILED\<rparr>) s3);
                        Some (- 1, s4) }
              else Some (st3, set_preload pp (pl\<lparr>pl_pblocks := pl_pblocks pl @ [q]\<rparr>)
                                   (set_pblock q (pb\<lparr>pb_thread := To_run pp\<rparr>) s3))) = Some (st, s')"
    using run 1(1) 2 3 \<open>ok2\<close> pl(1) na
    by (cases "pl_iRodsPath pl") (auto simp: startPreload_def newPreloadPBlock_def set_pblock_def pb_def Let_def)
  have notin: "q \<notin> set xs" if "blists s r = Some xs" for r xs using fresh(3) [OF that] .
  have notR: "q \<notin> set R" using pre fresh(1) by (auto simp: pre_lists_def)
  show ?thesis
  proof (cases "st3 = 0")
    case False
    let ?s = "set_pblock q (pb\<lparr>pb_status := PBLOCK_CREATION_FAILED\<rparr>) s3"
    from run' False have f: "freePreloadPBlock e q ?s = Some s'" by auto
    have "pblock_heap ?s q = Some (pb\<lparr>pb_status := PBLOCK_CREATION_FAILED\<rparr>)" by (simp add: set_pblock_def)
    from free_idle_ok [OF this _ f] obtain b4 where b4: "s' = del_pblock q b4 ?s" "bstep 0 (bufs ?s) b4"
      by (auto simp: pblock_idle_def pb_def)
    have H: "pblock_heap s' = pblock_heap s" "blists s' = blists s" "preload_next s' = Suc q" "bufs s' = b4"
      "g_preloadNumBlocks s' = g_preloadNumBlocks s" "g_PreloadMap s' = g_PreloadMap s"
      using b4(1) b3(1) fresh(1) by (auto simp: set_pblock_def fun_upd_idem)
    have "bstep 0 (bufs s) b4" using step b4(2) b3(1) by (auto simp: set_pblock_def intro: bstep_trans)
    with H lists_ok_more [OF ok, of "Suc q"] pre show ?thesis
      by (intro exI [of _ ps]) (auto simp: pre_lists_def pre_frame_def q_def)
  next
    case True
    with run' b3(1) have s': "s' = s\<lparr>bufs := b3, preload_next := Suc q, pblock_heap := (pblock_heap s)(q \<mapsto> pb\<lparr>pb_thread := To_run pp\<rparr>),
        preload_heap := (preload_heap s)(pp \<mapsto> pl\<lparr>pl_pblocks := ps @ [q]\<rparr>)\<rparr>"
      by (auto simp: set_pblock_def set_preload_def pl)
    have L: "blists s' = (blists s)(pp \<mapsto> ps @ [q])" by (simp add: s' blists_def fun_eq_iff)
    have "blists s pp = Some ps" using pre by (simp add: pre_lists_def)
    from lists_ok_add [OF ok _ _ this _ _ room, of q "Suc q" "pb\<lparr>pb_thread := To_run pp\<rparr>"] new
    have "lists_ok (num_blocks s) (Suc q) ((blists s)(pp \<mapsto> ps @ [q])) ((pblock_heap s)(q \<mapsto> pb\<lparr>pb_thread := To_run pp\<rparr>))"
      by (simp add: q_def pblock_wf_def pb_def)
    moreover have "\<forall>x \<in> set R. \<forall>r rs. blists s' r = Some rs \<longrightarrow> x \<notin> set rs"
    proof (intro ballI allI impI)
      fix x r rs assume x: "x \<in> set R" and rs: "blists s' r = Some rs"
      have out: "x \<notin> set xs" if "blists s y = Some xs" for y xs using pre x that unfolding pre_lists_def by blast
      show "x \<notin> set rs"
        using rs out [of r rs] out [OF \<open>blists s pp = Some ps\<close>] x notR by (cases "r = pp") (auto simp: L)
    qed
    moreover have "\<forall>x \<in> set R. \<exists>pb. pblock_heap s' x = Some pb \<and> pblock_idle pb"
    proof
      fix x assume x: "x \<in> set R"
      then have "\<exists>pb. pblock_heap s x = Some pb \<and> pblock_idle pb" using pre unfolding pre_lists_def by blast
      then show "\<exists>pb. pblock_heap s' x = Some pb \<and> pblock_idle pb" using x notR by (auto simp: s')
    qed
    moreover have "num_blocks s' = num_blocks s" "preload_next s' = Suc q" "distinct R"
      "pblock_heap s' = (pblock_heap s)(q \<mapsto> pb\<lparr>pb_thread := To_run pp\<rparr>)" "blists s' pp = Some (ps @ [q])"
      using pre by (simp_all add: s' pre_lists_def blists_def [of _ pp])
    ultimately have "pre_lists s' pp (ps @ [q]) R" unfolding pre_lists_def by (simp only: L HOL.simp_thms)
    moreover have "pre_frame pp s s'" unfolding pre_frame_def L by (simp add: s' q_def)
    moreover have "numbers (pblock_heap s') (ps @ [q]) = numbers (pblock_heap s) ps @ [blockID]"
      using notin [OF \<open>blists s pp = Some ps\<close>] by (simp add: s' pb_def)
    ultimately show ?thesis using step by (intro exI [of _ "ps @ [q]"]) (simp add: s')
  qed
qed

section \<open>Recycling\<close>

lemma take_recycled_ok:
  assumes pre: "pre_lists s pp ps R" and run: "take_recycled e R s = Some ((fd, rest), s')"
  shows "rest = tl R \<and> pre_lists s' pp ps rest \<and> pre_frame pp s s' \<and> bstep 0 (bufs s) (bufs s')
    \<and> numbers (pblock_heap s') ps = numbers (pblock_heap s) ps"
proof (cases R)
  case Nil
  with run pre show ?thesis by (auto simp: take_recycled_def)
next
  case (Cons q qs)
  from pre Cons obtain pb where pb: "pblock_heap s q = Some pb" "pblock_idle pb" by (auto simp: pre_lists_def)
  have out: "q \<notin> set rs" if "blists s r = Some rs" for r rs using pre that Cons unfolding pre_lists_def by auto
  let ?s = "set_pblock q (pb\<lparr>pb_fd := None\<rparr>) s"
  from run Cons pb have f: "freePreloadPBlock e q ?s = Some s'" "rest = qs" by (auto simp: take_recycled_def)
  have "pblock_heap ?s q = Some (pb\<lparr>pb_fd := None\<rparr>)" "pblock_idle (pb\<lparr>pb_fd := None\<rparr>)"
    using pb(2) by (auto simp: set_pblock_def pblock_idle_def)
  from free_idle_ok [OF this f(1)] obtain b where b: "s' = s\<lparr>bufs := b, pblock_heap := (pblock_heap s)(q := None)\<rparr>" "bstep 0 (bufs s) b"
    by (auto simp: set_pblock_def)
  have L: "blists s' = blists s" by (simp add: b(1) blists_def fun_eq_iff)
  have "lists_ok (num_blocks s) (preload_next s) (blists s) ((pblock_heap s)(q := None))"
    using pre out by (intro lists_ok_drop) (auto simp: pre_lists_def)
  moreover have "\<forall>x \<in> set qs. \<exists>pb. ((pblock_heap s)(q := None)) x = Some pb \<and> pblock_idle pb"
    using pre Cons by (auto simp: pre_lists_def)
  moreover have "\<forall>x \<in> set qs. \<forall>r rs. blists s r = Some rs \<longrightarrow> x \<notin> set rs" "distinct qs" "blists s pp = Some ps"
    using pre Cons by (auto simp: pre_lists_def)
  ultimately have "pre_lists s' pp ps qs" unfolding pre_lists_def L by (simp add: b(1))
  moreover have "numbers (pblock_heap s') ps = numbers (pblock_heap s) ps"
    using out [OF \<open>blists s pp = Some ps\<close>] by (simp add: b(1))
  moreover have "pre_frame pp s s'" unfolding pre_frame_def L by (simp add: b(1))
  ultimately show ?thesis using Cons f(2) b by simp
qed

lemma start_recycled_ok:
  assumes env: "env_ok e" and pre: "pre_lists s pp ps R" and room: "length ps \<le> num_blocks s"
    and new: "blockID \<notin> set (numbers (pblock_heap s) ps)"
    and run: "start_recycled e pp blockID R s = Some (rest, s')"
  shows "rest = tl R \<and> (\<exists>ps'. pre_lists s' pp ps' rest \<and> pre_frame pp s s' \<and> bstep 0 (bufs s) (bufs s')
    \<and> (numbers (pblock_heap s') ps' = numbers (pblock_heap s) ps
       \<or> numbers (pblock_heap s') ps' = numbers (pblock_heap s) ps @ [blockID]))"
proof -
  from run obtain fd s1 st where 1: "take_recycled e R s = Some ((fd, rest), s1)"
    and 2: "startPreload e pp blockID fd s1 = Some (st, s')" by (auto simp: start_recycled_def)
  from take_recycled_ok [OF pre 1] have t: "rest = tl R" "pre_lists s1 pp ps rest" "pre_frame pp s s1" "bstep 0 (bufs s) (bufs s1)"
    "numbers (pblock_heap s1) ps = numbers (pblock_heap s) ps" by blast+
  have "length ps \<le> num_blocks s1" "blockID \<notin> set (numbers (pblock_heap s1) ps)"
    using room new t(3,5) by (simp_all add: pre_frame_def)
  from startPreload_ok [OF env t(2) this 2] obtain ps' where
    "pre_lists s' pp ps' rest" "pre_frame pp s1 s'" "bstep 0 (bufs s1) (bufs s')"
    "numbers (pblock_heap s') ps' = numbers (pblock_heap s) ps \<or> numbers (pblock_heap s') ps' = numbers (pblock_heap s) ps @ [blockID]"
    using t(5) by auto
  with t show ?thesis by (auto intro!: exI [of _ ps'] intro: pre_frame_trans bstep_trans)
qed

section \<open>The window of blocks\<close>

text \<open>The block asked for and the \<open>n\<close> after it; their numbers differ, also where they wrap.\<close>

definition next_block :: "32 word \<Rightarrow> nat \<Rightarrow> 32 word" where
  "next_block b j = of_nat j + b + 1"

definition window :: "nat \<Rightarrow> 32 word \<Rightarrow> 32 word set" where
  "window n b = insert b (next_block b ` {..<n})"

lemma next_block_inj:
  assumes "next_block b i = next_block b j" and "i < 2 ^ 31" and "j < 2 ^ 31"
  shows "i = j"
proof -
  have "(of_nat i :: 32 word) = of_nat j" using assms(1) by (simp add: next_block_def)
  then have "unat (of_nat i :: 32 word) = unat (of_nat j :: 32 word)" by simp
  moreover have "unat (of_nat i :: 32 word) = i" "unat (of_nat j :: 32 word) = j"
    using assms(2,3) by (simp_all add: unat_of_nat)
  ultimately show ?thesis by simp
qed

lemma next_block_other: "j < 2 ^ 31 \<Longrightarrow> next_block b j \<noteq> b"
proof
  assume j: "j < 2 ^ 31" and "next_block b j = b"
  then have "(of_nat (Suc j) :: 32 word) = 0" by (simp add: next_block_def algebra_simps)
  then have "2 ^ 32 dvd Suc j" by (simp only: word_of_nat_eq_0_iff) simp
  then have "2 ^ 32 \<le> Suc j" by (rule dvd_imp_le) simp
  with j show False by simp
qed

lemma card_window: "finite (window n b)" "card (window n b) \<le> n + 1"
proof -
  show "finite (window n b)" by (simp add: window_def)
  have "card (window n b) \<le> Suc (card (next_block b ` {..<n}))" unfolding window_def by (rule card_insert_le_m1) simp_all
  also have "card (next_block b ` {..<n}) \<le> n" using card_image_le [of "{..<n}" "next_block b"] by simp
  finally show "card (window n b) \<le> n + 1" by simp
qed

text \<open>A list with numbers in the window has room for the missing ones.\<close>

lemma window_room:
  assumes "distinct xs" and "set xs \<subseteq> window n b" and "x \<in> window n b" and "x \<notin> set xs"
  shows "length xs \<le> n"
proof -
  have "length xs = card (set xs)" using assms(1) by (simp add: distinct_card)
  also have "\<dots> \<le> card (window n b - {x})" using assms(2,4) card_window(1) by (intro card_mono) auto
  also have "\<dots> \<le> n" using card_window [of n b] assms(3) by simp
  finally show ?thesis .
qed

text \<open>What is not taken off the list lies in the window.\<close>

definition old_number :: "int \<Rightarrow> 32 word \<Rightarrow> 32 word \<Rightarrow> bool" where
  "old_number n b x \<longleftrightarrow> x \<noteq> b \<and> (x < b \<or> b + word_of_int n < x)"

lemma kept_next:
  assumes n: "0 < n" "n \<le> 10" and x: "\<not> old_number n b x" "x \<noteq> b"
  shows "unat (x - b - 1) < nat n" "x = next_block b (unat (x - b - 1))" "x - b - 1 < word_of_int n"
proof -
  have le: "uint b < uint x" "uint x \<le> uint (b + word_of_int n)"
    using x by (auto simp: old_number_def word_less_def word_le_def word_uint_eq_iff not_less)
  have "uint (word_of_int n :: 32 word) = n" using n by (simp add: uint_word_of_int_eq take_bit_int_eq_self)
  then have sum: "uint (b + word_of_int n) = (uint b + n) mod 2 ^ 32" by (simp add: uint_word_ariths)
  have b: "0 \<le> uint b" "uint b < 2 ^ 32" using uint_lt2p [of b] by simp_all
  have "uint b + n < 2 ^ 32"
  proof (rule ccontr)
    assume "\<not> uint b + n < 2 ^ 32"
    have "(uint b + n) mod 2 ^ 32 = (uint b + n - 2 ^ 32) mod 2 ^ 32" by (simp only: minus_mod_self2)
    also have "\<dots> = uint b + n - 2 ^ 32"
      using \<open>\<not> uint b + n < 2 ^ 32\<close> b n by (intro mod_pos_pos_trivial) simp_all
    finally have "(uint b + n) mod 2 ^ 32 = uint b + n - 2 ^ 32" .
    with le sum b n show False by simp
  qed
  then have up: "uint x \<le> uint b + n" using le(2) sum b n by simp
  have sub: "uint (x - b - 1) = uint x - uint b - 1"
  proof -
    have "uint (x - b - 1) = (uint x - uint b - 1) mod 2 ^ 32" by (simp add: uint_word_ariths mod_simps)
    also have "\<dots> = uint x - uint b - 1" using le(1) up n by (intro mod_pos_pos_trivial) simp_all
    finally show ?thesis .
  qed
  show "unat (x - b - 1) < nat n" using sub up n le(1) by (simp flip: nat_uint_eq)
  show "x = next_block b (unat (x - b - 1))" by (simp add: next_block_def)
  show "x - b - 1 < word_of_int n"
    using sub up \<open>uint (word_of_int n :: 32 word) = n\<close> by (simp add: word_less_def)
qed

section \<open>Scanning the list\<close>

lemma numbers_set: "q \<in> set ps \<Longrightarrow> H q = Some pb \<Longrightarrow> pb_blockID pb \<in> set (numbers H ps)"
  by (force simp: numbers_def image_iff)

definition old_block :: "int \<Rightarrow> 32 word \<Rightarrow> (nat \<rightharpoonup> iFusePreloadPBlock) \<Rightarrow> nat \<Rightarrow> bool" where
  "old_block n b H q \<longleftrightarrow> (case H q of Some pb \<Rightarrow> old_number n b (pb_blockID pb) | None \<Rightarrow> False)"

lemma scan_ok:
  assumes n: "0 < n" "n \<le> 10"
    and run: "scan_pblocks n b H qs (has, removes, ex) = Some (has', removes', ex')" and ex: "length ex = nat n"
  shows "has' = (has \<or> b \<in> set (numbers H qs)) \<and> removes' = removes @ filter (old_block n b H) qs \<and> length ex' = nat n
    \<and> (\<forall>j < nat n. ex' ! j = (ex ! j \<or> next_block b j \<in> set (numbers H (filter (\<lambda>q. \<not> old_block n b H q) qs))))"
  using run ex
proof (induction qs arbitrary: has removes ex)
  case (Cons q qs)
  from Cons.prems(1) obtain pb where pb: "H q = Some pb" by (auto split: option.splits)
  let ?x = "pb_blockID pb"
  have ob: "old_block n b H q = old_number n b ?x" by (simp add: old_block_def pb)
  consider (has) "?x = b" | (old) "?x \<noteq> b" "old_number n b ?x" | (kept) "?x \<noteq> b" "\<not> old_number n b ?x" by blast
  then show ?case
  proof cases
    case has
    with Cons.prems pb have "scan_pblocks n b H qs (True, removes, ex) = Some (has', removes', ex')" by simp
    from Cons.IH [OF this Cons.prems(2)] pb has ob next_block_other [of _ b] n show ?thesis
      by (auto simp: old_number_def)
  next
    case old
    then have "?x < b \<or> b + word_of_int n < ?x" "b \<noteq> ?x" by (auto simp: old_number_def)
    with Cons.prems pb have "scan_pblocks n b H qs (has, removes @ [q], ex) = Some (has', removes', ex')" by auto
    from Cons.IH [OF this Cons.prems(2)] pb old ob show ?thesis by auto
  next
    case kept
    then have nold: "\<not> (?x < b \<or> b + word_of_int n < ?x)" "b \<noteq> ?x" by (auto simp: old_number_def)
    note k = kept_next [OF n kept(2,1)]
    let ?j = "unat (?x - b - 1)"
    from Cons.prems pb nold k(3) have "scan_pblocks n b H qs (has, removes, ex[?j := True]) = Some (has', removes', ex')" by simp
    from Cons.IH [OF this] Cons.prems(2) have IH: "has' = (has \<or> b \<in> set (numbers H qs))"
      "removes' = removes @ filter (old_block n b H) qs" "length ex' = nat n"
      "\<forall>j < nat n. ex' ! j = (ex[?j := True] ! j \<or> next_block b j \<in> set (numbers H (filter (\<lambda>q. \<not> old_block n b H q) qs)))"
      by simp_all
    have "(ex[?j := True] ! j \<or> Q) = (ex ! j \<or> next_block b j = ?x \<or> Q)" if "j < nat n" for j Q
    proof (cases "j = ?j")
      case False
      have "next_block b j \<noteq> ?x"
      proof
        assume "next_block b j = ?x"
        then have "next_block b j = next_block b ?j" using k(2) by simp
        then have "j = ?j" using that k(1) n by (intro next_block_inj) simp_all
        with False show False by simp
      qed
      with False show ?thesis by simp
    next
      case True
      then show ?thesis using k(2) that Cons.prems(2) by simp
    qed
    with IH pb kept ob show ?thesis by auto
  qed
qed simp

text \<open>What is kept, and how many of the window are missing.\<close>

lemma kept_window:
  assumes n: "0 < n" "n \<le> 10" and H: "\<forall>q \<in> set qs. H q \<noteq> None"
  shows "set (numbers H (filter (\<lambda>q. \<not> old_block n b H q) qs)) \<subseteq> window (nat n) b"
proof
  fix x assume "x \<in> set (numbers H (filter (\<lambda>q. \<not> old_block n b H q) qs))"
  then obtain q pb where q: "q \<in> set qs" "H q = Some pb" "x = pb_blockID pb" "\<not> old_number n b x"
    using H by (fastforce simp: numbers_def old_block_def)
  show "x \<in> window (nat n) b"
  proof (cases "x = b")
    case False
    from kept_next [OF n q(4) False] show ?thesis by (auto simp: window_def)
  qed (simp add: window_def)
qed

lemma window_missing:
  assumes xs: "distinct xs" "set xs \<subseteq> window n b" and n: "n \<le> 10" and ex: "length ex = n"
    "\<forall>j < n. ex ! j = (next_block b j \<in> set xs)"
  shows "length xs = (if b \<in> set xs then 1 else 0) + length (filter id ex)"
proof -
  have 1: "set xs = (if b \<in> set xs then {b} else {}) \<union> next_block b ` {j. j < n \<and> ex ! j}"
  proof
    show "set xs \<subseteq> (if b \<in> set xs then {b} else {}) \<union> next_block b ` {j. j < n \<and> ex ! j}"
      using xs(2) ex(2) by (fastforce simp: window_def)
    show "(if b \<in> set xs then {b} else {}) \<union> next_block b ` {j. j < n \<and> ex ! j} \<subseteq> set xs"
      using ex(2) by auto
  qed
  have "card (next_block b ` {j. j < n \<and> ex ! j}) = card {j. j < n \<and> ex ! j}"
    using n by (intro card_image) (auto intro!: inj_onI next_block_inj)
  moreover have 2: "b \<notin> next_block b ` {j. j < n \<and> ex ! j}" proof
    assume "b \<in> next_block b ` {j. j < n \<and> ex ! j}"
    then obtain j where "j < n" "b = next_block b j" by blast
    with next_block_other [of j b] n show False by simp
  qed
  moreover have "card {j. j < n \<and> ex ! j} = length (filter id ex)"
    using length_filter_conv_card [of id ex] ex(1) by simp
  moreover have "card (set xs) = card (if b \<in> set xs then {b} else {}) + card (next_block b ` {j. j < n \<and> ex ! j})"
    by (subst 1, rule card_Un_disjoint) (use 2 in auto)
  ultimately have "card (set xs) = (if b \<in> set xs then 1 else 0) + length (filter id ex)" by simp
  then show ?thesis using xs(1) by (simp add: distinct_card)
qed

section \<open>The steps of the loops\<close>

lemma join_in_list:
  assumes env: "env_ok e" and pre: "pre_lists s pp ps R" and q: "q \<in> set ps" and run: "join_block e q s = Some s'"
  shows "pre_lists s' pp ps R \<and> pre_frame pp s s' \<and> bstep 1 (bufs s) (bufs s')
    \<and> (\<forall>x. map_option pb_blockID (pblock_heap s' x) = map_option pb_blockID (pblock_heap s x))
    \<and> (\<exists>pb. pblock_heap s' q = Some pb \<and> pb_threadJoined pb) \<and> (\<forall>x. x \<noteq> q \<longrightarrow> pblock_heap s' x = pblock_heap s x)"
proof -
  from pre have ok: "lists_ok (num_blocks s) (preload_next s) (blists s) (pblock_heap s)" and L: "blists s pp = Some ps"
    by (simp_all add: pre_lists_def)
  from lists_okD(6) [OF ok L q] obtain pb where pb: "pblock_heap s q = Some pb" "pblock_wf pp pb" by blast
  from join_block_ok [OF env pb run] obtain pb' b where s': "s' = put_pblock q pb' b s" "bstep 1 (bufs s) b"
    "pb_blockID pb' = pb_blockID pb" "pblock_wf pp pb'" "pb_threadJoined pb'" by blast
  have notR: "q \<notin> set R" using pre L q unfolding pre_lists_def by blast
  have Ls: "blists s' = blists s" by (simp add: s'(1) blists_def fun_eq_iff)
  have "lists_ok (num_blocks s) (preload_next s) (blists s) ((pblock_heap s)(q \<mapsto> pb'))"
    by (rule lists_ok_update [OF ok L q pb(1) s'(4,3)])
  moreover have "\<forall>x \<in> set R. \<exists>pb. ((pblock_heap s)(q \<mapsto> pb')) x = Some pb \<and> pblock_idle pb"
    using pre notR by (auto simp: pre_lists_def)
  ultimately have "pre_lists s' pp ps R" using pre unfolding pre_lists_def Ls by (simp add: s'(1))
  moreover have "pre_frame pp s s'" unfolding pre_frame_def Ls by (simp add: s'(1))
  ultimately show ?thesis using s' pb(1) by simp
qed

lemma join_pblocks_ok:
  assumes env: "env_ok e" and pre: "pre_lists s pp ps R" and qs: "set qs \<subseteq> set ps" and run: "join_pblocks e qs s = Some s'"
  shows "pre_lists s' pp ps R \<and> pre_frame pp s s' \<and> bstep (length qs) (bufs s) (bufs s')
    \<and> (\<forall>x. map_option pb_blockID (pblock_heap s' x) = map_option pb_blockID (pblock_heap s x))
    \<and> (\<forall>q \<in> set qs. \<exists>pb. pblock_heap s' q = Some pb \<and> pb_threadJoined pb) \<and> (\<forall>x. x \<notin> set qs \<longrightarrow> pblock_heap s' x = pblock_heap s x)"
  using pre qs run
proof (induction qs arbitrary: s)
  case (Cons q qs)
  from Cons.prems(3) obtain s1 where 1: "join_block e q s = Some s1" "join_pblocks e qs s1 = Some s'" by auto
  from join_in_list [OF env Cons.prems(1) _ 1(1)] Cons.prems(2) have j: "pre_lists s1 pp ps R" "pre_frame pp s s1"
    "bstep 1 (bufs s) (bufs s1)" "\<forall>x. map_option pb_blockID (pblock_heap s1 x) = map_option pb_blockID (pblock_heap s x)"
    "\<exists>pb. pblock_heap s1 q = Some pb \<and> pb_threadJoined pb" "\<forall>x. x \<noteq> q \<longrightarrow> pblock_heap s1 x = pblock_heap s x" by auto
  from Cons.IH [OF j(1) _ 1(2)] Cons.prems(2) have r: "pre_lists s' pp ps R" "pre_frame pp s1 s'"
    "bstep (length qs) (bufs s1) (bufs s')" "\<forall>x. map_option pb_blockID (pblock_heap s' x) = map_option pb_blockID (pblock_heap s1 x)"
    "\<forall>q \<in> set qs. \<exists>pb. pblock_heap s' q = Some pb \<and> pb_threadJoined pb" "\<forall>x. x \<notin> set qs \<longrightarrow> pblock_heap s' x = pblock_heap s1 x" by auto
  have "bstep (length (q # qs)) (bufs s) (bufs s')" using j(3) r(3) by (rule bstep_trans) simp
  moreover have "\<exists>pb. pblock_heap s' q = Some pb \<and> pb_threadJoined pb" using r(5,6) j(5) by (cases "q \<in> set qs") auto
  ultimately show ?case using j r pre_frame_trans [OF j(2) r(2)] by simp
qed simp

text \<open>Blocks taken off the list are freed or recycled; all were joined.\<close>

lemma remove_pblocks_ok:
  assumes "pre_lists s pp ps R" and "set qs \<subseteq> set ps" and "distinct qs"
    and "\<forall>q \<in> set qs. \<exists>pb. pblock_heap s q = Some pb \<and> pb_threadJoined pb"
    and "remove_pblocks e pp qs s = Some (recycle, s')"
  shows "length recycle \<le> length qs \<and> pre_lists s' pp (filter (\<lambda>q. q \<notin> set qs) ps) (R @ recycle)
    \<and> pre_frame pp s s' \<and> bstep 0 (bufs s) (bufs s')
    \<and> (\<forall>x \<in> set ps - set qs. pblock_heap s' x = pblock_heap s x)"
  using assms
proof (induction qs arbitrary: s ps R recycle)
  case (Cons q qs)
  note pre = Cons.prems(1)
  from pre have ok: "lists_ok (num_blocks s) (preload_next s) (blists s) (pblock_heap s)" and L: "blists s pp = Some ps"
    by (simp_all add: pre_lists_def)
  from Cons.prems(5) obtain pl where pl: "preload_heap s pp = Some pl" by (cases "preload_heap s pp") auto
  then have ps: "pl_pblocks pl = ps" using L by (simp add: blists_def)
  let ?ps = "removeAll q ps"
  let ?s1 = "set_preload pp (pl\<lparr>pl_pblocks := ?ps\<rparr>) s"
  have q: "q \<in> set ps" using Cons.prems(2) by simp
  from Cons.prems(4) obtain pb where pb: "pblock_heap s q = Some pb" "pb_threadJoined pb" by auto
  from lists_okD(6) [OF ok L q] pb have wf: "pblock_wf pp pb" by simp
  have idle: "pblock_idle pb" using wf pb(2) by (rule joined_idle)
  have L1: "blists ?s1 = (blists s)(pp \<mapsto> ?ps)" by (simp add: set_preload_def)
  have H1: "pblock_heap ?s1 = pblock_heap s" "preload_next ?s1 = preload_next s" "g_PreloadMap ?s1 = g_PreloadMap s"
    "g_preloadNumBlocks ?s1 = g_preloadNumBlocks s" "bufs ?s1 = bufs s" by (simp_all add: set_preload_def)
  have notR: "q \<notin> set R" using pre L q unfolding pre_lists_def by blast
  have out: "x \<notin> set rs" if "x \<in> insert q (set R)" "blists ?s1 r = Some rs" for x r rs
  proof -
    have R: "x \<in> set R \<Longrightarrow> blists s r' = Some rs' \<Longrightarrow> x \<notin> set rs'" for r' rs' using pre unfolding pre_lists_def by blast
    have "q \<in> set rs' \<Longrightarrow> r' = pp" if "blists s r' = Some rs'" for r' rs' using lists_okD(7) [OF ok L that q] by simp
    with that R [of r rs] R [OF _ L] show ?thesis by (cases "r = pp") (auto simp: L1)
  qed
  have fil: "filter (\<lambda>x. x \<notin> set qs) ?ps = filter (\<lambda>x. x \<notin> set (q # qs)) ps"
    by (simp add: removeAll_filter_not_eq filter_filter) (rule filter_cong, auto)
  have sub: "set qs \<subseteq> set ?ps" "distinct qs" using Cons.prems(2,3) by auto
  have frame1: "pre_frame pp s ?s1" unfolding pre_frame_def L1 H1 by simp
  show ?case
  proof (cases "pb_fd pb \<noteq> None \<and> pb_status pb = PBLOCK_COMPLETED")
    case True
    from Cons.prems(5) pl ps pb True H1(1) obtain rest where
      r: "remove_pblocks e pp qs ?s1 = Some (rest, s')" "recycle = q # rest" by auto
    have "pb_thread pb = No_thread" using idle by (simp add: pblock_idle_def)
    from lists_ok_detach [OF ok L pb(1) this] have "lists_ok (num_blocks ?s1) (preload_next ?s1) (blists ?s1) (pblock_heap ?s1)"
      by (simp add: L1 H1)
    then have "pre_lists ?s1 pp ?ps (R @ [q])"
    proof (rule pre_listsI)
      show "blists ?s1 pp = Some ?ps" by (simp add: L1)
      show "distinct (R @ [q])" using notR pre_listsD(3) [OF pre] by simp
      show "\<exists>pb. pblock_heap ?s1 x = Some pb \<and> pblock_idle pb" if "x \<in> set (R @ [q])" for x
        using that idle pb(1) pre_listsD(4) [OF pre] unfolding H1 by auto
      show "x \<notin> set rs" if "x \<in> set (R @ [q])" "blists ?s1 r = Some rs" for x r rs
        using out [OF _ that(2), of x] that(1) by auto
    qed
    from Cons.IH [OF this sub _ r(1)] Cons.prems(4) H1
    have "length rest \<le> length qs \<and> pre_lists s' pp (filter (\<lambda>x. x \<notin> set qs) ?ps) ((R @ [q]) @ rest)
      \<and> pre_frame pp ?s1 s' \<and> bstep 0 (bufs ?s1) (bufs s') \<and> (\<forall>x \<in> set ?ps - set qs. pblock_heap s' x = pblock_heap ?s1 x)"
      by simp
    with r(2) frame1 H1 show ?thesis unfolding fil by (auto intro: pre_frame_trans)
  next
    case False
    from Cons.prems(5) pl ps pb False H1(1) obtain s2 where
      2: "freePreloadPBlock e q ?s1 = Some s2" "remove_pblocks e pp qs s2 = Some (recycle, s')" by (auto split: if_splits)
    have "pblock_heap ?s1 q = Some pb" using pb(1) by (simp add: H1)
    from free_idle_ok [OF this idle 2(1)] obtain b where s2: "s2 = del_pblock q b ?s1" "bstep 0 (bufs ?s1) b" by blast
    have L2: "blists s2 = (blists s)(pp \<mapsto> ?ps)" using L1 by (simp add: s2(1) blists_def fun_eq_iff)
    have H2: "pblock_heap s2 = (pblock_heap s)(q := None)" "preload_next s2 = preload_next s" "g_PreloadMap s2 = g_PreloadMap s"
      "g_preloadNumBlocks s2 = g_preloadNumBlocks s" "bufs s2 = b" by (simp_all add: s2(1) H1)
    from lists_ok_remove [OF ok L q] have "lists_ok (num_blocks s2) (preload_next s2) (blists s2) (pblock_heap s2)"
      by (simp add: L2 H2)
    then have p2: "pre_lists s2 pp ?ps R"
    proof (rule pre_listsI)
      show "blists s2 pp = Some ?ps" by (simp add: L2)
      show "distinct R" using pre_listsD(3) [OF pre] .
      show "\<exists>pb. pblock_heap s2 x = Some pb \<and> pblock_idle pb" if "x \<in> set R" for x
        using that notR pre_listsD(4) [OF pre that] unfolding H2 by auto
      show "x \<notin> set rs" if "x \<in> set R" "blists s2 r = Some rs" for x r rs
        using out [of x r rs] that unfolding L1 L2 by blast
    qed
    have j2: "\<forall>x \<in> set qs. \<exists>pb. pblock_heap s2 x = Some pb \<and> pb_threadJoined pb"
      using Cons.prems(3,4) by (auto simp: H2)
    from Cons.IH [OF p2 sub j2 2(2)]
    have r: "length recycle \<le> length qs \<and> pre_lists s' pp (filter (\<lambda>x. x \<notin> set qs) ?ps) (R @ recycle)
      \<and> pre_frame pp s2 s' \<and> bstep 0 (bufs s2) (bufs s') \<and> (\<forall>x \<in> set ?ps - set qs. pblock_heap s' x = pblock_heap s2 x)" .
    have "pre_frame pp s s2" unfolding pre_frame_def L2 H2 by simp
    moreover have "bstep 0 (bufs s) (bufs s')" using s2(2) r H1(5) H2(5) by (auto intro: bstep_trans)
    ultimately show ?thesis using r H2(1) unfolding fil by (auto intro: pre_frame_trans)
  qed
qed simp

end
