(* ===== verification/IFuse_PreloadSafe.thy ===== *)
theory IFuse_PreloadSafe
  imports IFuse_PreloadLists
begin

text \<open>
  The invariant of the mounted program, \<open>mounted_inv\<close>: the layers below the preload layer are in
  order (\<open>buf_good\<close>) and so is the preload layer (\<open>pre_inv\<close>).  Every operation of
  src/src/iFuse.Preload.cpp is shown to keep it, and to use up only a bounded number of connection
  identifiers (\<open>mstep k\<close>): the counter of the pool is a 64 bit word and an identifier must not be
  given out twice.
\<close>

section \<open>Reading through the preload\<close>

text \<open>A step that also fills a buffer of the size of a block.\<close>

definition bread :: "nat \<Rightarrow> 'w buf_state \<Rightarrow> bytes \<Rightarrow> 'w buf_state \<Rightarrow> bytes \<Rightarrow> bool" where
  "bread k b buf b' buf' \<longleftrightarrow> (\<forall>m. buf_good b \<longrightarrow> id_room (k + m) (bfs b) \<longrightarrow> block_buf b buf \<longrightarrow>
     buf_good b' \<and> id_room m (bfs b') \<and> g_Blocksize b' = g_Blocksize b \<and> block_buf b' buf')"

lemma bread_step: "bstep k b b' \<Longrightarrow> bread k b buf b' buf"
  by (auto simp: bread_def bstep_def block_buf_def)

lemma bread_trans: "bread j b buf b' buf' \<Longrightarrow> bread k b' buf' b'' buf'' \<Longrightarrow> j + k \<le> n \<Longrightarrow> bread n b buf b'' buf''"
  unfolding bread_def
proof (intro allI impI)
  fix m
  assume a: "\<forall>m. buf_good b \<longrightarrow> id_room (j + m) (bfs b) \<longrightarrow> block_buf b buf \<longrightarrow>
     buf_good b' \<and> id_room m (bfs b') \<and> g_Blocksize b' = g_Blocksize b \<and> block_buf b' buf'"
    and c: "\<forall>m. buf_good b' \<longrightarrow> id_room (k + m) (bfs b') \<longrightarrow> block_buf b' buf' \<longrightarrow>
     buf_good b'' \<and> id_room m (bfs b'') \<and> g_Blocksize b'' = g_Blocksize b' \<and> block_buf b'' buf''"
    and n: "j + k \<le> n" and b: "buf_good b" "id_room (n + m) (bfs b)" "block_buf b buf"
  have "id_room (j + (k + m)) (bfs b)" using b(2) by (rule id_room_less) (use n in simp)
  with a b have "buf_good b' \<and> id_room (k + m) (bfs b') \<and> g_Blocksize b' = g_Blocksize b \<and> block_buf b' buf'" by blast
  with c show "buf_good b'' \<and> id_room m (bfs b'') \<and> g_Blocksize b'' = g_Blocksize b \<and> block_buf b'' buf''" by auto
qed

lemma bread_block:
  assumes "env_ok e" and "iFuseBufferedFsReadBlock e p buf blockID b = Some ((st, buf'), b')"
  shows "bread 0 b buf b' buf'"
  unfolding bread_def
proof (intro allI impI)
  fix m assume b: "buf_good b" "id_room (0 + m) (bfs b)" "block_buf b buf"
  from bstep_ReadBlock(1,2) [OF assms b(3)] b bstepD [of 0 b b' m]
  show "buf_good b' \<and> id_room m (bfs b') \<and> g_Blocksize b' = g_Blocksize b \<and> block_buf b' buf'" by auto
qed

lemma read_pblocks_ok:
  assumes env: "env_ok e" and pre: "pre_lists s pp ps R" and qs: "set qs \<subseteq> set ps"
    and run: "read_pblocks e b qs (n, buf) s = Some ((n', buf'), s')"
  shows "pre_lists s' pp ps R \<and> pre_frame pp s s' \<and> bread (length qs) (bufs s) buf (bufs s') buf'
    \<and> numbers (pblock_heap s') ps = numbers (pblock_heap s) ps"
  using pre qs run
proof (induction qs arbitrary: s n buf)
  case Nil
  then show ?case by (auto intro: bread_step)
next
  case (Cons q qs)
  from pre_listsD(1,2) [OF Cons.prems(1)] Cons.prems(2) obtain pb where pb: "pblock_heap s q = Some pb"
    using lists_okD(6) by fastforce
  show ?case
  proof (cases "b = pb_blockID pb")
    case False
    with Cons.prems(3) pb have "read_pblocks e b qs (n, buf) s = Some ((n', buf'), s')" by simp
    from Cons.IH [OF Cons.prems(1) _ this] Cons.prems(2) show ?thesis
      by (auto intro: bread_trans [OF bread_step [OF bstep_refl]])
  next
    case True
    from Cons.prems(3) pb True obtain s1 pb1 where 1: "join_block e q s = Some s1" "pblock_heap s1 q = Some pb1"
      by (auto split: if_splits)
    from join_in_list [OF env Cons.prems(1) _ 1(1)] Cons.prems(2)
    have j: "pre_lists s1 pp ps R" "pre_frame pp s s1" "bstep 1 (bufs s) (bufs s1)"
      "\<forall>x. map_option pb_blockID (pblock_heap s1 x) = map_option pb_blockID (pblock_heap s x)" by auto
    have num: "numbers (pblock_heap s1) ps = numbers (pblock_heap s) ps" using j(4) by (intro numbers_cong) simp
    obtain n2 buf2 s2 where 2: "pre_lists s2 pp ps R" "pre_frame pp s1 s2" "bread 0 (bufs s1) buf (bufs s2) buf2"
        "pblock_heap s2 = pblock_heap s1" "read_pblocks e b qs (n2, buf2) s2 = Some ((n', buf'), s')"
    proof (cases "pb_status pb1 = PBLOCK_COMPLETED \<and> pb_threadJoined pb1 \<and> pb_fd pb1 \<noteq> None")
      case t: True
      then obtain p where p: "pb_fd pb1 = Some p" by blast
      from Cons.prems(3) pb True 1 t p obtain st buf2 s2 where
        r: "onBuf (iFuseBufferedFsReadBlock e p buf b) s1 = Some ((st, buf2), s2)"
           "read_pblocks e b qs (size_t st, buf2) s2 = Some ((n', buf'), s')" by auto
      from onBufD [OF r(1)] obtain b2 where b2: "iFuseBufferedFsReadBlock e p buf b (bufs s1) = Some ((st, buf2), b2)"
        "s2 = s1\<lparr>bufs := b2\<rparr>" by blast
      have "pre_lists s2 pp ps R" using j(1) by (simp add: b2(2) pre_lists_def)
      moreover have "pre_frame pp s1 s2" by (simp add: b2(2) pre_frame_def)
      moreover have "bread 0 (bufs s1) buf (bufs s2) buf2" using bread_block [OF env b2(1)] by (simp add: b2(2))
      ultimately show ?thesis using that r(2) b2(2) by simp
    next
      case f: False
      with Cons.prems(3) pb True 1 have "read_pblocks e b qs (size_t (- 1), buf) s1 = Some ((n', buf'), s')"
        by (auto split: if_splits option.splits)
      with that j(1) bread_step [OF bstep_refl] show ?thesis by blast
    qed
    from Cons.IH [OF 2(1) _ 2(5)] Cons.prems(2) have r: "pre_lists s' pp ps R" "pre_frame pp s2 s'"
      "bread (length qs) (bufs s2) buf2 (bufs s') buf'" "numbers (pblock_heap s') ps = numbers (pblock_heap s2) ps" by auto
    have "bread 1 (bufs s) buf (bufs s2) buf2" using bread_step [OF j(3)] 2(3) by (rule bread_trans) simp
    then have "bread (length (q # qs)) (bufs s) buf (bufs s') buf'" using r(3) by (rule bread_trans) simp
    with r 2(4) num pre_frame_trans [OF pre_frame_trans [OF j(2) 2(2)] r(2)] show ?thesis by simp
  qed
qed

lemma start_missing_ok:
  assumes env: "env_ok e" and pre: "pre_lists s pp ps R" and n: "n = num_blocks s" "n \<le> 10" and i: "i + length ex = n"
    and win: "set (numbers (pblock_heap s) ps) \<subseteq> window n b"
    and miss: "\<And>j. j < length ex \<Longrightarrow> \<not> ex ! j \<Longrightarrow> next_block b (i + j) \<notin> set (numbers (pblock_heap s) ps)"
    and run: "start_missing e pp b i ex R s = Some (rest, s')"
  shows "length rest = length R - length (filter Not ex)
    \<and> (\<exists>ps'. pre_lists s' pp ps' rest \<and> pre_frame pp s s' \<and> bstep 0 (bufs s) (bufs s')
         \<and> set (numbers (pblock_heap s') ps') \<subseteq> window n b)"
  using pre n(1) i win miss run
proof (induction ex arbitrary: i R s ps)
  case Nil
  then show ?case by auto
next
  case (Cons x ex)
  have miss: "next_block b (Suc i + j) \<notin> set (numbers (pblock_heap s) ps)" if "j < length ex" "\<not> ex ! j" for j
    using Cons.prems(5) [of "Suc j"] that by simp
  show ?case
  proof (cases x)
    case True
    with Cons.prems(6) have "start_missing e pp b (Suc i) ex R s = Some (rest, s')" by simp
    from Cons.IH [OF Cons.prems(1,2) _ Cons.prems(4) miss this] Cons.prems(3) True show ?thesis by simp
  next
    case False
    with Cons.prems(6) obtain r1 s1 where 1: "start_recycled e pp (next_block b i) R s = Some (r1, s1)"
      "start_missing e pp b (Suc i) ex r1 s1 = Some (rest, s')" by (auto simp: next_block_def)
    have new: "next_block b i \<notin> set (numbers (pblock_heap s) ps)" using Cons.prems(5) [of 0] False by simp
    have inw: "next_block b i \<in> window n b" using Cons.prems(3) by (auto simp: window_def)
    note ok = pre_listsD(1,2) [OF Cons.prems(1)]
    have "length (numbers (pblock_heap s) ps) \<le> n"
      by (rule window_room [OF lists_okD(5) [OF ok] Cons.prems(4) inw new])
    then have room: "length ps \<le> num_blocks s" using Cons.prems(2) by simp
    from start_recycled_ok [OF env Cons.prems(1) room new 1(1)] obtain ps1 where
      2: "r1 = tl R" "pre_lists s1 pp ps1 r1" "pre_frame pp s s1" "bstep 0 (bufs s) (bufs s1)"
        "numbers (pblock_heap s1) ps1 = numbers (pblock_heap s) ps \<or> numbers (pblock_heap s1) ps1 = numbers (pblock_heap s) ps @ [next_block b i]"
      by blast
    have "next_block b (Suc i + j) \<notin> set (numbers (pblock_heap s1) ps1)" if "j < length ex" "\<not> ex ! j" for j
    proof
      assume "next_block b (Suc i + j) \<in> set (numbers (pblock_heap s1) ps1)"
      with miss [OF that] 2(5) have "next_block b (Suc i + j) = next_block b i" by auto
      then have "Suc i + j = i" using Cons.prems(3) that(1) n(2) by (intro next_block_inj) simp_all
      then show False by simp
    qed
    moreover have "set (numbers (pblock_heap s1) ps1) \<subseteq> window n b" using 2(5) Cons.prems(4) inw by auto
    moreover have "n = num_blocks s1" using Cons.prems(2) 2(3) by (simp add: pre_frame_def)
    ultimately have "length rest = length r1 - length (filter Not ex) \<and> (\<exists>ps'. pre_lists s' pp ps' rest \<and> pre_frame pp s1 s'
        \<and> bstep 0 (bufs s1) (bufs s') \<and> set (numbers (pblock_heap s') ps') \<subseteq> window n b)"
      using Cons.IH [OF 2(2) _ _ _ _ 1(2)] Cons.prems(3) by simp
    with 2 False show ?thesis by (auto intro: pre_frame_trans bstep_trans)
  qed
qed

lemma filter_split_length: "length (filter P xs) + length (filter (\<lambda>x. \<not> P x) xs) = length xs"
  by (induction xs) auto

lemma numbers_filter_distinct: "distinct (numbers H ps) \<Longrightarrow> distinct (numbers H (filter P ps))"
  by (simp add: numbers_def distinct_map_filter)

text \<open>
  The whole of \<open>_readPreload\<close>: no recycled block is left when the last loop is reached, since
  the blocks taken off the list are at most as many as are started.
\<close>

lemma readPreload_blocks_ok:
  assumes env: "env_ok e" and pre: "pre_lists s pp ps []" and n: "0 < g_preloadNumBlocks s" "g_preloadNumBlocks s \<le> 10"
    and run: "readPreload_blocks e pp buf b s = Some (((st, buf'), recycle), s')"
  shows "recycle = [] \<and> (\<exists>ps'. pre_lists s' pp ps' []) \<and> pre_frame pp s s'
    \<and> bread 22 (bufs s) buf (bufs s') buf'"
proof -
  let ?n = "num_blocks s" and ?g = "g_preloadNumBlocks s"
  have mem: "calloc_ok e" using env by (simp add: env_ok_def)
  obtain ok s1 where 1: "onLibP (mem_ok e) s = (ok, s1)" by force
  have ok using mem_True [OF mem 1] .
  from onLibP_mem [OF 1] obtain b1 where b1: "s1 = s\<lparr>bufs := b1\<rparr>" "bstep 0 (bufs s) b1" by blast
  note ok0 = pre_listsD(1,2) [OF pre]
  from pre obtain pl where pl: "preload_heap s pp = Some pl" "pl_pblocks pl = ps" by (auto simp: pre_lists_def blists_def)
  from run 1 \<open>ok\<close> b1 pl obtain has removes ex s2 rc s3 rc1 s4 pl4 n5 buf5 s5 where
    scan: "scan_pblocks ?g b (pblock_heap s) ps (False, [], replicate ?n False) = Some (has, removes, ex)"
    and r2: "join_pblocks e removes s1 = Some s2"
    and r3: "remove_pblocks e pp removes s2 = Some (rc, s3)"
    and r4: "(if has then Some (rc, s3) else start_recycled e pp b rc s3) = Some (rc1, s4)"
    and pl4: "preload_heap s4 pp = Some pl4"
    and r5: "read_pblocks e b (pl_pblocks pl4) (0, buf) s4 = Some ((n5, buf5), s5)"
    and r6: "start_missing e pp b 0 ex rc1 s5 = Some (recycle, s')" and buf: "buf5 = buf'"
    by (auto simp: readPreload_blocks_def Let_def)
  let ?old = "old_block ?g b (pblock_heap s)"
  let ?keep = "filter (\<lambda>q. \<not> ?old q) ps"
  from scan_ok [OF n scan] have sc: "has = (b \<in> set (numbers (pblock_heap s) ps))" "removes = filter ?old ps" "length ex = ?n"
    "\<forall>j < ?n. ex ! j = (next_block b j \<in> set (numbers (pblock_heap s) ?keep))" by simp_all
  have inH: "\<forall>q \<in> set ps. pblock_heap s q \<noteq> None" using lists_okD(6) [OF ok0] by fastforce
  have has: "has = (b \<in> set (numbers (pblock_heap s) ?keep))"
  proof -
    have "q \<in> set ?keep" if "q \<in> set ps" "pblock_heap s q = Some pb" "pb_blockID pb = b" for q pb
      using that by (simp add: old_block_def old_number_def)
    then show ?thesis using sc(1) inH by (fastforce simp: numbers_def)
  qed
  have pre1: "pre_lists s1 pp ps []" using pre by (simp add: b1 pre_lists_def)
  have rm: "set removes \<subseteq> set ps" "distinct removes" using lists_okD(3) [OF ok0] by (auto simp: sc(2))
  from join_pblocks_ok [OF env pre1 rm(1) r2] have 2: "pre_lists s2 pp ps []" "pre_frame pp s1 s2"
    "bstep (length removes) b1 (bufs s2)" "\<forall>x. map_option pb_blockID (pblock_heap s2 x) = map_option pb_blockID (pblock_heap s x)"
    "\<forall>q \<in> set removes. \<exists>pb. pblock_heap s2 q = Some pb \<and> pb_threadJoined pb" by (simp_all add: b1)
  from remove_pblocks_ok [OF 2(1) rm 2(5) r3] have 3: "length rc \<le> length removes"
    "pre_lists s3 pp (filter (\<lambda>q. q \<notin> set removes) ps) rc" "pre_frame pp s2 s3" "bstep 0 (bufs s2) (bufs s3)"
    "\<forall>x \<in> set ps - set removes. pblock_heap s3 x = pblock_heap s2 x" by simp_all
  have keep: "filter (\<lambda>q. q \<notin> set removes) ps = ?keep" by (rule filter_cong) (auto simp: sc(2))
  have num3: "numbers (pblock_heap s3) ?keep = numbers (pblock_heap s) ?keep"
    using 2(4) 3(5) by (intro numbers_cong) (auto simp: sc(2))
  have n3: "num_blocks s3 = ?n" using 2(2) 3(3) b1(1) by (simp add: pre_frame_def)
  let ?W = "window ?n b" and ?K = "numbers (pblock_heap s) ?keep"
  have W: "set ?K \<subseteq> ?W" by (rule kept_window [OF n inH])
  have dK: "distinct ?K" by (rule numbers_filter_distinct [OF lists_okD(5) [OF ok0]])
  have "?n \<le> 10" using n by simp
  have len: "length ?keep = (if has then 1 else 0) + length (filter id ex)"
    using window_missing [OF dK W \<open>?n \<le> 10\<close> sc(3,4)] has by simp
  have step3: "bstep (length removes) (bufs s) (bufs s3)"
    by (rule bstep_trans [OF bstep_trans [OF b1(2) 2(3) order.refl] 3(4)]) simp
  have frame3: "pre_frame pp s s3"
    using pre_frame_trans [OF pre_frame_trans [OF _ 2(2)] 3(3), of s] b1(1) by (simp add: pre_frame_def)
  have "\<exists>ps4. pre_lists s4 pp ps4 rc1 \<and> pre_frame pp s3 s4 \<and> bstep 0 (bufs s3) (bufs s4)
      \<and> set (numbers (pblock_heap s4) ps4) \<subseteq> insert b (set ?K) \<and> length rc1 = length rc - (if has then 0 else 1)"
  proof (cases has)
    case True
    with r4 3(2) num3 show ?thesis by (intro exI [of _ ?keep]) (auto simp: keep)
  next
    case False
    have new: "b \<notin> set (numbers (pblock_heap s3) ?keep)" using False has by (simp add: num3)
    have room: "length ?keep \<le> num_blocks s3"
      using window_room [OF dK W, of b] has False n3 by (simp add: window_def)
    from r4 False have "start_recycled e pp b rc s3 = Some (rc1, s4)" by simp
    from start_recycled_ok [OF env 3(2) [unfolded keep] room new this] obtain ps4 where
      "rc1 = tl rc" "pre_lists s4 pp ps4 rc1" "pre_frame pp s3 s4" "bstep 0 (bufs s3) (bufs s4)"
      "numbers (pblock_heap s4) ps4 = ?K \<or> numbers (pblock_heap s4) ps4 = ?K @ [b]" by (auto simp: num3)
    with False show ?thesis by (intro exI [of _ ps4]) auto
  qed
  then obtain ps4 where 4: "pre_lists s4 pp ps4 rc1" "pre_frame pp s3 s4" "bstep 0 (bufs s3) (bufs s4)"
    "set (numbers (pblock_heap s4) ps4) \<subseteq> insert b (set ?K)" "length rc1 = length rc - (if has then 0 else 1)" by blast
  have ps4: "pl_pblocks pl4 = ps4" using pre_listsD(2) [OF 4(1)] pl4 by (simp add: blists_def)
  from read_pblocks_ok [OF env 4(1) order.refl r5 [unfolded ps4]] have 5: "pre_lists s5 pp ps4 rc1" "pre_frame pp s4 s5"
    "bread (length ps4) (bufs s4) buf (bufs s5) buf5" "numbers (pblock_heap s5) ps4 = numbers (pblock_heap s4) ps4" by auto
  have n5: "num_blocks s5 = ?n" using n3 4(2) 5(2) by (simp add: pre_frame_def)
  have "next_block b j \<notin> set (numbers (pblock_heap s5) ps4)" if "j < length ex" "\<not> ex ! j" for j
  proof -
    have "j < ?n" using that(1) sc(3) by simp
    then have "next_block b j \<noteq> b" "next_block b j \<notin> set ?K" using that(2) sc(4) next_block_other [of j b] n by auto
    with 4(4) 5(4) show ?thesis by auto
  qed
  moreover have "set (numbers (pblock_heap s5) ps4) \<subseteq> ?W" using 4(4) 5(4) W by (auto simp: window_def)
  ultimately have 6: "length recycle = length rc1 - length (filter Not ex)"
    "\<exists>ps'. pre_lists s' pp ps' recycle \<and> pre_frame pp s5 s' \<and> bstep 0 (bufs s5) (bufs s')"
    using start_missing_ok [OF env 5(1) n5 [symmetric] \<open>?n \<le> 10\<close> _ _ _ r6] sc(3) by auto
  have cnt: "length (filter id ex) + length (filter Not ex) = ?n"
    using filter_split_length [of id ex] sc(3) by (simp add: comp_def)
  have "length ps = length removes + length ?keep" unfolding sc(2) by (rule filter_split_length [symmetric])
  then have rem: "length removes + length ?keep \<le> ?n + 1" using lists_okD(4) [OF ok0] by simp
  have "recycle = []" using 6(1) 4(5) 3(1) rem len cnt by (cases has) simp_all
  moreover obtain ps' where 7: "pre_lists s' pp ps' recycle" "pre_frame pp s5 s'" "bstep 0 (bufs s5) (bufs s')" using 6(2) by blast
  moreover have "pre_frame pp s s'" using frame3 4(2) 5(2) 7(2) by (blast intro: pre_frame_trans)
  moreover have "bread 22 (bufs s) buf (bufs s') buf'"
  proof -
    have "length removes \<le> 11" using rem n by simp
    then have "bstep 11 (bufs s) (bufs s4)" using step3 4(3) by (auto intro: bstep_trans)
    moreover have "length ps4 \<le> 11" using lists_okD(4) [OF pre_listsD(1,2) [OF 4(1)]] n n3 4(2) by (simp add: pre_frame_def)
    ultimately have "bread 22 (bufs s) buf (bufs s5) buf5"
      using 5(3) by (auto intro: bread_trans [OF bread_step])
    then show ?thesis unfolding buf by (rule bread_trans [OF _ bread_step [OF 7(3)]]) simp
  qed
  ultimately show ?thesis by blast
qed

lemma readPreload_eq:
  assumes "env_ok e" and "pre_lists s pp ps []" and "0 < g_preloadNumBlocks s" "g_preloadNumBlocks s \<le> 10"
  shows "readPreload e pp buf b s = map_option (\<lambda>((r, _), s'). (r, s')) (readPreload_blocks e pp buf b s)"
proof (cases "readPreload_blocks e pp buf b s")
  case (Some x)
  obtain st buf' rc s' where x: "x = (((st, buf'), rc), s')" by (metis prod.exhaust)
  from readPreload_blocks_ok [OF assms Some [unfolded x]] have "rc = []" by blast
  with Some x show ?thesis by (simp add: readPreload_def)
qed (simp add: readPreload_def)

section \<open>The invariant of the layer\<close>

definition pre_inv :: "'w preload_state \<Rightarrow> bool" where
  "pre_inv s \<longleftrightarrow> lists_ok (num_blocks s) (preload_next s) (blists s) (pblock_heap s)
     \<and> 0 < g_preloadNumBlocks s \<and> g_preloadNumBlocks s \<le> 10
     \<and> map_ok (g_PreloadMap s) \<and> distinct (map snd (g_PreloadMap s))
     \<and> (\<forall>pp \<in> snd ` set (g_PreloadMap s). blists s pp \<noteq> None)"

lemma pre_invD:
  assumes "pre_inv s"
  shows "lists_ok (num_blocks s) (preload_next s) (blists s) (pblock_heap s)"
    "0 < g_preloadNumBlocks s" "g_preloadNumBlocks s \<le> 10" "map_ok (g_PreloadMap s)" "distinct (map snd (g_PreloadMap s))"
    "(k, pp) \<in> set (g_PreloadMap s) \<Longrightarrow> \<exists>ps. blists s pp = Some ps"
  using assms by (auto simp: pre_inv_def)

lemma pre_inv_bufs [simp]: "pre_inv (s\<lparr>bufs := b\<rparr>) = pre_inv s"
  by (simp add: pre_inv_def)

lemma pre_inv_lists: "pre_inv s \<Longrightarrow> blists s pp = Some ps \<Longrightarrow> pre_lists s pp ps []"
  by (simp add: pre_inv_def pre_lists_def)

lemma pre_inv_frame:
  assumes "pre_inv s" and "pre_lists s' pp ps' []" and "pre_frame pp s s'"
  shows "pre_inv s'"
proof -
  have "blists s' r \<noteq> None" if "r \<in> snd ` set (g_PreloadMap s)" for r
    using assms that by (cases "r = pp") (auto simp: pre_inv_def pre_frame_def pre_lists_def)
  with assms show ?thesis by (simp add: pre_inv_def pre_frame_def pre_lists_def)
qed

text \<open>Values of the map.\<close>

lemma map_insert_values:
  "snd ` set (map_insert k v m) \<subseteq> insert v (snd ` set m)"
  by (induction k v m rule: map_insert.induct) auto

lemma map_insert_distinct:
  "distinct (map snd m) \<Longrightarrow> v \<notin> snd ` set m \<Longrightarrow> distinct (map snd (map_insert k v m))"
proof (induction k v m rule: map_insert.induct)
  case (2 k v k' v' m)
  then show ?case using map_insert_values [of k v m] by auto
qed simp

lemma map_erase_distinct: "distinct (map snd m) \<Longrightarrow> distinct (map snd (map_erase k m))"
proof (induction k m rule: map_erase.induct)
  case (2 k k' v' m)
  then show ?case using map_erase_subset [of k m] by auto
qed simp

lemma map_erase_value:
  assumes "distinct (map snd m)" and "map_ok m" and "map_find m k = Some v"
  shows "v \<notin> snd ` set (map_erase k m)"
proof
  assume "v \<in> snd ` set (map_erase k m)"
  then obtain k' where k': "(k', v) \<in> set m" "k' \<noteq> k" by (auto simp: set_map_erase [OF assms(2)])
  from map_of_SomeD [OF assms(3)] have "(k, v) \<in> set m" .
  with k' assms(1) have "(k', v) = (k, v)" by (intro inj_onD [of snd "set m"]) (auto simp: distinct_map)
  with k'(2) show False by simp
qed

section \<open>Freeing a preload\<close>

lemma free_pblocks_ok:
  assumes env: "env_ok e" and "lists_ok (num_blocks s) (preload_next s) (blists s) (pblock_heap s)"
    and "blists s pp = Some qs" and "free_pblocks e pp qs s = Some s'"
  shows "lists_ok (num_blocks s') (preload_next s') (blists s') (pblock_heap s') \<and> blists s' = (blists s)(pp \<mapsto> [])
    \<and> pre_frame pp s s' \<and> bstep (length qs) (bufs s) (bufs s')"
  using assms(2-)
proof (induction qs arbitrary: s)
  case (Cons q qs)
  note ok = Cons.prems(1,2)
  from Cons.prems(3) obtain pl s1 where pl: "preload_heap s pp = Some pl"
    and 1: "freePreloadPBlock e q (set_preload pp (pl\<lparr>pl_pblocks := qs\<rparr>) s) = Some s1" "free_pblocks e pp qs s1 = Some s'" by auto
  let ?s = "set_preload pp (pl\<lparr>pl_pblocks := qs\<rparr>) s"
  from lists_okD(6) [OF ok, of q] obtain pb where pb: "pblock_heap s q = Some pb" "pblock_wf pp pb" by auto
  have "pblock_heap ?s q = Some pb" using pb(1) by (simp add: set_preload_def)
  from free_pblock_ok [OF env this pb(2) 1(1)] obtain b where s1: "s1 = del_pblock q b ?s" "bstep 1 (bufs s) b"
    by (auto simp: set_preload_def)
  have rm: "removeAll q (q # qs) = qs" using lists_okD(3) [OF ok] by simp
  have L1: "blists s1 = (blists s)(pp \<mapsto> qs)" by (simp add: s1(1) set_preload_def blists_def fun_eq_iff)
  have H1: "pblock_heap s1 = (pblock_heap s)(q := None)" "num_blocks s1 = num_blocks s" "preload_next s1 = preload_next s" "bufs s1 = b"
    by (simp_all add: s1(1) set_preload_def)
  from lists_ok_remove [OF ok, of q] have "lists_ok (num_blocks s1) (preload_next s1) (blists s1) (pblock_heap s1)"
    unfolding rm L1 H1 by simp
  moreover have "blists s1 pp = Some qs" by (simp add: L1)
  ultimately have r: "lists_ok (num_blocks s') (preload_next s') (blists s') (pblock_heap s')"
    "blists s' = (blists s1)(pp \<mapsto> [])" "pre_frame pp s1 s'" "bstep (length qs) (bufs s1) (bufs s')"
    using Cons.IH [OF _ _ 1(2)] by blast+
  have "pre_frame pp s s1" unfolding pre_frame_def L1 by (simp add: s1(1) set_preload_def)
  then have "pre_frame pp s s'" using r(3) by (rule pre_frame_trans)
  moreover have "bstep (length (q # qs)) (bufs s) (bufs s')" using s1(2) r(4) H1(4) by (auto intro: bstep_trans)
  moreover have "blists s' = (blists s)(pp \<mapsto> [])" unfolding r(2) L1 by simp
  ultimately show ?case using r(1) by blast
qed (simp add: fun_upd_idem)

lemma freePreload_ok:
  assumes env: "env_ok e" and ok: "lists_ok (num_blocks s) (preload_next s) (blists s) (pblock_heap s)"
    and L: "blists s pp = Some ps" and run: "freePreload e pp s = Some s'"
  shows "lists_ok (num_blocks s') (preload_next s') (blists s') (pblock_heap s') \<and> blists s' = (blists s)(pp := None)
    \<and> pre_frame pp s s' \<and> bstep (num_blocks s + 1) (bufs s) (bufs s')"
proof -
  from L obtain pl where pl: "preload_heap s pp = Some pl" "pl_pblocks pl = ps" by (auto simp: blists_def)
  with run obtain s1 where 1: "free_pblocks e pp ps s = Some s1" "s' = s1\<lparr>preload_heap := (preload_heap s1)(pp := None)\<rparr>"
    by (auto simp: freePreload_def)
  from free_pblocks_ok [OF env ok L 1(1)] have f: "lists_ok (num_blocks s1) (preload_next s1) (blists s1) (pblock_heap s1)"
    "blists s1 = (blists s)(pp \<mapsto> [])" "pre_frame pp s s1" "bstep (length ps) (bufs s) (bufs s1)" by blast+
  have L': "blists s' = (blists s1)(pp := None)" by (simp add: 1(2) blists_def fun_eq_iff)
  have "lists_ok (num_blocks s1) (preload_next s1) ((blists s1)(pp := None)) (pblock_heap s1)"
    by (rule lists_ok_free [OF f(1)]) (simp add: f(2))
  then have "lists_ok (num_blocks s') (preload_next s') (blists s') (pblock_heap s')" unfolding L' by (simp add: 1(2))
  moreover have "pre_frame pp s s'" using f(3) unfolding pre_frame_def L' by (simp add: 1(2))
  moreover have "bstep (num_blocks s + 1) (bufs s) (bufs s')"
    using f(4) lists_okD(4) [OF ok L] by (auto simp: 1(2) intro: bstep_less)
  ultimately show ?thesis using f(2) L' by simp
qed

lemma freePreload_inv:
  assumes env: "env_ok e" and inv: "pre_inv s" and k: "map_find (g_PreloadMap s) k = Some pp"
    and run: "freePreload e pp (s\<lparr>g_PreloadMap := map_erase k (g_PreloadMap s)\<rparr>) = Some s'"
  shows "pre_inv s' \<and> bstep 11 (bufs s) (bufs s') \<and> g_PreloadMap s' = map_erase k (g_PreloadMap s)"
proof -
  let ?s = "s\<lparr>g_PreloadMap := map_erase k (g_PreloadMap s)\<rparr>"
  from map_of_SomeD [OF k] pre_invD(6) [OF inv] obtain ps where L: "blists ?s pp = Some ps" by auto
  have ok: "lists_ok (num_blocks ?s) (preload_next ?s) (blists ?s) (pblock_heap ?s)" using pre_invD(1) [OF inv] by simp
  from freePreload_ok [OF env ok L run] have f: "lists_ok (num_blocks s') (preload_next s') (blists s') (pblock_heap s')"
    "blists s' = (blists ?s)(pp := None)" "pre_frame pp ?s s'" "bstep (num_blocks ?s + 1) (bufs ?s) (bufs s')" by blast+
  have out: "pp \<notin> snd ` set (map_erase k (g_PreloadMap s))"
    by (rule map_erase_value [OF pre_invD(5) [OF inv] pre_invD(4) [OF inv] k])
  have m: "g_PreloadMap s' = map_erase k (g_PreloadMap s)" "g_preloadNumBlocks s' = g_preloadNumBlocks s"
    using f(3) by (simp_all add: pre_frame_def)
  have "blists s' r \<noteq> None" if "r \<in> snd ` set (map_erase k (g_PreloadMap s))" for r
  proof -
    from that map_erase_subset [of k "g_PreloadMap s"] obtain k' where "(k', r) \<in> set (g_PreloadMap s)" by auto
    from pre_invD(6) [OF inv this] obtain ps where "blists s r = Some ps" by blast
    moreover have "r \<noteq> pp" using that out by blast
    ultimately show ?thesis unfolding f(2) by simp
  qed
  then have "pre_inv s'"
    using f(1) m inv map_erase_distinct [of "g_PreloadMap s" k] by (auto simp: pre_inv_def)
  moreover have "bstep 11 (bufs s) (bufs s')" using f(4) inv by (auto simp: pre_inv_def intro: bstep_less)
  ultimately show ?thesis using m by simp
qed

section \<open>The operations\<close>

definition mounted_inv :: "'w preload_state \<Rightarrow> bool" where
  "mounted_inv s \<longleftrightarrow> buf_good (bufs s) \<and> pre_inv s"

abbreviation ids_left :: "nat \<Rightarrow> 'w preload_state \<Rightarrow> bool" where
  "ids_left n s \<equiv> id_room n (bfs (bufs s))"

text \<open>\<open>mstep k s s'\<close>: the same for the whole state.\<close>

definition mstep :: "nat \<Rightarrow> 'w preload_state \<Rightarrow> 'w preload_state \<Rightarrow> bool" where
  "mstep k s s' \<longleftrightarrow> (pre_inv s \<longrightarrow> bstep k (bufs s) (bufs s') \<and> pre_inv s')"

lemma mstepD:
  assumes "mstep k s s'" and "mounted_inv s" and "ids_left (k + m) s"
  shows "mounted_inv s'" "ids_left m s'"
  using assms bstepD [of k "bufs s" "bufs s'" m] by (auto simp: mstep_def mounted_inv_def)

lemma mstep_refl [simp, intro]: "mstep k s s"
  by (simp add: mstep_def)

lemma mstep_trans: "mstep j s s' \<Longrightarrow> mstep k s' s'' \<Longrightarrow> j + k \<le> n \<Longrightarrow> mstep n s s''"
  by (auto simp: mstep_def intro: bstep_trans)

interpretation mounted_steps: metered mstep
  by unfold_locales (auto intro: mstep_trans)

lemmas mstep_less = mounted_steps.less
  and mstep_bind = mounted_steps.bind

lemma mstep_bufs: "bstep k (bufs s) b \<Longrightarrow> mstep k s (s\<lparr>bufs := b\<rparr>)"
  by (simp add: mstep_def)

lemma mstep_onBuf:
  assumes "onBuf f s = Some (x, s')" and "\<And>b. f (bufs s) = Some (x, b) \<Longrightarrow> bstep k (bufs s) b"
  shows "mstep k s s'"
  using onBufD [OF assms(1)] assms(2) by (auto intro: mstep_bufs)

lemma mstep_mem: "onLibP (mem_ok e) s = (ok, s') \<Longrightarrow> mstep 0 s s'"
  using onLibP_mem [of e s ok s'] by (auto intro: mstep_bufs)

lemma mstep_strdup: "strdupP e str s = (x, s') \<Longrightarrow> mstep 0 s s' \<and> s' = s\<lparr>bufs := bufs s'\<rparr>"
  using onLibP_mem [of e s] by (force simp: strdupP_def intro: mstep_bufs split: prod.splits)

text \<open>A thread runs.\<close>

lemma mstep_task:
  assumes env: "env_ok e" and q: "pblock_heap s q = Some pb" and th: "pb_thread pb = To_run pp"
    and run: "preloadTask e pp q s = Some s'"
  shows "mstep 1 s s'"
  unfolding mstep_def
proof
  from preloadTask_ok [OF env q run] obtain pb' b where s': "s' = put_pblock q pb' b s" "bstep 1 (bufs s) b"
    "pb_blockID pb' = pb_blockID pb" "pb_threadJoined pb' = pb_threadJoined pb" "pb_thread pb' = Ended"
    "pb_status pb' = PBLOCK_TASK_FAILED \<or> pb_status pb' = PBLOCK_COMPLETED \<and> pb_fd pb' \<noteq> None" by blast
  assume inv: "pre_inv s"
  note ok = pre_invD(1) [OF inv]
  from ok q th obtain r ps where L: "blists s r = Some ps" "q \<in> set ps"
    unfolding lists_ok_def by (metis preloadThread.distinct(1))
  from lists_okD(6) [OF ok L] q th have wf: "pblock_wf r pb" by auto
  then have "\<not> pb_threadJoined pb" using th by (simp add: pblock_wf_def)
  then have wf': "pblock_wf r pb'" using s'(4-6) by (auto simp: pblock_wf_def)
  have "blists s' = blists s" by (simp add: s'(1) blists_def fun_eq_iff)
  with lists_ok_update [OF ok L q wf' s'(3)] inv have "pre_inv s'" by (simp add: pre_inv_def s'(1))
  with s'(1,2) show "bstep 1 (bufs s) (bufs s') \<and> pre_inv s'" by simp
qed

lemma start_first_ok:
  assumes env: "env_ok e" and "pre_lists s pp ps []" and "i + k \<le> num_blocks s" "num_blocks s \<le> 10"
    and "set (numbers (pblock_heap s) ps) \<subseteq> of_nat ` {..<i}"
    and "start_first e pp i k s = Some s'"
  shows "\<exists>ps'. pre_lists s' pp ps' [] \<and> pre_frame pp s s' \<and> bstep 0 (bufs s) (bufs s')"
  using assms(2-)
proof (induction k arbitrary: i s ps)
  case 0
  then show ?case by auto
next
  case (Suc k)
  from Suc.prems(5) obtain st s1 where 1: "startPreload e pp (of_nat i) None s = Some (st, s1)" "start_first e pp (i + 1) k s1 = Some s'"
    by auto
  have new: "(of_nat i :: 32 word) \<notin> of_nat ` {..<i}"
  proof
    assume "(of_nat i :: 32 word) \<in> of_nat ` {..<i}"
    then obtain j where j: "j < i" "(of_nat i :: 32 word) = of_nat j" by blast
    then have "unat (of_nat i :: 32 word) = unat (of_nat j :: 32 word)" by simp
    then show False using j(1) Suc.prems(2,3) by (simp add: unat_of_nat)
  qed
  have "length (numbers (pblock_heap s) ps) = card (set (numbers (pblock_heap s) ps))"
    using lists_okD(5) [OF pre_listsD(1,2) [OF Suc.prems(1)]] by (simp add: distinct_card)
  also have "\<dots> \<le> card (of_nat ` {..<i} :: 32 word set)" using Suc.prems(4) by (intro card_mono) simp_all
  also have "\<dots> \<le> i" using card_image_le [of "{..<i}" "of_nat :: nat \<Rightarrow> 32 word"] by simp
  finally have room: "length ps \<le> num_blocks s" using Suc.prems(2) by simp
  from startPreload_ok [OF env Suc.prems(1) room _ 1(1)] new Suc.prems(4) obtain ps1 where
    2: "pre_lists s1 pp ps1 []" "pre_frame pp s s1" "bstep 0 (bufs s) (bufs s1)"
      "numbers (pblock_heap s1) ps1 = numbers (pblock_heap s) ps \<or> numbers (pblock_heap s1) ps1 = numbers (pblock_heap s) ps @ [of_nat i]"
    by blast
  have "set (numbers (pblock_heap s1) ps1) \<subseteq> of_nat ` {..<Suc i}" using 2(4) Suc.prems(4) by (auto simp: lessThan_Suc)
  moreover have "num_blocks s1 = num_blocks s" using 2(2) by (simp add: pre_frame_def)
  ultimately have "\<exists>ps'. pre_lists s' pp ps' [] \<and> pre_frame pp s1 s' \<and> bstep 0 (bufs s1) (bufs s')"
    using Suc.IH [OF 2(1) _ _ _ 1(2)] Suc.prems(2,3) by simp
  with 2 show ?case by (auto intro: pre_frame_trans bstep_trans)
qed

lemma newPreload_ok:
  assumes env: "env_ok e" and inv: "pre_inv s" and run: "newPreload e s = Some ((st, x), s')"
  shows "st = 0 \<and> x = Some (preload_next s) \<and> pre_inv s' \<and> blists s' = (blists s)(preload_next s \<mapsto> [])
    \<and> bstep 0 (bufs s) (bufs s') \<and> g_PreloadMap s' = g_PreloadMap s"
proof -
  have mem: "calloc_ok e" using env by (simp add: env_ok_def)
  let ?pp = "preload_next s"
  obtain a s1 where na: "new_addr e s = (a, s1)" by force
  from new_addr_ok [OF mem na] obtain b1 where 1: "a = Some ?pp" "s1 = s\<lparr>bufs := b1, preload_next := Suc ?pp\<rparr>" "bstep 0 (bufs s) b1" by auto
  obtain ok s2 where 2: "onLibP (mem_ok e) s1 = (ok, s2)" by force
  have ok using mem_True [OF mem 2] .
  from onLibP_mem [OF 2] 1(2) obtain b2 where b2: "s2 = s\<lparr>preload_next := Suc ?pp, bufs := b2\<rparr>" "bstep 0 b1 b2" by auto
  have s': "st = 0" "x = Some ?pp" "s' = set_preload ?pp \<lparr>pl_fdId = 0, pl_iRodsPath = None, pl_pblocks = []\<rparr> s2"
    using run na 1(1) 2 \<open>ok\<close> by (auto simp: newPreload_def)
  have L: "blists s' = (blists s)(?pp \<mapsto> [])" by (simp add: s'(3) b2(1) set_preload_def blists_def fun_eq_iff)
  have H: "pblock_heap s' = pblock_heap s" "preload_next s' = Suc ?pp" "num_blocks s' = num_blocks s" "g_PreloadMap s' = g_PreloadMap s"
    "g_preloadNumBlocks s' = g_preloadNumBlocks s" "bufs s' = b2"
    by (simp_all add: s'(3) b2(1) set_preload_def)
  have "lists_ok (num_blocks s') (preload_next s') (blists s') (pblock_heap s')"
    unfolding L H by (rule lists_ok_new [OF pre_invD(1) [OF inv]]) simp_all
  then have "pre_inv s'" using inv H unfolding pre_inv_def L by auto
  moreover have "bstep 0 (bufs s) (bufs s')" unfolding H using 1(3) b2(2) by (auto intro: bstep_trans)
  ultimately show ?thesis using s'(1,2) L H by simp
qed

lemma PreloadOpen_ok:
  assumes env: "env_ok e" and run: "iFusePreloadOpen e path fl s = Some ((st, fd), s')"
  shows "mstep 1 s s'"
proof -
  from run obtain st1 f s1 where o: "onBuf (iFuseBufferedFsOpen e path fl) s = Some ((st1, f), s1)"
    by (auto simp: iFusePreloadOpen_def)
  have m1: "mstep 1 s s1" using o by (rule mstep_onBuf) (rule bstep_Open [OF env])
  show ?thesis
  proof (cases "st1 < 0")
    case True
    with run o m1 show ?thesis by (simp add: iFusePreloadOpen_def)
  next
    case False
    with run o obtain st2 x s2 where n: "newPreload e s1 = Some ((st2, x), s2)" by (auto simp: iFusePreloadOpen_def)
    have zero: "st2 = 0" if "pre_inv s1" using newPreload_ok [OF env that n] by blast
    have "mstep 0 s1 s'"
    proof (cases "st2 = 0")
      case st2: True
      from run o False n st2 obtain p d a pl where p: "f = Some p" "fd_heap (fds (bfs (bufs s2))) p = Some d"
        and pl: "x = Some a" "preload_heap s2 a = Some pl"
        by (auto simp: iFusePreloadOpen_def)
      obtain path' s3 where s3: "strdupP e path s2 = (path', s3)" by force
      from run o False n st2 p pl s3 obtain s5 where
        s5: "(if accmode fl = O_RDONLY \<or> accmode fl = O_RDWR
                then start_first e a 0 (num_blocks (set_preload a (pl\<lparr>pl_fdId := fd_fdId d, pl_iRodsPath := path'\<rparr>) s3))
                       (set_preload a (pl\<lparr>pl_fdId := fd_fdId d, pl_iRodsPath := path'\<rparr>) s3)
                else Some (set_preload a (pl\<lparr>pl_fdId := fd_fdId d, pl_iRodsPath := path'\<rparr>) s3)) = Some s5"
        and s': "s' = s5\<lparr>g_PreloadMap := map_insert (fd_fdId d) a (g_PreloadMap s5)\<rparr>"
        by (auto simp: iFusePreloadOpen_def Let_def)
      let ?s4 = "set_preload a (pl\<lparr>pl_fdId := fd_fdId d, pl_iRodsPath := path'\<rparr>) s3"
      have "bstep 0 (bufs s1) (bufs s') \<and> pre_inv s'" if inv: "pre_inv s1"
      proof -
        from newPreload_ok [OF env inv n] have 2: "x = Some (preload_next s1)" "pre_inv s2" "blists s2 = (blists s1)(preload_next s1 \<mapsto> [])"
          "bstep 0 (bufs s1) (bufs s2)" "g_PreloadMap s2 = g_PreloadMap s1" by blast+
        let ?pp = "preload_next s1"
        have pp: "a = ?pp" using 2(1) pl(1) by simp
        have plps: "pl_pblocks pl = []" using pl(2) 2(3) by (auto simp: pp blists_def fun_eq_iff dest: spec [of _ ?pp])
        from mstep_strdup [OF s3] have 3: "s3 = s2\<lparr>bufs := bufs s3\<rparr>" "mstep 0 s2 s3" by blast+
        have L4: "blists ?s4 = blists s2" unfolding pp
          by (subst 3(1)) (use pl(2) plps in \<open>simp add: set_preload_def blists_def fun_eq_iff pp\<close>)
        have H4: "pblock_heap ?s4 = pblock_heap s2" "preload_next ?s4 = preload_next s2" "g_PreloadMap ?s4 = g_PreloadMap s2"
          "g_preloadNumBlocks ?s4 = g_preloadNumBlocks s2" "bufs ?s4 = bufs s3"
          by (subst 3(1), simp add: set_preload_def)+
        have inv4: "pre_inv ?s4" using 2(2) unfolding pre_inv_def L4 H4 .
        have L4p: "blists ?s4 ?pp = Some []" unfolding L4 2(3) by simp
        note p4 = pre_inv_lists [OF inv4 L4p]
        have "\<exists>ps'. pre_lists s5 ?pp ps' [] \<and> pre_frame ?pp ?s4 s5 \<and> bstep 0 (bufs ?s4) (bufs s5)"
        proof (cases "accmode fl = O_RDONLY \<or> accmode fl = O_RDWR")
          case True
          then have "start_first e ?pp 0 (num_blocks ?s4) ?s4 = Some s5" using s5 unfolding pp by simp
          from start_first_ok [OF env p4 _ _ _ this] show ?thesis using pre_invD(3) [OF inv4] by simp
        qed (use s5 p4 in auto)
        then obtain ps' where 5: "pre_lists s5 ?pp ps' []" "pre_frame ?pp ?s4 s5" "bstep 0 (bufs ?s4) (bufs s5)" by blast
        note inv5 = pre_inv_frame [OF inv4 5(1,2)]
        have m: "g_PreloadMap s5 = g_PreloadMap s1" using 5(2) 2(5) H4(3) by (simp add: pre_frame_def)
        have new: "?pp \<notin> snd ` set (g_PreloadMap s5)"
        proof
          assume "?pp \<in> snd ` set (g_PreloadMap s5)"
          then obtain k where "(k, ?pp) \<in> set (g_PreloadMap s1)" by (auto simp: m)
          from pre_invD(6) [OF inv this] lists_ok_fresh(2) [OF pre_invD(1) [OF inv] order.refl] show False by simp
        qed
        have "blists s' r \<noteq> None" if "r \<in> snd ` set (g_PreloadMap s')" for r
        proof (cases "r = ?pp")
          case True
          then show ?thesis using pre_listsD(2) [OF 5(1)] by (simp add: s')
        next
          case False
          with that map_insert_values [of "fd_fdId d" ?pp "g_PreloadMap s5"] have "r \<in> snd ` set (g_PreloadMap s5)" by (auto simp: s' pp)
          with inv5 show ?thesis by (auto simp: s' pre_inv_def)
        qed
        then have "pre_inv s'"
          using inv5 map_insert_distinct [OF pre_invD(5) [OF inv5] new] by (simp add: pre_inv_def s' pp)
        moreover have "bstep 0 (bufs s1) (bufs s')"
          using 2(2,4) 3(2) 5(3) by (auto simp: s' H4 mstep_def intro: bstep_trans)
        ultimately show ?thesis by simp
      qed
      then show ?thesis by (simp add: mstep_def)
    qed (use zero in \<open>auto simp: mstep_def\<close>)
    with m1 show ?thesis by (rule mstep_trans) simp
  qed
qed

lemma PreloadClose_ok:
  assumes env: "env_ok e" and run: "iFusePreloadClose e p s = Some (st, s')"
  shows "mstep 11 s s'"
proof -
  from run obtain d where d: "fd_heap (fds (bfs (bufs s))) p = Some d" by (auto simp: iFusePreloadClose_def)
  obtain x s1 where 1: "strdupP e (fd_iRodsPath d) s = (x, s1)" by force
  from run d 1 obtain st2 s2 where 2: "onBuf (iFuseBufferedFsClose e p) s1 = Some (st2, s2)"
    by (auto simp: iFusePreloadClose_def)
  have "mstep 0 s1 s2" using 2 by (rule mstep_onBuf) (rule bstep_Close)
  with mstep_strdup [OF 1] have m2: "mstep 0 s s2" by (auto intro: mstep_trans)
  show ?thesis
  proof (cases "st2 < 0 \<or> map_find (g_PreloadMap s2) (fd_fdId d) = None")
    case True
    with run d 1 2 m2 show ?thesis by (auto simp: iFusePreloadClose_def intro: mstep_less split: if_splits)
  next
    case False
    then obtain pp where pp: "map_find (g_PreloadMap s2) (fd_fdId d) = Some pp" by blast
    with run d 1 2 False have f: "freePreload e pp (s2\<lparr>g_PreloadMap := map_erase (fd_fdId d) (g_PreloadMap s2)\<rparr>) = Some s'"
      by (auto simp: iFusePreloadClose_def)
    have "mstep 11 s2 s'" using freePreload_inv [OF env _ pp f] by (auto simp: mstep_def)
    with m2 show ?thesis by (rule mstep_trans) simp
  qed
qed

lemma release_preloads_ok:
  assumes env: "env_ok e" and "pre_inv s" and "g_PreloadMap s = m" and "release_preloads e m s = Some s'"
  shows "pre_inv s' \<and> bstep (11 * length m) (bufs s) (bufs s') \<and> g_PreloadMap s' = []"
  using assms(2-)
proof (induction m arbitrary: s)
  case (Cons x m)
  obtain k pp where x: "x = (k, pp)" by force
  from Cons.prems(3) x obtain s1 where 1: "freePreload e pp (s\<lparr>g_PreloadMap := m\<rparr>) = Some s1" "release_preloads e m s1 = Some s'"
    by auto
  have e: "map_find (g_PreloadMap s) k = Some pp" "map_erase k (g_PreloadMap s) = m" using Cons.prems(2) x by simp_all
  from freePreload_inv [OF env Cons.prems(1) e(1) 1(1) [folded e(2)]]
  have f: "pre_inv s1" "bstep 11 (bufs s) (bufs s1)" "g_PreloadMap s1 = m" by (simp_all add: e(2))
  from Cons.IH [OF f(1,3) 1(2)] f(2) show ?case by (auto intro: bstep_trans)
qed simp

lemma PreloadDestroy_ok:
  assumes "env_ok e" and "pre_inv s" and "iFusePreloadDestroy e s = Some s'"
  shows "pre_inv s'" "g_PreloadMap s' = []"
  using release_preloads_ok [OF assms(1,2) refl] assms(3) by (auto simp: iFusePreloadDestroy_def releaseAllPreload_def)

section \<open>Reading\<close>

lemma readPreload_ok:
  assumes env: "env_ok e" and inv: "pre_inv s" and L: "blists s pp = Some ps"
    and run: "readPreload e pp buf b s = Some ((st, buf'), s')"
  shows "pre_inv s'" "blists s' pp \<noteq> None" "bread 22 (bufs s) buf (bufs s') buf'"
proof -
  from run obtain rc where r: "readPreload_blocks e pp buf b s = Some (((st, buf'), rc), s')"
    by (auto simp: readPreload_def split: if_splits)
  note pre = pre_inv_lists [OF inv L]
  from readPreload_blocks_ok [OF env pre pre_invD(2,3) [OF inv] r] obtain ps' where
    p: "pre_lists s' pp ps' []" "pre_frame pp s s'" "bread 22 (bufs s) buf (bufs s') buf'" by blast
  show "pre_inv s'" by (rule pre_inv_frame [OF inv p(1,2)])
  show "blists s' pp \<noteq> None" using pre_listsD(2) [OF p(1)] by simp
  show "bread 22 (bufs s) buf (bufs s') buf'" by (rule p(3))
qed

lemma preload_round_ok:
  assumes "preload_round e pp off remain bb s = Some ((r, bb'), s')"
  shows "\<exists>b st. readPreload e pp bb b s = Some ((st, bb'), s')"
  using assms by (auto simp: preload_round_def Let_def split: if_splits)

lemma preload_blocks_ok:
  assumes "env_ok e" and "pre_inv s" and "blists s pp \<noteq> None"
    and "preload_blocks e pp off remain out bb s = Some (r, s')"
  shows "pre_inv s' \<and> (\<exists>bb'. bread (22 * remain) (bufs s) bb (bufs s') bb')"
  using assms
proof (induction e pp off remain out bb s rule: preload_blocks.induct)
  case (1 e' pp off remain out bb s)
  show ?case
  proof (cases "remain = 0")
    case True
    with 1(5) have "s' = s" by (simp add: preload_blocks.simps)
    with 1(3) bread_step [OF bstep_refl] show ?thesis by auto
  next
    case False
    with 1(5) obtain rr bb1 s1 where rd: "preload_round e' pp off remain bb s = Some ((rr, bb1), s1)"
      by (subst (asm) preload_blocks.simps) auto
    from preload_round_ok [OF rd] obtain b st where b: "readPreload e' pp bb b s = Some ((st, bb1), s1)" by blast
    from 1(4) obtain ps where L: "blists s pp = Some ps" by blast
    note k = readPreload_ok [OF 1(2,3) L b]
    have one: "bread (22 * remain) (bufs s) bb (bufs s1) bb1"
      by (rule bread_trans [OF k(3) bread_step [OF bstep_refl [of 0]]]) (use False in simp)
    show ?thesis
    proof (cases "\<exists>chunk. rr = Read_chunk chunk False")
      case True
      then obtain chunk where rr: "rr = Read_chunk chunk False" by blast
      have ne: "chunk \<noteq> []" using preload_round_chunk rd rr by blast
      have "preload_blocks e' pp (off + int (length chunk)) (remain - length chunk) (out @ chunk) bb1 s1 = Some (r, s')"
        using 1(5) rd rr False by (subst (asm) preload_blocks.simps) simp
      from 1(1) [OF False rd refl _ rr _ 1(2)] k(1,2) this obtain bb' where
        "pre_inv s'" "bread (22 * (remain - length chunk)) (bufs s1) bb1 (bufs s') bb'" by auto
      moreover have "22 + 22 * (remain - length chunk) \<le> 22 * remain" using False ne by (cases chunk) auto
      ultimately show ?thesis using bread_trans [OF k(3)] by blast
    next
      case f: False
      have "s' = s1" using 1(5) rd False f by (subst (asm) preload_blocks.simps) (auto split: read_result.splits if_splits)
      with k(1) one show ?thesis by blast
    qed
  qed
qed

lemma bread_bstep: "bread k b buf b' buf' \<Longrightarrow> (buf_good b \<Longrightarrow> block_buf b buf) \<Longrightarrow> bstep k b b'"
  by (auto simp: bread_def bstep_def)

lemma bstep_then:
  assumes "bstep j b b'" and "g_Blocksize b' = g_Blocksize b \<Longrightarrow> bstep k b' b''" and "j + k \<le> n"
  shows "bstep n b b''"
proof (rule bstepI)
  fix m assume b: "buf_good b" "id_room (n + m) (bfs b)"
  have "id_room (j + (k + m)) (bfs b)" using b(2) by (rule id_room_less) (use assms(3) in simp)
  note 1 = bstepD [OF assms(1) b(1) this]
  from bstepD [OF assms(2) [OF 1(3)] 1(1,2)] 1(3)
  show "buf_good b'' \<and> id_room m (bfs b'') \<and> g_Blocksize b'' = g_Blocksize b" by simp
qed

lemma Read_step_io:
  assumes "env_ok e" and "0 \<le> off" and "off + int sz \<le> 2 ^ 32 * g_Blocksize b"
    and "iFuseBufferedFsRead e p off sz b = Some (r, b')" and "buf_good b" and "fd_heap (fds (bfs b)) p = Some d"
  shows "buf_io p b b'"
  using Read_buffered_live [of e b p d off sz] assms by (auto simp: buf_good_def env_ok_def)

lemma bstep_Read:
  assumes "env_ok e" and "0 \<le> off" and "off + int sz \<le> 2 ^ 32 * g_Blocksize b"
    and run: "iFuseBufferedFsRead e p off sz b = Some (r, b')"
  shows "bstep k b b'"
proof -
  obtain ok b1 where 1: "onLibB (mem_ok e) b = (ok, b1)" by force
  show ?thesis
  proof (cases "\<not> ok \<or> sz = 0")
    case True
    with run 1 have "b' = b1" by (cases ok) (auto simp: iFuseBufferedFsRead_def read_blocks.simps [of e p off 0])
    with bstep_mem [OF 1] show ?thesis by simp
  next
    case False
    with run 1 obtain rr bb b2 where "read_round e p off sz (zeros (size_t (g_Blocksize b))) b1 = Some ((rr, bb), b2)"
      by (auto simp: iFuseBufferedFsRead_def read_blocks.simps [of e p off sz])
    then obtain d where "fd_heap (fds (bfs b1)) p = Some d" by (auto simp: read_round_def readBlock_def Let_def)
    moreover have "fd_heap (fds (bfs b1)) = fd_heap (fds (bfs b))"
      using 1 by (auto simp: onLibB_def put_lib_def split: prod.splits)
    ultimately show ?thesis using Read_step_io [OF assms(1-3) run] by (intro bstep_io) simp
  qed
qed

lemma read_around_ok:
  assumes "env_ok e" and "0 \<le> off" and "off + int sz \<le> 2 ^ 32 * g_Blocksize (bufs s)"
    and "read_around e p off sz s = Some (r, s')"
  shows "bstep k (bufs s) (bufs s')"
  using bstep_Read [OF assms(1-3)] assms(4) by (auto simp: read_around_def onBuf_def)

lemma read_around_inv: "read_around e p off sz s = Some (r, s') \<Longrightarrow> pre_inv s \<Longrightarrow> pre_inv s'"
  by (auto simp: read_around_def onBuf_def)

lemma PreloadRead_ok:
  assumes env: "env_ok e" and off: "0 \<le> off" "off + int sz \<le> 2 ^ 32 * g_Blocksize (bufs s)"
    and run: "iFusePreloadRead e p off sz s = Some (r, s')"
  shows "mstep (22 * sz) s s'"
  unfolding mstep_def
proof
  assume inv: "pre_inv s"
  obtain ok s1 where 1: "onLibP (mem_ok e) s = (ok, s1)" by force
  from onLibP_mem [OF 1] obtain b1 where b1: "s1 = s\<lparr>bufs := b1\<rparr>" "bstep 0 (bufs s) b1" by auto
  from run 1 obtain d where d: "fd_heap (fds (bfs b1)) p = Some d"
    by (auto simp: iFusePreloadRead_def b1(1))
  have inv1: "pre_inv s1" using inv b1(1) by simp
  show "bstep (22 * sz) (bufs s) (bufs s') \<and> pre_inv s'"
  proof (cases "map_find (g_PreloadMap s1) (fd_fdId d)")
    case None
    with run 1 d have a: "read_around e p off sz s1 = Some (r, s')" by (simp add: iFusePreloadRead_def b1(1))
    have "bstep (22 * sz) (bufs s) (bufs s')"
    proof (rule bstep_then [OF b1(2)])
      assume "g_Blocksize b1 = g_Blocksize (bufs s)"
      then show "bstep (22 * sz) b1 (bufs s')" using read_around_ok [OF env off(1) _ a] off(2) by (simp add: b1(1))
    qed simp
    with read_around_inv [OF a inv1] show ?thesis by simp
  next
    case (Some pp)
    let ?bb = "zeros (getBufferCacheBlockSize b1)"
    from run 1 d Some obtain x s2 where 2: "preload_blocks e pp off sz [] ?bb s1 = Some (x, s2)"
      and s': "(case x of Some out \<Rightarrow> Some (out, s2) | None \<Rightarrow> read_around e p off sz s2) = Some (r, s')"
      by (auto simp: iFusePreloadRead_def b1(1) split: if_splits)
    from map_of_SomeD [OF Some] pre_invD(6) [OF inv1] have "blists s1 pp \<noteq> None" by auto
    from preload_blocks_ok [OF env inv1 this 2] obtain bb where
      p: "pre_inv s2" "bread (22 * sz) (bufs s1) ?bb (bufs s2) bb" by blast
    from bread_bstep [OF p(2)] block_buf_zeros [of b1] have b2: "bstep (22 * sz) b1 (bufs s2)" by (simp add: b1(1))
    note b02 = bstep_trans [OF b1(2) b2, of "22 * sz"]
    show ?thesis
    proof (cases x)
      case None
      with s' have a: "read_around e p off sz s2 = Some (r, s')" by simp
      have "bstep (22 * sz) (bufs s) (bufs s')"
      proof (rule bstep_then [OF b02])
        assume "g_Blocksize (bufs s2) = g_Blocksize (bufs s)"
        then show "bstep 0 (bufs s2) (bufs s')" using read_around_ok [OF env off(1) _ a] off(2) by simp
      qed simp_all
      with read_around_inv [OF a p(1)] show ?thesis by simp
    qed (use s' p(1) b02 in auto)
  qed
qed

end
