(* ===== verification/IFuse_Mounted.thy ===== *)
theory IFuse_Mounted
  imports IFuse_Main IFuse_PreloadSafe
begin

text \<open>
  The mounted program: the table of operations \<open>main\<close> gives to FUSE (src/src/irodsFs.cpp), and the
  runs of the program, in which FUSE's calls, the threads of the preload layer and the rounds of
  the timer follow each other in any order.  \<open>mounted_inv\<close> holds throughout.
\<close>

section \<open>The table of operations\<close>

datatype fuse_call =
    Getattr_call string
  | Readlink_call string nat
  | Mkdir_call string "32 word"
  | Unlink_call string
  | Rmdir_call string
  | Open_call string flags
  | Read_call string nat int "nat option"
  | Write_call string bytes int "nat option"
  | Statfs_call statvfs "statvfs option"
  | Release_call string "nat option"
  | Opendir_call string
  | Readdir_call string "nat option"
  | Releasedir_call string "nat option"
  | Init_call
  | Destroy_call
  | Link_call string string
  | Symlink_call string string
  | Rename_call string string
  | Utimens_call string "int \<times> int"
  | Truncate_call string int
  | Chmod_call string "32 word"
  | Chown_call string "32 word" "32 word"
  | Flush_call string "nat option"
  | Mknod_call string "32 word"
  | Fsync_call string int "nat option"
  | Ioctl_call string ioctlCmd

text \<open>What a call returns and the state it leaves; \<open>statfs\<close> asks the system about its root.\<close>

abbreviation status_of_call :: "((int \<times> 'r) \<times> 's) option \<Rightarrow> (int \<times> 's) option" where
  "status_of_call r \<equiv> map_option (\<lambda>((status, _), s). (status, s)) r"

definition irodsOper :: "'w ext \<Rightarrow> fuse_call \<Rightarrow> 'w preload_state \<Rightarrow> (int \<times> 'w preload_state) option" where
  "irodsOper e call s =
     (case call of
        Getattr_call path \<Rightarrow> status_of_call (iFuseGetAttr e path s)
      | Readlink_call path sz \<Rightarrow> status_of_call (iFuseReadLink e path sz s)
      | Mkdir_call path mode \<Rightarrow> iFuseMakeDir e path mode s
      | Unlink_call path \<Rightarrow> iFuseUnlink e path s
      | Rmdir_call path \<Rightarrow> iFuseRemoveDir e path s
      | Open_call path flag \<Rightarrow> status_of_call (iFuseOpen e path flag s)
      | Read_call path sz off fh \<Rightarrow> status_of_call (iFuseRead e path sz off fh s)
      | Write_call path buf off fh \<Rightarrow> iFuseWrite e path buf off fh s
      | Statfs_call root stbuf \<Rightarrow> Some (fst (iFuseStatfs e root stbuf), s)
      | Release_call path fh \<Rightarrow> iFuseClose e path fh s
      | Opendir_call path \<Rightarrow> status_of_call (iFuseOpenDir e path s)
      | Readdir_call path fh \<Rightarrow> status_of_call (iFuseReadDir e path fh s)
      | Releasedir_call path fh \<Rightarrow> iFuseCloseDir e path fh s
      | Init_call \<Rightarrow> map_option (Pair 0) (iFuseInit e s)
      | Destroy_call \<Rightarrow> Some (0, iFuseDestroy s)
      | Link_call from_path to_path \<Rightarrow> Some (iFuseLink from_path to_path, s)
      | Symlink_call to_path from_path \<Rightarrow> iFuseSymlink e to_path from_path s
      | Rename_call from_path to_path \<Rightarrow> iFuseRename e from_path to_path s
      | Utimens_call path ts \<Rightarrow> Some (iFuseUtimens path ts, s)
      | Truncate_call path sz \<Rightarrow> iFuseTruncate e path sz s
      | Chmod_call path mode \<Rightarrow> iFuseChmod e path mode s
      | Chown_call path uid gid \<Rightarrow> Some (iFuseChown path uid gid, s)
      | Flush_call path fh \<Rightarrow> iFuseFlush e path fh s
      | Mknod_call path mode \<Rightarrow> iFuseCreate e path mode s
      | Fsync_call path isdatasync fh \<Rightarrow> iFuseFsync e path isdatasync fh s
      | Ioctl_call path cmd \<Rightarrow> status_of_call (iFuseIoctl e path cmd s))"

text \<open>
  Offsets FUSE may pass: not negative, and the request below \<open>2 ^ 32\<close> blocks. The identifiers of
  connections a call may use up.
\<close>

definition call_ok :: "fuse_call \<Rightarrow> 'w preload_state \<Rightarrow> bool" where
  "call_ok call s \<longleftrightarrow>
     (case call of
        Read_call _ sz off _ \<Rightarrow> off + int sz \<le> 2 ^ 32 * g_Blocksize (bufs s)
      | Write_call _ buf off _ \<Rightarrow> 0 \<le> off \<and> off + int (length buf) \<le> 2 ^ 32 * g_Blocksize (bufs s)
      | _ \<Rightarrow> True)"

definition call_ids :: "fuse_call \<Rightarrow> nat" where
  "call_ids call = (case call of Read_call _ sz _ _ \<Rightarrow> 22 * sz | _ \<Rightarrow> 11)"

section \<open>Steps of the layers below\<close>

lemma bstep_fs_step:
  assumes env: "env_ok e" and "\<And>m. conn_room (bfs b) \<Longrightarrow> fs_step e (bfs b) t"
  shows "bstep 1 b (b\<lparr>bfs := t\<rparr>)"
proof (rule bstepI)
  fix m assume b: "buf_good b" "id_room (1 + m) (bfs b)"
  have i: "fs_inv (bfs b)" "calloc_ok e" "error_codes_ok e" using env b(1) by (auto simp: env_ok_def buf_good_def)
  have st: "fs_step e (bfs b) t" using assms(2) id_room_conn [OF b(2)] by blast
  from fs_inv_step [OF st i] have "fs_inv t" .
  moreover have "id_room m t" using id_room_next [OF _ fs_step_next_id [OF st i]] b(2) by simp
  ultimately show "buf_good (b\<lparr>bfs := t\<rparr>) \<and> id_room m (bfs (b\<lparr>bfs := t\<rparr>)) \<and> g_Blocksize (b\<lparr>bfs := t\<rparr>) = g_Blocksize b"
    using b(1) by (simp add: buf_good_def)
qed

lemma mstep_onFsP:
  assumes run: "onFsP f s = Some (x, s')" and env: "env_ok e"
    and "\<And>t. f (bfs (bufs s)) = Some (x, t) \<Longrightarrow> conn_room (bfs (bufs s)) \<Longrightarrow> fs_step e (bfs (bufs s)) t"
  shows "mstep 1 s s'"
proof -
  from run obtain t where t: "f (bfs (bufs s)) = Some (x, t)" "s' = s\<lparr>bufs := (bufs s)\<lparr>bfs := t\<rparr>\<rparr>"
    by (auto simp: onFsP_def onBuf_def onFs_def)
  show ?thesis unfolding t(2) by (rule mstep_bufs, rule bstep_fs_step [OF env]) (rule assms(3) [OF t(1)])
qed

text \<open>The steps of the file system layer, each an operation of \<open>fs_step\<close>.\<close>

lemma mstep_fs:
  assumes env: "env_ok e"
  shows "onFsP (iFuseFsGetAttr e path) s = Some (r, s') \<Longrightarrow> mstep 1 s s'"
    "onFsP (iFuseFsOpen e path fl) s = Some (rf, s') \<Longrightarrow> mstep 1 s s'"
    "onFsP (iFuseFsClose e p) s = Some (st, s') \<Longrightarrow> mstep 1 s s'"
    "onFsP (iFuseFsRead e p off sz) s = Some (rd, s') \<Longrightarrow> mstep 1 s s'"
    "onFsP (iFuseFsWrite e p buf off) s = Some (st, s') \<Longrightarrow> mstep 1 s s'"
    "onFsP (iFuseFsFlush e p) s = Some (st, s') \<Longrightarrow> mstep 1 s s'"
    "onFsP (iFuseFsCreate e path mode) s = Some (st, s') \<Longrightarrow> mstep 1 s s'"
    "onFsP (iFuseFsUnlink e path) s = Some (st, s') \<Longrightarrow> mstep 1 s s'"
    "onFsP (iFuseFsOpenDir e path) s = Some (rf, s') \<Longrightarrow> mstep 1 s s'"
    "onFsP (iFuseFsCloseDir e p) s = Some (st, s') \<Longrightarrow> mstep 1 s s'"
    "onFsP (iFuseFsReadDir e p) s = Some (rn, s') \<Longrightarrow> mstep 1 s s'"
    "onFsP (iFuseFsMakeDir e path) s = Some (st, s') \<Longrightarrow> mstep 1 s s'"
    "onFsP (iFuseFsRemoveDir e path) s = Some (st, s') \<Longrightarrow> mstep 1 s s'"
    "onFsP (iFuseFsRename e path path2) s = Some (st, s') \<Longrightarrow> mstep 1 s s'"
    "onFsP (iFuseFsTruncate e path len) s = Some (st, s') \<Longrightarrow> mstep 1 s s'"
    "onFsP (iFuseFsChmod e path mode) s = Some (st, s') \<Longrightarrow> mstep 1 s s'"
    "onFsP (\<lambda>t. Some (iFuseFsIoctl e cmd t)) s = Some (ri, s') \<Longrightarrow> mstep 1 s s'"
    "onFsP (iFuseFsCacheDir e path) s = Some (st, s') \<Longrightarrow> mstep 1 s s'"
    "onFsP (\<lambda>t. map_option (Pair ()) (timerTick e t)) s = Some (u, s') \<Longrightarrow> mstep 1 s s'"
  by (erule mstep_onFsP [OF _ env]; cases rf; auto intro: fs_step.intros)+

text \<open>Those of the buffered layer.\<close>

lemma mstep_fs_onBuf:
  assumes env: "env_ok e" and f: "onFs f b = Some (x, b')"
    and "\<And>t. f (bfs b) = Some (x, t) \<Longrightarrow> conn_room (bfs b) \<Longrightarrow> fs_step e (bfs b) t"
  shows "bstep 1 b b'"
proof -
  from f obtain t where t: "f (bfs b) = Some (x, t)" "b' = b\<lparr>bfs := t\<rparr>" by (auto simp: onFs_def)
  show ?thesis unfolding t(2) by (rule bstep_fs_step [OF env]) (rule assms(3) [OF t(1)])
qed

lemma bstep_GetAttr:
  assumes env: "env_ok e" and run: "iFuseBufferedFsGetAttr e path b = Some (r, b')"
  shows "bstep 1 b b'"
proof -
  from run obtain y b1 where 1: "onFs (iFuseFsGetAttr e path) b = Some (y, b1)" "b' = b1"
    by (auto simp: iFuseBufferedFsGetAttr_def Let_def split: if_splits option.splits)
  show ?thesis unfolding 1(2) by (rule mstep_fs_onBuf [OF env 1(1)]) (rule step_getattr)
qed

lemma bstep_Flush:
  assumes env: "env_ok e" and run: "iFuseBufferedFsFlush e p b = Some (st, b')"
  shows "bstep 1 b b'"
proof -
  from run obtain d st1 b1 where d: "fd_heap (fds (bfs b)) p = Some d"
    and 1: "(if accmode (fd_openFlag d) \<noteq> O_RDONLY then flushDelta e p b else Some (0, b)) = Some (st1, b1)"
    by (auto simp: iFuseBufferedFsFlush_def)
  have b1: "bstep 0 b b1" using 1 by (auto intro: bstep_flushDelta split: if_splits)
  from run d 1 have "b' = b1 \<or> (\<exists>st2. onFs (iFuseFsFlush e p) b1 = Some (st2, b'))"
    by (auto simp: iFuseBufferedFsFlush_def split: if_splits)
  then have "bstep 1 b1 b'"
  proof
    assume "\<exists>st2. onFs (iFuseFsFlush e p) b1 = Some (st2, b')"
    then obtain st2 where f: "onFs (iFuseFsFlush e p) b1 = Some (st2, b')" ..
    show ?thesis by (rule mstep_fs_onBuf [OF env f]) (rule step_flush)
  qed simp
  with b1 show ?thesis by (rule bstep_trans) simp
qed

lemma bstep_Write:
  assumes env: "env_ok e" and off: "0 \<le> off" "off + int (length buf) \<le> 2 ^ 32 * g_Blocksize b"
    and d: "fd_heap (fds (bfs b)) p = Some d" and run: "iFuseBufferedFsWrite e p buf off b = Some (st, b')"
  shows "bstep k b b'"
proof (rule bstep_io)
  assume "buf_good b"
  then show "buf_io p b b'"
    using Write_buffered_live [OF replies_malloc, of e b p d off buf] env off d run by (auto simp: buf_good_def env_ok_def)
qed

lemma mstep_set_lib:
  assumes "lib_same (mounted_lib s) l"
  shows "mstep 0 s (set_mounted_lib l s)"
proof -
  have t: "fs_touch (bfs (bufs s)) (put_lib l (bfs (bufs s)))"
    using put_lib_touch [OF assms, of "mcache (bfs (bufs s))"] by simp
  have "bstep 0 (bufs s) ((bufs s)\<lparr>bfs := put_lib l (bfs (bufs s))\<rparr>)"
    by (rule bstep_fs [OF fs_touch_inv [OF t] touch_next_id [OF t]])
  then show ?thesis unfolding set_mounted_lib_def by (rule mstep_bufs)
qed

section \<open>The operations of the table\<close>

lemma with_path_step:
  assumes "with_path e path err f s = Some (x, s')" and "\<And>rp. f rp s = Some (x, s') \<Longrightarrow> mstep k s s'"
  shows "mstep k s s'"
  using assms by (auto simp: with_path_def split: prod.splits if_splits)

lemma open_handleD: "open_handle fh s = Some p \<Longrightarrow> \<exists>d. fd_heap (fds (bfs (bufs s))) p = Some d"
  by (auto simp: open_handle_def split: if_splits)

lemma mstep_up: "mstep 1 s s' \<Longrightarrow> mstep 11 s s'" "mstep 0 s s' \<Longrightarrow> mstep 11 s s'"
  by (erule mstep_less; simp)+

text \<open>Operations that make one step of a layer.\<close>

lemma getattr_step: "env_ok e \<Longrightarrow> iFuseGetAttr e path s = Some (r, s') \<Longrightarrow> mstep 11 s s'"
  unfolding iFuseGetAttr_def
  by (erule with_path_step)
     (auto split: if_splits intro: mstep_less [OF mstep_onBuf [OF _ bstep_GetAttr]] mstep_up mstep_fs)

lemma one_step_ops:
  assumes env: "env_ok e"
  shows "iFuseChmod e path mode s = Some (st, s') \<Longrightarrow> mstep 11 s s'"
    "iFuseCreate e path mode s = Some (st, s') \<Longrightarrow> mstep 11 s s'"
    "iFuseUnlink e path s = Some (st, s') \<Longrightarrow> mstep 11 s s'"
    "iFuseTruncate e path sz s = Some (st, s') \<Longrightarrow> mstep 11 s s'"
    "iFuseOpenDir e path s = Some (rf, s') \<Longrightarrow> mstep 11 s s'"
    "iFuseRemoveDir e path s = Some (st, s') \<Longrightarrow> mstep 11 s s'"
    "iFuseIoctl e path cmd s = Some (ri, s') \<Longrightarrow> mstep 11 s s'"
  unfolding iFuseChmod_def iFuseCreate_def iFuseUnlink_def iFuseTruncate_def iFuseOpenDir_def iFuseRemoveDir_def iFuseIoctl_def
  by (erule with_path_step; auto intro: mstep_up(1) dest: mstep_fs [OF env])+

lemma dir_handle_steps:
  assumes env: "env_ok e"
  shows "iFuseCloseDir e path fh s = Some (st, s') \<Longrightarrow> mstep 11 s s'"
    "iFuseReadDir e path fh s = Some (rn, s') \<Longrightarrow> mstep 11 s s'"
  by (auto simp: iFuseCloseDir_def iFuseReadDir_def elim!: with_path_step intro: mstep_up(1) [OF mstep_fs(10) [OF env]]
      mstep_up(1) [OF mstep_fs(11) [OF env]])

text \<open>Opening and closing.\<close>

lemma open_step: "env_ok e \<Longrightarrow> iFuseOpen e path fl s = Some (rf, s') \<Longrightarrow> mstep 11 s s'"
  unfolding iFuseOpen_def
  by (erule with_path_step)
     (auto simp: Let_def split: if_splits intro: mstep_up(1) [OF PreloadOpen_ok] mstep_up(1) [OF mstep_onBuf [OF _ bstep_Open]]
       mstep_up(1) [OF mstep_fs(2)])

lemma close_step: "env_ok e \<Longrightarrow> iFuseClose e path fh s = Some (st, s') \<Longrightarrow> mstep 11 s s'"
  by (auto simp: iFuseClose_def Let_def elim!: with_path_step split: if_splits intro: PreloadClose_ok
      mstep_onBuf [OF _ bstep_Close] mstep_up(1) [OF mstep_fs(3)])

lemma flush_steps:
  assumes env: "env_ok e"
  shows "iFuseFlush e path fh s = Some (st, s') \<Longrightarrow> mstep 11 s s'"
    "iFuseFsync e path sync fh s = Some (st, s') \<Longrightarrow> mstep 11 s s'"
  by (auto simp: iFuseFlush_def iFuseFsync_def elim!: with_path_step split: if_splits
      intro: mstep_up(1) [OF mstep_onBuf [OF _ bstep_Flush [OF env]]] mstep_up(1) [OF mstep_fs(6) [OF env]])

text \<open>Reading and writing.\<close>

lemma read_step:
  assumes env: "env_ok e" and "off + int sz \<le> 2 ^ 32 * g_Blocksize (bufs s)"
    and "iFuseRead e path sz off fh s = Some (rd, s')"
  shows "mstep (22 * sz) s s'"
proof -
  from assms(3) have sz: "0 < sz" "0 \<le> off" by (auto simp: iFuseRead_def split: if_splits)
  with assms(3) obtain p where run: "with_path e path (\<lambda>err. (err, []))
      (\<lambda>_ s. do { let opt = iFuseLibGetOption (mounted_lib s);
                  ((status, buf), s1) \<leftarrow>
                    (if opt_bufferedFS opt
                     then if opt_preload opt then iFusePreloadRead e p off sz s
                          else onBuf (iFuseBufferedFsRead e p off sz) s
                     else onFsP (iFuseFsRead e p off sz) s);
                  Some ((if status < 0 then - ENOENT else status, buf), s1) }) s = Some (rd, s')"
    by (auto simp: iFuseRead_def)
  show ?thesis
    using run
  proof (rule with_path_step)
    fix rp assume "do { let opt = iFuseLibGetOption (mounted_lib s);
                  ((status, buf), s1) \<leftarrow>
                    (if opt_bufferedFS opt
                     then if opt_preload opt then iFusePreloadRead e p off sz s
                          else onBuf (iFuseBufferedFsRead e p off sz) s
                     else onFsP (iFuseFsRead e p off sz) s);
                  Some ((if status < 0 then - ENOENT else status, buf), s1) } = Some (rd, s')"
    then consider r where "iFusePreloadRead e p off sz s = Some (r, s')"
      | r where "onBuf (iFuseBufferedFsRead e p off sz) s = Some (r, s')"
      | r where "onFsP (iFuseFsRead e p off sz) s = Some (r, s')"
      by (auto simp: Let_def split: if_splits)
    then show ?thesis
    proof cases
      case 1
      then show ?thesis by (rule PreloadRead_ok [OF env sz(2) assms(2)])
    next
      case 2
      then show ?thesis by (rule mstep_onBuf) (rule bstep_Read [OF env sz(2) assms(2)])
    next
      case 3
      then have "mstep 1 s s'" by (rule mstep_fs(4) [OF env])
      then show ?thesis by (rule mstep_less) (use sz in simp)
    qed
  qed
qed

lemma write_step:
  assumes env: "env_ok e" and off: "0 \<le> off" "off + int (length buf) \<le> 2 ^ 32 * g_Blocksize (bufs s)"
    and run: "iFuseWrite e path buf off fh s = Some (st, s')"
  shows "mstep 11 s s'"
proof -
  from run obtain p where p: "open_handle fh s = Some p" by (auto simp: iFuseWrite_def)
  from open_handleD [OF p] obtain d where d: "fd_heap (fds (bfs (bufs s))) p = Some d" ..
  from run p show ?thesis
    by (auto simp: iFuseWrite_def elim!: with_path_step split: if_splits
        intro: mstep_onBuf [OF _ bstep_Write [OF env off d]] mstep_up(1) [OF mstep_fs(5) [OF env]])
qed

text \<open>Operations of several steps.\<close>

lemmas mstep_fs_Suc = mstep_fs [unfolded One_nat_def]

lemma rename_rest:
  assumes env: "env_ok e" and run: "do { (status, s2) \<leftarrow> (if there then onFsP (iFuseFsUnlink e to_path) s1 else Some (0, s1));
            if status < 0 then Some (status, s2)
            else do { (status, s3) \<leftarrow> onFsP (iFuseFsRename e from_path to_path) s2;
                      Some (if status < 0 then status else 0, s3) } } = Some (st, s')"
  shows "mstep 2 s1 s'"
  using run by (rule mstep_bind [where j = 1 and k = 1])
    (auto split: if_splits intro: mstep_fs_Suc(8) [OF env] mstep_fs_Suc(14) [OF env])

lemma rename_step: "env_ok e \<Longrightarrow> iFuseRename e path path2 s = Some (st, s') \<Longrightarrow> mstep 11 s s'"
  unfolding iFuseRename_def
  by (erule with_path_step, erule with_path_step, erule mstep_bind [where j = 1 and k = 2])
     (auto simp del: bind_Some_iff bind_eq_Some_conv intro: mstep_fs_Suc(1) rename_rest)

lemma mkdir_step: "env_ok e \<Longrightarrow> iFuseMakeDir e path mode s = Some (st, s') \<Longrightarrow> mstep 11 s s'"
  unfolding iFuseMakeDir_def
  by (erule with_path_step, erule mstep_bind [where j = 1 and k = 1])
     (auto split: if_splits intro: mstep_fs_Suc(1) mstep_fs_Suc(12))

lemma empty_object_step: "env_ok e \<Longrightarrow> empty_object e path s = Some (st, s') \<Longrightarrow> mstep 2 s s'"
  unfolding empty_object_def
  by (erule mstep_bind [where j = 1 and k = 1])
     (auto split: if_splits intro: mstep_fs_Suc(1) mstep_fs_Suc(15) mstep_fs_Suc(7))

lemma open_work_close_step:
  assumes env: "env_ok e" and run: "open_work_close e path fl work s = Some (r, s')"
    and work: "\<And>p s x s1. work p s = Some (x, s1) \<Longrightarrow> mstep 1 s s1"
  shows "mstep 3 s s'"
proof -
  from run obtain st fd s1 where o: "onFsP (iFuseFsOpen e path fl) s = Some ((st, fd), s1)"
    by (auto simp: open_work_close_def)
  note 1 = mstep_fs(2) [OF env o]
  show ?thesis
  proof (cases "st < 0")
    case True
    with run o 1 show ?thesis by (auto simp: open_work_close_def intro: mstep_less)
  next
    case False
    with run o obtain p y s2 st3 s3 where p: "fd = Some p" "work p s1 = Some (y, s2)" "onFsP (iFuseFsClose e p) s2 = Some (st3, s3)" "s' = s3"
      by (auto simp: open_work_close_def)
    have "mstep 1 s2 s'" using mstep_fs(3) [OF env p(3)] p(4) by simp
    with work [OF p(2)] have "mstep 2 s1 s'" by (rule mstep_trans) simp
    with 1 show ?thesis by (rule mstep_trans) simp
  qed
qed

lemma symlink_step:
  assumes env: "env_ok e"
  shows "iFuseSymlink e to_path from_path s = Some (st, s') \<Longrightarrow> mstep 11 s s'"
  unfolding iFuseSymlink_def
  by (erule with_path_step, erule with_path_step, erule mstep_bind [where j = 2 and k = 3])
     (auto split: if_splits intro: empty_object_step [OF env] intro!: mstep_fs_Suc(5) [OF env] elim!: open_work_close_step [OF env])

lemma readlink_step:
  assumes env: "env_ok e"
  shows "iFuseReadLink e path sz s = Some (r, s') \<Longrightarrow> mstep 11 s s'"
  unfolding iFuseReadLink_def
  by (erule with_path_step, rule mstep_less, erule open_work_close_step [OF env])
     (auto split: if_splits intro: mstep_fs_Suc(4) [OF env])

lemma init_step: "env_ok e \<Longrightarrow> iFuseInit e s = Some s' \<Longrightarrow> mstep 11 s s'"
proof -
  assume env: "env_ok e" and run: "iFuseInit e s = Some s'"
  let ?s1 = "set_mounted_lib (iFuseLibInitTimerThread (mounted_lib s)) s"
  have "mstep 0 s ?s1" by (rule mstep_set_lib) (simp add: lib_same_def iFuseLibInitTimerThread_def)
  moreover have "mstep 1 ?s1 s'"
    using run by (auto simp: iFuseInit_def Let_def split: prod.splits if_splits intro: mstep_fs_Suc(18) [OF env])
  ultimately show ?thesis by (rule mstep_trans) simp
qed

lemma destroy_step: "mstep 11 s (iFuseDestroy s)"
  unfolding iFuseDestroy_def
  by (rule mstep_less [OF mstep_set_lib]) (simp_all add: lib_same_def iFuseLibTerminateTimerThread_def)

text \<open>Every call of the table.\<close>

lemma irodsOper_step:
  assumes env: "env_ok e" and ok: "call_ok call s" and run: "irodsOper e call s = Some (st, s')"
  shows "mstep (call_ids call) s s'"
proof (cases call)
  case (Read_call path sz off fh)
  with ok run show ?thesis by (auto simp: irodsOper_def call_ok_def call_ids_def intro: read_step [OF env])
next
  case (Write_call path buf off fh)
  with ok run show ?thesis by (auto simp: irodsOper_def call_ok_def call_ids_def intro: write_step [OF env])
qed (use run in \<open>auto simp: irodsOper_def call_ids_def intro: getattr_step [OF env] one_step_ops [OF env] dir_handle_steps [OF env]
  open_step [OF env] close_step [OF env] flush_steps [OF env] rename_step [OF env] mkdir_step [OF env] symlink_step [OF env]
  readlink_step [OF env] init_step [OF env] destroy_step\<close>)

section \<open>Runs of the mounted program\<close>

text \<open>
  FUSE's calls, threads that run in between, and rounds of the timer.  The number is that of the
  identifiers of connections the run may have used up.
\<close>

inductive mounted_run :: "'w ext \<Rightarrow> 'w preload_state \<Rightarrow> nat \<Rightarrow> 'w preload_state \<Rightarrow> bool" for e s0 where
  mounted_start: "mounted_run e s0 0 s0"
| mounted_call: "mounted_run e s0 n s \<Longrightarrow> call_ok call s \<Longrightarrow> irodsOper e call s = Some (st, s')
     \<Longrightarrow> mounted_run e s0 (n + call_ids call) s'"
| mounted_thread: "mounted_run e s0 n s \<Longrightarrow> pblock_heap s q = Some pb \<Longrightarrow> pb_thread pb = To_run pp
     \<Longrightarrow> preloadTask e pp q s = Some s' \<Longrightarrow> mounted_run e s0 (n + 1) s'"
| mounted_tick: "mounted_run e s0 n s \<Longrightarrow> timerTick e (bfs (bufs s)) = Some t
     \<Longrightarrow> mounted_run e s0 n (s\<lparr>bufs := (bufs s)\<lparr>bfs := t\<rparr>\<rparr>)"

lemma mstep_tick:
  assumes "timerTick e (bfs (bufs s)) = Some t"
  shows "mstep 0 s (s\<lparr>bufs := (bufs s)\<lparr>bfs := t\<rparr>\<rparr>)"
proof (rule mstep_bufs, rule bstepI)
  let ?b = "(bufs s)\<lparr>bfs := t\<rparr>"
  fix m assume b: "buf_good (bufs s)" "id_room (0 + m) (bfs (bufs s))"
  have inv: "fs_inv (bfs (bufs s))" using b(1) by (simp add: buf_good_def)
  have "next_id t = next_id (bfs (bufs s))"
    using assms run_handlers_next_id [OF inv, of e] by (auto simp: timerTick_def split: if_splits)
  moreover have "fs_inv t" using timerTick_same [OF inv, of e] assms by (auto intro: fs_inv_same [OF inv])
  ultimately show "buf_good ?b \<and> id_room m (bfs ?b) \<and> g_Blocksize ?b = g_Blocksize (bufs s)"
    using b by (simp add: buf_good_def id_room_def)
qed

lemma mounted_run_inv:
  assumes "mounted_run e s0 n s" and env: "env_ok e" and inv: "mounted_inv s0" and "ids_left (n + m) s0"
  shows "mounted_inv s \<and> ids_left m s"
  using assms(1,4)
proof (induction n s arbitrary: m rule: mounted_run.induct)
  case mounted_start
  with inv show ?case by simp
next
  case (mounted_call n s call st s')
  with mounted_call.IH [of "call_ids call + m"] have "mounted_inv s" "ids_left (call_ids call + m) s" by (simp_all add: add.assoc)
  with mstepD [OF irodsOper_step [OF env mounted_call.hyps(2,3)]] show ?case by blast
next
  case (mounted_thread n s q pb pp s')
  with mounted_thread.IH [of "1 + m"] have "mounted_inv s" "ids_left (1 + m) s" by (simp_all add: add.assoc)
  with mstepD [OF mstep_task [OF env mounted_thread.hyps(2-4)]] show ?case by blast
next
  case (mounted_tick n s t)
  with mounted_tick.IH [of m] have "mounted_inv s" "ids_left (0 + m) s" by simp_all
  with mstepD [OF mstep_tick [OF mounted_tick.hyps(2)]] show ?case by blast
qed

text \<open>The layers start in order.\<close>

lemma LibInit_option: "g_iFuseOpt (get_lib (iFuseLibInit (fs_start l))) = g_iFuseOpt l"
  and LibInit_next_id: "next_id (iFuseLibInit (fs_start l)) = 0"
proof -
  let ?c = "iFuseConnInit ((conn_start l)\<lparr>rcs := iFuseRodsClientInit (rc_start l)\<rparr>)"
  obtain m where m: "iFuseMetadataCacheInit (lib (rcs ?c), mc_start) = (lib (rcs ?c), m)"
    using metadataCacheInit_start by blast
  have t: "iFuseLibInit (fs_start l) = (fs_start l)\<lparr>fds := iFuseFdInit ((fd_start l)\<lparr>conns := ?c\<rparr>), mcache := m\<rparr>"
    using LibInit_alt [of ?c "fs_start l" m] m by (simp add: fs_start_def fd_start_def conn_start_def)
  have "g_ConnIDGen ?c = 0" by (simp add: iFuseConnInit_def Let_def)
  then show "next_id (iFuseLibInit (fs_start l)) = 0" by (simp add: t iFuseFdInit_def)
  have "g_iFuseOpt (lib (rcs ?c)) = g_iFuseOpt l"
    by (simp add: iFuseConnInit_def Let_def iFuseLibSetTimerTickHandler_def iFuseRodsClientInit_def rc_start_def)
  then show "g_iFuseOpt (get_lib (iFuseLibInit (fs_start l))) = g_iFuseOpt l" by (simp add: t iFuseFdInit_def get_lib_def)
qed

lemma FsInit_keeps:
  "fs_inv (iFuseFsInit t) = fs_inv t" "get_lib (iFuseFsInit t) = get_lib t" "next_id (iFuseFsInit t) = next_id t"
  by (simp_all add: iFuseFsInit_def fs_inv_def get_lib_def Let_def)

lemma mounted_inv_start:
  assumes "opt_blocksize (g_iFuseOpt l) < 2 ^ 31"
  shows "mounted_inv (init_layers l)" "n < 2 ^ 64 - 1 \<Longrightarrow> ids_left n (init_layers l)"
proof -
  let ?t = "iFuseFsInit (iFuseLibInit (fs_start l))"
  let ?b = "iFuseBufferedFSInit (buf_start ?t)"
  have b: "bfs ?b = ?t" "g_DeltaMap ?b = []" "g_CacheMap ?b = []" "block_size_ok (g_Blocksize ?b)"
    using assms by (auto simp: iFuseBufferedFSInit_def buf_start_def Let_def iFuseLibGetOption_def FsInit_keeps LibInit_option
        block_size_ok_def IFUSE_BUFFER_CACHE_BLOCK_SIZE_def)
  have "fs_inv ?t" using fs_inv_start [of l] by (simp add: FsInit_keeps)
  then have "buf_good ?b" using b by (simp add: buf_good_def tables_ok_def)
  moreover have "bufs (init_layers l) = ?b" by (simp add: init_layers_def Let_def iFusePreloadInit_def preload_start_def)
  moreover have "pre_inv (init_layers l)"
    by (auto simp: init_layers_def Let_def iFusePreloadInit_def preload_start_def pre_inv_def blists_def lists_ok_def
        IFUSE_PRELOAD_PBLOCK_NUM_def IFUSE_PRELOAD_MAX_PBLOCK_NUM_def)
  ultimately show "mounted_inv (init_layers l)" by (simp add: mounted_inv_def)
  assume "n < 2 ^ 64 - 1"
  then have "int n < 2 ^ 64 - 1" by simp
  then show "ids_left n (init_layers l)"
    using \<open>bufs _ = ?b\<close> by (simp add: id_room_def b(1) FsInit_keeps LibInit_next_id)
qed

end
