(* ===== verification/IFuse_ReadAnswers.thy ===== *)
theory IFuse_ReadAnswers
  imports IFuse_Main IFuse_Content IFuse_PreloadSafe
begin

text \<open>
  What a read hands back, at each layer: of src/src/iFuse.FS.cpp, of the buffered layer, of the
  preload layer, and of the operation of src/src/iFuseOper.cpp that FUSE calls. A status that is not
  negative is the number of bytes put into the caller's buffer, and they fit.
\<close>

section \<open>What a read answers\<close>

text \<open>A negative status, or the number of the bytes handed over, which are not more than asked for.\<close>

definition answer_ok :: "nat \<Rightarrow> int \<times> bytes \<Rightarrow> bool" where
  "answer_ok sz r \<longleftrightarrow> length (snd r) \<le> sz \<and> (0 \<le> fst r \<longrightarrow> fst r = int (length (snd r)))"

lemma call_retry_failed:
  assumes "call_retry e noted failed status_of call p c = Some (out, c')" and "\<And>r. out \<noteq> Call_ok r"
  shows "\<exists>conn r r'. call conn r = (result out, r') \<and> failed (result out)"
proof -
  from assms(1) obtain cn where cn: "conn_heap c p = Some cn" by (auto simp: call_retry_def)
  let ?y = "onRc (call (cn_conn cn)) c"
  from assms(1) cn obtain c2 where c2: "(if noted then iFuseConnUpdateLastActTime e p False (snd ?y) else Some (snd ?y)) = Some c2"
    by (auto simp: call_retry_def case_prod_unfold Let_def)
  have first: "\<exists>conn r r'. call conn r = (fst ?y, r')"
    by (simp add: onRc_def case_prod_unfold Let_def) (metis prod.collapse)
  have run: "(if failed (fst ?y) then
            (if iFuseRodsClientReadMsgError e (status_of (fst ?y)) then
               do { (status, c3) \<leftarrow> iFuseConnReconnect e p c2;
                    if status < 0 then Some (Reconnect_failed (fst ?y), c3)
                    else do { cn' \<leftarrow> conn_heap c3 p;
                              let z = onRc (call (cn_conn cn')) c3;
                              Some (if failed (fst z) then Retry_failed (fst z) else Call_ok (fst z), snd z) } }
             else Some (Call_failed (fst ?y), c2))
          else Some (Call_ok (fst ?y), c2)) = Some (out, c')"
    using assms(1) by (simp only: call_retry_def cn c2 case_prod_unfold Let_def Option.bind.bind_lunit)
  have f: "failed (fst ?y)" using run assms(2) by (auto split: if_splits)
  show ?thesis
  proof (cases "out = Call_failed (fst ?y) \<or> out = Reconnect_failed (fst ?y)")
    case True
    from first obtain conn r r' where "call conn r = (fst ?y, r')" by blast
    with True f show ?thesis by (intro exI [of _ conn] exI [of _ r] exI [of _ r']) auto
  next
    case False
    with run f assms(2) have "\<exists>x y. out = Retry_failed (fst (onRc (call x) y)) \<and> failed (fst (onRc (call x) y))"
      by (auto simp: Let_def split: if_splits)
    then obtain x y where o: "out = Retry_failed (fst (onRc (call x) y))" "failed (fst (onRc (call x) y))" by blast
    have "\<exists>conn r r'. call conn r = (fst (onRc (call x) y), r')"
      by (simp add: onRc_def case_prod_unfold Let_def) (metis prod.collapse)
    with o show ?thesis by auto
  qed
qed

lemma onC_call: "onC f s = Some (x, s') \<Longrightarrow> \<exists>c c'. f c = Some (x, c')"
  by (auto simp: onC_def onF_def onConn_def)

lemma seek_answer:
  assumes rep: "replies_ok e" and run: "seek_to e p cp off s = Some (Some st, s')"
  shows "st < 0"
proof -
  let ?failed = "\<lambda>(st, lseekOut). st < 0 \<or> lseekOut = None"
  from run obtain d where d: "fd_heap (fds s) p = Some d" "fd_lastFilePointer d \<noteq> off" by (auto simp: seek_to_def split: if_splits)
  with run obtain out s1 where o: "onC (call_retry e True ?failed fst
      (\<lambda>conn. iFuseRodsClientDataObjLseek e conn (fd_fd d) off) cp) s = Some (out, s1)"
    by (simp add: seek_to_def) blast
  have st: "(\<exists>r. out = Call_ok r) \<and> st = - ENOENT \<or> (\<forall>r. out \<noteq> Call_ok r) \<and> st = fst (result out)"
    using run d o by (cases out) (auto simp: seek_to_def split: if_splits)
  from onC_call [OF o] obtain c c' where call: "call_retry e True ?failed fst
      (\<lambda>conn. iFuseRodsClientDataObjLseek e conn (fd_fd d) off) cp c = Some (out, c')" by blast
  from st show ?thesis
  proof
    assume a: "(\<forall>r. out \<noteq> Call_ok r) \<and> st = fst (result out)"
    then have "\<And>r. out \<noteq> Call_ok r" by blast
    from call_retry_failed [OF call this] obtain conn r r' where
      c: "iFuseRodsClientDataObjLseek e conn (fd_fd d) off r = (result out, r')" and f: "?failed (result out)"
      by (elim exE conjE)
    obtain st' o' where r: "result out = (st', o')" by force
    with lseek_reply [OF rep c [unfolded r]] f a show ?thesis by fastforce
  qed simp
qed

lemma Read_answer:
  assumes rep: "replies_ok e" and run: "iFuseFsRead e p off sz s = Some (x, s')"
  shows "answer_ok sz x"
proof -
  from run obtain cp s1 s2 where r: "read_locked e p cp off sz s1 = Some (x, s2)"
    by (auto simp: iFuseFsRead_def with_fd_lock_def split: if_splits)
  then obtain early s3 where k: "seek_to e p cp off s1 = Some (early, s3)" by (auto simp: read_locked_def)
  show ?thesis
  proof (cases early)
    case (Some st)
    with r k seek_answer [OF rep, of p cp off s1 st s3] show ?thesis by (auto simp: read_locked_def answer_ok_def)
  next
    case None
    with r k obtain d where d: "fd_heap (fds s3) p = Some d" by (auto simp: read_locked_def)
    with r k None obtain out s4 where o: "onC (call_retry e True (\<lambda>(st, _). st < 0) fst
        (\<lambda>conn. iFuseRodsClientDataObjRead e conn (fd_fd d) sz) cp) s3 = Some (out, s4)"
      by (simp add: read_locked_def) blast
    show ?thesis
    proof (cases "\<exists>y. out = Call_ok y")
      case True
      then obtain st buf where out: "out = Call_ok (st, buf)" by fastforce
      from onC_call [OF o] obtain c c' where "call_retry e True (\<lambda>(st, _). st < 0) fst
        (\<lambda>conn. iFuseRodsClientDataObjRead e conn (fd_fd d) sz) cp c = Some (Call_ok (st, buf), c')" unfolding out by blast
      from r k None o out d show ?thesis
        by (auto simp: read_locked_def answer_ok_def slice_def split: if_splits)
    next
      case False
      with r k None o d have "x = (- ENOENT, []) \<or> x = (io_error e (fst (result out)), [])"
        by (cases out) (auto simp: read_locked_def)
      then show ?thesis using io_error_neg [of e "fst (result out)"] by (auto simp: answer_ok_def)
    qed
  qed
qed

section \<open>Through blocks\<close>

lemma block_chunk_length:
  assumes B: "block_size_ok B" and i: "0 \<le> i" "i < B" and cur: "cur \<le> nat (B - i)" and bb: "length bb = nat B"
    and run: "block_chunk B i cur n bb = Some (Read_chunk c short)"
  shows "length c \<le> cur"
proof -
  have le: "nat i + cur \<le> nat B" "nat B < 2 ^ 31" using cur i B by (auto simp: block_size_ok_def)
  have s1: "size_t (i + int cur) = nat i + cur"
    using le i by (subst size_t_int) (auto simp: nat_add_distrib)
  let ?cur = "if nat i + cur > n then size_t (int n - i) else cur"
  have c: "nat i + ?cur \<le> nat B" "length c = ?cur"
    using run bb by (auto simp: block_chunk_def Let_def s1 slice_def split: if_splits)
  show ?thesis
  proof (cases "nat i + cur > n")
    case True
    show ?thesis
    proof (cases "n < nat i")
      case False
      then have "size_t (int n - i) = n - nat i" using True le i by (subst size_t_int) (auto simp: nat_diff_distrib)
      then show ?thesis using True c(2) by simp
    next
      case wrap: True
      have lt: "i < 2 ^ 31" using i B by (simp add: block_size_ok_def)
      have "int n - i < 0" "- (2 ^ 64) < int n - i" using wrap i lt by simp_all
      then have "(int n - i) mod 2 ^ 64 = int n - i + 2 ^ 64"
        by (subst mod_add_self2 [symmetric], intro mod_pos_pos_trivial) auto
      then have "size_t (int n - i) = nat (int n - i + 2 ^ 64)" by (simp add: size_t_def)
      moreover have "2 ^ 31 < int n - i + 2 ^ 64" using lt by simp
      ultimately have "nat B < size_t (int n - i)" using B by (simp add: block_size_ok_def)
      with c(1) True show ?thesis by simp
    qed
  qed (use c(2) in simp)
qed

text \<open>A loop that appends chunks of at most the remaining length.\<close>

lemma read_blocks_answer:
  assumes "replies_ok e" and "tables_ok s" and "fs_inv (bfs s)" and "fd_heap (fds (bfs s)) p = Some d"
    and "length bb = nat (g_Blocksize s)" and "0 \<le> off" and "off + int remain \<le> 2 ^ 32 * g_Blocksize s"
    and "length out + remain < 2 ^ 31" and "read_blocks e p off remain out bb s = Some (x, s')"
  shows "answer_ok (length out + remain) x"
  using assms
proof (induction remain arbitrary: off out bb s d rule: less_induct)
  case (less remain)
  show ?case
  proof (cases "remain = 0")
    case True
    then show ?thesis using less.prems(8,9) by (auto simp: read_blocks.simps answer_ok_def)
  next
    case False
    have off: "off_ok (g_Blocksize s) off" using less.prems(6,7) False by (intro off_ok_range) auto
    note live = read_round_live [OF less.prems(1-5) off, of remain]
    from less.prems(9) False obtain r bb' s1 where rd: "read_round e p off remain bb s = Some ((r, bb'), s1)"
      by (subst (asm) read_blocks.simps) auto
    from live rd have io: "buf_io p s s1" "length bb' = nat (g_Blocksize s)" by simp_all
    show ?thesis
    proof (cases r)
      case (Read_failed st)
      then show ?thesis using less.prems(9) False rd live
        by (subst (asm) read_blocks.simps) (auto simp: answer_ok_def)
    next
      case Read_eof
      then show ?thesis using less.prems(8,9) False rd
        by (subst (asm) read_blocks.simps) (auto simp: answer_ok_def)
    next
      case (Read_chunk chunk short)
      with live rd have c: "length chunk \<le> remain" by simp
      show ?thesis
      proof (cases short)
        case True
        then show ?thesis using less.prems(8,9) False rd Read_chunk c
          by (subst (asm) read_blocks.simps) (auto simp: answer_ok_def)
      next
        case sh: False
        have ne: "chunk \<noteq> []" using read_round_chunk rd Read_chunk by metis
        from buf_ioD(6) [OF io(1) less.prems(4)] obtain d1 where d1: "fd_heap (fds (bfs s1)) p = Some d1" by blast
        have "read_blocks e p (off + int (length chunk)) (remain - length chunk) (out @ chunk) bb' s1 = Some (x, s')"
          using less.prems(9) False rd Read_chunk sh by (subst (asm) read_blocks.simps) simp
        from less.IH [OF _ less.prems(1) buf_ioD(2) [OF io(1)] buf_ioD(5) [OF io(1) less.prems(3)] d1 _ _ _ _ this]
          c ne False io less.prems(6-8) buf_ioD(3) [OF io(1)] show ?thesis by auto
      qed
    qed
  qed
qed

lemma Read_buffered_answer:
  assumes env: "env_ok e" and b: "buf_good b" and off: "0 \<le> off" "off + int sz \<le> 2 ^ 32 * g_Blocksize b" and sz: "sz < 2 ^ 31"
    and run: "iFuseBufferedFsRead e p off sz b = Some (x, b')"
  shows "answer_ok sz x"
proof -
  have mal: "SYS_MALLOC_ERR e < 0" using env by (simp add: env_ok_def error_codes_ok_def)
  obtain ok b1 where 1: "onLibB (mem_ok e) b = (ok, b1)" by force
  show ?thesis
  proof (cases "ok \<and> 0 < sz")
    case False
    with run 1 mal show ?thesis by (cases ok) (auto simp: iFuseBufferedFsRead_def answer_ok_def read_blocks.simps [of e p off 0])
  next
    case True
    with run 1 have r: "read_blocks e p off sz [] (zeros (size_t (g_Blocksize b))) b1 = Some (x, b')"
      by (simp add: iFuseBufferedFsRead_def)
    from True r obtain rr bb b2 where "read_round e p off sz (zeros (size_t (g_Blocksize b))) b1 = Some ((rr, bb), b2)"
      by (auto simp: read_blocks.simps [of e p off sz])
    then obtain d where d: "fd_heap (fds (bfs b1)) p = Some d" by (auto simp: read_round_def readBlock_def Let_def)
    have same: "b1 = b\<lparr>bfs := bfs b1\<rparr>" using 1 by (auto simp: onLibB_def split: prod.splits)
    have B: "g_Blocksize b1 = g_Blocksize b" "tables_ok b1" using b by (subst same, simp add: buf_good_def tables_ok_def)+
    have fs: "fs_inv (bfs b1)"
    proof -
      obtain l where l: "mem_ok e (get_lib (bfs b)) = (ok, l)" "b1 = b\<lparr>bfs := put_lib l (bfs b)\<rparr>"
        using 1 by (auto simp: onLibB_def split: prod.splits)
      have "fs_touch (bfs b) (put_lib l (bfs b))"
        using put_lib_touch [OF lib_same_mem [OF l(1)], of "mcache (bfs b)"] by simp
      then show ?thesis using b l(2) by (auto simp: buf_good_def intro: fs_touch_inv)
    qed
    have bb: "length (zeros (size_t (g_Blocksize b))) = nat (g_Blocksize b1)"
      using block_size_nat(1) [OF tables_okD(1) [OF B(2)]] B(1) by (simp add: zeros_def)
    have "replies_ok e" using env by (simp add: env_ok_def)
    from read_blocks_answer [OF this B(2) fs d bb off(1) _ _ r] off(2) sz show ?thesis by (simp add: B(1))
  qed
qed

section \<open>Through the preload\<close>

lemma preload_round_length:
  assumes "block_size_ok (g_Blocksize (bufs s))" and "off_ok (g_Blocksize (bufs s)) off"
    and run: "preload_round e pp off remain bb s = Some ((Read_chunk c short, bb'), s')" and bb: "length bb' = nat (g_Blocksize (bufs s))"
  shows "length c \<le> remain"
proof -
  let ?B = "g_Blocksize (bufs s)" and ?i = "off mod g_Blocksize (bufs s)"
  have i: "0 \<le> ?i" "?i < ?B" using assms(1) by (simp_all add: block_size_ok_def)
  have av: "size_t (?B - ?i) = nat (?B - ?i)" using i assms(1) by (intro size_t_int) (auto simp: block_size_ok_def)
  define cur where "cur = (if nat (?B - ?i) > remain then remain else nat (?B - ?i))"
  from run obtain n where "block_chunk ?B ?i cur n bb' = Some (Read_chunk c short)"
    using getInBlockOffset_ok [OF assms(1,2)] av by (auto simp: preload_round_def Let_def cur_def split: if_split_asm)
  with block_chunk_length [OF assms(1) i _ bb, of cur n c short] show ?thesis by (simp add: cur_def split: if_splits)
qed

lemma preload_blocks_answer:
  assumes env: "env_ok e" and "mounted_inv s" and "ids_left (22 * remain + m) s" and "blists s pp \<noteq> None"
    and "length bb = nat (g_Blocksize (bufs s))" and "0 \<le> off" and "off + int remain \<le> 2 ^ 32 * g_Blocksize (bufs s)"
    and "length out + remain < 2 ^ 31" and "preload_blocks e pp off remain out bb s = Some (Some x, s')"
  shows "answer_ok (length out + remain) x"
  using assms(2-)
proof (induction remain arbitrary: off out bb s rule: less_induct)
  case (less remain)
  note inv = less.prems(1)
  have pre: "pre_inv s" and good: "buf_good (bufs s)" using inv by (simp_all add: mounted_inv_def)
  show ?case
  proof (cases "remain = 0")
    case True
    then show ?thesis using less.prems(7,8) by (auto simp: preload_blocks.simps answer_ok_def)
  next
    case False
    have B: "block_size_ok (g_Blocksize (bufs s))" using good by (simp add: buf_good_def tables_okD(1))
    have off: "off_ok (g_Blocksize (bufs s)) off" using less.prems(5,6) False by (intro off_ok_range) auto
    from less.prems(8) False obtain r bb' s1 where rd: "preload_round e pp off remain bb s = Some ((r, bb'), s1)"
      by (subst (asm) preload_blocks.simps) auto
    from preload_round_ok [OF rd] obtain b st where k: "readPreload e pp bb b s = Some ((st, bb'), s1)" by blast
    from less.prems(3) obtain ps where L: "blists s pp = Some ps" by blast
    note kk = readPreload_ok [OF env pre L k]
    have room: "id_room (22 + (22 * (remain - 1) + m)) (bfs (bufs s))"
      by (rule id_room_less [OF less.prems(2)]) (use False in simp)
    from kk(3) good room less.prems(4) have s1: "buf_good (bufs s1)" "id_room (22 * (remain - 1) + m) (bfs (bufs s1))"
      "g_Blocksize (bufs s1) = g_Blocksize (bufs s)" "length bb' = nat (g_Blocksize (bufs s))"
      unfolding bread_def block_buf_def by auto
    show ?thesis
    proof (cases r)
      case (Read_failed st)
      then show ?thesis using less.prems(8) False rd by (subst (asm) preload_blocks.simps) simp
    next
      case Read_eof
      then show ?thesis using less.prems(7,8) False rd by (subst (asm) preload_blocks.simps) (auto simp: answer_ok_def)
    next
      case (Read_chunk chunk short)
      have c: "length chunk \<le> remain" using preload_round_length [OF B off rd [unfolded Read_chunk] s1(4)] .
      show ?thesis
      proof (cases short)
        case True
        then show ?thesis using less.prems(7,8) False rd Read_chunk c
          by (subst (asm) preload_blocks.simps) (auto simp: answer_ok_def)
      next
        case sh: False
        have ne: "chunk \<noteq> []" using preload_round_chunk rd Read_chunk by metis
        have rest: "preload_blocks e pp (off + int (length chunk)) (remain - length chunk) (out @ chunk) bb' s1 = Some (Some x, s')"
          using less.prems(8) False rd Read_chunk sh by (subst (asm) preload_blocks.simps) simp
        have "ids_left (22 * (remain - length chunk) + m) s1"
          by (rule id_room_less [OF s1(2)]) (use ne in \<open>cases chunk; simp\<close>)
        moreover have "mounted_inv s1" using kk(1) s1(1) by (simp add: mounted_inv_def)
        ultimately show ?thesis
          using less.IH [OF _ _ _ kk(2) _ _ _ _ rest] c ne False s1(3,4) less.prems(5-7) by auto
      qed
    qed
  qed
qed

lemma PreloadRead_answer:
  assumes env: "env_ok e" and inv: "mounted_inv s" and room: "ids_left (22 * sz) s"
    and off: "0 \<le> off" "off + int sz \<le> 2 ^ 32 * g_Blocksize (bufs s)" and sz: "sz < 2 ^ 31"
    and run: "iFusePreloadRead e p off sz s = Some (x, s')"
  shows "answer_ok sz x"
proof -
  obtain ok s1 where 1: "onLibP (mem_ok e) s = (ok, s1)" by force
  from mstepD [OF mstep_mem [OF 1] inv, of "22 * sz + 0"] room have i1: "mounted_inv s1" "ids_left (22 * sz + 0) s1" by simp_all
  from onLibP_mem [OF 1] obtain b1 where b1: "bstep 0 (bufs s) b1" "s1 = s\<lparr>bufs := b1\<rparr>" by blast
  from bstepD(3) [OF b1(1), of "22 * sz"] inv room have B1: "g_Blocksize (bufs s1) = g_Blocksize (bufs s)"
    by (simp add: mounted_inv_def b1(2))
  from run 1 obtain d where d: "fd_heap (fds (bfs (bufs s1))) p = Some d" by (auto simp: iFusePreloadRead_def)
  have around: "answer_ok sz x" if a: "read_around e p off sz t = Some (x, s')" and t: "mounted_inv t"
      and B: "g_Blocksize (bufs t) = g_Blocksize (bufs s)" for t
  proof -
    from a obtain st dat b where r: "iFuseBufferedFsRead e p off sz (bufs t) = Some ((st, dat), b)"
      and x: "x = (if st < 0 then - ENOENT else st, dat)" by (auto simp: read_around_def onBuf_def)
    from Read_buffered_answer [OF env _ off(1) _ sz r] t off(2) B have "answer_ok sz (st, dat)" by (simp add: mounted_inv_def)
    then show ?thesis by (auto simp: x answer_ok_def)
  qed
  show ?thesis
  proof (cases "map_find (g_PreloadMap s1) (fd_fdId d)")
    case None
    with run 1 d have "read_around e p off sz s1 = Some (x, s')" by (simp add: iFusePreloadRead_def)
    from around [OF this i1(1) B1] show ?thesis .
  next
    case (Some pp)
    let ?bb = "zeros (getBufferCacheBlockSize (bufs s1))"
    have pre: "pre_inv s1" "buf_good (bufs s1)" using i1(1) by (simp_all add: mounted_inv_def)
    from run 1 d Some obtain r s2 where 2: "preload_blocks e pp off sz [] ?bb s1 = Some (r, s2)"
      and s': "(case r of Some out \<Rightarrow> Some (out, s2) | None \<Rightarrow> read_around e p off sz s2) = Some (x, s')"
      by (auto simp: iFusePreloadRead_def split: if_splits)
    from map_of_SomeD [OF Some] pre_invD(6) [OF pre(1)] have L: "blists s1 pp \<noteq> None" by auto
    have bb: "block_buf (bufs s1) ?bb" using block_buf_zeros [OF pre(2)] .
    show ?thesis
    proof (cases r)
      case (Some y)
      with s' have y: "y = x" by simp
      from preload_blocks_answer [OF env i1 L _ off(1) _ _ 2 [unfolded Some]] bb off(2) sz B1 y show ?thesis
        by (simp add: block_buf_def)
    next
      case None
      from preload_blocks_ok [OF env pre(1) L 2] obtain bb' where p: "pre_inv s2" "bread (22 * sz) (bufs s1) ?bb (bufs s2) bb'" by blast
      from p(2) pre(2) i1(2) bb have "buf_good (bufs s2)" "g_Blocksize (bufs s2) = g_Blocksize (bufs s1)"
        unfolding bread_def by blast+
      with p(1) B1 around [of s2] s' None show ?thesis by (simp add: mounted_inv_def)
    qed
  qed
qed

section \<open>The operation\<close>

lemma iFuseRead_answer:
  assumes env: "env_ok e" and inv: "mounted_inv s" and room: "ids_left (22 * sz) s"
    and off: "off + int sz \<le> 2 ^ 32 * g_Blocksize (bufs s)" and sz: "sz < 2 ^ 31"
    and run: "iFuseRead e path sz off fh s = Some (x, s')"
  shows "answer_ok sz x"
proof -
  from run have o: "0 \<le> off" by (auto simp: iFuseRead_def split: if_splits)
  have rep: "replies_ok e" and good: "buf_good (bufs s)" using env inv by (simp_all add: env_ok_def mounted_inv_def)
  define rd where "rd p s = (let opt = iFuseLibGetOption (mounted_lib s) in
        if opt_bufferedFS opt
        then if opt_preload opt then iFusePreloadRead e p off sz s else onBuf (iFuseBufferedFsRead e p off sz) s
        else onFsP (iFuseFsRead e p off sz) s)" for p and s :: "'a preload_state"
  from run obtain p where "with_path e path (\<lambda>err. (err, []))
      (\<lambda>_ s. do { ((status, buf), s1) \<leftarrow> rd p s; Some ((if status < 0 then - ENOENT else status, buf), s1) }) s = Some (x, s')"
    by (auto simp: iFuseRead_def rd_def Let_def split: if_splits)
  then have "x = (- ENOTDIR, []) \<or> (\<exists>y t. rd p s = Some (y, t) \<and> x = (if fst y < 0 then - ENOENT else fst y, snd y))"
    by (auto simp: with_path_def split: if_splits prod.splits)
  then show ?thesis
  proof (elim disjE exE conjE)
    fix y t assume y: "rd p s = Some (y, t)" and x: "x = (if fst y < 0 then - ENOENT else fst y, snd y)"
    from y have "iFusePreloadRead e p off sz s = Some (y, t) \<or> (\<exists>b. iFuseBufferedFsRead e p off sz (bufs s) = Some (y, b))
         \<or> (\<exists>t. iFuseFsRead e p off sz (bfs (bufs s)) = Some (y, t))"
      by (auto simp: rd_def Let_def onBuf_def onFsP_def onFs_def split: if_splits)
    then have "answer_ok sz y"
      using PreloadRead_answer [OF env inv room o off sz] Read_buffered_answer [OF env good o off sz] Read_answer [OF rep] by blast
    with x show ?thesis by (auto simp: answer_ok_def)
  qed (simp add: answer_ok_def)
qed

end
