(* ===== verification/IFuse_PreloadThreads.thy ===== *)
theory IFuse_PreloadThreads
  imports IFuse_Main IFuse_PreloadSafe
begin

text \<open>
  The preload layer (src/src/iFuse.Preload.cpp) when the system refuses to create threads: every
  start of a block fails, the lists stay empty, and a read finds no block to read from.
\<close>

section \<open>Starting blocks, and when no thread can be created\<close>

definition no_threads :: "'w ext \<Rightarrow> bool" where
  "no_threads e \<longleftrightarrow> (\<forall>w. fst (c_pthread_create e w) \<noteq> 0)"

lemma onLibP_bufs:
  "onLibP f s = (x, s') \<Longrightarrow> s' = s\<lparr>bufs := bufs s'\<rparr> \<and> fd_heap (fds (bfs (bufs s'))) = fd_heap (fds (bfs (bufs s)))
     \<and> g_Blocksize (bufs s') = g_Blocksize (bufs s)"
  by (auto simp: onLibP_def onLibB_def put_lib_def split: prod.splits)

lemma no_threads_call: "no_threads e \<Longrightarrow> onLibP (ext_call (c_pthread_create e)) s = (st, s') \<Longrightarrow> st \<noteq> 0"
  by (auto simp: no_threads_def onLibP_def onLibB_def ext_call_def split: prod.splits) (metis fst_conv)

text \<open>What such a start leaves alone: all but the memory and the addresses.\<close>

definition idle_start :: "'w preload_state \<Rightarrow> 'w preload_state \<Rightarrow> bool" where
  "idle_start s s' \<longleftrightarrow> preload_heap s' = preload_heap s \<and> g_PreloadMap s' = g_PreloadMap s
     \<and> g_preloadNumBlocks s' = g_preloadNumBlocks s \<and> g_Blocksize (bufs s') = g_Blocksize (bufs s)
     \<and> fd_heap (fds (bfs (bufs s'))) = fd_heap (fds (bfs (bufs s)))"

lemma idle_start_refl [simp, intro]: "idle_start s s"
  by (simp add: idle_start_def)

lemma idle_start_trans: "idle_start s s' \<Longrightarrow> idle_start s' s'' \<Longrightarrow> idle_start s s''"
  by (simp add: idle_start_def)

lemma idle_start_lib: "onLibP f s = (x, s') \<Longrightarrow> idle_start s s'"
  by (drule onLibP_bufs) (metis (no_types, lifting) idle_start_def preload_state.ext_inject preload_state.surjective preload_state.update_convs(1))

text \<open>Starting a block on no descriptor returns, whether or not the thread is made.\<close>

lemma startPreload_returns:
  assumes mem: "calloc_ok e" and pl: "preload_heap s pp = Some pl" "pl_iRodsPath pl \<noteq> None"
  shows "\<exists>st s' pl'. startPreload e pp b None s = Some (st, s') \<and> preload_heap s' pp = Some pl' \<and> pl_iRodsPath pl' \<noteq> None
    \<and> (no_threads e \<longrightarrow> st = - 1 \<and> idle_start s s')"
proof -
  obtain ok1 s1 where 1: "onLibP (mem_ok e) s = (ok1, s1)" by force
  let ?q = "preload_next s1"
  let ?pb = "\<lparr>pb_fd = None, pb_blockID = b, pb_status = PBLOCK_RUNNING, pb_threadJoined = False, pb_thread = No_thread\<rparr>"
  let ?s2 = "set_pblock ?q ?pb (set_pblock ?q \<lparr>pb_fd = None, pb_blockID = 0, pb_status = PBLOCK_INIT, pb_threadJoined = False,
    pb_thread = No_thread\<rparr> (s1\<lparr>preload_next := Suc ?q\<rparr>))"
  obtain ok3 s3 where 3: "onLibP (mem_ok e) ?s2 = (ok3, s3)" by force
  obtain st s4 where 4: "onLibP (ext_call (c_pthread_create e)) s3 = (st, s4)" by force
  have new: "newPreloadPBlock e s = ((0, Some ?q), set_pblock ?q \<lparr>pb_fd = None, pb_blockID = 0, pb_status = PBLOCK_INIT,
      pb_threadJoined = False, pb_thread = No_thread\<rparr> (s1\<lparr>preload_next := Suc ?q\<rparr>))"
    using 1 mem_True [OF mem 1] by (simp add: newPreloadPBlock_def new_addr_def Let_def)
  note idle = idle_start_lib [OF 1] idle_start_lib [OF 3] idle_start_lib [OF 4]
  have heap: "preload_heap s4 pp = Some pl" using idle pl(1) by (simp add: idle_start_def set_pblock_def)
  show ?thesis
  proof (cases "st = 0")
    case True
    have "startPreload e pp b None s = Some (0, set_preload pp (pl\<lparr>pl_pblocks := pl_pblocks pl @ [?q]\<rparr>)
        (set_pblock ?q (?pb\<lparr>pb_thread := To_run pp\<rparr>) s4))"
      using pl new 3 4 mem_True [OF mem 3] True by (auto simp: startPreload_def Let_def set_pblock_def)
    then show ?thesis using pl(2) no_threads_call [OF _ 4] True by (auto simp: set_preload_def)
  next
    case False
    let ?s5 = "set_pblock ?q (?pb\<lparr>pb_status := PBLOCK_CREATION_FAILED\<rparr>) s4"
    have free: "freePreloadPBlock e ?q ?s5 = Some (?s5\<lparr>pblock_heap := (pblock_heap ?s5)(?q := None)\<rparr>)"
      by (simp add: freePreloadPBlock_def join_block_def set_pblock_def)
    have "startPreload e pp b None s = Some (- 1, ?s5\<lparr>pblock_heap := (pblock_heap ?s5)(?q := None)\<rparr>)"
      using pl new 3 4 mem_True [OF mem 3] False free by (auto simp: startPreload_def Let_def set_pblock_def)
    moreover have "idle_start s (?s5\<lparr>pblock_heap := (pblock_heap ?s5)(?q := None)\<rparr>)"
      using idle by (simp add: idle_start_def set_pblock_def)
    ultimately show ?thesis using heap pl(2) by (simp add: set_pblock_def)
  qed
qed

lemma startPreload_fails:
  assumes "calloc_ok e" "no_threads e" "preload_heap s pp = Some pl" "pl_iRodsPath pl \<noteq> None"
  shows "\<exists>s'. startPreload e pp b None s = Some (- 1, s') \<and> idle_start s s'"
  using startPreload_returns [OF assms(1,3,4), of b] assms(2) by auto

lemma start_recycled_fails:
  assumes "calloc_ok e" "no_threads e" "preload_heap s pp = Some pl" "pl_iRodsPath pl \<noteq> None"
  shows "\<exists>s'. start_recycled e pp b [] s = Some ([], s') \<and> idle_start s s'"
  using startPreload_fails [OF assms, of b] by (auto simp: start_recycled_def take_recycled_def)

lemma start_missing_fails:
  assumes "calloc_ok e" "no_threads e" "preload_heap s pp = Some pl" "pl_iRodsPath pl \<noteq> None"
  shows "\<exists>s'. start_missing e pp b i ex [] s = Some ([], s') \<and> idle_start s s'"
  using assms(3)
proof (induction ex arbitrary: i s)
  case (Cons there ex)
  show ?case
  proof (cases there)
    case False
    from start_recycled_fails [OF assms(1,2) Cons.prems assms(4), of "of_nat i + b + 1"] obtain s1 where
      1: "start_recycled e pp (of_nat i + b + 1) [] s = Some ([], s1)" "idle_start s s1" by blast
    have "preload_heap s1 pp = Some pl" using 1(2) Cons.prems by (simp add: idle_start_def)
    from Cons.IH [OF this] 1 False show ?thesis by (auto intro: idle_start_trans)
  qed (use Cons in simp)
qed simp

lemma start_first_returns:
  assumes mem: "calloc_ok e" and "preload_heap s pp = Some pl" "pl_iRodsPath pl \<noteq> None"
  shows "\<exists>s'. start_first e pp i k s = Some s' \<and> (no_threads e \<longrightarrow> idle_start s s')"
  using assms(2,3)
proof (induction k arbitrary: i s pl)
  case (Suc k)
  from startPreload_returns [OF mem Suc.prems, of "of_nat i"] obtain st s1 pl1 where
    1: "startPreload e pp (of_nat i) None s = Some (st, s1)" "preload_heap s1 pp = Some pl1" "pl_iRodsPath pl1 \<noteq> None"
      "no_threads e \<longrightarrow> idle_start s s1" by blast
  from Suc.IH [OF 1(2,3), of "i + 1"] 1(1,4) show ?case by (auto intro: idle_start_trans)
qed simp

lemma readPreload_empty:
  assumes mem: "calloc_ok e" and th: "no_threads e" and pl: "preload_heap s pp = Some pl" "pl_iRodsPath pl \<noteq> None" "pl_pblocks pl = []"
  shows "\<exists>s'. readPreload e pp buf b s = Some ((0, buf), s') \<and> idle_start s s'"
proof -
  obtain ok1 s1 where 1: "onLibP (mem_ok e) s = (ok1, s1)" by force
  have p1: "preload_heap s1 pp = Some pl" using idle_start_lib [OF 1] pl(1) by (simp add: idle_start_def)
  from start_recycled_fails [OF mem th p1 pl(2), of b] obtain s2 where
    2: "start_recycled e pp b [] s1 = Some ([], s2)" "idle_start s1 s2" by blast
  have p2: "preload_heap s2 pp = Some pl" using 2(2) p1 by (simp add: idle_start_def)
  from start_missing_fails [OF mem th p2 pl(2), of b 0 "replicate (nat (g_preloadNumBlocks s)) False"] obtain s3 where
    3: "start_missing e pp b 0 (replicate (nat (g_preloadNumBlocks s)) False) [] s2 = Some ([], s3)" "idle_start s2 s3" by blast
  have "readPreload e pp buf b s = Some ((0, buf), s3)"
    using 1 mem_True [OF mem 1] p1 pl(3) 2(1) p2 3(1) by (simp add: readPreload_def readPreload_blocks_def c_int_def)
  with idle_start_lib [OF 1] 2(2) 3(2) show ?thesis by (blast intro: idle_start_trans)
qed

lemma PreloadRead_empty:
  assumes mem: "calloc_ok e" and th: "no_threads e" and d: "fd_heap (fds (bfs (bufs s))) p = Some d"
    and pp: "map_find (g_PreloadMap s) (fd_fdId d) = Some pp"
    and pl: "preload_heap s pp = Some pl" "pl_iRodsPath pl \<noteq> None" "pl_pblocks pl = []"
    and B: "block_size_ok (g_Blocksize (bufs s))" "off_ok (g_Blocksize (bufs s)) off" and sz: "0 < sz"
  shows "\<exists>s'. iFusePreloadRead e p off sz s = Some ((0, []), s')"
proof -
  obtain ok1 s1 where 1: "onLibP (mem_ok e) s = (ok1, s1)" by force
  note i = idle_start_lib [OF 1, unfolded idle_start_def]
  let ?bb = "zeros (getBufferCacheBlockSize (bufs s1))"
  have B1: "block_size_ok (g_Blocksize (bufs s1))" "off_ok (g_Blocksize (bufs s1)) off" using i B by simp_all
  from getBlockID_ok [OF B1] getInBlockOffset_ok [OF B1] obtain b x where
    b: "getBlockID (g_Blocksize (bufs s1)) off = Some b" "getInBlockOffset (g_Blocksize (bufs s1)) off = Some x" by blast
  have "preload_heap s1 pp = Some pl" using i pl(1) by simp
  from readPreload_empty [OF mem th this pl(2,3), of ?bb b] obtain s2 where
    2: "readPreload e pp ?bb b s1 = Some ((0, ?bb), s2)" by blast
  have "preload_round e pp off sz ?bb s1 = Some ((Read_eof, ?bb), s2)"
    using b 2 by (simp add: preload_round_def Let_def)
  then have "preload_blocks e pp off sz [] ?bb s1 = Some (Some (0, []), s2)"
    using sz by (simp add: preload_blocks.simps [of e pp off sz] c_int_def)
  with 1 i d pp mem_True [OF mem 1] show ?thesis by (auto simp: iFusePreloadRead_def)
qed

lemma PreloadOpen_live:
  assumes mem: "calloc_ok e" and o: "iFuseBufferedFsOpen e path fl (bufs s) = Some ((st, Some p), b)" and st: "0 \<le> st"
    and d: "fd_heap (fds (bfs b)) p = Some d"
  shows "\<exists>s' pp. iFusePreloadOpen e path fl s = Some ((0, Some p), s') \<and> map_find (g_PreloadMap s') (fd_fdId d) = Some pp
    \<and> (no_threads e \<longrightarrow> fd_heap (fds (bfs (bufs s'))) p = Some d \<and> g_Blocksize (bufs s') = g_Blocksize b
       \<and> (\<exists>pl. preload_heap s' pp = Some pl \<and> pl_iRodsPath pl \<noteq> None \<and> pl_pblocks pl = []))"
proof -
  let ?s1 = "s\<lparr>bufs := b\<rparr>"
  have o1: "onBuf (iFuseBufferedFsOpen e path fl) s = Some ((st, Some p), ?s1)" using o by (simp add: onBuf_def)
  obtain a s2 where 2: "onLibP (mem_ok e) ?s1 = (a, s2)" by force
  obtain c s3 where 3: "onLibP (mem_ok e) (s2\<lparr>preload_next := Suc (preload_next s2)\<rparr>) = (c, s3)" by force
  let ?pp = "preload_next s2" and ?pl = "\<lparr>pl_fdId = 0, pl_iRodsPath = None, pl_pblocks = []\<rparr>"
  let ?s4 = "set_preload ?pp ?pl s3"
  have n: "newPreload e ?s1 = Some ((0, Some ?pp), ?s4)"
    using 2 3 mem_True [OF mem 2] mem_True [OF mem 3] by (simp add: newPreload_def new_addr_def Let_def)
  have d4: "fd_heap (fds (bfs (bufs ?s4))) p = Some d"
    using idle_start_lib [OF 2] idle_start_lib [OF 3] d by (simp add: idle_start_def set_preload_def)
  obtain path' s5 where 5: "strdupP e path ?s4 = (path', s5)" by force
  from 5 obtain c5 where g5: "onLibP (mem_ok e) ?s4 = (c5, s5)" "path' = (if c5 then Some path else None)"
    by (auto simp: strdupP_def split: prod.splits)
  have path': "path' = Some path" using g5(2) mem_True [OF mem g5(1)] by simp
  let ?pl' = "?pl\<lparr>pl_fdId := fd_fdId d, pl_iRodsPath := path'\<rparr>"
  let ?s6 = "set_preload ?pp ?pl' s5"
  have pl6: "preload_heap ?s6 ?pp = Some ?pl'" by (simp add: set_preload_def)
  obtain s7 where 7: "start_first e ?pp 0 (nat (g_preloadNumBlocks ?s6)) ?s6 = Some s7" "no_threads e \<longrightarrow> idle_start ?s6 s7"
    using start_first_returns [OF mem pl6, of 0] path' by auto
  have pl: "preload_heap ?s4 ?pp = Some ?pl" by (simp add: set_preload_def)
  have "(if accmode fl = O_RDONLY \<or> accmode fl = O_RDWR
      then start_first e ?pp 0 (nat (g_preloadNumBlocks ?s6)) ?s6 else Some ?s6) \<noteq> None" using 7(1) by simp
  then obtain s8 where 8: "(if accmode fl = O_RDONLY \<or> accmode fl = O_RDWR
      then start_first e ?pp 0 (nat (g_preloadNumBlocks ?s6)) ?s6 else Some ?s6) = Some s8" by blast
  then have i8: "no_threads e \<longrightarrow> idle_start ?s6 s8" using 7 by (auto split: if_splits)
  have "iFusePreloadOpen e path fl s = Some ((0, Some p), s8\<lparr>g_PreloadMap := map_insert (fd_fdId d) ?pp (g_PreloadMap s8)\<rparr>)"
    using o1 st n d4 pl 5 8 by (simp add: iFusePreloadOpen_def Let_def)
  moreover have "no_threads e \<longrightarrow> fd_heap (fds (bfs (bufs s8))) p = Some d \<and> g_Blocksize (bufs s8) = g_Blocksize b
      \<and> preload_heap s8 ?pp = Some ?pl'"
    using i8 d4 idle_start_lib [OF 2] idle_start_lib [OF 3] idle_start_lib [OF g5(1)] by (simp add: idle_start_def set_preload_def)
  ultimately show ?thesis using path' by simp
qed

end
