(* ===== verification/Mounted_Correct.thy ===== *)
theory Mounted_Correct
  imports IFuse_Mounted IFuse_ReadAnswers IFuse_PreloadThreads IFuse_Serving
begin

text \<open>
  The properties of the mounted program as a whole and of its preload layer.
\<close>

section \<open>A file opened through the preload layer\<close>

lemma demo_env_ok: "env_ok demo_ext"
  using file_contract_replies [OF demo_contract] by (simp add: env_ok_def)

definition demo_mount :: "demo preload_state" where
  "demo_mount = init_layers (demo_lib True 1 [])"

lemma demo_mount_bufs: "bufs demo_mount = demo_buf"
  by (simp add: demo_mount_def init_layers_def Let_def iFusePreloadInit_def preload_start_def demo_buf_def demo_fs_def)

lemma demo_mount_ok: "mounted_inv demo_mount" "n < 2 ^ 64 - 1 \<Longrightarrow> ids_left n demo_mount"
  unfolding demo_mount_def by (rule mounted_inv_start; simp add: demo_lib_def demo_opt_def)+

lemma demo_path: "iFuseRodsClientMakeRodsPath demo_ext ''/d/a'' (rcs (conns (fds (bfs (bufs demo_mount))))) = (0, ''/z/d/a'')"
  unfolding demo_mount_bufs demo_buf_simps by code_simp

lemma demo_mount_options:
  "opt_bufferedFS (iFuseLibGetOption (mounted_lib demo_mount))" "opt_preload (iFuseLibGetOption (mounted_lib demo_mount))"
  unfolding demo_mount_bufs demo_buf_simps by code_simp+

lemma demo_mount_open:
  "\<exists>s k pp. mounted_run demo_ext demo_mount 11 s \<and> map_find (g_PreloadMap s) k = Some pp"
proof -
  from demo_opened obtain p b d where o: "iFuseBufferedFsOpen demo_ext ''/z/d/a'' O_RDWR (bufs demo_mount) = Some ((0, Some p), b)"
    "fd_heap (fds (bfs b)) p = Some d" unfolding demo_mount_bufs by blast
  from PreloadOpen_live [OF demo_calloc o(1) _ o(2)] obtain s pp where
    s: "iFusePreloadOpen demo_ext ''/z/d/a'' O_RDWR demo_mount = Some ((0, Some p), s)" "map_find (g_PreloadMap s) (fd_fdId d) = Some pp" by auto
  have "irodsOper demo_ext (Open_call ''/d/a'' O_RDWR) demo_mount = Some (0, s)"
    using s(1) demo_mount_options by (simp add: irodsOper_def iFuseOpen_def with_path_def demo_path)
  from mounted_call [OF mounted_start _ this] have "mounted_run demo_ext demo_mount 11 s" by (simp add: call_ok_def call_ids_def)
  with s(2) show ?thesis by blast
qed

section \<open>The invariant of the mounted program\<close>

text \<open>
  C1: whatever FUSE asks for, in any order and between any rounds of the timer and any steps of
  the read-ahead threads, the layers stay in order until the identifiers of connections are used
  up: the file system layer and the tables of the buffered layer are well formed; the preload of
  an open file is there, holds at most one block more than the number configured, no block number
  twice, and blocks whose status, thread and descriptor agree; and a thread that is still to run
  works for a preload that is there and has its block, so that none runs on a freed preload.
\<close>

theorem mounted_program_sound:
  assumes "env_ok e" and "opt_blocksize (g_iFuseOpt l) < 2 ^ 31"
    and "mounted_run e (init_layers l) n s" and "n < 2 ^ 64 - 1"
  shows "fs_inv (bfs (bufs s)) \<and> tables_ok (bufs s)
    \<and> (\<forall>k pp. map_find (g_PreloadMap s) k = Some pp \<longrightarrow>
         (\<exists>pl. preload_heap s pp = Some pl \<and> length (pl_pblocks pl) \<le> nat (g_preloadNumBlocks s) + 1
            \<and> distinct (numbers (pblock_heap s) (pl_pblocks pl))
            \<and> (\<forall>q \<in> set (pl_pblocks pl). \<exists>pb. pblock_heap s q = Some pb \<and> pblock_wf pp pb)))
    \<and> (\<forall>q pb pp. pblock_heap s q = Some pb \<longrightarrow> pb_thread pb = To_run pp \<longrightarrow>
         (\<exists>pl. preload_heap s pp = Some pl \<and> q \<in> set (pl_pblocks pl)))"
proof -
  have inv: "mounted_inv s"
    using mounted_run_inv [OF assms(3,1) mounted_inv_start(1) [OF assms(2)], of 0] mounted_inv_start(2) [OF assms(2)] assms(4) by simp
  then have p: "pre_inv s" by (simp add: mounted_inv_def)
  note ok = pre_invD(1) [OF p]
  have lists: "\<exists>pl. preload_heap s pp = Some pl \<and> pl_pblocks pl = ps" if "blists s pp = Some ps" for pp ps
    using that by (auto simp: blists_def)
  have "\<exists>pl. preload_heap s pp = Some pl \<and> list_ok (num_blocks s) (pblock_heap s) pp (pl_pblocks pl)"
    if "map_find (g_PreloadMap s) k = Some pp" for k pp
    using pre_invD(6) [OF p map_of_SomeD [OF that]] lists_okD(1) [OF ok] lists by blast
  then have 1: "\<exists>pl. preload_heap s pp = Some pl \<and> length (pl_pblocks pl) \<le> nat (g_preloadNumBlocks s) + 1
            \<and> distinct (numbers (pblock_heap s) (pl_pblocks pl))
            \<and> (\<forall>q \<in> set (pl_pblocks pl). \<exists>pb. pblock_heap s q = Some pb \<and> pblock_wf pp pb)"
    if "map_find (g_PreloadMap s) k = Some pp" for k pp
    using that unfolding list_ok_def by blast
  have 2: "\<exists>pl. preload_heap s pp = Some pl \<and> q \<in> set (pl_pblocks pl)"
    if q: "pblock_heap s q = Some pb" and th: "pb_thread pb = To_run pp" for q pb pp
  proof -
    from ok q th obtain r ps where L: "blists s r = Some ps" "q \<in> set ps"
      unfolding lists_ok_def by (metis preloadThread.distinct(1))
    with lists_okD(6) [OF ok L] q th have "r = pp" by (auto simp: pblock_wf_def)
    with L lists show ?thesis by blast
  qed
  from inv 1 2 show ?thesis by (simp add: mounted_inv_def buf_good_def)
qed

theorem mounted_program_sound_witness:
  "\<exists>s k pp pl. mounted_run demo_ext (init_layers (demo_lib True 1 [])) 11 s \<and> map_find (g_PreloadMap s) k = Some pp
     \<and> preload_heap s pp = Some pl \<and> length (pl_pblocks pl) \<le> nat (g_preloadNumBlocks s) + 1"
proof -
  from demo_mount_open obtain s k pp where
    s: "mounted_run demo_ext (init_layers (demo_lib True 1 [])) 11 s" "map_find (g_PreloadMap s) k = Some pp"
    unfolding demo_mount_def by blast
  have "opt_blocksize (g_iFuseOpt (demo_lib True 1 [])) < 2 ^ 31" by (simp add: demo_lib_def demo_opt_def)
  from mounted_program_sound [OF demo_env_ok this s(1)] s show ?thesis by auto blast
qed

section \<open>The preload layer\<close>

text \<open>
  C7: reading a block through the preload of an open file uses up the list of blocks to recycle:
  each block taken off the list for good leaves room for one that is started. So the last loop of
  \<open>_readPreload\<close>, which would take an element off a list that is empty by then, is never entered,
  and what \<open>_readPreload\<close> does is what comes before it. The preload stays there for the next block.
\<close>

theorem recycle_list_used_up:
  assumes "env_ok e" and "mounted_inv s" and "map_find (g_PreloadMap s) k = Some pp"
  shows "readPreload e pp buf blockID s
      = map_option (\<lambda>((r, _), s'). (r, s')) (readPreload_blocks e pp buf blockID s)
    \<and> (case readPreload_blocks e pp buf blockID s of
         Some ((_, recycle), s') \<Rightarrow> recycle = [] \<and> preload_heap s' pp \<noteq> None
       | None \<Rightarrow> True)"
proof -
  have p: "pre_inv s" using assms(2) by (simp add: mounted_inv_def)
  from pre_invD(6) [OF p map_of_SomeD [OF assms(3)]] obtain ps where L: "blists s pp = Some ps" ..
  note pre = pre_inv_lists [OF p L]
  have "recycle = [] \<and> preload_heap s' pp \<noteq> None" if "readPreload_blocks e pp buf blockID s = Some ((x, recycle), s')" for x recycle s'
  proof -
    obtain st buf' where x: "x = (st, buf')" by force
    from readPreload_blocks_ok [OF assms(1) pre pre_invD(2,3) [OF p] that [unfolded x]] obtain ps' where
      "recycle = []" "pre_lists s' pp ps' []" by blast
    with pre_listsD(2) [of s' pp ps' "[]"] show ?thesis by (auto simp: blists_def)
  qed
  then show ?thesis
    using readPreload_eq [OF assms(1) pre pre_invD(2,3) [OF p]] by (auto split: option.split)
qed

theorem recycle_list_used_up_witness:
  "\<exists>s k pp. mounted_run demo_ext demo_mount 11 s \<and> map_find (g_PreloadMap s) k = Some pp
     \<and> readPreload demo_ext pp (zeros 8) 0 s = map_option (\<lambda>((r, _), s'). (r, s')) (readPreload_blocks demo_ext pp (zeros 8) 0 s)"
proof -
  from demo_mount_open obtain s k pp where s: "mounted_run demo_ext demo_mount 11 s" "map_find (g_PreloadMap s) k = Some pp" by blast
  from mounted_run_inv [OF s(1) demo_env_ok demo_mount_ok(1), of 0] demo_mount_ok(2) have "mounted_inv s" by simp
  from recycle_list_used_up [OF demo_env_ok this s(2)] s show ?thesis by blast
qed

text \<open>
  C8: when the system refuses to create threads, a file that opens through the preload layer
  reads as empty: the open reports success, and a read anywhere in the file returns no bytes and
  the status of the end of the file, although nothing was asked of the server.
\<close>

theorem no_threads_reads_empty:
  assumes "calloc_ok e" and "no_threads e" and "iFuseBufferedFsOpen e path fl (bufs s) = Some ((st, Some p), b)" and "0 \<le> st"
    and "fd_heap (fds (bfs b)) p = Some d" and "block_size_ok (g_Blocksize b)" and "off_ok (g_Blocksize b) off" and "0 < sz"
  shows "\<exists>s1 s2. iFusePreloadOpen e path fl s = Some ((0, Some p), s1) \<and> iFusePreloadRead e p off sz s1 = Some ((0, []), s2)"
proof -
  from PreloadOpen_live [OF assms(1,3,4,5)] assms(2) obtain s1 pp pl where
    1: "iFusePreloadOpen e path fl s = Some ((0, Some p), s1)" "map_find (g_PreloadMap s1) (fd_fdId d) = Some pp"
      "fd_heap (fds (bfs (bufs s1))) p = Some d" "g_Blocksize (bufs s1) = g_Blocksize b"
      "preload_heap s1 pp = Some pl" "pl_iRodsPath pl \<noteq> None" "pl_pblocks pl = []" by blast
  from PreloadRead_empty [OF assms(1,2) 1(3,2,5-7)] 1(1,4) assms(6-8) show ?thesis by auto
qed

definition demo_no_threads :: "demo ext" where
  "demo_no_threads = demo_ext\<lparr>c_pthread_create := (\<lambda>w. (11, w))\<rparr>"

lemma demo_open_no_threads:
  "map_option (\<lambda>((st, p), t). (st, p \<noteq> None, fd_heap (fds t) (the p) \<noteq> None)) (iFuseFsOpen demo_no_threads ''/z/d/a'' O_RDONLY (demo_fs True 1 []))
   = Some (0, True, True)"
  by code_simp

theorem no_threads_reads_empty_witness:
  "\<exists>p s1 s2. iFusePreloadOpen demo_no_threads ''/z/d/a'' O_RDONLY (preload_start demo_buf) = Some ((0, Some p), s1)
     \<and> iFusePreloadRead demo_no_threads p 0 5 s1 = Some ((0, []), s2)"
proof -
  from demo_open_no_threads obtain p t d where o: "iFuseFsOpen demo_no_threads ''/z/d/a'' O_RDONLY (demo_fs True 1 []) = Some ((0, Some p), t)"
    and d: "fd_heap (fds t) p = Some d" by auto
  have b: "iFuseBufferedFsOpen demo_no_threads ''/z/d/a'' O_RDONLY (bufs (preload_start demo_buf)) = Some ((0, Some p), demo_buf\<lparr>bfs := t\<rparr>)"
    using o by (simp add: iFuseBufferedFsOpen_def onFs_def preload_start_def)
  have "calloc_ok demo_no_threads" "no_threads demo_no_threads"
    by (simp_all add: calloc_ok_def no_threads_def demo_no_threads_def demo_ext_def)
  from no_threads_reads_empty [OF this b, of d 0 5] d show ?thesis by (auto simp: block_size_ok_def off_ok_def)
qed

section \<open>What FUSE is answered\<close>

text \<open>
  C9: the answer to a read, whichever layers the options select and however the server fails: a
  negative status, or the number of the bytes handed over, never more of them than were asked for.
\<close>

theorem read_answer_fits:
  assumes "env_ok e" and "mounted_inv s" and "ids_left (22 * sz) s" and "off + int sz \<le> 2 ^ 32 * g_Blocksize (bufs s)"
    and "sz < 2 ^ 31" and "iFuseRead e path sz off fh s = Some ((st, buf), s')"
  shows "length buf \<le> sz \<and> (st < 0 \<or> st = int (length buf))"
  using iFuseRead_answer [OF assms] by (auto simp: answer_ok_def)

lemma demo_memory: "mem_ok demo_ext l = (True, l)" "put_lib (get_lib t) t = t"
  by (simp_all add: mem_ok_def demo_ext_def put_lib_def get_lib_def)

lemma fd_inv_positive: "fd_inv t \<Longrightarrow> fd_heap t p = Some d \<Longrightarrow> 0 < fd_fd d"
  unfolding fd_inv_def by blast

theorem read_answer_fits_witness:
  "\<exists>p s st buf s'. iFuseRead demo_ext ''/d/a'' 3 1 (Some p) s = Some ((st, buf), s') \<and> buf = ''ell'' \<and> st = int (length buf)"
proof -
  from demo_opened obtain p b d where b: "buf_synced demo_cont p b" "buffered_content demo_cont p b = Some ''hello''"
    "demo_up (buf_world b)" "g_Blocksize b = 8" "fd_heap (fds (bfs b)) p = Some d"
    "iFuseBufferedFsOpen demo_ext ''/z/d/a'' O_RDWR demo_buf = Some ((0, Some p), b)"
    "g_iFuseOpt (get_lib (bfs b)) = demo_opt True 1" "g_iFuseEnv (get_lib (bfs b)) = demo_env" by blast
  let ?s = "preload_start b"
  have "bstep 1 demo_buf b" by (rule bstep_Open [OF demo_env_ok b(6)])
  moreover have "buf_good demo_buf" "id_room (1 + 66) (bfs demo_buf)"
    using demo_mount_ok(1) demo_mount_ok(2) [of 67] by (simp_all add: mounted_inv_def demo_mount_bufs)
  ultimately have g: "buf_good b" "id_room 66 (bfs b)" by (rule bstepD)+
  have inv: "mounted_inv ?s" using g(1)
    by (simp add: mounted_inv_def preload_start_def pre_inv_def blists_def lists_ok_def IFUSE_PRELOAD_PBLOCK_NUM_def)
  from Read_buffered_total [OF demo_contract demo_serving b(3,1,2), of 1 3] b(4) obtain b' where
    r: "iFuseBufferedFsRead demo_ext p 1 3 b = Some ((3, ''ell''), b')" by (auto simp: request_ok_def)
  have "onLibP (mem_ok demo_ext) ?s = (True, ?s)" by (simp add: demo_memory onLibP_def onLibB_def preload_start_def)
  then have "iFusePreloadRead demo_ext p 1 3 ?s = Some ((3, ''ell''), ?s\<lparr>bufs := b'\<rparr>)"
    using b(5) r by (simp add: iFusePreloadRead_def read_around_def onBuf_def preload_start_def)
  moreover have "open_handle (Some p) ?s = Some p"
    using b(5) fd_inv_positive [OF fs_inv_D(1), of "bfs b" p d] g(1) by (simp add: open_handle_def buf_good_def preload_start_def)
  ultimately have run: "iFuseRead demo_ext ''/d/a'' 3 1 (Some p) ?s = Some ((3, ''ell''), ?s\<lparr>bufs := b'\<rparr>)"
    using b(7,8) by (simp add: iFuseRead_def with_path_def iFuseRodsClientMakeRodsPath_def iFuseLibGetRodsEnv_def
        iFuseLibGetOption_def get_lib_def preload_start_def demo_ext_def demo_env_def demo_opt_def)
  from read_answer_fits [OF demo_env_ok inv _ _ _ run] g(2) b(4) run show ?thesis by (auto simp: preload_start_def)
qed

end
