(* ===== verification/Spec2Isabelle.thy ===== *)
theory Spec2Isabelle
  imports Client_Correct Pool_Correct FS_Correct Attr_Correct Buffered_Correct Cmd_Correct Mounted_Correct
begin

text \<open>
  The iRODS FUSE client \<open>irodsFs\<close>: a model of its C++ sources (src/src and src/include) and the
  theorems that make it correct.

  The program and its parts. \<open>irodsFs\<close> mounts a collection of an iRODS server as a file system.
  From the bottom up:
  \<^item> the library state of \<open>iFuse.Lib.cpp\<close>: the options, the iRODS environment, and a timer thread
    that calls registered callbacks;
  \<^item> \<open>iFuse.Lib.RodsClientAPI.cpp\<close>: a wrapper for each call of the iRODS client library, which is
    registered while it runs so that a callback of the timer can shut its connection down when it
    takes too long;
  \<^item> \<open>iFuse.Lib.Conn.cpp\<close>: the pool of connections, with reference counts, sharing, free lists, a
    checker (the other callback) and reconnection;
  \<^item> \<open>iFuse.Lib.Fd.cpp\<close>: the open files and directories, each with the connection it uses;
  \<^item> \<open>iFuse.Lib.MetadataCache.cpp\<close>: stats and directory listings, with timeouts;
  \<^item> \<open>iFuse.FS.cpp\<close>: the file system operations on iRODS paths, which combine the three above;
  \<^item> \<open>iFuse.BufferedFS.cpp\<close>: block-wise reading with one cached block for each open file, and
    delayed writing with one piece of pending data (the delta) for each path;
  \<^item> \<open>iFuse.Preload.cpp\<close>: threads that read the next blocks of a file ahead, each on a descriptor
    of its own;
  \<^item> \<open>iFuseOper.cpp\<close>: the operations FUSE calls, which choose a layer by the options;
  \<^item> \<open>iFuseCmdLineOpt.cpp\<close> and \<open>irodsFs.cpp\<close>: the command line and the start of the program.

  Theories and code. A definition has the name of the function it models; helpers of a function
  (the body of a loop, a branch that occurs several times) have names of their own and stand before
  it. \<open>IFuse_Prelude\<close> holds what all share: errno values, open flags, byte buffers with \<open>memcpy\<close>,
  \<open>std::map\<close> as a sorted association list, and the locales \<open>table\<close> and \<open>metered\<close>. \<open>IFuse_Ext\<close> is the
  world outside the sources: the record \<open>'w ext\<close> has one field for each call of the iRODS library
  and of the C library whose answer the program depends on, over an abstract world \<open>'w\<close>. Then one
  theory for each source file: \<open>IFuse_Lib\<close>, \<open>IFuse_Util\<close>, \<open>IFuse_RodsClientAPI\<close>, \<open>IFuse_Conn\<close>,
  \<open>IFuse_Fd\<close>, \<open>IFuse_MetadataCache\<close>, \<open>IFuse_FS\<close>, \<open>IFuse_System\<close> (initialisation and timer of
  \<open>iFuse.Lib.cpp\<close>, which call the other components), \<open>IFuse_BufferedFS\<close>, \<open>IFuse_Preload\<close>,
  \<open>IFuse_Oper\<close>, \<open>IFuse_CmdLineOpt\<close>, \<open>IFuse_Main\<close>, and \<open>IFuse_Mounted\<close> (the table of operations that
  \<open>main\<close> fills, and the runs of the mounted program).

  How state corresponds. Each layer has a record with its static variables and, as its first
  field, the record of the layer below: \<open>lib_state\<close>, \<open>rc_state\<close>, \<open>conn_state\<close>, \<open>fd_state\<close>,
  \<open>fs_state\<close> (which also holds the metadata cache), \<open>buf_state\<close>, \<open>preload_state\<close>. Objects made by
  \<open>calloc\<close> are entries of a heap, a partial function from addresses, so that use after free is a
  failing lookup. An operation takes a state and returns its result and the new state, or \<open>None\<close>
  where the C++ aborts: a failing \<open>assert\<close>, a NULL or freed object, an access outside a buffer, an
  exception nothing catches. Errors the code reports are negative statuses, as in the code. Words
  of the code keep their width where it matters: identifiers are \<open>64 word\<close>, block numbers and
  modes \<open>32 word\<close>, conversions to \<open>size_t\<close> and \<open>int\<close> wrap (\<open>size_t\<close>, \<open>c_int\<close>). Read-write locks are
  modelled where holding them is a state the code depends on (a flag of a connection and of a
  descriptor); the locks of whole tables, which are released before any other component is
  called, are not. A preload thread runs as one step, at the latest when it is joined; so does a
  round of the timer, and so does each operation FUSE calls.

  What the groups of lemmas show.
  \<^item> \<open>Client_Correct\<close>: the registry of running calls, the metadata cache (well formed under every
    sequence of operations; what is put is found until it expires; no look-up that asks for the age
    of an entry can tell a sweep; exactly the named listing follows an update; listings survive
    their byte buffer) and paths.
  \<^item> \<open>Pool_Correct\<close>: the pool is sound in every interleaving of operations and checker rounds, taking
    and giving back are accounted for exactly, the checker frees exactly what is due.
  \<^item> \<open>FS_Correct\<close> (with \<open>IFuse_Steps\<close> and \<open>IFuse_ConnHandles\<close>, where connections without a handle
    come from): the library stays well formed in every sequence of its
    operations and of timer rounds; short operations are balanced; opening and closing; when an open
    aborts and when it leaks.
  \<^item> \<open>Attr_Correct\<close>: attributes answered from the caches, and what unlinking and renaming do to them.
  \<^item> \<open>Buffered_Correct\<close> (with \<open>IFuse_Content\<close>, \<open>IFuse_BufferedSafe\<close>, \<open>IFuse_BufferedContent\<close>,
    \<open>IFuse_Serving\<close>): the bytes. What a reader sees is the server's file with the delta laid over it,
    and reading and writing refine reading and writing that file, both for \<open>iFuse.FS.cpp\<close> and for the
    buffered layer, which are two interpretations of the locale \<open>byte_store\<close>.
  \<^item> \<open>Mounted_Correct\<close> (with \<open>IFuse_ConnIds\<close>, \<open>IFuse_BufferedSteps\<close>, \<open>IFuse_PreloadLists\<close>,
    \<open>IFuse_PreloadSafe\<close>, \<open>IFuse_ReadAnswers\<close>, \<open>IFuse_PreloadThreads\<close>): the mounted program. Every
    operation of the table keeps the invariant of all layers, in every order with threads and timer
    rounds; the lists of the preload layer stay bounded and without duplicates; what a read
    answers; what happens when no thread can be made.
  \<^item> \<open>Cmd_Correct\<close>: parsing ends, numbers reach their options, the command line for FUSE fits.
  Each interface between components is a locale, interpreted on the model's definitions where the
  provider stands: \<open>table\<close> (\<open>std::map\<close>), \<open>id_generator\<close> (three counters), \<open>connection_pool\<close>,
  \<open>expiring_cache\<close> (stats and listings), \<open>byte_store\<close> (twice) and \<open>metered\<close> (steps of the buffered
  layer and of the mounted program, with the identifiers of connections they use up). \<open>IFuse_Server\<close>
  has a small server in memory on which the hypotheses of the theorems are shown to be satisfiable.

  Hypotheses. They state documented behaviour of what is not in the sources: \<open>calloc_ok\<close> (memory
  does not run out), \<open>error_codes_ok\<close> (iRODS error codes are negative), \<open>login_answers\<close> (a login or a
  session ticket answers 0 or an error), \<open>replies_ok\<close> (a read returns
  no more than asked for, a successful seek returns its result), \<open>clock_ok\<close>, \<open>rstrcpy_ok\<close>, and
  \<open>file_contract\<close> and \<open>serving\<close> (what seek, read and write do to a file, on a server that is up).

  Bounds and termination. A connection is known by a 64 bit number that is never reused: theorems
  about sequences of operations ask that fewer than \<open>2 ^ 64 - 1\<close> were made (\<open>conn_room\<close>, \<open>id_room\<close>); a
  call of the mounted program uses 11 at most, a read at most 22 for each byte asked for
  (\<open>call_ids\<close>), which is what the blocks of one round can open. Block numbers wrap at \<open>2 ^ 32\<close> blocks:
  requests are asked to end below that. Requests of \<open>2 ^ 31\<close> bytes and more wrap in the \<open>int\<close> that is
  returned, and block sizes are below \<open>2 ^ 31\<close>, as the option is an \<open>int\<close>. Tokens of the command line
  are shorter than their 30 byte buffer. All loops of the program are total functions, with a
  measure where they are not structural, except the loop over the entries of a collection
  (\<open>read_entries\<close>), which goes on as long as the server sends entries and is a \<open>partial_function\<close>.

  What the proofs brought to light. An open that fails leaks its connection, and a connection
  without a handle, which is what a failed reconnection leaves in the pool, is handed out again and
  ends the program (\<open>FS_Correct\<close>); an expired listing goes on denying that a file exists until it is
  swept (\<open>Client_Correct\<close>); a
  reconnection releases a lock its caller relies on (\<open>Pool_Correct\<close>); a renamed directory keeps
  answering for its old contents (\<open>Attr_Correct\<close>); reading behind the end of a file in its last block
  runs out of the buffer, and pending data is lost when flushing it fails (\<open>Buffered_Correct\<close>); the
  joined path is cut off at the boundary of its buffer (\<open>Client_Correct\<close>); a long option without a
  number swallows the mount point (\<open>Cmd_Correct\<close>); without threads a file reads as empty, and a loop
  that would take an element off an empty list is there but never entered (\<open>Mounted_Correct\<close>).

  Not modelled. Logging and the formatting of times for it, the usage text and the version line,
  since nothing depends on them; the locks of whole tables and the interleavings inside an
  operation or a thread; the sleep of the timer thread, which is a flag and a round; what
  \<open>fuse_main\<close> does between the calls it makes, the system calls of the start (\<open>realpath\<close>, \<open>opendir\<close>,
  \<open>getcwd\<close>, the environment) and the iRODS library, which are parameters. The control tool
  (src/bin/irodsFsCtl.py) and the tests (src/test) are not part of the program. That a preload thread
  reads the same bytes as the file's own descriptor is not proved: it would need a contract for
  several descriptors of one file on the server.
\<close>

end
